(* ===== verification/Prelude.thy ===== *)
theory Prelude
  imports
    Main
    "HOL-Library.Word"
    "HOL-Library.AList"
    "HOL-Library.Char_ord"
    "HOL-Library.List_Lexorder"
    "HOL-Library.Sublist"
    "HOL-Library.Multiset"
begin

text \<open>
  The vocabulary every component shares: Go's byte slices, strings, maps, times and errors, the
  functions of \<^verbatim>\<open>strings\<close>, \<^verbatim>\<open>path\<close>, \<^verbatim>\<open>sort\<close> and \<^verbatim>\<open>strconv\<close> the code calls, and generic facts
  about association lists and sorted lists.
  \<^item> A Go \<^verbatim>\<open>string\<close> is its bytes, a \<^typ>\<open>string\<close>; a \<^verbatim>\<open>[]byte\<close> is a list of \<open>8 word\<close>.
  \<^item> A Go map is an association list with distinct keys. The order of the list is the order of one
    iteration over the map, which Go leaves open: theorems about loops over maps hold for every order.
  \<^item> A \<^verbatim>\<open>time.Time\<close> is the number of nanoseconds since the Unix epoch.
  \<^item> An error is a value; a fallible function returns \<open>Inl e\<close> or \<open>Inr x\<close>.
\<close>

named_theorems go_simps \<open>unfolding rules for the models of Go's library functions\<close>
named_theorems view_simps \<open>how an operation acts on the rows a query returns\<close>

type_synonym byte = "8 word"
type_synonym bytes = "byte list"
type_synonym gotime = int

text \<open>
  The errors the code tells apart: those of \<^verbatim>\<open>io/fs\<close>, the sentinels of \<^verbatim>\<open>internal/transport/errors.go\<close>, a fault of the
  operating system, an error made by \<^verbatim>\<open>fmt.Errorf\<close> or \<^verbatim>\<open>errors.New\<close>, one wrapped with \<^verbatim>\<open>%w\<close>, and the value of \<^verbatim>\<open>errors.Join\<close>.
\<close>

datatype go_error = Errorf string | NotExist | Permission | AuthRequired | Offline | PermissionDenied | RemoteNotFound
  | Conflict | SyncDisabled | IOFault string | Wrapped string go_error | Joined "go_error list"

type_synonym 'a result = "go_error + 'a"

definition bind_result :: "'a result \<Rightarrow> ('a \<Rightarrow> 'b result) \<Rightarrow> 'b result" where
  "bind_result r f = (case r of Inl e \<Rightarrow> Inl e | Inr x \<Rightarrow> f x)"

lemma bind_result_simps [simp]:
  "bind_result (Inl e) f = Inl e"
  "bind_result (Inr x) f = f x"
  by (simp_all add: bind_result_def)

lemma bind_result_Inr: "bind_result r f = Inr y \<longleftrightarrow> (\<exists>x. r = Inr x \<and> f x = Inr y)"
  by (cases r) auto

lemma case_result_Inr: "(case r of Inl e \<Rightarrow> Inl (f e) | Inr x \<Rightarrow> g x) = Inr y \<longleftrightarrow> (\<exists>x. r = Inr x \<and> g x = Inr y)"
  by (cases r) auto

lemma if_result_Inr: "(if c then Inl e else r) = Inr y \<longleftrightarrow> \<not> c \<and> r = Inr y"
  by auto

lemma case_option_Inr: "(case o' of Some e \<Rightarrow> Inl (f e) | None \<Rightarrow> r) = Inr y \<longleftrightarrow> o' = None \<and> r = Inr y"
  by (cases o') auto

lemmas result_Inr = bind_result_Inr case_result_Inr if_result_Inr case_option_Inr

section \<open>Times and 64-bit integers\<close>

definition zero_time :: gotime where
  "zero_time = - 62135596800000000000"

definition UnixMilli :: "gotime \<Rightarrow> int" where
  "UnixMilli t = t div 1000000"

definition ofMilli :: "int \<Rightarrow> gotime" where
  "ofMilli ms = ms * 1000000"

lemma UnixMilli_ofMilli [simp]: "UnixMilli (ofMilli ms) = ms"
  by (simp add: UnixMilli_def ofMilli_def)

lemma ofMilli_UnixMilli: "t mod 1000000 = 0 \<Longrightarrow> ofMilli (UnixMilli t) = t"
  unfolding UnixMilli_def ofMilli_def using div_mult_mod_eq[of t 1000000] by simp

text \<open>The value an \<^verbatim>\<open>int64\<close> holds after the mathematical result \<open>x\<close> wraps around.\<close>

definition wrap64 :: "int \<Rightarrow> int" where
  "wrap64 x = (x + 2 ^ 63) mod 2 ^ 64 - 2 ^ 63"

lemma wrap64_id: "- (2 ^ 63) \<le> x \<Longrightarrow> x < 2 ^ 63 \<Longrightarrow> wrap64 x = x"
  by (simp add: wrap64_def)

lemma wrap64_add_left: "wrap64 (wrap64 x + y) = wrap64 (x + y)"
proof -
  have "(wrap64 x + y + 2 ^ 63) mod 2 ^ 64 = ((x + 2 ^ 63) mod 2 ^ 64 + y) mod 2 ^ 64"
    by (simp add: wrap64_def algebra_simps)
  also have "\<dots> = (x + y + 2 ^ 63) mod 2 ^ 64"
    using mod_add_left_eq[of "x + 2 ^ 63" "2 ^ 64" y] by (simp add: ac_simps)
  finally show ?thesis by (simp add: wrap64_def)
qed

section \<open>Go maps as association lists\<close>

abbreviation map_ok :: "('k \<times> 'v) list \<Rightarrow> bool" where
  "map_ok m \<equiv> distinct (map fst m)"

abbreviation map_put :: "'k \<Rightarrow> 'v \<Rightarrow> ('k \<times> 'v) list \<Rightarrow> ('k \<times> 'v) list" where
  "map_put \<equiv> AList.update"

abbreviation map_del :: "'k \<Rightarrow> ('k \<times> 'v) list \<Rightarrow> ('k \<times> 'v) list" where
  "map_del \<equiv> AList.delete"

lemma map_ok_put [simp]: "map_ok m \<Longrightarrow> map_ok (map_put k v m)"
  by (rule distinct_update)

lemma map_ok_del [simp]: "map_ok m \<Longrightarrow> map_ok (map_del k m)"
  by (rule distinct_delete)

lemma map_of_put: "map_of (map_put k v m) x = (if x = k then Some v else map_of m x)"
  by (simp add: update_conv')

lemma map_of_del: "map_of (map_del k m) x = (if x = k then None else map_of m x)"
  by (simp add: delete_conv')

text \<open>Reading a missing key of a \<^verbatim>\<open>map[K]V\<close> gives the zero value of \<^verbatim>\<open>V\<close>.\<close>

definition get_default :: "'v \<Rightarrow> ('k \<times> 'v) list \<Rightarrow> 'k \<Rightarrow> 'v" where
  "get_default z m k = (case map_of m k of None \<Rightarrow> z | Some v \<Rightarrow> v)"

lemma get_default_Nil [simp]: "get_default z [] k = z"
  by (simp add: get_default_def)

lemma get_default_put [simp]:
  "get_default z (map_put k v m) x = (if x = k then v else get_default z m x)"
  by (simp add: get_default_def map_of_put)

lemma get_default_Some: "map_of m k = Some v \<Longrightarrow> get_default z m k = v"
  by (simp add: get_default_def)

lemma get_default_in: "map_ok m \<Longrightarrow> (k, v) \<in> set m \<Longrightarrow> get_default z m k = v"
  by (simp add: get_default_def)

lemma get_default_notin: "k \<notin> fst ` set m \<Longrightarrow> get_default z m k = z"
  by (simp add: get_default_def map_of_eq_None_iff[THEN iffD2])

section \<open>Strings and paths\<close>

definition HasPrefix :: "string \<Rightarrow> string \<Rightarrow> bool" where
  "HasPrefix s p = (take (length p) s = p)"

definition HasSuffix :: "string \<Rightarrow> string \<Rightarrow> bool" where
  "HasSuffix s p = (length p \<le> length s \<and> drop (length s - length p) s = p)"

text \<open>How SQLite's \<^verbatim>\<open>LIKE\<close> and \<^verbatim>\<open>lower\<close> compare letters: the case of ASCII letters is ignored.\<close>

definition ascii_fold :: "char \<Rightarrow> nat" where
  "ascii_fold c = (let n = of_char c in if 65 \<le> n \<and> n \<le> 90 then n + 32 else n)"

definition sql_lower :: "string \<Rightarrow> string" where
  "sql_lower s = map (\<lambda>c. char_of (ascii_fold c)) s"

fun Contains :: "string \<Rightarrow> string \<Rightarrow> bool" where
  "Contains [] p = (p = [])"
| "Contains (c # s) p = (HasPrefix (c # s) p \<or> Contains s p)"

lemma HasPrefix_iff: "HasPrefix s p \<longleftrightarrow> (\<exists>t. s = p @ t)"
  unfolding HasPrefix_def by (metis append_eq_conv_conj append_take_drop_id)

lemma HasSuffix_iff: "HasSuffix s p \<longleftrightarrow> (\<exists>t. s = t @ p)"
proof
  assume "HasSuffix s p"
  then show "\<exists>t. s = t @ p"
    unfolding HasSuffix_def by (metis append_take_drop_id)
qed (auto simp: HasSuffix_def)

lemma Contains_iff: "Contains s p \<longleftrightarrow> (\<exists>a b. s = a @ p @ b)"
proof (induction s)
  case (Cons c s)
  have "(\<exists>a b. c # s = a @ p @ b) \<longleftrightarrow> (\<exists>b. c # s = p @ b) \<or> (\<exists>a b. s = a @ p @ b)"
    by (metis append_Cons append_Nil list.exhaust list.inject)
  then show ?case by (simp add: Cons HasPrefix_iff)
qed simp

text \<open>\<^verbatim>\<open>strings.Split(s, sep)\<close> for a one-byte separator.\<close>

fun Split :: "string \<Rightarrow> char \<Rightarrow> string list" where
  "Split [] sep = [[]]"
| "Split (c # s) sep =
     (if c = sep then [] # Split s sep
      else (case Split s sep of [] \<Rightarrow> [[c]] | p # ps \<Rightarrow> (c # p) # ps))"

lemma Split_not_Nil [simp]: "Split s sep \<noteq> []"
  by (cases s) (auto split: list.splits)

definition Trim :: "string \<Rightarrow> char \<Rightarrow> string" where
  "Trim s c = rev (dropWhile (\<lambda>x. x = c) (rev (dropWhile (\<lambda>x. x = c) s)))"

definition path_base :: "string \<Rightarrow> string" where
  "path_base s =
     (if s = [] then ''.''
      else (let t = rev (dropWhile (\<lambda>x. x = CHR ''/'') (rev s))
            in if t = [] then ''/'' else last (Split t (CHR ''/''))))"

fun join_path :: "string list \<Rightarrow> string" where
  "join_path [] = []"
| "join_path [p] = p"
| "join_path (p # ps) = p @ CHR ''/'' # join_path ps"

text \<open>
  \<^verbatim>\<open>path.Clean\<close>: drop empty and \<^verbatim>\<open>.\<close> elements, let \<^verbatim>\<open>..\<close> remove the element before it. The
  accumulator is the cleaned path so far, last element first.
\<close>

fun clean_elems :: "bool \<Rightarrow> string list \<Rightarrow> string list \<Rightarrow> string list" where
  "clean_elems rooted acc [] = rev acc"
| "clean_elems rooted acc (p # ps) =
     (if p = [] \<or> p = ''.'' then clean_elems rooted acc ps
      else if p = ''..'' then
        (case acc of
           [] \<Rightarrow> clean_elems rooted (if rooted then [] else [''..'']) ps
         | q # qs \<Rightarrow> if q = ''..'' then clean_elems rooted (''..'' # acc) ps
                     else clean_elems rooted qs ps)
      else clean_elems rooted (p # acc) ps)"

definition path_clean :: "string \<Rightarrow> string" where
  "path_clean s =
     (if s = [] then ''.''
      else (let rooted = (hd s = CHR ''/'');
                body = join_path (clean_elems rooted [] (Split s (CHR ''/'')))
            in if rooted then CHR ''/'' # body
               else if body = [] then ''.'' else body))"

definition path_join :: "string list \<Rightarrow> string" where
  "path_join ps =
     (let qs = filter (\<lambda>p. p \<noteq> []) ps
      in if qs = [] then [] else path_clean (join_path qs))"

text \<open>A path element a join keeps as it is: not empty, no slash, neither \<^verbatim>\<open>.\<close> nor \<^verbatim>\<open>..\<close>.\<close>

definition plain_elem :: "string \<Rightarrow> bool" where
  "plain_elem p \<longleftrightarrow> p \<noteq> [] \<and> CHR ''/'' \<notin> set p \<and> p \<noteq> ''.'' \<and> p \<noteq> ''..''"

lemma Split_no_sep: "sep \<notin> set p \<Longrightarrow> Split p sep = [p]"
  by (induction p) auto

lemma Split_append_sep: "sep \<notin> set p \<Longrightarrow> Split (p @ sep # s) sep = p # Split s sep"
  by (induction p) auto

lemma Split_join_path:
  "ps \<noteq> [] \<Longrightarrow> \<forall>p \<in> set ps. CHR ''/'' \<notin> set p \<Longrightarrow> Split (join_path ps) (CHR ''/'') = ps"
  by (induction ps rule: join_path.induct) (auto simp: Split_no_sep Split_append_sep)

lemma clean_elems_plain:
  "\<forall>p \<in> set ps. plain_elem p \<Longrightarrow> clean_elems rooted acc ps = rev acc @ ps"
  by (induction ps arbitrary: acc) (auto simp: plain_elem_def)

lemma join_path_eq_Nil: "join_path ps = [] \<longleftrightarrow> ps = [] \<or> ps = [[]]"
  by (cases ps rule: join_path.cases) auto

lemma hd_join_path:
  "ps \<noteq> [] \<Longrightarrow> hd ps \<noteq> [] \<Longrightarrow> hd (join_path ps) = hd (hd ps)"
  by (cases ps rule: join_path.cases) auto

lemma path_join_plain:
  assumes "ps \<noteq> []" and "\<forall>p \<in> set ps. plain_elem p"
  shows "path_join ps = join_path ps"
proof -
  have f: "filter (\<lambda>p. p \<noteq> []) ps = ps"
    using assms(2) by (auto simp: filter_id_conv plain_elem_def)
  have ne: "join_path ps \<noteq> []"
  proof -
    have "\<not> plain_elem []" by (simp add: plain_elem_def)
    then have "ps \<noteq> [[]]" using assms(2) list.set_intros(1) by metis
    with assms(1) show ?thesis by (simp add: join_path_eq_Nil)
  qed
  have "hd ps \<in> set ps" using assms(1) by simp
  then have p: "plain_elem (hd ps)" using assms(2) by blast
  then have hne: "hd ps \<noteq> []" by (simp add: plain_elem_def)
  from p have "hd (hd ps) \<noteq> CHR ''/''"
    using hd_in_set[OF hne] unfolding plain_elem_def by metis
  then have h: "hd (join_path ps) \<noteq> CHR ''/''"
    using hd_join_path[OF assms(1) hne] by simp
  have sp: "Split (join_path ps) (CHR ''/'') = ps"
    using assms by (intro Split_join_path) (auto simp: plain_elem_def)
  show ?thesis
    using f ne h sp clean_elems_plain[OF assms(2), of False "[]"]
    by (simp add: path_join_def path_clean_def Let_def assms(1))
qed

section \<open>Decimal numbers\<close>

definition digit_char :: "nat \<Rightarrow> char" where
  "digit_char d = char_of (48 + d)"

fun show_nat :: "nat \<Rightarrow> string" where
  "show_nat n = (if n < 10 then [digit_char n] else show_nat (n div 10) @ [digit_char (n mod 10)])"

declare show_nat.simps [simp del]

definition show_int :: "int \<Rightarrow> string" where
  "show_int i = (if i < 0 then CHR ''-'' # show_nat (nat (- i)) else show_nat (nat i))"

definition digit_val :: "char \<Rightarrow> nat option" where
  "digit_val c = (let n = of_char c in if 48 \<le> n \<and> n \<le> 57 then Some (n - 48) else None)"

fun parse_digits :: "nat \<Rightarrow> string \<Rightarrow> nat option" where
  "parse_digits acc [] = Some acc"
| "parse_digits acc (c # s) =
     (case digit_val c of None \<Rightarrow> None | Some d \<Rightarrow> parse_digits (10 * acc + d) s)"

text \<open>
  \<^verbatim>\<open>strconv.ParseInt(s, 10, 64)\<close>: an optional sign and at least one digit; \<open>None\<close> is a syntax or
  range error.
\<close>

definition ParseInt :: "string \<Rightarrow> int option" where
  "ParseInt s =
     (let (neg, ds) = (case s of
            [] \<Rightarrow> (False, [])
          | c # t \<Rightarrow> if c = CHR ''-'' then (True, t)
                     else if c = CHR ''+'' then (False, t) else (False, s))
      in if ds = [] then None
         else (case parse_digits 0 ds of
                 None \<Rightarrow> None
               | Some n \<Rightarrow> let i = (if neg then - int n else int n)
                           in if - (2 ^ 63) \<le> i \<and> i < 2 ^ 63 then Some i else None))"

text \<open>The number \<^verbatim>\<open>strconv.Atoi\<close> or \<^verbatim>\<open>ParseInt\<close> returns beside its error: 0 for a syntax error, the nearest bound for a number out of range.\<close>

definition Atoi_value :: "string \<Rightarrow> int" where
  "Atoi_value s =
     (let neg = (s \<noteq> [] \<and> hd s = CHR ''-''); ds = (if s \<noteq> [] \<and> hd s \<in> set ''+-'' then tl s else s)
      in if ds = [] then 0
         else (case parse_digits 0 ds of
                 None \<Rightarrow> 0
               | Some n \<Rightarrow> if neg then max (- (2 ^ 63)) (- int n) else min (2 ^ 63 - 1) (int n)))"

text \<open>\<^verbatim>\<open>strings.Join\<close>.\<close>

fun strings_Join :: "string list \<Rightarrow> string \<Rightarrow> string" where
  "strings_Join [] sep = []"
| "strings_Join [s] sep = s"
| "strings_Join (s # ss) sep = s @ sep @ strings_Join ss sep"

text \<open>\<^verbatim>\<open>strings.ReplaceAll\<close> of a non-empty string.\<close>

function replace_all :: "string \<Rightarrow> string \<Rightarrow> string \<Rightarrow> string" where
  "replace_all [] old new = []"
| "replace_all (c # s) old new =
     (if old \<noteq> [] \<and> HasPrefix (c # s) old then new @ replace_all (drop (length old) (c # s)) old new else c # replace_all s old new)"
  by pat_completeness auto
termination
  by (relation "measure (\<lambda>(s, _, _). length s)") auto

definition TrimPrefix :: "string \<Rightarrow> string \<Rightarrow> string" where
  "TrimPrefix s p = (if HasPrefix s p then drop (length p) s else s)"

text \<open>\<^verbatim>\<open>strings.Cut\<close> at a one-byte separator: what comes before it, what comes after it, and whether it is there.\<close>

definition Cut :: "string \<Rightarrow> char \<Rightarrow> string \<times> string \<times> bool" where
  "Cut s c = (if c \<in> set s then (takeWhile (\<lambda>x. x \<noteq> c) s, tl (dropWhile (\<lambda>x. x \<noteq> c) s), True) else (s, [], False))"

lemma digit_val_char [simp]: "d < 10 \<Longrightarrow> digit_val (digit_char d) = Some d"
  by (simp add: digit_val_def digit_char_def)

lemma parse_digits_append:
  "parse_digits acc (s @ t) = (case parse_digits acc s of None \<Rightarrow> None | Some a \<Rightarrow> parse_digits a t)"
  by (induction s arbitrary: acc) (auto split: option.splits)

lemma parse_show_nat: "parse_digits 0 (show_nat n) = Some n"
proof (induction n rule: show_nat.induct)
  case (1 n)
  show ?case
  proof (cases "n < 10")
    case True
    then show ?thesis by (simp add: show_nat.simps[of n])
  next
    case False
    with 1 have "parse_digits 0 (show_nat (n div 10)) = Some (n div 10)" by simp
    with False show ?thesis
      by (simp add: show_nat.simps[of n] parse_digits_append)
  qed
qed

lemma show_nat_not_Nil [simp]: "show_nat n \<noteq> []"
  by (subst show_nat.simps) simp

lemma hd_show_nat: "\<exists>d < 10. hd (show_nat n) = digit_char d"
proof (induction n rule: show_nat.induct)
  case (1 n)
  show ?case
  proof (cases "n < 10")
    case True
    then show ?thesis by (auto simp: show_nat.simps[of n])
  next
    case False
    with 1 obtain d where "d < 10" "hd (show_nat (n div 10)) = digit_char d" by auto
    with False show ?thesis by (subst show_nat.simps) auto
  qed
qed

lemma digit_char_not_sign: "d < 10 \<Longrightarrow> digit_char d \<noteq> CHR ''-'' \<and> digit_char d \<noteq> CHR ''+''"
  by (auto simp: digit_char_def dest!: arg_cong[where f = "of_char :: char \<Rightarrow> nat"])

lemma ParseInt_show_int:
  assumes "- (2 ^ 63) \<le> i" and "i < 2 ^ 63"
  shows "ParseInt (show_int i) = Some i"
proof (cases "i < 0")
  case True
  with assms show ?thesis
    by (simp add: ParseInt_def show_int_def parse_show_nat)
next
  case False
  obtain c t where ct: "show_nat (nat i) = c # t" by (metis list.exhaust show_nat_not_Nil)
  with hd_show_nat[of "nat i"] obtain d where "d < 10" "c = digit_char d" by auto
  then have "c \<noteq> CHR ''-''" "c \<noteq> CHR ''+''" using digit_char_not_sign by auto
  with ct False assms parse_show_nat[of "nat i"] show ?thesis
    by (simp add: ParseInt_def show_int_def)
qed

lemma show_nat_inject [simp]: "show_nat m = show_nat n \<longleftrightarrow> m = n"
  by (metis parse_show_nat option.inject)

lemma set_show_nat: "set (show_nat n) \<subseteq> digit_char ` {..<10}"
proof (induction n rule: show_nat.induct)
  case (1 n)
  then show ?case by (subst show_nat.simps) auto
qed

lemma same_sep:
  assumes "x \<notin> set xs" and "x \<notin> set ys"
  shows "xs @ x # as = ys @ x # bs \<longleftrightarrow> xs = ys \<and> as = bs"
  using assms
proof (induction xs arbitrary: ys)
  case Nil
  then show ?case by (cases ys) auto
next
  case (Cons z xs)
  then show ?case by (cases ys) auto
qed

lemma hash_not_in_show_int: "CHR ''#'' \<notin> set (show_int i)"
proof -
  have "CHR ''#'' \<notin> digit_char ` {..<10}"
    by (auto simp: digit_char_def dest!: arg_cong[where f = "of_char :: char \<Rightarrow> nat"])
  then show ?thesis using set_show_nat by (auto simp: show_int_def)
qed

lemma show_int_inject: "show_int i = show_int j \<Longrightarrow> i = j"
proof -
  have "hd (show_nat n) \<noteq> CHR ''-''" for n
    using hd_show_nat[of n] digit_char_not_sign by metis
  moreover assume "show_int i = show_int j"
  ultimately show ?thesis
    by (auto simp: show_int_def split: if_splits) (metis list.sel(1))+
qed

lemma length_filter_all: "length (filter P xs) = length xs \<longleftrightarrow> list_all P xs"
  using length_filter_le[of P xs] length_filter_less[of _ xs P] by (metis filter_id_conv list_all_iff nat_less_le)

section \<open>Sorting\<close>

text \<open>
  \<^verbatim>\<open>sort.SliceStable(xs, less)\<close> as insertion: an element moves in front of the elements it is less
  than, and behind its equals. \<^verbatim>\<open>sort.Slice\<close> is modelled by the same function where the code gives
  it a total order, which leaves no choice.
\<close>

fun insert_by :: "('a \<Rightarrow> 'a \<Rightarrow> bool) \<Rightarrow> 'a \<Rightarrow> 'a list \<Rightarrow> 'a list" where
  "insert_by lt x [] = [x]"
| "insert_by lt x (y # ys) = (if lt y x then y # insert_by lt x ys else x # y # ys)"

definition sort_by :: "('a \<Rightarrow> 'a \<Rightarrow> bool) \<Rightarrow> 'a list \<Rightarrow> 'a list" where
  "sort_by lt xs = foldr (insert_by lt) xs []"

lemma sort_by_Nil [simp]: "sort_by lt [] = []"
  by (simp add: sort_by_def)

lemma sort_by_Cons [simp]: "sort_by lt (x # xs) = insert_by lt x (sort_by lt xs)"
  by (simp add: sort_by_def)

lemma mset_insert_by [simp]: "mset (insert_by lt x ys) = add_mset x (mset ys)"
  by (induction ys) auto

lemma mset_sort_by [simp]: "mset (sort_by lt xs) = mset xs"
  by (induction xs) auto

lemma mset_map_sort_by: "mset (map f (sort_by lt xs)) = mset (map f xs)"
  by (simp only: mset_map mset_sort_by)

lemma set_insert_by [simp]: "set (insert_by lt x ys) = insert x (set ys)"
  by (metis mset_insert_by set_mset_add_mset_insert set_mset_mset)

lemma set_sort_by [simp]: "set (sort_by lt xs) = set xs"
  by (metis mset_sort_by set_mset_mset)

lemma length_sort_by [simp]: "length (sort_by lt xs) = length xs"
  by (metis mset_sort_by size_mset)

text \<open>The contract a comparison function must satisfy for a sort to make sense.\<close>

locale strict_weak_less =
  fixes lt :: "'a \<Rightarrow> 'a \<Rightarrow> bool" and carrier :: "'a set"
  assumes asym: "x \<in> carrier \<Longrightarrow> y \<in> carrier \<Longrightarrow> lt x y \<Longrightarrow> \<not> lt y x"
    and neg_trans: "x \<in> carrier \<Longrightarrow> y \<in> carrier \<Longrightarrow> z \<in> carrier \<Longrightarrow>
      \<not> lt x y \<Longrightarrow> \<not> lt y z \<Longrightarrow> \<not> lt x z"
begin

lemma insert_by_sorted:
  assumes "x \<in> carrier" and "set ys \<subseteq> carrier"
    and "sorted_wrt (\<lambda>a b. \<not> lt b a) ys"
  shows "sorted_wrt (\<lambda>a b. \<not> lt b a) (insert_by lt x ys)"
  using assms
proof (induction ys)
  case (Cons y ys)
  show ?case
  proof (cases "lt y x")
    case True
    with Cons asym show ?thesis by auto
  next
    case False
    have "\<forall>z \<in> set ys. \<not> lt z x"
      using Cons.prems False neg_trans[of _ y x] by (auto simp: subset_iff)
    with False Cons.prems show ?thesis by auto
  qed
qed simp

lemma sort_by_sorted:
  "set xs \<subseteq> carrier \<Longrightarrow> sorted_wrt (\<lambda>a b. \<not> lt b a) (sort_by lt xs)"
  by (induction xs) (simp_all add: insert_by_sorted)

lemma insert_by_front: "\<forall>z \<in> set zs. \<not> lt z x \<Longrightarrow> insert_by lt x zs = x # zs"
  by (cases zs) auto

lemma filter_insert_by:
  assumes "x \<in> carrier" "set ys \<subseteq> carrier" "sorted_wrt (\<lambda>a b. \<not> lt b a) ys"
  shows "filter P (insert_by lt x ys) = (if P x then insert_by lt x (filter P ys) else filter P ys)"
  using assms
proof (induction ys)
  case (Cons y ys)
  show ?case
  proof (cases "lt y x")
    case False
    then have "\<forall>z \<in> set (y # ys). \<not> lt z x" using Cons.prems neg_trans[of _ y x] by (auto simp: subset_iff)
    then show ?thesis using insert_by_front[of "filter P (y # ys)" x] by auto
  qed (use Cons in auto)
qed simp

lemma filter_sort_by: "set xs \<subseteq> carrier \<Longrightarrow> filter P (sort_by lt xs) = sort_by lt (filter P xs)"
  by (induction xs) (simp_all add: filter_insert_by sort_by_sorted)

lemma hd_sort_by_least:
  assumes "xs \<noteq> []" and "set xs \<subseteq> carrier"
  shows "hd (sort_by lt xs) \<in> set xs \<and> (\<forall>y \<in> set xs. \<not> lt y (hd (sort_by lt xs)))"
proof -
  obtain z zs where z: "sort_by lt xs = z # zs"
    using assms(1) length_sort_by[of lt xs] by (metis length_0_conv list.exhaust)
  have s: "insert z (set zs) = set xs" using set_sort_by[of lt xs] z by simp
  have "sorted_wrt (\<lambda>a b. \<not> lt b a) (z # zs)"
    using sort_by_sorted[OF assms(2)] z by simp
  moreover have "\<not> lt z z" using asym s assms(2) by blast
  ultimately show ?thesis using z s by auto
qed

end

lemma sorted_wrt_unique:
  assumes "sorted_wrt R xs" and "sorted_wrt R ys" and "mset xs = mset ys"
    and "\<And>a b. a \<in> set xs \<Longrightarrow> b \<in> set xs \<Longrightarrow> R a b \<Longrightarrow> R b a \<Longrightarrow> a = b"
  shows "xs = ys"
  using assms
proof (induction xs arbitrary: ys)
  case (Cons x xs)
  obtain y ys' where ys: "ys = y # ys'"
    using Cons.prems(3) by (cases ys) auto
  have st: "set (x # xs) = set ys" using Cons.prems(3) by (metis set_mset_mset)
  have "x = y"
  proof (rule ccontr)
    assume ne: "x \<noteq> y"
    then have xy: "x \<in> set ys'" "y \<in> set xs" using st ys by auto
    then have "R x y" "R y x" using Cons.prems(1,2) ys by auto
    with ne xy(2) Cons.prems(4)[of x y] show False by auto
  qed
  moreover have "xs = ys'"
    using Cons.prems ys \<open>x = y\<close> by (intro Cons.IH) auto
  ultimately show ?case using ys by simp
qed simp

end
