(* ===== verification/Interner.thy ===== *)
theory Interner
  imports Prelude
begin

text \<open>
  String interning. Three parts of the program keep a table of strings and store small ids in place
  of them: the \<^verbatim>\<open>intern_*\<close> tables of the database (\<^verbatim>\<open>internal/history/intern.go\<close>), the \<^verbatim>\<open>intern\<close> of
  a checkpoint snapshot (\<^verbatim>\<open>internal/sync/checkpoint/snapshot.go\<close>) and the \<^verbatim>\<open>stringPool\<close> of the
  history cache (\<^verbatim>\<open>internal/history/cache.go\<close>). The locale states what their clients rely on; each
  implementation is an interpretation of it. The database tables are modelled here, the other two
  with their components.
\<close>

section \<open>The interface\<close>

locale interner =
  fixes intern :: "'t \<Rightarrow> string \<Rightarrow> 't \<times> 'i"
    and lookup :: "'t \<Rightarrow> 'i \<Rightarrow> string"
    and known :: "'t \<Rightarrow> 'i \<Rightarrow> bool"
    and inv :: "'t \<Rightarrow> bool"
    and room :: "'t \<Rightarrow> bool"
  assumes inv_intern: "inv t \<Longrightarrow> room t \<Longrightarrow> inv (fst (intern t s))"
    and known_intern: "inv t \<Longrightarrow> room t \<Longrightarrow> known (fst (intern t s)) (snd (intern t s))"
    and lookup_intern: "inv t \<Longrightarrow> room t \<Longrightarrow> lookup (fst (intern t s)) (snd (intern t s)) = s"
    and known_stable: "inv t \<Longrightarrow> room t \<Longrightarrow> known t i \<Longrightarrow> known (fst (intern t s)) i"
    and lookup_stable: "inv t \<Longrightarrow> room t \<Longrightarrow> known t i \<Longrightarrow> lookup (fst (intern t s)) i = lookup t i"
    and lookup_inj: "inv t \<Longrightarrow> known t i \<Longrightarrow> known t j \<Longrightarrow> lookup t i = lookup t j \<Longrightarrow> i = j"
begin

lemma intern_eq_iff:
  assumes "inv t" and "room t" and "known t i"
  shows "snd (intern t s) = i \<longleftrightarrow> lookup t i = s"
proof
  assume "snd (intern t s) = i"
  then show "lookup t i = s"
    using lookup_intern[OF assms(1,2), of s] lookup_stable[OF assms, of s] by simp
next
  assume "lookup t i = s"
  then have "lookup (fst (intern t s)) i = lookup (fst (intern t s)) (snd (intern t s))"
    using lookup_intern[OF assms(1,2), of s] lookup_stable[OF assms, of s] by simp
  then show "snd (intern t s) = i"
    using lookup_inj[OF inv_intern[OF assms(1,2)] known_intern[OF assms(1,2)] known_stable[OF assms]]
    by simp
qed

lemma intern_again:
  assumes "inv t" and "room t" and "room (fst (intern t s))"
  shows "snd (intern (fst (intern t s)) s) = snd (intern t s)"
  using intern_eq_iff[OF inv_intern[OF assms(1,2)] assms(3) known_intern[OF assms(1,2)]]
    lookup_intern[OF assms(1,2)] by simp

end

section \<open>The intern tables of the database\<close>

text \<open>A table is the list of its rows \<open>(id, value)\<close>; \<open>None\<close> is SQL's \<^verbatim>\<open>NULL\<close>.\<close>

type_synonym intern_table = "(int \<times> string) list"

definition next_rowid :: "intern_table \<Rightarrow> int" where
  "next_rowid t = fold max (map fst t) 0 + 1"

definition row_id_of :: "intern_table \<Rightarrow> string \<Rightarrow> int option" where
  "row_id_of t value = map_option fst (find (\<lambda>(i, v). v = value) t)"

definition internID :: "intern_table \<Rightarrow> string \<Rightarrow> intern_table \<times> int option" where
  "internID t value =
     (if value = [] then (t, None)
      else (let t' = (if value \<in> snd ` set t then t else t @ [(next_rowid t, value)])
            in (t', row_id_of t' value)))"

definition intern_value :: "intern_table \<Rightarrow> int option \<Rightarrow> string" where
  "intern_value t i = (case i of None \<Rightarrow> [] | Some k \<Rightarrow> get_default [] t k)"

definition intern_known :: "intern_table \<Rightarrow> int option \<Rightarrow> bool" where
  "intern_known t i = (case i of None \<Rightarrow> True | Some k \<Rightarrow> k \<in> fst ` set t)"

definition intern_ok :: "intern_table \<Rightarrow> bool" where
  "intern_ok t \<longleftrightarrow> distinct (map fst t) \<and> distinct (map snd t) \<and> [] \<notin> snd ` set t"

lemma intern_ok_Nil [simp]: "intern_ok []"
  by (simp add: intern_ok_def)

lemma fold_max_ge: "\<forall>x \<in> insert a (set xs). x \<le> fold max xs (a :: int)"
  using Max_ge[of "set (a # xs)"] by (simp add: Max.set_eq_fold[symmetric])

lemma next_rowid_fresh: "next_rowid t \<notin> fst ` set t"
  using fold_max_ge[of 0 "map fst t"] by (fastforce simp: next_rowid_def)

lemma find_value:
  assumes "intern_ok t" and "(i, v) \<in> set t"
  shows "row_id_of t v = Some i"
proof -
  have "find (\<lambda>(i, w). w = v) t = Some (i, v)"
    using assms unfolding intern_ok_def
    by (induction t) (auto split: if_splits, force)
  then show ?thesis by (simp add: row_id_of_def)
qed

lemma row_id_of_None: "v \<notin> snd ` set t \<Longrightarrow> row_id_of t v = None"
  by (force simp: row_id_of_def find_None_iff)

lemma internID_cases:
  assumes "intern_ok t"
  obtains (empty) "s = []" "internID t s = (t, None)"
  | (old) i where "s \<noteq> []" "(i, s) \<in> set t" "internID t s = (t, Some i)"
  | (new) "s \<noteq> []" "s \<notin> snd ` set t" "intern_ok (t @ [(next_rowid t, s)])"
      "internID t s = (t @ [(next_rowid t, s)], Some (next_rowid t))"
proof (cases "s = []")
  case True
  then show thesis by (intro empty) (simp_all add: internID_def)
next
  case False
  show thesis
  proof (cases "s \<in> snd ` set t")
    case True
    then obtain i where "(i, s) \<in> set t" by auto
    with False True find_value[OF assms this] show thesis
      by (intro old) (simp_all add: internID_def Let_def)
  next
    case nin: False
    have ok: "intern_ok (t @ [(next_rowid t, s)])"
      using assms nin False next_rowid_fresh[of t] by (auto simp: intern_ok_def)
    then have "row_id_of (t @ [(next_rowid t, s)]) s = Some (next_rowid t)"
      by (rule find_value) simp
    with False nin ok show thesis by (intro new) (simp_all add: internID_def Let_def)
  qed
qed

lemma intern_value_mem: "intern_ok t \<Longrightarrow> (i, v) \<in> set t \<Longrightarrow> intern_value t (Some i) = v"
  by (simp add: intern_value_def intern_ok_def get_default_in)

lemma intern_value_append:
  "intern_known t i \<Longrightarrow> intern_value (t @ u) i = intern_value t i"
  by (auto simp: intern_known_def intern_value_def get_default_def map_add_def map_of_eq_None_iff
      split: option.splits)

interpretation dbintern: interner internID intern_value intern_known intern_ok "\<lambda>_. True"
proof (unfold_locales, goal_cases)
  case (1 t s)
  then show ?case by (cases rule: internID_cases[OF 1(1), of s]) simp_all
next
  case (2 t s)
  then show ?case
    by (cases rule: internID_cases[OF 2(1), of s]) (auto simp: intern_known_def image_iff Bex_def)
next
  case (3 t s)
  then show ?case
    by (cases rule: internID_cases[OF 3(1), of s]) (simp_all add: intern_value_mem, simp add: intern_value_def)
next
  case (4 t i s)
  then show ?case
    by (cases rule: internID_cases[OF 4(1), of s]) (auto simp: intern_known_def split: option.splits)
next
  case (5 t i s)
  then show ?case
    by (cases rule: internID_cases[OF 5(1), of s]) (simp_all add: intern_value_append)
next
  case (6 t i j)
  have v: "\<And>k. intern_known t (Some k) \<Longrightarrow> (k, intern_value t (Some k)) \<in> set t \<and> intern_value t (Some k) \<noteq> []"
    using 6(1) by (force simp: intern_known_def intern_ok_def intern_value_def get_default_in)
  have inj: "\<And>a b v. (a, v) \<in> set t \<Longrightarrow> (b, v) \<in> set t \<Longrightarrow> a = b"
    using find_value[OF 6(1)] by (metis option.inject)
  show ?case
  proof (cases i; cases j)
    fix a b assume "i = Some a" "j = Some b"
    then show ?thesis using v[of a] v[of b] 6 inj by auto
  qed (use 6 v in \<open>force simp: intern_value_def\<close>)+
qed

lemma row_id_of_eq:
  assumes "intern_ok t" and "s \<noteq> []" and "intern_known t i"
  shows "(row_id_of t s \<noteq> None \<and> i = row_id_of t s) \<longleftrightarrow> intern_value t i = s"
proof (cases i)
  case None
  then show ?thesis using assms by (auto simp: intern_value_def)
next
  case (Some k)
  with assms(3) obtain v where kv: "(k, v) \<in> set t" by (auto simp: intern_known_def)
  with Some have iv: "intern_value t i = v" using assms(1) by (simp add: intern_value_mem)
  have rv: "row_id_of t v = Some k" using find_value[OF assms(1) kv] .
  show ?thesis
  proof
    assume "row_id_of t s \<noteq> None \<and> i = row_id_of t s"
    then have "row_id_of t s = Some k" using Some by simp
    then have "(k, s) \<in> set t" by (auto simp: row_id_of_def find_Some_iff dest: nth_mem)
    then show "intern_value t i = s" using Some assms(1) by (simp add: intern_value_mem)
  qed (use rv iv Some in auto)
qed

end
