(* ===== verification/Db.thy ===== *)
theory Db
  imports Interner
begin

text \<open>
  The local SQLite database: one record per table row (columns and constraints from the
  \<^verbatim>\<open>CREATE TABLE\<close> statements of \<^verbatim>\<open>internal/db/migrate_hooks.go\<close> and the migrations), the record
  \<^verbatim>\<open>db\<close> of all tables, and the Go value a history row is read into (\<^verbatim>\<open>history.Entry\<close>).
  A nullable column is an \<open>option\<close>, a table the list of its rows. The statements the stores run
  are modelled in the theories of the stores; failures of the disk are not modelled, constraint
  violations are.
\<close>

record entry =
  eID :: string
  eCommand :: string
  eStartTS :: gotime
  eEndTS :: "gotime option"
  eDurationMs :: "int option"
  eExitStatus :: "int option"
  eCwd :: string
  eSessionID :: string
  eHostname :: string
  eDeviceID :: string
  eShell :: string
  eDeleted :: bool
  eOriginDeviceID :: string
  eOriginSeq :: "int option"
  eCreatedAt :: gotime

record hist_row =
  h_id :: string
  h_command :: string
  h_command_hash :: bytes
  h_start_ts :: int
  h_end_ts :: "int option"
  h_duration_ms :: "int option"
  h_exit_status :: "int option"
  h_cwd_id :: "int option"
  h_session_id :: "int option"
  h_hostname_id :: "int option"
  h_device_id :: string
  h_shell_id :: "int option"
  h_deleted :: bool
  h_origin_device_id :: "string option"
  h_origin_seq :: "int option"
  h_created_at :: int

record event_row =
  ev_device_id :: string
  ev_seq :: int
  ev_event_type :: string
  ev_history_id :: "string option"
  ev_payload :: "bytes option"
  ev_applied :: bool
  ev_created_at :: int

record device_row =
  d_id :: string
  d_name :: string
  d_hostname :: "string option"
  d_status :: string
  d_created_at :: int
  d_retired_at :: "int option"

record db =
  history :: "hist_row list"
  intern_cwd :: intern_table
  intern_session :: intern_table
  intern_hostname :: intern_table
  intern_shell :: intern_table
  sync_events :: "event_row list"
  sync_heads :: "(string \<times> int) list"
  devices :: "device_row list"
  transport_state :: "(string \<times> string) list"

definition empty_db :: db where
  "empty_db = \<lparr>history = [], intern_cwd = [], intern_session = [], intern_hostname = [],
     intern_shell = [], sync_events = [], sync_heads = [], devices = [], transport_state = []\<rparr>"

text \<open>\<^verbatim>\<open>nullString\<close> and \<^verbatim>\<open>nullIfEmpty\<close>: the empty string is stored as \<^verbatim>\<open>NULL\<close>; reading a
  \<^verbatim>\<open>sql.NullString\<close> gives it back.\<close>

definition nullString :: "string \<Rightarrow> string option" where
  "nullString s = (if s = [] then None else Some s)"

definition stringOf :: "string option \<Rightarrow> string" where
  "stringOf v = (case v of None \<Rightarrow> [] | Some s \<Rightarrow> s)"

lemma stringOf_nullString [simp]: "stringOf (nullString s) = s"
  by (simp add: stringOf_def nullString_def)

lemma stringOf_simps [simp]: "stringOf None = []" "stringOf (Some s) = s"
  by (simp_all add: stringOf_def)

lemma nullString_eq_Some [simp]: "nullString s = Some v \<longleftrightarrow> s = v \<and> v \<noteq> []"
  by (auto simp: nullString_def)

end
