(* ===== verification/Rank.thy ===== *)
theory Rank
  imports Db
begin

text \<open>
  Ranking of history entries for a query: \<^verbatim>\<open>internal/search/rank.go\<close>. The theory shows that \<^verbatim>\<open>minSpan\<close>
  finds the shortest window of the candidate that contains the term as a subsequence, that the match
  class outweighs every context bonus, that a ranking is the matching entries in the order of the
  comparison, and that \<^verbatim>\<open>Suggestions\<close> is a prefix of the ranked commands without repetitions.
  A string is decoded into runes as Go decodes it; \<^verbatim>\<open>strings.ToLower\<close>, which rests on the Unicode
  tables, is a parameter.
\<close>

section \<open>Runes and white space\<close>

definition cont_byte :: "int \<Rightarrow> int \<Rightarrow> int \<Rightarrow> bool" where
  "cont_byte lo hi b \<longleftrightarrow> lo \<le> b \<and> b \<le> hi"

text \<open>\<^verbatim>\<open>utf8.DecodeRune\<close> on a non-empty list of bytes: the rune and its width.\<close>

fun decode_rune :: "int list \<Rightarrow> int \<times> nat" where
  "decode_rune [] = (65533, 0)"
| "decode_rune (b # bs) =
     (if b < 128 then (b, 1)
      else if 194 \<le> b \<and> b \<le> 223 then
        (case bs of b1 # _ \<Rightarrow> if cont_byte 128 191 b1 then ((b - 192) * 64 + (b1 - 128), 2) else (65533, 1)
         | [] \<Rightarrow> (65533, 1))
      else if 224 \<le> b \<and> b \<le> 239 then
        (case bs of b1 # b2 # _ \<Rightarrow>
           if cont_byte (if b = 224 then 160 else 128) (if b = 237 then 159 else 191) b1 \<and> cont_byte 128 191 b2
           then ((b - 224) * 4096 + (b1 - 128) * 64 + (b2 - 128), 3) else (65533, 1)
         | _ \<Rightarrow> (65533, 1))
      else if 240 \<le> b \<and> b \<le> 244 then
        (case bs of b1 # b2 # b3 # _ \<Rightarrow>
           if cont_byte (if b = 240 then 144 else 128) (if b = 244 then 143 else 191) b1
              \<and> cont_byte 128 191 b2 \<and> cont_byte 128 191 b3
           then ((b - 240) * 262144 + (b1 - 128) * 4096 + (b2 - 128) * 64 + (b3 - 128), 4) else (65533, 1)
         | _ \<Rightarrow> (65533, 1))
      else (65533, 1))"

text \<open>The runes of a string, each with the bytes it was read from.\<close>

function rune_chunks :: "string \<Rightarrow> (int \<times> string) list" where
  "rune_chunks s =
     (if s = [] then []
      else (let (r, w) = decode_rune (map of_char s); n = max 1 w
            in (r, take n s) # rune_chunks (drop n s)))"
  by pat_completeness auto
termination
  by (relation "measure length") auto

declare rune_chunks.simps [simp del]

definition runes :: "string \<Rightarrow> int list" where
  "runes s = map fst (rune_chunks s)"

lemma concat_rune_chunks: "concat (map snd (rune_chunks s)) = s"
proof (induction s rule: rune_chunks.induct)
  case (1 s)
  show ?case
  proof (cases "s = []")
    case True
    then show ?thesis by (simp add: rune_chunks.simps)
  next
    case False
    obtain r w where d: "decode_rune (map of_char s) = (r, w)" by (cases "decode_rune (map of_char s)")
    from 1[OF False d[symmetric] refl refl] False d show ?thesis
      by (subst rune_chunks.simps) (simp add: Let_def)
  qed
qed

lemma rune_chunks_ascii: "list_all (\<lambda>c. (of_char c :: int) < 128) s \<Longrightarrow> rune_chunks s = map (\<lambda>c. (of_char c, [c])) s"
  by (induction s) (simp_all add: rune_chunks.simps[of "_ # _"] rune_chunks.simps[of "[]"])

text \<open>\<^verbatim>\<open>unicode.IsSpace\<close>.\<close>

definition IsSpace :: "int \<Rightarrow> bool" where
  "IsSpace r \<longleftrightarrow> 9 \<le> r \<and> r \<le> 13 \<or> r = 32 \<or> r = 133 \<or> r = 160 \<or> r = 5760 \<or> 8192 \<le> r \<and> r \<le> 8202
     \<or> r = 8232 \<or> r = 8233 \<or> r = 8239 \<or> r = 8287 \<or> r = 12288"

definition TrimSpace :: "string \<Rightarrow> string" where
  "TrimSpace s =
     (let sp = (\<lambda>(r, _). IsSpace r)
      in concat (map snd (rev (dropWhile sp (rev (dropWhile sp (rune_chunks s)))))))"

lemma TrimSpace_ascii:
  assumes "list_all (\<lambda>c. (of_char c :: int) < 128 \<and> \<not> IsSpace (of_char c)) s"
  shows "TrimSpace s = s"
proof -
  have r: "rune_chunks s = map (\<lambda>c. (of_char c, [c])) s" by (rule rune_chunks_ascii) (use assms in \<open>auto simp: list_all_iff\<close>)
  have d: "dropWhile (\<lambda>(r, _). IsSpace r) xs = xs" if "set xs \<subseteq> set (rune_chunks s)" for xs
    using that assms by (cases xs) (auto simp: r list_all_iff)
  have "concat (map snd (rune_chunks s)) = s" by (rule concat_rune_chunks)
  then show ?thesis by (simp add: TrimSpace_def Let_def d)
qed

fun fields_loop :: "string \<Rightarrow> (int \<times> string) list \<Rightarrow> string list" where
  "fields_loop cur [] = (if cur = [] then [] else [cur])"
| "fields_loop cur ((r, b) # cs) =
     (if IsSpace r then (if cur = [] then fields_loop [] cs else cur # fields_loop [] cs)
      else fields_loop (cur @ b) cs)"

definition Fields :: "string \<Rightarrow> string list" where
  "Fields s = fields_loop [] (rune_chunks s)"

section \<open>Matching\<close>

definition classFuzzy :: int where "classFuzzy = 1"
definition classSubstring :: int where "classSubstring = 2"
definition classPrefix :: int where "classPrefix = 3"
definition classWeight :: int where "classWeight = 1000000"
definition recencyWeight :: int where "recencyWeight = 200"
definition freqWeight :: int where "freqWeight = 80"
definition cwdWeight :: int where "cwdWeight = 400"
definition deviceWeight :: int where "deviceWeight = 80"
definition sessionWeight :: int where "sessionWeight = 120"

lemmas weight_defs = classFuzzy_def classSubstring_def classPrefix_def classWeight_def recencyWeight_def
  freqWeight_def cwdWeight_def deviceWeight_def sessionWeight_def

definition matchClass :: "string \<Rightarrow> string \<Rightarrow> int" where
  "matchClass term candidate =
     (if HasPrefix candidate term then classPrefix
      else if Contains candidate term then classSubstring
      else classFuzzy)"

text \<open>
  The inner loop of \<^verbatim>\<open>minSpan\<close>: \<open>i\<close> is the index of the next rune of the candidate, \<open>e\<close> the index of the
  last match. The result is the last match and what is left of the term.
\<close>

fun span_scan :: "'a list \<Rightarrow> 'a list \<Rightarrow> nat \<Rightarrow> nat \<Rightarrow> nat \<times> 'a list" where
  "span_scan [] cs i e = (e, [])"
| "span_scan (q # qs) [] i e = (e, q # qs)"
| "span_scan (q # qs) (c # cs) i e =
     (if c = q then span_scan qs cs (Suc i) i else span_scan (q # qs) cs (Suc i) e)"

fun span_loop :: "'a list \<Rightarrow> 'a list \<Rightarrow> nat \<Rightarrow> nat \<Rightarrow> bool \<Rightarrow> nat \<times> bool" where
  "span_loop q [] start best found = (best, found)"
| "span_loop q (c # cs) start best found =
     (if c \<noteq> hd q then span_loop q cs (Suc start) best found
      else (let (e, left) = span_scan (tl q) cs (Suc start) start
            in if left \<noteq> [] then (best, found)
               else (let span = e - start + 1;
                         (best', found') = (if \<not> found \<or> span < best then (span, True) else (best, found))
                     in if best' = length q then (best', True)
                        else span_loop q cs (Suc start) best' found')))"

definition minSpan :: "'a list \<Rightarrow> 'a list \<Rightarrow> nat \<times> bool" where
  "minSpan q c = (if length q = 0 then (0, True) else span_loop q c 0 0 False)"

fun fuzzy_terms :: "string list \<Rightarrow> string \<Rightarrow> int \<Rightarrow> int \<Rightarrow> (int \<times> int) option" where
  "fuzzy_terms [] cl bestClass spanSum = Some (bestClass, spanSum)"
| "fuzzy_terms (t # ts) cl bestClass spanSum =
     (let (span, ok) = minSpan (runes t) (runes cl)
      in if \<not> ok then None
         else (let c = matchClass t cl
               in fuzzy_terms ts cl (if c < bestClass then c else bestClass) (spanSum + int span)))"

definition fuzzyScore :: "(string \<Rightarrow> string) \<Rightarrow> string \<Rightarrow> string \<Rightarrow> int option" where
  "fuzzyScore ToLower query candidate =
     (let terms = Fields (ToLower query)
      in if length terms = 0 then Some 0
         else (case fuzzy_terms terms (ToLower candidate) classPrefix 0 of
                 None \<Rightarrow> None
               | Some (bestClass, spanSum) \<Rightarrow> Some (bestClass * classWeight - spanSum)))"

section \<open>Scores\<close>

record score_parts =
  pMatch :: int
  pRecency :: int
  pFrequency :: int
  pCwd :: int
  pDevice :: int
  pSession :: int

record rank_result =
  rEntry :: entry
  rScore :: int
  rParts :: score_parts

record rank_context =
  xNow :: gotime
  xCwd :: string
  xDeviceID :: string
  xSessionID :: string
  xFreq :: "(string \<times> int) list option"

definition Frequency :: "entry list \<Rightarrow> (string \<times> int) list" where
  "Frequency entries =
     fold (\<lambda>e m. map_put (eCommand e) (get_default 0 m (eCommand e) + 1) m) entries []"

text \<open>A day is 86400 seconds; the float division of \<^verbatim>\<open>age.Hours() / 24\<close> truncates to the same day for
  every age of at most 31 days, and any older entry has recency 0.\<close>

definition contextParts :: "entry \<Rightarrow> rank_context \<Rightarrow> score_parts" where
  "contextParts e ctx =
     (let age = max 0 (xNow ctx - eStartTS e);
          days = age div 86400000000000;
          rec = max 0 (30 - days);
          freq = (case xFreq ctx of None \<Rightarrow> 0
                  | Some m \<Rightarrow> min 20 (get_default 0 m (eCommand e)) * freqWeight)
      in \<lparr>pMatch = 0, pRecency = rec * recencyWeight, pFrequency = freq,
          pCwd = (if xCwd ctx \<noteq> [] \<and> eCwd e = xCwd ctx then cwdWeight else 0),
          pDevice = (if xDeviceID ctx \<noteq> [] \<and> eDeviceID e = xDeviceID ctx then deviceWeight else 0),
          pSession = (if xSessionID ctx \<noteq> [] \<and> eSessionID e = xSessionID ctx then sessionWeight else 0)\<rparr>)"

definition result_less :: "rank_result \<Rightarrow> rank_result \<Rightarrow> bool" where
  "result_less a b =
     (if rScore a \<noteq> rScore b then rScore a > rScore b else eStartTS (rEntry a) > eStartTS (rEntry b))"

definition sortResults :: "rank_result list \<Rightarrow> rank_result list" where
  "sortResults out = sort_by result_less out"

definition context_sum :: "score_parts \<Rightarrow> int" where
  "context_sum p = pRecency p + pFrequency p + pCwd p + pDevice p + pSession p"

definition fuzzy_result :: "(string \<Rightarrow> string) \<Rightarrow> string \<Rightarrow> rank_context \<Rightarrow> entry \<Rightarrow> rank_result option" where
  "fuzzy_result ToLower q ctx e =
     (case fuzzyScore ToLower q (eCommand e) of
        None \<Rightarrow> None
      | Some m \<Rightarrow> (let p = (contextParts e ctx)\<lparr>pMatch := m\<rparr>
                   in Some \<lparr>rEntry = e, rScore = pMatch p + context_sum p, rParts = p\<rparr>))"

definition RankWith :: "(string \<Rightarrow> string) \<Rightarrow> gotime \<Rightarrow> string \<Rightarrow> entry list \<Rightarrow> bool \<Rightarrow> rank_context \<Rightarrow> rank_result list" where
  "RankWith ToLower now query entries exact ctx0 =
     (let ctx1 = (if xNow ctx0 = zero_time then ctx0\<lparr>xNow := now\<rparr> else ctx0);
          ctx = (if xFreq ctx1 = None then ctx1\<lparr>xFreq := Some (Frequency entries)\<rparr> else ctx1);
          q = TrimSpace query
      in if q = [] then
           sortResults (map (\<lambda>e. \<lparr>rEntry = e, rScore = context_sum (contextParts e ctx),
                                   rParts = contextParts e ctx\<rparr>) entries)
         else if exact then
           (let ql = ToLower q
            in map (\<lambda>e. \<lparr>rEntry = e, rScore = 1, rParts = \<lparr>pMatch = 1, pRecency = 0, pFrequency = 0,
                          pCwd = 0, pDevice = 0, pSession = 0\<rparr>\<rparr>)
                 (filter (\<lambda>e. Contains (ToLower (eCommand e)) ql) entries))
         else sortResults (List.map_filter (fuzzy_result ToLower q ctx) entries))"

definition zero_context :: rank_context where
  "zero_context = \<lparr>xNow = zero_time, xCwd = [], xDeviceID = [], xSessionID = [], xFreq = None\<rparr>"

definition RankQuery :: "(string \<Rightarrow> string) \<Rightarrow> gotime \<Rightarrow> string \<Rightarrow> entry list \<Rightarrow> bool \<Rightarrow> rank_result list" where
  "RankQuery ToLower now query entries exact = RankWith ToLower now query entries exact zero_context"

section \<open>Suggestions\<close>

fun suggest_loop :: "string \<Rightarrow> nat \<Rightarrow> rank_result list \<Rightarrow> string list \<Rightarrow> string list \<Rightarrow> string list" where
  "suggest_loop pfx limit [] seen out = out"
| "suggest_loop pfx limit (r # rs) seen out =
     (let cmd = eCommand (rEntry r)
      in if cmd = pfx then suggest_loop pfx limit rs seen out
         else if cmd \<in> set seen then suggest_loop pfx limit rs seen out
         else (let out' = out @ [cmd]
               in if length out' \<ge> limit then out'
                  else suggest_loop pfx limit rs (cmd # seen) out'))"

definition Suggestions :: "(string \<Rightarrow> string) \<Rightarrow> gotime \<Rightarrow> string \<Rightarrow> entry list \<Rightarrow> rank_context \<Rightarrow> int \<Rightarrow> string list" where
  "Suggestions ToLower now pfx entries ctx limit0 =
     (let limit = (if limit0 \<le> 0 then 8 else limit0)
      in suggest_loop pfx (nat limit) (RankWith ToLower now pfx entries False ctx) [] [])"

definition BestSuggestion :: "(string \<Rightarrow> string) \<Rightarrow> gotime \<Rightarrow> string \<Rightarrow> entry list \<Rightarrow> rank_context \<Rightarrow> string" where
  "BestSuggestion ToLower now pfx entries ctx =
     (case Suggestions ToLower now pfx entries ctx 1 of [] \<Rightarrow> [] | s # _ \<Rightarrow> s)"

section \<open>Shortest windows\<close>

text \<open>The length of the shortest prefix that contains a subsequence: what the greedy scan computes.\<close>

fun greedy_len :: "'a list \<Rightarrow> 'a list \<Rightarrow> nat option" where
  "greedy_len [] cs = Some 0"
| "greedy_len (q # qs) [] = None"
| "greedy_len (q # qs) (c # cs) = map_option Suc (if c = q then greedy_len qs cs else greedy_len (q # qs) cs)"

lemma greedy_len_sound: "greedy_len q cs = Some n \<Longrightarrow> n \<le> length cs \<and> subseq q (take n cs)"
  by (induction q cs arbitrary: n rule: greedy_len.induct) (auto split: if_splits)

lemma greedy_len_least: "subseq q (take m cs) \<Longrightarrow> \<exists>n \<le> m. greedy_len q cs = Some n"
proof (induction q cs arbitrary: m rule: greedy_len.induct)
  case (3 q qs c cs)
  then obtain k where m: "m = Suc k" by (cases m) auto
  show ?case
  proof (cases "c = q")
    case True
    with 3(3) m have "subseq qs (take k cs)" by simp
    from 3(1)[OF True this] obtain n where "n \<le> k" "greedy_len qs cs = Some n" by blast
    with True m show ?thesis by simp
  next
    case False
    with 3(3) m have "subseq (q # qs) (take k cs)" by simp
    from 3(2)[OF False this] obtain n where "n \<le> k" "greedy_len (q # qs) cs = Some n" by blast
    with False m show ?thesis by simp
  qed
qed auto

lemma greedy_len_ge: "greedy_len q cs = Some n \<Longrightarrow> length q \<le> n"
  using greedy_len_sound[of q cs n] list_emb_length[of "(=)" q "take n cs"] by simp

lemma greedy_len_None: "greedy_len q cs = None \<longleftrightarrow> \<not> subseq q cs"
proof
  assume "greedy_len q cs = None"
  then show "\<not> subseq q cs" using greedy_len_least[of q "length cs" cs] by auto
next
  assume n: "\<not> subseq q cs"
  have "\<not> subseq q (take m cs)" for m
    using n list_emb_append2[of "(=)" q "take m cs" "[]"] by (metis append_take_drop_id list_emb_prefix)
  then show "greedy_len q cs = None" using greedy_len_sound by (cases "greedy_len q cs") blast+
qed

lemma span_scan_Some: "greedy_len qs cs = Some n \<Longrightarrow> span_scan qs cs i e = (if n = 0 then e else i + n - 1, [])"
proof (induction qs cs i e arbitrary: n rule: span_scan.induct)
  case (3 q qs c cs i e)
  show ?case
  proof (cases "c = q")
    case True
    with 3(3) obtain k where k: "greedy_len qs cs = Some k" "n = Suc k" by auto
    from 3(1)[OF True k(1)] True k(2) show ?thesis by simp
  next
    case False
    with 3(3) obtain k where k: "greedy_len (q # qs) cs = Some k" "n = Suc k" by auto
    from greedy_len_ge[OF k(1)] have "k \<noteq> 0" by auto
    with 3(2)[OF False k(1)] False k(2) show ?thesis by simp
  qed
qed auto

lemma span_scan_None: "greedy_len qs cs = None \<Longrightarrow> snd (span_scan qs cs i e) \<noteq> []"
  by (induction qs cs i e rule: span_scan.induct) (auto split: if_splits)

text \<open>The lengths of the windows of a candidate that contain the term as a subsequence.\<close>

definition spans :: "'a list \<Rightarrow> 'a list \<Rightarrow> nat set" where
  "spans q c = {n. \<exists>i. i + n \<le> length c \<and> subseq q (take n (drop i c))}"

definition least_in :: "nat set \<Rightarrow> nat \<Rightarrow> bool" where
  "least_in S r \<longleftrightarrow> r \<in> S \<and> (\<forall>n \<in> S. r \<le> n)"

lemma spans_Nil: "q \<noteq> [] \<Longrightarrow> spans q [] = {}"
  by (auto simp: spans_def)

lemma spans_Cons:
  "q \<noteq> [] \<Longrightarrow> spans q (c # cs) = {n. n \<le> Suc (length cs) \<and> subseq q (take n (c # cs))} \<union> spans q cs"
  (is "_ \<Longrightarrow> ?L = ?A \<union> _")
proof (rule set_eqI, rule iffI)
  fix n assume "q \<noteq> []" "n \<in> ?L"
  then obtain i where i: "i + n \<le> Suc (length cs)" "subseq q (take n (drop i (c # cs)))"
    by (auto simp: spans_def)
  then show "n \<in> ?A \<union> spans q cs" by (cases i) (auto simp: spans_def)
next
  fix n assume "q \<noteq> []" and n: "n \<in> ?A \<union> spans q cs"
  from n show "n \<in> ?L"
  proof
    assume "n \<in> ?A"
    then have "0 + n \<le> length (c # cs) \<and> subseq q (take n (drop 0 (c # cs)))" by simp
    then show ?thesis unfolding spans_def by blast
  next
    assume "n \<in> spans q cs"
    then obtain i where "i + n \<le> length cs" "subseq q (take n (drop i cs))" by (auto simp: spans_def)
    then have "Suc i + n \<le> length (c # cs) \<and> subseq q (take n (drop (Suc i) (c # cs)))" by simp
    then show ?thesis unfolding spans_def by blast
  qed
qed

lemma spans_ge: "n \<in> spans q c \<Longrightarrow> length q \<le> n"
  by (auto simp: spans_def dest!: list_emb_length)

lemma spans_empty_iff: "spans q c = {} \<longleftrightarrow> \<not> subseq q c"
proof -
  have "subseq q c" if "subseq q (take n (drop i c))" for n i
    using that by (meson list_emb_prefix list_emb_suffix subseq_order.trans take_is_prefix suffix_drop
        prefix_imp_subseq suffix_imp_subseq)
  moreover have "length c \<in> spans q c" if "subseq q c"
    using that by (auto simp: spans_def intro: exI[of _ 0])
  ultimately show ?thesis unfolding spans_def by blast
qed

text \<open>A start that does not match the first rune adds no shorter window.\<close>

lemma spans_skip:
  assumes "q \<noteq> []" "c \<noteq> hd q" "n \<in> spans q (c # cs)"
  shows "\<exists>m \<in> spans q cs. m \<le> n"
proof -
  from assms(3) spans_Cons[OF assms(1)] consider "n \<in> spans q cs"
    | "n \<le> Suc (length cs)" "subseq q (take n (c # cs))" by blast
  then show ?thesis
  proof cases
    case 2
    with assms(1,2) obtain k where k: "n = Suc k" "subseq q (take k cs)" by (cases n; cases q) auto
    with 2 have "k \<in> spans q cs" by (auto simp: spans_def intro!: exI[of _ 0])
    with k(1) show ?thesis by (intro bexI[of _ k]) simp_all
  qed auto
qed

lemma spans_head:
  assumes "q \<noteq> []" "c = hd q" "greedy_len (tl q) cs = Some k"
  shows "Suc k \<in> spans q (c # cs)" "n \<in> spans q (c # cs) \<Longrightarrow> Suc k \<le> n \<or> n \<in> spans q cs"
proof -
  from assms obtain qs where q: "q = c # qs" by (cases q) auto
  from greedy_len_sound[OF assms(3)] q show "Suc k \<in> spans q (c # cs)"
    by (auto simp: spans_Cons)
  assume "n \<in> spans q (c # cs)"
  with spans_Cons[OF assms(1)] consider "n \<in> spans q cs" | "subseq q (take n (c # cs))" by blast
  then show "Suc k \<le> n \<or> n \<in> spans q cs"
  proof cases
    case 2
    with q obtain m where m: "n = Suc m" "subseq qs (take m cs)" by (cases n) auto
    from greedy_len_least[OF m(2)] assms(3) q m(1) show ?thesis by auto
  qed simp
qed

lemma least_in_widen:
  assumes "least_in (S \<union> {b}) r" "b \<in> T \<union> B" "b \<le> k" "\<forall>n \<in> B. b \<le> n"
    and "\<And>n. n \<in> T \<Longrightarrow> k \<le> n \<or> n \<in> S" "S \<subseteq> T"
  shows "least_in (T \<union> B) r"
proof -
  from assms(1) have r: "r \<in> S \<or> r = b" "r \<le> b" "\<And>n. n \<in> S \<Longrightarrow> r \<le> n" by (auto simp: least_in_def)
  have "r \<le> n" if "n \<in> T" for n using assms(5)[OF that] r(2,3) assms(3) by fastforce
  moreover have "r \<le> n" if "n \<in> B" for n using that assms(4) r(2) by fastforce
  ultimately show ?thesis using r(1) assms(2,6) by (auto simp: least_in_def)
qed

lemma span_loop_least:
  assumes "q \<noteq> []" "found \<Longrightarrow> length q \<le> best"
  shows "case span_loop q cs start best found of (r, f) \<Rightarrow>
           let S = spans q cs \<union> (if found then {best} else {})
           in if S = {} then r = best \<and> \<not> f else f \<and> least_in S r"
  using assms
proof (induction q cs start best found rule: span_loop.induct)
  case (1 q start best found)
  then show ?case by (simp add: spans_Nil least_in_def)
next
  case (2 q c cs start best found)
  show ?case
  proof (cases "c = hd q")
    case False
    from spans_skip[OF 2(3) False] have le: "\<And>n. n \<in> spans q (c # cs) \<Longrightarrow> \<exists>m \<in> spans q cs. m \<le> n" .
    have sub: "spans q cs \<subseteq> spans q (c # cs)" using spans_Cons[OF 2(3)] by blast
    with le have e: "spans q (c # cs) = {} \<longleftrightarrow> spans q cs = {}" by blast
    have "least_in (spans q (c # cs) \<union> B) r" if "least_in (spans q cs \<union> B) r" for B r
      using that le sub unfolding least_in_def by (meson Un_iff le_trans subsetD)
    note lift = this[of "{}"] this[of "{best}"]
    from 2(1)[OF False 2(3,4)] False e show ?thesis
      by (auto simp: Let_def lift[simplified] split: if_splits)
  next
    case True
    show ?thesis
    proof (cases "greedy_len (tl q) cs")
      case None
      from 2(3) True obtain qs where q: "q = c # qs" by (cases q) auto
      from None q have "\<not> subseq q (c # cs)" by (simp add: greedy_len_None)
      then have "spans q (c # cs) = {}" by (simp add: spans_empty_iff)
      moreover from span_scan_None[OF None, of "Suc start" start]
      have "span_loop q (c # cs) start best found = (best, found)"
        using True by (simp add: case_prod_beta Let_def)
      ultimately show ?thesis by (simp add: least_in_def)
    next
      case (Some k)
      define B where "B = (if found then {best} else {})"
      define b where "b = (if \<not> found \<or> Suc k < best then Suc k else best)"
      have Sk: "Suc k \<in> spans q (c # cs)" using spans_head(1)[OF 2(3) True Some] .
      have up: "\<And>n. n \<in> spans q (c # cs) \<Longrightarrow> Suc k \<le> n \<or> n \<in> spans q cs"
        using spans_head(2)[OF 2(3) True Some] .
      have sub: "spans q cs \<subseteq> spans q (c # cs)" using spans_Cons[OF 2(3)] by blast
      have b: "b \<in> spans q (c # cs) \<union> B" "b \<le> Suc k" "\<forall>n \<in> B. b \<le> n" "length q \<le> b"
        using Sk spans_ge[OF Sk] 2(4) by (auto simp: b_def B_def)
      have eq: "span_loop q (c # cs) start best found =
          (if b = length q then (b, True) else span_loop q cs (Suc start) b True)"
        using True span_scan_Some[OF Some, of "Suc start" start]
        by (auto simp: Let_def b_def case_prod_beta)
      show ?thesis
      proof (cases "b = length q")
        case True
        have "least_in (spans q (c # cs) \<union> B) b"
          using b True spans_ge[of _ q "c # cs"] unfolding least_in_def by blast
        with eq True show ?thesis unfolding B_def by (auto simp: least_in_def Let_def)
      next
        case False
        have ne: "\<not> (c \<noteq> hd q)" using True by simp
        obtain e lft where sc: "span_scan (tl q) cs (Suc start) start = (e, lft)" by fastforce
        with span_scan_Some[OF Some, of "Suc start" start]
        have e: "lft = []" "e - start + 1 = Suc k" by (auto split: if_splits)
        have "case span_loop q cs (Suc start) b True of (r, f) \<Rightarrow> f \<and> least_in (spans q cs \<union> {b}) r"
          using 2(2)[OF ne sc[symmetric] refl, of "Suc k" "(b, True)" b True] False 2(3) b(4) e
          by (auto simp: Let_def b_def split: if_splits)
        moreover have "least_in (spans q (c # cs) \<union> B) r" if "least_in (spans q cs \<union> {b}) r" for r
          by (rule least_in_widen[OF that b(1-3) up sub])
        ultimately show ?thesis using eq False Sk unfolding B_def by (auto simp: Let_def)
      qed
    qed
  qed
qed

lemma finite_spans: "finite (spans q c)"
  by (rule finite_subset[of _ "{..length c}"]) (auto simp: spans_def)

lemma least_in_Min: "finite S \<Longrightarrow> least_in S r \<Longrightarrow> Min S = r"
  unfolding least_in_def by (intro Min_eqI) auto

lemma minSpan_eq: "minSpan q c = (if subseq q c then (Min (spans q c), True) else (0, False))"
proof (cases "q = []")
  case True
  have "least_in (spans [] c) 0" by (auto simp: least_in_def spans_def)
  with True least_in_Min[OF finite_spans] show ?thesis by (simp add: minSpan_def)
next
  case False
  with span_loop_least[of q False 0 c 0] show ?thesis
    by (auto simp: minSpan_def Let_def spans_empty_iff split: if_splits dest: least_in_Min[OF finite_spans])
qed

text \<open>C23: \<^verbatim>\<open>minSpan\<close> reports a match exactly when the term is a subsequence of the candidate, and then the length of
  the shortest window of the candidate that contains it; neither the early return nor the early exit from the
  loop over the starts loses a shorter window.\<close>

theorem minSpan_shortest_window:
  "snd (minSpan q c) = subseq q c \<and>
   fst (minSpan q c) =
     (if subseq q c then Min {n. \<exists>i. i + n \<le> length c \<and> subseq q (take n (drop i c))} else 0)"
  by (simp add: minSpan_eq spans_def)

section \<open>Ranking\<close>

definition term_class :: "string list \<Rightarrow> string \<Rightarrow> int" where
  "term_class ts cl = fold (\<lambda>t c. min c (matchClass t cl)) ts classPrefix"

definition term_span :: "string list \<Rightarrow> string \<Rightarrow> int" where
  "term_span ts cl = sum_list (map (\<lambda>t. int (fst (minSpan (runes t) (runes cl)))) ts)"

definition term_match :: "string list \<Rightarrow> string \<Rightarrow> bool" where
  "term_match ts cl = list_all (\<lambda>t. subseq (runes t) (runes cl)) ts"

lemma fuzzy_terms_eq:
  "fuzzy_terms ts cl b s =
     (if term_match ts cl then Some (fold (\<lambda>t c. min c (matchClass t cl)) ts b, s + term_span ts cl) else None)"
proof (induction ts arbitrary: b s)
  case (Cons t ts)
  have "(if matchClass t cl < b then matchClass t cl else b) = min b (matchClass t cl)" by auto
  with Cons show ?case by (auto simp: minSpan_eq Let_def term_match_def term_span_def)
qed (simp add: term_match_def term_span_def)

lemma fuzzyScore_eq:
  "fuzzyScore ToLower q c =
     (let ts = Fields (ToLower q); cl = ToLower c
      in if ts = [] then Some 0
         else if term_match ts cl then Some (term_class ts cl * classWeight - term_span ts cl) else None)"
  by (simp add: fuzzyScore_def fuzzy_terms_eq term_class_def Let_def)

lemma fold_min_le: "fold (\<lambda>t c. min c (f t)) ts (b :: int) \<le> b"
proof (induction ts arbitrary: b)
  case (Cons t ts)
  from Cons[of "min b (f t)"] show ?case by simp
qed simp

lemma fold_min_range:
  "\<forall>t. 1 \<le> f t \<Longrightarrow> 1 \<le> (b :: int) \<Longrightarrow> 1 \<le> fold (\<lambda>t c. min c (f t)) ts b"
  by (induction ts arbitrary: b) auto

lemma term_class_range: "1 \<le> term_class ts cl \<and> term_class ts cl \<le> 3"
  unfolding term_class_def using fold_min_le[of "\<lambda>t. matchClass t cl" ts classPrefix]
  by (auto simp: matchClass_def weight_defs intro!: fold_min_range)

lemma term_span_nonneg: "0 \<le> term_span ts cl"
  unfolding term_span_def by (rule sum_list_nonneg) auto

lemma Frequency_count: "get_default 0 (Frequency es) c = int (count_list (map eCommand es) c)"
proof -
  have "get_default 0 (fold (\<lambda>e m. map_put (eCommand e) (get_default 0 m (eCommand e) + 1) m) es m) c =
      get_default 0 m c + int (count_list (map eCommand es) c)" for m
    by (induction es arbitrary: m) auto
  then show ?thesis by (simp add: Frequency_def)
qed

text \<open>The counts of a context are not negative; \<^verbatim>\<open>nil\<close> counts are replaced by \<^const>\<open>Frequency\<close>.\<close>

definition freq_ok :: "rank_context \<Rightarrow> bool" where
  "freq_ok ctx = list_all (\<lambda>(_, n). 0 \<le> n) (case xFreq ctx of None \<Rightarrow> [] | Some m \<Rightarrow> m)"

definition rank_ctx :: "gotime \<Rightarrow> entry list \<Rightarrow> rank_context \<Rightarrow> rank_context" where
  "rank_ctx now entries ctx0 =
     (let ctx1 = (if xNow ctx0 = zero_time then ctx0\<lparr>xNow := now\<rparr> else ctx0)
      in if xFreq ctx1 = None then ctx1\<lparr>xFreq := Some (Frequency entries)\<rparr> else ctx1)"

lemma rank_ctx_freq:
  assumes "freq_ok ctx" "xFreq (rank_ctx now es ctx) = Some m"
  shows "0 \<le> get_default 0 m c"
proof (cases "xFreq ctx")
  case None
  with assms(2) have "m = Frequency es" by (auto simp: rank_ctx_def Let_def split: if_splits)
  then show ?thesis by (simp add: Frequency_count)
next
  case (Some m')
  with assms show ?thesis
    by (auto simp: rank_ctx_def Let_def freq_ok_def get_default_def list_all_iff
        split: option.splits if_splits dest!: map_of_SomeD)
qed

lemma context_sum_range:
  assumes "\<And>m. xFreq ctx = Some m \<Longrightarrow> 0 \<le> get_default 0 m (eCommand e)"
  shows "0 \<le> context_sum (contextParts e ctx) \<and> context_sum (contextParts e ctx) \<le> 8200"
proof -
  have "0 \<le> max 0 (xNow ctx - eStartTS e) div 86400000000000"
    by (simp add: div_int_pos_iff)
  with assms show ?thesis
    by (auto simp: context_sum_def contextParts_def Let_def weight_defs min_def max_def split: option.splits)
qed

interpretation rank: strict_weak_less result_less UNIV
  by unfold_locales (auto simp: result_less_def split: if_splits)

lemma RankWith_fuzzy:
  "RankWith ToLower now query entries False ctx =
     (if TrimSpace query = [] then
        sortResults (map (\<lambda>e. \<lparr>rEntry = e, rScore = context_sum (contextParts e (rank_ctx now entries ctx)),
          rParts = contextParts e (rank_ctx now entries ctx)\<rparr>) entries)
      else sortResults (List.map_filter (fuzzy_result ToLower (TrimSpace query) (rank_ctx now entries ctx)) entries))"
  by (simp add: RankWith_def rank_ctx_def Let_def)

definition entry_terms :: "(string \<Rightarrow> string) \<Rightarrow> string \<Rightarrow> string list" where
  "entry_terms ToLower query = Fields (ToLower (TrimSpace query))"

definition entry_matches :: "(string \<Rightarrow> string) \<Rightarrow> string \<Rightarrow> entry \<Rightarrow> bool" where
  "entry_matches ToLower query e \<longleftrightarrow>
     TrimSpace query = [] \<or> term_match (entry_terms ToLower query) (ToLower (eCommand e))"

lemma fuzzy_result_None: "fuzzy_result ToLower q ctx e = None \<longleftrightarrow>
    \<not> term_match (Fields (ToLower q)) (ToLower (eCommand e))"
  by (auto simp: fuzzy_result_def fuzzyScore_eq Let_def term_match_def)

lemma fuzzy_result_entry: "fuzzy_result ToLower q ctx e = Some r \<Longrightarrow> rEntry r = e"
  by (auto simp: fuzzy_result_def Let_def split: option.splits)

lemma map_filter_entries:
  "map rEntry (List.map_filter (fuzzy_result ToLower q ctx) es) =
     filter (\<lambda>e. term_match (Fields (ToLower q)) (ToLower (eCommand e))) es"
proof (induction es)
  case (Cons e es)
  with fuzzy_result_None[of ToLower q ctx e] fuzzy_result_entry[of ToLower q ctx e] show ?case
    by (cases "fuzzy_result ToLower q ctx e") (auto simp: List.map_filter_simps)
qed (simp add: List.map_filter_simps)

lemma RankWith_sorted: "sorted_wrt (\<lambda>a b. \<not> result_less b a) (RankWith ToLower now query es False ctx)"
  using rank.sort_by_sorted by (simp add: RankWith_fuzzy sortResults_def)

text \<open>A fuzzy ranking lists exactly the entries each of whose query terms is a subsequence of the command,
  each as often as it was given, in descending order of the score and, at equal scores, newest first.\<close>

theorem RankWith_lists_matches_in_order:
  "mset (map rEntry (RankWith ToLower now query es False ctx)) =
     mset (filter (entry_matches ToLower query) es) \<and>
   sorted_wrt (\<lambda>a b. rScore a > rScore b \<or> rScore a = rScore b \<and> eStartTS (rEntry a) \<ge> eStartTS (rEntry b))
     (RankWith ToLower now query es False ctx)"
proof
  show "mset (map rEntry (RankWith ToLower now query es False ctx)) = mset (filter (entry_matches ToLower query) es)"
    by (simp add: RankWith_fuzzy sortResults_def entry_matches_def entry_terms_def mset_map_sort_by
        map_filter_entries o_def del: mset_map)
  show "sorted_wrt (\<lambda>a b. rScore a > rScore b \<or> rScore a = rScore b \<and> eStartTS (rEntry a) \<ge> eStartTS (rEntry b))
     (RankWith ToLower now query es False ctx)"
    by (rule sorted_wrt_mono_rel[OF _ RankWith_sorted]) (auto simp: result_less_def split: if_splits)
qed

text \<open>The score of a listed entry.\<close>

lemma RankWith_score:
  assumes "r \<in> set (RankWith ToLower now query es False ctx)" "TrimSpace query \<noteq> []" "freq_ok ctx"
    and "entry_terms ToLower query \<noteq> []"
  defines "base \<equiv> term_class (entry_terms ToLower query) (ToLower (eCommand (rEntry r))) * 1000000
                   - term_span (entry_terms ToLower query) (ToLower (eCommand (rEntry r)))"
  shows "base \<le> rScore r \<and> rScore r \<le> base + 8200"
proof -
  from assms(1,2) obtain e where e: "fuzzy_result ToLower (TrimSpace query) (rank_ctx now es ctx) e = Some r"
    by (auto simp: RankWith_fuzzy sortResults_def List.map_filter_def)
  then have re: "rEntry r = e" by (rule fuzzy_result_entry)
  have "0 \<le> context_sum (contextParts e (rank_ctx now es ctx)) \<and>
        context_sum (contextParts e (rank_ctx now es ctx)) \<le> 8200"
    by (rule context_sum_range) (rule rank_ctx_freq[OF assms(3)])
  moreover have "rScore r = base + context_sum (contextParts e (rank_ctx now es ctx))"
    using e assms(4) unfolding base_def re
    by (auto simp: fuzzy_result_def fuzzyScore_eq entry_terms_def Let_def classWeight_def context_sum_def
        split: option.splits if_splits)
  ultimately show ?thesis by simp
qed

text \<open>The class of the match (prefix, substring, fuzzy) decides first: whatever the recency, frequency,
  directory, device and session bonuses, an entry of a better class stands before one of a worse class, as long
  as the windows of its terms add up to less than 991800 runes.\<close>

theorem match_class_dominates:
  assumes "TrimSpace query \<noteq> []" "entry_terms ToLower query \<noteq> []" "freq_ok ctx"
    and "i < length (RankWith ToLower now query es False ctx)" "j < length (RankWith ToLower now query es False ctx)"
    and "term_class (entry_terms ToLower query) (ToLower (eCommand (rEntry (RankWith ToLower now query es False ctx ! j))))
       < term_class (entry_terms ToLower query) (ToLower (eCommand (rEntry (RankWith ToLower now query es False ctx ! i))))"
    and "term_span (entry_terms ToLower query) (ToLower (eCommand (rEntry (RankWith ToLower now query es False ctx ! i))))
       < 991800"
  shows "i < j"
proof (rule ccontr)
  let ?out = "RankWith ToLower now query es False ctx"
  assume "\<not> i < j"
  moreover have "i \<noteq> j" using assms(6) by auto
  ultimately have "\<not> result_less (?out ! i) (?out ! j)"
    using sorted_wrt_nth_less[OF RankWith_sorted[of ToLower now query es ctx], of j i] assms(4) by simp
  moreover have "rScore (?out ! i) > rScore (?out ! j)"
    using RankWith_score[OF nth_mem[OF assms(4)] assms(1,3,2)] RankWith_score[OF nth_mem[OF assms(5)] assms(1,3,2)]
      term_span_nonneg[of "entry_terms ToLower query" "ToLower (eCommand (rEntry (?out ! j)))"] assms(6,7)
    by (simp add: algebra_simps)
  ultimately show False by (simp add: result_less_def)
qed

definition rank_demo_entry :: "string \<Rightarrow> gotime \<Rightarrow> entry" where
  "rank_demo_entry cmd ts =
     \<lparr>eID = cmd, eCommand = cmd, eStartTS = ts, eEndTS = None, eDurationMs = None, eExitStatus = None,
      eCwd = ''/w'', eSessionID = ''s'', eHostname = ''h'', eDeviceID = ''d'', eShell = ''zsh'', eDeleted = False,
      eOriginDeviceID = ''d'', eOriginSeq = Some 1, eCreatedAt = ts\<rparr>"

definition rank_demo :: "entry list" where
  "rank_demo = [rank_demo_entry ''xls'' 1000000000000000000, rank_demo_entry ''ls -l'' 0]"

definition rank_demo_ctx :: rank_context where
  "rank_demo_ctx = \<lparr>xNow = 1000000000000000000, xCwd = [], xDeviceID = [], xSessionID = [], xFreq = None\<rparr>"

definition ascii_lower :: "string \<Rightarrow> string" where
  "ascii_lower s = map (\<lambda>c. if 65 \<le> (of_char c :: int) \<and> (of_char c :: int) \<le> 90 then char_of ((of_char c :: int) + 32) else c) s"

definition rank_demo_out :: "rank_result list" where
  "rank_demo_out = RankWith ascii_lower 0 ''LS'' rank_demo False rank_demo_ctx"

lemma rank_demo_commands: "map (\<lambda>r. eCommand (rEntry r)) rank_demo_out = [''ls -l'', ''xls'']"
  by code_simp

lemma rank_demo_nth:
  "length rank_demo_out = 2" "eCommand (rEntry (rank_demo_out ! 0)) = ''ls -l''"
  "eCommand (rEntry (rank_demo_out ! 1)) = ''xls''"
proof -
  from rank_demo_commands obtain a b where out: "rank_demo_out = [a, b]" and "eCommand (rEntry a) = ''ls -l''"
    "eCommand (rEntry b) = ''xls''" by (auto simp: map_eq_Cons_conv)
  then show "length rank_demo_out = 2" "eCommand (rEntry (rank_demo_out ! 0)) = ''ls -l''"
    "eCommand (rEntry (rank_demo_out ! 1)) = ''xls''" unfolding out by simp_all
qed

lemma rank_demo_terms:
  "TrimSpace ''LS'' \<noteq> [] \<and> entry_terms ascii_lower ''LS'' = [''ls''] \<and> freq_ok rank_demo_ctx \<and>
   term_class [''ls''] (ascii_lower ''ls -l'') = 3 \<and> term_class [''ls''] (ascii_lower ''xls'') = 2 \<and>
   term_span [''ls''] (ascii_lower ''ls -l'') = 2"
  by code_simp

theorem match_class_dominates_witness:
  "map (\<lambda>r. eCommand (rEntry r)) (RankWith ascii_lower 0 ''LS'' rank_demo False rank_demo_ctx) = [''ls -l'', ''xls''] \<and>
   0 < (1::nat)"
  using rank_demo_commands
    match_class_dominates[of "''LS''" ascii_lower rank_demo_ctx 0 0 rank_demo 1, folded rank_demo_out_def]
  by (simp add: rank_demo_terms rank_demo_nth rank_demo_nth(3)[unfolded One_nat_def] flip: rank_demo_out_def)

section \<open>Suggested commands\<close>

text \<open>The list of first occurrences.\<close>

definition first_occurrences :: "'a list \<Rightarrow> 'a list" where
  "first_occurrences xs = rev (remdups (rev xs))"

lemma remdups_snoc: "remdups (xs @ [x]) = filter (\<lambda>y. y \<noteq> x) (remdups xs) @ [x]"
  by (induction xs) auto

lemma first_occurrences_Nil: "first_occurrences [] = []"
  by (simp add: first_occurrences_def)

lemma first_occurrences_Cons:
  "first_occurrences (x # xs) = x # filter (\<lambda>y. y \<noteq> x) (first_occurrences xs)"
  by (simp add: first_occurrences_def remdups_snoc rev_filter)

lemma suggest_loop_eq:
  assumes "length out < limit"
  shows "suggest_loop pfx limit rs seen out =
     out @ take (limit - length out)
       (filter (\<lambda>c. c \<notin> set seen) (first_occurrences (filter (\<lambda>c. c \<noteq> pfx) (map (\<lambda>r. eCommand (rEntry r)) rs))))"
  using assms
proof (induction rs arbitrary: seen out)
  case (Cons r rs)
  let ?c = "eCommand (rEntry r)"
  have len: "limit \<le> length (out @ [?c]) \<longleftrightarrow> limit - length out = Suc 0" using Cons.prems by auto
  have f: "filter (\<lambda>y. y \<noteq> ?c \<and> y \<notin> set seen) xs = filter (\<lambda>y. y \<notin> set (?c # seen)) xs" for xs
    by (rule filter_cong) auto
  have same: "filter (\<lambda>y. y \<noteq> ?c \<and> y \<notin> set seen) xs = filter (\<lambda>y. y \<notin> set seen) xs" if "?c \<in> set seen" for xs
    using that by (intro filter_cong) auto
  show ?case
  proof (cases "?c = pfx \<or> ?c \<in> set seen")
    case True
    with Cons.IH[OF Cons.prems, of seen] same show ?thesis by (auto simp: first_occurrences_Cons)
  next
    case False
    from Cons.prems obtain k where k: "limit - length out = Suc k" by (cases "limit - length out") auto
    have step: "suggest_loop pfx limit (r # rs) seen out =
        (if k = 0 then out @ [?c] else suggest_loop pfx limit rs (?c # seen) (out @ [?c]))"
      using False len k by (simp add: Let_def)
    have rhs: "filter (\<lambda>c. c \<notin> set seen) (first_occurrences (filter (\<lambda>c. c \<noteq> pfx) (map (\<lambda>r. eCommand (rEntry r)) (r # rs)))) =
        ?c # filter (\<lambda>c. c \<notin> set (?c # seen)) (first_occurrences (filter (\<lambda>c. c \<noteq> pfx) (map (\<lambda>r. eCommand (rEntry r)) rs)))"
      using False f by (simp add: first_occurrences_Cons)
    show ?thesis
    proof (cases "k = 0")
      case True
      then show ?thesis unfolding step rhs k by simp
    next
      case False
      with k have "length (out @ [?c]) < limit" "limit - length (out @ [?c]) = k" by auto
      from Cons.IH[OF this(1), of "?c # seen"] this(2) False show ?thesis unfolding step rhs k by simp
    qed
  qed
qed (simp add: first_occurrences_Nil)

text \<open>\<^verbatim>\<open>Suggestions\<close> returns the commands of the fuzzy ranking in its order, without what is already typed, each
  command once at its best rank, cut to the limit (8 when the caller gives none).\<close>

theorem Suggestions_first_occurrences:
  "Suggestions ToLower now pfx es ctx limit =
     take (if limit \<le> 0 then 8 else nat limit)
       (first_occurrences (filter (\<lambda>c. c \<noteq> pfx)
          (map (\<lambda>r. eCommand (rEntry r)) (RankWith ToLower now pfx es False ctx))))"
proof -
  have "length ([] :: string list) < nat (if limit \<le> 0 then 8 else limit)" by simp
  from suggest_loop_eq[OF this, of pfx _ "[]"] show ?thesis
    by (simp only: Suggestions_def Let_def) (simp split: if_split)
qed

end
