(* ===== verification/Changes.thy ===== *)
theory Changes
  imports Db
begin

text \<open>
  Change sets (\<^verbatim>\<open>internal/history/changes.go\<close>): what an operation on the history did, for the cache to
  follow. The zero \<^verbatim>\<open>Entry\<close> is here too.
\<close>

definition zero_entry :: entry where
  "zero_entry = \<lparr>eID = [], eCommand = [], eStartTS = zero_time, eEndTS = None, eDurationMs = None,
     eExitStatus = None, eCwd = [], eSessionID = [], eHostname = [], eDeviceID = [], eShell = [],
     eDeleted = False, eOriginDeviceID = [], eOriginSeq = None, eCreatedAt = zero_time\<rparr>"

record completion_change =
  ccID :: string
  ccEnd :: int
  ccExit :: int

record change_set =
  csCreated :: "entry list"
  csCompleted :: "completion_change list"
  csTombstoned :: "string list"
  csCommands :: "string list"

definition empty_cs :: change_set where
  "empty_cs = \<lparr>csCreated = [], csCompleted = [], csTombstoned = [], csCommands = []\<rparr>"

definition cs_Empty :: "change_set \<Rightarrow> bool" where
  "cs_Empty c \<longleftrightarrow> length (csCreated c) = 0 \<and> length (csCompleted c) = 0
     \<and> length (csTombstoned c) = 0 \<and> length (csCommands c) = 0"

definition AddCreated :: "change_set \<Rightarrow> entry \<Rightarrow> change_set" where
  "AddCreated c e = c\<lparr>csCreated := csCreated c @ [e]\<rparr>"

definition AddCompleted :: "change_set \<Rightarrow> string \<Rightarrow> int \<Rightarrow> int \<Rightarrow> change_set" where
  "AddCompleted c i endT exit = c\<lparr>csCompleted := csCompleted c @ [\<lparr>ccID = i, ccEnd = endT, ccExit = exit\<rparr>]\<rparr>"

definition AddTombstoned :: "change_set \<Rightarrow> string list \<Rightarrow> change_set" where
  "AddTombstoned c ids = c\<lparr>csTombstoned := csTombstoned c @ ids\<rparr>"

definition cs_Merge :: "change_set \<Rightarrow> change_set \<Rightarrow> change_set" where
  "cs_Merge c other = \<lparr>csCreated = csCreated c @ csCreated other,
     csCompleted = csCompleted c @ csCompleted other,
     csTombstoned = csTombstoned c @ csTombstoned other,
     csCommands = csCommands c @ csCommands other\<rparr>"

end
