(* ===== verification/History_Store.thy ===== *)
theory History_Store
  imports Db
begin

text \<open>
  The history table and its queries: \<^verbatim>\<open>internal/history/store.go\<close>, \<^verbatim>\<open>hash.go\<close> and the scan of a row
  into an \<^verbatim>\<open>Entry\<close>. Operations work on rows with interned columns and on the unique indexes of the
  table; \<^verbatim>\<open>view\<close> is what a \<^verbatim>\<open>SELECT\<close> with the joins of \<^verbatim>\<open>historyFrom\<close> returns. The main facts are
  refinements: every operation, looked at through \<^verbatim>\<open>view\<close>, is the operation one would write on a
  list of entries. The hash of \<^verbatim>\<open>HashCommand\<close> (SHA-256) and the clock are arguments.
\<close>

section \<open>Reading rows\<close>

definition scanEntry :: "db \<Rightarrow> hist_row \<Rightarrow> entry" where
  "scanEntry d r =
     \<lparr>eID = h_id r, eCommand = h_command r, eStartTS = ofMilli (h_start_ts r),
      eEndTS = map_option ofMilli (h_end_ts r), eDurationMs = h_duration_ms r,
      eExitStatus = h_exit_status r,
      eCwd = intern_value (intern_cwd d) (h_cwd_id r),
      eSessionID = intern_value (intern_session d) (h_session_id r),
      eHostname = intern_value (intern_hostname d) (h_hostname_id r),
      eDeviceID = h_device_id r,
      eShell = intern_value (intern_shell d) (h_shell_id r),
      eDeleted = h_deleted r, eOriginDeviceID = stringOf (h_origin_device_id r),
      eOriginSeq = h_origin_seq r, eCreatedAt = ofMilli (h_created_at r)\<rparr>"

definition scanEntries :: "db \<Rightarrow> hist_row list \<Rightarrow> entry list" where
  "scanEntries d rows = map (scanEntry d) rows"

definition view :: "db \<Rightarrow> entry list" where
  "view d = scanEntries d (history d)"

section \<open>Inserting\<close>

text \<open>
  The unique indexes of the table: the primary key, \<^verbatim>\<open>history_origin\<close> on rows with an origin, and
  \<^verbatim>\<open>history_dedup\<close> on rows that are not deleted. A \<^verbatim>\<open>NULL\<close> in a unique index equals nothing, so a
  row without a working directory is never a duplicate.
\<close>

definition row_conflict :: "hist_row \<Rightarrow> hist_row \<Rightarrow> bool" where
  "row_conflict r r' \<longleftrightarrow>
     h_id r = h_id r'
     \<or> h_origin_device_id r \<noteq> None \<and> h_origin_seq r \<noteq> None
       \<and> h_origin_device_id r = h_origin_device_id r' \<and> h_origin_seq r = h_origin_seq r'
     \<or> \<not> h_deleted r \<and> \<not> h_deleted r' \<and> h_command_hash r = h_command_hash r'
       \<and> h_start_ts r = h_start_ts r' \<and> h_cwd_id r \<noteq> None \<and> h_cwd_id r = h_cwd_id r'
       \<and> h_device_id r = h_device_id r'"

definition InsertExec :: "(string \<Rightarrow> bytes) \<Rightarrow> gotime \<Rightarrow> db \<Rightarrow> entry \<Rightarrow> db \<times> bool" where
  "InsertExec HashCommand now d e0 =
     (let e = (if eCreatedAt e0 = zero_time then e0\<lparr>eCreatedAt := now\<rparr> else e0);
          (tc, cwdID) = internID (intern_cwd d) (eCwd e);
          (ts, sessID) = internID (intern_session d) (eSessionID e);
          (th, hostID) = internID (intern_hostname d) (eHostname e);
          (tl, shellID) = internID (intern_shell d) (eShell e);
          d' = d\<lparr>intern_cwd := tc, intern_session := ts, intern_hostname := th, intern_shell := tl\<rparr>;
          r = \<lparr>h_id = eID e, h_command = eCommand e, h_command_hash = HashCommand (eCommand e),
               h_start_ts = UnixMilli (eStartTS e), h_end_ts = map_option UnixMilli (eEndTS e),
               h_duration_ms = eDurationMs e, h_exit_status = eExitStatus e,
               h_cwd_id = cwdID, h_session_id = sessID, h_hostname_id = hostID,
               h_device_id = eDeviceID e, h_shell_id = shellID, h_deleted = eDeleted e,
               h_origin_device_id = nullString (eOriginDeviceID e), h_origin_seq = eOriginSeq e,
               h_created_at = UnixMilli (eCreatedAt e)\<rparr>
      in if \<exists>r' \<in> set (history d). row_conflict r r' then (d', False)
         else (d'\<lparr>history := history d @ [r]\<rparr>, True))"

section \<open>Point queries and updates\<close>

definition Get :: "db \<Rightarrow> string \<Rightarrow> entry option" where
  "Get d i = map_option (scanEntry d) (find (\<lambda>r. h_id r = i) (history d))"

definition ByOrigin :: "db \<Rightarrow> string \<Rightarrow> int \<Rightarrow> entry option" where
  "ByOrigin d deviceID seq =
     map_option (scanEntry d)
       (find (\<lambda>r. h_origin_device_id r = Some deviceID \<and> h_origin_seq r = Some seq) (history d))"

definition ListByOriginRange :: "db \<Rightarrow> string \<Rightarrow> int \<Rightarrow> int \<Rightarrow> entry list" where
  "ListByOriginRange d deviceID start endT =
     scanEntries d
       (sort_by (\<lambda>a b. the (h_origin_seq a) < the (h_origin_seq b))
         (filter (\<lambda>r. h_origin_device_id r = Some deviceID \<and>
             (case h_origin_seq r of None \<Rightarrow> False | Some s \<Rightarrow> start \<le> s \<and> s \<le> endT))
           (history d)))"

definition Complete :: "db \<Rightarrow> string \<Rightarrow> gotime \<Rightarrow> int \<Rightarrow> db" where
  "Complete d i endT exitStatus =
     (let duration = UnixMilli endT
      in d\<lparr>history := map (\<lambda>r. if h_id r = i
             then r\<lparr>h_end_ts := Some (UnixMilli endT), h_exit_status := Some exitStatus,
                    h_duration_ms := Some (duration - h_start_ts r)\<rparr>
             else r) (history d)\<rparr>)"

definition Tombstone :: "db \<Rightarrow> string \<Rightarrow> db" where
  "Tombstone d i =
     d\<lparr>history := map (\<lambda>r. if h_id r = i then r\<lparr>h_deleted := True\<rparr> else r) (history d)\<rparr>"

text \<open>The statement reports how many rows it changed; \<^verbatim>\<open>applyTombstone\<close> reads that number.\<close>

definition TombstoneByOrigin :: "db \<Rightarrow> string \<Rightarrow> int \<Rightarrow> db \<times> nat" where
  "TombstoneByOrigin d deviceID seq =
     (let hit = (\<lambda>r. h_origin_device_id r = Some deviceID \<and> h_origin_seq r = Some seq)
      in (d\<lparr>history := map (\<lambda>r. if hit r then r\<lparr>h_deleted := True\<rparr> else r) (history d)\<rparr>,
          length (filter hit (history d))))"

section \<open>The invariant and the view\<close>

definition row_refs_ok :: "db \<Rightarrow> hist_row \<Rightarrow> bool" where
  "row_refs_ok d r \<longleftrightarrow> intern_known (intern_cwd d) (h_cwd_id r)
     \<and> intern_known (intern_session d) (h_session_id r)
     \<and> intern_known (intern_hostname d) (h_hostname_id r)
     \<and> intern_known (intern_shell d) (h_shell_id r)
     \<and> h_origin_device_id r \<noteq> Some []"

definition no_conflicts :: "hist_row list \<Rightarrow> bool" where
  "no_conflicts rows \<longleftrightarrow> sorted_wrt (\<lambda>a b. \<not> row_conflict b a) rows"

definition history_ok :: "(string \<Rightarrow> bytes) \<Rightarrow> db \<Rightarrow> bool" where
  "history_ok H d \<longleftrightarrow> intern_ok (intern_cwd d) \<and> intern_ok (intern_session d)
     \<and> intern_ok (intern_hostname d) \<and> intern_ok (intern_shell d)
     \<and> (\<forall>r \<in> set (history d). row_refs_ok d r \<and> h_command_hash r = H (h_command r))
     \<and> no_conflicts (history d)"

lemma history_ok_empty [simp]: "history_ok H empty_db"
  by (simp add: history_ok_def empty_db_def no_conflicts_def)

text \<open>What the table keeps of an entry: milliseconds, and a creation time that is never zero.\<close>

definition norm_entry :: "gotime \<Rightarrow> entry \<Rightarrow> entry" where
  "norm_entry now e = e\<lparr>eStartTS := ofMilli (UnixMilli (eStartTS e)),
     eEndTS := map_option (ofMilli \<circ> UnixMilli) (eEndTS e),
     eCreatedAt := ofMilli (UnixMilli (if eCreatedAt e = zero_time then now else eCreatedAt e))\<rparr>"

text \<open>The same conflict, seen on entries.\<close>

definition entry_conflict :: "(string \<Rightarrow> bytes) \<Rightarrow> entry \<Rightarrow> entry \<Rightarrow> bool" where
  "entry_conflict H e e' \<longleftrightarrow>
     eID e = eID e'
     \<or> eOriginDeviceID e \<noteq> [] \<and> eOriginSeq e \<noteq> None
       \<and> eOriginDeviceID e = eOriginDeviceID e' \<and> eOriginSeq e = eOriginSeq e'
     \<or> \<not> eDeleted e \<and> \<not> eDeleted e' \<and> H (eCommand e) = H (eCommand e')
       \<and> UnixMilli (eStartTS e) = UnixMilli (eStartTS e') \<and> eCwd e \<noteq> [] \<and> eCwd e = eCwd e'
       \<and> eDeviceID e = eDeviceID e'"

lemma scanEntry_simps [simp]:
  "eID (scanEntry d r) = h_id r" "eCommand (scanEntry d r) = h_command r"
  "eStartTS (scanEntry d r) = ofMilli (h_start_ts r)"
  "eDeleted (scanEntry d r) = h_deleted r"
  "eOriginDeviceID (scanEntry d r) = stringOf (h_origin_device_id r)"
  "eOriginSeq (scanEntry d r) = h_origin_seq r"
  "eCwd (scanEntry d r) = intern_value (intern_cwd d) (h_cwd_id r)"
  "eDeviceID (scanEntry d r) = h_device_id r"
  by (simp_all add: scanEntry_def)

lemma scanEntry_deleted [simp]: "scanEntry d (r\<lparr>h_deleted := b\<rparr>) = (scanEntry d r)\<lparr>eDeleted := b\<rparr>"
  by (simp add: scanEntry_def)

lemma scanEntry_tables:
  "scanEntry (d\<lparr>history := x\<rparr>) r = scanEntry d r"
  by (simp add: scanEntry_def)

lemma set_view: "e \<in> set (view d) \<longleftrightarrow> (\<exists>r \<in> set (history d). e = scanEntry d r)"
  by (auto simp: view_def scanEntries_def)

lemma row_conflict_view:
  assumes ok: "intern_ok (intern_cwd d)" and "row_refs_ok d r" "row_refs_ok d r'"
    and "h_command_hash r = H (h_command r)" "h_command_hash r' = H (h_command r')"
  shows "row_conflict r r' \<longleftrightarrow> entry_conflict H (scanEntry d r) (scanEntry d r')"
proof -
  have o: "\<And>v. row_refs_ok d v \<Longrightarrow> h_origin_device_id v = nullString (stringOf (h_origin_device_id v))"
    by (auto simp: row_refs_ok_def nullString_def stringOf_def split: option.splits)
  have c: "h_cwd_id r = h_cwd_id r' \<longleftrightarrow>
      intern_value (intern_cwd d) (h_cwd_id r) = intern_value (intern_cwd d) (h_cwd_id r')"
    using dbintern.lookup_inj[OF ok, of "h_cwd_id r" "h_cwd_id r'"] assms(2,3)
    by (auto simp: row_refs_ok_def)
  have n: "h_cwd_id r \<noteq> None \<longleftrightarrow> intern_value (intern_cwd d) (h_cwd_id r) \<noteq> []"
    using dbintern.lookup_inj[OF ok, of "h_cwd_id r" None] assms(2)
    by (cases "h_cwd_id r") (auto simp: row_refs_ok_def intern_value_def intern_known_def)
  have e: "h_origin_device_id r = h_origin_device_id r' \<longleftrightarrow>
      stringOf (h_origin_device_id r) = stringOf (h_origin_device_id r')"
    using o[OF assms(2)] o[OF assms(3)] by metis
  have en: "h_origin_device_id r \<noteq> None \<longleftrightarrow> stringOf (h_origin_device_id r) \<noteq> []"
    using assms(2) by (auto simp: row_refs_ok_def stringOf_def split: option.splits)
  show ?thesis
    unfolding row_conflict_def entry_conflict_def scanEntry_simps UnixMilli_ofMilli
    unfolding e en c n assms(4,5) by blast
qed

section \<open>Inserting refines adding to the view\<close>

definition insert_view :: "(string \<Rightarrow> bytes) \<Rightarrow> gotime \<Rightarrow> entry list \<Rightarrow> entry \<Rightarrow> entry list \<times> bool" where
  "insert_view H now v e =
     (if \<exists>e' \<in> set v. entry_conflict H (norm_entry now e) e' then (v, False)
      else (v @ [norm_entry now e], True))"

lemma InsertExec_unfold:
  obtains r d' where
    "d' = d\<lparr>intern_cwd := fst (internID (intern_cwd d) (eCwd e)),
            intern_session := fst (internID (intern_session d) (eSessionID e)),
            intern_hostname := fst (internID (intern_hostname d) (eHostname e)),
            intern_shell := fst (internID (intern_shell d) (eShell e))\<rparr>"
    "InsertExec H now d e =
       (if \<exists>r' \<in> set (history d). row_conflict r r' then (d', False)
        else (d'\<lparr>history := history d @ [r]\<rparr>, True))"
    "h_command_hash r = H (h_command r)"
    "history_ok H d \<Longrightarrow> row_refs_ok d' r \<and> scanEntry d' r = norm_entry now e"
proof -
  let ?ic = "internID (intern_cwd d) (eCwd e)" and ?is = "internID (intern_session d) (eSessionID e)"
  let ?ih = "internID (intern_hostname d) (eHostname e)" and ?il = "internID (intern_shell d) (eShell e)"
  let ?c = "if eCreatedAt e = zero_time then now else eCreatedAt e"
  let ?r = "\<lparr>h_id = eID e, h_command = eCommand e, h_command_hash = H (eCommand e),
     h_start_ts = UnixMilli (eStartTS e), h_end_ts = map_option UnixMilli (eEndTS e),
     h_duration_ms = eDurationMs e, h_exit_status = eExitStatus e,
     h_cwd_id = snd ?ic, h_session_id = snd ?is, h_hostname_id = snd ?ih,
     h_device_id = eDeviceID e, h_shell_id = snd ?il, h_deleted = eDeleted e,
     h_origin_device_id = nullString (eOriginDeviceID e), h_origin_seq = eOriginSeq e,
     h_created_at = UnixMilli ?c\<rparr>"
  let ?d = "d\<lparr>intern_cwd := fst ?ic, intern_session := fst ?is, intern_hostname := fst ?ih,
     intern_shell := fst ?il\<rparr>"
  show thesis
  proof (rule that[of ?d ?r])
    show "InsertExec H now d e =
       (if \<exists>r' \<in> set (history d). row_conflict ?r r' then (?d, False)
        else (?d\<lparr>history := history d @ [?r]\<rparr>, True))"
      by (simp add: InsertExec_def Let_def split_beta)
    assume "history_ok H d"
    then show "row_refs_ok ?d ?r \<and> scanEntry ?d ?r = norm_entry now e"
      by (simp add: history_ok_def row_refs_ok_def scanEntry_def norm_entry_def
          dbintern.known_intern dbintern.lookup_intern option.map_comp)
  qed simp_all
qed

lemma intern_tables_grow:
  assumes "history_ok H d" and "r \<in> set (history d)"
    and "d' = d\<lparr>intern_cwd := fst (internID (intern_cwd d) a),
            intern_session := fst (internID (intern_session d) b),
            intern_hostname := fst (internID (intern_hostname d) c),
            intern_shell := fst (internID (intern_shell d) s)\<rparr>"
  shows "row_refs_ok d' r \<and> scanEntry d' r = scanEntry d r"
  using assms
  by (simp add: history_ok_def row_refs_ok_def scanEntry_def dbintern.known_stable dbintern.lookup_stable)

lemma InsertExec_refines:
  assumes ok: "history_ok H d"
  shows "history_ok H (fst (InsertExec H now d e))"
    and "(view (fst (InsertExec H now d e)), snd (InsertExec H now d e)) = insert_view H now (view d) e"
proof -
  obtain r d' where d': "d' = d\<lparr>intern_cwd := fst (internID (intern_cwd d) (eCwd e)),
            intern_session := fst (internID (intern_session d) (eSessionID e)),
            intern_hostname := fst (internID (intern_hostname d) (eHostname e)),
            intern_shell := fst (internID (intern_shell d) (eShell e))\<rparr>"
    and ins: "InsertExec H now d e =
       (if \<exists>r' \<in> set (history d). row_conflict r r' then (d', False)
        else (d'\<lparr>history := history d @ [r]\<rparr>, True))"
    and hash: "h_command_hash r = H (h_command r)"
    and r: "row_refs_ok d' r \<and> scanEntry d' r = norm_entry now e"
    using InsertExec_unfold[of d e H now] ok by metis
  have old: "\<And>r'. r' \<in> set (history d) \<Longrightarrow> row_refs_ok d' r' \<and> scanEntry d' r' = scanEntry d r'"
    using intern_tables_grow[OF ok _ d'] by blast
  have tabs: "intern_ok (intern_cwd d')" "intern_ok (intern_session d')"
    "intern_ok (intern_hostname d')" "intern_ok (intern_shell d')"
    using ok unfolding d' history_ok_def by (simp_all add: dbintern.inv_intern)
  have hd': "history d' = history d" by (simp add: d')
  have hashes: "\<And>r'. r' \<in> set (history d) \<Longrightarrow> h_command_hash r' = H (h_command r')"
    using ok by (simp add: history_ok_def)
  have conf: "row_conflict r r' \<longleftrightarrow> entry_conflict H (norm_entry now e) (scanEntry d r')"
    if "r' \<in> set (history d)" for r'
    using row_conflict_view[OF tabs(1), of r r' H] r old[OF that] hash hashes[OF that] by simp
  have v': "view d' = view d" by (simp add: view_def scanEntries_def hd' old)
  have refs: "\<And>x r'. row_refs_ok (d'\<lparr>history := x\<rparr>) r' = row_refs_ok d' r'"
    by (simp add: row_refs_ok_def)
  have base: "history_ok H d'"
    using ok tabs old hashes unfolding history_ok_def hd' by auto
  show "history_ok H (fst (InsertExec H now d e))"
  proof (cases "\<exists>r' \<in> set (history d). row_conflict r r'")
    case True
    then show ?thesis using base by (simp add: ins)
  next
    case False
    then show ?thesis
      using base r hash
      by (auto simp: ins history_ok_def refs hd' no_conflicts_def sorted_wrt_append)
  qed
  show "(view (fst (InsertExec H now d e)), snd (InsertExec H now d e)) = insert_view H now (view d) e"
    using conf v' r hd'
    by (auto simp: ins insert_view_def set_view view_def scanEntries_def scanEntry_tables)
qed

lemma norm_entry_simps [simp]:
  "eID (norm_entry now e) = eID e" "eCommand (norm_entry now e) = eCommand e"
  "eDeleted (norm_entry now e) = eDeleted e" "eOriginDeviceID (norm_entry now e) = eOriginDeviceID e"
  "eOriginSeq (norm_entry now e) = eOriginSeq e" "eCwd (norm_entry now e) = eCwd e"
  "eDeviceID (norm_entry now e) = eDeviceID e"
  "UnixMilli (eStartTS (norm_entry now e)) = UnixMilli (eStartTS e)"
  by (simp_all add: norm_entry_def)

section \<open>Updates and queries on the view\<close>

lemma Tombstone_tables [simp]:
  "intern_cwd (Tombstone d i) = intern_cwd d" "intern_session (Tombstone d i) = intern_session d"
  "intern_hostname (Tombstone d i) = intern_hostname d" "intern_shell (Tombstone d i) = intern_shell d"
  by (simp_all add: Tombstone_def)

definition mark_deleted :: "(entry \<Rightarrow> bool) \<Rightarrow> entry list \<Rightarrow> entry list" where
  "mark_deleted p v = map (\<lambda>e. if p e then e\<lparr>eDeleted := True\<rparr> else e) v"

lemma row_conflict_deleted:
  "row_conflict (r\<lparr>h_deleted := True\<rparr>) r' \<Longrightarrow> row_conflict r r'"
  "row_conflict r (r'\<lparr>h_deleted := True\<rparr>) \<Longrightarrow> row_conflict r r'"
  by (auto simp: row_conflict_def)

lemma history_ok_delete:
  assumes "history_ok H d"
  shows "history_ok H (d\<lparr>history := map (\<lambda>r. if p r then r\<lparr>h_deleted := True\<rparr> else r) (history d)\<rparr>)"
proof -
  have "no_conflicts (map (\<lambda>r. if p r then r\<lparr>h_deleted := True\<rparr> else r) (history d))"
    using assms unfolding history_ok_def no_conflicts_def sorted_wrt_map
    by (auto elim!: sorted_wrt_mono_rel[rotated] dest: row_conflict_deleted)
  then show ?thesis using assms by (auto simp: history_ok_def row_refs_ok_def)
qed

lemma view_delete:
  assumes "\<And>r. r \<in> set (history d) \<Longrightarrow> p r \<longleftrightarrow> q (scanEntry d r)"
  shows "view (d\<lparr>history := map (\<lambda>r. if p r then r\<lparr>h_deleted := True\<rparr> else r) (history d)\<rparr>) =
     mark_deleted q (view d)"
  using assms by (auto simp: view_def scanEntries_def mark_deleted_def scanEntry_tables)

lemma history_ok_Tombstone [simp]: "history_ok H d \<Longrightarrow> history_ok H (Tombstone d i)"
  unfolding Tombstone_def by (rule history_ok_delete)

lemma view_Tombstone [view_simps]: "view (Tombstone d i) = mark_deleted (\<lambda>e. eID e = i) (view d)"
  unfolding Tombstone_def by (rule view_delete) simp

lemma history_ok_TombstoneByOrigin [simp]:
  "history_ok H d \<Longrightarrow> history_ok H (fst (TombstoneByOrigin d dev seq))"
  unfolding TombstoneByOrigin_def Let_def fst_conv by (rule history_ok_delete)

lemma origin_view:
  "history_ok H d \<Longrightarrow> r \<in> set (history d) \<Longrightarrow> dev \<noteq> [] \<Longrightarrow>
     h_origin_device_id r = Some dev \<longleftrightarrow> eOriginDeviceID (scanEntry d r) = dev"
  by (auto simp: history_ok_def row_refs_ok_def stringOf_def split: option.splits)

lemma view_TombstoneByOrigin [view_simps]:
  assumes "history_ok H d" and "dev \<noteq> []"
  shows "view (fst (TombstoneByOrigin d dev seq)) =
      mark_deleted (\<lambda>e. eOriginDeviceID e = dev \<and> eOriginSeq e = Some seq) (view d)"
    and "snd (TombstoneByOrigin d dev seq) = 0 \<longleftrightarrow>
      (\<forall>e \<in> set (view d). \<not> (eOriginDeviceID e = dev \<and> eOriginSeq e = Some seq))"
proof -
  show "view (fst (TombstoneByOrigin d dev seq)) =
      mark_deleted (\<lambda>e. eOriginDeviceID e = dev \<and> eOriginSeq e = Some seq) (view d)"
    unfolding TombstoneByOrigin_def Let_def fst_conv
    using origin_view[OF assms(1) _ assms(2)] by (intro view_delete) auto
  show "snd (TombstoneByOrigin d dev seq) = 0 \<longleftrightarrow>
      (\<forall>e \<in> set (view d). \<not> (eOriginDeviceID e = dev \<and> eOriginSeq e = Some seq))"
    using origin_view[OF assms(1) _ assms(2)]
    by (simp add: TombstoneByOrigin_def Let_def filter_empty_conv view_def scanEntries_def)
qed

lemma Get_view: "Get d i = find (\<lambda>e. eID e = i) (view d)"
proof -
  have "map_option (scanEntry d) (find (\<lambda>r. h_id r = i) rows) = find (\<lambda>e. eID e = i) (scanEntries d rows)" for rows
    by (induction rows) (simp_all add: scanEntries_def)
  then show ?thesis by (simp add: Get_def view_def)
qed

lemma ByOrigin_view:
  assumes "history_ok H d" and "dev \<noteq> []"
  shows "ByOrigin d dev seq = find (\<lambda>e. eOriginDeviceID e = dev \<and> eOriginSeq e = Some seq) (view d)"
proof -
  have "map_option (scanEntry d) (find (\<lambda>r. h_origin_device_id r = Some dev \<and> h_origin_seq r = Some seq) rows)
      = find (\<lambda>e. eOriginDeviceID e = dev \<and> eOriginSeq e = Some seq) (scanEntries d rows)"
    if "set rows \<subseteq> set (history d)" for rows
    using that
  proof (induction rows)
    case (Cons r rows)
    have "(h_origin_device_id r = Some dev) = (eOriginDeviceID (scanEntry d r) = dev)"
      using Cons.prems by (intro origin_view[OF assms(1) _ assms(2)]) simp
    with Cons show ?case by (simp add: scanEntries_def)
  qed (simp add: scanEntries_def)
  from this[of "history d"] show ?thesis unfolding ByOrigin_def view_def by blast
qed

lemma find_unique:
  assumes "e \<in> set v" and "p e" and "\<forall>e' \<in> set v. p e' \<longrightarrow> e' = e"
  shows "find p v = Some e"
proof (cases "find p v")
  case None
  with assms(1,2) show ?thesis by (simp add: find_None_iff)
next
  case (Some x)
  then have "x \<in> set v \<and> p x" by (auto simp: find_Some_iff)
  with assms(3) have "x = e" by blast
  with Some show ?thesis by simp
qed

lemma view_ids_distinct:
  assumes "history_ok H d"
  shows "distinct (map eID (view d))"
proof -
  have "distinct (map h_id rows)" if "no_conflicts rows" for rows
    using that by (induction rows) (auto simp: no_conflicts_def row_conflict_def)
  moreover have "map eID (view d) = map h_id (history d)"
    by (simp add: view_def scanEntries_def)
  ultimately show ?thesis using assms by (simp add: history_ok_def)
qed

end
