(* ===== verification/Cache.thy ===== *)
theory Cache
  imports Changes History_Store
begin

text \<open>
  The in-memory cache of unique commands (\<^verbatim>\<open>internal/history/cache.go\<close>): a string pool, one record per
  command in a slice, an index from command ids to slice positions, a table from entry ids to command
  ids and a slice of positions sorted by command. The theory gives the representation invariant, shows
  that every operation keeps it and refines the operations to an abstract cache, a map from commands to
  their summary and a map from entry ids to commands. Slice positions are only read through the index,
  which the invariant keeps in range.
\<close>

section \<open>The string pool\<close>

definition wrap32 :: "int \<Rightarrow> int" where
  "wrap32 x = (x + 2 ^ 31) mod 2 ^ 32 - 2 ^ 31"

lemma wrap32_id: "- (2 ^ 31) \<le> x \<Longrightarrow> x < 2 ^ 31 \<Longrightarrow> wrap32 x = x"
  by (simp add: wrap32_def)

record stringPool =
  pStrs :: "string list"
  pIds :: "(string \<times> int) list"

definition newStringPool :: stringPool where
  "newStringPool = \<lparr>pStrs = [], pIds = []\<rparr>"

definition pool_intern :: "stringPool \<Rightarrow> string \<Rightarrow> stringPool \<times> int" where
  "pool_intern p s =
     (case map_of (pIds p) s of
        Some i \<Rightarrow> (p, i)
      | None \<Rightarrow> (let i = wrap32 (int (length (pStrs p)))
                 in (\<lparr>pStrs = pStrs p @ [s], pIds = map_put s i (pIds p)\<rparr>, i)))"

definition pool_get :: "stringPool \<Rightarrow> int \<Rightarrow> string" where
  "pool_get p i = (if i < 0 \<or> i \<ge> int (length (pStrs p)) then [] else pStrs p ! nat i)"

section \<open>The cache\<close>

record cacheRec =
  kCmd :: int
  kCwd :: int
  kDevice :: int
  kSession :: int
  kLastStart :: int
  kLastDurationMs :: int
  kLastExit :: int
  kFreq :: int

record cacheStats =
  sEntries :: nat
  sUniqueCommands :: nat
  sInternedStrings :: nat
  sBytes :: int
  sDirty :: bool
  sRowsScanned :: nat

record cache =
  cPool :: stringPool
  cRecs :: "cacheRec list"
  cByCmd :: "(int \<times> nat) list"
  cIdToCmd :: "(string \<times> int) list"
  cSorted :: "nat list"
  cDirty :: bool
  cStats :: cacheStats

definition NewCache :: cache where
  "NewCache = \<lparr>cPool = newStringPool, cRecs = [], cByCmd = [], cIdToCmd = [], cSorted = [], cDirty = False,
     cStats = \<lparr>sEntries = 0, sUniqueCommands = 0, sInternedStrings = 0, sBytes = 0, sDirty = False, sRowsScanned = 0\<rparr>\<rparr>"

definition durationMsOf :: "entry \<Rightarrow> int" where
  "durationMsOf e = (case eDurationMs e of None \<Rightarrow> 0 | Some d \<Rightarrow> if d < 0 then 0 else d)"

definition completeDurationMs :: "int \<Rightarrow> int \<Rightarrow> int" where
  "completeDurationMs startMs endMs =
     (if startMs \<le> 0 \<or> endMs < startMs then 0 else endMs - startMs)"

definition exit_of :: "entry \<Rightarrow> int" where
  "exit_of e = (case eExitStatus e of None \<Rightarrow> -1 | Some x \<Rightarrow> wrap32 x)"

text \<open>Interning the directory, the device and the session of an entry, in this order.\<close>

definition intern_place :: "stringPool \<Rightarrow> entry \<Rightarrow> stringPool \<times> int \<times> int \<times> int" where
  "intern_place p e =
     (let (p1, w) = pool_intern p (eCwd e);
          (p2, d) = pool_intern p1 (eDeviceID e);
          (p3, s) = pool_intern p2 (eSessionID e)
      in (p3, w, d, s))"

definition applyCreatedLocked :: "cache \<Rightarrow> entry \<Rightarrow> cache" where
  "applyCreatedLocked c e =
     (if eDeleted e \<or> eCommand e = [] then c
      else
        (let (p, cmdID) = pool_intern (cPool c) (eCommand e);
             ids = map_put (eID e) cmdID (cIdToCmd c);
             start = UnixMilli (eStartTS e);
             exit = exit_of e;
             dur = durationMsOf e
         in case map_of (cByCmd c) cmdID of
              Some idx \<Rightarrow>
                (let r = (cRecs c ! idx)\<lparr>kFreq := wrap32 (kFreq (cRecs c ! idx) + 1)\<rparr>
                 in if start \<ge> kLastStart r then
                      (let (p', w, d, s) = intern_place p e
                       in c\<lparr>cPool := p', cIdToCmd := ids,
                            cRecs := (cRecs c)[idx := r\<lparr>kLastStart := start, kLastExit := exit,
                              kLastDurationMs := dur, kCwd := w, kDevice := d, kSession := s\<rparr>]\<rparr>)
                    else c\<lparr>cPool := p, cIdToCmd := ids, cRecs := (cRecs c)[idx := r]\<rparr>)
            | None \<Rightarrow>
                (let (p', w, d, s) = intern_place p e
                 in c\<lparr>cPool := p', cIdToCmd := ids, cByCmd := map_put cmdID (length (cRecs c)) (cByCmd c),
                      cRecs := cRecs c @ [\<lparr>kCmd = cmdID, kCwd = w, kDevice = d, kSession = s, kLastStart = start,
                        kLastDurationMs = dur, kLastExit = exit, kFreq = 1\<rparr>]\<rparr>)))"

definition applyCompletedLocked :: "cache \<Rightarrow> string \<Rightarrow> int \<Rightarrow> int \<Rightarrow> cache" where
  "applyCompletedLocked c i endMs exit =
     (case map_of (cIdToCmd c) i of
        None \<Rightarrow> c
      | Some cmdID \<Rightarrow>
          (case map_of (cByCmd c) cmdID of
             None \<Rightarrow> c
           | Some idx \<Rightarrow> c\<lparr>cRecs := (cRecs c)[idx := (cRecs c ! idx)
               \<lparr>kLastExit := wrap32 exit, kLastDurationMs := completeDurationMs (kLastStart (cRecs c ! idx)) endMs\<rparr>]\<rparr>))"

definition removeAtLocked :: "cache \<Rightarrow> nat \<Rightarrow> cache" where
  "removeAtLocked c idx =
     (let cmdID = kCmd (cRecs c ! idx);
          lst = length (cRecs c) - 1;
          c1 = (if idx \<noteq> lst
                then c\<lparr>cRecs := (cRecs c)[idx := cRecs c ! lst],
                       cByCmd := map_put (kCmd (cRecs c ! lst)) idx (cByCmd c)\<rparr>
                else c)
      in c1\<lparr>cRecs := take lst (cRecs c1), cByCmd := map_del cmdID (cByCmd c1)\<rparr>)"

definition resortLocked :: "cache \<Rightarrow> cache" where
  "resortLocked c =
     c\<lparr>cSorted := sort_by (\<lambda>i j. pool_get (cPool c) (kCmd (cRecs c ! i)) < pool_get (cPool c) (kCmd (cRecs c ! j)))
        [0..<length (cRecs c)]\<rparr>"

definition referencedStringCountLocked :: "cache \<Rightarrow> nat" where
  "referencedStringCountLocked c =
     length (remdups (concat (map (\<lambda>r. [kCmd r, kCwd r, kDevice r, kSession r]) (cRecs c))))"

text \<open>\<^verbatim>\<open>remap\<close>, the closure of \<^verbatim>\<open>compactPoolLocked\<close>, with the state it writes: the next pool and \<^verbatim>\<open>oldToNew\<close>.\<close>

type_synonym remap_state = "stringPool \<times> (int \<times> int) list"

definition remap :: "stringPool \<Rightarrow> remap_state \<Rightarrow> int \<Rightarrow> remap_state \<times> int" where
  "remap old st i =
     (let (nxt, o2n) = st
      in case map_of o2n i of
           Some j \<Rightarrow> (st, j)
         | None \<Rightarrow> (let (nxt', j) = pool_intern nxt (pool_get old i) in ((nxt', map_put i j o2n), j)))"

definition remap_rec :: "stringPool \<Rightarrow> remap_state \<Rightarrow> cacheRec \<Rightarrow> remap_state \<times> cacheRec" where
  "remap_rec old st r =
     (let (s1, a) = remap old st (kCmd r);
          (s2, b) = remap old s1 (kCwd r);
          (s3, d) = remap old s2 (kDevice r);
          (s4, e) = remap old s3 (kSession r)
      in (s4, r\<lparr>kCmd := a, kCwd := b, kDevice := d, kSession := e\<rparr>))"

fun remap_recs :: "stringPool \<Rightarrow> remap_state \<Rightarrow> nat \<Rightarrow> (int \<times> nat) list \<Rightarrow> cacheRec list
    \<Rightarrow> remap_state \<times> (int \<times> nat) list \<times> cacheRec list" where
  "remap_recs old st i m [] = (st, m, [])"
| "remap_recs old st i m (r # rs) =
     (let (st1, r') = remap_rec old st r;
          (st2, m2, rs') = remap_recs old st1 (Suc i) (map_put (kCmd r') i m) rs
      in (st2, m2, r' # rs'))"

fun remap_ids :: "stringPool \<Rightarrow> remap_state \<Rightarrow> (string \<times> int) list \<Rightarrow> (string \<times> int) list
    \<Rightarrow> remap_state \<times> (string \<times> int) list" where
  "remap_ids old st m [] = (st, m)"
| "remap_ids old st m ((i, oldCmd) # xs) =
     (let (st1, j) = remap old st oldCmd in remap_ids old st1 (map_put i j m) xs)"

definition compactPoolLocked :: "cache \<Rightarrow> cache" where
  "compactPoolLocked c =
     (let (st1, newByCmd, recs') = remap_recs (cPool c) (newStringPool, []) 0 [] (cRecs c);
          (st2, newIDToCmd) = remap_ids (cPool c) st1 [] (cIdToCmd c)
      in c\<lparr>cPool := fst st2, cRecs := recs', cByCmd := newByCmd, cIdToCmd := newIDToCmd\<rparr>)"

definition maybeCompactLocked :: "cache \<Rightarrow> cache" where
  "maybeCompactLocked c =
     (if length (pStrs (cPool c)) = 0 then c
      else (let live = referencedStringCountLocked c
            in if live = 0 \<or> length (pStrs (cPool c)) > live * 2 then compactPoolLocked c else c))"

text \<open>The size of a \<^verbatim>\<open>cacheRec\<close> is 40 bytes on a 64-bit machine.\<close>

definition estimateBytesLocked :: "cache \<Rightarrow> int" where
  "estimateBytesLocked c =
     wrap64 (sum_list (map (\<lambda>s. int (length s)) (pStrs (cPool c))) + int (length (cRecs c)) * 40 +
       int (length (cIdToCmd c)) * 48)"

definition refreshStatsLocked :: "cache \<Rightarrow> cache" where
  "refreshStatsLocked c = c\<lparr>cStats := (cStats c)\<lparr>sUniqueCommands := length (cRecs c), sEntries := length (cIdToCmd c),
     sInternedStrings := length (pStrs (cPool c)), sBytes := estimateBytesLocked c\<rparr>\<rparr>"

definition Stats :: "cache \<Rightarrow> cacheStats" where
  "Stats c = (cStats c)\<lparr>sDirty := cDirty c, sEntries := length (cIdToCmd c), sUniqueCommands := length (cRecs c),
     sInternedStrings := length (pStrs (cPool c)), sBytes := estimateBytesLocked c\<rparr>"

definition settle :: "cache \<Rightarrow> cache" where
  "settle c = refreshStatsLocked (maybeCompactLocked (resortLocked c))"

definition ApplyCreated :: "cache \<Rightarrow> entry \<Rightarrow> cache" where
  "ApplyCreated c e = settle (applyCreatedLocked c e)"

definition ApplyCompleted :: "cache \<Rightarrow> string \<Rightarrow> gotime \<Rightarrow> int \<Rightarrow> cache" where
  "ApplyCompleted c i endT exit = applyCompletedLocked c i (UnixMilli endT) exit"

text \<open>The body of the loops over tombstoned ids in \<^verbatim>\<open>ApplyTombstoned\<close> and \<^verbatim>\<open>ApplyBatch\<close>.\<close>

definition tombstone_id :: "cache \<Rightarrow> string \<Rightarrow> cache" where
  "tombstone_id c i =
     (case map_of (cIdToCmd c) i of
        None \<Rightarrow> c\<lparr>cDirty := True\<rparr>
      | Some cmdID \<Rightarrow>
          (let c1 = c\<lparr>cIdToCmd := map_del i (cIdToCmd c)\<rparr>
           in case map_of (cByCmd c1) cmdID of
                None \<Rightarrow> c1
              | Some idx \<Rightarrow>
                  (let r = (cRecs c1 ! idx)\<lparr>kFreq := wrap32 (kFreq (cRecs c1 ! idx) - 1)\<rparr>;
                       c2 = c1\<lparr>cRecs := (cRecs c1)[idx := r]\<rparr>
                   in if kFreq r \<le> 0 then removeAtLocked c2 idx else c2)))"

definition ApplyTombstoned :: "cache \<Rightarrow> string list \<Rightarrow> cache" where
  "ApplyTombstoned c ids = settle (foldl tombstone_id c ids)"

definition ApplyTombstoneCommandUnlocked :: "cache \<Rightarrow> string \<Rightarrow> cache" where
  "ApplyTombstoneCommandUnlocked c command =
     (case map_of (pIds (cPool c)) command of
        None \<Rightarrow> c
      | Some cmdID \<Rightarrow>
          (case map_of (cByCmd c) cmdID of
             None \<Rightarrow> c
           | Some idx \<Rightarrow> removeAtLocked (c\<lparr>cIdToCmd := filter (\<lambda>(i, cid). cid \<noteq> cmdID) (cIdToCmd c)\<rparr>) idx))"

text \<open>The locked variant returns before the final steps when the command is unknown.\<close>

definition ApplyTombstoneCommand :: "cache \<Rightarrow> string \<Rightarrow> cache" where
  "ApplyTombstoneCommand c command =
     (case map_of (pIds (cPool c)) command of
        None \<Rightarrow> c
      | Some cmdID \<Rightarrow>
          (case map_of (cByCmd c) cmdID of
             None \<Rightarrow> c
           | Some idx \<Rightarrow>
               settle (removeAtLocked (c\<lparr>cIdToCmd := filter (\<lambda>(i, cid). cid \<noteq> cmdID) (cIdToCmd c)\<rparr>) idx)))"

definition ApplyBatch :: "cache \<Rightarrow> change_set \<Rightarrow> cache" where
  "ApplyBatch c cs =
     (let c1 = foldl applyCreatedLocked c (csCreated cs);
          c2 = foldl (\<lambda>c done. applyCompletedLocked c (ccID done) (ccEnd done) (ccExit done)) c1 (csCompleted cs);
          c3 = foldl tombstone_id c2 (csTombstoned cs);
          c4 = foldl ApplyTombstoneCommandUnlocked c3 (csCommands cs)
      in settle c4)"

definition MarkDirty :: "cache \<Rightarrow> cache" where
  "MarkDirty c = c\<lparr>cDirty := True\<rparr>"

definition Compact :: "cache \<Rightarrow> cache" where
  "Compact c = refreshStatsLocked (compactPoolLocked c)"

text \<open>\<^verbatim>\<open>Store.ScanLive\<close>: the rows that are not deleted, by start time and id.\<close>

definition ScanLive :: "db \<Rightarrow> entry list" where
  "ScanLive d = scanEntries d
     (sort_by (\<lambda>a b. h_start_ts a < h_start_ts b \<or> h_start_ts a = h_start_ts b \<and> h_id a < h_id b)
       (filter (\<lambda>r. \<not> h_deleted r) (history d)))"

text \<open>
  \<^verbatim>\<open>Rebuild\<close> fills a new cache and then replaces the fields of the old one; an error of the scan or a
  cancelled context leaves the old cache as it was. \<open>cancelled\<close> is what \<^verbatim>\<open>ctx.Err()\<close> returns for the row.
\<close>

fun rebuild_scan :: "(entry \<Rightarrow> go_error option) \<Rightarrow> entry list \<Rightarrow> nat \<Rightarrow> cache \<Rightarrow> (nat \<times> cache) result" where
  "rebuild_scan cancelled [] n c = Inr (n, c)"
| "rebuild_scan cancelled (e # es) n c =
     (case cancelled e of
        Some err \<Rightarrow> Inl err
      | None \<Rightarrow> rebuild_scan cancelled es (Suc n) (applyCreatedLocked c e))"

definition Rebuild :: "(entry \<Rightarrow> go_error option) \<Rightarrow> db \<Rightarrow> cache \<Rightarrow> cache \<times> go_error option" where
  "Rebuild cancelled d c =
     (case rebuild_scan cancelled (ScanLive d) 0 NewCache of
        Inl err \<Rightarrow> (c, Some err)
      | Inr (n, next0) \<Rightarrow>
          (let nxt = resortLocked next0;
               st = \<lparr>sEntries = length (cIdToCmd nxt), sUniqueCommands = length (cRecs nxt),
                     sInternedStrings = length (pStrs (cPool nxt)), sBytes = estimateBytesLocked nxt,
                     sDirty = False, sRowsScanned = n\<rparr>
           in (nxt\<lparr>cDirty := False, cStats := st\<rparr>, None)))"

section \<open>Queries\<close>

definition entryFromLocked :: "cache \<Rightarrow> cacheRec \<Rightarrow> entry" where
  "entryFromLocked c r = zero_entry
     \<lparr>eCommand := pool_get (cPool c) (kCmd r), eCwd := pool_get (cPool c) (kCwd r),
      eDeviceID := pool_get (cPool c) (kDevice r), eSessionID := pool_get (cPool c) (kSession r),
      eStartTS := ofMilli (kLastStart r),
      eExitStatus := (if kLastExit r \<ge> 0 then Some (kLastExit r) else None),
      eDurationMs := (if kLastDurationMs r > 0 then Some (kLastDurationMs r) else None)\<rparr>"

text \<open>\<^verbatim>\<open>sort.Search\<close> on the interval from \<open>i\<close> to \<open>j\<close>.\<close>

function search_loop :: "(nat \<Rightarrow> bool) \<Rightarrow> nat \<Rightarrow> nat \<Rightarrow> nat" where
  "search_loop f i j =
     (if i < j then (let h = (i + j) div 2 in if \<not> f h then search_loop f (h + 1) j else search_loop f i h) else i)"
  by pat_completeness auto
termination
  by (relation "measure (\<lambda>(f, i, j). j - i)") auto

declare search_loop.simps [simp del]

definition sort_Search :: "nat \<Rightarrow> (nat \<Rightarrow> bool) \<Rightarrow> nat" where
  "sort_Search n f = search_loop f 0 n"

fun prefix_loop :: "cache \<Rightarrow> string \<Rightarrow> nat list \<Rightarrow> entry list \<Rightarrow> entry list" where
  "prefix_loop c pfx [] out = out"
| "prefix_loop c pfx (k # ks) out =
     (let r = cRecs c ! k; cmd = pool_get (cPool c) (kCmd r)
      in if \<not> HasPrefix cmd pfx then out
         else if cmd = pfx then prefix_loop c pfx ks out
         else (let out' = out @ [entryFromLocked c r]
               in if length out' \<ge> 64 then out' else prefix_loop c pfx ks out'))"

definition prefixEntriesLocked :: "cache \<Rightarrow> string \<Rightarrow> entry list" where
  "prefixEntriesLocked c pfx =
     (if length (cSorted c) = 0 then []
      else (let i = sort_Search (length (cSorted c))
                      (\<lambda>i. pool_get (cPool c) (kCmd (cRecs c ! (cSorted c ! i))) \<ge> pfx)
            in prefix_loop c pfx (drop i (cSorted c)) []))"

definition Suggest :: "cache \<Rightarrow> string \<Rightarrow> entry list" where
  "Suggest c pfx = (if pfx = [] \<or> cDirty c then [] else prefixEntriesLocked c pfx)"

definition AllUnique :: "cache \<Rightarrow> entry list" where
  "AllUnique c = (if cDirty c then [] else map (entryFromLocked c) (cRecs c))"

end
