(* ===== verification/Cache_Refine.thy ===== *)
theory Cache_Refine
  imports Cache
begin

text \<open>
  The cache implements a map from commands to summaries. The abstract cache has one map from entry ids
  to commands, one from commands to their summary, and the dirty flag; the invariant ties the slice, the
  index and the pool of the concrete one together.
\<close>

section \<open>The pool is an interner\<close>

definition pool_ok :: "stringPool \<Rightarrow> bool" where
  "pool_ok p \<longleftrightarrow> distinct (pStrs p) \<and> length (pStrs p) \<le> 2 ^ 31 \<and>
     (\<forall>s i. map_of (pIds p) s = Some i \<longleftrightarrow> 0 \<le> i \<and> i < int (length (pStrs p)) \<and> pStrs p ! nat i = s)"

definition pool_known :: "stringPool \<Rightarrow> int \<Rightarrow> bool" where
  "pool_known p i \<longleftrightarrow> 0 \<le> i \<and> i < int (length (pStrs p))"

definition pool_room :: "stringPool \<Rightarrow> bool" where
  "pool_room p \<longleftrightarrow> length (pStrs p) < 2 ^ 31"

lemma pool_ok_new [simp]: "pool_ok newStringPool"
  by (simp add: pool_ok_def newStringPool_def)

lemma pool_ids_None: "pool_ok p \<Longrightarrow> map_of (pIds p) s = None \<longleftrightarrow> s \<notin> set (pStrs p)"
proof -
  assume ok: "pool_ok p"
  have "s \<in> set (pStrs p) \<longleftrightarrow> (\<exists>i. 0 \<le> i \<and> i < int (length (pStrs p)) \<and> pStrs p ! nat i = s)"
  proof
    assume "s \<in> set (pStrs p)"
    then obtain k where "k < length (pStrs p)" "pStrs p ! k = s" by (auto simp: in_set_conv_nth)
    then show "\<exists>i. 0 \<le> i \<and> i < int (length (pStrs p)) \<and> pStrs p ! nat i = s" by (intro exI[of _ "int k"]) simp
  qed (auto intro!: nth_mem)
  also have "\<dots> \<longleftrightarrow> (\<exists>i. map_of (pIds p) s = Some i)" using ok unfolding pool_ok_def by blast
  finally show ?thesis by (cases "map_of (pIds p) s") auto
qed

lemma pool_intern_cases:
  assumes "pool_ok p" "pool_room p"
  obtains (old) i where "s \<in> set (pStrs p)" "pool_intern p s = (p, i)" "pool_known p i" "pStrs p ! nat i = s"
  | (new) p' where "s \<notin> set (pStrs p)" "pool_intern p s = (p', int (length (pStrs p)))"
      "pStrs p' = pStrs p @ [s]" "pool_ok p'"
proof (cases "map_of (pIds p) s")
  case (Some i)
  with assms(1) have i: "0 \<le> i" "i < int (length (pStrs p))" "pStrs p ! nat i = s" by (auto simp: pool_ok_def)
  then have "s \<in> set (pStrs p)" by (metis nat_less_iff nth_mem)
  with Some i show thesis by (intro old) (simp_all add: pool_intern_def pool_known_def)
next
  case None
  then have s: "s \<notin> set (pStrs p)" using pool_ids_None[OF assms(1)] by simp
  have w: "wrap32 (int (length (pStrs p))) = int (length (pStrs p))"
    using assms(2) by (intro wrap32_id) (auto simp: pool_room_def)
  let ?p = "\<lparr>pStrs = pStrs p @ [s], pIds = map_put s (int (length (pStrs p))) (pIds p)\<rparr>"
  have "map_of (pIds ?p) t = Some i \<longleftrightarrow> 0 \<le> i \<and> i < int (length (pStrs ?p)) \<and> pStrs ?p ! nat i = t" for t i
  proof (cases "i = int (length (pStrs p))")
    case True
    moreover have "map_of (pIds p) t \<noteq> Some (int (length (pStrs p)))" for t
      using assms(1) by (auto simp: pool_ok_def)
    ultimately show ?thesis by (auto simp: map_of_put)
  next
    case False
    have "t \<noteq> s" if "0 \<le> i" "i < int (length (pStrs p))" "pStrs p ! nat i = t"
      using that s by (metis nat_less_iff nth_mem)
    moreover have "map_of (pIds p) t = Some i \<longleftrightarrow> 0 \<le> i \<and> i < int (length (pStrs p)) \<and> pStrs p ! nat i = t"
      using assms(1) by (auto simp: pool_ok_def)
    ultimately show ?thesis using False by (auto simp: map_of_put nth_append nat_less_iff)
  qed
  then have "pool_ok ?p" using assms s unfolding pool_ok_def pool_room_def by auto
  with None s w show thesis by (intro new[of ?p]) (simp_all add: pool_intern_def Let_def)
qed

lemma pool_get_known: "pool_known p i \<Longrightarrow> pool_get p i = pStrs p ! nat i"
  by (simp add: pool_known_def pool_get_def)

interpretation pool: interner pool_intern pool_get pool_known pool_ok pool_room
proof unfold_locales
  fix t s assume ok: "pool_ok t" "pool_room t"
  then show "pool_ok (fst (pool_intern t s))" "pool_known (fst (pool_intern t s)) (snd (pool_intern t s))"
    "pool_get (fst (pool_intern t s)) (snd (pool_intern t s)) = s"
    by (cases rule: pool_intern_cases[OF ok, of s]; simp add: pool_known_def pool_get_def nth_append)+
  fix i assume k: "pool_known t i"
  show "pool_known (fst (pool_intern t s)) i" "pool_get (fst (pool_intern t s)) i = pool_get t i"
    using k by (cases rule: pool_intern_cases[OF ok, of s]; auto simp: pool_known_def pool_get_def nth_append)+
next
  fix t i j assume "pool_ok t" "pool_known t i" "pool_known t j" "pool_get t i = pool_get t j"
  then show "i = j" by (auto simp: pool_ok_def pool_get_known pool_known_def nth_eq_iff_index_eq)
qed

lemma length_pool_intern:
  assumes "pool_ok p" "pool_room p"
  shows "length (pStrs (fst (pool_intern p s))) \<le> Suc (length (pStrs p))"
  by (cases rule: pool_intern_cases[OF assms, of s]) auto

text \<open>What holds of a pool that grew out of another one: ids keep their meaning.\<close>

definition pool_ext :: "stringPool \<Rightarrow> stringPool \<Rightarrow> bool" where
  "pool_ext p q \<longleftrightarrow> pool_ok q \<and> (\<forall>i. pool_known p i \<longrightarrow> pool_known q i \<and> pool_get q i = pool_get p i)"

lemma pool_ext_refl: "pool_ok p \<Longrightarrow> pool_ext p p"
  by (simp add: pool_ext_def)

lemma pool_ext_trans: "pool_ext p q \<Longrightarrow> pool_ext q r \<Longrightarrow> pool_ext p r"
  by (simp add: pool_ext_def)

lemma pool_ext_intern: "pool_ok p \<Longrightarrow> pool_room p \<Longrightarrow> pool_ext p (fst (pool_intern p s))"
  by (simp add: pool_ext_def pool.inv_intern pool.known_stable pool.lookup_stable)

lemma intern_place_spec:
  assumes "pool_ok p" "length (pStrs p) + 3 \<le> 2 ^ 31"
  obtains p' w d s where "intern_place p e = (p', w, d, s)" "pool_ext p p'" "length (pStrs p') \<le> length (pStrs p) + 3"
    "pool_known p' w" "pool_get p' w = eCwd e" "pool_known p' d" "pool_get p' d = eDeviceID e"
    "pool_known p' s" "pool_get p' s = eSessionID e"
proof -
  obtain p1 w where 1: "pool_intern p (eCwd e) = (p1, w)" by fastforce
  obtain p2 d where 2: "pool_intern p1 (eDeviceID e) = (p2, d)" by fastforce
  obtain p3 s where 3: "pool_intern p2 (eSessionID e) = (p3, s)" by fastforce
  have r0: "pool_room p" using assms(2) by (simp add: pool_room_def)
  note a = pool.inv_intern[OF assms(1) r0, of "eCwd e"] pool.known_intern[OF assms(1) r0, of "eCwd e"]
    pool.lookup_intern[OF assms(1) r0, of "eCwd e"] pool_ext_intern[OF assms(1) r0, of "eCwd e"]
    length_pool_intern[OF assms(1) r0, of "eCwd e"]
  have r1: "pool_room p1" using a(5) 1 assms(2) by (simp add: pool_room_def)
  have o1: "pool_ok p1" using a(1) 1 by simp
  note b = pool.inv_intern[OF o1 r1, of "eDeviceID e"] pool.known_intern[OF o1 r1, of "eDeviceID e"]
    pool.lookup_intern[OF o1 r1, of "eDeviceID e"] pool_ext_intern[OF o1 r1, of "eDeviceID e"]
    length_pool_intern[OF o1 r1, of "eDeviceID e"]
  have r2: "pool_room p2" using a(5) b(5) 1 2 assms(2) by (simp add: pool_room_def)
  have o2: "pool_ok p2" using b(1) 2 by simp
  note c = pool.known_intern[OF o2 r2, of "eSessionID e"]
    pool.lookup_intern[OF o2 r2, of "eSessionID e"] pool_ext_intern[OF o2 r2, of "eSessionID e"]
    length_pool_intern[OF o2 r2, of "eSessionID e"]
  show thesis
  proof (rule that[of p3 w d s])
    show "intern_place p e = (p3, w, d, s)" by (simp add: intern_place_def 1 2 3)
    show "pool_ext p p3" using a(4) b(4) c(3) 1 2 3 by (auto intro: pool_ext_trans)
    show "length (pStrs p3) \<le> length (pStrs p) + 3" using a(5) b(5) c(4) 1 2 3 by simp
  qed (use a b c 1 2 3 in \<open>auto simp: pool_ext_def\<close>)
qed

section \<open>Slices with an index\<close>

definition swap_remove :: "nat \<Rightarrow> 'a list \<Rightarrow> 'a list" where
  "swap_remove i xs = take (length xs - 1) (if i \<noteq> length xs - 1 then xs[i := xs ! (length xs - 1)] else xs)"

definition index_ok :: "int list \<Rightarrow> (int \<times> nat) list \<Rightarrow> bool" where
  "index_ok ks m \<longleftrightarrow> (\<forall>k i. map_of m k = Some i \<longleftrightarrow> i < length ks \<and> ks ! i = k)"

lemma list_all_update: "list_all P xs \<Longrightarrow> P y \<Longrightarrow> list_all P (xs[i := y])"
  using set_update_subset_insert[of xs i y] by (auto simp: list_all_iff)

lemma index_ok_distinct: "index_ok ks m \<Longrightarrow> distinct ks"
  unfolding index_ok_def distinct_conv_nth by (metis option.inject)

lemma index_ok_None: "index_ok ks m \<Longrightarrow> map_of m k = None \<longleftrightarrow> k \<notin> set ks"
  unfolding index_ok_def by (metis in_set_conv_nth not_None_eq)

lemma index_ok_append: "index_ok ks m \<Longrightarrow> k \<notin> set ks \<Longrightarrow> index_ok (ks @ [k]) (map_put k (length ks) m)"
  unfolding index_ok_def by (auto simp: map_of_put nth_append less_Suc_eq)

lemma swap_remove_last: "i = length xs - 1 \<Longrightarrow> swap_remove i xs = butlast xs"
  by (simp add: swap_remove_def butlast_conv_take)

lemma length_swap_remove [simp]: "length (swap_remove i xs) = length xs - 1"
  by (simp add: swap_remove_def)

lemma nth_swap_remove:
  "j < length xs - 1 \<Longrightarrow> swap_remove i xs ! j = (if j = i then xs ! (length xs - 1) else xs ! j)"
  by (auto simp: swap_remove_def)

lemma map_swap_remove: "i < length xs \<Longrightarrow> map f (swap_remove i xs) = swap_remove i (map f xs)"
  by (rule nth_equalityI) (auto simp: nth_swap_remove)

lemma set_swap_remove:
  assumes "distinct xs" "i < length xs"
  shows "set (swap_remove i xs) = set xs - {xs ! i}"
proof (rule set_eqI, rule iffI)
  fix x assume "x \<in> set (swap_remove i xs)"
  then obtain j where "j < length xs - 1" "x = swap_remove i xs ! j" by (auto simp: in_set_conv_nth)
  with assms show "x \<in> set xs - {xs ! i}"
    by (auto simp: nth_swap_remove nth_eq_iff_index_eq split: if_splits)
next
  fix x assume "x \<in> set xs - {xs ! i}"
  then obtain j where j: "j < length xs" "x = xs ! j" "j \<noteq> i" by (auto simp: in_set_conv_nth)
  show "x \<in> set (swap_remove i xs)"
  proof (cases "j = length xs - 1")
    case True
    with j assms(2) have "i < length xs - 1" "swap_remove i xs ! i = x" by (auto simp: nth_swap_remove)
    then show ?thesis by (metis length_swap_remove nth_mem)
  next
    case False
    with j have "j < length xs - 1" "swap_remove i xs ! j = x" by (auto simp: nth_swap_remove)
    then show ?thesis by (metis length_swap_remove nth_mem)
  qed
qed

lemma distinct_swap_remove: "distinct xs \<Longrightarrow> distinct (swap_remove i xs)"
  unfolding distinct_conv_nth by (auto simp: nth_swap_remove)

lemma index_ok_swap_remove:
  assumes "index_ok ks m" "i < length ks"
  shows "index_ok (swap_remove i ks)
    (map_del (ks ! i) (if i \<noteq> length ks - 1 then map_put (ks ! (length ks - 1)) i m else m))"
proof -
  have m: "\<And>k j. map_of m k = Some j \<longleftrightarrow> j < length ks \<and> ks ! j = k" using assms(1) by (simp add: index_ok_def)
  have d: "\<And>a b. a < length ks \<Longrightarrow> b < length ks \<Longrightarrow> ks ! a = ks ! b \<longleftrightarrow> a = b"
    using index_ok_distinct[OF assms(1)] by (simp add: nth_eq_iff_index_eq)
  let ?l = "length ks - 1"
  have l: "?l < length ks" using assms(2) by simp
  have "map_of (map_del (ks ! i) (if i \<noteq> ?l then map_put (ks ! ?l) i m else m)) k = Some j
      \<longleftrightarrow> j < ?l \<and> swap_remove i ks ! j = k" for k j
  proof (cases "j < ?l")
    case True
    then have "j < length ks" by simp
    note d[OF assms(2) l] d[OF this assms(2)] d[OF this l]
    with True show ?thesis using assms(2)
      by (auto simp: map_of_del map_of_put nth_swap_remove m)
  next
    case False
    then have "j < length ks \<longleftrightarrow> j = ?l" using l by auto
    with False show ?thesis using d[OF assms(2) l] assms(2)
      by (auto simp: map_of_del map_of_put m)
  qed
  then show ?thesis by (simp add: index_ok_def)
qed

lemma map_of_list_update:
  assumes "distinct (map fst xs)" "i < length xs" "fst (xs ! i) = k"
  shows "map_of (xs[i := (k, v)]) = (map_of xs)(k \<mapsto> v)"
proof -
  have dk: "map fst (xs[i := (k, v)]) = map fst xs" using assms by (simp add: map_update list_update_same_conv)
  have d: "distinct xs" using assms(1) by (simp add: distinct_map)
  have "set (xs[i := (k, v)]) = insert (k, v) (set xs - {xs ! i})" using d assms(2) by (rule set_update_distinct)
  moreover have "distinct (map fst (xs[i := (k, v)]))" using assms(1) dk by simp
  ultimately have "map_of (xs[i := (k, v)]) x = Some w \<longleftrightarrow> ((map_of xs)(k \<mapsto> v)) x = Some w" for x w
    using assms by (auto simp: map_of_eq_Some_iff dest: arg_cong[where f = fst] eq_key_imp_eq_value)
  then show ?thesis by (intro ext) (metis option.exhaust)
qed

lemma map_of_swap_remove:
  assumes "distinct (map fst xs)" "i < length xs"
  shows "map_of (swap_remove i xs) = (map_of xs)(fst (xs ! i) := None)"
proof
  fix k
  have d: "distinct xs" using assms(1) by (simp add: distinct_map)
  have dk: "distinct (map fst (swap_remove i xs))"
    using distinct_swap_remove[OF assms(1)] assms(2) by (simp add: map_swap_remove)
  have st: "set (swap_remove i xs) = set xs - {xs ! i}" using d assms(2) by (rule set_swap_remove)
  show "map_of (swap_remove i xs) k = ((map_of xs)(fst (xs ! i) := None)) k"
  proof (cases "k = fst (xs ! i)")
    case True
    have "fst (xs ! i) \<notin> set (map fst (swap_remove i xs))"
      using set_swap_remove[OF assms(1), of i] assms(2) by (simp add: map_swap_remove)
    then show ?thesis using True by (simp add: map_of_eq_None_iff)
  next
    case False
    have "map_of (swap_remove i xs) k = Some v \<longleftrightarrow> map_of xs k = Some v" for v
      using False by (auto simp: map_of_eq_Some_iff[OF assms(1)] map_of_eq_Some_iff[OF dk] st
          dest: arg_cong[where f = fst])
    then show ?thesis using False by (metis fun_upd_other option.exhaust)
  qed
qed

section \<open>Invariant and abstraction\<close>

record cmd_info =
  iCwd :: string
  iDevice :: string
  iSession :: string
  iLastStart :: int
  iLastDurationMs :: int
  iLastExit :: int
  iFreq :: int

record acache =
  aIds :: "string \<Rightarrow> string option"
  aInfo :: "string \<Rightarrow> cmd_info option"
  aDirty :: bool

definition rec_info :: "stringPool \<Rightarrow> cacheRec \<Rightarrow> cmd_info" where
  "rec_info p r = \<lparr>iCwd = pool_get p (kCwd r), iDevice = pool_get p (kDevice r), iSession = pool_get p (kSession r),
     iLastStart = kLastStart r, iLastDurationMs = kLastDurationMs r, iLastExit = kLastExit r, iFreq = kFreq r\<rparr>"

definition view_rec :: "stringPool \<Rightarrow> cacheRec \<Rightarrow> string \<times> cmd_info" where
  "view_rec p r = (pool_get p (kCmd r), rec_info p r)"

definition abs_cache :: "cache \<Rightarrow> acache" where
  "abs_cache c = \<lparr>aIds = (\<lambda>i. map_option (pool_get (cPool c)) (map_of (cIdToCmd c) i)),
     aInfo = map_of (map (view_rec (cPool c)) (cRecs c)), aDirty = cDirty c\<rparr>"

definition rec_known :: "stringPool \<Rightarrow> cacheRec \<Rightarrow> bool" where
  "rec_known p r \<longleftrightarrow> pool_known p (kCmd r) \<and> pool_known p (kCwd r) \<and> pool_known p (kDevice r) \<and> pool_known p (kSession r)"

definition id_count :: "(string \<times> int) list \<Rightarrow> int \<Rightarrow> nat" where
  "id_count ids k = length (filter (\<lambda>(i, c). c = k) ids)"

text \<open>A record's frequency is at least the number of ids of its command, so a command leaves the slice only
  after its last id has left the id table.\<close>

definition cache_ok :: "cache \<Rightarrow> bool" where
  "cache_ok c \<longleftrightarrow> pool_ok (cPool c) \<and> list_all (rec_known (cPool c)) (cRecs c) \<and>
     index_ok (map kCmd (cRecs c)) (cByCmd c) \<and> map_ok (cIdToCmd c) \<and>
     snd ` set (cIdToCmd c) \<subseteq> kCmd ` set (cRecs c) \<and>
     list_all (\<lambda>r. 1 \<le> kFreq r \<and> int (id_count (cIdToCmd c) (kCmd r)) \<le> kFreq r) (cRecs c)"

text \<open>What \<open>n\<close> created entries can have brought into the cache.\<close>

definition cache_bound :: "nat \<Rightarrow> cache \<Rightarrow> bool" where
  "cache_bound n c \<longleftrightarrow> length (pStrs (cPool c)) \<le> 4 * n \<and> list_all (\<lambda>r. kFreq r \<le> int n) (cRecs c)"

lemma cache_ok_New [simp]: "cache_ok NewCache" and cache_bound_New [simp]: "cache_bound n NewCache"
  by (simp_all add: cache_ok_def NewCache_def index_ok_def cache_bound_def newStringPool_def)
    (simp add: pool_ok_def)

lemma cache_okD:
  assumes "cache_ok c"
  shows "pool_ok (cPool c)" "index_ok (map kCmd (cRecs c)) (cByCmd c)" "map_ok (cIdToCmd c)"
    "\<And>r. r \<in> set (cRecs c) \<Longrightarrow> rec_known (cPool c) r" "\<And>i k. map_of (cIdToCmd c) i = Some k \<Longrightarrow> k \<in> kCmd ` set (cRecs c)"
    "\<And>r. r \<in> set (cRecs c) \<Longrightarrow> 1 \<le> kFreq r" "\<And>r. r \<in> set (cRecs c) \<Longrightarrow> int (id_count (cIdToCmd c) (kCmd r)) \<le> kFreq r"
  using assms by (auto simp: cache_ok_def list_all_iff dest!: map_of_SomeD)

lemma by_cmd_Some:
  assumes "cache_ok c" "map_of (cByCmd c) k = Some idx"
  shows "idx < length (cRecs c)" "kCmd (cRecs c ! idx) = k" "cRecs c ! idx \<in> set (cRecs c)"
  using cache_okD(2)[OF assms(1)] assms(2) unfolding index_ok_def by auto

lemma by_cmd_None: "cache_ok c \<Longrightarrow> map_of (cByCmd c) k = None \<longleftrightarrow> k \<notin> kCmd ` set (cRecs c)"
  using index_ok_None[OF cache_okD(2)] by simp

lemma view_keys_distinct:
  assumes "pool_ok p" "list_all (rec_known p) rs" "distinct (map kCmd rs)"
  shows "distinct (map fst (map (view_rec p) rs))"
proof -
  have "inj_on (pool_get p) (set (map kCmd rs))"
    using assms(2) pool.lookup_inj[OF assms(1)] by (auto simp: inj_on_def rec_known_def list_all_iff)
  moreover have "map fst (map (view_rec p) rs) = map (pool_get p) (map kCmd rs)"
    by (simp add: view_rec_def)
  ultimately show ?thesis using assms(3) by (simp only: distinct_map)
qed

lemma keys_distinct: "cache_ok c \<Longrightarrow> distinct (map fst (map (view_rec (cPool c)) (cRecs c)))"
  using index_ok_distinct unfolding cache_ok_def by (intro view_keys_distinct) auto

lemma aInfo_lookup:
  assumes "cache_ok c" "pool_known (cPool c) k"
  shows "aInfo (abs_cache c) (pool_get (cPool c) k) =
    map_option (\<lambda>i. rec_info (cPool c) (cRecs c ! i)) (map_of (cByCmd c) k)"
proof (cases "map_of (cByCmd c) k")
  case (Some idx)
  note i = by_cmd_Some[OF assms(1) Some]
  have "view_rec (cPool c) (cRecs c ! idx) \<in> set (map (view_rec (cPool c)) (cRecs c))" using i(3) by simp
  then have "map_of (map (view_rec (cPool c)) (cRecs c)) (pool_get (cPool c) k) = Some (rec_info (cPool c) (cRecs c ! idx))"
    using keys_distinct[OF assms(1)] i(2) by (intro map_of_is_SomeI) (simp_all add: view_rec_def)
  with Some show ?thesis by (simp add: abs_cache_def)
next
  case None
  have "pool_get (cPool c) k \<noteq> pool_get (cPool c) (kCmd r)" if "r \<in> set (cRecs c)" for r
    using that None by_cmd_None[OF assms(1)] cache_okD(4)[OF assms(1) that]
      pool.lookup_inj[OF cache_okD(1)[OF assms(1)] assms(2)] by (auto simp: rec_known_def)
  then have "pool_get (cPool c) k \<notin> fst ` set (map (view_rec (cPool c)) (cRecs c))" by (fastforce simp: view_rec_def)
  then have "map_of (map (view_rec (cPool c)) (cRecs c)) (pool_get (cPool c) k) = None"
    by (rule map_of_eq_None_iff[THEN iffD2])
  with None show ?thesis by (simp add: abs_cache_def)
qed

lemma aIds_lookup: "aIds (abs_cache c) i = map_option (pool_get (cPool c)) (map_of (cIdToCmd c) i)"
  by (simp add: abs_cache_def)

lemma ids_known:
  assumes "cache_ok c" "map_of (cIdToCmd c) i = Some k"
  shows "pool_known (cPool c) k" "\<exists>idx. map_of (cByCmd c) k = Some idx"
  using cache_okD(4,5)[OF assms(1)] assms by_cmd_None[OF assms(1), of k] by (auto simp: rec_known_def)

section \<open>The pool grows\<close>

lemma view_rec_ext: "pool_ext p q \<Longrightarrow> rec_known p r \<Longrightarrow> view_rec q r = view_rec p r"
  by (simp add: view_rec_def rec_info_def rec_known_def pool_ext_def)

lemma rec_known_ext: "pool_ext p q \<Longrightarrow> rec_known p r \<Longrightarrow> rec_known q r"
  by (simp add: rec_known_def pool_ext_def)

lemma set_pool:
  assumes "cache_ok c" "pool_ext (cPool c) q"
  shows "cache_ok (c\<lparr>cPool := q\<rparr>)" "abs_cache (c\<lparr>cPool := q\<rparr>) = abs_cache c"
proof -
  show "cache_ok (c\<lparr>cPool := q\<rparr>)"
    using assms(1) rec_known_ext[OF assms(2)] assms(2) by (auto simp: cache_ok_def list_all_iff pool_ext_def)
  have "map (view_rec q) (cRecs c) = map (view_rec (cPool c)) (cRecs c)"
    using cache_okD(4)[OF assms(1)] view_rec_ext[OF assms(2)] by simp
  moreover have "map_option (pool_get q) (map_of (cIdToCmd c) i) = map_option (pool_get (cPool c)) (map_of (cIdToCmd c) i)" for i
    using ids_known(1)[OF assms(1), of i] assms(2) by (cases "map_of (cIdToCmd c) i") (auto simp: pool_ext_def)
  ultimately show "abs_cache (c\<lparr>cPool := q\<rparr>) = abs_cache c" by (simp add: abs_cache_def cong: map_cong)
qed

section \<open>Abstract operations\<close>

definition fresh_info :: "entry \<Rightarrow> int \<Rightarrow> cmd_info" where
  "fresh_info e n = \<lparr>iCwd = eCwd e, iDevice = eDeviceID e, iSession = eSessionID e, iLastStart = UnixMilli (eStartTS e),
     iLastDurationMs = durationMsOf e, iLastExit = exit_of e, iFreq = n\<rparr>"

definition a_created :: "acache \<Rightarrow> entry \<Rightarrow> acache" where
  "a_created a e =
     (if eDeleted e \<or> eCommand e = [] then a
      else a\<lparr>aIds := (aIds a)(eID e \<mapsto> eCommand e),
             aInfo := (aInfo a)(eCommand e \<mapsto>
               (case aInfo a (eCommand e) of
                  None \<Rightarrow> fresh_info e 1
                | Some v \<Rightarrow> if UnixMilli (eStartTS e) \<ge> iLastStart v then fresh_info e (iFreq v + 1)
                            else v\<lparr>iFreq := iFreq v + 1\<rparr>))\<rparr>)"

definition a_completed :: "acache \<Rightarrow> string \<Rightarrow> int \<Rightarrow> int \<Rightarrow> acache" where
  "a_completed a i endMs exit =
     (case aIds a i of
        None \<Rightarrow> a
      | Some cmd \<Rightarrow> a\<lparr>aInfo := (aInfo a)(cmd := map_option (\<lambda>v. v\<lparr>iLastExit := wrap32 exit,
          iLastDurationMs := completeDurationMs (iLastStart v) endMs\<rparr>) (aInfo a cmd))\<rparr>)"

definition a_tombstone_id :: "acache \<Rightarrow> string \<Rightarrow> acache" where
  "a_tombstone_id a i =
     (case aIds a i of
        None \<Rightarrow> a\<lparr>aDirty := True\<rparr>
      | Some cmd \<Rightarrow> a\<lparr>aIds := (aIds a)(i := None),
          aInfo := (aInfo a)(cmd := (case aInfo a cmd of None \<Rightarrow> None
             | Some v \<Rightarrow> if iFreq v \<le> 1 then None else Some (v\<lparr>iFreq := iFreq v - 1\<rparr>)))\<rparr>)"

definition a_tombstone_command :: "acache \<Rightarrow> string \<Rightarrow> acache" where
  "a_tombstone_command a cmd =
     a\<lparr>aIds := (\<lambda>i. if aIds a i = Some cmd then None else aIds a i), aInfo := (aInfo a)(cmd := None)\<rparr>"

section \<open>Steps of the refinement\<close>

text \<open>Replacing a record by one of the same command.\<close>

lemma set_rec_cmds:
  assumes "cache_ok c" "map_of (cByCmd c) k = Some idx" "kCmd r = k"
  shows "map kCmd ((cRecs c)[idx := r]) = map kCmd (cRecs c)" "kCmd ` set ((cRecs c)[idx := r]) = kCmd ` set (cRecs c)"
proof -
  show "map kCmd ((cRecs c)[idx := r]) = map kCmd (cRecs c)"
    using by_cmd_Some[OF assms(1,2)] assms(3) by (simp add: map_update list_update_same_conv)
  then show "kCmd ` set ((cRecs c)[idx := r]) = kCmd ` set (cRecs c)" by (metis list.set_map)
qed

lemma set_rec_view:
  assumes "cache_ok c" "map_of (cByCmd c) k = Some idx" "kCmd r = k"
  shows "map_of (map (view_rec (cPool c)) ((cRecs c)[idx := r])) =
    (aInfo (abs_cache c))(pool_get (cPool c) k \<mapsto> rec_info (cPool c) r)"
proof -
  have "map_of ((map (view_rec (cPool c)) (cRecs c))[idx := (pool_get (cPool c) k, rec_info (cPool c) r)]) =
      (map_of (map (view_rec (cPool c)) (cRecs c)))(pool_get (cPool c) k \<mapsto> rec_info (cPool c) r)"
    using by_cmd_Some[OF assms(1,2)] by (intro map_of_list_update keys_distinct[OF assms(1)]) (simp_all add: view_rec_def)
  then show ?thesis using assms(3) by (simp add: abs_cache_def map_update view_rec_def)
qed

lemma set_rec:
  assumes ok: "cache_ok c" and idx: "map_of (cByCmd c) k = Some idx"
    and r: "kCmd r = k" "rec_known (cPool c) r" "1 \<le> kFreq r" "int (id_count (cIdToCmd c) k) \<le> kFreq r"
  shows "cache_ok (c\<lparr>cRecs := (cRecs c)[idx := r]\<rparr>)"
    "abs_cache (c\<lparr>cRecs := (cRecs c)[idx := r]\<rparr>) =
       (abs_cache c)\<lparr>aInfo := (aInfo (abs_cache c))(pool_get (cPool c) k \<mapsto> rec_info (cPool c) r)\<rparr>"
proof -
  note cmds = set_rec_cmds[OF ok idx r(1)]
  show "cache_ok (c\<lparr>cRecs := (cRecs c)[idx := r]\<rparr>)"
    using ok r cmds by (simp add: cache_ok_def list_all_update)
  show "abs_cache (c\<lparr>cRecs := (cRecs c)[idx := r]\<rparr>) =
       (abs_cache c)\<lparr>aInfo := (aInfo (abs_cache c))(pool_get (cPool c) k \<mapsto> rec_info (cPool c) r)\<rparr>"
    using set_rec_view[OF ok idx r(1)] by (simp add: abs_cache_def)
qed

lemma removeAt_eq:
  "removeAtLocked c idx = c\<lparr>cRecs := swap_remove idx (cRecs c),
     cByCmd := map_del (kCmd (cRecs c ! idx))
       (if idx \<noteq> length (cRecs c) - 1 then map_put (kCmd (cRecs c ! (length (cRecs c) - 1))) idx (cByCmd c) else cByCmd c)\<rparr>"
  by (simp add: removeAtLocked_def swap_remove_def Let_def)

lemma id_count_0: "id_count ids k = 0 \<longleftrightarrow> k \<notin> snd ` set ids"
  by (force simp: id_count_def filter_empty_conv)

text \<open>Removing the record of a command no id refers to. The frequency of that record is of no interest.\<close>

lemma remove_rec:
  assumes pool: "pool_ok (cPool c)" "list_all (rec_known (cPool c)) (cRecs c)"
    and ix: "index_ok (map kCmd (cRecs c)) (cByCmd c)" and ids: "map_ok (cIdToCmd c)"
      "snd ` set (cIdToCmd c) \<subseteq> kCmd ` set (cRecs c) - {k}"
    and freq: "list_all (\<lambda>r. kCmd r \<noteq> k \<longrightarrow> 1 \<le> kFreq r \<and> int (id_count (cIdToCmd c) (kCmd r)) \<le> kFreq r) (cRecs c)"
    and idx: "map_of (cByCmd c) k = Some idx"
  shows "cache_ok (removeAtLocked c idx)"
    "aInfo (abs_cache (removeAtLocked c idx)) = (map_of (map (view_rec (cPool c)) (cRecs c)))(pool_get (cPool c) k := None)"
proof -
  from ix idx have i: "idx < length (cRecs c)" "kCmd (cRecs c ! idx) = k" by (auto simp: index_ok_def)
  have dk: "distinct (map kCmd (cRecs c))" using ix by (rule index_ok_distinct)
  then have dr: "distinct (cRecs c)" by (simp add: distinct_map)
  have st: "set (swap_remove idx (cRecs c)) = set (cRecs c) - {cRecs c ! idx}" using dr i(1) by (rule set_swap_remove)
  have kst: "kCmd ` set (swap_remove idx (cRecs c)) = kCmd ` set (cRecs c) - {k}"
    using set_swap_remove[OF dk, of idx] i map_swap_remove[OF i(1), of kCmd] by (metis length_map list.set_map nth_map)
  have ne: "kCmd r \<noteq> k" if "r \<in> set (swap_remove idx (cRecs c))" for r using that kst by blast
  show "cache_ok (removeAtLocked c idx)"
    unfolding cache_ok_def removeAt_eq
    using pool ids freq ne kst index_ok_swap_remove[OF ix, of idx] i
    by (auto simp: map_swap_remove list_all_iff st)
  from view_keys_distinct[OF pool dk] have "distinct (map fst (map (view_rec (cPool c)) (cRecs c)))" .
  from map_of_swap_remove[OF this, of idx] i
  show "aInfo (abs_cache (removeAtLocked c idx)) = (map_of (map (view_rec (cPool c)) (cRecs c)))(pool_get (cPool c) k := None)"
    by (simp add: abs_cache_def removeAt_eq map_swap_remove view_rec_def)
qed

lemma id_count_put:
  assumes "map_ok ids"
  shows "int (id_count (map_put i k ids) l) \<le> int (id_count ids l) + (if l = k then 1 else 0)"
  using assms by (induction ids) (auto simp: id_count_def)

lemma id_count_put_other: "map_ok ids \<Longrightarrow> l \<noteq> k \<Longrightarrow> id_count (map_put i k ids) l \<le> id_count ids l"
  using id_count_put[of ids i k l] by simp

lemma id_count_del: "map_ok ids \<Longrightarrow> map_of ids i = Some k \<Longrightarrow> Suc (id_count (map_del i ids) k) = id_count ids k"
proof (induction ids)
  case (Cons x ids)
  have "map_del i ids = ids" if "i \<notin> fst ` set ids" using that by (rule AList.delete_id)
  with Cons show ?case by (cases x) (auto simp: id_count_def split: if_splits)
qed simp

lemma id_count_del_le: "id_count (map_del i ids) l \<le> id_count ids l"
  by (induction ids) (auto simp: id_count_def)

lemma snd_put: "snd ` set (map_put i k ids) \<subseteq> insert k (snd ` set ids)"
  by (induction ids) auto

lemma snd_del: "snd ` set (map_del i ids) \<subseteq> snd ` set ids"
  by (auto simp: AList.delete_eq)

lemma applyCompleted_refines:
  assumes "cache_ok c"
  shows "cache_ok (applyCompletedLocked c i endMs exit)"
    "abs_cache (applyCompletedLocked c i endMs exit) = a_completed (abs_cache c) i endMs exit"
    "cache_bound n c \<Longrightarrow> cache_bound n (applyCompletedLocked c i endMs exit)"
proof -
  have "cache_ok (applyCompletedLocked c i endMs exit) \<and>
    abs_cache (applyCompletedLocked c i endMs exit) = a_completed (abs_cache c) i endMs exit \<and>
    (cache_bound n c \<longrightarrow> cache_bound n (applyCompletedLocked c i endMs exit))"
  proof (cases "map_of (cIdToCmd c) i")
    case None
    with assms show ?thesis by (simp add: applyCompletedLocked_def a_completed_def aIds_lookup)
  next
    case (Some k)
    from ids_known[OF assms Some] obtain idx where k: "pool_known (cPool c) k" and idx: "map_of (cByCmd c) k = Some idx" by blast
    let ?r = "(cRecs c ! idx)\<lparr>kLastExit := wrap32 exit, kLastDurationMs := completeDurationMs (kLastStart (cRecs c ! idx)) endMs\<rparr>"
    note i = by_cmd_Some[OF assms idx]
    have r: "kCmd ?r = k" "rec_known (cPool c) ?r" "1 \<le> kFreq ?r" "int (id_count (cIdToCmd c) k) \<le> kFreq ?r"
      using cache_okD(4,6,7)[OF assms i(3)] i(2) by (simp_all add: rec_known_def)
    have ap: "applyCompletedLocked c i endMs exit = c\<lparr>cRecs := (cRecs c)[idx := ?r]\<rparr>"
      by (simp add: applyCompletedLocked_def Some idx)
    have "cache_bound n c \<longrightarrow> cache_bound n (c\<lparr>cRecs := (cRecs c)[idx := ?r]\<rparr>)"
      using i(3) set_update_subset_insert[of "cRecs c" idx ?r] by (auto simp: cache_bound_def list_all_iff)
    moreover have "abs_cache (c\<lparr>cRecs := (cRecs c)[idx := ?r]\<rparr>) = a_completed (abs_cache c) i endMs exit"
      using set_rec(2)[OF assms idx r] aInfo_lookup[OF assms k] Some idx
      by (simp add: a_completed_def aIds_lookup rec_info_def)
    ultimately show ?thesis using set_rec(1)[OF assms idx r] ap by simp
  qed
  then show "cache_ok (applyCompletedLocked c i endMs exit)"
    "abs_cache (applyCompletedLocked c i endMs exit) = a_completed (abs_cache c) i endMs exit"
    "cache_bound n c \<Longrightarrow> cache_bound n (applyCompletedLocked c i endMs exit)" by auto
qed

lemma bound_remove: "cache_bound n c \<Longrightarrow> idx < length (cRecs c) \<Longrightarrow> cache_bound n (removeAtLocked c idx)"
  unfolding cache_bound_def removeAt_eq list_all_length by (auto simp: nth_swap_remove)

lemma tombstone_id_refines:
  assumes "cache_ok c" "cache_bound n c" "n < 2 ^ 31"
  shows "cache_ok (tombstone_id c i) \<and> abs_cache (tombstone_id c i) = a_tombstone_id (abs_cache c) i \<and>
    cache_bound n (tombstone_id c i)"
proof (cases "map_of (cIdToCmd c) i")
  case None
  with assms show ?thesis
    by (simp add: tombstone_id_def a_tombstone_id_def aIds_lookup cache_ok_def abs_cache_def cache_bound_def)
next
  case (Some k)
  from ids_known[OF assms(1) Some] obtain idx where k: "pool_known (cPool c) k" and idx: "map_of (cByCmd c) k = Some idx" by blast
  note ix = by_cmd_Some[OF assms(1) idx] and ok = cache_okD[OF assms(1)]
  let ?ids = "map_del i (cIdToCmd c)" and ?f = "kFreq (cRecs c ! idx)"
  let ?c1 = "c\<lparr>cIdToCmd := ?ids\<rparr>" and ?r = "(cRecs c ! idx)\<lparr>kFreq := ?f - 1\<rparr>"
  let ?c2 = "c\<lparr>cIdToCmd := ?ids, cRecs := (cRecs c)[idx := ?r]\<rparr>"
  have f: "1 \<le> ?f" "?f \<le> int n" using ok(6)[OF ix(3)] assms(2) ix(3) by (auto simp: cache_bound_def list_all_iff)
  have w: "wrap32 (?f - 1) = ?f - 1" using f assms(3) by (intro wrap32_id) auto
  have t: "tombstone_id c i = (if ?f - 1 \<le> 0 then removeAtLocked ?c2 idx else ?c2)"
    by (simp add: tombstone_id_def Some idx Let_def w)
  have ids: "map_ok ?ids" "snd ` set ?ids \<subseteq> kCmd ` set (cRecs c)"
    using ok(3) snd_del[of i "cIdToCmd c"] assms(1) by (auto simp: cache_ok_def)
  have cnt: "Suc (id_count ?ids k) = id_count (cIdToCmd c) k" using ok(3) Some by (rule id_count_del)
  have ck: "int (id_count ?ids k) \<le> ?f - 1" using ok(7)[OF ix(3)] ix(2) cnt by simp
  have cl: "int (id_count ?ids (kCmd r)) \<le> kFreq r" if "r \<in> set (cRecs c)" for r
    using ok(7)[OF that] id_count_del_le[of i "cIdToCmd c" "kCmd r"] by linarith
  have c1: "cache_ok ?c1" using assms(1) ids cl by (auto simp: cache_ok_def list_all_iff)
  have aid: "aIds (abs_cache ?c1) = (aIds (abs_cache c))(i := None)" "aInfo (abs_cache ?c1) = aInfo (abs_cache c)"
    "aDirty (abs_cache ?c1) = aDirty (abs_cache c)"
    by (auto simp: abs_cache_def map_of_del)
  have lk: "aInfo (abs_cache c) (pool_get (cPool c) k) = Some (rec_info (cPool c) (cRecs c ! idx))"
    using aInfo_lookup[OF assms(1) k] idx by simp
  have b2: "cache_bound n ?c2"
    using f assms(2) set_update_subset_insert[of "cRecs c" idx ?r] by (auto simp: cache_bound_def list_all_iff)
  have cmds: "map kCmd ((cRecs c)[idx := ?r]) = map kCmd (cRecs c)" "kCmd ` set ((cRecs c)[idx := ?r]) = kCmd ` set (cRecs c)"
    using set_rec_cmds[OF assms(1) idx, of ?r] ix(2) by simp_all
  show ?thesis
  proof (cases "?f - 1 \<le> 0")
    case False
    have r: "kCmd ?r = k" "rec_known (cPool ?c1) ?r" "1 \<le> kFreq ?r" "int (id_count (cIdToCmd ?c1) k) \<le> kFreq ?r"
      using ok(4)[OF ix(3)] ix(2) False ck by (simp_all add: rec_known_def)
    have "abs_cache ?c2 = a_tombstone_id (abs_cache c) i"
      using set_rec(2)[OF c1 _ r, of idx] aid lk idx Some False
      by (simp add: a_tombstone_id_def aIds_lookup rec_info_def)
    then show ?thesis using set_rec(1)[OF c1 _ r, of idx] idx t False b2 by simp
  next
    case True
    with ck have "k \<notin> snd ` set ?ids" using id_count_0[of ?ids k] by simp
    with ids(2) cmds have sub: "snd ` set (cIdToCmd ?c2) \<subseteq> kCmd ` set (cRecs ?c2) - {k}" by auto
    have kn: "list_all (rec_known (cPool ?c2)) (cRecs ?c2)"
      using ok(4)[OF ix(3)] assms(1) by (simp add: cache_ok_def list_all_update rec_known_def)
    have fr: "list_all (\<lambda>r. kCmd r \<noteq> k \<longrightarrow> 1 \<le> kFreq r \<and> int (id_count (cIdToCmd ?c2) (kCmd r)) \<le> kFreq r) (cRecs ?c2)"
    proof -
      have "list_all (\<lambda>r. kCmd r \<noteq> k \<longrightarrow> 1 \<le> kFreq r \<and> int (id_count ?ids (kCmd r)) \<le> kFreq r) (cRecs c)"
        using ok(6) cl by (simp add: list_all_iff)
      from list_all_update[OF this, of ?r idx] ix(2) show ?thesis by simp
    qed
    have pix: "pool_ok (cPool ?c2)" "index_ok (map kCmd (cRecs ?c2)) (cByCmd ?c2)" "map_ok (cIdToCmd ?c2)"
      "map_of (cByCmd ?c2) k = Some idx" using ok(1,2) ids(1) cmds idx by simp_all
    note rm = remove_rec[OF pix(1) kn pix(2,3) sub fr pix(4)]
    have "aInfo (abs_cache (removeAtLocked ?c2 idx)) = (aInfo (abs_cache c))(pool_get (cPool c) k := None)"
      using rm(2) set_rec_view[OF assms(1) idx, of ?r] ix(2) by simp
    moreover have "aIds (abs_cache (removeAtLocked ?c2 idx)) = (aIds (abs_cache c))(i := None)"
      "aDirty (abs_cache (removeAtLocked ?c2 idx)) = aDirty (abs_cache c)"
      using aid by (simp_all add: abs_cache_def removeAt_eq)
    ultimately have "abs_cache (removeAtLocked ?c2 idx) = a_tombstone_id (abs_cache c) i"
      using lk Some True by (simp add: a_tombstone_id_def aIds_lookup rec_info_def)
    then show ?thesis using rm(1) bound_remove[OF b2, of idx] ix(1) t True by simp
  qed
qed

lemma aIds_command:
  assumes "cache_ok c" "pool_known (cPool c) k"
  shows "aIds (abs_cache c) i = Some (pool_get (cPool c) k) \<longleftrightarrow> map_of (cIdToCmd c) i = Some k"
  using ids_known(1)[OF assms(1), of i] assms(2) pool.lookup_inj[OF cache_okD(1)[OF assms(1)]]
  by (cases "map_of (cIdToCmd c) i") (auto simp: aIds_lookup)

lemma unknown_command:
  assumes "cache_ok c" "cmd \<notin> (\<lambda>r. pool_get (cPool c) (kCmd r)) ` set (cRecs c)"
  shows "a_tombstone_command (abs_cache c) cmd = abs_cache c"
proof -
  have "aInfo (abs_cache c) cmd = None"
    unfolding abs_cache_def using assms(2)
    by (simp, intro map_of_eq_None_iff[THEN iffD2]) (auto simp: view_rec_def)
  moreover have "aIds (abs_cache c) i \<noteq> Some cmd" for i
    using cache_okD(5)[OF assms(1), of i] assms(2) by (auto simp: aIds_lookup)
  ultimately show ?thesis by (intro acache.equality) (auto simp: a_tombstone_command_def)
qed

lemma map_of_filter_snd: "map_ok m \<Longrightarrow> map_of (filter (\<lambda>(i, v). P v) m) i =
    (case map_of m i of None \<Rightarrow> None | Some v \<Rightarrow> if P v then Some v else None)"
  by (induction m) (auto split: option.splits simp: map_of_eq_None_iff[THEN iffD2] image_iff)

lemma id_count_filter: "id_count (filter (\<lambda>(i, c). c \<noteq> k) ids) l \<le> id_count ids l"
  by (induction ids) (auto simp: id_count_def)

lemma tombstone_command_refines:
  assumes "cache_ok c" "cache_bound n c"
  shows "cache_ok (ApplyTombstoneCommandUnlocked c cmd) \<and>
    abs_cache (ApplyTombstoneCommandUnlocked c cmd) = a_tombstone_command (abs_cache c) cmd \<and>
    cache_bound n (ApplyTombstoneCommandUnlocked c cmd)"
proof (cases "\<exists>k idx. map_of (pIds (cPool c)) cmd = Some k \<and> map_of (cByCmd c) k = Some idx")
  case False
  then have u: "ApplyTombstoneCommandUnlocked c cmd = c"
    by (auto simp: ApplyTombstoneCommandUnlocked_def split: option.splits)
  have "cmd \<noteq> pool_get (cPool c) (kCmd r)" if "r \<in> set (cRecs c)" for r
  proof
    assume e: "cmd = pool_get (cPool c) (kCmd r)"
    have "pool_known (cPool c) (kCmd r)" using cache_okD(4)[OF assms(1) that] by (simp add: rec_known_def)
    then have "map_of (pIds (cPool c)) cmd = Some (kCmd r)"
      using cache_okD(1)[OF assms(1)] e pool_get_known by (simp add: pool_ok_def pool_known_def pool_get_def)
    moreover have "map_of (cByCmd c) (kCmd r) \<noteq> None" using that by_cmd_None[OF assms(1)] by blast
    ultimately show False using False by blast
  qed
  then have "cmd \<notin> (\<lambda>r. pool_get (cPool c) (kCmd r)) ` set (cRecs c)" by blast
  with unknown_command[OF assms(1) this] u assms show ?thesis by simp
next
  case True
  then obtain k idx where k: "map_of (pIds (cPool c)) cmd = Some k" and idx: "map_of (cByCmd c) k = Some idx" by blast
  note ix = by_cmd_Some[OF assms(1) idx] and ok = cache_okD[OF assms(1)]
  let ?ids = "filter (\<lambda>(i, cid). cid \<noteq> k) (cIdToCmd c)"
  let ?c1 = "c\<lparr>cIdToCmd := ?ids\<rparr>"
  have u: "ApplyTombstoneCommandUnlocked c cmd = removeAtLocked ?c1 idx"
    by (simp add: ApplyTombstoneCommandUnlocked_def k idx)
  have kn: "pool_known (cPool c) k" "pool_get (cPool c) k = cmd"
    using k ok(1) by (auto simp: pool_ok_def pool_known_def pool_get_def)
  have pre: "pool_ok (cPool ?c1)" "list_all (rec_known (cPool ?c1)) (cRecs ?c1)"
    "index_ok (map kCmd (cRecs ?c1)) (cByCmd ?c1)" "map_ok (cIdToCmd ?c1)"
    "snd ` set (cIdToCmd ?c1) \<subseteq> kCmd ` set (cRecs ?c1) - {k}" "map_of (cByCmd ?c1) k = Some idx"
    using assms(1) idx by (auto simp: cache_ok_def distinct_map_filter)
  have fr: "list_all (\<lambda>r. kCmd r \<noteq> k \<longrightarrow> 1 \<le> kFreq r \<and> int (id_count (cIdToCmd ?c1) (kCmd r)) \<le> kFreq r) (cRecs ?c1)"
    using ok(6,7) by (auto simp: list_all_iff intro: order_trans[OF of_nat_mono[OF id_count_filter]])
  note rm = remove_rec[OF pre(1-5) fr pre(6)]
  have "aIds (abs_cache (removeAtLocked ?c1 idx)) i = (if aIds (abs_cache c) i = Some cmd then None else aIds (abs_cache c) i)" for i
    using aIds_command[OF assms(1) kn(1), of i] kn(2) map_of_filter_snd[OF ok(3), of "\<lambda>v. v \<noteq> k" i]
    by (auto simp: abs_cache_def removeAt_eq split: option.splits)
  then have ids: "aIds (abs_cache (removeAtLocked ?c1 idx)) = aIds (a_tombstone_command (abs_cache c) cmd)"
    by (simp add: a_tombstone_command_def fun_eq_iff)
  have info: "aInfo (abs_cache (removeAtLocked ?c1 idx)) = aInfo (a_tombstone_command (abs_cache c) cmd)"
    using rm(2) kn(2) by (simp add: a_tombstone_command_def) (simp add: abs_cache_def)
  have "abs_cache (removeAtLocked ?c1 idx) = a_tombstone_command (abs_cache c) cmd"
    by (intro acache.equality ids info) (simp_all add: a_tombstone_command_def abs_cache_def removeAt_eq)
  then show ?thesis using rm(1) u bound_remove[of n ?c1 idx] ix(1) assms(2) by (simp add: cache_bound_def)
qed

section \<open>Created entries\<close>

lemma put_id:
  assumes "cache_ok c" "k \<in> kCmd ` set (cRecs c)" and freq: "\<And>r. r \<in> set (cRecs c) \<Longrightarrow> kCmd r = k \<Longrightarrow>
      int (id_count (map_put i k (cIdToCmd c)) k) \<le> kFreq r"
  shows "cache_ok (c\<lparr>cIdToCmd := map_put i k (cIdToCmd c)\<rparr>)"
proof -
  have "int (id_count (map_put i k (cIdToCmd c)) (kCmd r)) \<le> kFreq r" if "r \<in> set (cRecs c)" for r
    using that freq cache_okD(3,7)[OF assms(1)] id_count_put_other[of "cIdToCmd c" "kCmd r" k i]
    by (cases "kCmd r = k") fastforce+
  moreover have "snd ` set (map_put i k (cIdToCmd c)) \<subseteq> kCmd ` set (cRecs c)"
    using assms(1,2) by (intro order_trans[OF snd_put]) (simp add: cache_ok_def)
  ultimately show ?thesis using assms(1) by (simp add: cache_ok_def list_all_iff)
qed

lemma abs_put_id:
  "abs_cache (c\<lparr>cIdToCmd := map_put i k (cIdToCmd c)\<rparr>) =
     (abs_cache c)\<lparr>aIds := (aIds (abs_cache c))(i \<mapsto> pool_get (cPool c) k)\<rparr>"
  by (auto simp: abs_cache_def map_of_put)

lemma append_rec:
  assumes ok: "cache_ok c" and r: "kCmd r \<notin> kCmd ` set (cRecs c)" "rec_known (cPool c) r" "kFreq r = 1"
  defines "c' \<equiv> c\<lparr>cRecs := cRecs c @ [r], cByCmd := map_put (kCmd r) (length (cRecs c)) (cByCmd c)\<rparr>"
  shows "cache_ok c'" "abs_cache c' = (abs_cache c)\<lparr>aInfo := (aInfo (abs_cache c))
    (pool_get (cPool c) (kCmd r) \<mapsto> rec_info (cPool c) r)\<rparr>"
proof -
  have "id_count (cIdToCmd c) (kCmd r) = 0" using ok r(1) by (auto simp: id_count_0 cache_ok_def)
  then show ok': "cache_ok c'"
    using ok r index_ok_append[OF cache_okD(2)[OF ok], of "kCmd r"] by (auto simp: cache_ok_def c'_def)
  have "pool_get (cPool c) (kCmd r) \<notin> fst ` set (map (view_rec (cPool c)) (cRecs c))"
    using keys_distinct[OF ok'] by (auto simp: c'_def view_rec_def)
  then have "map_of (map (view_rec (cPool c)) (cRecs c)) (pool_get (cPool c) (kCmd r)) = None"
    by (rule map_of_eq_None_iff[THEN iffD2])
  then have "map_of (map (view_rec (cPool c)) (cRecs c) @ [(pool_get (cPool c) (kCmd r), v)]) =
      (map_of (map (view_rec (cPool c)) (cRecs c)))(pool_get (cPool c) (kCmd r) \<mapsto> v)" for v
    by (auto simp: map_add_def fun_eq_iff split: option.splits)
  then show "abs_cache c' = (abs_cache c)\<lparr>aInfo := (aInfo (abs_cache c))
    (pool_get (cPool c) (kCmd r) \<mapsto> rec_info (cPool c) r)\<rparr>"
    by (simp add: abs_cache_def c'_def view_rec_def[of _ r])
qed

lemma pool_intern_step:
  assumes "pool_ok p" "length (pStrs p) < 2 ^ 31"
  obtains q k where "pool_intern p s = (q, k)" "pool_ext p q" "pool_known q k" "pool_get q k = s"
    "length (pStrs q) \<le> Suc (length (pStrs p))"
proof -
  from assms have r: "pool_room p" by (simp add: pool_room_def)
  obtain q k where "pool_intern p s = (q, k)" by fastforce
  with pool_ext_intern[OF assms(1) r, of s] pool.known_intern[OF assms(1) r, of s] pool.lookup_intern[OF assms(1) r, of s]
    length_pool_intern[OF assms(1) r, of s] show thesis by (intro that[of q k]) simp_all
qed

lemma created_existing:
  fixes i :: string
  assumes ok: "cache_ok c" "pool_ext (cPool c) q" and idx: "map_of (cByCmd c) k = Some idx"
    and r: "kCmd r = k" "rec_known q r" "kFreq r = kFreq (cRecs c ! idx) + 1"
  defines "c' \<equiv> c\<lparr>cPool := q, cIdToCmd := map_put i k (cIdToCmd c), cRecs := (cRecs c)[idx := r]\<rparr>"
  shows "cache_ok c'" "abs_cache c' = (abs_cache c)\<lparr>aIds := (aIds (abs_cache c))(i \<mapsto> pool_get q k),
      aInfo := (aInfo (abs_cache c))(pool_get q k \<mapsto> rec_info q r)\<rparr>"
proof -
  let ?c0 = "c\<lparr>cPool := q\<rparr>" and ?c1 = "c\<lparr>cPool := q, cRecs := (cRecs c)[idx := r]\<rparr>"
  note c0 = set_pool[OF ok]
  have i0: "map_of (cByCmd ?c0) k = Some idx" using idx by simp
  note ix = by_cmd_Some[OF c0(1) i0]
  have cnt: "int (id_count (cIdToCmd c) k) + 1 \<le> kFreq r"
    using cache_okD(7)[OF c0(1) ix(3)] ix(2) r(3) by simp
  have c1: "cache_ok ?c1" "abs_cache ?c1 = (abs_cache c)\<lparr>aInfo := (aInfo (abs_cache c))(pool_get q k \<mapsto> rec_info q r)\<rparr>"
    using set_rec[OF c0(1) i0 r(1)] r(2,3) cnt cache_okD(6)[OF c0(1) ix(3)] c0(2) by simp_all
  have k: "k \<in> kCmd ` set (cRecs ?c1)" using set_rec_cmds(2)[OF ok(1) idx r(1)] ix(2,3) by auto
  have "kFreq x = kFreq r" if "x \<in> set (cRecs ?c1)" "kCmd x = k" for x
  proof -
    from that(1) obtain j where j: "j < length (cRecs c)" "x = (cRecs c)[idx := r] ! j" by (auto simp: in_set_conv_nth)
    have "distinct (map kCmd ((cRecs c)[idx := r]))"
      using index_ok_distinct[OF cache_okD(2)[OF c1(1)]] by simp
    then have "j = idx" using j that(2) r(1) ix(1)
      by (auto simp: distinct_conv_nth nth_list_update split: if_splits)
    with j ix(1) show ?thesis by simp
  qed
  then have f: "\<And>x. x \<in> set (cRecs ?c1) \<Longrightarrow> kCmd x = k \<Longrightarrow> int (id_count (map_put i k (cIdToCmd ?c1)) k) \<le> kFreq x"
    using id_count_put[OF cache_okD(3)[OF ok(1)], of i k k] cnt by fastforce
  have eq: "c' = ?c1\<lparr>cIdToCmd := map_put i k (cIdToCmd ?c1)\<rparr>" by (simp add: c'_def)
  show "cache_ok c'" using put_id[OF c1(1) k f] unfolding eq .
  show "abs_cache c' = (abs_cache c)\<lparr>aIds := (aIds (abs_cache c))(i \<mapsto> pool_get q k),
      aInfo := (aInfo (abs_cache c))(pool_get q k \<mapsto> rec_info q r)\<rparr>"
    using abs_put_id[where c = ?c1 and i = i and k = k] c1(2) unfolding eq by simp
qed

lemma created_new:
  fixes i :: string
  assumes ok: "cache_ok c" "pool_ext (cPool c) q" and new: "map_of (cByCmd c) (kCmd r) = None"
    and r: "rec_known q r" "kFreq r = 1"
  defines "c' \<equiv> c\<lparr>cPool := q, cIdToCmd := map_put i (kCmd r) (cIdToCmd c),
      cByCmd := map_put (kCmd r) (length (cRecs c)) (cByCmd c), cRecs := cRecs c @ [r]\<rparr>"
  shows "cache_ok c'" "abs_cache c' = (abs_cache c)\<lparr>aIds := (aIds (abs_cache c))(i \<mapsto> pool_get q (kCmd r)),
      aInfo := (aInfo (abs_cache c))(pool_get q (kCmd r) \<mapsto> rec_info q r)\<rparr>"
proof -
  let ?c0 = "c\<lparr>cPool := q\<rparr>"
  let ?c1 = "c\<lparr>cPool := q, cRecs := cRecs c @ [r], cByCmd := map_put (kCmd r) (length (cRecs c)) (cByCmd c)\<rparr>"
  note c0 = set_pool[OF ok]
  have nk: "kCmd r \<notin> kCmd ` set (cRecs c)" using new by_cmd_None[OF ok(1)] by simp
  then have c1: "cache_ok ?c1"
    "abs_cache ?c1 = (abs_cache c)\<lparr>aInfo := (aInfo (abs_cache c))(pool_get q (kCmd r) \<mapsto> rec_info q r)\<rparr>"
    using append_rec[OF c0(1), of r] r c0(2) by simp_all
  have z: "id_count (cIdToCmd c) (kCmd r) = 0" using ok(1) nk by (auto simp: id_count_0 cache_ok_def)
  have f: "\<And>x. x \<in> set (cRecs ?c1) \<Longrightarrow> kCmd x = kCmd r \<Longrightarrow> int (id_count (map_put i (kCmd r) (cIdToCmd ?c1)) (kCmd r)) \<le> kFreq x"
  proof -
    fix x assume "x \<in> set (cRecs ?c1)" "kCmd x = kCmd r"
    then have "x = r" using nk by (simp, metis imageI)
    then show "int (id_count (map_put i (kCmd r) (cIdToCmd ?c1)) (kCmd r)) \<le> kFreq x"
      using id_count_put[OF cache_okD(3)[OF ok(1)], of i "kCmd r" "kCmd r"] z r(2) by simp
  qed
  have eq: "c' = ?c1\<lparr>cIdToCmd := map_put i (kCmd r) (cIdToCmd ?c1)\<rparr>" by (simp add: c'_def)
  have k: "kCmd r \<in> kCmd ` set (cRecs ?c1)" by simp
  show "cache_ok c'" unfolding eq by (rule put_id[OF c1(1) k f])
  show "abs_cache c' = (abs_cache c)\<lparr>aIds := (aIds (abs_cache c))(i \<mapsto> pool_get q (kCmd r)),
      aInfo := (aInfo (abs_cache c))(pool_get q (kCmd r) \<mapsto> rec_info q r)\<rparr>"
    using abs_put_id[where c = ?c1 and i = i and k = "kCmd r"] c1(2) unfolding eq by simp
qed

lemma applyCreated_refines:
  assumes ok: "cache_ok c" and b: "cache_bound n c" "n < 2 ^ 29 - 1"
  shows "cache_ok (applyCreatedLocked c e) \<and> abs_cache (applyCreatedLocked c e) = a_created (abs_cache c) e \<and>
    cache_bound (Suc n) (applyCreatedLocked c e)"
proof (cases "eDeleted e \<or> eCommand e = []")
  case True
  then show ?thesis using assms by (auto simp: applyCreatedLocked_def a_created_def cache_bound_def list_all_iff)
next
  case False
  have len: "length (pStrs (cPool c)) \<le> 4 * n" and fr: "\<And>r. r \<in> set (cRecs c) \<Longrightarrow> kFreq r \<le> int n"
    using b(1) by (auto simp: cache_bound_def list_all_iff)
  from len b(2) have l1: "length (pStrs (cPool c)) < 2 ^ 31" by simp
  obtain p k where p: "pool_intern (cPool c) (eCommand e) = (p, k)" "pool_ext (cPool c) p" "pool_known p k"
    "pool_get p k = eCommand e" "length (pStrs p) \<le> Suc (length (pStrs (cPool c)))"
    by (rule pool_intern_step[OF cache_okD(1)[OF ok] l1])
  have pok: "pool_ok p" "length (pStrs p) + 3 \<le> 2 ^ 31" using p(2,5) len b(2) by (auto simp: pool_ext_def)
  obtain q w d s where q: "intern_place p e = (q, w, d, s)" "pool_ext p q" "length (pStrs q) \<le> length (pStrs p) + 3"
    "pool_known q w" "pool_get q w = eCwd e" "pool_known q d" "pool_get q d = eDeviceID e"
    "pool_known q s" "pool_get q s = eSessionID e"
    by (rule intern_place_spec[OF pok])
  have ext: "pool_ext (cPool c) q" using p(2) q(2) by (rule pool_ext_trans)
  have kq: "pool_known q k" "pool_get q k = eCommand e" using p(3,4) q(2) by (auto simp: pool_ext_def)
  have lq: "length (pStrs q) \<le> 4 * Suc n" "length (pStrs p) \<le> 4 * Suc n" using q(3) p(5) len by auto
  have c0: "cache_ok (c\<lparr>cPool := p\<rparr>)" "abs_cache (c\<lparr>cPool := p\<rparr>) = abs_cache c" using set_pool[OF ok p(2)] .
  have lk: "aInfo (abs_cache c) (eCommand e) = map_option (\<lambda>i. rec_info p (cRecs c ! i)) (map_of (cByCmd c) k)"
    using aInfo_lookup[OF c0(1), of k] c0(2) p(3,4) by simp
  show ?thesis
  proof (cases "map_of (cByCmd c) k")
    case None
    let ?r = "\<lparr>kCmd = k, kCwd = w, kDevice = d, kSession = s, kLastStart = UnixMilli (eStartTS e),
                        kLastDurationMs = durationMsOf e, kLastExit = exit_of e, kFreq = 1\<rparr>"
    have r: "rec_known q ?r" "kFreq ?r = 1" "rec_info q ?r = fresh_info e 1" "kCmd ?r = k"
      using q kq by (simp_all add: rec_known_def rec_info_def fresh_info_def)
    have nw: "map_of (cByCmd c) (kCmd ?r) = None" using None by simp
    note step = created_new[OF ok ext nw r(1,2), of "eID e"]
    show ?thesis using step r(3) None False p(1) q(1) lk kq(2) lq fr
      by (simp add: applyCreatedLocked_def a_created_def cache_bound_def list_all_iff) fastforce
  next
    case (Some idx)
    let ?o = "cRecs c ! idx"
    note ix = by_cmd_Some[OF ok Some]
    have f: "1 \<le> kFreq ?o" "kFreq ?o \<le> int n" using cache_okD(6)[OF ok ix(3)] fr[OF ix(3)] by auto
    then have w32: "wrap32 (kFreq ?o + 1) = kFreq ?o + 1" using b(2) by (intro wrap32_id) auto
    have ko: "rec_known p ?o" using rec_known_ext[OF p(2) cache_okD(4)[OF ok ix(3)]] .
    have bnd: "cache_bound (Suc n) (c\<lparr>cPool := p', cIdToCmd := m, cRecs := (cRecs c)[idx := r]\<rparr>)"
      if "kFreq r = kFreq ?o + 1" "length (pStrs p') \<le> 4 * Suc n" for r m p'
      using that f fr by (auto simp: cache_bound_def intro!: list_all_update) (fastforce simp: list_all_iff)
    show ?thesis
    proof (cases "UnixMilli (eStartTS e) \<ge> kLastStart ?o")
      case True
      let ?r = "?o\<lparr>kFreq := kFreq ?o + 1, kLastStart := UnixMilli (eStartTS e), kLastExit := exit_of e,
         kLastDurationMs := durationMsOf e, kCwd := w, kDevice := d, kSession := s\<rparr>"
      have r: "kCmd ?r = k" "rec_known q ?r" "kFreq ?r = kFreq ?o + 1" "rec_info q ?r = fresh_info e (kFreq ?o + 1)"
        using ix(2) kq q by (simp_all add: rec_known_def rec_info_def fresh_info_def)
      note step = created_existing[OF ok ext Some r(1-3), of "eID e"]
      have "applyCreatedLocked c e = c\<lparr>cPool := q, cIdToCmd := map_put (eID e) k (cIdToCmd c), cRecs := (cRecs c)[idx := ?r]\<rparr>"
        using False p(1) q(1) Some True w32 by (simp add: applyCreatedLocked_def)
      with step r(4) bnd[OF r(3) lq(1)] lk Some True False kq(2) show ?thesis
        by (simp add: a_created_def rec_info_def[of p])
    next
      case late: False
      let ?r = "?o\<lparr>kFreq := kFreq ?o + 1\<rparr>"
      have r: "kCmd ?r = k" "rec_known p ?r" "kFreq ?r = kFreq ?o + 1"
        using ix(2) ko by (simp_all add: rec_known_def)
      note step = created_existing[OF ok p(2) Some r, of "eID e"]
      have "applyCreatedLocked c e = c\<lparr>cPool := p, cIdToCmd := map_put (eID e) k (cIdToCmd c), cRecs := (cRecs c)[idx := ?r]\<rparr>"
        using False p(1) q(1) Some late w32 by (simp add: applyCreatedLocked_def)
      with step bnd[OF r(3) lq(2)] lk Some late False p(4) show ?thesis
        by (simp add: a_created_def rec_info_def)
    qed
  qed
qed

section \<open>Compaction\<close>

definition remap_ok :: "stringPool \<Rightarrow> remap_state \<Rightarrow> bool" where
  "remap_ok old st \<longleftrightarrow> pool_ok (fst st) \<and> set (pStrs (fst st)) \<subseteq> set (pStrs old) \<and>
     (\<forall>i j. map_of (snd st) i = Some j \<longrightarrow> pool_known (fst st) j \<and> pool_get (fst st) j = pool_get old i)"

lemma pool_len_le:
  assumes "pool_ok p" "pool_ok q" "set (pStrs p) \<subseteq> set (pStrs q)"
  shows "length (pStrs p) \<le> length (pStrs q)"
  using assms card_mono[OF _ assms(3)] by (simp add: pool_ok_def distinct_card)

lemma set_pool_intern: "set (pStrs (fst (pool_intern p s))) \<subseteq> insert s (set (pStrs p))"
  by (auto simp: pool_intern_def Let_def split: option.splits)

lemma pool_get_mem: "pool_known p i \<Longrightarrow> pool_get p i \<in> set (pStrs p)"
  by (auto simp: pool_known_def pool_get_def intro!: nth_mem)

lemma remap_spec:
  assumes old: "pool_ok old" "length (pStrs old) < 2 ^ 31" and st: "remap_ok old st" and i: "pool_known old i"
  obtains st' j where "remap old st i = (st', j)" "remap_ok old st'" "pool_ext (fst st) (fst st')"
    "pool_known (fst st') j" "pool_get (fst st') j = pool_get old i"
proof (cases "map_of (snd st) i")
  case (Some j)
  with st have "remap old st i = (st, j)" "pool_known (fst st) j" "pool_get (fst st) j = pool_get old i"
    by (auto simp: remap_def remap_ok_def case_prod_beta)
  with st show thesis by (intro that) (auto simp: remap_ok_def intro: pool_ext_refl)
next
  case None
  have ok: "pool_ok (fst st)" and sub: "set (pStrs (fst st)) \<subseteq> set (pStrs old)" using st by (auto simp: remap_ok_def)
  have "length (pStrs (fst st)) < 2 ^ 31" using pool_len_le[OF ok old(1) sub] old(2) by linarith
  from pool_intern_step[OF ok this] obtain q k where q: "pool_intern (fst st) (pool_get old i) = (q, k)"
    "pool_ext (fst st) q" "pool_known q k" "pool_get q k = pool_get old i" by metis
  have "remap old st i = ((q, map_put i k (snd st)), k)"
    using None q(1) by (simp add: remap_def case_prod_beta)
  moreover have "remap_ok old (q, map_put i k (snd st))"
    using st q set_pool_intern[of "fst st" "pool_get old i"] pool_get_mem[OF i]
    by (auto simp: remap_ok_def pool_ext_def map_of_put)
  ultimately show thesis using q by (intro that) auto
qed

lemma remap_rec_spec:
  assumes old: "pool_ok old" "length (pStrs old) < 2 ^ 31" and st: "remap_ok old st" and r: "rec_known old r"
  obtains st' r' where "remap_rec old st r = (st', r')" "remap_ok old st'" "pool_ext (fst st) (fst st')"
    "rec_known (fst st') r'" "view_rec (fst st') r' = view_rec old r" "kFreq r' = kFreq r"
proof -
  from r have k: "pool_known old (kCmd r)" "pool_known old (kCwd r)" "pool_known old (kDevice r)" "pool_known old (kSession r)"
    by (auto simp: rec_known_def)
  obtain s1 a where 1: "remap old st (kCmd r) = (s1, a)" "remap_ok old s1" "pool_ext (fst st) (fst s1)"
    "pool_known (fst s1) a" "pool_get (fst s1) a = pool_get old (kCmd r)" by (rule remap_spec[OF old st k(1)])
  obtain s2 b where 2: "remap old s1 (kCwd r) = (s2, b)" "remap_ok old s2" "pool_ext (fst s1) (fst s2)"
    "pool_known (fst s2) b" "pool_get (fst s2) b = pool_get old (kCwd r)" by (rule remap_spec[OF old 1(2) k(2)])
  obtain s3 d where 3: "remap old s2 (kDevice r) = (s3, d)" "remap_ok old s3" "pool_ext (fst s2) (fst s3)"
    "pool_known (fst s3) d" "pool_get (fst s3) d = pool_get old (kDevice r)" by (rule remap_spec[OF old 2(2) k(3)])
  obtain s4 e where 4: "remap old s3 (kSession r) = (s4, e)" "remap_ok old s4" "pool_ext (fst s3) (fst s4)"
    "pool_known (fst s4) e" "pool_get (fst s4) e = pool_get old (kSession r)" by (rule remap_spec[OF old 3(2) k(4)])
  show thesis
  proof (rule that)
    show "remap_rec old st r = (s4, r\<lparr>kCmd := a, kCwd := b, kDevice := d, kSession := e\<rparr>)"
      by (simp add: remap_rec_def 1 2 3 4)
    show "pool_ext (fst st) (fst s4)" using 1(3) 2(3) 3(3) 4(3) by (metis pool_ext_trans)
  qed (use 1 2 3 4 in \<open>auto simp: pool_ext_def rec_known_def view_rec_def rec_info_def\<close>)
qed

lemma remap_recs_spec:
  assumes old: "pool_ok old" "length (pStrs old) < 2 ^ 31" and "remap_ok old st" "list_all (rec_known old) rs"
    and "list_all (pool_known (fst st)) ks" "index_ok ks m" "i = length ks"
    and "distinct (map (pool_get (fst st)) ks @ map (\<lambda>r. pool_get old (kCmd r)) rs)"
    and "remap_recs old st i m rs = (st', m', rs')"
  shows "remap_ok old st' \<and> pool_ext (fst st) (fst st') \<and> list_all (rec_known (fst st')) rs' \<and>
    map (view_rec (fst st')) rs' = map (view_rec old) rs \<and> map kFreq rs' = map kFreq rs \<and>
    index_ok (ks @ map kCmd rs') m'"
  using assms(3-)
proof (induction rs arbitrary: st i m ks rs')
  case Nil
  then show ?case by (auto simp: remap_ok_def intro: pool_ext_refl)
next
  case (Cons r rs)
  obtain s1 r1 where 1: "remap_rec old st r = (s1, r1)" "remap_ok old s1" "pool_ext (fst st) (fst s1)"
    "rec_known (fst s1) r1" "view_rec (fst s1) r1 = view_rec old r" "kFreq r1 = kFreq r"
    using Cons.prems by (auto intro: remap_rec_spec[OF old Cons.prems(1), of r])
  obtain rs1 where rs1: "remap_recs old s1 (Suc i) (map_put (kCmd r1) i m) rs = (st', m', rs1)" "rs' = r1 # rs1"
    using Cons.prems(7) 1(1) by (auto simp: Let_def split: prod.splits)
  have cmd: "pool_get (fst s1) (kCmd r1) = pool_get old (kCmd r)" "pool_known (fst s1) (kCmd r1)"
    using 1(4,5) by (auto simp: view_rec_def rec_known_def)
  have ks: "map (pool_get (fst s1)) ks = map (pool_get (fst st)) ks" "list_all (pool_known (fst s1)) ks"
    using 1(3) Cons.prems(3) by (auto simp: pool_ext_def list_all_iff)
  have new: "kCmd r1 \<notin> set ks" using Cons.prems(6) cmd(1) ks(1)
    by (metis Cons_eq_appendI disjoint_insert(1) distinct_append imageI list.set_map list.simps(15) list.simps(9))
  have "index_ok (ks @ [kCmd r1]) (map_put (kCmd r1) i m)"
    using index_ok_append[OF Cons.prems(4) new] Cons.prems(5) by simp
  moreover have "distinct (map (pool_get (fst s1)) (ks @ [kCmd r1]) @ map (\<lambda>r. pool_get old (kCmd r)) rs)"
    using Cons.prems(6) unfolding map_append ks(1) by (simp add: cmd(1))
  ultimately have IH: "remap_ok old st' \<and> pool_ext (fst s1) (fst st') \<and> list_all (rec_known (fst st')) rs1 \<and>
    map (view_rec (fst st')) rs1 = map (view_rec old) rs \<and> map kFreq rs1 = map kFreq rs \<and>
    index_ok ((ks @ [kCmd r1]) @ map kCmd rs1) m'"
    using Cons.prems(2,5) 1(2) ks(2) cmd(2) rs1(1)
    by (intro Cons.IH[of s1 "ks @ [kCmd r1]" "map_put (kCmd r1) i m" "Suc i"]) auto
  then have "rec_known (fst st') r1" "view_rec (fst st') r1 = view_rec old r"
    using rec_known_ext[of "fst s1" "fst st'" r1] view_rec_ext[of "fst s1" "fst st'" r1] 1(4,5) by auto
  with IH rs1(2) 1(3,6) show ?case by (auto intro: pool_ext_trans)
qed

definition named :: "stringPool \<Rightarrow> (string \<times> int) list \<Rightarrow> (string \<times> string) list" where
  "named p ids = map (\<lambda>(i, k). (i, pool_get p k)) ids"

definition ids_known_in :: "stringPool \<Rightarrow> (string \<times> int) list \<Rightarrow> bool" where
  "ids_known_in p ids = list_all (\<lambda>(i, k). pool_known p k) ids"

lemma put_fresh: "k \<notin> fst ` set m \<Longrightarrow> map_put k v m = m @ [(k, v)]"
  by (induction m) auto

lemma named_ext: "pool_ext p q \<Longrightarrow> ids_known_in p ids \<Longrightarrow> named q ids = named p ids \<and> ids_known_in q ids"
  by (auto simp: named_def ids_known_in_def list_all_iff pool_ext_def)

lemma remap_ids_spec:
  assumes old: "pool_ok old" "length (pStrs old) < 2 ^ 31" and "remap_ok old st" "ids_known_in old xs"
    and "ids_known_in (fst st) m" "map_ok (m @ xs)" "remap_ids old st m xs = (st', m')"
  shows "remap_ok old st' \<and> pool_ext (fst st) (fst st') \<and> ids_known_in (fst st') m' \<and>
    named (fst st') m' = named (fst st) m @ named old xs"
  using assms(3-)
proof (induction xs arbitrary: st m)
  case Nil
  then show ?case by (auto simp: remap_ok_def named_def intro: pool_ext_refl)
next
  case (Cons x xs)
  obtain i k where x: "x = (i, k)" by (cases x)
  have k: "pool_known old k" using Cons.prems(2) x by (simp add: ids_known_in_def)
  obtain s1 j where 1: "remap old st k = (s1, j)" "remap_ok old s1" "pool_ext (fst st) (fst s1)"
    "pool_known (fst s1) j" "pool_get (fst s1) j = pool_get old k" by (rule remap_spec[OF old Cons.prems(1) k])
  have i: "map_put i j m = m @ [(i, j)]" using Cons.prems(4) x by (intro put_fresh) auto
  note m = named_ext[OF 1(3) Cons.prems(3)]
  have "remap_ok old st' \<and> pool_ext (fst s1) (fst st') \<and> ids_known_in (fst st') m' \<and>
      named (fst st') m' = named (fst s1) (m @ [(i, j)]) @ named old xs"
  proof (rule Cons.IH[OF 1(2)])
    show "remap_ids old s1 (m @ [(i, j)]) xs = (st', m')" using Cons.prems(5) 1(1) i by (simp add: x)
  qed (use Cons.prems m 1(4) x in \<open>auto simp: ids_known_in_def\<close>)
  moreover have "named (fst s1) (m @ [(i, j)]) = named (fst st) m @ [(i, pool_get old k)]"
    using m 1(5) by (simp add: named_def)
  ultimately show ?case using 1(3) by (auto simp: named_def x intro: pool_ext_trans)
qed

lemma map_of_named: "map_of (named p ids) i = map_option (pool_get p) (map_of ids i)"
  by (induction ids) (auto simp: named_def)

lemma id_count_named:
  assumes "pool_ok p" "pool_known p k" "ids_known_in p ids"
  shows "id_count ids k = length (filter (\<lambda>(i, s). s = pool_get p k) (named p ids))"
  using assms(3)
  by (induction ids) (auto simp: id_count_def named_def ids_known_in_def split: if_splits
      dest: pool.lookup_inj[OF assms(1) _ assms(2)])

lemma fst_named: "map fst (named p ids) = map fst ids" and snd_named: "snd ` set (named p ids) = pool_get p ` snd ` set ids"
  by (auto simp: named_def image_image case_prod_beta)

lemma compact_parts:
  assumes ok: "cache_ok c" and len: "length (pStrs (cPool c)) < 2 ^ 31"
  obtains q rs1 m1 m2 where "compactPoolLocked c = c\<lparr>cPool := q, cRecs := rs1, cByCmd := m1, cIdToCmd := m2\<rparr>"
    "pool_ok q" "set (pStrs q) \<subseteq> set (pStrs (cPool c))" "list_all (rec_known q) rs1"
    "map (view_rec q) rs1 = map (view_rec (cPool c)) (cRecs c)" "index_ok (map kCmd rs1) m1"
    "ids_known_in q m2" "named q m2 = named (cPool c) (cIdToCmd c)"
proof -
  let ?p = "cPool c"
  note pok = cache_okD(1)[OF ok]
  have rk: "list_all (rec_known ?p) (cRecs c)" and ik: "ids_known_in ?p (cIdToCmd c)"
    using ok cache_okD(4)[OF ok] by (force simp: cache_ok_def list_all_iff ids_known_in_def rec_known_def)+
  obtain st1 m1 rs1 where 1: "remap_recs ?p (newStringPool, []) 0 [] (cRecs c) = (st1, m1, rs1)" by (metis prod_cases3)
  obtain st2 m2 where 2: "remap_ids ?p st1 [] (cIdToCmd c) = (st2, m2)" by fastforce
  have e0: "remap_ok ?p (newStringPool, [])" by (simp add: remap_ok_def) (simp add: newStringPool_def)
  have d0: "distinct (map (\<lambda>r. pool_get ?p (kCmd r)) (cRecs c))"
    using keys_distinct[OF ok] by (simp add: view_rec_def o_def)
  have A: "remap_ok ?p st1" "list_all (rec_known (fst st1)) rs1" "map (view_rec (fst st1)) rs1 = map (view_rec ?p) (cRecs c)"
    "index_ok (map kCmd rs1) m1"
    using remap_recs_spec[OF pok len e0 rk _ _ _ _ 1, of "[]"] d0 by (auto simp: index_ok_def)
  have B: "remap_ok ?p st2" "pool_ext (fst st1) (fst st2)" "ids_known_in (fst st2) m2" "named (fst st2) m2 = named ?p (cIdToCmd c)"
    using remap_ids_spec[OF pok len A(1) ik _ _ 2] cache_okD(3)[OF ok] by (auto simp: ids_known_in_def named_def)
  show thesis
  proof (rule that)
    show "compactPoolLocked c = c\<lparr>cPool := fst st2, cRecs := rs1, cByCmd := m1, cIdToCmd := m2\<rparr>"
      by (simp add: compactPoolLocked_def 1 2)
    show "list_all (rec_known (fst st2)) rs1" using A(2) rec_known_ext[OF B(2)] by (auto simp: list_all_iff)
    show "map (view_rec (fst st2)) rs1 = map (view_rec (cPool c)) (cRecs c)"
      using A(2) view_rec_ext[OF B(2)] unfolding A(3)[symmetric] by (auto simp: list_all_iff)
  qed (use A B in \<open>auto simp: remap_ok_def\<close>)
qed

lemma compact_view:
  assumes "cache_ok c" "length (pStrs (cPool c)) < 2 ^ 31"
  shows "map (view_rec (cPool (compactPoolLocked c))) (cRecs (compactPoolLocked c)) = map (view_rec (cPool c)) (cRecs c)"
    "cSorted (compactPoolLocked c) = cSorted c"
  by (rule compact_parts[OF assms]; simp)+

lemma compact_refines:
  assumes ok: "cache_ok c" and len: "length (pStrs (cPool c)) < 2 ^ 31"
  shows "cache_ok (compactPoolLocked c) \<and> abs_cache (compactPoolLocked c) = abs_cache c \<and>
    (cache_bound n c \<longrightarrow> cache_bound n (compactPoolLocked c))"
proof -
  let ?p = "cPool c"
  note pok = cache_okD(1)[OF ok]
  have rk: "list_all (rec_known ?p) (cRecs c)" and ik: "ids_known_in ?p (cIdToCmd c)"
    using ok cache_okD(4)[OF ok] by (force simp: cache_ok_def list_all_iff ids_known_in_def rec_known_def)+
  obtain q rs1 m1 m2 where c': "compactPoolLocked c = c\<lparr>cPool := q, cRecs := rs1, cByCmd := m1, cIdToCmd := m2\<rparr>"
    and pok2: "pool_ok q" and ps: "set (pStrs q) \<subseteq> set (pStrs ?p)" and rk2: "list_all (rec_known q) rs1"
    and v2: "map (view_rec q) rs1 = map (view_rec ?p) (cRecs c)" and ix: "index_ok (map kCmd rs1) m1"
    and mk: "ids_known_in q m2" and mn: "named q m2 = named ?p (cIdToCmd c)"
    by (rule compact_parts[OF ok len])
  have A4: "map kFreq rs1 = map kFreq (cRecs c)"
    using arg_cong[OF v2, of "map (\<lambda>v. iFreq (snd v))"] by (simp add: view_rec_def rec_info_def o_def)
  have names: "(\<lambda>r. pool_get q (kCmd r)) ` set rs1 = (\<lambda>r. pool_get ?p (kCmd r)) ` set (cRecs c)"
    using arg_cong[OF v2, of "\<lambda>l. fst ` set l"] by (simp add: view_rec_def image_image)
  have ids: "map_ok m2" using cache_okD(3)[OF ok] mn by (metis fst_named)
  have sub: "snd ` set m2 \<subseteq> kCmd ` set rs1"
  proof
    fix j assume j: "j \<in> snd ` set m2"
    then have "pool_get q j \<in> pool_get ?p ` snd ` set (cIdToCmd c)" using mn by (metis imageI snd_named)
    also have "\<dots> \<subseteq> (\<lambda>r. pool_get q (kCmd r)) ` set rs1" unfolding names using ok by (auto simp: cache_ok_def)
    finally obtain r where r: "r \<in> set rs1" "pool_get q j = pool_get q (kCmd r)" by blast
    moreover have "pool_known q j" "pool_known q (kCmd r)"
      using j mk rk2 r(1) by (auto simp: ids_known_in_def list_all_iff rec_known_def)
    ultimately show "j \<in> kCmd ` set rs1" using pool.lookup_inj[OF pok2] by blast
  qed
  have fr: "kFreq r = kFreq r0 \<and> id_count m2 (kCmd r) = id_count (cIdToCmd c) (kCmd r0)"
    if "(r, r0) \<in> set (zip rs1 (cRecs c))" for r r0
  proof -
    from that obtain t where t: "t < length rs1" "t < length (cRecs c)" "r = rs1 ! t" "r0 = cRecs c ! t" by (auto simp: set_zip)
    have n: "pool_get q (kCmd r) = pool_get ?p (kCmd r0)"
      using arg_cong[OF v2, of "\<lambda>l. fst (l ! t)"] t by (simp add: view_rec_def)
    have "pool_known q (kCmd r)" "pool_known ?p (kCmd r0)"
      using t rk rk2 by (auto simp: list_all_length rec_known_def)
    with n have "id_count m2 (kCmd r) = id_count (cIdToCmd c) (kCmd r0)"
      using id_count_named[OF pok2 _ mk] id_count_named[OF pok _ ik] mn by simp
    moreover have "kFreq r = kFreq r0" using arg_cong[OF A4, of "\<lambda>l. l ! t"] t by simp
    ultimately show ?thesis by simp
  qed
  have len12: "length rs1 = length (cRecs c)" using A4 by (metis length_map)
  have lift: "list_all P rs1" if "list_all Q (cRecs c)" "\<And>r r0. (r, r0) \<in> set (zip rs1 (cRecs c)) \<Longrightarrow> Q r0 \<Longrightarrow> P r" for P Q
    using that len12 by (auto simp: list_all_length set_zip)
  have "cache_ok (compactPoolLocked c)"
  proof -
    have "list_all (\<lambda>r. 1 \<le> kFreq r \<and> int (id_count m2 (kCmd r)) \<le> kFreq r) rs1"
      by (rule lift[of "\<lambda>r. 1 \<le> kFreq r \<and> int (id_count (cIdToCmd c) (kCmd r)) \<le> kFreq r"])
        (use ok fr in \<open>auto simp: cache_ok_def\<close>)
    with pok2 rk2 ix ids sub show ?thesis unfolding c' by (simp add: cache_ok_def)
  qed
  moreover have "abs_cache (compactPoolLocked c) = abs_cache c"
    unfolding c' abs_cache_def using v2 by (simp flip: map_of_named add: mn)
  moreover have "cache_bound n c \<longrightarrow> cache_bound n (compactPoolLocked c)"
  proof
    assume b: "cache_bound n c"
    have "list_all (\<lambda>r. kFreq r \<le> int n) rs1"
      by (rule lift[of "\<lambda>r. kFreq r \<le> int n"]) (use b fr in \<open>auto simp: cache_bound_def\<close>)
    moreover have "length (pStrs q) \<le> length (pStrs ?p)"
      using pool_len_le[OF pok2 pok ps] .
    ultimately show "cache_bound n (compactPoolLocked c)" using b unfolding c' by (simp add: cache_bound_def)
  qed
  ultimately show ?thesis by blast
qed

end
