(* ===== verification/Cache_Spec.thy ===== *)
theory Cache_Spec
  imports Cache_Refine
begin

text \<open>
  What the clients of the cache see: after any sequence of operations the suggestions for a prefix are
  those of the abstract cache, the commands with the prefix in byte order, at most 64 of them.
\<close>

section \<open>Sequences of operations\<close>

datatype cache_op =
    OCreated entry
  | OCompleted string gotime int
  | OTombstoned "string list"
  | OCommand string
  | OBatch change_set
  | OMarkDirty
  | OCompact
  | ORebuild "entry \<Rightarrow> go_error option" db

fun cache_step :: "cache \<Rightarrow> cache_op \<Rightarrow> cache" where
  "cache_step c (OCreated e) = ApplyCreated c e"
| "cache_step c (OCompleted i t x) = ApplyCompleted c i t x"
| "cache_step c (OTombstoned ids) = ApplyTombstoned c ids"
| "cache_step c (OCommand cmd) = ApplyTombstoneCommand c cmd"
| "cache_step c (OBatch cs) = ApplyBatch c cs"
| "cache_step c OMarkDirty = MarkDirty c"
| "cache_step c OCompact = Compact c"
| "cache_step c (ORebuild cancelled d) = fst (Rebuild cancelled d c)"

definition a_new :: acache where
  "a_new = \<lparr>aIds = Map.empty, aInfo = Map.empty, aDirty = False\<rparr>"

definition a_batch :: "acache \<Rightarrow> change_set \<Rightarrow> acache" where
  "a_batch a cs =
     foldl a_tombstone_command
       (foldl a_tombstone_id
         (foldl (\<lambda>a done. a_completed a (ccID done) (ccEnd done) (ccExit done))
           (foldl a_created a (csCreated cs)) (csCompleted cs))
         (csTombstoned cs))
       (csCommands cs)"

fun a_step :: "acache \<Rightarrow> cache_op \<Rightarrow> acache" where
  "a_step a (OCreated e) = a_created a e"
| "a_step a (OCompleted i t x) = a_completed a i (UnixMilli t) x"
| "a_step a (OTombstoned ids) = foldl a_tombstone_id a ids"
| "a_step a (OCommand cmd) = a_tombstone_command a cmd"
| "a_step a (OBatch cs) = a_batch a cs"
| "a_step a OMarkDirty = a\<lparr>aDirty := True\<rparr>"
| "a_step a OCompact = a"
| "a_step a (ORebuild cancelled d) =
     (if list_all (\<lambda>e. cancelled e = None) (ScanLive d) then foldl a_created a_new (ScanLive d) else a)"

text \<open>How many entries an operation can bring in.\<close>

fun op_weight :: "cache_op \<Rightarrow> nat" where
  "op_weight (OCreated e) = 1"
| "op_weight (OBatch cs) = length (csCreated cs)"
| "op_weight (ORebuild cancelled d) = length (ScanLive d)"
| "op_weight _ = 0"

section \<open>The sorted slice\<close>

definition sorted_ok :: "cache \<Rightarrow> bool" where
  "sorted_ok c \<longleftrightarrow> set (cSorted c) = {..<length (cRecs c)} \<and>
     sorted_wrt (<) (map (\<lambda>i. pool_get (cPool c) (kCmd (cRecs c ! i))) (cSorted c))"

definition cache_rel :: "nat \<Rightarrow> cache \<Rightarrow> acache \<Rightarrow> bool" where
  "cache_rel n c a \<longleftrightarrow> cache_ok c \<and> cache_bound n c \<and> abs_cache c = a"

lemma name_nth:
  "map (view_rec p) rs = map (view_rec q) rs' \<Longrightarrow> i < length rs \<Longrightarrow>
     pool_get p (kCmd (rs ! i)) = pool_get q (kCmd (rs' ! i))"
  using arg_cong[of "map (view_rec p) rs" "map (view_rec q) rs'" "\<lambda>l. fst (l ! i)"]
  by (metis (mono_tags, lifting) fst_conv length_map nth_map view_rec_def)

interpretation by_name: strict_weak_less "\<lambda>i j. nm i < nm j" UNIV for nm :: "nat \<Rightarrow> string"
  by unfold_locales auto

lemma resort_sorted:
  assumes "cache_ok c"
  shows "sorted_ok (resortLocked c)"
proof -
  let ?nm = "\<lambda>i. pool_get (cPool c) (kCmd (cRecs c ! i))"
  let ?s = "sort_by (\<lambda>i j. ?nm i < ?nm j) [0..<length (cRecs c)]"
  have le: "sorted_wrt (\<lambda>a b. \<not> ?nm b < ?nm a) ?s" by (rule by_name.sort_by_sorted) simp
  have dist: "distinct (map ?nm [0..<length (cRecs c)])"
  proof -
    have "map ?nm [0..<length (cRecs c)] = map fst (map (view_rec (cPool c)) (cRecs c))"
      by (rule nth_equalityI) (simp_all add: view_rec_def)
    then show ?thesis using keys_distinct[OF assms] by simp
  qed
  then have "distinct (map ?nm ?s)"
    using mset_eq_imp_distinct_iff[OF mset_map_sort_by[of ?nm "\<lambda>i j. ?nm i < ?nm j" "[0..<length (cRecs c)]"]] by blast
  moreover have "sorted (map ?nm ?s)" using le by (simp add: sorted_wrt_map not_less)
  ultimately show ?thesis
    by (simp add: sorted_ok_def resortLocked_def strict_sorted_iff atLeast0LessThan)
qed

lemma sorted_ok_names:
  assumes "length (cRecs c') = length (cRecs c)" "cSorted c' = cSorted c" "sorted_ok c"
    and "\<And>i. i < length (cRecs c) \<Longrightarrow> pool_get (cPool c') (kCmd (cRecs c' ! i)) = pool_get (cPool c) (kCmd (cRecs c ! i))"
  shows "sorted_ok c'"
proof -
  have "map (\<lambda>i. pool_get (cPool c') (kCmd (cRecs c' ! i))) (cSorted c) = map (\<lambda>i. pool_get (cPool c) (kCmd (cRecs c ! i))) (cSorted c)"
    using assms(3,4) by (intro map_cong refl) (auto simp: sorted_ok_def)
  then show ?thesis using assms(3) unfolding sorted_ok_def assms(1,2) by (simp only:)
qed

lemma sorted_ok_view:
  assumes "map (view_rec (cPool c')) (cRecs c') = map (view_rec (cPool c)) (cRecs c)" "cSorted c' = cSorted c" "sorted_ok c"
  shows "sorted_ok c'"
proof (rule sorted_ok_names[OF _ assms(2,3)])
  show l: "length (cRecs c') = length (cRecs c)" using assms(1) by (metis length_map)
  show "pool_get (cPool c') (kCmd (cRecs c' ! i)) = pool_get (cPool c) (kCmd (cRecs c ! i))" if "i < length (cRecs c)" for i
    by (rule name_nth[OF assms(1)]) (simp add: l that)
qed

lemma resort_rel: "cache_ok (resortLocked c) = cache_ok c" "abs_cache (resortLocked c) = abs_cache c"
  "cache_bound n (resortLocked c) = cache_bound n c"
  by (simp_all add: cache_ok_def abs_cache_def cache_bound_def resortLocked_def)

lemma stats_rel: "cache_ok (refreshStatsLocked c) = cache_ok c" "abs_cache (refreshStatsLocked c) = abs_cache c"
  "cache_bound n (refreshStatsLocked c) = cache_bound n c" "sorted_ok (refreshStatsLocked c) = sorted_ok c"
  by (simp_all add: cache_ok_def abs_cache_def cache_bound_def refreshStatsLocked_def sorted_ok_def)

lemma maybeCompact_cases: "maybeCompactLocked c = c \<or> maybeCompactLocked c = compactPoolLocked c"
  by (simp add: maybeCompactLocked_def Let_def)

lemma bound_len: "cache_bound n c \<Longrightarrow> n < 2 ^ 29 \<Longrightarrow> length (pStrs (cPool c)) < 2 ^ 31"
  by (simp add: cache_bound_def)

lemma settle_refines:
  assumes "cache_rel n c a" "n < 2 ^ 29"
  shows "cache_rel n (settle c) a \<and> sorted_ok (settle c)"
proof -
  let ?c = "resortLocked c"
  have r: "cache_ok ?c" "cache_bound n ?c" "abs_cache ?c = a" using assms(1) by (simp_all add: cache_rel_def resort_rel)
  note len = bound_len[OF r(2) assms(2)] and so = resort_sorted[of c]
  have "sorted_ok ?c" using assms(1) so by (simp add: cache_rel_def)
  then show ?thesis
    using maybeCompact_cases[of ?c] compact_refines[OF r(1) len, of n] r sorted_ok_view[OF compact_view[OF r(1) len]]
    by (auto simp: settle_def cache_rel_def stats_rel)
qed

section \<open>The run\<close>

lemma fold_created:
  "cache_rel n c a \<Longrightarrow> n + length es < 2 ^ 29 \<Longrightarrow>
     cache_rel (n + length es) (foldl applyCreatedLocked c es) (foldl a_created a es)"
proof (induction es arbitrary: n c a)
  case (Cons e es)
  then have "cache_rel (Suc n) (applyCreatedLocked c e) (a_created a e)"
    using applyCreated_refines[of c n e] by (auto simp: cache_rel_def)
  from Cons.IH[OF this] Cons.prems show ?case by simp
qed simp

lemma fold_rel:
  assumes "\<And>c a x. cache_rel n c a \<Longrightarrow> cache_rel n (f c x) (g a x)" "cache_rel n c a"
  shows "cache_rel n (foldl f c xs) (foldl g a xs)"
  using assms(2) by (induction xs arbitrary: c a) (auto intro: assms(1))

lemma rel_completed: "cache_rel n c a \<Longrightarrow> cache_rel n (applyCompletedLocked c i t x) (a_completed a i t x)"
  using applyCompleted_refines[of c] by (auto simp: cache_rel_def)

lemma rel_tombstone: "n < 2 ^ 29 \<Longrightarrow> cache_rel n c a \<Longrightarrow> cache_rel n (tombstone_id c i) (a_tombstone_id a i)"
  using tombstone_id_refines[of c n i] by (auto simp: cache_rel_def)

lemma rel_command: "cache_rel n c a \<Longrightarrow> cache_rel n (ApplyTombstoneCommandUnlocked c i) (a_tombstone_command a i)"
  using tombstone_command_refines[of c n i] by (auto simp: cache_rel_def)

lemma rel_batch:
  assumes "cache_rel n c a" "n + length (csCreated cs) < 2 ^ 29"
  shows "cache_rel (n + length (csCreated cs)) (ApplyBatch c cs) (a_batch a cs) \<and> sorted_ok (ApplyBatch c cs)"
  unfolding ApplyBatch_def a_batch_def Let_def
  by (intro settle_refines fold_rel fold_created rel_completed rel_tombstone rel_command assms)

lemma tombstone_command_locked:
  "ApplyTombstoneCommand c cmd = c \<and> ApplyTombstoneCommandUnlocked c cmd = c \<or>
   ApplyTombstoneCommand c cmd = settle (ApplyTombstoneCommandUnlocked c cmd)"
  by (auto simp: ApplyTombstoneCommand_def ApplyTombstoneCommandUnlocked_def split: option.splits)

lemma rebuild_scan_eq:
  "rebuild_scan cancelled es n c =
     (case find (\<lambda>e. cancelled e \<noteq> None) es of
        Some e \<Rightarrow> Inl (the (cancelled e))
      | None \<Rightarrow> Inr (n + length es, foldl applyCreatedLocked c es))"
  by (induction es arbitrary: n c) (auto split: option.splits)

lemma rel_mono: "cache_rel n c a \<Longrightarrow> n \<le> m \<Longrightarrow> cache_rel m c a"
  by (auto simp: cache_rel_def cache_bound_def list_all_iff)

lemma rel_rebuild:
  assumes "cache_rel n c a" "sorted_ok c" "n + length (ScanLive d) < 2 ^ 29"
  shows "cache_rel (n + length (ScanLive d)) (fst (Rebuild cancelled d c)) (a_step a (ORebuild cancelled d)) \<and>
    sorted_ok (fst (Rebuild cancelled d c))"
proof (cases "list_all (\<lambda>e. cancelled e = None) (ScanLive d)")
  case True
  then have f: "find (\<lambda>e. cancelled e \<noteq> None) (ScanLive d) = None" by (simp add: find_None_iff list_all_iff)
  let ?c = "foldl applyCreatedLocked NewCache (ScanLive d)"
  have "cache_rel 0 NewCache a_new"
    unfolding cache_rel_def by (simp add: a_new_def) (simp add: abs_cache_def NewCache_def)
  then have "cache_rel (0 + length (ScanLive d)) ?c (foldl a_created a_new (ScanLive d))"
    using assms(3) by (intro fold_created) auto
  then have r: "cache_rel (n + length (ScanLive d)) ?c (foldl a_created a_new (ScanLive d))" by (rule rel_mono) simp
  then have "sorted_ok (resortLocked ?c)" by (intro resort_sorted) (simp add: cache_rel_def)
  moreover have "aDirty (foldl a_created x es) = aDirty x" for x es
    by (induction es arbitrary: x) (auto simp: a_created_def)
  then have "cDirty ?c = False" using r by (auto simp: cache_rel_def abs_cache_def a_new_def dest!: arg_cong[where f = aDirty])
  ultimately show ?thesis using r True f
    by (simp add: Rebuild_def rebuild_scan_eq Let_def cache_rel_def resortLocked_def sorted_ok_def cache_ok_def
        cache_bound_def abs_cache_def)
next
  case False
  then obtain e where "find (\<lambda>e. cancelled e \<noteq> None) (ScanLive d) = Some e"
    by (cases "find (\<lambda>e. cancelled e \<noteq> None) (ScanLive d)") (auto simp: find_None_iff list_all_iff)
  then have "fst (Rebuild cancelled d c) = c" by (simp add: Rebuild_def rebuild_scan_eq)
  with False assms(1,2) show ?thesis by (auto intro: rel_mono)
qed

lemma cache_step_refines:
  assumes "cache_rel n c a" "sorted_ok c" "n + op_weight x < 2 ^ 29"
  shows "cache_rel (n + op_weight x) (cache_step c x) (a_step a x) \<and> sorted_ok (cache_step c x)"
proof (cases x)
  case (OCreated e)
  then show ?thesis using settle_refines[OF fold_created[OF assms(1), of "[e]"]] assms(3) by (simp add: ApplyCreated_def)
next
  case (OCompleted i t y)
  have "sorted_ok (applyCompletedLocked c i (UnixMilli t) y)"
  proof (rule sorted_ok_names[OF _ _ assms(2)])
    fix j assume "j < length (cRecs c)"
    then show "pool_get (cPool (applyCompletedLocked c i (UnixMilli t) y)) (kCmd (cRecs (applyCompletedLocked c i (UnixMilli t) y) ! j)) =
        pool_get (cPool c) (kCmd (cRecs c ! j))"
      by (cases "map_of (cByCmd c) (the (map_of (cIdToCmd c) i)) = Some j")
        (auto simp: applyCompletedLocked_def nth_list_update split: option.splits)
  qed (simp_all add: applyCompletedLocked_def split: option.splits)
  with OCompleted rel_completed[OF assms(1)] show ?thesis by (simp add: ApplyCompleted_def)
next
  case (OTombstoned ids)
  then show ?thesis using assms fold_rel[of n tombstone_id a_tombstone_id c a ids, OF rel_tombstone] settle_refines[of n]
    by (simp add: ApplyTombstoned_def)
next
  case (OCommand cmd)
  then show ?thesis
    using assms tombstone_command_locked[of c cmd] rel_command[OF assms(1), of cmd]
      settle_refines[OF rel_command[OF assms(1), of cmd]] by auto
next
  case OCompact
  have "cache_ok c" "cache_bound n c" "abs_cache c = a" using assms(1) by (auto simp: cache_rel_def)
  with OCompact compact_refines[of c n] bound_len[of n c] sorted_ok_view[OF compact_view, of c] assms(2,3)
  show ?thesis by (simp add: Compact_def cache_rel_def stats_rel)
next
  case (OBatch cs)
  then show ?thesis using rel_batch[OF assms(1), of cs] assms(3) by simp
next
  case OMarkDirty
  then show ?thesis using assms(1,2)
    by (auto simp: MarkDirty_def cache_rel_def cache_ok_def abs_cache_def cache_bound_def sorted_ok_def)
next
  case (ORebuild cancelled d)
  then show ?thesis using rel_rebuild[OF assms(1,2), of d cancelled] assms(3) by simp
qed

lemma cache_run_refines:
  assumes "cache_rel n c a" "sorted_ok c" "n + sum_list (map op_weight ops) < 2 ^ 29"
  shows "cache_rel (n + sum_list (map op_weight ops)) (foldl cache_step c ops) (foldl a_step a ops) \<and>
    sorted_ok (foldl cache_step c ops)"
  using assms
proof (induction ops arbitrary: n c a)
  case (Cons x ops)
  have "cache_rel (n + op_weight x) (cache_step c x) (a_step a x) \<and> sorted_ok (cache_step c x)"
    using Cons.prems by (intro cache_step_refines) auto
  with Cons.IH[of "n + op_weight x" "cache_step c x" "a_step a x"] Cons.prems show ?case by (simp add: add.assoc)
qed simp

lemma new_rel: "cache_rel 0 NewCache a_new" "sorted_ok NewCache"
  unfolding cache_rel_def by (simp_all add: a_new_def sorted_ok_def) (simp_all add: abs_cache_def NewCache_def)

section \<open>Suggestions\<close>

definition a_entry :: "string \<Rightarrow> cmd_info \<Rightarrow> entry" where
  "a_entry cmd v = zero_entry
     \<lparr>eCommand := cmd, eCwd := iCwd v, eDeviceID := iDevice v, eSessionID := iSession v,
      eStartTS := ofMilli (iLastStart v),
      eExitStatus := (if iLastExit v \<ge> 0 then Some (iLastExit v) else None),
      eDurationMs := (if iLastDurationMs v > 0 then Some (iLastDurationMs v) else None)\<rparr>"

definition a_suggest :: "acache \<Rightarrow> string \<Rightarrow> entry list" where
  "a_suggest a pfx =
     (if pfx = [] \<or> aDirty a then []
      else map (\<lambda>cmd. a_entry cmd (the (aInfo a cmd)))
        (take 64 (sorted_list_of_set {cmd \<in> dom (aInfo a). HasPrefix cmd pfx \<and> cmd \<noteq> pfx})))"

text \<open>\<^verbatim>\<open>sort.Search\<close> finds the first index at which a monotone predicate holds.\<close>

lemma search_loop_least:
  assumes "\<And>a b. a \<le> b \<Longrightarrow> b < n \<Longrightarrow> f a \<Longrightarrow> f b" "\<And>k. k < i \<Longrightarrow> \<not> f k" "\<And>k. j \<le> k \<Longrightarrow> k < n \<Longrightarrow> f k" "i \<le> j" "j \<le> n"
  shows "search_loop f i j \<le> n \<and> (\<forall>k < search_loop f i j. \<not> f k) \<and> (\<forall>k. search_loop f i j \<le> k \<and> k < n \<longrightarrow> f k)"
  using assms
proof (induction f i j rule: search_loop.induct)
  case (1 f i j)
  note mono = 1(3)
  show ?case
  proof (cases "i < j")
    case False
    with 1(4-) show ?thesis by (subst (1 2 3) search_loop.simps) auto
  next
    case True
    define h where "h = (i + j) div 2"
    have h: "i \<le> h" "h < j" "h < n" using True 1(7) unfolding h_def by auto
    show ?thesis
    proof (cases "f h")
      case fh: False
      have dn: "\<not> f k" if "k < h + 1" for k using that fh mono[of k h] h(3) by auto
      have "search_loop f (h + 1) j \<le> n \<and> (\<forall>k < search_loop f (h + 1) j. \<not> f k) \<and>
          (\<forall>k. search_loop f (h + 1) j \<le> k \<and> k < n \<longrightarrow> f k)"
      proof (rule 1(1)[OF True h_def fh])
        show "\<And>a b. a \<le> b \<Longrightarrow> b < n \<Longrightarrow> f a \<Longrightarrow> f b" by (rule mono)
        show "\<And>k. k < h + 1 \<Longrightarrow> \<not> f k" by (rule dn)
        show "\<And>k. j \<le> k \<Longrightarrow> k < n \<Longrightarrow> f k" by (rule 1(5))
      qed (use h 1(7) in auto)
      moreover have "search_loop f i j = search_loop f (h + 1) j"
        using True fh by (subst search_loop.simps) (simp add: Let_def h_def)
      ultimately show ?thesis by simp
    next
      case fh: True
      have up: "f k" if "h \<le> k" "k < n" for k using mono[OF that(1,2) fh] .
      have "search_loop f i h \<le> n \<and> (\<forall>k < search_loop f i h. \<not> f k) \<and>
          (\<forall>k. search_loop f i h \<le> k \<and> k < n \<longrightarrow> f k)"
      proof (rule 1(2)[OF True h_def])
        show "\<not> \<not> f h" using fh by simp
        show "\<And>a b. a \<le> b \<Longrightarrow> b < n \<Longrightarrow> f a \<Longrightarrow> f b" by (rule mono)
        show "\<And>k. k < i \<Longrightarrow> \<not> f k" by (rule 1(4))
        show "\<And>k. h \<le> k \<Longrightarrow> k < n \<Longrightarrow> f k" by (rule up)
      qed (use h in auto)
      moreover have "search_loop f i j = search_loop f i h"
        using True fh by (subst search_loop.simps) (simp add: Let_def h_def)
      ultimately show ?thesis by simp
    qed
  qed
qed

text \<open>In the byte order the strings with a prefix are an interval that starts at the prefix.\<close>

lemma HasPrefix_ge: "HasPrefix s p \<Longrightarrow> p \<le> s"
proof -
  have "p \<le> p @ t" for t by (induction p) auto
  then show "HasPrefix s p \<Longrightarrow> p \<le> s" by (auto simp: HasPrefix_iff)
qed

lemma HasPrefix_interval:
  "p \<le> s \<Longrightarrow> s \<le> t \<Longrightarrow> HasPrefix t p \<Longrightarrow> HasPrefix s p"
proof (induction p arbitrary: s t)
  case Nil
  then show ?case by (simp add: HasPrefix_def)
next
  case (Cons c p)
  from Cons.prems(1) obtain d s' where s: "s = d # s'" by (cases s) auto
  from Cons.prems(3) obtain t' where t: "t = c # t'" "HasPrefix t' p" by (auto simp: HasPrefix_iff)
  from Cons.prems(1,2) s t have "d = c" "p \<le> s'" "s' \<le> t'" by auto
  with Cons.IH[of s' t'] s t show ?case by (simp add: HasPrefix_def)
qed

text \<open>What the loop over the sorted slice collects.\<close>

lemma prefix_loop_eq:
  assumes "length out < 64"
  shows "prefix_loop c pfx ks out =
    out @ take (64 - length out)
      (map (\<lambda>k. entryFromLocked c (cRecs c ! k))
        (filter (\<lambda>k. pool_get (cPool c) (kCmd (cRecs c ! k)) \<noteq> pfx)
          (takeWhile (\<lambda>k. HasPrefix (pool_get (cPool c) (kCmd (cRecs c ! k))) pfx) ks)))"
  using assms
proof (induction ks arbitrary: out)
  case (Cons k ks)
  show ?case
  proof (cases "HasPrefix (pool_get (cPool c) (kCmd (cRecs c ! k))) pfx \<and> pool_get (cPool c) (kCmd (cRecs c ! k)) \<noteq> pfx")
    case False
    with Cons show ?thesis by (auto simp: Let_def)
  next
    case True
    obtain m where m: "64 - length out = Suc m" using Cons.prems by (metis Suc_diff_Suc)
    show ?thesis
    proof (cases "m = 0")
      case True': True
      then have "\<not> length out < 63" using m by simp
      then show ?thesis using True True' m by (simp add: Let_def)
    next
      case False
      then have "length (out @ [entryFromLocked c (cRecs c ! k)]) < 64" using m by simp
      moreover have "63 - length out = m" "\<not> 63 \<le> length out" using m False by auto
      ultimately show ?thesis using Cons.IH[of "out @ [entryFromLocked c (cRecs c ! k)]"] True m by (simp add: Let_def)
    qed
  qed
qed simp

text \<open>On a sorted list, the strings with the prefix are what a search followed by \<^const>\<open>takeWhile\<close> finds.\<close>

lemma takeWhile_prefix_interval:
  assumes "sorted xs" "\<forall>x \<in> set xs. p \<le> x"
  shows "takeWhile (\<lambda>x. HasPrefix x p) xs = filter (\<lambda>x. HasPrefix x p) xs"
  using assms
proof (induction xs)
  case (Cons x xs)
  show ?case
  proof (cases "HasPrefix x p")
    case True
    with Cons show ?thesis by simp
  next
    case False
    have "\<not> HasPrefix y p" if "y \<in> set xs" for y
      using False HasPrefix_interval[of p x y] that Cons.prems by auto
    with False show ?thesis by (auto simp: filter_empty_conv)
  qed
qed simp

lemma sorted_search:
  fixes xs :: "string list"
  assumes "sorted xs" and f: "\<And>i. i < length xs \<Longrightarrow> f i = (p \<le> xs ! i)"
  shows "takeWhile (\<lambda>x. HasPrefix x p) (drop (sort_Search (length xs) f) xs) = filter (\<lambda>x. HasPrefix x p) xs"
proof -
  let ?i = "sort_Search (length xs) f"
  have mono: "f b" if "a \<le> b" "b < length xs" "f a" for a b
    using sorted_nth_mono[OF assms(1) that(1,2)] that f[of a] f[of b] by simp
  have s: "?i \<le> length xs \<and> (\<forall>k < ?i. \<not> f k) \<and> (\<forall>k. ?i \<le> k \<and> k < length xs \<longrightarrow> f k)"
    unfolding sort_Search_def by (rule search_loop_least[where f = f and n = "length xs", OF mono]) auto
  have lo: "\<not> HasPrefix x p" if x: "x \<in> set (take ?i xs)" for x
  proof -
    from x obtain k where "k < ?i" "x = xs ! k" "k < length xs" by (auto simp: in_set_conv_nth)
    with s HasPrefix_ge[of x p] f[of k] show ?thesis by blast
  qed
  have hi: "\<forall>x \<in> set (drop ?i xs). p \<le> x"
  proof
    fix x assume "x \<in> set (drop ?i xs)"
    then obtain k where k: "k < length (drop ?i xs)" "x = drop ?i xs ! k" by (metis in_set_conv_nth)
    then have "?i + k < length xs" "x = xs ! (?i + k)" by auto
    moreover have "?i \<le> ?i + k" by simp
    ultimately show "p \<le> x" using s f[of "?i + k"] by blast
  qed
  have "filter (\<lambda>x. HasPrefix x p) xs = filter (\<lambda>x. HasPrefix x p) (take ?i xs @ drop ?i xs)" by simp
  also have "\<dots> = filter (\<lambda>x. HasPrefix x p) (drop ?i xs)" unfolding filter_append using lo by (simp add: filter_empty_conv)
  also have "\<dots> = takeWhile (\<lambda>x. HasPrefix x p) (drop ?i xs)"
    using takeWhile_prefix_interval[OF sorted_wrt_drop[OF assms(1)] hi] by simp
  finally show ?thesis by simp
qed

lemma info_of_rec:
  assumes "cache_ok c" "k < length (cRecs c)"
  shows "aInfo (abs_cache c) (pool_get (cPool c) (kCmd (cRecs c ! k))) = Some (rec_info (cPool c) (cRecs c ! k))"
proof -
  have "map_of (cByCmd c) (kCmd (cRecs c ! k)) = Some k"
    using cache_okD(2)[OF assms(1)] assms(2) by (simp add: index_ok_def)
  moreover have "pool_known (cPool c) (kCmd (cRecs c ! k))"
    using cache_okD(4)[OF assms(1) nth_mem[OF assms(2)]] by (simp add: rec_known_def)
  ultimately show ?thesis using aInfo_lookup[OF assms(1)] by simp
qed

lemma dom_info: "dom (aInfo (abs_cache c)) = (\<lambda>k. pool_get (cPool c) (kCmd (cRecs c ! k))) ` {..<length (cRecs c)}"
proof -
  have "dom (aInfo (abs_cache c)) = (\<lambda>r. pool_get (cPool c) (kCmd r)) ` set (cRecs c)"
    by (simp add: abs_cache_def dom_map_of_conv_image_fst image_image view_rec_def)
  then show ?thesis unfolding set_conv_nth by (auto simp: image_def)
qed

lemma entryFrom_info: "entryFromLocked c r = a_entry (pool_get (cPool c) (kCmd r)) (rec_info (cPool c) r)"
  by (simp add: entryFromLocked_def a_entry_def rec_info_def)

lemma Suggest_eq:
  assumes "cache_ok c" "sorted_ok c"
  shows "Suggest c pfx = a_suggest (abs_cache c) pfx"
proof (cases "pfx = [] \<or> cDirty c")
  case True
  then show ?thesis by (auto simp: Suggest_def a_suggest_def abs_cache_def)
next
  case False
  define nm where "nm = (\<lambda>k. pool_get (cPool c) (kCmd (cRecs c ! k)))"
  let ?L = "map nm (cSorted c)" and ?F = "\<lambda>cmd. a_entry cmd (the (aInfo (abs_cache c) cmd))"
  let ?i = "sort_Search (length (cSorted c)) (\<lambda>i. nm (cSorted c ! i) \<ge> pfx)"
  have L: "sorted ?L" "distinct ?L" "set ?L = dom (aInfo (abs_cache c))"
    using assms(2) unfolding sorted_ok_def nm_def[symmetric] dom_info by (simp_all add: strict_sorted_iff)
  have entry: "entryFromLocked c (cRecs c ! k) = ?F (nm k)" if "k \<in> set (cSorted c)" for k
    using that assms(2) info_of_rec[OF assms(1), of k] by (simp add: sorted_ok_def entryFrom_info nm_def)
  have tw: "map nm (takeWhile (\<lambda>k. HasPrefix (nm k) pfx) (drop ?i (cSorted c))) = filter (\<lambda>x. HasPrefix x pfx) ?L"
    using sorted_search[OF L(1), of "\<lambda>i. nm (cSorted c ! i) \<ge> pfx" pfx] by (simp add: takeWhile_map o_def drop_map)
  let ?ks = "filter (\<lambda>k. nm k \<noteq> pfx) (takeWhile (\<lambda>k. HasPrefix (nm k) pfx) (drop ?i (cSorted c)))"
  have sub: "set ?ks \<subseteq> set (cSorted c)" by (auto dest!: set_takeWhileD in_set_dropD)
  have "Suggest c pfx = take 64 (map (\<lambda>k. entryFromLocked c (cRecs c ! k)) ?ks)"
    using False by (simp add: Suggest_def prefixEntriesLocked_def prefix_loop_eq nm_def Let_def)
  also have "map (\<lambda>k. entryFromLocked c (cRecs c ! k)) ?ks = map (\<lambda>k. ?F (nm k)) ?ks"
    by (intro map_cong refl entry) (use sub in blast)
  also have "map (\<lambda>k. ?F (nm k)) ?ks = map ?F (map nm ?ks)" by simp
  also have "map nm ?ks = filter (\<lambda>x. x \<noteq> pfx) (filter (\<lambda>x. HasPrefix x pfx) ?L)"
    unfolding tw[symmetric] by (simp add: filter_map o_def)
  also have "\<dots> = filter (\<lambda>x. HasPrefix x pfx \<and> x \<noteq> pfx) ?L" by (simp add: conj_commute)
  also have "\<dots> = sorted_list_of_set (set (filter (\<lambda>x. HasPrefix x pfx \<and> x \<noteq> pfx) ?L))"
    using L(1,2) by (intro sorted_list_of_set.idem_if_sorted_distinct[symmetric] sorted_wrt_filter distinct_filter)
  also have "set (filter (\<lambda>x. HasPrefix x pfx \<and> x \<noteq> pfx) ?L) = {cmd \<in> dom (aInfo (abs_cache c)). HasPrefix cmd pfx \<and> cmd \<noteq> pfx}"
    using L(3) by auto
  finally show ?thesis using False by (simp add: a_suggest_def abs_cache_def take_map)
qed

text \<open>C5: After any sequence of cache operations that brings in fewer than \<open>2\<^sup>2\<^sup>9\<close> entries, the suggestions for a
  prefix are exactly those of the abstract cache: nothing while dirty, otherwise the first 64 known commands with
  the prefix in byte order, each with the summary of its latest run. The string pool, its compaction, the
  swap-removal of records and the binary search are invisible.\<close>

theorem Suggest_refines:
  assumes "sum_list (map op_weight ops) < 2 ^ 29"
  shows "Suggest (foldl cache_step NewCache ops) pfx = a_suggest (foldl a_step a_new ops) pfx"
  using cache_run_refines[OF new_rel, of ops] assms Suggest_eq[of "foldl cache_step NewCache ops" pfx]
  by (simp add: cache_rel_def)

definition cache_demo_entry :: "string \<Rightarrow> string \<Rightarrow> gotime \<Rightarrow> entry" where
  "cache_demo_entry i cmd ts = zero_entry\<lparr>eID := i, eCommand := cmd, eStartTS := ts, eCwd := ''/w'', eDeviceID := ''d''\<rparr>"

definition cache_demo :: "cache_op list" where
  "cache_demo = [OCreated (cache_demo_entry ''1'' ''git push'' 5000000), OCreated (cache_demo_entry ''2'' ''git pull'' 6000000),
     OCreated (cache_demo_entry ''3'' ''ls'' 7000000), OTombstoned [''2''], OCompact]"

theorem Suggest_refines_witness:
  "sum_list (map op_weight cache_demo) < 2 ^ 29 \<and>
   Suggest (foldl cache_step NewCache cache_demo) ''git'' = a_suggest (foldl a_step a_new cache_demo) ''git'' \<and>
   map eCommand (Suggest (foldl cache_step NewCache cache_demo) ''git'') = [''git push'']"
proof -
  have "sum_list (map op_weight cache_demo) < 2 ^ 29" by (simp add: cache_demo_def)
  moreover have "map eCommand (Suggest (foldl cache_step NewCache cache_demo) ''git'') = [''git push'']" by code_simp
  ultimately show ?thesis using Suggest_refines[of cache_demo "''git''"] by blast
qed

lemma AllUnique_eq:
  assumes "cache_ok c" "\<not> cDirty c"
  shows "set (AllUnique c) = {a_entry cmd v | cmd v. aInfo (abs_cache c) cmd = Some v}"
    "distinct (map eCommand (AllUnique c))"
proof -
  have "aInfo (abs_cache c) cmd = Some v \<longleftrightarrow> (\<exists>r \<in> set (cRecs c). (cmd, v) = view_rec (cPool c) r)" for cmd v
    using keys_distinct[OF assms(1)] by (auto simp: abs_cache_def map_of_eq_Some_iff)
  then show "set (AllUnique c) = {a_entry cmd v | cmd v. aInfo (abs_cache c) cmd = Some v}"
    using assms(2) by (auto simp: AllUnique_def entryFrom_info view_rec_def)
  show "distinct (map eCommand (AllUnique c))"
    using keys_distinct[OF assms(1)] assms(2) by (simp add: AllUnique_def entryFromLocked_def view_rec_def o_def)
qed

section \<open>A rebuilt cache\<close>

interpretation scan_less: strict_weak_less
  "\<lambda>a b. h_start_ts a < h_start_ts b \<or> h_start_ts a = h_start_ts b \<and> h_id a < h_id b" UNIV
  by unfold_locales auto

definition runs_of :: "string \<Rightarrow> entry list \<Rightarrow> entry list" where
  "runs_of cmd es = filter (\<lambda>e. eCommand e = cmd) es"

lemma runs_snoc: "runs_of cmd (es @ [e]) = (if eCommand e = cmd then runs_of cmd es @ [e] else runs_of cmd es)"
  by (simp add: runs_of_def)

lemma fold_created_info:
  assumes "sorted_wrt (\<lambda>a b. UnixMilli (eStartTS a) \<le> UnixMilli (eStartTS b)) es" "list_all (\<lambda>e. \<not> eDeleted e) es"
  shows "aInfo (foldl a_created a_new es) cmd =
    (if cmd = [] \<or> runs_of cmd es = [] then None
     else Some (fresh_info (last (runs_of cmd es)) (int (length (runs_of cmd es)))))"
  using assms
proof (induction es rule: rev_induct)
  case Nil
  then show ?case by (simp add: a_new_def runs_of_def)
next
  case (snoc e es)
  let ?a = "foldl a_created a_new es"
  have IH: "aInfo ?a c = (if c = [] \<or> runs_of c es = [] then None
     else Some (fresh_info (last (runs_of c es)) (int (length (runs_of c es)))))" if "c = cmd" for c
    using snoc that by (simp add: sorted_wrt_append)
  have le: "UnixMilli (eStartTS (last (runs_of c es))) \<le> UnixMilli (eStartTS e)" if "runs_of c es \<noteq> []" for c
    using snoc.prems(1) last_in_set[OF that] by (auto simp: sorted_wrt_append runs_of_def)
  show ?case
  proof (cases "eCommand e = cmd \<and> cmd \<noteq> []")
    case True
    then show ?thesis using IH[OF refl] le[of cmd] snoc.prems(2)
      by (cases "runs_of cmd es = []") (simp_all add: a_created_def[of ?a e] runs_snoc fresh_info_def)
  next
    case False
    then show ?thesis using IH[OF refl] by (auto simp: a_created_def[of ?a e] runs_snoc)
  qed
qed

text \<open>A rebuild that is not cancelled leaves one summary per live command of the database: it counts the live
  rows of the command and describes the newest of them; commands without live rows and the empty command have none.\<close>

theorem Rebuild_summarises_live_rows:
  assumes "length (ScanLive d) < 2 ^ 29"
  shows "aInfo (abs_cache (fst (Rebuild (\<lambda>_. None) d c))) cmd =
    (let runs = filter (\<lambda>e. eCommand e = cmd) (ScanLive d)
     in if cmd = [] \<or> runs = [] then None else Some (fresh_info (last runs) (int (length runs))))"
proof -
  let ?less = "\<lambda>a b. h_start_ts a < h_start_ts b \<or> h_start_ts a = h_start_ts b \<and> h_id a < h_id b"
  have "sorted_wrt (\<lambda>a b. \<not> ?less b a) (sort_by ?less (filter (\<lambda>r. \<not> h_deleted r) (history d)))"
    by (rule scan_less.sort_by_sorted) simp
  then have "sorted_wrt (\<lambda>a b. UnixMilli (eStartTS a) \<le> UnixMilli (eStartTS b)) (ScanLive d)"
    unfolding ScanLive_def scanEntries_def sorted_wrt_map by (rule sorted_wrt_mono_rel[rotated]) (auto simp: scanEntry_def)
  moreover have "list_all (\<lambda>e. \<not> eDeleted e) (ScanLive d)"
    by (auto simp: ScanLive_def scanEntries_def list_all_iff scanEntry_def)
  moreover have "abs_cache (fst (Rebuild (\<lambda>_. None) d c)) = foldl a_created a_new (ScanLive d)"
  proof -
    have "fst (Rebuild (\<lambda>_. None) d c) = fst (Rebuild (\<lambda>_. None) d NewCache)"
      by (simp add: Rebuild_def rebuild_scan_eq split: option.splits) (simp add: find_Some_iff)
    then show ?thesis using rel_rebuild[OF new_rel, of d "\<lambda>_. None"] assms by (simp add: cache_rel_def list_all_iff)
  qed
  ultimately show ?thesis using fold_created_info[of "ScanLive d" cmd] by (simp add: runs_of_def Let_def)
qed

definition cache_demo_row :: "string \<Rightarrow> int \<Rightarrow> bool \<Rightarrow> hist_row" where
  "cache_demo_row i ts del = \<lparr>h_id = i, h_command = ''ls'', h_command_hash = [], h_start_ts = ts, h_end_ts = None,
     h_duration_ms = None, h_exit_status = Some 0, h_cwd_id = None, h_session_id = None, h_hostname_id = None,
     h_device_id = ''d'', h_shell_id = None, h_deleted = del, h_origin_device_id = None, h_origin_seq = None, h_created_at = ts\<rparr>"

definition cache_demo_db :: db where
  "cache_demo_db = empty_db\<lparr>history := [cache_demo_row ''b'' 9 False, cache_demo_row ''a'' 5 False, cache_demo_row ''c'' 11 True]\<rparr>"

theorem Rebuild_summarises_live_rows_witness:
  "length (ScanLive cache_demo_db) < 2 ^ 29 \<and>
   map_option (\<lambda>v. (iFreq v, iLastStart v)) (aInfo (abs_cache (fst (Rebuild (\<lambda>_. None) cache_demo_db NewCache))) ''ls'') = Some (2, 9)"
proof -
  have live: "ScanLive cache_demo_db = map (scanEntry cache_demo_db) [cache_demo_row ''a'' 5 False, cache_demo_row ''b'' 9 False]"
    by (simp add: ScanLive_def cache_demo_db_def cache_demo_row_def scanEntries_def)
  then have "length (ScanLive cache_demo_db) < 2 ^ 29" by simp
  with Rebuild_summarises_live_rows[of cache_demo_db NewCache "''ls''"] live show ?thesis
    by (simp add: scanEntry_def cache_demo_row_def fresh_info_def)
qed

end
