(* ===== verification/Frontier.thy ===== *)
theory Frontier
  imports Prelude
begin

text \<open>
  Version vectors of \<^verbatim>\<open>internal/sync/merge/frontier.go\<close>: a \<^verbatim>\<open>Frontier\<close> maps a device to the last
  sequence number known from it, and a missing device reads as 0. The theory shows that frontiers
  with non-negative numbers form a join semilattice under \<open>Dominates\<close> with \<open>Union\<close> as join, that
  \<open>Missing\<close> lists exactly the sequence numbers one side lacks, and that \<open>Score\<close> respects dominance
  as long as its 64-bit sum does not overflow. Functions keep the source's names.
\<close>

type_synonym frontier = "(string \<times> int) list"

record range =
  rDeviceID :: string
  rStart :: int
  rEnd :: int

abbreviation fget :: "frontier \<Rightarrow> string \<Rightarrow> int" where
  "fget \<equiv> get_default 0"

section \<open>Operations\<close>

definition Clone :: "frontier \<Rightarrow> frontier" where
  "Clone f = fold (\<lambda>(k, v) out. map_put k v out) f []"

definition Advance :: "frontier \<Rightarrow> string \<Rightarrow> int \<Rightarrow> frontier" where
  "Advance f deviceID seq = (if seq > fget f deviceID then map_put deviceID seq f else f)"

fun missing_loop :: "frontier \<Rightarrow> frontier \<Rightarrow> range list" where
  "missing_loop local [] = []"
| "missing_loop local ((deviceID, remoteSeq) # rest) =
     (let localSeq = fget local deviceID
      in if remoteSeq > localSeq
         then \<lparr>rDeviceID = deviceID, rStart = localSeq + 1, rEnd = remoteSeq\<rparr> # missing_loop local rest
         else missing_loop local rest)"

definition Missing :: "frontier \<Rightarrow> frontier \<Rightarrow> range list" where
  "Missing local remote = sort_by (\<lambda>a b. rDeviceID a < rDeviceID b) (missing_loop local remote)"

definition Covers :: "frontier \<Rightarrow> string \<Rightarrow> int \<Rightarrow> bool" where
  "Covers f deviceID seq \<longleftrightarrow> fget f deviceID \<ge> seq"

fun Dominates :: "frontier \<Rightarrow> frontier \<Rightarrow> bool" where
  "Dominates a [] = True"
| "Dominates a ((i, seq) # b) = (if fget a i < seq then False else Dominates a b)"

definition Score :: "frontier \<Rightarrow> int" where
  "Score f = fold (\<lambda>(_, seq) n. wrap64 (n + seq)) f 0"

definition Union :: "frontier \<Rightarrow> frontier \<Rightarrow> frontier" where
  "Union a b = fold (\<lambda>(i, seq) out. if seq > fget out i then map_put i seq out else out) b (Clone a)"

section \<open>Well-formed frontiers\<close>

definition frontier_ok :: "frontier \<Rightarrow> bool" where
  "frontier_ok f \<longleftrightarrow> map_ok f \<and> (\<forall>(k, v) \<in> set f. 0 \<le> v)"

lemma frontier_ok_Nil [simp]: "frontier_ok []"
  by (simp add: frontier_ok_def)

lemma frontier_ok_map_ok [dest]: "frontier_ok f \<Longrightarrow> map_ok f"
  by (simp add: frontier_ok_def)

lemma fget_nonneg: "frontier_ok f \<Longrightarrow> 0 \<le> fget f d"
  unfolding get_default_def frontier_ok_def
  by (auto split: option.splits dest!: map_of_SomeD)

lemma frontier_ok_iff_fget:
  "map_ok f \<Longrightarrow> frontier_ok f \<longleftrightarrow> (\<forall>k v. map_of f k = Some v \<longrightarrow> 0 \<le> v)"
  unfolding frontier_ok_def by (auto dest: map_of_SomeD)

lemma frontier_okI: "map_ok f \<Longrightarrow> (\<And>k v. map_of f k = Some v \<Longrightarrow> 0 \<le> v) \<Longrightarrow> frontier_ok f"
  by (auto simp: frontier_ok_iff_fget)

lemma frontier_okD: "frontier_ok f \<Longrightarrow> map_of f k = Some v \<Longrightarrow> 0 \<le> v"
  using frontier_ok_iff_fget by blast

lemma frontier_ok_put: "frontier_ok f \<Longrightarrow> 0 \<le> s \<Longrightarrow> frontier_ok (map_put d s f)"
  by (rule frontier_okI) (auto simp: map_of_put dest: frontier_okD split: if_splits)

section \<open>Clone and Advance\<close>

lemma map_of_clone_fold:
  "map_ok f \<Longrightarrow> map_of (fold (\<lambda>(k, v) out. map_put k v out) f out) = map_of out ++ map_of f"
proof (induction f arbitrary: out)
  case (Cons p f)
  obtain k v where p: "p = (k, v)" by (cases p)
  with Cons.prems have "k \<notin> fst ` set f" "map_ok f" by auto
  then have "map_of f k = None" by (simp add: map_of_eq_None_iff)
  then show ?case using Cons.IH[OF \<open>map_ok f\<close>, of "map_put k v out"]
    by (auto simp: p fun_eq_iff map_add_def map_of_put split: option.splits)
qed simp

lemma map_of_Clone: "map_ok f \<Longrightarrow> map_of (Clone f) = map_of f"
  by (simp add: Clone_def map_of_clone_fold)

lemma map_ok_clone_fold: "map_ok out \<Longrightarrow> map_ok (fold (\<lambda>(k, v) out. map_put k v out) f out)"
  by (induction f arbitrary: out) auto

lemma map_ok_Clone [simp]: "map_ok (Clone f)"
  unfolding Clone_def by (rule map_ok_clone_fold) simp

lemma fget_Clone: "map_ok f \<Longrightarrow> fget (Clone f) = fget f"
  by (simp add: fun_eq_iff get_default_def map_of_Clone)

lemma frontier_ok_Clone: "frontier_ok f \<Longrightarrow> frontier_ok (Clone f)"
  by (rule frontier_okI, simp) (metis map_of_Clone frontier_okD frontier_ok_map_ok)

lemma fget_Advance:
  "fget (Advance f d s) d' = (if d' = d then max (fget f d) s else fget f d')"
  by (simp add: Advance_def)

lemma frontier_ok_Advance: "frontier_ok f \<Longrightarrow> frontier_ok (Advance f d s)"
proof -
  assume ok: "frontier_ok f"
  then have "0 \<le> fget f d" by (rule fget_nonneg)
  with ok show ?thesis unfolding Advance_def by (auto intro: frontier_ok_put)
qed

section \<open>Dominance\<close>

lemma Dominates_iff_all: "Dominates a b \<longleftrightarrow> (\<forall>(i, s) \<in> set b. s \<le> fget a i)"
  by (induction a b rule: Dominates.induct) auto

lemma Dominates_iff:
  assumes "map_ok b" and "frontier_ok a"
  shows "Dominates a b \<longleftrightarrow> (\<forall>i. fget b i \<le> fget a i)"
proof
  assume D: "Dominates a b"
  show "\<forall>i. fget b i \<le> fget a i"
  proof
    fix i
    show "fget b i \<le> fget a i"
      using D fget_nonneg[OF assms(2), of i]
      by (auto simp: Dominates_iff_all get_default_def[of 0 b] split: option.splits dest!: map_of_SomeD)
  qed
next
  assume le: "\<forall>i. fget b i \<le> fget a i"
  have "s \<le> fget a i" if "(i, s) \<in> set b" for i s
    using le get_default_in[OF assms(1) that, of 0] by metis
  then show "Dominates a b" by (auto simp: Dominates_iff_all)
qed

lemma Dominates_refl: "map_ok f \<Longrightarrow> Dominates f f"
  by (auto simp: Dominates_iff_all get_default_in)

lemma Dominates_trans:
  "frontier_ok a \<Longrightarrow> frontier_ok b \<Longrightarrow> frontier_ok c \<Longrightarrow>
   Dominates a b \<Longrightarrow> Dominates b c \<Longrightarrow> Dominates a c"
  using order_trans by (fastforce simp: Dominates_iff frontier_ok_map_ok)

lemma Dominates_perm: "mset b = mset b' \<Longrightarrow> Dominates a b = Dominates a b'"
  by (metis Dominates_iff_all set_mset_mset)

section \<open>Union\<close>

abbreviation union_step :: "string \<times> int \<Rightarrow> frontier \<Rightarrow> frontier" where
  "union_step \<equiv> \<lambda>(i, seq) out. if seq > fget out i then map_put i seq out else out"

lemma map_ok_union_fold: "map_ok out \<Longrightarrow> map_ok (fold union_step b out)"
  by (induction b arbitrary: out) auto

lemma fget_union_fold:
  "map_ok b \<Longrightarrow> fget (fold union_step b out) d =
       (if d \<in> fst ` set b then max (fget out d) (fget b d) else fget out d)"
proof (induction b arbitrary: out)
  case (Cons p b)
  obtain i s where p: "p = (i, s)" by (cases p)
  have ok: "map_ok b" and ni: "i \<notin> fst ` set b" using Cons.prems p by auto
  show ?case
    using Cons.IH[OF ok, of "union_step (i, s) out"] p ni
    by (auto simp: get_default_def[of 0 "(i, s) # b"] get_default_def[of 0 b])
qed simp

lemma map_ok_Union [simp]: "map_ok b \<Longrightarrow> map_ok (Union a b)"
  unfolding Union_def by (rule map_ok_union_fold) simp

lemma fget_Union:
  assumes "map_ok a" and "map_ok b" and "frontier_ok a"
  shows "fget (Union a b) d = max (fget a d) (fget b d)"
  using assms fget_nonneg[of a d] get_default_notin[of d b 0]
  by (auto simp: Union_def fget_union_fold fget_Clone)

lemma frontier_ok_Union_mono:
  assumes "frontier_ok a" and "map_ok b"
  shows "frontier_ok (Union a b)"
proof -
  have "\<And>k v. map_of (Union a b) k = Some v \<Longrightarrow> 0 \<le> v"
  proof -
    fix k v assume "map_of (Union a b) k = Some v"
    then have "v = fget (Union a b) k" by (simp add: get_default_def)
    also have "\<dots> = max (fget a k) (fget b k)"
      using assms by (intro fget_Union) (auto simp: frontier_ok_def)
    finally show "0 \<le> v" using fget_nonneg[OF assms(1), of k] by simp
  qed
  then show ?thesis using assms by (simp add: frontier_ok_iff_fget)
qed

lemma Union_least_upper:
  assumes "frontier_ok a" "frontier_ok b" "frontier_ok c"
  shows "Dominates c (Union a b) \<longleftrightarrow> Dominates c a \<and> Dominates c b"
  using assms by (auto simp: Dominates_iff fget_Union frontier_ok_map_ok)

section \<open>Missing\<close>

lemma set_missing_loop:
  "r \<in> set (missing_loop l rem) \<longleftrightarrow>
     (\<exists>s. (rDeviceID r, s) \<in> set rem \<and> fget l (rDeviceID r) < s \<and>
          rStart r = fget l (rDeviceID r) + 1 \<and> rEnd r = s)"
proof (induction l rem rule: missing_loop.induct)
  case (2 l d s rest)
  show ?case using 2[OF refl]
    by (cases r) (auto simp: Let_def)
qed simp

lemma distinct_missing_loop:
  "map_ok rem \<Longrightarrow> distinct (map rDeviceID (missing_loop l rem))"
  by (induction l rem rule: missing_loop.induct) (force simp: Let_def set_missing_loop)+

lemma missing_loop_perm: "mset rem = mset rem' \<Longrightarrow> mset (missing_loop l rem) = mset (missing_loop l rem')"
proof -
  have eq: "mset (missing_loop l xs) =
      image_mset (\<lambda>(d, s). \<lparr>rDeviceID = d, rStart = fget l d + 1, rEnd = s\<rparr>)
        (filter_mset (\<lambda>(d, s). fget l d < s) (mset xs))" for xs
    by (induction l xs rule: missing_loop.induct) (auto simp: Let_def)
  assume "mset rem = mset rem'"
  then show ?thesis by (simp add: eq)
qed

interpretation device_less: strict_weak_less "\<lambda>a b. rDeviceID a < rDeviceID b" UNIV
  by unfold_locales auto

section \<open>Score\<close>

lemma score_fold: "fold (\<lambda>(_, seq) n. wrap64 (n + seq)) f (wrap64 n) = wrap64 (n + sum_list (map snd f))"
proof (induction f arbitrary: n)
  case (Cons p f)
  then show ?case by (cases p) (simp add: wrap64_add_left add.assoc)
qed simp

lemma Score_eq: "Score f = wrap64 (sum_list (map snd f))"
proof -
  have "wrap64 0 = 0" by (simp add: wrap64_def)
  then show ?thesis using score_fold[of f 0] by (simp add: Score_def)
qed

lemma sum_list_fget:
  assumes "map_ok f" and "finite K" and "fst ` set f \<subseteq> K"
  shows "sum_list (map snd f) = (\<Sum>k\<in>K. fget f k)"
proof -
  have "sum_list (map snd f) = (\<Sum>k\<in>fst ` set f. fget f k)"
  proof -
    have "map snd f = map (fget f) (map fst f)"
      using assms(1) by (auto simp: get_default_in)
    then have "sum_list (map snd f) = sum_list (map (fget f) (map fst f))" by (rule arg_cong)
    also have "\<dots> = (\<Sum>k\<in>set (map fst f). fget f k)"
      using assms(1) by (rule sum_list_distinct_conv_sum_set)
    finally show ?thesis by simp
  qed
  also have "\<dots> = (\<Sum>k\<in>K. fget f k)"
    using assms(2,3) by (intro sum.mono_neutral_left) (auto simp: get_default_notin)
  finally show ?thesis .
qed

definition score_fits :: "frontier \<Rightarrow> bool" where
  "score_fits f \<longleftrightarrow> sum_list (map snd f) < 2 ^ 63"

lemma Score_fits:
  assumes "frontier_ok f" and "score_fits f"
  shows "Score f = sum_list (map snd f)"
proof -
  have "0 \<le> sum_list (map snd f)"
    using assms(1) by (intro sum_list_nonneg) (auto simp: frontier_ok_def)
  then show ?thesis using assms(2) by (simp add: Score_eq score_fits_def wrap64_id)
qed

lemma Dominates_Score:
  assumes ok: "frontier_ok a" "frontier_ok b" and fits: "score_fits a" "score_fits b"
    and dom: "Dominates a b"
  shows "Score b \<le> Score a" and "\<not> Dominates b a \<Longrightarrow> Score b < Score a"
proof -
  let ?K = "fst ` set a \<union> fst ` set b"
  have le: "\<forall>i. fget b i \<le> fget a i"
    using dom ok by (simp add: Dominates_iff frontier_ok_map_ok)
  have sa: "Score a = (\<Sum>k\<in>?K. fget a k)"
    unfolding Score_fits[OF ok(1) fits(1)] using ok by (intro sum_list_fget) auto
  have sb: "Score b = (\<Sum>k\<in>?K. fget b k)"
    unfolding Score_fits[OF ok(2) fits(2)] using ok by (intro sum_list_fget) auto
  show "Score b \<le> Score a" unfolding sa sb using le by (intro sum_mono) auto
  assume "\<not> Dominates b a"
  then obtain i where i: "fget b i < fget a i"
    using ok by (auto simp: Dominates_iff frontier_ok_map_ok not_le)
  then have "i \<in> ?K" using get_default_notin[of i a 0] get_default_notin[of i b 0] by fastforce
  then show "Score b < Score a" unfolding sa sb
    using le i by (intro sum_strict_mono_ex1) auto
qed

end
