(* ===== verification/Event.thy ===== *)
theory Event
  imports History_Store Frontier
begin

text \<open>
  Events and the event table: \<^verbatim>\<open>internal/sync/event/event.go\<close> and \<^verbatim>\<open>store.go\<close>, with the sync heads of
  \<^verbatim>\<open>internal/sync/merge/heads.go\<close>. The CBOR encoder (\<^verbatim>\<open>internal/cborx\<close> over a third-party package) is
  a parameter, a record of its marshal and unmarshal functions; the clock is an argument.
  History events are stored thin: the table keeps the id of the history row, and \<^verbatim>\<open>hydrate\<close> rebuilds
  the event from it.
\<close>

section \<open>Events and payloads\<close>

record event =
  evVersion :: int
  evType :: string
  evDeviceID :: string
  evSeq :: int
  evTimeUnix :: int
  evPayload :: bytes

record history_created =
  cID :: string
  cCommand :: string
  cStartTS :: int
  cEndTS :: int
  cDurationMs :: int
  cExitStatus :: "int option"
  cCwd :: string
  cSessionID :: string
  cHostname :: string
  cShell :: string

record history_tombstoned =
  tHistoryID :: string
  tOriginDeviceID :: string
  tOriginSeq :: int

record device_meta =
  mName :: string
  mHostname :: string
  mStatus :: string

record event_cbor =
  marshal_event :: "event \<Rightarrow> bytes result"
  unmarshal_event :: "bytes \<Rightarrow> event result"
  marshal_created :: "history_created \<Rightarrow> bytes result"
  unmarshal_created :: "bytes \<Rightarrow> history_created result"
  marshal_tombstoned :: "history_tombstoned \<Rightarrow> bytes result"
  unmarshal_tombstoned :: "bytes \<Rightarrow> history_tombstoned result"
  unmarshal_meta :: "bytes \<Rightarrow> device_meta result"

definition CurrentVersion :: int where
  "CurrentVersion = 1"

definition TypeHistoryCreated :: string where
  "TypeHistoryCreated = ''history-created''"

definition TypeHistoryTombstoned :: string where
  "TypeHistoryTombstoned = ''history-tombstoned''"

definition TypeDeviceMeta :: string where
  "TypeDeviceMeta = ''device-meta''"

definition TypeCheckpointRef :: string where
  "TypeCheckpointRef = ''checkpoint-ref''"

lemmas event_type_defs = TypeHistoryCreated_def TypeHistoryTombstoned_def TypeDeviceMeta_def
  TypeCheckpointRef_def

definition zero_event :: event where
  "zero_event = \<lparr>evVersion = 0, evType = [], evDeviceID = [], evSeq = 0, evTimeUnix = 0, evPayload = []\<rparr>"

definition Encode :: "event_cbor \<Rightarrow> event \<Rightarrow> bytes result" where
  "Encode c ev = marshal_event c (if evVersion ev = 0 then ev\<lparr>evVersion := CurrentVersion\<rparr> else ev)"

definition Decode :: "event_cbor \<Rightarrow> bytes \<Rightarrow> event result" where
  "Decode c b =
     bind_result (unmarshal_event c b) (\<lambda>ev.
       if evVersion ev \<noteq> CurrentVersion then Inl (Errorf ''unsupported event version'')
       else if evDeviceID ev = [] \<or> evSeq ev \<le> 0 \<or> evType ev = [] then Inl (Errorf ''malformed event'')
       else Inr ev)"

definition NewHistoryCreated :: "event_cbor \<Rightarrow> gotime \<Rightarrow> string \<Rightarrow> int \<Rightarrow> entry \<Rightarrow> event result" where
  "NewHistoryCreated c now deviceID seq e =
     bind_result
       (marshal_created c
         \<lparr>cID = eID e, cCommand = eCommand e, cStartTS = UnixMilli (eStartTS e),
          cEndTS = (case eEndTS e of None \<Rightarrow> 0 | Some t \<Rightarrow> UnixMilli t),
          cDurationMs = (case eDurationMs e of None \<Rightarrow> 0 | Some n \<Rightarrow> n),
          cExitStatus = eExitStatus e, cCwd = eCwd e, cSessionID = eSessionID e,
          cHostname = eHostname e, cShell = eShell e\<rparr>)
       (\<lambda>payload. Inr \<lparr>evVersion = CurrentVersion, evType = TypeHistoryCreated, evDeviceID = deviceID,
          evSeq = seq, evTimeUnix = UnixMilli now, evPayload = payload\<rparr>)"

definition DecodeHistoryCreated :: "event_cbor \<Rightarrow> event \<Rightarrow> history_created result" where
  "DecodeHistoryCreated c ev = unmarshal_created c (evPayload ev)"

definition NewHistoryTombstoned :: "event_cbor \<Rightarrow> gotime \<Rightarrow> string \<Rightarrow> int \<Rightarrow> history_tombstoned \<Rightarrow> event result" where
  "NewHistoryTombstoned c now deviceID seq p =
     bind_result (marshal_tombstoned c p)
       (\<lambda>payload. Inr \<lparr>evVersion = CurrentVersion, evType = TypeHistoryTombstoned, evDeviceID = deviceID,
          evSeq = seq, evTimeUnix = UnixMilli now, evPayload = payload\<rparr>)"

definition DecodeHistoryTombstoned :: "event_cbor \<Rightarrow> event \<Rightarrow> history_tombstoned result" where
  "DecodeHistoryTombstoned c ev = unmarshal_tombstoned c (evPayload ev)"

section \<open>The event table\<close>

abbreviation at_event :: "string \<Rightarrow> int \<Rightarrow> event_row \<Rightarrow> bool" where
  "at_event deviceID seq r \<equiv> ev_device_id r = deviceID \<and> ev_seq r = seq"

definition max_seq :: "int list \<Rightarrow> int option" where
  "max_seq xs = (case xs of [] \<Rightarrow> None | x # ys \<Rightarrow> Some (fold max ys x))"

definition head_of :: "db \<Rightarrow> string \<Rightarrow> int option" where
  "head_of d deviceID = map_of (sync_heads d) deviceID"

definition NextSeq :: "db \<Rightarrow> string \<Rightarrow> int" where
  "NextSeq d deviceID =
     (let eventMax = max_seq (map ev_seq (filter (\<lambda>r. ev_device_id r = deviceID) (sync_events d)));
          headMax = head_of d deviceID;
          n = (case eventMax of None \<Rightarrow> 0 | Some m \<Rightarrow> m);
          n' = (case headMax of None \<Rightarrow> n | Some h \<Rightarrow> if h > n then h else n)
      in n' + 1)"

definition historyIDOf :: "event_cbor \<Rightarrow> event \<Rightarrow> string" where
  "historyIDOf c ev =
     (if evType ev = TypeHistoryCreated then
        (case DecodeHistoryCreated c ev of Inr p \<Rightarrow> cID p | Inl _ \<Rightarrow> [])
      else if evType ev = TypeHistoryTombstoned then
        (case DecodeHistoryTombstoned c ev of Inr p \<Rightarrow> tHistoryID p | Inl _ \<Rightarrow> [])
      else [])"

definition ExistsTx :: "db \<Rightarrow> string \<Rightarrow> int \<Rightarrow> bool" where
  "ExistsTx d deviceID seq \<longleftrightarrow> length (filter (at_event deviceID seq) (sync_events d)) > 0"

definition AppendExec :: "event_cbor \<Rightarrow> db \<Rightarrow> event \<Rightarrow> db result" where
  "AppendExec c d ev =
     (let historyID = historyIDOf c ev
      in bind_result
           (if evType ev \<noteq> TypeHistoryCreated \<and> evType ev \<noteq> TypeHistoryTombstoned
            then bind_result (Encode c ev) (\<lambda>raw. Inr (Some raw)) else Inr None)
           (\<lambda>payload.
             if ExistsTx d (evDeviceID ev) (evSeq ev) then Inl (Errorf ''append event'')
             else Inr (d\<lparr>sync_events := sync_events d @
               [\<lparr>ev_device_id = evDeviceID ev, ev_seq = evSeq ev, ev_event_type = evType ev,
                 ev_history_id = nullString historyID, ev_payload = payload, ev_applied = False,
                 ev_created_at = evTimeUnix ev\<rparr>]\<rparr>)))"

definition MarkApplied :: "db \<Rightarrow> string \<Rightarrow> int \<Rightarrow> db" where
  "MarkApplied d deviceID seq =
     d\<lparr>sync_events := map (\<lambda>r. if at_event deviceID seq r then r\<lparr>ev_applied := True\<rparr> else r) (sync_events d)\<rparr>"

definition CompactCreated :: "db \<Rightarrow> string \<Rightarrow> int \<Rightarrow> db" where
  "CompactCreated d deviceID throughSeq =
     d\<lparr>sync_events := filter (\<lambda>r. \<not> (ev_device_id r = deviceID \<and> ev_seq r \<le> throughSeq
         \<and> ev_event_type r = TypeHistoryCreated \<and> ev_applied r)) (sync_events d)\<rparr>"

definition CompactUpToHeads :: "db \<Rightarrow> db" where
  "CompactUpToHeads d =
     d\<lparr>sync_events := filter (\<lambda>r. \<not> (ev_event_type r = TypeHistoryCreated \<and> ev_applied r
         \<and> ev_seq r \<le> get_default 0 (sync_heads d) (ev_device_id r))) (sync_events d)\<rparr>"

section \<open>Rebuilding thin events\<close>

definition rebuildCreated :: "event_cbor \<Rightarrow> gotime \<Rightarrow> db \<Rightarrow> string \<Rightarrow> int \<Rightarrow> string \<Rightarrow> event result" where
  "rebuildCreated c now d deviceID seq historyID =
     (case (case (if historyID \<noteq> [] then Get d historyID else None) of
              Some e \<Rightarrow> Some e | None \<Rightarrow> ByOrigin d deviceID seq) of
        None \<Rightarrow> Inr zero_event
      | Some e \<Rightarrow> bind_result (NewHistoryCreated c now deviceID seq e)
          (\<lambda>ev. Inr (ev\<lparr>evTimeUnix := UnixMilli (eCreatedAt e)\<rparr>)))"

definition rebuildTombstone :: "event_cbor \<Rightarrow> gotime \<Rightarrow> db \<Rightarrow> string \<Rightarrow> int \<Rightarrow> string \<Rightarrow> int \<Rightarrow> event result" where
  "rebuildTombstone c now d deviceID seq historyID createdAt =
     (let (hid, originDev, originSeq) =
        (case Get d historyID of
           None \<Rightarrow> (historyID, [], 0)
         | Some e \<Rightarrow> (if historyID = [] then eID e else historyID, eOriginDeviceID e,
                      case eOriginSeq e of None \<Rightarrow> 0 | Some s \<Rightarrow> s))
      in bind_result (NewHistoryTombstoned c now deviceID seq
            \<lparr>tHistoryID = hid, tOriginDeviceID = originDev, tOriginSeq = originSeq\<rparr>)
          (\<lambda>ev. Inr (if createdAt \<noteq> 0 then ev\<lparr>evTimeUnix := createdAt\<rparr> else ev)))"

definition hydrate :: "event_cbor \<Rightarrow> gotime \<Rightarrow> db \<Rightarrow> string \<Rightarrow> event_row \<Rightarrow> event result" where
  "hydrate c now d deviceID r =
     (let payload = (case ev_payload r of None \<Rightarrow> [] | Some b \<Rightarrow> b);
          historyID = stringOf (ev_history_id r); createdAt = ev_created_at r
      in if length payload > 0 then Decode c payload
         else if ev_event_type r = TypeHistoryCreated then
           bind_result (rebuildCreated c now d deviceID (ev_seq r) historyID)
             (\<lambda>ev. Inr (if createdAt \<noteq> 0 then ev\<lparr>evTimeUnix := createdAt\<rparr> else ev))
         else if ev_event_type r = TypeHistoryTombstoned then
           rebuildTombstone c now d deviceID (ev_seq r) historyID createdAt
         else Inl (Errorf ''missing payload''))"

fun scanHydrated :: "event_cbor \<Rightarrow> gotime \<Rightarrow> db \<Rightarrow> string \<Rightarrow> event_row list \<Rightarrow> event list result" where
  "scanHydrated c now d deviceID [] = Inr []"
| "scanHydrated c now d deviceID (r # rows) =
     bind_result (hydrate c now d deviceID r) (\<lambda>ev.
       bind_result (scanHydrated c now d deviceID rows) (\<lambda>out. Inr (ev # out)))"

definition event_order :: "event_row list \<Rightarrow> event_row list" where
  "event_order rows = sort_by (\<lambda>a b. ev_seq a < ev_seq b) rows"

definition UnappliedLocal :: "event_cbor \<Rightarrow> gotime \<Rightarrow> db \<Rightarrow> string \<Rightarrow> event list result" where
  "UnappliedLocal c now d deviceID =
     scanHydrated c now d deviceID
       (event_order (filter (\<lambda>r. ev_device_id r = deviceID \<and> \<not> ev_applied r) (sync_events d)))"

definition GetEvent :: "event_cbor \<Rightarrow> gotime \<Rightarrow> db \<Rightarrow> string \<Rightarrow> int \<Rightarrow> event option result" where
  "GetEvent c now d deviceID seq =
     (case find (at_event deviceID seq) (sync_events d) of
        Some r \<Rightarrow> bind_result (hydrate c now d deviceID r) (\<lambda>ev. Inr (Some ev))
      | None \<Rightarrow> bind_result (rebuildCreated c now d deviceID seq [])
          (\<lambda>ev. Inr (if evSeq ev = 0 then None else Some ev)))"

fun fill_created :: "event_cbor \<Rightarrow> gotime \<Rightarrow> string \<Rightarrow> entry list \<Rightarrow> (int \<times> event) list \<Rightarrow> (int \<times> event) list result" where
  "fill_created c now deviceID [] bySeq = Inr bySeq"
| "fill_created c now deviceID (e # es) bySeq =
     (case eOriginSeq e of
        None \<Rightarrow> fill_created c now deviceID es bySeq
      | Some seq \<Rightarrow>
          if map_of bySeq seq \<noteq> None then fill_created c now deviceID es bySeq
          else bind_result (NewHistoryCreated c now deviceID seq e) (\<lambda>ev.
            fill_created c now deviceID es
              (map_put seq (ev\<lparr>evTimeUnix := UnixMilli (eCreatedAt e)\<rparr>) bySeq)))"

definition EventRange :: "event_cbor \<Rightarrow> gotime \<Rightarrow> db \<Rightarrow> string \<Rightarrow> int \<Rightarrow> int \<Rightarrow> event list result" where
  "EventRange c now d deviceID start endS =
     bind_result
       (scanHydrated c now d deviceID
         (event_order (filter (\<lambda>r. ev_device_id r = deviceID \<and> start \<le> ev_seq r \<and> ev_seq r \<le> endS)
           (sync_events d))))
       (\<lambda>stored.
         bind_result
           (fill_created c now deviceID (ListByOriginRange d deviceID start endS)
             (fold (\<lambda>ev m. map_put (evSeq ev) ev m) stored []))
           (\<lambda>bySeq. Inr (map (\<lambda>seq. the (map_of bySeq seq)) (sort (map fst bySeq)))))"

section \<open>Heads\<close>

definition HeadGet :: "db \<Rightarrow> frontier" where
  "HeadGet d = fold (\<lambda>(i, seq) f. map_put i seq f) (sync_heads d) []"

definition HeadSet :: "db \<Rightarrow> string \<Rightarrow> int \<Rightarrow> db" where
  "HeadSet d deviceID seq =
     d\<lparr>sync_heads := (case map_of (sync_heads d) deviceID of
         None \<Rightarrow> map_put deviceID seq (sync_heads d)
       | Some old \<Rightarrow> if seq > old then map_put deviceID seq (sync_heads d) else sync_heads d)\<rparr>"

definition event_applied :: "db \<Rightarrow> string \<Rightarrow> int \<Rightarrow> bool" where
  "event_applied d deviceID seq \<longleftrightarrow>
     length (filter (\<lambda>r. at_event deviceID seq r \<and> ev_applied r) (sync_events d)) \<noteq> 0"

lemma event_applied_iff:
  "event_applied d dev s \<longleftrightarrow> (\<exists>r \<in> set (sync_events d). at_event dev s r \<and> ev_applied r)"
  by (auto simp: event_applied_def filter_empty_conv)

lemma HeadSet_events [simp]: "sync_events (HeadSet d dev s) = sync_events d"
  by (simp add: HeadSet_def)

lemma event_applied_HeadSet [simp]: "event_applied (HeadSet d dev s) = event_applied d"
  by (simp add: fun_eq_iff event_applied_def)

text \<open>
  The loop of \<^verbatim>\<open>AdvanceContiguous\<close>. Each round consumes one row of the event table, so the number of
  rows above the head bounds the rounds.
\<close>

function advance_loop :: "db \<Rightarrow> string \<Rightarrow> int \<Rightarrow> db" where
  "advance_loop d deviceID head =
     (let next = head + 1
      in if \<not> event_applied d deviceID next then d
         else advance_loop (HeadSet d deviceID next) deviceID next)"
  by pat_completeness auto
termination
proof (relation "measure (\<lambda>(d, deviceID, head). length (filter (\<lambda>r. ev_seq r > head) (sync_events d)))", goal_cases)
  case (2 d dev h x)
  then obtain r where r: "r \<in> set (sync_events d)" "ev_seq r = h + 1"
    by (auto simp: event_applied_iff)
  have "length (filter (\<lambda>r. h + 1 < ev_seq r) (sync_events d)) < length (filter (\<lambda>r. h < ev_seq r) (sync_events d))"
    using r
  proof (induction "sync_events d" arbitrary: d)
    case (Cons a xs)
    have le: "length (filter (\<lambda>r. h + 1 < ev_seq r) xs) \<le> length (filter (\<lambda>r. h < ev_seq r) xs)" for xs
      by (induction xs) auto
    show ?case
    proof (cases "r = a")
      case True
      with Cons.hyps(2)[symmetric] Cons.prems le[of xs] show ?thesis by auto
    next
      case False
      with Cons.prems Cons.hyps(2)[symmetric] have "r \<in> set (sync_events (d\<lparr>sync_events := xs\<rparr>))" by auto
      from Cons.hyps(1)[OF _ this Cons.prems(2)] show ?thesis
        using Cons.hyps(2)[symmetric] by auto
    qed
  qed simp
  with 2 show ?case by simp
qed simp

declare advance_loop.simps [simp del]

definition AdvanceContiguous :: "db \<Rightarrow> string \<Rightarrow> db" where
  "AdvanceContiguous d deviceID = advance_loop d deviceID (get_default 0 (sync_heads d) deviceID)"

section \<open>Facts about heads\<close>

lemma HeadSet_heads:
  "get_default 0 (sync_heads (HeadSet d dev s)) dev' =
     (if dev' = dev \<and> (map_of (sync_heads d) dev = None \<or> s > get_default 0 (sync_heads d) dev)
      then s else get_default 0 (sync_heads d) dev')"
  by (auto simp: HeadSet_def get_default_def map_of_put split: option.splits)

lemma HeadSet_history [simp]: "history (HeadSet d dev s) = history d" "view (HeadSet d dev s) = view d"
  by (simp_all add: HeadSet_def view_def scanEntries_def scanEntry_def)

lemma HeadSet_map_ok [simp]: "map_ok (sync_heads d) \<Longrightarrow> map_ok (sync_heads (HeadSet d dev s))"
  by (simp add: HeadSet_def split: option.splits)

lemma HeadGet_fget: "map_ok (sync_heads d) \<Longrightarrow> fget (HeadGet d) dev = get_default 0 (sync_heads d) dev"
  using fget_Clone[of "sync_heads d"] by (simp add: HeadGet_def Clone_def)

lemma advance_loop_spec:
  assumes "get_default 0 (sync_heads d) dev = h" and "0 \<le> h"
  shows "let h' = get_default 0 (sync_heads (advance_loop d dev h)) dev
         in h \<le> h' \<and> (\<forall>s. h < s \<and> s \<le> h' \<longrightarrow> event_applied d dev s) \<and> \<not> event_applied d dev (h' + 1)"
  using assms
proof (induction d dev h rule: advance_loop.induct)
  case (1 d dev h)
  show ?case
  proof (cases "event_applied d dev (h + 1)")
    case False
    then show ?thesis using 1 by (auto simp: advance_loop.simps[of d dev h] Let_def)
  next
    case True
    have "get_default 0 (sync_heads (HeadSet d dev (h + 1))) dev = h + 1"
      using "1.prems" by (auto simp: HeadSet_heads)
    from "1.IH"[OF refl _ this] True "1.prems" show ?thesis
      by (auto simp: advance_loop.simps[of d dev h] Let_def) (metis add1_zle_eq order_le_less)
  qed
qed

lemma advance_loop_other:
  "dev' \<noteq> dev \<Longrightarrow> get_default 0 (sync_heads (advance_loop d dev h)) dev' = get_default 0 (sync_heads d) dev'"
  by (induction d dev h rule: advance_loop.induct)
     (subst advance_loop.simps, auto simp: Let_def HeadSet_heads)

lemma advance_loop_events [simp]:
  "sync_events (advance_loop d dev h) = sync_events d"
  by (induction d dev h rule: advance_loop.induct) (subst advance_loop.simps, simp add: Let_def)

lemma AdvanceContiguous_events [simp]: "sync_events (AdvanceContiguous d dev) = sync_events d"
  by (simp add: AdvanceContiguous_def)

lemma advance_loop_view: "view (advance_loop d dev h) = view d"
  by (induction d dev h rule: advance_loop.induct) (subst advance_loop.simps, simp add: Let_def)

end
