(* ===== verification/Bundle.thy ===== *)
theory Bundle
  imports Event
begin

text \<open>
  The encrypted envelope (\<^verbatim>\<open>internal/crypto/envelope\<close>) and event bundles
  (\<^verbatim>\<open>internal/sync/bundle/bundle.go\<close>). XChaCha20-Poly1305 and the CBOR codec are parameters. The theory
  shows that what \<^verbatim>\<open>Pack\<close> writes \<^verbatim>\<open>Unpack\<close> and \<^verbatim>\<open>PeekHeader\<close> read back, and that a file \<^verbatim>\<open>Unpack\<close> accepts
  was sealed under exactly the header it carries.
\<close>

section \<open>The envelope\<close>

text \<open>\<open>newX\<close> is the error \<^verbatim>\<open>chacha20poly1305.NewX\<close> returns for a key; sealing itself cannot fail.\<close>

record aead =
  newX :: "bytes \<Rightarrow> go_error option"
  aeadSeal :: "bytes \<Rightarrow> bytes \<Rightarrow> bytes \<Rightarrow> bytes \<Rightarrow> bytes"
  aeadOpen :: "bytes \<Rightarrow> bytes \<Rightarrow> bytes \<Rightarrow> bytes \<Rightarrow> bytes result"

definition NonceSize :: nat where
  "NonceSize = 24"

definition Seal :: "aead \<Rightarrow> bytes \<Rightarrow> bytes \<Rightarrow> bytes \<Rightarrow> bytes \<Rightarrow> bytes result" where
  "Seal A key nonce plaintext ad =
     (case newX A key of
        Some e \<Rightarrow> Inl e
      | None \<Rightarrow>
          if length nonce \<noteq> NonceSize then Inl (Errorf (''nonce length '' @ show_nat (length nonce)))
          else Inr (aeadSeal A key nonce plaintext ad))"

definition Open :: "aead \<Rightarrow> bytes \<Rightarrow> bytes \<Rightarrow> bytes \<Rightarrow> bytes \<Rightarrow> bytes result" where
  "Open A key nonce ciphertext ad =
     (case newX A key of
        Some e \<Rightarrow> Inl e
      | None \<Rightarrow>
          (case aeadOpen A key nonce ciphertext ad of
             Inl e \<Rightarrow> Inl (Wrapped ''decrypt'' e)
           | Inr pt \<Rightarrow> Inr pt))"

text \<open>\<^verbatim>\<open>RandomNonce\<close> and \<^verbatim>\<open>GenerateSMK\<close>, with what \<^verbatim>\<open>rand.Read\<close> returns as an argument.\<close>

definition random_bytes :: "nat \<Rightarrow> (nat \<Rightarrow> bytes result) \<Rightarrow> bytes result" where
  "random_bytes n rand = rand n"

definition RandomNonce :: "(nat \<Rightarrow> bytes result) \<Rightarrow> bytes result" where
  "RandomNonce rand = random_bytes NonceSize rand"

definition SMKSize :: nat where
  "SMKSize = 32"

definition GenerateSMK :: "(nat \<Rightarrow> bytes result) \<Rightarrow> bytes result" where
  "GenerateSMK rand = random_bytes SMKSize rand"

text \<open>The two facts about the cipher the code relies on, at one key, nonce and additional data.\<close>

definition aead_opens :: "aead \<Rightarrow> bytes \<Rightarrow> bytes \<Rightarrow> bytes \<Rightarrow> bytes \<Rightarrow> bool" where
  "aead_opens A key nonce pt ad \<longleftrightarrow> aeadOpen A key nonce (aeadSeal A key nonce pt ad) ad = Inr pt"

lemma Open_Seal:
  assumes "Seal A key nonce pt ad = Inr ct" "aead_opens A key nonce pt ad"
  shows "Open A key nonce ct ad = Inr pt"
  using assms by (auto simp: Seal_def Open_def aead_opens_def split: option.splits if_splits)

section \<open>Bundles\<close>

record bundle_header =
  bhVersion :: int
  bhDeviceID :: string
  bhSeqStart :: int
  bhSeqEnd :: int
  bhEventCount :: int
  bhGenerationID :: string
  bhNonce :: bytes

record bundle_file =
  bfHeader :: bundle_header
  bfCiphertext :: bytes

record bundle_cbor =
  marshal_events :: "event list \<Rightarrow> bytes result"
  unmarshal_events :: "bytes \<Rightarrow> event list result"
  marshal_header :: "bundle_header \<Rightarrow> bytes result"
  marshal_file :: "bundle_file \<Rightarrow> bytes result"
  unmarshal_file :: "bytes \<Rightarrow> bundle_file result"

definition bundle_CurrentVersion :: int where
  "bundle_CurrentVersion = 1"

definition Pack :: "bundle_cbor \<Rightarrow> aead \<Rightarrow> (nat \<Rightarrow> bytes result) \<Rightarrow> string \<Rightarrow> string \<Rightarrow> event list \<Rightarrow> bytes
    \<Rightarrow> (bytes \<times> bundle_header) result" where
  "Pack B A rand deviceID generationID events smk =
     (if length events = 0 then Inl (Errorf ''empty bundle'')
      else
        bind_result (marshal_events B events) (\<lambda>payload.
        bind_result (RandomNonce rand) (\<lambda>nonce.
        let h = \<lparr>bhVersion = bundle_CurrentVersion, bhDeviceID = deviceID, bhSeqStart = evSeq (events ! 0),
                 bhSeqEnd = evSeq (events ! (length events - 1)), bhEventCount = int (length events),
                 bhGenerationID = generationID, bhNonce = nonce\<rparr>
        in bind_result (marshal_header B h) (\<lambda>ad.
           bind_result (Seal A smk nonce payload ad) (\<lambda>ct.
           bind_result (marshal_file B \<lparr>bfHeader = h, bfCiphertext = ct\<rparr>) (\<lambda>raw. Inr (raw, h)))))))"

definition PeekHeader :: "bundle_cbor \<Rightarrow> bytes \<Rightarrow> bundle_header result" where
  "PeekHeader B raw = bind_result (unmarshal_file B raw) (\<lambda>f. Inr (bfHeader f))"

definition Unpack :: "bundle_cbor \<Rightarrow> aead \<Rightarrow> bytes \<Rightarrow> bytes \<Rightarrow> (bundle_header \<times> event list) result" where
  "Unpack B A raw smk =
     (case unmarshal_file B raw of
        Inl e \<Rightarrow> Inl (Wrapped ''bundle'' e)
      | Inr f \<Rightarrow>
          if bhVersion (bfHeader f) \<noteq> bundle_CurrentVersion
          then Inl (Errorf (''unsupported bundle version '' @ show_int (bhVersion (bfHeader f))))
          else
            bind_result (marshal_header B (bfHeader f)) (\<lambda>ad.
            bind_result (Open A smk (bhNonce (bfHeader f)) (bfCiphertext f) ad) (\<lambda>pt.
            case unmarshal_events B pt of
              Inl e \<Rightarrow> Inl (Wrapped ''bundle payload'' e)
            | Inr events \<Rightarrow>
                if int (length events) \<noteq> bhEventCount (bfHeader f) then Inl (Errorf ''event count mismatch'')
                else Inr (bfHeader f, events))))"

text \<open>\<open>sha256\<close> gives the digest; \<^verbatim>\<open>hex.EncodeToString\<close> writes each byte as two digits.\<close>

definition hex_digit :: "nat \<Rightarrow> char" where
  "hex_digit n = ''0123456789abcdef'' ! n"

definition hex_encode :: "bytes \<Rightarrow> string" where
  "hex_encode bs = concat (map (\<lambda>b. [hex_digit (unat b div 16), hex_digit (unat b mod 16)]) bs)"

definition IntegrityID :: "(bytes \<Rightarrow> bytes) \<Rightarrow> bytes \<Rightarrow> string" where
  "IntegrityID sha256 raw = hex_encode (sha256 raw)"

definition Filename :: "(bytes \<Rightarrow> bytes) \<Rightarrow> bytes \<Rightarrow> string" where
  "Filename sha256 raw = IntegrityID sha256 raw @ ''.bundle''"

definition EqualHeader :: "bundle_header \<Rightarrow> bundle_header \<Rightarrow> bool" where
  "EqualHeader a b \<longleftrightarrow> bhDeviceID a = bhDeviceID b \<and> bhSeqStart a = bhSeqStart b \<and> bhSeqEnd a = bhSeqEnd b
     \<and> bhNonce a = bhNonce b"

section \<open>Reading back what was written\<close>

lemma Pack_parts:
  assumes "Pack B A rand dev gen events smk = Inr (raw, h)"
  obtains payload nonce ad ct where "events \<noteq> []" "marshal_events B events = Inr payload" "RandomNonce rand = Inr nonce"
    "h = \<lparr>bhVersion = bundle_CurrentVersion, bhDeviceID = dev, bhSeqStart = evSeq (hd events),
          bhSeqEnd = evSeq (last events), bhEventCount = int (length events), bhGenerationID = gen, bhNonce = nonce\<rparr>"
    "marshal_header B h = Inr ad" "Seal A smk nonce payload ad = Inr ct"
    "marshal_file B \<lparr>bfHeader = h, bfCiphertext = ct\<rparr> = Inr raw"
  using assms by (auto simp: Pack_def Let_def bind_result_Inr hd_conv_nth last_conv_nth split: if_splits)

text \<open>C17: What \<^verbatim>\<open>Pack\<close> writes, \<^verbatim>\<open>Unpack\<close> reads back: the same events under a header that names their device, their
  first and last sequence number, their number and the generation; \<^verbatim>\<open>PeekHeader\<close> sees that header without the key.
  The codec is assumed to decode what it encoded and the cipher to open what it sealed, for this bundle.\<close>

theorem Unpack_Pack:
  assumes "Pack B A rand dev gen events smk = Inr (raw, h)"
    and "\<And>f. marshal_file B f = Inr raw \<Longrightarrow> unmarshal_file B raw = Inr f"
    and "\<And>p. marshal_events B events = Inr p \<Longrightarrow> unmarshal_events B p = Inr events"
    and "\<And>p ad. aead_opens A smk (bhNonce h) p ad"
  shows "Unpack B A raw smk = Inr (h, events) \<and> PeekHeader B raw = Inr h \<and> bhDeviceID h = dev \<and> bhGenerationID h = gen \<and>
    bhSeqStart h = evSeq (hd events) \<and> bhSeqEnd h = evSeq (last events) \<and> bhEventCount h = int (length events)"
proof -
  obtain payload nonce ad ct where p: "events \<noteq> []" "marshal_events B events = Inr payload" "RandomNonce rand = Inr nonce"
    "h = \<lparr>bhVersion = bundle_CurrentVersion, bhDeviceID = dev, bhSeqStart = evSeq (hd events),
          bhSeqEnd = evSeq (last events), bhEventCount = int (length events), bhGenerationID = gen, bhNonce = nonce\<rparr>"
    "marshal_header B h = Inr ad" "Seal A smk nonce payload ad = Inr ct"
    "marshal_file B \<lparr>bfHeader = h, bfCiphertext = ct\<rparr> = Inr raw"
    by (rule Pack_parts[OF assms(1)])
  have "bhNonce h = nonce" "bhVersion h = bundle_CurrentVersion" using p(4) by simp_all
  with Open_Seal[OF p(6)] assms(4) have "Open A smk (bhNonce h) ct ad = Inr payload" by simp
  with assms(2)[OF p(7)] assms(3)[OF p(2)] p(4,5) show ?thesis
    by (simp add: Unpack_def PeekHeader_def)
qed

text \<open>A bundle that \<^verbatim>\<open>Unpack\<close> accepts under a key is authentic: its version is known, its ciphertext is the sealing,
  under that key, of the encoded events it returns with the encoded header as additional data, and the header's
  count is the number of events. The cipher is assumed to open only what is a sealing.\<close>

theorem Unpack_authentic:
  assumes "Unpack B A raw smk = Inr (h, events)"
    and "\<And>n ct ad pt. aeadOpen A smk n ct ad = Inr pt \<Longrightarrow> ct = aeadSeal A smk n pt ad"
  shows "\<exists>ad pt. unmarshal_file B raw = Inr \<lparr>bfHeader = h, bfCiphertext = aeadSeal A smk (bhNonce h) pt ad\<rparr> \<and>
    marshal_header B h = Inr ad \<and> unmarshal_events B pt = Inr events \<and> bhVersion h = 1 \<and>
    bhEventCount h = int (length events)"
proof -
  from assms(1) obtain f where f: "unmarshal_file B raw = Inr f" by (auto simp: Unpack_def split: sum.splits)
  with assms(1) obtain ad pt where "bfHeader f = h" "bhVersion h = bundle_CurrentVersion" "marshal_header B h = Inr ad"
    "Open A smk (bhNonce h) (bfCiphertext f) ad = Inr pt" "unmarshal_events B pt = Inr events" "bhEventCount h = int (length events)"
    by (auto simp: Unpack_def result_Inr)
  moreover from this(4) have "bfCiphertext f = aeadSeal A smk (bhNonce h) pt ad"
    using assms(2) by (auto simp: Open_def split: option.splits sum.splits)
  ultimately show ?thesis using f unfolding bundle_CurrentVersion_def by (metis (full_types) bundle_file.surjective old.unit.exhaust)
qed

section \<open>A concrete codec\<close>

text \<open>A toy cipher that appends key, nonce and additional data, and a codec for one bundle, for the witnesses.\<close>

definition demo_aead :: aead where
  "demo_aead = \<lparr>newX = (\<lambda>k. if length k = 32 then None else Some (Errorf ''bad key length'')),
     aeadSeal = (\<lambda>k n p ad. p @ k @ n @ ad),
     aeadOpen = (\<lambda>k n c ad. let t = k @ n @ ad; m = length c - length t
        in if length t \<le> length c \<and> drop m c = t then Inr (take m c) else Inl (Errorf ''message authentication failed''))\<rparr>"

lemma demo_aead_opens: "aead_opens demo_aead k n p ad"
  by (simp add: aead_opens_def demo_aead_def Let_def)

lemma demo_aead_authentic: "aeadOpen demo_aead k n ct ad = Inr pt \<Longrightarrow> ct = aeadSeal demo_aead k n pt ad"
  by (auto simp: demo_aead_def Let_def split: if_splits) (metis append_take_drop_id)

definition demo_events :: "event list" where
  "demo_events = [\<lparr>evVersion = 1, evType = TypeHistoryCreated, evDeviceID = ''A'', evSeq = 3, evTimeUnix = 5, evPayload = [1]\<rparr>,
     \<lparr>evVersion = 1, evType = TypeHistoryCreated, evDeviceID = ''A'', evSeq = 4, evTimeUnix = 6, evPayload = [2]\<rparr>]"

definition demo_key :: bytes where
  "demo_key = replicate 32 7"

definition demo_rand :: "nat \<Rightarrow> bytes result" where
  "demo_rand n = Inr (replicate n 9)"

definition demo_header :: bundle_header where
  "demo_header = \<lparr>bhVersion = 1, bhDeviceID = ''A'', bhSeqStart = 3, bhSeqEnd = 4, bhEventCount = 2, bhGenerationID = ''g'',
     bhNonce = replicate 24 9\<rparr>"

definition demo_file :: bundle_file where
  "demo_file = \<lparr>bfHeader = demo_header, bfCiphertext = [1] @ demo_key @ replicate 24 9 @ [2]\<rparr>"

definition demo_bundle_cbor :: bundle_cbor where
  "demo_bundle_cbor = \<lparr>marshal_events = (\<lambda>es. if es = demo_events then Inr [1] else Inl (Errorf ''cbor'')),
     unmarshal_events = (\<lambda>b. if b = [1] then Inr demo_events else Inl (Errorf ''cbor'')),
     marshal_header = (\<lambda>h. if h = demo_header then Inr [2] else Inl (Errorf ''cbor'')),
     marshal_file = (\<lambda>f. if f = demo_file then Inr [3] else Inl (Errorf ''cbor'')),
     unmarshal_file = (\<lambda>b. if b = [3] then Inr demo_file else Inl (Errorf ''cbor''))\<rparr>"

lemma demo_Pack: "Pack demo_bundle_cbor demo_aead demo_rand ''A'' ''g'' demo_events demo_key = Inr ([3], demo_header)"
proof -
  have e: "demo_events \<noteq> []" "length demo_events = 2" "evSeq (demo_events ! 0) = 3" "evSeq (demo_events ! 1) = 4"
    by (simp_all add: demo_events_def)
  show ?thesis
    by (simp add: Pack_def demo_bundle_cbor_def e RandomNonce_def random_bytes_def demo_rand_def NonceSize_def
        bundle_CurrentVersion_def demo_header_def[symmetric] Seal_def demo_aead_def demo_key_def e(4)[unfolded One_nat_def])
       (simp add: demo_file_def demo_key_def)
qed

theorem Unpack_Pack_witness:
  "Pack demo_bundle_cbor demo_aead demo_rand ''A'' ''g'' demo_events demo_key = Inr ([3], demo_header) \<and>
   Unpack demo_bundle_cbor demo_aead [3] demo_key = Inr (demo_header, demo_events)"
proof -
  have "\<And>f. marshal_file demo_bundle_cbor f = Inr [3] \<Longrightarrow> unmarshal_file demo_bundle_cbor [3] = Inr f"
    "\<And>p. marshal_events demo_bundle_cbor demo_events = Inr p \<Longrightarrow> unmarshal_events demo_bundle_cbor p = Inr demo_events"
    by (simp_all add: demo_bundle_cbor_def split: if_splits)
  from Unpack_Pack[OF demo_Pack this demo_aead_opens] demo_Pack show ?thesis by simp
qed

theorem Unpack_authentic_witness:
  "\<exists>ad pt. unmarshal_file demo_bundle_cbor [3] =
      Inr \<lparr>bfHeader = demo_header, bfCiphertext = aeadSeal demo_aead demo_key (bhNonce demo_header) pt ad\<rparr> \<and>
    marshal_header demo_bundle_cbor demo_header = Inr ad \<and> unmarshal_events demo_bundle_cbor pt = Inr demo_events \<and>
    bhVersion demo_header = 1 \<and> bhEventCount demo_header = int (length demo_events)"
proof -
  have "Unpack demo_bundle_cbor demo_aead [3] demo_key = Inr (demo_header, demo_events)"
    by (simp add: Unpack_def demo_bundle_cbor_def demo_file_def demo_header_def bundle_CurrentVersion_def Open_def
        demo_aead_def demo_key_def demo_events_def)
  from Unpack_authentic[OF this demo_aead_authentic] show ?thesis .
qed

end
