(* ===== verification/Keys.thy ===== *)
theory Keys
  imports Bundle
begin

text \<open>
  Key generations and unlock slots: \<^verbatim>\<open>internal/crypto/slots\<close>, \<^verbatim>\<open>generations\<close>, \<^verbatim>\<open>recovery\<close>, \<^verbatim>\<open>fido2\<close>, \<^verbatim>\<open>piv\<close>,
  \<^verbatim>\<open>rotation\<close>, and the wrapping half of \<^verbatim>\<open>keys/store.go\<close>. A generation manifest lists slots, each the symmetric master
  key wrapped for one way to unlock it, under a MAC derived from that key. The theory shows that what is
  wrapped unwraps, that signed manifests verify, and that no slot operation locks the owner out.
  The primitives (HKDF, HMAC, RSA, ECDH, bech32, JSON, random bytes, UUIDs) and the hardware tokens are parameters.
\<close>

section \<open>Slots and manifests\<close>

record slot =
  slID :: string
  slType :: string
  slGenerationID :: string
  slWrapParams :: bytes
  slWrappedSMK :: bytes
  slStatus :: string
  slCreatedAt :: int
  slLabel :: string

definition TypeRecovery :: string where
  "TypeRecovery = ''recovery''"

definition TypeYubiKey :: string where
  "TypeYubiKey = ''yubikey-piv''"

definition TypeFIDO2Hmac :: string where
  "TypeFIDO2Hmac = ''fido2-hmac''"

definition SlotActive :: string where
  "SlotActive = ''active''"

definition SlotRevoked :: string where
  "SlotRevoked = ''revoked''"

lemmas slot_const_defs = TypeRecovery_def TypeYubiKey_def TypeFIDO2Hmac_def SlotActive_def SlotRevoked_def

definition Active :: "slot list \<Rightarrow> slot list" where
  "Active sls = filter (\<lambda>s. slStatus s = SlotActive) sls"

definition OfType :: "slot list \<Rightarrow> string \<Rightarrow> slot list" where
  "OfType sls ty = filter (\<lambda>s. slType s = ty \<and> slStatus s = SlotActive) sls"

record gen_manifest =
  gmVersion :: int
  gmGenerationID :: string
  gmSeq :: int
  gmCounter :: int
  gmActive :: bool
  gmSlots :: "slot list"
  gmMAC :: string

definition gen_CurrentVersion :: int where
  "gen_CurrentVersion = 1"

definition zero_gen :: gen_manifest where
  "zero_gen = \<lparr>gmVersion = 0, gmGenerationID = [], gmSeq = 0, gmCounter = 0, gmActive = False, gmSlots = [], gmMAC = []\<rparr>"

text \<open>
  The primitives. \<open>hkdf secret salt info n\<close> reads \<open>n\<close> bytes; \<open>krand i n\<close> is the \<open>i\<close>-th draw of \<open>n\<close> random bytes of an operation,
  \<open>kuuid i\<close> its \<open>i\<close>-th UUID.
\<close>

record wrap_params =
  wpVersion :: int
  wpRPID :: string
  wpCredentialID :: bytes
  wpSalt :: bytes
  wpAAGUID :: string
  wpProduct :: string

record key_env =
  hkdf :: "bytes \<Rightarrow> bytes \<Rightarrow> bytes \<Rightarrow> nat \<Rightarrow> bytes result"
  hmac256 :: "bytes \<Rightarrow> bytes \<Rightarrow> bytes"
  kaead :: aead
  krand :: "nat \<Rightarrow> nat \<Rightarrow> bytes result"
  kuuid :: "nat \<Rightarrow> string result"
  know :: gotime
  json_gen :: "gen_manifest \<Rightarrow> bytes result"
  json_wrap_params :: "wrap_params \<Rightarrow> bytes result"
  unjson_wrap_params :: "bytes \<Rightarrow> wrap_params result"
  json_token_meta :: "string \<Rightarrow> string \<Rightarrow> bytes"
  bech32_encode :: "string \<Rightarrow> bytes \<Rightarrow> string result"
  rsa_oaep :: "bytes \<Rightarrow> bytes \<Rightarrow> bytes \<Rightarrow> bytes result"
  ecdh_exchange :: "bytes \<Rightarrow> (bytes \<times> bytes) result"

section \<open>Signing manifests\<close>

definition str_bytes :: "string \<Rightarrow> bytes" where
  "str_bytes s = map (\<lambda>c. word_of_nat (of_char c)) s"

text \<open>\<^verbatim>\<open>macKey\<close> ignores an error of the reader: the key keeps its zero bytes.\<close>

definition mac_key :: "key_env \<Rightarrow> string \<Rightarrow> bytes \<Rightarrow> bytes" where
  "mac_key K salt smk =
     (case hkdf K smk (str_bytes salt) (str_bytes ''mac-v1'') 32 of Inr key \<Rightarrow> key | Inl _ \<Rightarrow> replicate 32 0)"

definition Sign :: "key_env \<Rightarrow> gen_manifest \<Rightarrow> bytes \<Rightarrow> gen_manifest result" where
  "Sign K m smk =
     bind_result (json_gen K (m\<lparr>gmMAC := []\<rparr>)) (\<lambda>body.
       Inr (m\<lparr>gmMAC := hex_encode (hmac256 K (mac_key K ''remnix-manifest'' smk) body)\<rparr>))"

definition Verify :: "key_env \<Rightarrow> gen_manifest \<Rightarrow> bytes \<Rightarrow> go_error option" where
  "Verify K m smk =
     (case json_gen K (m\<lparr>gmMAC := []\<rparr>) of
        Inl e \<Rightarrow> Some e
      | Inr body \<Rightarrow>
          if hex_encode (hmac256 K (mac_key K ''remnix-manifest'' smk) body) \<noteq> gmMAC m
          then Some (Errorf ''manifest mac mismatch'')
          else if gmVersion m \<noteq> gen_CurrentVersion
          then Some (Errorf (''unsupported generation version '' @ show_int (gmVersion m)))
          else None)"

section \<open>Wrapping the master key\<close>

text \<open>\<^verbatim>\<open>recovery.WrapSMK\<close> and \<^verbatim>\<open>fido2.WrapSMK\<close> differ in the salt and the additional data only.\<close>

definition wrap_key :: "key_env \<Rightarrow> string \<Rightarrow> bytes \<Rightarrow> bytes result" where
  "wrap_key K salt secret = hkdf K secret (str_bytes salt) (str_bytes ''wrap-v1'') SMKSize"

definition wrap_smk :: "key_env \<Rightarrow> string \<Rightarrow> string \<Rightarrow> nat \<Rightarrow> bytes \<Rightarrow> bytes \<Rightarrow> bytes result" where
  "wrap_smk K salt ad i secret smk =
     bind_result (wrap_key K salt secret) (\<lambda>key.
     bind_result (RandomNonce (krand K i)) (\<lambda>nonce.
     bind_result (Seal (kaead K) key nonce smk (str_bytes ad)) (\<lambda>ct. Inr (nonce @ ct))))"

definition unwrap_smk :: "key_env \<Rightarrow> string \<Rightarrow> string \<Rightarrow> bytes \<Rightarrow> bytes \<Rightarrow> bytes result" where
  "unwrap_smk K salt ad secret wrapped =
     (if length wrapped < NonceSize + 1 then Inl (Errorf ''wrapped smk too short'')
      else bind_result (wrap_key K salt secret) (\<lambda>key.
             Open (kaead K) key (take NonceSize wrapped) (drop NonceSize wrapped) (str_bytes ad)))"

definition recovery_WrapSMK :: "key_env \<Rightarrow> nat \<Rightarrow> bytes \<Rightarrow> bytes \<Rightarrow> bytes result" where
  "recovery_WrapSMK K = wrap_smk K ''remnix-recovery'' ''remnix-recovery-slot''"

definition recovery_UnwrapSMK :: "key_env \<Rightarrow> bytes \<Rightarrow> bytes \<Rightarrow> bytes result" where
  "recovery_UnwrapSMK K = unwrap_smk K ''remnix-recovery'' ''remnix-recovery-slot''"

definition fido2_WrapSMK :: "key_env \<Rightarrow> nat \<Rightarrow> bytes \<Rightarrow> bytes \<Rightarrow> bytes result" where
  "fido2_WrapSMK K = wrap_smk K ''remnix-fido2-hmac'' ''remnix-fido2-hmac-slot''"

definition fido2_UnwrapSMK :: "key_env \<Rightarrow> bytes \<Rightarrow> bytes \<Rightarrow> bytes result" where
  "fido2_UnwrapSMK K = unwrap_smk K ''remnix-fido2-hmac'' ''remnix-fido2-hmac-slot''"

definition recovery_Generate :: "key_env \<Rightarrow> nat \<Rightarrow> bytes result" where
  "recovery_Generate K i = krand K i 32"

definition recovery_Encode :: "key_env \<Rightarrow> bytes \<Rightarrow> string result" where
  "recovery_Encode K secret = bech32_encode K ''remnix'' secret"

text \<open>PIV tokens: an interface value; the two kinds of public keys the code knows.\<close>

datatype public_key = RSAKey bytes | ECDSAKey bytes | OtherKey string

record token =
  tkSerial :: string
  tkLabel :: string
  tkPublic :: "public_key result"
  tkDecrypt :: "bytes \<Rightarrow> bytes result"

definition wrapECDH :: "key_env \<Rightarrow> nat \<Rightarrow> bytes \<Rightarrow> bytes \<Rightarrow> (bytes \<times> bytes) result" where
  "wrapECDH K i pub smk =
     bind_result (ecdh_exchange K pub) (\<lambda>(eph, secret).
     bind_result (wrap_key K ''remnix-piv'' secret) (\<lambda>key.
     bind_result (RandomNonce (krand K i)) (\<lambda>nonce.
     bind_result (Seal (kaead K) key nonce smk (str_bytes ''remnix-piv-ecdh'')) (\<lambda>ct.
       Inr (str_bytes (''{\"alg\":\"ecdh-xchacha20\",\"eph\":\"'' @ hex_encode eph @ ''\"}''), nonce @ ct)))))"

definition piv_WrapSMK :: "key_env \<Rightarrow> nat \<Rightarrow> public_key \<Rightarrow> bytes \<Rightarrow> (bytes \<times> bytes) result" where
  "piv_WrapSMK K i pub smk =
     (case pub of
        RSAKey k \<Rightarrow> bind_result (rsa_oaep K k smk (str_bytes ''remnix-piv''))
                      (\<lambda>ct. Inr (str_bytes ''{\"alg\":\"rsa-oaep-sha256\"}'', ct))
      | ECDSAKey k \<Rightarrow> wrapECDH K i k smk
      | OtherKey t \<Rightarrow> Inl (Errorf (''unsupported public key type '' @ t)))"

text \<open>FIDO2 authenticators.\<close>

record enrollment =
  enCredentialID :: bytes
  enSalt :: bytes
  enSecret :: bytes
  enAAGUID :: string
  enProduct :: string
  enRPID :: string

record fido_device =
  fdEnroll :: "enrollment result"
  fdDerive :: "bytes \<Rightarrow> bytes \<Rightarrow> bytes result"

section \<open>New slots\<close>

definition new_slot :: "key_env \<Rightarrow> nat \<Rightarrow> string \<Rightarrow> string \<Rightarrow> bytes \<Rightarrow> bytes \<Rightarrow> string \<Rightarrow> slot result" where
  "new_slot K i ty generationID params wrapped label =
     bind_result (kuuid K i) (\<lambda>uid.
       Inr \<lparr>slID = uid, slType = ty, slGenerationID = generationID, slWrapParams = params, slWrappedSMK = wrapped,
            slStatus = SlotActive, slCreatedAt = UnixMilli (know K), slLabel = label\<rparr>)"

definition NewRecoverySlot :: "key_env \<Rightarrow> nat \<Rightarrow> string \<Rightarrow> bytes \<Rightarrow> bytes \<Rightarrow> slot result" where
  "NewRecoverySlot K i generationID smk secret =
     bind_result (recovery_WrapSMK K i secret smk) (\<lambda>wrapped.
       new_slot K i TypeRecovery generationID [] wrapped [])"

definition NewYubiKeySlot :: "key_env \<Rightarrow> nat \<Rightarrow> string \<Rightarrow> bytes \<Rightarrow> token \<Rightarrow> slot result" where
  "NewYubiKeySlot K i generationID smk tok =
     bind_result (tkPublic tok) (\<lambda>pub.
     bind_result (piv_WrapSMK K i pub smk) (\<lambda>(params, wrapped).
       new_slot K i TypeYubiKey generationID (params @ [0] @ json_token_meta K (tkSerial tok) (tkLabel tok)) wrapped (tkSerial tok)))"

definition newFIDO2SlotFromEnrollment :: "key_env \<Rightarrow> nat \<Rightarrow> string \<Rightarrow> bytes \<Rightarrow> enrollment \<Rightarrow> slot result" where
  "newFIDO2SlotFromEnrollment K i generationID smk enr =
     bind_result (fido2_WrapSMK K i (enSecret enr) smk) (\<lambda>wrapped.
       let rpid = (if enRPID enr = [] then ''remnix'' else enRPID enr)
       in bind_result (json_wrap_params K \<lparr>wpVersion = 1, wpRPID = rpid, wpCredentialID = enCredentialID enr,
              wpSalt = enSalt enr, wpAAGUID = enAAGUID enr, wpProduct = enProduct enr\<rparr>) (\<lambda>params.
            new_slot K i TypeFIDO2Hmac generationID params wrapped (enProduct enr)))"

definition NewFIDO2Slot :: "key_env \<Rightarrow> nat \<Rightarrow> string \<Rightarrow> bytes \<Rightarrow> fido_device \<Rightarrow> slot result" where
  "NewFIDO2Slot K i generationID smk dev =
     bind_result (fdEnroll dev) (newFIDO2SlotFromEnrollment K i generationID smk)"

definition NewFIDO2SlotFromParams :: "key_env \<Rightarrow> nat \<Rightarrow> string \<Rightarrow> bytes \<Rightarrow> bytes \<Rightarrow> wrap_params \<Rightarrow> slot result" where
  "NewFIDO2SlotFromParams K i generationID smk hmacSecret p =
     newFIDO2SlotFromEnrollment K i generationID smk
       \<lparr>enCredentialID = wpCredentialID p, enSalt = wpSalt p, enSecret = hmacSecret, enAAGUID = wpAAGUID p,
        enProduct = wpProduct p, enRPID = wpRPID p\<rparr>"

section \<open>Unwrapping\<close>

record unlock =
  unRecoverySecret :: bytes
  unTokens :: "token list"
  unFIDO2 :: "fido_device list"

fun try_tokens :: "string \<Rightarrow> bytes \<Rightarrow> token list \<Rightarrow> go_error option \<Rightarrow> bytes result" where
  "try_tokens slotID wrapped [] lastE =
     Inl (case lastE of None \<Rightarrow> Errorf (''no yubikey available for slot '' @ slotID) | Some e \<Rightarrow> e)"
| "try_tokens slotID wrapped (tok # toks) lastE =
     (case tkDecrypt tok wrapped of
        Inr smk \<Rightarrow> Inr smk
      | Inl e \<Rightarrow> try_tokens slotID wrapped toks (Some e))"

fun try_fido :: "key_env \<Rightarrow> slot \<Rightarrow> wrap_params \<Rightarrow> fido_device list \<Rightarrow> go_error option \<Rightarrow> bytes result" where
  "try_fido K sl p [] lastE =
     Inl (case lastE of None \<Rightarrow> Errorf (''no fido2 authenticator available for slot '' @ slID sl) | Some e \<Rightarrow> e)"
| "try_fido K sl p (dev # devs) lastE =
     (case fdDerive dev (wpCredentialID p) (wpSalt p) of
        Inl e \<Rightarrow> try_fido K sl p devs (Some e)
      | Inr secret \<Rightarrow>
          (case fido2_UnwrapSMK K secret (slWrappedSMK sl) of
             Inr smk \<Rightarrow> Inr smk
           | Inl e \<Rightarrow> try_fido K sl p devs (Some e)))"

definition unwrapFIDO2 :: "key_env \<Rightarrow> slot \<Rightarrow> fido_device list \<Rightarrow> bytes result" where
  "unwrapFIDO2 K sl devs =
     (case unjson_wrap_params K (slWrapParams sl) of
        Inl e \<Rightarrow> Inl (Wrapped ''fido2 wrap params'' e)
      | Inr p \<Rightarrow>
          if length devs = 0 then Inl (Errorf (''no fido2 authenticator available for slot '' @ slID sl))
          else try_fido K sl p devs None)"

definition Unwrap :: "key_env \<Rightarrow> slot \<Rightarrow> unlock \<Rightarrow> bytes result" where
  "Unwrap K sl u =
     (if slType sl = TypeRecovery then
        (if length (unRecoverySecret u) = 0 then Inl (Errorf ''recovery key required'')
         else recovery_UnwrapSMK K (unRecoverySecret u) (slWrappedSMK sl))
      else if slType sl = TypeYubiKey then try_tokens (slID sl) (slWrappedSMK sl) (unTokens u) None
      else if slType sl = TypeFIDO2Hmac then unwrapFIDO2 K sl (unFIDO2 u)
      else Inl (Errorf (''unknown slot type '' @ slType sl)))"

fun unwrap_first :: "key_env \<Rightarrow> unlock \<Rightarrow> slot list \<Rightarrow> go_error option \<Rightarrow> (bytes \<times> slot) result" where
  "unwrap_first K u [] lastE = Inl (case lastE of None \<Rightarrow> Errorf ''no active key slots'' | Some e \<Rightarrow> e)"
| "unwrap_first K u (sl # sls) lastE =
     (case Unwrap K sl u of Inr smk \<Rightarrow> Inr (smk, sl) | Inl e \<Rightarrow> unwrap_first K u sls (Some e))"

definition UnwrapAny :: "key_env \<Rightarrow> slot list \<Rightarrow> unlock \<Rightarrow> (bytes \<times> slot) result" where
  "UnwrapAny K sls u = unwrap_first K u (Active sls) None"

section \<open>Changing the slots of a generation\<close>

text \<open>\<^verbatim>\<open>m.Counter++\<close> and \<^verbatim>\<open>generations.Sign(&m, smk)\<close>, the end of every slot operation.\<close>

definition bump_sign :: "key_env \<Rightarrow> gen_manifest \<Rightarrow> bytes \<Rightarrow> gen_manifest result" where
  "bump_sign K m smk = Sign K (m\<lparr>gmCounter := wrap64 (gmCounter m + 1)\<rparr>) smk"

definition AddYubiKey :: "key_env \<Rightarrow> gen_manifest \<Rightarrow> bytes \<Rightarrow> token \<Rightarrow> gen_manifest result" where
  "AddYubiKey K m smk tok =
     bind_result (NewYubiKeySlot K 0 (gmGenerationID m) smk tok) (\<lambda>sl.
       case tkDecrypt tok (slWrappedSMK sl) of
         Inl e \<Rightarrow> Inl (Wrapped ''verify new yubikey slot'' e)
       | Inr got \<Rightarrow>
           if got \<noteq> smk then Inl (Errorf ''new yubikey slot failed verification'')
           else bump_sign K (m\<lparr>gmSlots := gmSlots m @ [sl]\<rparr>) smk)"

definition AddFIDO2 :: "key_env \<Rightarrow> gen_manifest \<Rightarrow> bytes \<Rightarrow> fido_device \<Rightarrow> gen_manifest result" where
  "AddFIDO2 K m smk dev =
     bind_result (NewFIDO2Slot K 0 (gmGenerationID m) smk dev) (\<lambda>sl.
       case Unwrap K sl \<lparr>unRecoverySecret = [], unTokens = [], unFIDO2 = [dev]\<rparr> of
         Inl e \<Rightarrow> Inl (Wrapped ''verify new fido2 slot'' e)
       | Inr got \<Rightarrow>
           if got \<noteq> smk then Inl (Errorf ''new fido2 slot failed verification'')
           else bump_sign K (m\<lparr>gmSlots := gmSlots m @ [sl]\<rparr>) smk)"

definition revoke_if :: "(slot \<Rightarrow> bool) \<Rightarrow> slot \<Rightarrow> slot" where
  "revoke_if P sl = (if P sl \<and> slStatus sl = SlotActive then sl\<lparr>slStatus := SlotRevoked\<rparr> else sl)"

definition RemoveSlot :: "key_env \<Rightarrow> gen_manifest \<Rightarrow> bytes \<Rightarrow> string \<Rightarrow> gen_manifest result" where
  "RemoveSlot K m smk slotID =
     (let remaining = map (revoke_if (\<lambda>sl. slID sl = slotID)) (gmSlots m);
          found = (\<exists>sl \<in> set (gmSlots m). slID sl = slotID \<and> slStatus sl = SlotActive)
      in if \<not> found then Inl (Errorf (''active slot '' @ slotID @ '' not found''))
         else if length (Active remaining) = 0 then Inl (Errorf ''refusing to remove last active unlock slot'')
         else bump_sign K (m\<lparr>gmSlots := remaining\<rparr>) smk)"

definition RotateRecovery :: "key_env \<Rightarrow> gen_manifest \<Rightarrow> bytes \<Rightarrow> (gen_manifest \<times> bytes \<times> string) result" where
  "RotateRecovery K m smk =
     bind_result (recovery_Generate K 0) (\<lambda>secret.
     bind_result (NewRecoverySlot K 1 (gmGenerationID m) smk secret) (\<lambda>sl.
       case recovery_UnwrapSMK K secret (slWrappedSMK sl) of
         Inl e \<Rightarrow> Inl (Wrapped ''verify recovery slot'' e)
       | Inr _ \<Rightarrow>
           bind_result (recovery_Encode K secret) (\<lambda>encoded.
           bind_result (bump_sign K (m\<lparr>gmSlots := map (revoke_if (\<lambda>sl. slType sl = TypeRecovery)) (gmSlots m) @ [sl]\<rparr>) smk)
             (\<lambda>m'. Inr (m', secret, encoded)))))"

section \<open>New generations\<close>

fun add_slots :: "('x \<Rightarrow> nat \<Rightarrow> slot result) \<Rightarrow> nat \<Rightarrow> 'x list \<Rightarrow> slot list \<Rightarrow> slot list result" where
  "add_slots mk i [] out = Inr out"
| "add_slots mk i (x # xs) out = bind_result (mk x i) (\<lambda>sl. add_slots mk (i + 1) xs (out @ [sl]))"

definition BootstrapGeneration :: "key_env \<Rightarrow> int \<Rightarrow> bytes option \<Rightarrow> token list \<Rightarrow> fido_device list \<Rightarrow>
    (gen_manifest \<times> bytes \<times> string) result" where
  "BootstrapGeneration K seq recoverySecret tokens fido =
     bind_result (GenerateSMK (krand K 0)) (\<lambda>smk.
     bind_result (case recoverySecret of None \<Rightarrow> recovery_Generate K 1 | Some s \<Rightarrow> Inr s) (\<lambda>secret.
     bind_result (kuuid K 0) (\<lambda>gid.
     bind_result (NewRecoverySlot K 2 gid smk secret) (\<lambda>sl.
     bind_result (add_slots (\<lambda>tok i. NewYubiKeySlot K i gid smk tok) 3 tokens [sl]) (\<lambda>sls1.
     bind_result (add_slots (\<lambda>dev i. NewFIDO2Slot K i gid smk dev) (3 + length tokens) fido sls1) (\<lambda>sls2.
     bind_result (Sign K \<lparr>gmVersion = gen_CurrentVersion, gmGenerationID = gid, gmSeq = seq, gmCounter = 1, gmActive = True,
          gmSlots = sls2, gmMAC = []\<rparr> smk) (\<lambda>m.
     bind_result (recovery_Encode K secret) (\<lambda>enc. Inr (m, smk, enc)))))))))"

fun deriveFIDO2 :: "wrap_params \<Rightarrow> fido_device list \<Rightarrow> go_error option \<Rightarrow> bytes result" where
  "deriveFIDO2 p [] lastE =
     Inl (case lastE of None \<Rightarrow> Errorf ''no fido2 authenticator available to re-wrap slot'' | Some e \<Rightarrow> e)"
| "deriveFIDO2 p (dev # devs) lastE =
     (case fdDerive dev (wpCredentialID p) (wpSalt p) of Inr secret \<Rightarrow> Inr secret | Inl e \<Rightarrow> deriveFIDO2 p devs (Some e))"

definition rewrapFIDO2Slot :: "key_env \<Rightarrow> nat \<Rightarrow> string \<Rightarrow> bytes \<Rightarrow> slot \<Rightarrow> fido_device list \<Rightarrow> slot result" where
  "rewrapFIDO2Slot K i generationID smk sl devs =
     (case unjson_wrap_params K (slWrapParams sl) of
        Inl e \<Rightarrow> Inl (Wrapped ''fido2 wrap params'' e)
      | Inr p \<Rightarrow> bind_result (deriveFIDO2 p devs None) (\<lambda>secret. NewFIDO2SlotFromParams K i generationID smk secret p))"

definition NewGenerationFromSlots :: "key_env \<Rightarrow> gen_manifest \<Rightarrow> bytes option \<Rightarrow> token list \<Rightarrow> fido_device list \<Rightarrow>
    (gen_manifest \<times> bytes \<times> string) result" where
  "NewGenerationFromSlots K old recoverySecret tokens fido =
     bind_result (BootstrapGeneration K (gmSeq old + 1) recoverySecret tokens []) (\<lambda>(m, smk, enc).
     let n = 3 + length tokens; olds = OfType (gmSlots old) TypeFIDO2Hmac
     in bind_result (add_slots (\<lambda>sl i. rewrapFIDO2Slot K i (gmGenerationID m) smk sl fido) n olds (gmSlots m)) (\<lambda>sls1.
        bind_result (if length olds = 0
            then add_slots (\<lambda>dev i. NewFIDO2Slot K i (gmGenerationID m) smk dev) n fido sls1 else Inr sls1) (\<lambda>sls2.
        bind_result (Sign K (m\<lparr>gmSlots := sls2\<rparr>) smk) (\<lambda>m'. Inr (m', smk, enc)))))"

definition RotateMasterKey :: "key_env \<Rightarrow> gen_manifest \<Rightarrow> slot list \<Rightarrow> (gen_manifest \<times> bytes) result" where
  "RotateMasterKey K old wrapSlots =
     bind_result (GenerateSMK (krand K 0)) (\<lambda>smk.
     bind_result (kuuid K 0) (\<lambda>gid.
       if \<exists>sl \<in> set wrapSlots. slType sl = TypeRecovery
       then Inl (Errorf ''recovery wrap requires the new secret; use BootstrapGeneration'')
       else bind_result (Sign K \<lparr>gmVersion = gen_CurrentVersion, gmGenerationID = gid, gmSeq = gmSeq old + 1, gmCounter = 1,
              gmActive = True, gmSlots = [], gmMAC = []\<rparr> smk) (\<lambda>m. Inr (m, smk))))"

section \<open>Wrapping schemes\<close>

text \<open>What the code relies on of the cipher: it opens what it sealed, and a sealed message is never empty (it carries a
  tag).\<close>

definition aead_ok :: "aead \<Rightarrow> bool" where
  "aead_ok A \<longleftrightarrow> (\<forall>key nonce pt ad. aead_opens A key nonce pt ad \<and> aeadSeal A key nonce pt ad \<noteq> [])"

text \<open>The contract of a wrapping scheme, under the assumption \<open>good\<close> on its primitives.\<close>

locale smk_wrapping =
  fixes good :: bool
    and wrap :: "nat \<Rightarrow> bytes \<Rightarrow> bytes \<Rightarrow> bytes result"
    and unwrap :: "bytes \<Rightarrow> bytes \<Rightarrow> bytes result"
  assumes unwrap_wrap: "good \<Longrightarrow> wrap i secret smk = Inr w \<Longrightarrow> unwrap secret w = Inr smk"
begin

lemma wrap_inj: "good \<Longrightarrow> wrap i secret smk = Inr w \<Longrightarrow> wrap j secret smk' = Inr w \<Longrightarrow> smk = smk'"
  using unwrap_wrap by (metis sum.inject(2))

end

lemma unwrap_wrap_smk:
  assumes "aead_ok (kaead K)" and "wrap_smk K salt ad i secret smk = Inr w"
  shows "unwrap_smk K salt ad secret w = Inr smk"
proof -
  obtain key nonce ct where p: "wrap_key K salt secret = Inr key" "Seal (kaead K) key nonce smk (str_bytes ad) = Inr ct"
    "w = nonce @ ct"
    using assms(2) by (auto simp: wrap_smk_def result_Inr)
  have ct: "ct = aeadSeal (kaead K) key nonce smk (str_bytes ad)" and n: "length nonce = NonceSize"
    using p(2) by (auto simp: Seal_def split: option.splits if_splits)
  have "ct \<noteq> []" "aead_opens (kaead K) key nonce smk (str_bytes ad)"
    using assms(1) unfolding ct aead_ok_def by blast+
  then show ?thesis
    using Open_Seal[OF p(2)] p(1,3) n by (simp add: unwrap_smk_def Suc_le_eq)
qed

interpretation recovery_wrap: smk_wrapping "aead_ok (kaead K)" "recovery_WrapSMK K" "recovery_UnwrapSMK K" for K
  by unfold_locales (simp add: recovery_WrapSMK_def recovery_UnwrapSMK_def unwrap_wrap_smk)

interpretation fido2_wrap: smk_wrapping "aead_ok (kaead K)" "fido2_WrapSMK K" "fido2_UnwrapSMK K" for K
  by unfold_locales (simp add: fido2_WrapSMK_def fido2_UnwrapSMK_def unwrap_wrap_smk)

section \<open>Facts about slots and signatures\<close>

lemma Sign_parts:
  "Sign K m smk = Inr m' \<Longrightarrow> \<exists>mac. m' = m\<lparr>gmMAC := mac\<rparr>"
  by (auto simp: Sign_def result_Inr)

lemma Verify_Sign: "Sign K m smk = Inr m' \<Longrightarrow> gmVersion m = gen_CurrentVersion \<Longrightarrow> Verify K m' smk = None"
  by (auto simp: Sign_def Verify_def result_Inr)

lemma bump_sign_parts:
  assumes "bump_sign K m smk = Inr m'"
  shows "gmSlots m' = gmSlots m" "gmCounter m' = wrap64 (gmCounter m + 1)" "gmGenerationID m' = gmGenerationID m"
    "gmSeq m' = gmSeq m" "gmVersion m = gen_CurrentVersion \<Longrightarrow> Verify K m' smk = None"
  using Sign_parts[of K "m\<lparr>gmCounter := wrap64 (gmCounter m + 1)\<rparr>" smk m']
    Verify_Sign[of K "m\<lparr>gmCounter := wrap64 (gmCounter m + 1)\<rparr>" smk m'] assms
  by (auto simp: bump_sign_def)

lemma slot_status_distinct [simp]: "SlotRevoked \<noteq> SlotActive" "SlotActive \<noteq> SlotRevoked"
  by (simp_all add: slot_const_defs)

lemma slot_types_distinct [simp]:
  "TypeRecovery \<noteq> TypeYubiKey" "TypeYubiKey \<noteq> TypeRecovery" "TypeRecovery \<noteq> TypeFIDO2Hmac"
  "TypeFIDO2Hmac \<noteq> TypeRecovery" "TypeYubiKey \<noteq> TypeFIDO2Hmac" "TypeFIDO2Hmac \<noteq> TypeYubiKey"
  by (simp_all add: slot_const_defs)

lemma revoke_if_simps [simp]: "slID (revoke_if P sl) = slID sl" "slType (revoke_if P sl) = slType sl"
  by (simp_all add: revoke_if_def)

lemma Active_revoke: "Active (map (revoke_if P) sls) = filter (\<lambda>sl. \<not> P sl) (Active sls)"
  by (induction sls) (auto simp: Active_def revoke_if_def)

lemma Active_append [simp]: "Active (xs @ ys) = Active xs @ Active ys"
  by (simp add: Active_def)

lemma OfType_Active: "OfType sls ty = filter (\<lambda>s. slType s = ty) (Active sls)"
  by (simp add: OfType_def Active_def conj_commute)

lemma new_slot_parts:
  "new_slot K i ty gid params wrapped label = Inr sl \<Longrightarrow>
     slType sl = ty \<and> slStatus sl = SlotActive \<and> slGenerationID sl = gid \<and> slWrappedSMK sl = wrapped \<and> slWrapParams sl = params"
  by (auto simp: new_slot_def result_Inr)

lemma NewRecoverySlot_parts:
  assumes "NewRecoverySlot K i gid smk secret = Inr sl"
  shows "slType sl = TypeRecovery" "slStatus sl = SlotActive"
    "aead_ok (kaead K) \<Longrightarrow> recovery_UnwrapSMK K secret (slWrappedSMK sl) = Inr smk"
    "aead_ok (kaead K) \<Longrightarrow> secret \<noteq> [] \<Longrightarrow> unRecoverySecret u = secret \<Longrightarrow> Unwrap K sl u = Inr smk"
proof -
  obtain w where w: "recovery_WrapSMK K i secret smk = Inr w" "new_slot K i TypeRecovery gid [] w [] = Inr sl"
    using assms by (auto simp: NewRecoverySlot_def result_Inr)
  then show ty: "slType sl = TypeRecovery" "slStatus sl = SlotActive" using new_slot_parts by auto
  show un: "recovery_UnwrapSMK K secret (slWrappedSMK sl) = Inr smk" if "aead_ok (kaead K)"
    using recovery_wrap.unwrap_wrap[OF that w(1)] new_slot_parts[OF w(2)] by simp
  show "Unwrap K sl u = Inr smk" if "aead_ok (kaead K)" "secret \<noteq> []" "unRecoverySecret u = secret"
    using un[OF that(1)] ty(1) that(2,3) by (simp add: Unwrap_def)
qed

lemma NewFIDO2Slot_parts:
  "NewFIDO2Slot K i gid smk dev = Inr sl \<Longrightarrow> slType sl = TypeFIDO2Hmac \<and> slStatus sl = SlotActive"
  by (auto simp: NewFIDO2Slot_def newFIDO2SlotFromEnrollment_def Let_def result_Inr dest!: new_slot_parts)

lemma rewrapFIDO2Slot_parts:
  "rewrapFIDO2Slot K i gid smk sl devs = Inr sl' \<Longrightarrow> slType sl' = TypeFIDO2Hmac \<and> slStatus sl' = SlotActive"
  by (auto simp: rewrapFIDO2Slot_def NewFIDO2SlotFromParams_def newFIDO2SlotFromEnrollment_def Let_def result_Inr
      dest!: new_slot_parts)

lemma add_slots_parts:
  assumes "add_slots mk i xs out = Inr out'"
  obtains new where "out' = out @ new" "length new = length xs" "\<forall>sl \<in> set new. \<exists>x \<in> set xs. \<exists>j. mk x j = Inr sl"
  using assms
proof (induction xs arbitrary: i out thesis)
  case (Cons x xs)
  from Cons.prems(2) obtain sl where sl: "mk x i = Inr sl" "add_slots mk (i + 1) xs (out @ [sl]) = Inr out'"
    by (auto simp: result_Inr)
  from Cons.IH[OF _ sl(2)] obtain new where "out' = (out @ [sl]) @ new" "length new = length xs"
    "\<forall>sl \<in> set new. \<exists>x \<in> set xs. \<exists>j. mk x j = Inr sl" by blast
  with sl(1) show ?case by (intro Cons.prems(1)[of "sl # new"]) auto
qed auto

lemma UnwrapAny_first:
  "slStatus sl = SlotActive \<Longrightarrow> Unwrap K sl u = Inr smk \<Longrightarrow> UnwrapAny K (sl # sls) u = Inr (smk, sl)"
  by (simp add: UnwrapAny_def Active_def)

lemma unwrap_first_ex:
  "\<exists>sl \<in> set sls. \<exists>k. Unwrap K sl u = Inr k \<Longrightarrow> \<exists>k sl. unwrap_first K u sls lastE = Inr (k, sl)"
proof (induction sls arbitrary: lastE)
  case (Cons sl sls)
  then show ?case by (cases "Unwrap K sl u") auto
qed simp

lemma unwrap_first_active: "unwrap_first K u sls lastE = Inr (smk, sl) \<Longrightarrow> sl \<in> set sls \<and> Unwrap K sl u = Inr smk"
  by (induction sls arbitrary: lastE) (auto split: sum.splits)

lemma BootstrapGeneration_parts:
  assumes "BootstrapGeneration K seq rs tokens fido = Inr (m, smk, enc)" and "aead_ok (kaead K)"
  obtains secret sl rest where "recovery_Encode K secret = Inr enc" "\<forall>s. rs = Some s \<longrightarrow> secret = s"
    "gmSlots m = sl # rest" "slType sl = TypeRecovery" "slStatus sl = SlotActive"
    "\<And>u. secret \<noteq> [] \<Longrightarrow> unRecoverySecret u = secret \<Longrightarrow> Unwrap K sl u = Inr smk"
    "Verify K m smk = None" "gmSeq m = seq" "gmActive m" "gmVersion m = gen_CurrentVersion"
proof -
  obtain secret gid sl sls1 sls2 where p: "(case rs of None \<Rightarrow> recovery_Generate K 1 | Some s \<Rightarrow> Inr s) = Inr secret"
    "NewRecoverySlot K 2 gid smk secret = Inr sl"
    "add_slots (\<lambda>tok i. NewYubiKeySlot K i gid smk tok) 3 tokens [sl] = Inr sls1"
    "add_slots (\<lambda>dev i. NewFIDO2Slot K i gid smk dev) (3 + length tokens) fido sls1 = Inr sls2"
    "Sign K \<lparr>gmVersion = gen_CurrentVersion, gmGenerationID = gid, gmSeq = seq, gmCounter = 1, gmActive = True,
          gmSlots = sls2, gmMAC = []\<rparr> smk = Inr m" "recovery_Encode K secret = Inr enc"
    using assms(1) by (auto simp: BootstrapGeneration_def bind_result_Inr)
  obtain n1 n2 where sls: "sls2 = sl # n1 @ n2"
    using add_slots_parts[OF p(3)] add_slots_parts[OF p(4)] by (metis append_Cons append_Nil append_assoc)
  obtain mac where m: "m = \<lparr>gmVersion = gen_CurrentVersion, gmGenerationID = gid, gmSeq = seq, gmCounter = 1, gmActive = True,
          gmSlots = sls2, gmMAC = mac\<rparr>" using Sign_parts[OF p(5)] by auto
  show thesis
  proof (rule that)
    show "\<forall>s. rs = Some s \<longrightarrow> secret = s" using p(1) by auto
    show "gmSlots m = sl # n1 @ n2" "gmSeq m = seq" "gmActive m" "gmVersion m = gen_CurrentVersion" by (simp_all add: m sls)
    show "Verify K m smk = None" by (rule Verify_Sign[OF p(5)]) simp
    show "slType sl = TypeRecovery" "slStatus sl = SlotActive" using NewRecoverySlot_parts(1,2)[OF p(2)] .
    show "Unwrap K sl u = Inr smk" if "secret \<noteq> []" "unRecoverySecret u = secret" for u
      using NewRecoverySlot_parts(4)[OF p(2) assms(2) that] .
  qed (fact p(6))
qed

section \<open>Properties\<close>

text \<open>C18: Removing a slot never locks the owner out: when it succeeds, exactly the active slots with that id are revoked,
  at least one active slot remains, no slot disappears from the manifest, and the new manifest verifies.\<close>

theorem RemoveSlot_keeps_a_way_in:
  assumes "RemoveSlot K m smk i = Inr m'"
  shows "Active (gmSlots m') = filter (\<lambda>sl. slID sl \<noteq> i) (Active (gmSlots m)) \<and> Active (gmSlots m') \<noteq> []
     \<and> map slID (gmSlots m') = map slID (gmSlots m) \<and> gmCounter m' = wrap64 (gmCounter m + 1)
     \<and> (gmVersion m = gen_CurrentVersion \<longrightarrow> Verify K m' smk = None)"
proof -
  let ?rem = "map (revoke_if (\<lambda>sl. slID sl = i)) (gmSlots m)"
  have ne: "Active ?rem \<noteq> []" and b: "bump_sign K (m\<lparr>gmSlots := ?rem\<rparr>) smk = Inr m'"
    using assms by (auto simp: RemoveSlot_def Let_def if_result_Inr)
  show ?thesis using bump_sign_parts[OF b] ne by (simp add: Active_revoke comp_def)
qed

text \<open>After a rotation of the recovery key the returned secret unlocks the generation, its slot is the only active
  recovery slot, and the active slots of other types are untouched.\<close>

theorem RotateRecovery_new_secret_only:
  assumes "RotateRecovery K m smk = Inr (m', secret, encoded)" "aead_ok (kaead K)" "secret \<noteq> []"
  shows "\<exists>sl. OfType (gmSlots m') TypeRecovery = [sl]
     \<and> Unwrap K sl \<lparr>unRecoverySecret = secret, unTokens = [], unFIDO2 = []\<rparr> = Inr smk
     \<and> (\<forall>ty. ty \<noteq> TypeRecovery \<longrightarrow> OfType (gmSlots m') ty = OfType (gmSlots m) ty)
     \<and> recovery_Encode K secret = Inr encoded"
proof -
  obtain sl where sl: "NewRecoverySlot K 1 (gmGenerationID m) smk secret = Inr sl" "recovery_Encode K secret = Inr encoded"
    and b: "bump_sign K (m\<lparr>gmSlots := map (revoke_if (\<lambda>sl. slType sl = TypeRecovery)) (gmSlots m) @ [sl]\<rparr>) smk = Inr m'"
    using assms(1) by (auto simp: RotateRecovery_def result_Inr split: sum.splits)
  note parts = NewRecoverySlot_parts[OF sl(1)]
  have act: "Active (gmSlots m') = filter (\<lambda>sl. slType sl \<noteq> TypeRecovery) (Active (gmSlots m)) @ [sl]"
    using bump_sign_parts(1)[OF b] parts(2) by (simp add: Active_revoke) (simp add: Active_def)
  show ?thesis
  proof (intro exI[of _ sl] conjI allI impI)
    show "OfType (gmSlots m') TypeRecovery = [sl]" by (simp add: OfType_Active act parts(1))
    show "Unwrap K sl \<lparr>unRecoverySecret = secret, unTokens = [], unFIDO2 = []\<rparr> = Inr smk"
      by (rule parts(4)[OF assms(2,3)]) simp
    show "OfType (gmSlots m') ty = OfType (gmSlots m) ty" if "ty \<noteq> TypeRecovery" for ty
      using that parts(1) by (auto simp: OfType_Active act intro: filter_cong)
  qed (fact sl(2))
qed

text \<open>The generation that follows another has the next number, verifies under its new master key, opens with the
  recovery secret it was given (and nothing else), and carries every FIDO2 slot of the old one, re-wrapped.\<close>

theorem NewGenerationFromSlots_recoverable:
  assumes "NewGenerationFromSlots K old (Some secret) tokens fido = Inr (m, smk, enc)" "aead_ok (kaead K)" "secret \<noteq> []"
  shows "gmSeq m = gmSeq old + 1 \<and> Verify K m smk = None
     \<and> (\<exists>sl. UnwrapAny K (gmSlots m) \<lparr>unRecoverySecret = secret, unTokens = [], unFIDO2 = []\<rparr> = Inr (smk, sl))
     \<and> length (OfType (gmSlots m) TypeFIDO2Hmac) \<ge> length (OfType (gmSlots old) TypeFIDO2Hmac)"
proof -
  let ?olds = "OfType (gmSlots old) TypeFIDO2Hmac" and ?n = "3 + length tokens"
  obtain m0 sls1 sls2 where p: "BootstrapGeneration K (gmSeq old + 1) (Some secret) tokens [] = Inr (m0, smk, enc)"
    "add_slots (\<lambda>sl i. rewrapFIDO2Slot K i (gmGenerationID m0) smk sl fido) ?n ?olds (gmSlots m0) = Inr sls1"
    "(if length ?olds = 0 then add_slots (\<lambda>dev i. NewFIDO2Slot K i (gmGenerationID m0) smk dev) ?n fido sls1 else Inr sls1) = Inr sls2"
    "Sign K (m0\<lparr>gmSlots := sls2\<rparr>) smk = Inr m"
    using assms(1) by (auto simp: NewGenerationFromSlots_def bind_result_Inr Let_def)
  from BootstrapGeneration_parts[OF p(1) assms(2)] obtain sl rest where b: "gmSlots m0 = sl # rest" "slStatus sl = SlotActive"
    "\<And>u. unRecoverySecret u = secret \<Longrightarrow> Unwrap K sl u = Inr smk" "gmSeq m0 = gmSeq old + 1" "gmVersion m0 = gen_CurrentVersion"
    using assms(3) by metis
  from add_slots_parts[OF p(2)] obtain new where new: "sls1 = gmSlots m0 @ new" "length new = length ?olds"
    "\<forall>sl \<in> set new. slType sl = TypeFIDO2Hmac \<and> slStatus sl = SlotActive"
    using rewrapFIDO2Slot_parts by metis
  from p(3) obtain more where more: "sls2 = sls1 @ more" by (auto split: if_splits elim: add_slots_parts)
  obtain mac where m: "m = m0\<lparr>gmSlots := sls2, gmMAC := mac\<rparr>" using Sign_parts[OF p(4)] by auto
  have "OfType new TypeFIDO2Hmac = new" using new(3) by (simp add: OfType_def filter_id_conv)
  then have "length (OfType sls2 TypeFIDO2Hmac) \<ge> length ?olds"
    using new(2) by (simp add: more new(1) OfType_def)
  moreover have "UnwrapAny K sls2 u = Inr (smk, sl)" if "unRecoverySecret u = secret" for u
    unfolding more new(1) b(1) append_Cons by (rule UnwrapAny_first[OF b(2) b(3)[OF that]])
  moreover have "Verify K m smk = None" by (rule Verify_Sign[OF p(4)]) (simp add: b(5))
  ultimately show ?thesis using b(4) by (auto simp: m)
qed

text \<open>\<^verbatim>\<open>UnwrapAny\<close> succeeds exactly when some active slot unwraps, and then with the key of an active slot: a revoked slot is
  never used.\<close>

theorem UnwrapAny_active_slots_only:
  "(\<exists>sl \<in> set sls. slStatus sl = SlotActive \<and> (\<exists>k. Unwrap K sl u = Inr k)) \<longleftrightarrow>
   (\<exists>k sl. UnwrapAny K sls u = Inr (k, sl) \<and> sl \<in> set sls \<and> slStatus sl = SlotActive \<and> Unwrap K sl u = Inr k)"
proof -
  have mem: "sl \<in> set (Active sls) \<longleftrightarrow> sl \<in> set sls \<and> slStatus sl = SlotActive" for sl by (auto simp: Active_def)
  show ?thesis
    using unwrap_first_ex[of "Active sls" K u None] unwrap_first_active[of K u "Active sls" None]
    unfolding UnwrapAny_def Bex_def mem by blast
qed

subsection \<open>Concrete runs\<close>

definition demo_wrap_aead :: aead where
  "demo_wrap_aead = \<lparr>newX = (\<lambda>_. None), aeadSeal = (\<lambda>k n p ad. 0 # p),
     aeadOpen = (\<lambda>k n c ad. case c of [] \<Rightarrow> Inl (Errorf ''message authentication failed'') | _ # p \<Rightarrow> Inr p)\<rparr>"

definition demo_key_env :: key_env where
  "demo_key_env = \<lparr>hkdf = (\<lambda>secret salt info n. Inr (replicate n 5)), hmac256 = (\<lambda>k b. [word_of_nat (length b)]),
     kaead = demo_wrap_aead, krand = (\<lambda>i n. Inr (replicate n (word_of_nat i + 1))), kuuid = (\<lambda>i. Inr (''u'' @ show_nat i)), know = 7,
     json_gen = (\<lambda>m. Inr (map (\<lambda>_. 1) (gmSlots m))), json_wrap_params = (\<lambda>_. Inr []), unjson_wrap_params = (\<lambda>_. Inl (Errorf ''json'')),
     json_token_meta = (\<lambda>_ _. []), bech32_encode = (\<lambda>h b. Inr h), rsa_oaep = (\<lambda>k m l. Inr m), ecdh_exchange = (\<lambda>_. Inl (Errorf ''ecdh''))\<rparr>"

lemma demo_aead_ok: "aead_ok (kaead demo_key_env)"
  by (simp add: aead_ok_def aead_opens_def demo_key_env_def demo_wrap_aead_def)

definition demo_gen :: gen_manifest where
  "demo_gen = (case BootstrapGeneration demo_key_env 1 (Some [4]) [\<lparr>tkSerial = ''y'', tkLabel = ''l'', tkPublic = Inr (RSAKey []),
     tkDecrypt = (\<lambda>b. Inr b)\<rparr>] [] of Inr (m, _, _) \<Rightarrow> m | Inl _ \<Rightarrow> zero_gen)"

theorem RemoveSlot_keeps_a_way_in_witness:
  "\<exists>m'. RemoveSlot demo_key_env demo_gen [1] ''u2'' = Inr m' \<and> Active (gmSlots m') \<noteq> []"
proof -
  have "\<not> isl (RemoveSlot demo_key_env demo_gen [1] ''u2'')" by code_simp
  then obtain m' where "RemoveSlot demo_key_env demo_gen [1] ''u2'' = Inr m'"
    by (cases "RemoveSlot demo_key_env demo_gen [1] ''u2''") auto
  with RemoveSlot_keeps_a_way_in[OF this] show ?thesis by blast
qed

theorem RotateRecovery_new_secret_only_witness:
  "\<exists>m' sl. RotateRecovery demo_key_env demo_gen [9] = Inr (m', replicate 32 1, ''remnix'')
     \<and> OfType (gmSlots m') TypeRecovery = [sl]"
proof -
  have "map_sum id snd (RotateRecovery demo_key_env demo_gen [9]) = Inr (replicate 32 1, ''remnix'')" by code_simp
  then obtain m' where m': "RotateRecovery demo_key_env demo_gen [9] = Inr (m', replicate 32 1, ''remnix'')"
    by (cases "RotateRecovery demo_key_env demo_gen [9]") auto
  from RotateRecovery_new_secret_only[OF m' demo_aead_ok] m' show ?thesis by auto
qed

theorem NewGenerationFromSlots_recoverable_witness:
  "\<exists>m smk enc. NewGenerationFromSlots demo_key_env demo_gen (Some [4]) [] [] = Inr (m, smk, enc)
     \<and> gmSeq m = 2 \<and> Verify demo_key_env m smk = None"
proof -
  have "\<not> isl (NewGenerationFromSlots demo_key_env demo_gen (Some [4]) [] [])" by code_simp
  then obtain m smk enc where r: "NewGenerationFromSlots demo_key_env demo_gen (Some [4]) [] [] = Inr (m, smk, enc)"
    by (cases "NewGenerationFromSlots demo_key_env demo_gen (Some [4]) [] []") auto
  have "gmSeq demo_gen = 1" by code_simp
  with NewGenerationFromSlots_recoverable[OF r demo_aead_ok] r show ?thesis by simp
qed

end
