(* ===== verification/Keystore.thy ===== *)
theory Keystore
  imports Keys
begin

text \<open>
  The key tables of the local database: \<^verbatim>\<open>internal/crypto/keys/store.go\<close> and \<^verbatim>\<open>rotation.go\<close>. Generations and slots,
  the manifests trusted so far with their counters, and the journal of a key rotation. The theory shows the
  uniqueness of generation numbers, that what is put is read back, that a rotation never leaves the
  store without its active generation, and what a stored manifest loses.
\<close>

section \<open>The tables\<close>

record gen_row =
  kgID :: string
  kgSeq :: int
  kgStatus :: string
  kgCreatedAt :: int

record slot_row =
  krID :: string
  krGenerationID :: string
  krSlotType :: string
  krWrapParams :: bytes
  krWrappedSMK :: bytes
  krStatus :: string
  krCreatedAt :: int

record trusted_row =
  tmKind :: string
  tmGenerationID :: string
  tmCounter :: int
  tmCheckpointID :: string
  tmPayload :: bytes
  tmUpdatedAt :: int

record rotation =
  roPhase :: string
  roOldGenerationID :: string
  roNewGenerationID :: string
  roOldSeq :: int
  roNewSeq :: int
  roRecoveryBech32 :: string
  roUpdatedAt :: int

record keydb =
  key_generations :: "gen_row list"
  key_slots :: "slot_row list"
  trusted_manifests :: "trusted_row list"
  key_rotation :: "rotation option"

definition empty_keydb :: keydb where
  "empty_keydb = \<lparr>key_generations = [], key_slots = [], trusted_manifests = [], key_rotation = None\<rparr>"

text \<open>\<^verbatim>\<open>INSERT \<dots> ON CONFLICT(key) DO UPDATE\<close>: \<open>upd old\<close> is the row after a conflict, else the new row is added at the end.\<close>

definition upsert_row :: "('r \<Rightarrow> string) \<Rightarrow> ('r \<Rightarrow> 'r) \<Rightarrow> 'r \<Rightarrow> 'r list \<Rightarrow> 'r list" where
  "upsert_row key upd r rows =
     (if \<exists>x \<in> set rows. key x = key r then map (\<lambda>x. if key x = key r then upd x else x) rows else rows @ [r])"

section \<open>Generations and slots\<close>

definition statusOf :: "gen_manifest \<Rightarrow> string" where
  "statusOf m = (if gmActive m then ''active'' else ''retained'')"

definition putSlot :: "gotime \<Rightarrow> keydb \<Rightarrow> slot \<Rightarrow> keydb" where
  "putSlot now d sl =
     (let createdAt = (if slCreatedAt sl = 0 then UnixMilli now else slCreatedAt sl)
      in d\<lparr>key_slots := upsert_row krID
           (\<lambda>x. x\<lparr>krStatus := slStatus sl, krWrapParams := slWrapParams sl, krWrappedSMK := slWrappedSMK sl\<rparr>)
           \<lparr>krID = slID sl, krGenerationID = slGenerationID sl, krSlotType = slType sl, krWrapParams = slWrapParams sl,
            krWrappedSMK = slWrappedSMK sl, krStatus = slStatus sl, krCreatedAt = createdAt\<rparr> (key_slots d)\<rparr>)"

definition putGeneration :: "gotime \<Rightarrow> keydb \<Rightarrow> gen_manifest \<Rightarrow> keydb result" where
  "putGeneration now d m =
     (let held = find (\<lambda>r. kgSeq r = gmSeq m) (key_generations d)
      in if held \<noteq> None \<and> kgID (the held) \<noteq> gmGenerationID m
         then Inl (Errorf (''store key generation: seq '' @ show_int (gmSeq m) @ '' already held by '' @ kgID (the held)))
         else Inr (fold (\<lambda>sl d. putSlot now d (sl\<lparr>slGenerationID := gmGenerationID m\<rparr>)) (gmSlots m)
           (d\<lparr>key_generations := upsert_row kgID (\<lambda>x. x\<lparr>kgStatus := statusOf m\<rparr>)
              \<lparr>kgID = gmGenerationID m, kgSeq = gmSeq m, kgStatus = statusOf m, kgCreatedAt = UnixMilli now\<rparr>
              (key_generations d)\<rparr>)))"

definition Slots :: "keydb \<Rightarrow> string \<Rightarrow> slot list" where
  "Slots d generationID =
     map (\<lambda>r. \<lparr>slID = krID r, slType = krSlotType r, slGenerationID = krGenerationID r, slWrapParams = krWrapParams r,
        slWrappedSMK = krWrappedSMK r, slStatus = krStatus r, slCreatedAt = krCreatedAt r, slLabel = []\<rparr>)
       (filter (\<lambda>r. krGenerationID r = generationID) (key_slots d))"

definition scan_gen :: "keydb \<Rightarrow> gen_row \<Rightarrow> gen_manifest" where
  "scan_gen d r = \<lparr>gmVersion = gen_CurrentVersion, gmGenerationID = kgID r, gmSeq = kgSeq r, gmCounter = 0,
     gmActive = (kgStatus r = ''active''), gmSlots = Slots d (kgID r), gmMAC = []\<rparr>"

definition Generations :: "keydb \<Rightarrow> gen_manifest list" where
  "Generations d = map (scan_gen d) (sort_by (\<lambda>a b. kgSeq a < kgSeq b) (key_generations d))"

definition ActiveGeneration :: "keydb \<Rightarrow> gen_manifest option" where
  "ActiveGeneration d = find gmActive (rev (Generations d))"

definition Generation :: "keydb \<Rightarrow> string \<Rightarrow> gen_manifest option" where
  "Generation d i = find (\<lambda>g. gmGenerationID g = i) (Generations d)"

definition DeleteGeneration :: "keydb \<Rightarrow> string \<Rightarrow> keydb" where
  "DeleteGeneration d i =
     d\<lparr>key_slots := filter (\<lambda>r. krGenerationID r \<noteq> i) (key_slots d),
       key_generations := filter (\<lambda>r. kgID r \<noteq> i) (key_generations d)\<rparr>"

section \<open>Trusted manifests\<close>

definition find_trusted :: "keydb \<Rightarrow> string \<Rightarrow> trusted_row option" where
  "find_trusted d kind = find (\<lambda>r. tmKind r = kind) (trusted_manifests d)"

definition TrustedKinds :: "keydb \<Rightarrow> string list" where
  "TrustedKinds d = map tmKind (trusted_manifests d)"

definition TrustedCounter :: "keydb \<Rightarrow> string \<Rightarrow> int" where
  "TrustedCounter d kind = (case find_trusted d kind of None \<Rightarrow> 0 | Some r \<Rightarrow> tmCounter r)"

definition TrustedPayload :: "keydb \<Rightarrow> string \<Rightarrow> bytes" where
  "TrustedPayload d kind = (case find_trusted d kind of None \<Rightarrow> [] | Some r \<Rightarrow> tmPayload r)"

definition TrustedCheckpointID :: "keydb \<Rightarrow> string \<Rightarrow> string" where
  "TrustedCheckpointID d kind = (case find_trusted d kind of None \<Rightarrow> [] | Some r \<Rightarrow> tmCheckpointID r)"

definition SetTrusted :: "gotime \<Rightarrow> keydb \<Rightarrow> string \<Rightarrow> string \<Rightarrow> int \<Rightarrow> string \<Rightarrow> bytes \<Rightarrow> keydb" where
  "SetTrusted now d kind generationID counter checkpointID payload =
     d\<lparr>trusted_manifests := upsert_row tmKind
         (\<lambda>x. x\<lparr>tmGenerationID := generationID, tmCounter := counter,
            tmCheckpointID := (if checkpointID = [] then tmCheckpointID x else checkpointID),
            tmPayload := payload, tmUpdatedAt := UnixMilli now\<rparr>)
         \<lparr>tmKind = kind, tmGenerationID = generationID, tmCounter = counter, tmCheckpointID = checkpointID,
          tmPayload = payload, tmUpdatedAt = UnixMilli now\<rparr> (trusted_manifests d)\<rparr>"

definition SetTrustedCheckpoint :: "gotime \<Rightarrow> keydb \<Rightarrow> string \<Rightarrow> string \<Rightarrow> keydb" where
  "SetTrustedCheckpoint now d kind checkpointID =
     (if checkpointID = [] then d
      else d\<lparr>trusted_manifests := map (\<lambda>x. if tmKind x = kind
               then x\<lparr>tmCheckpointID := checkpointID, tmUpdatedAt := UnixMilli now\<rparr> else x) (trusted_manifests d)\<rparr>)"

text \<open>\<^verbatim>\<open>kind LIKE 'remote:%'\<close>.\<close>

definition like_remote :: "string \<Rightarrow> bool" where
  "like_remote kind \<longleftrightarrow> length kind \<ge> 7 \<and> map ascii_fold (take 7 kind) = map ascii_fold ''remote:''"

definition ClearUnpublished :: "keydb \<Rightarrow> keydb" where
  "ClearUnpublished d =
     (if length (filter (\<lambda>r. tmKind r = ''remote'' \<or> like_remote (tmKind r)) (trusted_manifests d)) > 0 then d
      else d\<lparr>key_slots := [], key_generations := []\<rparr>)"

section \<open>The rotation journal\<close>

definition RotationPrepared :: string where
  "RotationPrepared = ''prepared''"

definition RotationGenerationPublished :: string where
  "RotationGenerationPublished = ''generation_published''"

definition RotationManifestCommitted :: string where
  "RotationManifestCommitted = ''manifest_committed''"

definition RotationLocalReconciled :: string where
  "RotationLocalReconciled = ''local_reconciled''"

definition RotationComplete :: string where
  "RotationComplete = ''complete''"

text \<open>One transaction: an error of \<^verbatim>\<open>putGeneration\<close> leaves the store unchanged.\<close>

definition StageRotation :: "gotime \<Rightarrow> keydb \<Rightarrow> gen_manifest \<Rightarrow> gen_manifest \<Rightarrow> string \<Rightarrow> keydb result" where
  "StageRotation now d nextG old encoded =
     bind_result (putGeneration now d (nextG\<lparr>gmActive := False\<rparr>)) (\<lambda>d'.
       Inr (d'\<lparr>key_rotation := Some \<lparr>roPhase = RotationPrepared, roOldGenerationID = gmGenerationID old,
          roNewGenerationID = gmGenerationID nextG, roOldSeq = gmSeq old, roNewSeq = gmSeq nextG,
          roRecoveryBech32 = encoded, roUpdatedAt = UnixMilli now\<rparr>\<rparr>))"

definition SetRotationPhase :: "gotime \<Rightarrow> keydb \<Rightarrow> string \<Rightarrow> keydb result" where
  "SetRotationPhase now d phase =
     (case key_rotation d of
        None \<Rightarrow> Inl (Errorf ''store key rotation: no in-progress rotation'')
      | Some r \<Rightarrow> Inr (d\<lparr>key_rotation := Some (r\<lparr>roPhase := phase, roUpdatedAt := UnixMilli now\<rparr>)\<rparr>))"

definition set_status :: "string \<Rightarrow> string \<Rightarrow> gen_row list \<Rightarrow> gen_row list" where
  "set_status i status rows = map (\<lambda>r. if kgID r = i then r\<lparr>kgStatus := status\<rparr> else r) rows"

definition PromoteRotation :: "gotime \<Rightarrow> keydb \<Rightarrow> string \<Rightarrow> string \<Rightarrow> keydb" where
  "PromoteRotation now d oldID newID =
     d\<lparr>key_generations := set_status newID ''active'' (set_status oldID ''retained'' (key_generations d)),
       key_rotation := map_option (\<lambda>r. r\<lparr>roPhase := RotationLocalReconciled, roUpdatedAt := UnixMilli now\<rparr>) (key_rotation d)\<rparr>"

definition ClearRotation :: "keydb \<Rightarrow> keydb" where
  "ClearRotation d = d\<lparr>key_rotation := None\<rparr>"

section \<open>The store as a state machine\<close>

inductive key_step :: "keydb \<Rightarrow> keydb \<Rightarrow> bool" where
  put: "putGeneration now d m = Inr d' \<Longrightarrow> key_step d d'"
| put_slot: "slGenerationID sl \<in> kgID ` set (key_generations d) \<Longrightarrow> key_step d (putSlot now d sl)"
| delete: "key_step d (DeleteGeneration d i)"
| trust: "key_step d (SetTrusted now d kind gid counter ckpt payload)"
| trust_checkpoint: "key_step d (SetTrustedCheckpoint now d kind ckpt)"
| clear_unpublished: "key_step d (ClearUnpublished d)"
| stage: "StageRotation now d m old enc = Inr d' \<Longrightarrow> key_step d d'"
| phase: "SetRotationPhase now d ph = Inr d' \<Longrightarrow> key_step d d'"
| promote: "key_step d (PromoteRotation now d oldID newID)"
| clear_rotation: "key_step d (ClearRotation d)"

text \<open>Generation ids and numbers, slot ids and kinds are unique, and every slot belongs to a stored generation.\<close>

definition keydb_ok :: "keydb \<Rightarrow> bool" where
  "keydb_ok d \<longleftrightarrow> distinct (map kgID (key_generations d)) \<and> distinct (map kgSeq (key_generations d))
     \<and> distinct (map krID (key_slots d)) \<and> distinct (map tmKind (trusted_manifests d))
     \<and> krGenerationID ` set (key_slots d) \<subseteq> kgID ` set (key_generations d)"

lemma map_if_key: "(\<And>x. key (upd x) = key x) \<Longrightarrow> map key (map (\<lambda>x. if P x then upd x else x) rows) = map key rows"
  by (induction rows) auto

lemma upsert_row_keys:
  assumes "\<And>x. key (upd x) = key x"
  shows "map key (upsert_row key upd r rows) = (if key r \<in> key ` set rows then map key rows else map key rows @ [key r])"
proof (cases "key r \<in> key ` set rows")
  case True
  then have "\<exists>x \<in> set rows. key x = key r" by (auto dest: sym)
  then show ?thesis using True map_if_key[of key upd "\<lambda>x. key x = key r" rows] assms by (simp add: upsert_row_def)
next
  case False
  then have "\<not> (\<exists>x \<in> set rows. key x = key r)" by (auto dest: sym)
  then show ?thesis using False by (simp add: upsert_row_def)
qed

lemma upsert_row_distinct:
  "(\<And>x. key (upd x) = key x) \<Longrightarrow> distinct (map key rows) \<Longrightarrow> distinct (map key (upsert_row key upd r rows))"
  by (simp add: upsert_row_keys)

lemma set_upsert_row: "set (upsert_row key upd r rows) \<subseteq> insert r (set rows \<union> upd ` set rows)"
  by (auto simp: upsert_row_def)

lemma putSlot_frame [simp]:
  "key_generations (putSlot now d sl) = key_generations d" "trusted_manifests (putSlot now d sl) = trusted_manifests d"
  "key_rotation (putSlot now d sl) = key_rotation d"
  by (simp_all add: putSlot_def Let_def)

lemma putSlot_ok: "keydb_ok d \<Longrightarrow> slGenerationID sl \<in> kgID ` set (key_generations d) \<Longrightarrow> keydb_ok (putSlot now d sl)"
proof -
  assume ok: "keydb_ok d" and gid: "slGenerationID sl \<in> kgID ` set (key_generations d)"
  have "distinct (map krID (key_slots (putSlot now d sl)))"
    unfolding putSlot_def Let_def using ok by (simp add: keydb_ok_def upsert_row_distinct)
  moreover have "krGenerationID ` set (key_slots (putSlot now d sl)) \<subseteq> kgID ` set (key_generations d)"
  proof (rule image_subsetI)
    fix r assume r: "r \<in> set (key_slots (putSlot now d sl))"
    have "r \<in> set (key_slots d) \<or> krGenerationID r = slGenerationID sl \<or> (\<exists>x \<in> set (key_slots d). krGenerationID r = krGenerationID x)"
      using subsetD[OF set_upsert_row, OF r[unfolded putSlot_def Let_def, simplified]] by auto
    with ok gid show "krGenerationID r \<in> kgID ` set (key_generations d)"
      unfolding keydb_ok_def by (metis image_eqI subset_iff)
  qed
  ultimately show ?thesis using ok by (simp add: keydb_ok_def)
qed

lemma put_slots_frame [simp]:
  "key_generations (fold (\<lambda>sl d. putSlot now d (f sl)) sls d) = key_generations d"
  "trusted_manifests (fold (\<lambda>sl d. putSlot now d (f sl)) sls d) = trusted_manifests d"
  "key_rotation (fold (\<lambda>sl d. putSlot now d (f sl)) sls d) = key_rotation d"
  by (induction sls arbitrary: d) simp_all

lemma put_slots_ok:
  "keydb_ok d \<Longrightarrow> \<forall>sl. slGenerationID (f sl) \<in> kgID ` set (key_generations d) \<Longrightarrow>
     keydb_ok (fold (\<lambda>sl d. putSlot now d (f sl)) sls d)"
  by (induction sls arbitrary: d) (simp_all add: putSlot_ok)

text \<open>The generation row \<^verbatim>\<open>putGeneration\<close> writes.\<close>

definition put_gen_row :: "gotime \<Rightarrow> gen_manifest \<Rightarrow> gen_row list \<Rightarrow> gen_row list" where
  "put_gen_row now m rows = upsert_row kgID (\<lambda>x. x\<lparr>kgStatus := statusOf m\<rparr>)
     \<lparr>kgID = gmGenerationID m, kgSeq = gmSeq m, kgStatus = statusOf m, kgCreatedAt = UnixMilli now\<rparr> rows"

lemma putGeneration_parts:
  assumes "putGeneration now d m = Inr d'"
  shows "d' = fold (\<lambda>sl d. putSlot now d (sl\<lparr>slGenerationID := gmGenerationID m\<rparr>)) (gmSlots m)
      (d\<lparr>key_generations := put_gen_row now m (key_generations d)\<rparr>)"
    and "\<forall>r \<in> set (key_generations d). kgSeq r = gmSeq m \<longrightarrow> keydb_ok d \<longrightarrow> kgID r = gmGenerationID m"
proof -
  show "d' = fold (\<lambda>sl d. putSlot now d (sl\<lparr>slGenerationID := gmGenerationID m\<rparr>)) (gmSlots m)
      (d\<lparr>key_generations := put_gen_row now m (key_generations d)\<rparr>)"
    using assms by (simp add: putGeneration_def Let_def put_gen_row_def if_result_Inr)
  show "\<forall>r \<in> set (key_generations d). kgSeq r = gmSeq m \<longrightarrow> keydb_ok d \<longrightarrow> kgID r = gmGenerationID m"
  proof (intro ballI impI)
    fix r assume r: "r \<in> set (key_generations d)" "kgSeq r = gmSeq m" and ok: "keydb_ok d"
    then obtain r' where r': "find (\<lambda>r. kgSeq r = gmSeq m) (key_generations d) = Some r'"
      by (cases "find (\<lambda>r. kgSeq r = gmSeq m) (key_generations d)") (auto simp: find_None_iff)
    then have "r' \<in> set (key_generations d)" "kgSeq r' = gmSeq m" by (auto simp: find_Some_iff)
    then have "r' = r" using r ok by (auto simp: keydb_ok_def distinct_map inj_on_def)
    then show "kgID r = gmGenerationID m" using assms r' by (simp add: putGeneration_def Let_def split: if_splits)
  qed
qed

lemma put_gen_row_set: "kgID ` set (put_gen_row now m rows) = insert (gmGenerationID m) (kgID ` set rows)"
proof -
  have "set (map kgID (put_gen_row now m rows)) = insert (gmGenerationID m) (set (map kgID rows))"
    unfolding put_gen_row_def by (subst upsert_row_keys) auto
  then show ?thesis by simp
qed

lemma putGeneration_ok:
  assumes put: "putGeneration now d m = Inr d'" and ok: "keydb_ok d"
  shows "keydb_ok d'"
proof -
  let ?rows = "put_gen_row now m (key_generations d)"
  have ids: "distinct (map kgID ?rows)"
    unfolding put_gen_row_def using ok by (simp add: upsert_row_distinct keydb_ok_def)
  have seqs: "distinct (map kgSeq ?rows)"
  proof (cases "gmGenerationID m \<in> kgID ` set (key_generations d)")
    case True
    then have "map kgSeq ?rows = map kgSeq (key_generations d)"
      by (auto simp: put_gen_row_def upsert_row_def intro: map_if_key)
    then show ?thesis using ok by (simp add: keydb_ok_def)
  next
    case False
    then have "gmSeq m \<notin> kgSeq ` set (key_generations d)" using putGeneration_parts(2)[OF put] ok by force
    moreover have "?rows = key_generations d @ [\<lparr>kgID = gmGenerationID m, kgSeq = gmSeq m, kgStatus = statusOf m, kgCreatedAt = UnixMilli now\<rparr>]"
      using False by (force simp: put_gen_row_def upsert_row_def)
    ultimately show ?thesis using ok by (simp add: keydb_ok_def)
  qed
  have "keydb_ok (d\<lparr>key_generations := ?rows\<rparr>)"
    using ok ids seqs put_gen_row_set[of now m "key_generations d"] by (auto simp: keydb_ok_def)
  then show ?thesis
    unfolding putGeneration_parts(1)[OF put] by (rule put_slots_ok) (simp add: put_gen_row_set)
qed

lemma set_status_keys [simp]:
  "map kgID (set_status i st rows) = map kgID rows" "map kgSeq (set_status i st rows) = map kgSeq rows"
  by (simp_all add: set_status_def)

lemma set_status_ids [simp]: "kgID ` set (set_status i st rows) = kgID ` set rows"
  using set_status_keys(1)[of i st rows] by (metis set_map)

lemma key_step_ok:
  assumes "key_step d d'" "keydb_ok d"
  shows "keydb_ok d'"
  using assms
proof (induction rule: key_step.induct)
  case (put now d m d')
  then show ?case by (simp add: putGeneration_ok)
next
  case (put_slot sl d now)
  then show ?case by (simp add: putSlot_ok)
next
  case (delete d i)
  then show ?case by (auto simp: keydb_ok_def DeleteGeneration_def distinct_map_filter image_subset_iff)
next
  case (trust d now kind gid counter ckpt payload)
  then show ?case by (simp add: keydb_ok_def SetTrusted_def upsert_row_distinct)
next
  case (trust_checkpoint d now kind ckpt)
  then show ?case by (simp add: keydb_ok_def SetTrustedCheckpoint_def map_if_key del: map_map)
next
  case (stage now d m old enc d')
  then obtain d1 where "putGeneration now d (m\<lparr>gmActive := False\<rparr>) = Inr d1" "key_generations d' = key_generations d1"
    "key_slots d' = key_slots d1" "trusted_manifests d' = trusted_manifests d1"
    by (auto simp: StageRotation_def result_Inr)
  then show ?case using putGeneration_ok[of now d "m\<lparr>gmActive := False\<rparr>" d1] stage.prems by (simp add: keydb_ok_def)
next
  case (phase now d ph d')
  then obtain r where "d' = d\<lparr>key_rotation := Some r\<rparr>" by (auto simp: SetRotationPhase_def split: option.splits)
  then show ?case using phase.prems by (simp add: keydb_ok_def)
qed (simp_all add: keydb_ok_def ClearUnpublished_def PromoteRotation_def ClearRotation_def)

section \<open>Reading generations\<close>

interpretation gen_less: strict_weak_less "\<lambda>a b. kgSeq a < kgSeq b" UNIV
  by unfold_locales auto

lemma set_Generations: "set (Generations d) = scan_gen d ` set (key_generations d)"
  by (simp add: Generations_def)

lemma scan_gen_simps [simp]:
  "gmGenerationID (scan_gen d r) = kgID r" "gmSeq (scan_gen d r) = kgSeq r" "gmActive (scan_gen d r) \<longleftrightarrow> kgStatus r = ''active''"
  "gmMAC (scan_gen d r) = []" "gmCounter (scan_gen d r) = 0" "gmSlots (scan_gen d r) = Slots d (kgID r)"
  by (simp_all add: scan_gen_def)

lemma find_unique_prop:
  assumes "x \<in> set xs" "P x" "\<And>y. y \<in> set xs \<Longrightarrow> P y \<Longrightarrow> y = x"
  shows "find P xs = Some x"
proof (cases "find P xs")
  case None
  then show ?thesis using assms(1,2) by (simp add: find_None_iff)
next
  case (Some y)
  then have "y \<in> set xs" "P y" by (auto simp: find_Some_iff)
  with Some assms(3) show ?thesis by simp
qed

lemma Generation_scan:
  assumes "keydb_ok d" "r \<in> set (key_generations d)"
  shows "Generation d (kgID r) = Some (scan_gen d r)"
proof -
  have "y = scan_gen d r" if "y \<in> set (Generations d)" "gmGenerationID y = kgID r" for y
    using that assms by (auto simp: set_Generations keydb_ok_def distinct_map inj_on_def)
  then show ?thesis using assms(2) unfolding Generation_def by (intro find_unique_prop) (auto simp: set_Generations)
qed

definition active_ids :: "keydb \<Rightarrow> string set" where
  "active_ids d = kgID ` {r \<in> set (key_generations d). kgStatus r = ''active''}"

lemma in_active_ids: "i \<in> active_ids d \<longleftrightarrow> (\<exists>r \<in> set (key_generations d). kgID r = i \<and> kgStatus r = ''active'')"
  by (auto simp: active_ids_def)

lemma ActiveGeneration_unique:
  assumes "keydb_ok d" "active_ids d = {i}"
  shows "\<exists>g. ActiveGeneration d = Some g \<and> gmGenerationID g = i"
proof -
  obtain r where r: "r \<in> set (key_generations d)" "kgStatus r = ''active''" "kgID r = i"
    using in_active_ids[of i d] assms(2) by auto
  have u: "y = scan_gen d r" if y: "y \<in> set (rev (Generations d))" "gmActive y" for y
  proof -
    obtain r' where r': "y = scan_gen d r'" "r' \<in> set (key_generations d)" "kgStatus r' = ''active''"
      using y by (auto simp: set_Generations)
    then have "kgID r' = i" using in_active_ids[of "kgID r'" d] assms(2) by auto
    then show ?thesis using r r' assms(1) by (auto simp: keydb_ok_def distinct_map inj_on_def)
  qed
  have "find gmActive (rev (Generations d)) = Some (scan_gen d r)"
    using r u by (intro find_unique_prop) (auto simp: set_Generations)
  then show ?thesis using r(3) by (simp add: ActiveGeneration_def)
qed

lemma ex_map_if: "(\<exists>y \<in> set (map (\<lambda>x. if P x then f x else x) xs). Q y) \<longleftrightarrow> (\<exists>x \<in> set xs. Q (if P x then f x else x))"
  by (simp only: list.set_map bex_simps)

lemma ex_set_status:
  "(\<exists>y \<in> set (set_status j st rows). kgID y = i \<and> kgStatus y = s) \<longleftrightarrow>
     (if i = j then j \<in> kgID ` set rows \<and> st = s else (\<exists>x \<in> set rows. kgID x = i \<and> kgStatus x = s))"
proof (cases "i = j")
  case True
  then have "(\<exists>x \<in> set rows. kgID (if kgID x = j then x\<lparr>kgStatus := st\<rparr> else x) = i
      \<and> kgStatus (if kgID x = j then x\<lparr>kgStatus := st\<rparr> else x) = s) \<longleftrightarrow> (\<exists>x \<in> set rows. kgID x = j \<and> st = s)"
    by (intro bex_cong) auto
  also have "\<dots> \<longleftrightarrow> j \<in> kgID ` set rows \<and> st = s" by auto
  finally show ?thesis using True unfolding set_status_def ex_map_if by simp
next
  case False
  then show ?thesis unfolding set_status_def ex_map_if by (auto intro!: bex_cong)
qed

lemma active_ids_put:
  assumes "putGeneration now d m = Inr d'"
  shows "active_ids d' = (if gmActive m then insert (gmGenerationID m) (active_ids d) else active_ids d - {gmGenerationID m})"
proof -
  have "key_generations d' = put_gen_row now m (key_generations d)"
    unfolding putGeneration_parts(1)[OF assms] by simp
  then have g: "i \<in> active_ids d' \<longleftrightarrow> (\<exists>r \<in> set (put_gen_row now m (key_generations d)). kgID r = i \<and> kgStatus r = ''active'')" for i
    by (simp add: in_active_ids)
  show ?thesis
  proof (rule set_eqI)
    fix i
    show "i \<in> active_ids d' \<longleftrightarrow>
        i \<in> (if gmActive m then insert (gmGenerationID m) (active_ids d) else active_ids d - {gmGenerationID m})"
    proof (cases "gmGenerationID m \<in> kgID ` set (key_generations d)")
      case True
      then have eq: "put_gen_row now m (key_generations d) =
          set_status (gmGenerationID m) (statusOf m) (key_generations d)"
        by (auto simp: put_gen_row_def upsert_row_def set_status_def)
      show ?thesis unfolding g eq ex_set_status using True by (simp add: in_active_ids statusOf_def)
    next
      case False
      then have "put_gen_row now m (key_generations d) = key_generations d @
          [\<lparr>kgID = gmGenerationID m, kgSeq = gmSeq m, kgStatus = statusOf m, kgCreatedAt = UnixMilli now\<rparr>]"
        by (force simp: put_gen_row_def upsert_row_def)
      moreover have "gmGenerationID m \<notin> active_ids d" using False by (auto simp: active_ids_def)
      ultimately show ?thesis unfolding g by (auto simp: in_active_ids statusOf_def)
    qed
  qed
qed

lemma active_ids_promote:
  assumes "oldID \<noteq> newID" "newID \<in> kgID ` set (key_generations d)"
  shows "active_ids (PromoteRotation now d oldID newID) = insert newID (active_ids d - {oldID})"
proof (rule set_eqI)
  fix i
  have rows: "key_generations (PromoteRotation now d oldID newID) =
      set_status newID ''active'' (set_status oldID ''retained'' (key_generations d))"
    by (simp add: PromoteRotation_def)
  show "i \<in> active_ids (PromoteRotation now d oldID newID) \<longleftrightarrow> i \<in> insert newID (active_ids d - {oldID})"
    unfolding in_active_ids[of i "PromoteRotation now d oldID newID"] rows ex_set_status set_status_ids
    using assms by (simp add: in_active_ids)
qed

section \<open>Properties\<close>

text \<open>In every state the key store can reach, generation ids, generation numbers, slot ids and trusted kinds are unique,
  and every slot belongs to a stored generation: two generations never share a number.\<close>

theorem key_store_invariant:
  "key_step\<^sup>*\<^sup>* empty_keydb d \<Longrightarrow> keydb_ok d"
proof (induction rule: rtranclp_induct)
  case base
  then show ?case by (simp add: keydb_ok_def empty_keydb_def)
next
  case (step d d')
  then show ?case using key_step_ok by blast
qed

text \<open>C11: A key rotation never leaves the store without its active generation: staging the new generation keeps the old one
  the only active one, and promoting makes the new one the only active one.\<close>

theorem rotation_one_active:
  assumes "keydb_ok d" "active_ids d = {gmGenerationID old}" "gmGenerationID nextG \<noteq> gmGenerationID old"
    and "StageRotation now d nextG old enc = Inr d1"
  shows "(\<exists>g. ActiveGeneration d1 = Some g \<and> gmGenerationID g = gmGenerationID old) \<and> active_ids d1 = {gmGenerationID old}
     \<and> (let d2 = PromoteRotation now' d1 (gmGenerationID old) (gmGenerationID nextG)
        in (\<exists>g. ActiveGeneration d2 = Some g \<and> gmGenerationID g = gmGenerationID nextG) \<and> active_ids d2 = {gmGenerationID nextG})"
proof -
  obtain d0 where d0: "putGeneration now d (nextG\<lparr>gmActive := False\<rparr>) = Inr d0" "key_generations d1 = key_generations d0"
    using assms(4) by (auto simp: StageRotation_def result_Inr)
  have ok1: "keydb_ok d1" using key_step_ok[OF key_step.stage[OF assms(4)] assms(1)] .
  have a1: "active_ids d1 = {gmGenerationID old}"
    using active_ids_put[OF d0(1)] assms(2,3) d0(2) by (simp add: active_ids_def)
  let ?d2 = "PromoteRotation now' d1 (gmGenerationID old) (gmGenerationID nextG)"
  have ok2: "keydb_ok ?d2" using key_step_ok[OF key_step.promote ok1] .
  have "gmGenerationID nextG \<in> kgID ` set (key_generations d1)"
    unfolding d0(2) putGeneration_parts(1)[OF d0(1)] by (simp add: put_gen_row_set)
  then have a2: "active_ids ?d2 = {gmGenerationID nextG}"
    using active_ids_promote[of "gmGenerationID old" "gmGenerationID nextG" d1 now'] assms(3) by (simp add: a1)
  show ?thesis using ActiveGeneration_unique[OF ok1 a1] ActiveGeneration_unique[OF ok2 a2] a1 a2 by (simp add: Let_def)
qed

text \<open>A manifest read from the store never verifies, whatever the key: the table keeps neither its MAC nor its counter.\<close>

theorem stored_manifests_never_verify:
  assumes "m \<in> set (Generations d)" "\<And>k b. hmac256 K k b \<noteq> []"
  shows "Verify K m smk \<noteq> None \<and> gmCounter m = 0"
proof -
  have "hex_encode (hmac256 K k b) \<noteq> []" for k b
    using assms(2)[of k b] by (cases "hmac256 K k b") (auto simp: hex_encode_def)
  then show ?thesis using assms(1) by (auto simp: set_Generations Verify_def split: sum.splits)
qed

subsection \<open>Concrete runs\<close>

definition demo_gen_of :: "string \<Rightarrow> int \<Rightarrow> gen_manifest" where
  "demo_gen_of i n = \<lparr>gmVersion = 1, gmGenerationID = i, gmSeq = n, gmCounter = 1, gmActive = True, gmSlots =
     [\<lparr>slID = ''s'' @ i, slType = TypeRecovery, slGenerationID = i, slWrapParams = [], slWrappedSMK = [1], slStatus = SlotActive,
       slCreatedAt = 5, slLabel = []\<rparr>], gmMAC = ''00''\<rparr>"

definition demo_keydb :: keydb where
  "demo_keydb = (case putGeneration 3 empty_keydb (demo_gen_of ''g1'' 1) of Inr d \<Rightarrow> d | Inl _ \<Rightarrow> empty_keydb)"

lemma demo_keydb_put: "putGeneration 3 empty_keydb (demo_gen_of ''g1'' 1) = Inr demo_keydb"
  by (simp add: demo_keydb_def putGeneration_def empty_keydb_def Let_def)

theorem key_store_invariant_witness:
  "key_step\<^sup>*\<^sup>* empty_keydb demo_keydb \<and> keydb_ok demo_keydb"
proof -
  have "key_step\<^sup>*\<^sup>* empty_keydb demo_keydb" using key_step.put[OF demo_keydb_put] by simp
  with key_store_invariant show ?thesis by blast
qed

lemma demo_keydb_ok: "keydb_ok demo_keydb"
  by (rule putGeneration_ok[OF demo_keydb_put]) (simp add: keydb_ok_def empty_keydb_def)

theorem rotation_one_active_witness:
  "\<exists>d1. StageRotation 4 demo_keydb (demo_gen_of ''g2'' 2) (demo_gen_of ''g1'' 1) ''r'' = Inr d1
     \<and> active_ids d1 = {''g1''} \<and> active_ids (PromoteRotation 5 d1 ''g1'' ''g2'') = {''g2''}"
proof -
  have "\<not> isl (StageRotation 4 demo_keydb (demo_gen_of ''g2'' 2) (demo_gen_of ''g1'' 1) ''r'')" by code_simp
  then obtain d1 where d1: "StageRotation 4 demo_keydb (demo_gen_of ''g2'' 2) (demo_gen_of ''g1'' 1) ''r'' = Inr d1"
    by (cases "StageRotation 4 demo_keydb (demo_gen_of ''g2'' 2) (demo_gen_of ''g1'' 1) ''r''") auto
  have "active_ids demo_keydb = {''g1''}"
    using active_ids_put[OF demo_keydb_put] by (simp add: demo_gen_of_def active_ids_def empty_keydb_def)
  then have "active_ids demo_keydb = {gmGenerationID (demo_gen_of ''g1'' 1)}" by (simp add: demo_gen_of_def)
  from rotation_one_active[OF demo_keydb_ok this _ d1, of 5] d1 show ?thesis by (simp add: demo_gen_of_def Let_def)
qed

theorem stored_manifests_never_verify_witness:
  "\<exists>m \<in> set (Generations demo_keydb). Verify demo_key_env m [9] \<noteq> None"
proof -
  have "Generations demo_keydb \<noteq> []" by code_simp
  then obtain m where "m \<in> set (Generations demo_keydb)" by (meson list.set_sel(1))
  moreover have "hmac256 demo_key_env k b \<noteq> []" for k b by (simp add: demo_key_env_def)
  ultimately show ?thesis using stored_manifests_never_verify by blast
qed

end
