(* ===== verification/Device.thy ===== *)
theory Device
  imports Db
begin

text \<open>
  The device registry (\<^verbatim>\<open>internal/device/device.go\<close>). A retired device stays retired whatever the other
  replicas report about it, until it is deleted; the theory states the registry as a step relation and
  proves that by rule induction.
\<close>

definition StatusActive :: string where
  "StatusActive = ''active''"

definition StatusRetired :: string where
  "StatusRetired = ''retired''"

record device =
  dvID :: string
  dvName :: string
  dvHostname :: string
  dvStatus :: string
  dvCreatedAt :: gotime
  dvRetiredAt :: "gotime option"

text \<open>\<^verbatim>\<open>os.Hostname()\<close> is an argument.\<close>

definition DefaultName :: "string result \<Rightarrow> string" where
  "DefaultName hostname = (case hostname of Inl _ \<Rightarrow> ''unnamed'' | Inr h \<Rightarrow> if h = [] then ''unnamed'' else h)"

text \<open>\<^verbatim>\<open>ON CONFLICT(id) DO UPDATE\<close>: a retired device is not made active again.\<close>

definition upsert_device :: "device_row list \<Rightarrow> device_row \<Rightarrow> device_row list" where
  "upsert_device ds x =
     (if \<exists>r \<in> set ds. d_id r = d_id x then
        map (\<lambda>r. if d_id r = d_id x then
               (let keep = (d_status r = ''retired'' \<and> d_status x = ''active'')
                in r\<lparr>d_name := d_name x, d_hostname := d_hostname x,
                     d_status := (if keep then d_status r else d_status x),
                     d_retired_at := (if keep then d_retired_at r else d_retired_at x)\<rparr>)
             else r) ds
      else ds @ [x])"

definition Upsert :: "gotime \<Rightarrow> device_row list \<Rightarrow> device \<Rightarrow> device_row list" where
  "Upsert now ds dev =
     (let created = (if dvCreatedAt dev = zero_time then now else dvCreatedAt dev);
          status = (if dvStatus dev = [] then StatusActive else dvStatus dev)
      in upsert_device ds
           \<lparr>d_id = dvID dev, d_name = dvName dev, d_hostname = nullString (dvHostname dev), d_status = status,
            d_created_at = UnixMilli created, d_retired_at = map_option UnixMilli (dvRetiredAt dev)\<rparr>)"

definition scanDevice :: "device_row \<Rightarrow> device" where
  "scanDevice r = \<lparr>dvID = d_id r, dvName = d_name r, dvHostname = stringOf (d_hostname r), dvStatus = d_status r,
     dvCreatedAt = ofMilli (d_created_at r), dvRetiredAt = map_option ofMilli (d_retired_at r)\<rparr>"

definition device_Get :: "device_row list \<Rightarrow> string \<Rightarrow> device option" where
  "device_Get ds i = map_option scanDevice (find (\<lambda>r. d_id r = i) ds)"

definition device_List :: "device_row list \<Rightarrow> device list" where
  "device_List ds = map scanDevice (sort_by (\<lambda>a b. d_created_at a < d_created_at b) ds)"

definition Retire :: "device_row list \<Rightarrow> string \<Rightarrow> gotime \<Rightarrow> device_row list \<times> go_error option" where
  "Retire ds i at =
     (map (\<lambda>r. if d_id r = i then r\<lparr>d_status := StatusRetired, d_retired_at := Some (UnixMilli at)\<rparr> else r) ds,
      if filter (\<lambda>r. d_id r = i) ds = [] then Some (Errorf (''device '' @ i @ '' not found'')) else None)"

definition device_Delete :: "device_row list \<Rightarrow> string \<Rightarrow> device_row list \<times> go_error option" where
  "device_Delete ds i =
     (filter (\<lambda>r. d_id r \<noteq> i) ds,
      if filter (\<lambda>r. d_id r = i) ds = [] then Some (Errorf (''device '' @ i @ '' not found'')) else None)"

definition device_DeleteIfExists :: "device_row list \<Rightarrow> string \<Rightarrow> device_row list" where
  "device_DeleteIfExists ds i = filter (\<lambda>r. d_id r \<noteq> i) ds"

definition ActiveIDs :: "device_row list \<Rightarrow> string list" where
  "ActiveIDs ds = map d_id (filter (\<lambda>r. d_status r = StatusActive) ds)"

section \<open>The registry as a transition system\<close>

datatype device_op = DUpsert gotime device | DRetire string gotime | DDelete string | DDeleteIfExists string

inductive device_step :: "device_row list \<Rightarrow> device_op \<Rightarrow> device_row list \<Rightarrow> bool" where
  upsert: "device_step ds (DUpsert now dev) (Upsert now ds dev)"
| retire: "device_step ds (DRetire i at) (fst (Retire ds i at))"
| delete: "device_step ds (DDelete i) (fst (device_Delete ds i))"
| delete_if: "device_step ds (DDeleteIfExists i) (device_DeleteIfExists ds i)"

inductive_cases device_stepE: "device_step ds x ds'"

inductive device_run :: "device_row list \<Rightarrow> device_op list \<Rightarrow> device_row list \<Rightarrow> bool" where
  nil: "device_run ds [] ds"
| step: "device_run ds xs ds' \<Longrightarrow> device_step ds' x ds'' \<Longrightarrow> device_run ds (xs @ [x]) ds''"

definition registry_ok :: "device_row list \<Rightarrow> bool" where
  "registry_ok ds \<longleftrightarrow> distinct (map d_id ds)"

definition retired :: "device_row list \<Rightarrow> string \<Rightarrow> bool" where
  "retired ds i \<longleftrightarrow> (\<exists>r \<in> set ds. d_id r = i \<and> d_status r = StatusRetired)"

text \<open>Operations other replicas cause: they report a status the program knows, and do not delete the device.\<close>

fun keeps_device :: "string \<Rightarrow> device_op \<Rightarrow> bool" where
  "keeps_device i (DUpsert now dev) \<longleftrightarrow> dvStatus dev \<in> {[], StatusActive, StatusRetired}"
| "keeps_device i (DRetire j at) \<longleftrightarrow> True"
| "keeps_device i (DDelete j) \<longleftrightarrow> j \<noteq> i"
| "keeps_device i (DDeleteIfExists j) \<longleftrightarrow> j \<noteq> i"

lemmas device_defs = Upsert_def Retire_def device_Delete_def device_DeleteIfExists_def upsert_device_def
  StatusActive_def StatusRetired_def

lemma map_ids: "(\<And>r. d_id (f r) = d_id r) \<Longrightarrow> map d_id (map f ds) = map d_id ds"
  by simp

lemma upsert_device_ok:
  assumes "registry_ok ds"
  shows "registry_ok (upsert_device ds x)"
proof (cases "\<exists>r \<in> set ds. d_id r = d_id x")
  case True
  then have "map d_id (upsert_device ds x) = map d_id ds"
    unfolding upsert_device_def by (simp only: if_True, intro map_ids) (simp add: Let_def)
  with assms show ?thesis by (simp add: registry_ok_def)
next
  case False
  then show ?thesis using assms by (auto simp: upsert_device_def registry_ok_def)
qed

lemma retired_map:
  assumes "retired ds i" "\<And>r. d_id (f r) = d_id r" "\<And>r. d_status r = StatusRetired \<Longrightarrow> d_status (f r) = StatusRetired"
  shows "retired (map f ds) i"
proof -
  from assms(1) obtain r where "r \<in> set ds" "d_id r = i" "d_status r = StatusRetired" by (auto simp: retired_def)
  then show ?thesis unfolding retired_def using assms(2,3) by (intro bexI[of _ "f r"]) auto
qed

lemma upsert_device_retired:
  assumes "retired ds i" "d_status x \<in> {StatusActive, StatusRetired}"
  shows "retired (upsert_device ds x) i"
proof (cases "\<exists>r \<in> set ds. d_id r = d_id x")
  case True
  then show ?thesis
    unfolding upsert_device_def using assms
    by (simp only: if_True, intro retired_map) (auto simp: Let_def StatusActive_def StatusRetired_def)
next
  case False
  then show ?thesis using assms(1) by (auto simp: upsert_device_def retired_def)
qed

lemma device_step_ok:
  assumes "device_step ds x ds'" "registry_ok ds"
  shows "registry_ok ds'"
  using assms
proof (cases rule: device_step.cases)
  case (upsert now dev)
  then show ?thesis using assms(2) by (simp add: Upsert_def Let_def upsert_device_ok)
next
  case (retire i at)
  have "map d_id (fst (Retire ds i at)) = map d_id ds"
    unfolding Retire_def fst_conv by (rule map_ids) simp
  with retire assms(2) show ?thesis by (simp add: registry_ok_def)
qed (use assms(2) in \<open>auto simp: registry_ok_def device_defs distinct_map_filter\<close>)

lemma device_step_retired:
  assumes "device_step ds x ds'" "retired ds i" "keeps_device i x"
  shows "retired ds' i"
  using assms
proof (cases rule: device_step.cases)
  case (upsert now dev)
  with assms show ?thesis by (auto simp: Upsert_def Let_def intro: upsert_device_retired)
next
  case (retire j at)
  with assms(2) show ?thesis by (simp add: Retire_def) (rule retired_map, auto)
qed (use assms(3) in \<open>auto simp: retired_def device_defs\<close>)

text \<open>Along any run of the registry, ids stay unique, and a device that is retired stays retired as long as it is
  not deleted and every report about a device carries one of the statuses of the program, be it a late report that
  the device is active.\<close>

theorem retired_is_final:
  assumes "device_run ds xs ds'" "registry_ok ds" "retired ds i" "list_all (keeps_device i) xs"
  shows "registry_ok ds' \<and> retired ds' i"
  using assms by (induction rule: device_run.induct) (auto intro: device_step_ok device_step_retired)

definition demo_device :: "string \<Rightarrow> device" where
  "demo_device st = \<lparr>dvID = ''a'', dvName = ''laptop'', dvHostname = ''h'', dvStatus = st, dvCreatedAt = 5000000, dvRetiredAt = None\<rparr>"

definition demo_registry :: "device_row list" where
  "demo_registry = fst (Retire (Upsert 0 [] (demo_device StatusActive)) ''a'' 7000000)"

theorem retired_is_final_witness:
  "registry_ok (Upsert 9 demo_registry (demo_device [])) \<and> retired (Upsert 9 demo_registry (demo_device [])) ''a''"
proof -
  have "device_run demo_registry ([] @ [DUpsert 9 (demo_device [])]) (Upsert 9 demo_registry (demo_device []))"
    by (rule device_run.step[OF device_run.nil device_step.upsert])
  moreover have "registry_ok demo_registry" "retired demo_registry ''a''"
    by (simp_all add: registry_ok_def retired_def demo_registry_def demo_device_def device_defs Let_def)
  moreover have "list_all (keeps_device ''a'') ([] @ [DUpsert 9 (demo_device [])])" by (simp add: demo_device_def)
  ultimately show ?thesis by (rule retired_is_final)
qed

end
