(* ===== verification/Checkpoint.thy ===== *)
theory Checkpoint
  imports Bundle Changes Frontier
begin

text \<open>
  Checkpoints and acknowledgements (\<^verbatim>\<open>internal/sync/checkpoint\<close>, \<^verbatim>\<open>internal/sync/ack\<close>). A snapshot replaces the
  strings of an entry by indexes into tables, is encoded, compressed and sealed, and framed in a small binary
  file. The theory shows the round trips of the row encoding, of the file frame and of the whole snapshot.
  CBOR, JSON and gzip are parameters.
\<close>

section \<open>Manifests and acknowledgements\<close>

record manifest =
  mfVersion :: int
  mfID :: string
  mfGenerationID :: string
  mfFrontier :: frontier
  mfCreatedAt :: int

definition checkpoint_CurrentVersion :: int where
  "checkpoint_CurrentVersion = 1"

definition NewManifest :: "gotime \<Rightarrow> string \<Rightarrow> string \<Rightarrow> frontier \<Rightarrow> manifest" where
  "NewManifest now i generationID f =
     \<lparr>mfVersion = checkpoint_CurrentVersion, mfID = i, mfGenerationID = generationID, mfFrontier = Clone f,
      mfCreatedAt = UnixMilli now\<rparr>"

definition EncodeManifest :: "(manifest \<Rightarrow> bytes result) \<Rightarrow> manifest \<Rightarrow> bytes result" where
  "EncodeManifest marshal m = marshal m"

definition DecodeManifest :: "(bytes \<Rightarrow> manifest result) \<Rightarrow> bytes \<Rightarrow> manifest result" where
  "DecodeManifest unmarshal b =
     bind_result (unmarshal b) (\<lambda>m.
       if mfVersion m \<noteq> checkpoint_CurrentVersion
       then Inl (Errorf (''unsupported checkpoint version '' @ show_int (mfVersion m))) else Inr m)"

record ack =
  akVersion :: int
  akDeviceID :: string
  akFrontier :: frontier
  akCheckpointID :: string
  akUpdatedAt :: int

definition NewAck :: "gotime \<Rightarrow> string \<Rightarrow> frontier \<Rightarrow> string \<Rightarrow> ack" where
  "NewAck now deviceID f checkpointID =
     \<lparr>akVersion = 1, akDeviceID = deviceID, akFrontier = Clone f, akCheckpointID = checkpointID, akUpdatedAt = UnixMilli now\<rparr>"

section \<open>The intern tables of a snapshot\<close>

record intern =
  inIndex :: "(string \<times> nat) list"
  inList :: "string list"

definition newIntern :: intern where
  "newIntern = \<lparr>inIndex = [([], 0)], inList = [[]]\<rparr>"

definition intern_add :: "intern \<Rightarrow> string \<Rightarrow> intern \<times> nat" where
  "intern_add t s =
     (case map_of (inIndex t) s of
        Some i \<Rightarrow> (t, i)
      | None \<Rightarrow> (let i = length (inList t)
                 in (\<lparr>inIndex = map_put s i (inIndex t), inList = inList t @ [s]\<rparr>, i)))"

definition snap_ok :: "intern \<Rightarrow> bool" where
  "snap_ok t \<longleftrightarrow> (\<forall>s i. map_of (inIndex t) s = Some i \<longleftrightarrow> i < length (inList t) \<and> inList t ! i = s)"

lemma snap_ok_new [simp]: "snap_ok newIntern"
  by (auto simp: snap_ok_def newIntern_def less_Suc_eq_0_disj)

lemma intern_add_cases:
  assumes "snap_ok t"
  obtains (old) i where "intern_add t s = (t, i)" "i < length (inList t)" "inList t ! i = s"
  | (new) t' where "intern_add t s = (t', length (inList t))" "inList t' = inList t @ [s]" "snap_ok t'"
proof (cases "map_of (inIndex t) s")
  case (Some i)
  from Some have "intern_add t s = (t, i)" by (simp add: intern_add_def)
  moreover have "i < length (inList t)" "inList t ! i = s" using assms Some by (auto simp: snap_ok_def)
  ultimately show thesis by (rule old)
next
  case None
  let ?t = "\<lparr>inIndex = map_put s (length (inList t)) (inIndex t), inList = inList t @ [s]\<rparr>"
  have "map_of (inIndex t) u \<noteq> Some (length (inList t))" for u using assms by (auto simp: snap_ok_def)
  moreover have "map_of (inIndex t) u = Some j \<longleftrightarrow> j < length (inList t) \<and> inList t ! j = u" for u j
    using assms by (auto simp: snap_ok_def)
  moreover have "i < length (inList t) \<Longrightarrow> inList t ! i \<noteq> s" for i
    using None assms unfolding snap_ok_def by (metis option.distinct(1))
  ultimately have "snap_ok ?t"
    using None by (auto simp: snap_ok_def map_of_put nth_append less_Suc_eq)
  with None show thesis by (intro new[of ?t]) (auto simp: intern_add_def Let_def)
qed

interpretation snap: interner intern_add "\<lambda>t i. inList t ! i" "\<lambda>t i. i < length (inList t)" snap_ok "\<lambda>_. True"
proof unfold_locales
  fix t s assume ok: "snap_ok t"
  show "snap_ok (fst (intern_add t s))" "snd (intern_add t s) < length (inList (fst (intern_add t s)))"
    "inList (fst (intern_add t s)) ! snd (intern_add t s) = s"
    using ok by (cases rule: intern_add_cases[OF ok, of s]; simp)+
  fix i assume i: "i < length (inList t)"
  show "i < length (inList (fst (intern_add t s)))" "inList (fst (intern_add t s)) ! i = inList t ! i"
    using i by (cases rule: intern_add_cases[OF ok, of s]; simp add: nth_append)+
next
  fix t i j assume "snap_ok t" "i < length (inList t)" "j < length (inList t)" "inList t ! i = inList t ! j"
  then show "i = j" unfolding snap_ok_def by (metis option.inject)
qed

section \<open>Rows\<close>

record compactRow =
  wID :: string
  wCommand :: string
  wStartMS :: int
  wEndMS :: "int option"
  wDurationMs :: "int option"
  wExitStatus :: "int option"
  wCwd :: string
  wSessionIdx :: int
  wHostIdx :: int
  wDeviceIdx :: int
  wShellIdx :: int
  wDeleted :: bool
  wOriginDevIdx :: int
  wOriginSeq :: "int option"
  wCreatedMS :: int

record snapshot =
  spVersion :: int
  spSessions :: "string list"
  spHosts :: "string list"
  spDevices :: "string list"
  spShells :: "string list"
  spRows :: "compactRow list"

definition snapshotVersion :: int where
  "snapshotVersion = 2"

record intern_set =
  isSessions :: intern
  isHosts :: intern
  isDevices :: intern
  isShells :: intern

text \<open>One pass of the loop of \<^verbatim>\<open>encodeSnapshot\<close>; the fields of the literal are evaluated in their order.\<close>

definition encode_row :: "intern_set \<Rightarrow> entry \<Rightarrow> intern_set \<times> compactRow" where
  "encode_row t e =
     (let (ss, si) = intern_add (isSessions t) (eSessionID e);
          (hs, hi) = intern_add (isHosts t) (eHostname e);
          (ds, di) = intern_add (isDevices t) (eDeviceID e);
          (sh, shi) = intern_add (isShells t) (eShell e);
          (ds', oi) = intern_add ds (eOriginDeviceID e)
      in (\<lparr>isSessions = ss, isHosts = hs, isDevices = ds', isShells = sh\<rparr>,
          \<lparr>wID = eID e, wCommand = eCommand e, wStartMS = UnixMilli (eStartTS e),
           wEndMS = map_option UnixMilli (eEndTS e), wDurationMs = eDurationMs e, wExitStatus = eExitStatus e,
           wCwd = eCwd e, wSessionIdx = int si, wHostIdx = int hi, wDeviceIdx = int di, wShellIdx = int shi,
           wDeleted = eDeleted e, wOriginDevIdx = int oi, wOriginSeq = eOriginSeq e, wCreatedMS = UnixMilli (eCreatedAt e)\<rparr>))"

fun encode_rows :: "intern_set \<Rightarrow> entry list \<Rightarrow> intern_set \<times> compactRow list" where
  "encode_rows t [] = (t, [])"
| "encode_rows t (e # es) =
     (let (t1, r) = encode_row t e; (t2, rs) = encode_rows t1 es in (t2, r # rs))"

definition encodeSnapshot :: "entry list \<Rightarrow> snapshot" where
  "encodeSnapshot es =
     (let (t, rows) = encode_rows \<lparr>isSessions = newIntern, isHosts = newIntern, isDevices = newIntern, isShells = newIntern\<rparr> es
      in \<lparr>spVersion = snapshotVersion, spSessions = inList (isSessions t), spHosts = inList (isHosts t),
          spDevices = inList (isDevices t), spShells = inList (isShells t), spRows = rows\<rparr>)"

definition intern_at :: "string list \<Rightarrow> int \<Rightarrow> string result" where
  "intern_at xs i =
     (if i < 0 \<or> i \<ge> int (length xs) then Inl (Errorf (''snapshot intern index '' @ show_int i @ '' out of range''))
      else Inr (xs ! nat i))"

definition decode_row :: "snapshot \<Rightarrow> compactRow \<Rightarrow> entry result" where
  "decode_row s r =
     bind_result (intern_at (spSessions s) (wSessionIdx r)) (\<lambda>session.
     bind_result (intern_at (spHosts s) (wHostIdx r)) (\<lambda>host.
     bind_result (intern_at (spDevices s) (wDeviceIdx r)) (\<lambda>dev.
     bind_result (intern_at (spDevices s) (wOriginDevIdx r)) (\<lambda>origin.
     bind_result (intern_at (spShells s) (wShellIdx r)) (\<lambda>shell.
       Inr \<lparr>eID = wID r, eCommand = wCommand r, eStartTS = ofMilli (wStartMS r), eEndTS = map_option ofMilli (wEndMS r),
            eDurationMs = wDurationMs r, eExitStatus = wExitStatus r, eCwd = wCwd r, eSessionID = session,
            eHostname = host, eDeviceID = dev, eShell = shell, eDeleted = wDeleted r, eOriginDeviceID = origin,
            eOriginSeq = wOriginSeq r, eCreatedAt = ofMilli (wCreatedMS r)\<rparr>)))))"

fun decode_rows :: "snapshot \<Rightarrow> compactRow list \<Rightarrow> entry list result" where
  "decode_rows s [] = Inr []"
| "decode_rows s (r # rs) = bind_result (decode_row s r) (\<lambda>e. bind_result (decode_rows s rs) (\<lambda>es. Inr (e # es)))"

definition snapshot_entries :: "snapshot \<Rightarrow> entry list result" where
  "snapshot_entries s = decode_rows s (spRows s)"

text \<open>What a stored entry keeps of its times: milliseconds.\<close>

definition trunc_entry :: "entry \<Rightarrow> entry" where
  "trunc_entry e = e\<lparr>eStartTS := ofMilli (UnixMilli (eStartTS e)), eEndTS := map_option (\<lambda>t. ofMilli (UnixMilli t)) (eEndTS e),
     eCreatedAt := ofMilli (UnixMilli (eCreatedAt e))\<rparr>"

section \<open>Round trip of the rows\<close>

definition tables_ok :: "intern_set \<Rightarrow> bool" where
  "tables_ok t \<longleftrightarrow> snap_ok (isSessions t) \<and> snap_ok (isHosts t) \<and> snap_ok (isDevices t) \<and> snap_ok (isShells t)"

text \<open>A list that extends another one: indexes keep their string.\<close>

definition extends :: "string list \<Rightarrow> string list \<Rightarrow> bool" where
  "extends xs ys \<longleftrightarrow> (\<exists>zs. ys = xs @ zs)"

lemma extends_refl [simp]: "extends xs xs"
  by (simp add: extends_def)

lemma extends_trans: "extends xs ys \<Longrightarrow> extends ys zs \<Longrightarrow> extends xs zs"
  by (auto simp: extends_def)

lemma intern_add_spec:
  assumes "snap_ok t"
  obtains t' i where "intern_add t s = (t', i)" "snap_ok t'" "extends (inList t) (inList t')" "i < length (inList t')" "inList t' ! i = s"
proof (rule intern_add_cases[OF assms, of s])
  fix i assume "intern_add t s = (t, i)" "i < length (inList t)" "inList t ! i = s"
  with assms that show thesis by simp
next
  fix t' assume "intern_add t s = (t', length (inList t))" "inList t' = inList t @ [s]" "snap_ok t'"
  then show thesis by (intro that[of t' "length (inList t)"]) (auto simp: extends_def)
qed

lemma intern_at_extends: "i < length xs \<Longrightarrow> extends xs ys \<Longrightarrow> intern_at ys (int i) = Inr (xs ! i)"
  by (auto simp: intern_at_def extends_def nth_append)

definition tables_extend :: "intern_set \<Rightarrow> intern_set \<Rightarrow> bool" where
  "tables_extend t u \<longleftrightarrow> extends (inList (isSessions t)) (inList (isSessions u)) \<and> extends (inList (isHosts t)) (inList (isHosts u)) \<and>
     extends (inList (isDevices t)) (inList (isDevices u)) \<and> extends (inList (isShells t)) (inList (isShells u))"

lemma encode_row_spec:
  assumes "tables_ok t"
  obtains u r where "encode_row t e = (u, r)" "tables_ok u" "tables_extend t u"
    "\<And>s v. tables_extend u v \<Longrightarrow> spSessions s = inList (isSessions v) \<Longrightarrow> spHosts s = inList (isHosts v) \<Longrightarrow>
       spDevices s = inList (isDevices v) \<Longrightarrow> spShells s = inList (isShells v) \<Longrightarrow> decode_row s r = Inr (trunc_entry e)"
proof -
  have ok: "snap_ok (isSessions t)" "snap_ok (isHosts t)" "snap_ok (isDevices t)" "snap_ok (isShells t)"
    using assms by (auto simp: tables_ok_def)
  obtain ss si where 1: "intern_add (isSessions t) (eSessionID e) = (ss, si)" "snap_ok ss" "extends (inList (isSessions t)) (inList ss)"
    "si < length (inList ss)" "inList ss ! si = eSessionID e" by (rule intern_add_spec[OF ok(1)])
  obtain hs hi where 2: "intern_add (isHosts t) (eHostname e) = (hs, hi)" "snap_ok hs" "extends (inList (isHosts t)) (inList hs)"
    "hi < length (inList hs)" "inList hs ! hi = eHostname e" by (rule intern_add_spec[OF ok(2)])
  obtain ds di where 3: "intern_add (isDevices t) (eDeviceID e) = (ds, di)" "snap_ok ds" "extends (inList (isDevices t)) (inList ds)"
    "di < length (inList ds)" "inList ds ! di = eDeviceID e" by (rule intern_add_spec[OF ok(3)])
  obtain sh shi where 4: "intern_add (isShells t) (eShell e) = (sh, shi)" "snap_ok sh" "extends (inList (isShells t)) (inList sh)"
    "shi < length (inList sh)" "inList sh ! shi = eShell e" by (rule intern_add_spec[OF ok(4)])
  obtain ds' oi where 5: "intern_add ds (eOriginDeviceID e) = (ds', oi)" "snap_ok ds'" "extends (inList ds) (inList ds')"
    "oi < length (inList ds')" "inList ds' ! oi = eOriginDeviceID e" by (rule intern_add_spec[OF 3(2)])
  let ?u = "\<lparr>isSessions = ss, isHosts = hs, isDevices = ds', isShells = sh\<rparr>"
  show thesis
  proof (rule that)
    show "encode_row t e = (?u, snd (encode_row t e))" by (simp add: encode_row_def 1 2 3 4 5)
    show "tables_ok ?u" using 1 2 4 5 by (simp add: tables_ok_def)
    show "tables_extend t ?u" using 1 2 3 4 5 by (auto simp: tables_extend_def intro: extends_trans)
    fix s :: snapshot and v :: intern_set assume v: "tables_extend ?u v" "spSessions s = inList (isSessions v)" "spHosts s = inList (isHosts v)"
       "spDevices s = inList (isDevices v)" "spShells s = inList (isShells v)"
    have "intern_at (spDevices s) (int di) = Inr (eDeviceID e)"
      using intern_at_extends[OF 3(4) extends_trans[OF 5(3)]] v 3(5) by (simp add: tables_extend_def)
    with v 1 2 4 5 show "decode_row s (snd (encode_row t e)) = Inr (trunc_entry e)"
      by (simp add: encode_row_def decode_row_def 3(1) tables_extend_def intern_at_extends trunc_entry_def option.map_comp o_def)
  qed
qed

lemma encode_rows_spec:
  assumes "tables_ok t" "encode_rows t es = (u, rows)"
  shows "tables_ok u \<and> tables_extend t u \<and>
    (\<forall>s v. tables_extend u v \<longrightarrow> spSessions s = inList (isSessions v) \<longrightarrow> spHosts s = inList (isHosts v) \<longrightarrow>
       spDevices s = inList (isDevices v) \<longrightarrow> spShells s = inList (isShells v) \<longrightarrow> decode_rows s rows = Inr (map trunc_entry es))"
  using assms
proof (induction es arbitrary: t rows)
  case Nil
  then show ?case by (auto simp: tables_extend_def)
next
  case (Cons e es)
  obtain t1 r where 1: "encode_row t e = (t1, r)" "tables_ok t1" "tables_extend t t1"
    "\<And>s v. tables_extend t1 v \<Longrightarrow> spSessions s = inList (isSessions v) \<Longrightarrow> spHosts s = inList (isHosts v) \<Longrightarrow>
       spDevices s = inList (isDevices v) \<Longrightarrow> spShells s = inList (isShells v) \<Longrightarrow> decode_row s r = Inr (trunc_entry e)"
    by (rule encode_row_spec[OF Cons.prems(1)]) blast
  obtain rs where rs: "encode_rows t1 es = (u, rs)" "rows = r # rs"
    using Cons.prems(2) 1(1) by (auto simp: Let_def split: prod.splits)
  have trans: "tables_extend a c" if "tables_extend a b" "tables_extend b c" for a b c
    using that by (auto simp: tables_extend_def intro: extends_trans)
  note IH = Cons.IH[OF 1(2) rs(1)]
  with 1(4) rs(2) trans[OF 1(3)] trans[of t1 u] show ?case by fastforce
qed

text \<open>The rows of a snapshot decode to the entries they were made of, with their times cut to milliseconds; no
  index is ever out of range and no string is lost to the tables.\<close>

theorem snapshot_roundtrip: "snapshot_entries (encodeSnapshot es) = Inr (map trunc_entry es)"
proof -
  let ?t0 = "\<lparr>isSessions = newIntern, isHosts = newIntern, isDevices = newIntern, isShells = newIntern\<rparr>"
  obtain u rows where u: "encode_rows ?t0 es = (u, rows)" by fastforce
  have "tables_ok ?t0" by (simp add: tables_ok_def)
  from encode_rows_spec[OF this u] have "tables_extend u u \<longrightarrow> decode_rows (encodeSnapshot es) rows = Inr (map trunc_entry es)"
    by (auto simp: encodeSnapshot_def u)
  then show ?thesis by (simp add: snapshot_entries_def encodeSnapshot_def u tables_extend_def)
qed

section \<open>Sealed snapshots\<close>

record snapshotV1 =
  s1Version :: int
  s1Entries :: "entry list"

record json_wrap =
  jwVersion :: int
  jwEntries :: "entry list"
  jwRows :: "entry list"

record json_file =
  jfNonce :: bytes
  jfCiphertext :: bytes

text \<open>The codecs the snapshot code calls.\<close>

record snapshot_codec =
  marshal_snapshot :: "snapshot \<Rightarrow> bytes result"
  unmarshal_snapshot :: "bytes \<Rightarrow> snapshot result"
  unmarshal_v1 :: "bytes \<Rightarrow> snapshotV1 result"
  gzipBest :: "bytes \<Rightarrow> bytes result"
  gunzip :: "bytes \<Rightarrow> bytes result"
  json_entries :: "bytes \<Rightarrow> entry list result"
  json_wrapper :: "bytes \<Rightarrow> json_wrap result"
  json_snapshot :: "bytes \<Rightarrow> snapshot result"
  json_sealed :: "bytes \<Rightarrow> json_file result"

definition ascii :: "string \<Rightarrow> bytes" where
  "ascii s = map (\<lambda>c. word_of_nat (of_char c)) s"

definition PackSnapshot :: "snapshot_codec \<Rightarrow> aead \<Rightarrow> (nat \<Rightarrow> bytes result) \<Rightarrow> entry list \<Rightarrow> bytes \<Rightarrow> (bytes \<times> bytes) result" where
  "PackSnapshot C A rand entries smk =
     bind_result (marshal_snapshot C (encodeSnapshot entries)) (\<lambda>raw.
     bind_result (gzipBest C raw) (\<lambda>gz.
     bind_result (RandomNonce rand) (\<lambda>nonce.
     bind_result (Seal A smk nonce gz (ascii ''remnix-checkpoint'')) (\<lambda>ct. Inr (nonce, ct)))))"

definition decodeCBORSnapshot :: "snapshot_codec \<Rightarrow> bytes \<Rightarrow> entry list result" where
  "decodeCBORSnapshot C body =
     (let v1 = (case unmarshal_v1 C body of
                  Inr v \<Rightarrow> if s1Version v = 1 \<or> length (s1Entries v) > 0 then Some (s1Entries v) else None
                | Inl _ \<Rightarrow> None)
      in case unmarshal_snapshot C body of
           Inr s \<Rightarrow>
             if spVersion s = snapshotVersion then snapshot_entries s
             else (case v1 of Some es \<Rightarrow> Inr es
                   | None \<Rightarrow> Inl (Errorf (''unsupported snapshot version '' @ show_int (spVersion s))))
         | Inl err \<Rightarrow> (case v1 of Some es \<Rightarrow> Inr es | None \<Rightarrow> Inl err))"

definition decodeJSONSnapshot :: "snapshot_codec \<Rightarrow> bytes \<Rightarrow> entry list result" where
  "decodeJSONSnapshot C body =
     (if length body > 0 \<and> body ! 0 = 0x5B then json_entries C body
      else
        bind_result (json_wrapper C body) (\<lambda>w.
          if length (jwEntries w) > 0 then Inr (jwEntries w)
          else if length (jwRows w) > 0 then Inr (jwRows w)
          else bind_result (json_snapshot C body) (\<lambda>s.
            if spVersion s = snapshotVersion \<or> length (spRows s) > 0 then snapshot_entries s
            else Inl (Errorf ''json snapshot empty''))))"

definition decodeSnapshotPayload :: "snapshot_codec \<Rightarrow> bytes \<Rightarrow> entry list result" where
  "decodeSnapshotPayload C pt =
     (let body = (case gunzip C pt of Inr u \<Rightarrow> u | Inl _ \<Rightarrow> pt)
      in if length body > 0 \<and> (body ! 0 = 0x7B \<or> body ! 0 = 0x5B) then decodeJSONSnapshot C body
         else decodeCBORSnapshot C body)"

definition UnpackSnapshot :: "snapshot_codec \<Rightarrow> aead \<Rightarrow> bytes \<Rightarrow> bytes \<Rightarrow> bytes \<Rightarrow> entry list result" where
  "UnpackSnapshot C A smk nonce ct =
     bind_result (Open A smk nonce ct (ascii ''remnix-checkpoint'')) (decodeSnapshotPayload C)"

text \<open>A snapshot that \<^verbatim>\<open>PackSnapshot\<close> sealed unpacks to its entries, cut to milliseconds, through the detection of
  compressed, JSON and old CBOR payloads. The codec and gzip are assumed to undo themselves on this snapshot, and
  the CBOR encoding not to begin with a brace or bracket, which no CBOR map does.\<close>

theorem UnpackSnapshot_PackSnapshot:
  assumes "PackSnapshot C A rand es smk = Inr (nonce, ct)"
    and "\<And>raw. marshal_snapshot C (encodeSnapshot es) = Inr raw \<Longrightarrow>
      unmarshal_snapshot C raw = Inr (encodeSnapshot es) \<and> raw \<noteq> [] \<and> hd raw \<noteq> 0x7B \<and> hd raw \<noteq> 0x5B"
    and "\<And>raw gz. gzipBest C raw = Inr gz \<Longrightarrow> gunzip C gz = Inr raw"
    and "\<And>p ad. aead_opens A smk nonce p ad"
  shows "UnpackSnapshot C A smk nonce ct = Inr (map trunc_entry es)"
proof -
  from assms(1) obtain raw gz where p: "marshal_snapshot C (encodeSnapshot es) = Inr raw" "gzipBest C raw = Inr gz"
    "Seal A smk nonce gz (ascii ''remnix-checkpoint'') = Inr ct"
    by (auto simp: PackSnapshot_def result_Inr)
  have "spVersion (encodeSnapshot es) = snapshotVersion" by (simp add: encodeSnapshot_def Let_def case_prod_beta)
  then have "decodeSnapshotPayload C gz = Inr (map trunc_entry es)"
    using assms(2)[OF p(1)] assms(3)[OF p(2)] snapshot_roundtrip[of es]
    by (auto simp: decodeSnapshotPayload_def decodeCBORSnapshot_def hd_conv_nth Let_def)
  with Open_Seal[OF p(3)] assms(4) show ?thesis by (simp add: UnpackSnapshot_def)
qed

definition demo_snap_entries :: "entry list" where
  "demo_snap_entries = [zero_entry\<lparr>eID := ''1'', eCommand := ''ls'', eStartTS := 5000001, eSessionID := ''s''\<rparr>]"

definition demo_snapshot_codec :: snapshot_codec where
  "demo_snapshot_codec = \<lparr>marshal_snapshot = (\<lambda>s. if s = encodeSnapshot demo_snap_entries then Inr [0xA6] else Inl (Errorf ''cbor'')),
     unmarshal_snapshot = (\<lambda>b. if b = [0xA6] then Inr (encodeSnapshot demo_snap_entries) else Inl (Errorf ''cbor'')),
     unmarshal_v1 = (\<lambda>_. Inl (Errorf ''cbor'')), gzipBest = (\<lambda>b. Inr (0x1F # b)),
     gunzip = (\<lambda>b. if b \<noteq> [] \<and> hd b = 0x1F then Inr (tl b) else Inl (Errorf ''gzip: invalid header'')),
     json_entries = (\<lambda>_. Inl (Errorf ''json'')), json_wrapper = (\<lambda>_. Inl (Errorf ''json'')),
     json_snapshot = (\<lambda>_. Inl (Errorf ''json'')), json_sealed = (\<lambda>_. Inl (Errorf ''json''))\<rparr>"

theorem UnpackSnapshot_PackSnapshot_witness:
  "\<exists>nonce ct. PackSnapshot demo_snapshot_codec demo_aead demo_rand demo_snap_entries demo_key = Inr (nonce, ct) \<and>
     UnpackSnapshot demo_snapshot_codec demo_aead demo_key nonce ct = Inr (map trunc_entry demo_snap_entries)"
proof -
  obtain ct where ct: "PackSnapshot demo_snapshot_codec demo_aead demo_rand demo_snap_entries demo_key = Inr (replicate 24 9, ct)"
    by (simp add: PackSnapshot_def demo_snapshot_codec_def RandomNonce_def random_bytes_def demo_rand_def NonceSize_def
        Seal_def demo_aead_def demo_key_def)
  have "\<And>raw. marshal_snapshot demo_snapshot_codec (encodeSnapshot demo_snap_entries) = Inr raw \<Longrightarrow>
      unmarshal_snapshot demo_snapshot_codec raw = Inr (encodeSnapshot demo_snap_entries) \<and> raw \<noteq> [] \<and> hd raw \<noteq> 0x7B \<and> hd raw \<noteq> 0x5B"
    "\<And>raw gz. gzipBest demo_snapshot_codec raw = Inr gz \<Longrightarrow> gunzip demo_snapshot_codec gz = Inr raw"
    by (auto simp: demo_snapshot_codec_def)
  from UnpackSnapshot_PackSnapshot[OF ct this demo_aead_opens] ct show ?thesis by blast
qed

section \<open>The file frame\<close>

definition snapshotMagic :: bytes where
  "snapshotMagic = ascii ''SScp''"

definition snapshotFileV1 :: byte where
  "snapshotFileV1 = 1"

text \<open>\<^verbatim>\<open>byte(len(nonce))\<close> keeps the low eight bits of the length.\<close>

definition EncodeFile :: "bytes \<Rightarrow> bytes \<Rightarrow> bytes" where
  "EncodeFile nonce ct = snapshotMagic @ [snapshotFileV1] @ [word_of_nat (length nonce)] @ nonce @ ct"

definition decodeBinaryFile :: "bytes \<Rightarrow> (bytes \<times> bytes) result" where
  "decodeBinaryFile b =
     (if length b < 6 then Inl (Errorf ''truncated snapshot file'')
      else if b ! 4 \<noteq> snapshotFileV1
           then Inl (Errorf (''unsupported snapshot file version '' @ show_nat (unat (b ! 4))))
      else (let nlen = unat (b ! 5)
            in if nlen < 1 \<or> 6 + nlen > length b then Inl (Errorf ''truncated snapshot file'')
               else Inr (take nlen (drop 6 b), drop (6 + nlen) b)))"

definition decodeJSONFile :: "snapshot_codec \<Rightarrow> bytes \<Rightarrow> (bytes \<times> bytes) result" where
  "decodeJSONFile C b =
     bind_result (json_sealed C b) (\<lambda>w.
       if length (jfNonce w) = 0 \<or> length (jfCiphertext w) = 0
       then Inl (Errorf ''json snapshot missing nonce or ciphertext'')
       else Inr (jfNonce w, jfCiphertext w))"

definition DecodeFile :: "snapshot_codec \<Rightarrow> bytes \<Rightarrow> (bytes \<times> bytes) result" where
  "DecodeFile C b =
     (if length b \<ge> 4 \<and> take 4 b = snapshotMagic then decodeBinaryFile b
      else (case decodeJSONFile C b of
              Inr r \<Rightarrow> Inr r
            | Inl _ \<Rightarrow> Inl (Errorf ''not a remnix snapshot'')))"

lemma length_magic [simp]: "length snapshotMagic = 4"
  by (simp add: snapshotMagic_def ascii_def)

lemma nth_frame: "(snapshotMagic @ v # n # rest) ! 4 = v" "(snapshotMagic @ v # n # rest) ! 5 = n"
  by (simp_all add: nth_append)

lemma drop_frame: "drop 6 (snapshotMagic @ v # n # rest) = rest" "drop (6 + k) (snapshotMagic @ v # n # rest) = drop k rest"
  by (simp_all add: add.commute[of 6])

text \<open>\<^verbatim>\<open>DecodeFile\<close> undoes \<^verbatim>\<open>EncodeFile\<close> for every nonce of 1 to 255 bytes. Beyond that the length byte wraps: a
  nonce whose length is a multiple of 256 is written with length 0 and rejected as truncated, any other long nonce
  is cut.\<close>

theorem DecodeFile_EncodeFile:
  "DecodeFile C (EncodeFile nonce ct) =
     (if length nonce mod 256 = 0 then Inl (Errorf ''truncated snapshot file'')
      else if length nonce < 256 then Inr (nonce, ct)
      else Inr (take (length nonce mod 256) (nonce @ ct), drop (length nonce mod 256) (nonce @ ct)))"
proof -
  let ?n = "word_of_nat (length nonce) :: byte"
  have n: "unat ?n = length nonce mod 256" by (simp add: unat_of_nat)
  have "length nonce mod 256 \<le> length nonce" by simp
  then have le: "length nonce mod 256 \<le> length nonce + length ct" by linarith
  have f: "EncodeFile nonce ct = snapshotMagic @ snapshotFileV1 # ?n # nonce @ ct" by (simp add: EncodeFile_def)
  have "decodeBinaryFile (EncodeFile nonce ct) =
     (if length nonce mod 256 = 0 then Inl (Errorf ''truncated snapshot file'')
      else Inr (take (length nonce mod 256) (nonce @ ct), drop (length nonce mod 256) (nonce @ ct)))"
    unfolding decodeBinaryFile_def f nth_frame drop_frame n Let_def using le by auto
  moreover have "DecodeFile C (EncodeFile nonce ct) = decodeBinaryFile (EncodeFile nonce ct)"
    by (simp add: DecodeFile_def EncodeFile_def)
  ultimately show ?thesis by simp
qed

end
