(* ===== verification/Transport.thy ===== *)
theory Transport
  imports Prelude
begin

text \<open>
  The \<^verbatim>\<open>Transport\<close> interface (\<^verbatim>\<open>internal/transport/transport.go\<close>), as its read-only clients see it: a Go interface
  value is a record of functions. \<open>trGet\<close> gives the bytes the reader of \<^verbatim>\<open>Get\<close> delivers up to its first error, or
  the error of \<^verbatim>\<open>Get\<close> itself (an object that cannot be read, such as a directory, counts as such an error); \<open>trListShallow\<close> is present when the value also implements \<^verbatim>\<open>shallowLister\<close>.
\<close>

record object =
  obKey :: string
  obSize :: int

record transport =
  trList :: "string \<Rightarrow> object list result"
  trListDirs :: "string \<Rightarrow> string list result"
  trListShallow :: "(string \<Rightarrow> object list result) option"
  trGet :: "string \<Rightarrow> bytes result"

text \<open>\<^verbatim>\<open>errors.Is(err, target)\<close> for a sentinel \<open>target\<close>: the wrapped and the joined errors count too.\<close>

fun error_is :: "go_error \<Rightarrow> go_error \<Rightarrow> bool" where
  "error_is (Wrapped _ e) target = error_is e target"
| "error_is (Joined es) target = list_ex (\<lambda>e. error_is e target) es"
| "error_is e target = (e = target)"

definition is_not_exist :: "go_error \<Rightarrow> bool" where
  "is_not_exist e = error_is e NotExist"

definition is_missing :: "go_error \<Rightarrow> bool" where
  "is_missing e \<longleftrightarrow> error_is e RemoteNotFound \<or> is_not_exist e"

definition MapFSError :: "go_error option \<Rightarrow> go_error option" where
  "MapFSError err =
     (case err of
        None \<Rightarrow> None
      | Some e \<Rightarrow>
          if list_ex (error_is e) [AuthRequired, Offline, PermissionDenied, RemoteNotFound, Conflict, SyncDisabled] then Some e
          else if is_not_exist e then Some (Wrapped ''file does not exist'' RemoteNotFound)
          else if error_is e Permission then Some (Wrapped ''permission denied'' PermissionDenied)
          else Some e)"

datatype health_state = HealthOK | HealthOffline | HealthAuthRequired | HealthPermissionDenied | HealthNotFound | HealthRateLimited
  | HealthMisconfigured | HealthCorruptRepo | HealthUnknown

text \<open>The state of \<^verbatim>\<open>ClassifyHealth\<close>; the message of the status is the text of the error.\<close>

definition ClassifyHealth :: "go_error option \<Rightarrow> health_state" where
  "ClassifyHealth err =
     (case err of
        None \<Rightarrow> HealthOK
      | Some e \<Rightarrow>
          if error_is e AuthRequired then HealthAuthRequired
          else if error_is e Offline then HealthOffline
          else if error_is e PermissionDenied then HealthPermissionDenied
          else if error_is e RemoteNotFound then HealthNotFound
          else if error_is e SyncDisabled then HealthMisconfigured
          else HealthUnknown)"

text \<open>
  A remote that can be written: its state \<open>'s\<close>, what a reader sees of it, \<^verbatim>\<open>PutAtomic\<close> and \<^verbatim>\<open>Remove\<close>, which return the new state
  and the error.
\<close>

record 's remote_ops =
  roView :: "'s \<Rightarrow> transport"
  roPut :: "'s \<Rightarrow> string \<Rightarrow> bytes \<Rightarrow> 's \<times> go_error option"
  roRemove :: "'s \<Rightarrow> string \<Rightarrow> 's \<times> go_error option"

text \<open>\<open>remove\<close> is \<^verbatim>\<open>Remove\<close>, with the new state of the remote.\<close>

definition DeleteIfExists :: "('s \<Rightarrow> string \<Rightarrow> 's \<times> go_error option) \<Rightarrow> 's \<Rightarrow> string \<Rightarrow> 's \<times> go_error option" where
  "DeleteIfExists remove s key =
     (case remove s key of
        (s', None) \<Rightarrow> (s', None)
      | (s', Some e) \<Rightarrow> if is_missing e then (s', None) else (s', Some e))"

text \<open>\<^verbatim>\<open>WithSession\<close>: the error of the function wins over the error of \<^verbatim>\<open>End\<close>; \<open>session\<close> is \<open>None\<close> for a transport that
  does not stage.\<close>

definition WithSession :: "(('s \<Rightarrow> 's \<times> go_error option) \<times> ('s \<Rightarrow> 's \<times> go_error option)) option \<Rightarrow>
    ('s \<Rightarrow> 's \<times> go_error option) \<Rightarrow> 's \<Rightarrow> 's \<times> go_error option" where
  "WithSession session fn s =
     (case session of
        None \<Rightarrow> fn s
      | Some (begin_, end_) \<Rightarrow>
          (case begin_ s of
             (s1, Some e) \<Rightarrow> (s1, Some e)
           | (s1, None) \<Rightarrow>
               (let (s2, err) = fn s1; (s3, endErr) = end_ s2
                in (s3, if err \<noteq> None then err else endErr))))"

text \<open>\<^verbatim>\<open>PullSession\<close> and \<^verbatim>\<open>Dedupe\<close>: a transport without the optional interface is left alone.\<close>

definition PullSession :: "(('s \<Rightarrow> 's \<times> go_error option) \<times> ('s \<Rightarrow> 's \<times> go_error option)) option \<Rightarrow> 's \<Rightarrow> 's \<times> go_error option" where
  "PullSession session s = (case session of None \<Rightarrow> (s, None) | Some (begin_, _) \<Rightarrow> begin_ s)"

definition Dedupe :: "('s \<Rightarrow> 's \<times> go_error option) option \<Rightarrow> 's \<Rightarrow> 's \<times> go_error option" where
  "Dedupe deduper s = (case deduper of None \<Rightarrow> (s, None) | Some f \<Rightarrow> f s)"

section \<open>What a store promises\<close>

text \<open>
  The contract the synchronisation relies on. \<open>valid\<close> are the keys a client uses; \<open>below k'\<close> are the keys a removal of \<open>k'\<close> takes
  along. A put that succeeds is readable, one that fails leaves the object as it was, and neither touches another object; a
  removal takes the object away and leaves those outside alone. Nothing is promised about absent objects other than the one
  put: a failed put may leave debris.
\<close>

locale remote_store =
  fixes ops :: "'s remote_ops" and inv :: "'s \<Rightarrow> bool" and valid :: "string \<Rightarrow> bool" and below :: "string \<Rightarrow> string \<Rightarrow> bool"
  assumes put_inv: "inv s \<Longrightarrow> roPut ops s k b = (s', err) \<Longrightarrow> inv s'"
    and remove_inv: "inv s \<Longrightarrow> roRemove ops s k = (s', err) \<Longrightarrow> inv s'"
    and put_get: "inv s \<Longrightarrow> valid k \<Longrightarrow> roPut ops s k b = (s', None) \<Longrightarrow> trGet (roView ops s') k = Inr b"
    and put_fails: "inv s \<Longrightarrow> valid k \<Longrightarrow> roPut ops s k b = (s', Some e) \<Longrightarrow> trGet (roView ops s) k = Inr c \<Longrightarrow>
      trGet (roView ops s') k = Inr c"
    and put_other: "inv s \<Longrightarrow> valid k \<Longrightarrow> valid k' \<Longrightarrow> k' \<noteq> k \<Longrightarrow> roPut ops s k b = (s', err) \<Longrightarrow>
      trGet (roView ops s) k' = Inr c \<Longrightarrow> trGet (roView ops s') k' = Inr c"
    and remove_gone: "inv s \<Longrightarrow> valid k \<Longrightarrow> roRemove ops s k = (s', None) \<Longrightarrow> \<exists>e. trGet (roView ops s') k = Inl e"
    and remove_other: "inv s \<Longrightarrow> valid k \<Longrightarrow> valid k' \<Longrightarrow> \<not> below k k' \<Longrightarrow> roRemove ops s k = (s', err) \<Longrightarrow>
      trGet (roView ops s') k' = Inr c \<longleftrightarrow> trGet (roView ops s) k' = Inr c"
begin

text \<open>An object is never lost to a put: the object put, if the put succeeded, and every other one stay readable.\<close>

lemma put_keeps:
  assumes "inv s" "valid k" "valid k'" "roPut ops s k b = (s', err)" "trGet (roView ops s) k' = Inr c"
  shows "trGet (roView ops s') k' = Inr (if k' = k \<and> err = None then b else c)"
proof (cases "k' = k")
  case True
  then show ?thesis using assms put_get put_fails by (cases err) auto
next
  case False
  then show ?thesis using assms put_other by auto
qed

end

end
