(* ===== verification/Merge.thy ===== *)
theory Merge
  imports Event Changes Device
begin

text \<open>
  Applying events to the history (\<^verbatim>\<open>internal/sync/merge/apply.go\<close>, \<^verbatim>\<open>internal/history/changes.go\<close>) and
  the convergence of replicas. A replica that has applied some set of events shows exactly the
  created entries no tombstone names, whatever the order the events came in and however often an
  event was repeated; hence two replicas with the same events show the same history.
\<close>

section \<open>Applying one event\<close>

text \<open>The entry \<^verbatim>\<open>applyCreated\<close> builds from a payload and the event's device and sequence number.\<close>

definition created_entry :: "string \<Rightarrow> int \<Rightarrow> history_created \<Rightarrow> entry" where
  "created_entry dev seq p = zero_entry
     \<lparr>eID := cID p, eCommand := cCommand p, eStartTS := ofMilli (cStartTS p), eCwd := cCwd p,
      eSessionID := cSessionID p, eHostname := cHostname p, eDeviceID := dev, eShell := cShell p,
      eOriginDeviceID := dev, eOriginSeq := Some seq, eExitStatus := cExitStatus p,
      eEndTS := (if cEndTS p > 0 then Some (ofMilli (cEndTS p)) else None),
      eDurationMs := (if cDurationMs p > 0 then Some (cDurationMs p) else None)\<rparr>"

definition origin_exists :: "db \<Rightarrow> string \<Rightarrow> int \<Rightarrow> bool" where
  "origin_exists d dev seq \<longleftrightarrow>
     (\<exists>r \<in> set (history d). h_origin_device_id r = Some dev \<and> h_origin_seq r = Some seq)"

definition applyCreated :: "event_cbor \<Rightarrow> (string \<Rightarrow> bytes) \<Rightarrow> gotime \<Rightarrow> db \<Rightarrow> event \<Rightarrow> (db \<times> entry) result" where
  "applyCreated c H now d ev =
     bind_result (DecodeHistoryCreated c ev) (\<lambda>p.
       if origin_exists d (evDeviceID ev) (evSeq ev) then Inr (d, zero_entry)
       else (let e = created_entry (evDeviceID ev) (evSeq ev) p
             in Inr (fst (InsertExec H now d e), e)))"

definition placeholder_id :: "history_tombstoned \<Rightarrow> string" where
  "placeholder_id p = (if tHistoryID p = []
     then ''tombstone:'' @ tOriginDeviceID p @ '':'' @ show_int (tOriginSeq p) else tHistoryID p)"

definition placeholder :: "history_tombstoned \<Rightarrow> entry" where
  "placeholder p = zero_entry
     \<lparr>eID := placeholder_id p, eStartTS := ofMilli 0, eDeviceID := tOriginDeviceID p, eDeleted := True,
      eOriginDeviceID := tOriginDeviceID p, eOriginSeq := Some (tOriginSeq p)\<rparr>"

definition applyTombstone :: "event_cbor \<Rightarrow> (string \<Rightarrow> bytes) \<Rightarrow> gotime \<Rightarrow> db \<Rightarrow> event \<Rightarrow> (db \<times> string list) result" where
  "applyTombstone c H now d ev =
     bind_result (DecodeHistoryTombstoned c ev) (\<lambda>p.
       let (d1, ids1) = (if tHistoryID p \<noteq> [] then (Tombstone d (tHistoryID p), [tHistoryID p]) else (d, []))
       in if tOriginDeviceID p \<noteq> [] \<and> tOriginSeq p > 0 then
            (let (d2, n) = TombstoneByOrigin d1 (tOriginDeviceID p) (tOriginSeq p)
             in if n = 0 then Inr (fst (InsertExec H now d2 (placeholder p)), ids1 @ [placeholder_id p])
                else if tHistoryID p = [] then
                  Inr (d2, ids1 @ [''origin:'' @ tOriginDeviceID p @ '':'' @ show_int (tOriginSeq p)])
                else Inr (d2, ids1))
          else Inr (d1, ids1))"

definition applyDeviceMeta :: "event_cbor \<Rightarrow> gotime \<Rightarrow> db \<Rightarrow> event \<Rightarrow> db result" where
  "applyDeviceMeta c now d ev =
     bind_result (unmarshal_meta c (evPayload ev)) (\<lambda>p.
       let status = (if mStatus p = [] then ''active'' else mStatus p)
       in Inr (d\<lparr>devices := upsert_device (devices d)
            \<lparr>d_id = evDeviceID ev, d_name = mName p, d_hostname = nullString (mHostname p),
             d_status = status, d_created_at = UnixMilli now, d_retired_at = None\<rparr>\<rparr>))"

definition ApplyTracked :: "event_cbor \<Rightarrow> (string \<Rightarrow> bytes) \<Rightarrow> gotime \<Rightarrow> db \<Rightarrow> event \<Rightarrow> (db \<times> change_set) result" where
  "ApplyTracked c H now d ev =
     (if evType ev = TypeHistoryCreated then
        bind_result (applyCreated c H now d ev) (\<lambda>(d', e).
          Inr (d', if eID e \<noteq> [] then AddCreated empty_cs e else empty_cs))
      else if evType ev = TypeHistoryTombstoned then
        bind_result (applyTombstone c H now d ev) (\<lambda>(d', ids). Inr (d', AddTombstoned empty_cs ids))
      else if evType ev = TypeDeviceMeta then
        bind_result (applyDeviceMeta c now d ev) (\<lambda>d'. Inr (d', empty_cs))
      else if evType ev = TypeCheckpointRef then Inr (d, empty_cs)
      else Inl (Errorf ''unknown event type''))"

definition Apply :: "event_cbor \<Rightarrow> (string \<Rightarrow> bytes) \<Rightarrow> gotime \<Rightarrow> db \<Rightarrow> event \<Rightarrow> db result" where
  "Apply c H now d ev = bind_result (ApplyTracked c H now d ev) (\<lambda>(d', _). Inr d')"

section \<open>What a set of events means\<close>

text \<open>
  The entries a set of events makes visible: those created by some event and named by no
  tombstone. Creation times are local to a replica and left out.
\<close>

definition forget_created :: "entry \<Rightarrow> entry" where
  "forget_created e = e\<lparr>eCreatedAt := 0\<rparr>"

definition creates :: "event_cbor \<Rightarrow> event set \<Rightarrow> string \<Rightarrow> int \<Rightarrow> history_created \<Rightarrow> bool" where
  "creates c E dev seq p \<longleftrightarrow> (\<exists>ev \<in> E. evType ev = TypeHistoryCreated \<and> evDeviceID ev = dev
     \<and> evSeq ev = seq \<and> DecodeHistoryCreated c ev = Inr p)"

definition tombstones :: "event_cbor \<Rightarrow> event set \<Rightarrow> string \<Rightarrow> int \<Rightarrow> bool" where
  "tombstones c E dev seq \<longleftrightarrow> (\<exists>ev \<in> E. \<exists>p. evType ev = TypeHistoryTombstoned
     \<and> DecodeHistoryTombstoned c ev = Inr p \<and> tOriginDeviceID p = dev \<and> tOriginSeq p = seq)"

definition live_meaning :: "event_cbor \<Rightarrow> event set \<Rightarrow> entry set" where
  "live_meaning c E = {forget_created (created_entry dev seq p) | dev seq p.
     creates c E dev seq p \<and> \<not> tombstones c E dev seq}"

definition live :: "db \<Rightarrow> entry set" where
  "live d = forget_created ` {e \<in> set (view d). \<not> eDeleted e}"

text \<open>
  What the meaning needs of the events: payloads decode; an origin is created once; the ids follow
  the origins; tombstones name an origin; no two created events are duplicates for the
  \<^verbatim>\<open>history_dedup\<close> index.
\<close>

definition origin_ids :: "event_cbor \<Rightarrow> (string \<times> int \<Rightarrow> string) \<Rightarrow> event \<Rightarrow> bool" where
  "origin_ids c idOf ev \<longleftrightarrow>
     (evType ev = TypeHistoryCreated \<and> evDeviceID ev \<noteq> [] \<and>
        (case DecodeHistoryCreated c ev of Inl _ \<Rightarrow> False
         | Inr p \<Rightarrow> cID p = idOf (evDeviceID ev, evSeq ev)))
     \<or> (evType ev = TypeHistoryTombstoned \<and>
        (case DecodeHistoryTombstoned c ev of Inl _ \<Rightarrow> False
         | Inr p \<Rightarrow> tOriginDeviceID p \<noteq> [] \<and> tOriginSeq p > 0
             \<and> tHistoryID p = idOf (tOriginDeviceID p, tOriginSeq p)))
     \<or> (evType ev = TypeDeviceMeta \<and> (\<exists>m. unmarshal_meta c (evPayload ev) = Inr m))
     \<or> evType ev = TypeCheckpointRef"

definition valid_events :: "event_cbor \<Rightarrow> (string \<Rightarrow> bytes) \<Rightarrow> (string \<times> int \<Rightarrow> string) \<Rightarrow> event set \<Rightarrow> bool" where
  "valid_events c H idOf E \<longleftrightarrow>
     inj idOf \<and> [] \<notin> range idOf \<and> (\<forall>ev \<in> E. origin_ids c idOf ev)
     \<and> (\<forall>dev seq p q. creates c E dev seq p \<longrightarrow> creates c E dev seq q \<longrightarrow> p = q)
     \<and> (\<forall>dev seq p dev' seq' q. creates c E dev seq p \<longrightarrow> creates c E dev' seq' q \<longrightarrow>
          (dev, seq) \<noteq> (dev', seq') \<longrightarrow> cCwd p \<noteq> [] \<longrightarrow>
          \<not> (H (cCommand p) = H (cCommand q) \<and> cStartTS p = cStartTS q \<and> cCwd p = cCwd q \<and> dev = dev'))"

section \<open>The replica invariant\<close>

abbreviation origin_of :: "entry \<Rightarrow> string \<times> int option" where
  "origin_of e \<equiv> (eOriginDeviceID e, eOriginSeq e)"

definition replica_inv :: "event_cbor \<Rightarrow> (string \<Rightarrow> bytes) \<Rightarrow> (string \<times> int \<Rightarrow> string) \<Rightarrow> event set \<Rightarrow> entry list \<Rightarrow> bool" where
  "replica_inv c H idOf E v \<longleftrightarrow>
     (\<forall>e \<in> set v. \<exists>dev seq. dev \<noteq> [] \<and> origin_of e = (dev, Some seq) \<and> eID e = idOf (dev, seq)
        \<and> (tombstones c E dev seq \<or> (\<exists>p. creates c E dev seq p))
        \<and> (eDeleted e \<longleftrightarrow> tombstones c E dev seq)
        \<and> (\<not> eDeleted e \<longrightarrow> (\<exists>p. creates c E dev seq p
             \<and> forget_created e = forget_created (created_entry dev seq p))))
     \<and> (\<forall>dev seq p. creates c E dev seq p \<longrightarrow> (\<exists>e \<in> set v. origin_of e = (dev, Some seq)))
     \<and> (\<forall>dev seq. tombstones c E dev seq \<longrightarrow> (\<exists>e \<in> set v. origin_of e = (dev, Some seq)))"


lemma event_types_distinct [simp]:
  "TypeHistoryCreated \<noteq> TypeHistoryTombstoned" "TypeHistoryTombstoned \<noteq> TypeHistoryCreated"
  "TypeHistoryCreated \<noteq> TypeDeviceMeta" "TypeDeviceMeta \<noteq> TypeHistoryCreated"
  "TypeHistoryTombstoned \<noteq> TypeDeviceMeta" "TypeDeviceMeta \<noteq> TypeHistoryTombstoned"
  "TypeCheckpointRef \<noteq> TypeHistoryCreated" "TypeHistoryCreated \<noteq> TypeCheckpointRef"
  "TypeCheckpointRef \<noteq> TypeHistoryTombstoned" "TypeHistoryTombstoned \<noteq> TypeCheckpointRef"
  "TypeCheckpointRef \<noteq> TypeDeviceMeta" "TypeDeviceMeta \<noteq> TypeCheckpointRef"
  by (simp_all add: event_type_defs)

lemma creates_insert:
  "creates c (insert ev E) dev seq p \<longleftrightarrow>
     (evType ev = TypeHistoryCreated \<and> evDeviceID ev = dev \<and> evSeq ev = seq \<and> DecodeHistoryCreated c ev = Inr p)
     \<or> creates c E dev seq p"
  by (auto simp: creates_def)

lemma tombstones_insert:
  "tombstones c (insert ev E) dev seq \<longleftrightarrow>
     (evType ev = TypeHistoryTombstoned \<and> (\<exists>p. DecodeHistoryTombstoned c ev = Inr p
        \<and> tOriginDeviceID p = dev \<and> tOriginSeq p = seq))
     \<or> tombstones c E dev seq"
  by (auto simp: tombstones_def)

lemma created_entry_simps [simp]:
  "eID (created_entry dev seq p) = cID p" "eCommand (created_entry dev seq p) = cCommand p"
  "eDeleted (created_entry dev seq p) = False" "eOriginDeviceID (created_entry dev seq p) = dev"
  "eOriginSeq (created_entry dev seq p) = Some seq" "eCwd (created_entry dev seq p) = cCwd p"
  "eDeviceID (created_entry dev seq p) = dev" "eStartTS (created_entry dev seq p) = ofMilli (cStartTS p)"
  by (simp_all add: created_entry_def zero_entry_def)

lemma placeholder_simps [simp]:
  "eID (placeholder p) = placeholder_id p" "eDeleted (placeholder p)"
  "eOriginDeviceID (placeholder p) = tOriginDeviceID p" "eOriginSeq (placeholder p) = Some (tOriginSeq p)"
  by (simp_all add: placeholder_def zero_entry_def)

lemma forget_norm_created: "forget_created (norm_entry now (created_entry dev seq p)) = forget_created (created_entry dev seq p)"
  by (simp add: forget_created_def norm_entry_def created_entry_def zero_entry_def)

lemma forget_created_eq:
  assumes "forget_created e = forget_created (created_entry dev seq p)"
  shows "eCommand e = cCommand p" "eCwd e = cCwd p" "eDeviceID e = dev" "UnixMilli (eStartTS e) = cStartTS p"
  using assms[THEN arg_cong, of eCommand] assms[THEN arg_cong, of eCwd] assms[THEN arg_cong, of eDeviceID]
    assms[THEN arg_cong, of eStartTS]
  by (simp_all add: forget_created_def)

lemma origin_exists_view:
  "history_ok H d \<Longrightarrow> dev \<noteq> [] \<Longrightarrow>
     origin_exists d dev seq \<longleftrightarrow> (\<exists>e \<in> set (view d). origin_of e = (dev, Some seq))"
  using origin_view by (fastforce simp: origin_exists_def view_def scanEntries_def)

section \<open>One event keeps the invariant\<close>

lemma replica_inv_live:
  assumes "replica_inv c H idOf E (view d)"
    and uniq: "\<And>dev seq p q. creates c E dev seq p \<Longrightarrow> creates c E dev seq q \<Longrightarrow> p = q"
  shows "live d = live_meaning c E"
proof (rule set_eqI, rule iffI)
  fix x assume "x \<in> live d"
  then show "x \<in> live_meaning c E"
    using assms(1) unfolding live_def live_meaning_def replica_inv_def by fastforce
next
  fix x assume "x \<in> live_meaning c E"
  then obtain dev seq p where x: "x = forget_created (created_entry dev seq p)"
    and cr: "creates c E dev seq p" and nt: "\<not> tombstones c E dev seq"
    by (auto simp: live_meaning_def)
  from cr assms(1) obtain e where e: "e \<in> set (view d)" "origin_of e = (dev, Some seq)"
    unfolding replica_inv_def by blast
  with assms(1) nt obtain q where "creates c E dev seq q" "\<not> eDeleted e"
    "forget_created e = forget_created (created_entry dev seq q)"
    unfolding replica_inv_def by fastforce
  with uniq[OF cr] x have "x = forget_created e" by metis
  with e(1) \<open>\<not> eDeleted e\<close> show "x \<in> live d" by (auto simp: live_def)
qed

lemma replica_inv_same:
  assumes "replica_inv c H idOf E v"
    and "\<And>dev seq. tombstones c E' dev seq = tombstones c E dev seq"
    and "\<And>dev seq p. creates c E' dev seq p = creates c E dev seq p"
  shows "replica_inv c H idOf E' v"
  using assms by (simp add: replica_inv_def)

lemma replica_inv_created:
  fixes now :: gotime
  assumes inv: "replica_inv c H idOf E v"
    and val: "valid_events c H idOf (insert ev E)"
    and ty: "evType ev = TypeHistoryCreated" and dec: "DecodeHistoryCreated c ev = Inr p"
  defines "v' \<equiv> fst (insert_view H now v (created_entry (evDeviceID ev) (evSeq ev) p))"
  shows "\<exists>e \<in> set v. origin_of e = (evDeviceID ev, Some (evSeq ev)) \<Longrightarrow> replica_inv c H idOf (insert ev E) v"
    and "\<not> (\<exists>e \<in> set v. origin_of e = (evDeviceID ev, Some (evSeq ev))) \<Longrightarrow> replica_inv c H idOf (insert ev E) v'"
proof -
  let ?dev = "evDeviceID ev" and ?seq = "evSeq ev"
  let ?new = "norm_entry now (created_entry ?dev ?seq p)"
  have dev: "?dev \<noteq> []" and cid: "cID p = idOf (?dev, ?seq)" and inj: "inj idOf"
    using val ty dec by (auto simp: valid_events_def origin_ids_def)
  have tomb: "tombstones c (insert ev E) a b = tombstones c E a b" for a b
    using ty by (simp add: tombstones_insert)
  have cr: "creates c (insert ev E) a b q \<longleftrightarrow> creates c E a b q \<or> (a, b, q) = (?dev, ?seq, p)" for a b q
    using ty dec by (auto simp: creates_insert)
  show "replica_inv c H idOf (insert ev E) v"
    if "\<exists>e \<in> set v. origin_of e = (?dev, Some ?seq)"
    using inv that unfolding replica_inv_def tomb cr by (auto 0 4)
  assume fresh: "\<not> (\<exists>e \<in> set v. origin_of e = (?dev, Some ?seq))"
  have "\<not> entry_conflict H ?new e" if "e \<in> set v" for e
  proof -
    from inv that obtain a b where ab: "origin_of e = (a, Some b)" "eID e = idOf (a, b)"
      and l: "\<not> eDeleted e \<longrightarrow> (\<exists>q. creates c E a b q \<and> forget_created e = forget_created (created_entry a b q))"
      unfolding replica_inv_def by blast
    have ne: "(a, b) \<noteq> (?dev, ?seq)" using fresh that ab by auto
    then have "cID p \<noteq> eID e" using ab cid inj by (auto dest: injD)
    moreover have "\<not> (\<not> eDeleted e \<and> H (cCommand p) = H (eCommand e) \<and> cStartTS p = UnixMilli (eStartTS e)
        \<and> cCwd p \<noteq> [] \<and> cCwd p = eCwd e \<and> ?dev = eDeviceID e)"
    proof
      assume A: "\<not> eDeleted e \<and> H (cCommand p) = H (eCommand e) \<and> cStartTS p = UnixMilli (eStartTS e)
        \<and> cCwd p \<noteq> [] \<and> cCwd p = eCwd e \<and> ?dev = eDeviceID e"
      with l obtain q where q: "creates c E a b q" "forget_created e = forget_created (created_entry a b q)" by blast
      have "creates c (insert ev E) a b q" "creates c (insert ev E) ?dev ?seq p" using q(1) by (auto simp: cr)
      with val ne A forget_created_eq[OF q(2)] show False unfolding valid_events_def by metis
    qed
    moreover have "\<not> (?dev = eOriginDeviceID e \<and> Some ?seq = eOriginSeq e)" using ab ne by auto
    ultimately show ?thesis by (auto simp: entry_conflict_def)
  qed
  then have v': "v' = v @ [?new]" by (auto simp: v'_def insert_view_def)
  have nt: "\<not> tombstones c E ?dev ?seq" using fresh inv unfolding replica_inv_def by blast
  show "replica_inv c H idOf (insert ev E) v'"
    using inv dev cid nt unfolding replica_inv_def tomb cr v'
    by (auto 0 4 simp: forget_norm_created)
qed

lemma mark_deleted_origins:
  "(\<exists>e \<in> set (mark_deleted P v). origin_of e = o') \<longleftrightarrow> (\<exists>e \<in> set v. origin_of e = o')"
  by (induction v) (auto simp: mark_deleted_def)

lemma valid_idOf: "valid_events c H idOf E \<Longrightarrow> inj idOf \<and> idOf o' \<noteq> []"
  unfolding valid_events_def by (metis rangeI)

lemma mark_deleted_idem:
  "(\<And>e. P (e\<lparr>eDeleted := True\<rparr>) = P e) \<Longrightarrow> mark_deleted P (mark_deleted P v) = mark_deleted P v"
  by (auto simp: mark_deleted_def)

lemma mark_deleted_cong:
  "(\<And>e. e \<in> set v \<Longrightarrow> P e = Q e) \<Longrightarrow> mark_deleted P v = mark_deleted Q v"
  by (auto simp: mark_deleted_def)

lemma mark_deleted_none: "\<forall>e \<in> set v. \<not> P e \<Longrightarrow> mark_deleted P v = v"
  by (induction v) (auto simp: mark_deleted_def)

lemma replica_inv_ids:
  assumes "replica_inv c H idOf E v" and "inj idOf" and "e \<in> set v"
  shows "eID e = idOf (dev, seq) \<longleftrightarrow> origin_of e = (dev, Some seq)"
proof -
  obtain a b where "origin_of e = (a, Some b)" "eID e = idOf (a, b)"
    using assms(1,3) unfolding replica_inv_def by blast
  then show ?thesis using injD[OF assms(2), of "(a, b)" "(dev, seq)"] by auto
qed

lemma replica_inv_tombstone:
  fixes now :: gotime
  assumes inv: "replica_inv c H idOf E v"
    and val: "valid_events c H idOf (insert ev E)"
    and ty: "evType ev = TypeHistoryTombstoned" and dec: "DecodeHistoryTombstoned c ev = Inr p"
  shows "\<exists>e \<in> set v. origin_of e = (tOriginDeviceID p, Some (tOriginSeq p)) \<Longrightarrow>
      replica_inv c H idOf (insert ev E)
        (mark_deleted (\<lambda>e. origin_of e = (tOriginDeviceID p, Some (tOriginSeq p))) v)"
    and "\<not> (\<exists>e \<in> set v. origin_of e = (tOriginDeviceID p, Some (tOriginSeq p))) \<Longrightarrow>
      replica_inv c H idOf (insert ev E) (fst (insert_view H now v (placeholder p)))"
proof -
  let ?dev = "tOriginDeviceID p" and ?seq = "tOriginSeq p"
  have dev: "?dev \<noteq> []" and cid: "tHistoryID p = idOf (?dev, ?seq)" and inj: "inj idOf"
    and nid: "tHistoryID p \<noteq> []"
    using val ty dec valid_idOf[OF val] by (auto simp: valid_events_def origin_ids_def)
  have tomb: "tombstones c (insert ev E) a b \<longleftrightarrow> tombstones c E a b \<or> (a, b) = (?dev, ?seq)" for a b
    using ty dec by (auto simp: tombstones_insert)
  have cr: "creates c (insert ev E) a b q = creates c E a b q" for a b q
    using ty by (simp add: creates_insert)
  show "replica_inv c H idOf (insert ev E) (mark_deleted (\<lambda>e. origin_of e = (?dev, Some ?seq)) v)"
    if ex: "\<exists>e \<in> set v. origin_of e = (?dev, Some ?seq)"
    unfolding replica_inv_def tomb cr
  proof (intro conjI allI impI ballI)
    fix e assume "e \<in> set (mark_deleted (\<lambda>e. origin_of e = (?dev, Some ?seq)) v)"
    then obtain e0 where e0: "e0 \<in> set v"
      and e: "e = (if origin_of e0 = (?dev, Some ?seq) then e0\<lparr>eDeleted := True\<rparr> else e0)"
      by (auto simp: mark_deleted_def)
    from inv e0 obtain a b where ab: "a \<noteq> []" "origin_of e0 = (a, Some b)" "eID e0 = idOf (a, b)"
      "tombstones c E a b \<or> (\<exists>p. creates c E a b p)" "eDeleted e0 \<longleftrightarrow> tombstones c E a b"
      "\<not> eDeleted e0 \<longrightarrow> (\<exists>p. creates c E a b p \<and> forget_created e0 = forget_created (created_entry a b p))"
      unfolding replica_inv_def by blast
    then show "\<exists>dev seq. dev \<noteq> [] \<and> origin_of e = (dev, Some seq) \<and> eID e = idOf (dev, seq)
        \<and> ((tombstones c E dev seq \<or> (dev, seq) = (?dev, ?seq)) \<or> (\<exists>p. creates c E dev seq p))
        \<and> (eDeleted e \<longleftrightarrow> tombstones c E dev seq \<or> (dev, seq) = (?dev, ?seq))
        \<and> (\<not> eDeleted e \<longrightarrow> (\<exists>p. creates c E dev seq p
             \<and> forget_created e = forget_created (created_entry dev seq p)))"
      by (intro exI[of _ a] exI[of _ b]) (auto simp: e)
  next
    fix a b q assume "creates c E a b q"
    with inv show "\<exists>e\<in>set (mark_deleted (\<lambda>e. origin_of e = (?dev, Some ?seq)) v). origin_of e = (a, Some b)"
      unfolding mark_deleted_origins replica_inv_def by blast
  next
    fix a b assume "tombstones c E a b \<or> (a, b) = (?dev, ?seq)"
    with inv ex show "\<exists>e\<in>set (mark_deleted (\<lambda>e. origin_of e = (?dev, Some ?seq)) v). origin_of e = (a, Some b)"
      unfolding mark_deleted_origins replica_inv_def by blast
  qed
  assume fresh: "\<not> (\<exists>e \<in> set v. origin_of e = (?dev, Some ?seq))"
  have "\<not> entry_conflict H (norm_entry now (placeholder p)) e" if "e \<in> set v" for e
    using fresh that replica_inv_ids[OF inv inj that, of ?dev ?seq] cid nid
    by (auto simp: entry_conflict_def placeholder_id_def)
  then have ins: "fst (insert_view H now v (placeholder p)) = v @ [norm_entry now (placeholder p)]"
    by (auto simp: insert_view_def)
  show "replica_inv c H idOf (insert ev E) (fst (insert_view H now v (placeholder p)))"
    using inv dev cid nid fresh unfolding replica_inv_def tomb cr ins
    by (auto 0 4 simp: placeholder_id_def)
qed

lemma InsertExec_view:
  "history_ok H d \<Longrightarrow> view (fst (InsertExec H now d e)) = fst (insert_view H now (view d) e)"
  using InsertExec_refines(2) by (metis fst_conv)

lemma history_ok_devices [simp]: "history_ok H (d\<lparr>devices := x\<rparr>) = history_ok H d"
  by (simp add: history_ok_def row_refs_ok_def)

lemma view_devices [simp]: "view (d\<lparr>devices := x\<rparr>) = view d"
  by (simp add: view_def scanEntries_def scanEntry_def)

lemma Apply_step:
  assumes ok: "history_ok H d" and inv: "replica_inv c H idOf E (view d)"
    and val: "valid_events c H idOf (insert ev E)"
  shows "\<exists>d' cs. ApplyTracked c H now d ev = Inr (d', cs) \<and> history_ok H d'
     \<and> replica_inv c H idOf (insert ev E) (view d')"
proof -
  have oi: "origin_ids c idOf ev" using val by (simp add: valid_events_def)
  then consider (cr) p where "evType ev = TypeHistoryCreated" "DecodeHistoryCreated c ev = Inr p" "evDeviceID ev \<noteq> []"
    | (tb) p where "evType ev = TypeHistoryTombstoned" "DecodeHistoryTombstoned c ev = Inr p"
        "tOriginDeviceID p \<noteq> []" "tOriginSeq p > 0" "tHistoryID p = idOf (tOriginDeviceID p, tOriginSeq p)"
    | (mt) m where "evType ev = TypeDeviceMeta" "unmarshal_meta c (evPayload ev) = Inr m"
    | (cp) "evType ev = TypeCheckpointRef"
    unfolding origin_ids_def by (auto split: sum.splits)
  then show ?thesis
  proof cases
    case (cr p)
    show ?thesis
      using cr ok replica_inv_created[OF inv val cr(1,2)] InsertExec_refines(1)[OF ok]
      by (auto simp: ApplyTracked_def applyCreated_def Let_def InsertExec_view origin_exists_view[OF ok cr(3)])
  next
    case (tb p)
    let ?o = "(tOriginDeviceID p, Some (tOriginSeq p))"
    have nid: "tHistoryID p \<noteq> []" and inj: "inj idOf"
      using valid_idOf[OF val] tb(5) by auto
    let ?d1 = "Tombstone d (tHistoryID p)"
    let ?d2 = "fst (TombstoneByOrigin ?d1 (tOriginDeviceID p) (tOriginSeq p))"
    have ok1: "history_ok H ?d1" using ok by simp
    have ok2: "history_ok H ?d2" using ok1 by simp
    have v1: "view ?d1 = mark_deleted (\<lambda>e. origin_of e = ?o) (view d)"
      unfolding view_Tombstone tb(5)
      by (rule mark_deleted_cong) (rule replica_inv_ids[OF inv inj])
    have v2: "view ?d2 = mark_deleted (\<lambda>e. origin_of e = ?o) (view d)"
      using view_TombstoneByOrigin(1)[OF ok1 tb(3), of "tOriginSeq p"]
      by (simp add: v1 mark_deleted_idem)
    have n: "snd (TombstoneByOrigin ?d1 (tOriginDeviceID p) (tOriginSeq p)) = 0 \<longleftrightarrow>
        \<not> (\<exists>e \<in> set (view d). origin_of e = ?o)"
      using view_TombstoneByOrigin(2)[OF ok1 tb(3), of "tOriginSeq p"] mark_deleted_origins[of "\<lambda>e. origin_of e = ?o" "view d" ?o]
      by (auto simp: v1)
    show ?thesis
    proof (cases "\<exists>e \<in> set (view d). origin_of e = ?o")
      case True
      then show ?thesis
        using tb nid n v2 ok2 replica_inv_tombstone(1)[OF inv val tb(1,2)]
        by (auto simp: ApplyTracked_def applyTombstone_def Let_def split_beta)
    next
      case False
      then have "view ?d2 = view d" unfolding v2 by (intro mark_deleted_none) auto
      then show ?thesis
        using False tb nid n ok2 replica_inv_tombstone(2)[OF inv val tb(1,2)] InsertExec_refines(1)[OF ok2]
        by (auto simp: ApplyTracked_def applyTombstone_def Let_def split_beta InsertExec_view)
    qed
  next
    case (mt m)
    then show ?thesis
      using ok replica_inv_same[OF inv, of "insert ev E"]
      by (auto simp: ApplyTracked_def applyDeviceMeta_def Let_def creates_insert tombstones_insert)
  next
    case cp
    then show ?thesis
      using ok replica_inv_same[OF inv, of "insert ev E"]
      by (auto simp: ApplyTracked_def creates_insert tombstones_insert)
  qed
qed


section \<open>Replicas\<close>

text \<open>
  The contract of a replica: running it over a list of events succeeds whenever the events are
  valid, and what it then shows depends on the set of events only.
\<close>

locale replica =
  fixes run :: "'e list \<Rightarrow> 's result"
    and observe :: "'s \<Rightarrow> 'o"
    and meaning :: "'e set \<Rightarrow> 'o"
    and valid :: "'e set \<Rightarrow> bool"
  assumes run_meaning: "valid (set es) \<Longrightarrow> \<exists>s. run es = Inr s \<and> observe s = meaning (set es)"
begin

lemma order_irrelevant:
  assumes "valid (set es)" and "set es = set fs"
  shows "\<exists>s t. run es = Inr s \<and> run fs = Inr t \<and> observe s = observe t"
  using run_meaning[OF assms(1)] run_meaning[of fs] assms by auto

lemma exchange_converges:
  assumes "valid (set es \<union> set fs)"
  shows "\<exists>s t. run (es @ fs) = Inr s \<and> run (fs @ es) = Inr t \<and> observe s = observe t"
  using assms by (intro order_irrelevant) auto

lemma replay_harmless:
  assumes "valid (set es)" and "set fs \<subseteq> set es"
  shows "\<exists>s t. run es = Inr s \<and> run (es @ fs) = Inr t \<and> observe s = observe t"
  using assms by (intro order_irrelevant) auto

end

text \<open>A list of events, each with the local time at which it is applied.\<close>

fun apply_all :: "event_cbor \<Rightarrow> (string \<Rightarrow> bytes) \<Rightarrow> db \<Rightarrow> (gotime \<times> event) list \<Rightarrow> db result" where
  "apply_all c H d [] = Inr d"
| "apply_all c H d ((now, ev) # tes) = bind_result (Apply c H now d ev) (\<lambda>d'. apply_all c H d' tes)"

lemma valid_events_mono: "valid_events c H idOf E \<Longrightarrow> F \<subseteq> E \<Longrightarrow> valid_events c H idOf F"
proof -
  assume v: "valid_events c H idOf E" and sub: "F \<subseteq> E"
  have m: "creates c F dev seq p \<Longrightarrow> creates c E dev seq p" for dev seq p
    using sub unfolding creates_def by blast
  note parts = v[unfolded valid_events_def, THEN conjunct2, THEN conjunct2]
  show ?thesis
    unfolding valid_events_def
  proof (intro conjI allI impI)
    show "inj idOf" "[] \<notin> range idOf" "\<forall>ev\<in>F. origin_ids c idOf ev"
      using v sub by (auto simp: valid_events_def)
    show "p = q" if "creates c F dev seq p" "creates c F dev seq q" for dev seq p q
      using parts[THEN conjunct2, THEN conjunct1] m[OF that(1)] m[OF that(2)] by blast
    show "\<not> (H (cCommand p) = H (cCommand q) \<and> cStartTS p = cStartTS q \<and> cCwd p = cCwd q \<and> dev = dev')"
      if "creates c F dev seq p" "creates c F dev' seq' q" "(dev, seq) \<noteq> (dev', seq')" "cCwd p \<noteq> []"
      for dev seq p dev' seq' q
      using parts[THEN conjunct2, THEN conjunct2, rule_format, OF m[OF that(1)] m[OF that(2)] that(3,4)] .
  qed
qed

lemma apply_all_inv:
  assumes "history_ok H d" and "replica_inv c H idOf E (view d)"
    and "valid_events c H idOf (E \<union> snd ` set tes)"
  shows "\<exists>d'. apply_all c H d tes = Inr d' \<and> history_ok H d'
     \<and> replica_inv c H idOf (E \<union> snd ` set tes) (view d')"
  using assms
proof (induction tes arbitrary: d E)
  case (Cons te tes)
  obtain now ev where te: "te = (now, ev)" by (cases te)
  have "valid_events c H idOf (insert ev E)"
    using Cons.prems(3) te by (auto elim: valid_events_mono)
  from Apply_step[OF Cons.prems(1,2) this, of now] obtain d1 cs where
    d1: "ApplyTracked c H now d ev = Inr (d1, cs)" "history_ok H d1" "replica_inv c H idOf (insert ev E) (view d1)"
    by blast
  have "valid_events c H idOf (insert ev E \<union> snd ` set tes)" using Cons.prems(3) te by simp
  from Cons.IH[OF d1(2,3) this] d1(1) te show ?case by (simp add: Apply_def)
qed auto

lemma replica_inv_empty: "replica_inv c H idOf {} (view empty_db)"
  by (simp add: replica_inv_def view_def scanEntries_def empty_db_def creates_def tombstones_def)

interpretation merge_replica:
  replica "apply_all c H empty_db" live "\<lambda>E. live_meaning c (snd ` E)" "\<lambda>E. valid_events c H idOf (snd ` E)"
  for c H idOf
proof unfold_locales
  fix es :: "(gotime \<times> event) list"
  assume v: "valid_events c H idOf (snd ` set es)"
  then obtain d' where "apply_all c H empty_db es = Inr d'" "replica_inv c H idOf (snd ` set es) (view d')"
    using apply_all_inv[OF history_ok_empty replica_inv_empty, of c H idOf es] by auto
  moreover have "live d' = live_meaning c (snd ` set es)"
    by (rule replica_inv_live[OF \<open>replica_inv _ _ _ _ _\<close>]) (use v in \<open>auto simp: valid_events_def\<close>)
  ultimately show "\<exists>s. apply_all c H empty_db es = Inr s \<and> live s = live_meaning c (snd ` set es)" by blast
qed


section \<open>Properties\<close>

text \<open>C1: Applying any list of valid events to an empty database succeeds, in any order and with any
  repetitions, and the visible history is exactly the created entries that no tombstone of the list
  names.\<close>

theorem merge_shows_live_meaning:
  assumes "valid_events c H idOf (snd ` set tes)"
  shows "\<exists>d. apply_all c H empty_db tes = Inr d \<and> live d = live_meaning c (snd ` set tes)"
  using merge_replica.run_meaning[of c H idOf tes, OF assms] .

text \<open>C2: Two replicas that apply the same events, each in its own order and at its own times, end with
  the same visible history.\<close>

theorem replicas_converge:
  assumes "valid_events c H idOf (snd ` set tes)" and "snd ` set tes = snd ` set ues"
  shows "\<exists>d d'. apply_all c H empty_db tes = Inr d \<and> apply_all c H empty_db ues = Inr d' \<and> live d = live d'"
  using merge_replica.run_meaning[of c H idOf tes, OF assms(1)]
    merge_replica.run_meaning[of c H idOf ues] assms by metis

subsection \<open>A concrete run\<close>

text \<open>Two devices, two created entries and a tombstone that arrives before the entry it deletes.\<close>

definition demo_id :: "string \<times> int \<Rightarrow> string" where
  "demo_id = (\<lambda>(dev, seq). show_int seq @ CHR ''#'' # dev)"

definition demo_payload :: "string \<Rightarrow> string \<Rightarrow> int \<Rightarrow> history_created" where
  "demo_payload i cmd t = \<lparr>cID = i, cCommand = cmd, cStartTS = t, cEndTS = 0, cDurationMs = 0,
     cExitStatus = Some 0, cCwd = ''/tmp'', cSessionID = ''s'', cHostname = ''h'', cShell = ''zsh''\<rparr>"

definition demo_cbor :: event_cbor where
  "demo_cbor = \<lparr>marshal_event = (\<lambda>_. Inr [9]), unmarshal_event = (\<lambda>_. Inl (Errorf ''cbor'')),
     marshal_created = (\<lambda>p. Inr (if cCommand p = ''ls'' then [1] else [2])),
     unmarshal_created = (\<lambda>b. if b = [1] then Inr (demo_payload ''1#A'' ''ls'' 10)
        else if b = [2] then Inr (demo_payload ''1#B'' ''make'' 20) else Inl (Errorf ''cbor'')),
     marshal_tombstoned = (\<lambda>_. Inr [3]),
     unmarshal_tombstoned = (\<lambda>b. if b = [3]
        then Inr \<lparr>tHistoryID = ''1#A'', tOriginDeviceID = ''A'', tOriginSeq = 1\<rparr> else Inl (Errorf ''cbor'')),
     unmarshal_meta = (\<lambda>_. Inl (Errorf ''cbor''))\<rparr>"

definition demo_event :: "string \<Rightarrow> string \<Rightarrow> int \<Rightarrow> byte \<Rightarrow> event" where
  "demo_event ty dev seq b = \<lparr>evVersion = 1, evType = ty, evDeviceID = dev, evSeq = seq, evTimeUnix = 5, evPayload = [b]\<rparr>"

definition demo_run :: "(gotime \<times> event) list" where
  "demo_run = [(7, demo_event TypeHistoryTombstoned ''B'' 2 3), (8, demo_event TypeHistoryCreated ''B'' 1 2),
     (9, demo_event TypeHistoryCreated ''A'' 1 1)]"

lemma inj_demo_id: "inj demo_id"
proof (rule injI)
  fix x y assume eq: "demo_id x = demo_id y"
  obtain a i b j where x: "x = (a, i)" and y: "y = (b, j)" by (cases x; cases y)
  have "show_int i @ CHR ''#'' # a = show_int j @ CHR ''#'' # b" using eq x y by (simp add: demo_id_def)
  then have "show_int i = show_int j \<and> a = b"
    using same_sep[OF hash_not_in_show_int hash_not_in_show_int] by simp
  then show "x = y" using x y show_int_inject by auto
qed

lemmas demo_defs = demo_run_def demo_event_def demo_cbor_def demo_payload_def event_type_defs

lemma demo_creates:
  "creates demo_cbor (snd ` set demo_run) dev seq p \<longleftrightarrow>
     (dev, seq, p) = (''A'', 1, demo_payload ''1#A'' ''ls'' 10) \<or> (dev, seq, p) = (''B'', 1, demo_payload ''1#B'' ''make'' 20)"
  by (auto simp: creates_def DecodeHistoryCreated_def demo_defs)

lemma demo_tombstones:
  "tombstones demo_cbor (snd ` set demo_run) dev seq \<longleftrightarrow> (dev, seq) = (''A'', 1)"
  by (auto simp: tombstones_def DecodeHistoryTombstoned_def demo_defs)

lemma show_int_1: "show_int 1 = ''1''"
  by code_simp

lemma demo_valid: "valid_events demo_cbor (\<lambda>s. map (\<lambda>ch. of_char ch) s) demo_id (snd ` set demo_run)"
proof -
  have "\<forall>ev\<in>snd ` set demo_run. origin_ids demo_cbor demo_id ev"
    by (simp add: origin_ids_def DecodeHistoryCreated_def DecodeHistoryTombstoned_def demo_defs demo_id_def show_int_1)
  moreover have "[] \<notin> range demo_id" by (auto simp: demo_id_def)
  ultimately show ?thesis
    unfolding valid_events_def demo_creates using inj_demo_id by (auto simp: demo_payload_def)
qed

theorem merge_shows_live_meaning_witness:
  "\<exists>d. apply_all demo_cbor (\<lambda>s. map (\<lambda>ch. of_char ch) s) empty_db demo_run = Inr d
     \<and> live d = {forget_created (created_entry ''B'' 1 (demo_payload ''1#B'' ''make'' 20))}"
proof -
  have "live_meaning demo_cbor (snd ` set demo_run) =
      {forget_created (created_entry ''B'' 1 (demo_payload ''1#B'' ''make'' 20))}"
    unfolding live_meaning_def demo_creates demo_tombstones by auto
  then show ?thesis using merge_shows_live_meaning[OF demo_valid] by simp
qed

theorem replicas_converge_witness:
  "\<exists>d d'. apply_all demo_cbor (\<lambda>s. map (\<lambda>ch. of_char ch) s) empty_db demo_run = Inr d
     \<and> apply_all demo_cbor (\<lambda>s. map (\<lambda>ch. of_char ch) s) empty_db (rev demo_run) = Inr d' \<and> live d = live d'"
  using replicas_converge[OF demo_valid, of "rev demo_run"] by simp

end
