(* ===== verification/Pull.thy ===== *)
theory Pull
  imports Merge Bundle Transport
begin

text \<open>
  Pulling events (\<^verbatim>\<open>internal/sync/syncer/engine.go\<close>): applying the events of a bundle in a transaction, and the
  loop over the bundles of the remote. The theory shows that the shortcuts of the engine (skip an event
  already stored, skip an event at or below the head, skip a bundle already pulled, forget applied events
  below the head) lose nothing: a device that has pulled shows what all events together mean.
\<close>

section \<open>Applying events\<close>

text \<open>
  What the code calls outside the repository: the codecs, the cipher, the command hash and the clock. The model
  reads the clock once in an operation; the readings only reach the creation times of rows.
\<close>

record pull_env =
  pnCbor :: event_cbor
  pnHash :: "string \<Rightarrow> bytes"
  pnBundle :: bundle_cbor
  pnAead :: aead
  pnNow :: gotime

abbreviation head_seq :: "db \<Rightarrow> string \<Rightarrow> int" where
  "head_seq d dev \<equiv> get_default 0 (sync_heads d) dev"

text \<open>The loop of \<^verbatim>\<open>applyEvents\<close>. The change set grows outside the transaction: an error keeps what was merged.\<close>

fun apply_events_loop :: "pull_env \<Rightarrow> db \<Rightarrow> change_set \<Rightarrow> event list \<Rightarrow> change_set \<times> db result" where
  "apply_events_loop N d cs [] = (cs, Inr d)"
| "apply_events_loop N d cs (ev # evs) =
     (if ExistsTx d (evDeviceID ev) (evSeq ev) then apply_events_loop N d cs evs
      else if evSeq ev \<le> head_seq d (evDeviceID ev) then apply_events_loop N d cs evs
      else (case AppendExec (pnCbor N) d ev of
              Inl e \<Rightarrow> (cs, Inl e)
            | Inr d1 \<Rightarrow>
                (case ApplyTracked (pnCbor N) (pnHash N) (pnNow N) d1 ev of
                   Inl e \<Rightarrow> (cs, Inl e)
                 | Inr (d2, cs') \<Rightarrow>
                     apply_events_loop N (MarkApplied d2 (evDeviceID ev) (evSeq ev)) (cs_Merge cs cs') evs)))"

definition applyEvents :: "pull_env \<Rightarrow> db \<Rightarrow> change_set \<Rightarrow> event list \<Rightarrow> (db \<times> change_set) \<times> go_error option" where
  "applyEvents N d cs evs =
     (case apply_events_loop N d cs evs of
        (cs', Inl e) \<Rightarrow> ((d, cs'), Some e)
      | (cs', Inr d') \<Rightarrow> ((d', cs'), None))"

section \<open>Bundles of the remote\<close>

definition getBytes :: "transport \<Rightarrow> string \<Rightarrow> bytes result" where
  "getBytes tr key = trGet tr key"

fun shallow_bundles :: "(string \<Rightarrow> object list result) \<Rightarrow> string list \<Rightarrow> object list \<Rightarrow> object list result" where
  "shallow_bundles ls [] out = Inr out"
| "shallow_bundles ls (p # ps) out = bind_result (ls p) (\<lambda>more. shallow_bundles ls ps (out @ more))"

definition listEventBundles :: "transport \<Rightarrow> object list result" where
  "listEventBundles tr =
     (case trListShallow tr of
        None \<Rightarrow> trList tr ''events/''
      | Some ls \<Rightarrow>
          bind_result (ls ''events'') (\<lambda>files.
          bind_result (trListDirs tr ''events'') (\<lambda>dirs. shallow_bundles ls dirs files)))"

definition bundleDevice :: "string \<Rightarrow> string" where
  "bundleDevice key =
     (let parts = Split key (CHR ''/'')
      in if length parts < 3 \<or> parts ! 0 \<noteq> ''events'' then [] else parts ! 1)"

definition peekGeneration :: "bundle_cbor \<Rightarrow> bytes \<Rightarrow> string" where
  "peekGeneration B raw = (case PeekHeader B raw of Inl _ \<Rightarrow> [] | Inr h \<Rightarrow> bhGenerationID h)"

definition state_get :: "db \<Rightarrow> string \<Rightarrow> string option" where
  "state_get d key = map_of (transport_state d) key"

definition state_put :: "db \<Rightarrow> string \<Rightarrow> string \<Rightarrow> db" where
  "state_put d key v = d\<lparr>transport_state := map_put key v (transport_state d)\<rparr>"

definition bundlePulled :: "db \<Rightarrow> string \<Rightarrow> bool" where
  "bundlePulled d key \<longleftrightarrow> (case state_get d (''pulled:'' @ key) of None \<Rightarrow> False | Some v \<Rightarrow> v \<noteq> [])"

definition markBundlePulled :: "db \<Rightarrow> string \<Rightarrow> db" where
  "markBundlePulled d key = state_put d (''pulled:'' @ key) ''1''"

text \<open>The key for a bundle: that of its generation, else the first of the unlocked keys that opens it. The map of
  keys is a list in the order \<^verbatim>\<open>range\<close> visits it.\<close>

definition bundle_key :: "pull_env \<Rightarrow> (string \<times> bytes) list \<Rightarrow> bytes \<Rightarrow> bytes option" where
  "bundle_key N smks raw =
     (case map_of smks (peekGeneration (pnBundle N) raw) of
        Some k \<Rightarrow> Some k
      | None \<Rightarrow> find (\<lambda>k. \<not> isl (Unpack (pnBundle N) (pnAead N) raw k)) (map snd smks))"

definition read_bundle :: "pull_env \<Rightarrow> transport \<Rightarrow> (string \<times> bytes) list \<Rightarrow> string \<Rightarrow> (bundle_header \<times> event list) result" where
  "read_bundle N tr smks key =
     bind_result (getBytes tr key) (\<lambda>raw.
       case bundle_key N smks raw of
         None \<Rightarrow> Inl (Errorf (''no key for bundle '' @ key))
       | Some smk \<Rightarrow>
           (case Unpack (pnBundle N) (pnAead N) raw smk of
              Inl e \<Rightarrow> Inl (Wrapped (''bundle '' @ key) e)
            | Inr r \<Rightarrow> Inr r))"

text \<open>The loop of \<^verbatim>\<open>pullBundles\<close> over the listed objects; \<open>rh\<close> are the \<^verbatim>\<open>remoteHeads\<close>.\<close>

fun pull_loop :: "pull_env \<Rightarrow> transport \<Rightarrow> (string \<times> bytes) list \<Rightarrow> object list \<Rightarrow> frontier \<Rightarrow> db \<times> change_set \<Rightarrow>
    ((db \<times> change_set) \<times> frontier) \<times> go_error option" where
  "pull_loop N tr smks [] rh s = ((s, rh), None)"
| "pull_loop N tr smks (ob # objs) rh s =
     (if bundleDevice (obKey ob) = [] then pull_loop N tr smks objs rh s
      else if bundlePulled (fst s) (obKey ob) then pull_loop N tr smks objs rh s
      else (case read_bundle N tr smks (obKey ob) of
              Inl e \<Rightarrow> ((s, rh), Some e)
            | Inr (h, evs) \<Rightarrow>
                (case applyEvents N (fst s) (snd s) evs of
                   (s1, Some e) \<Rightarrow> ((s1, rh), Some e)
                 | (s1, None) \<Rightarrow>
                     pull_loop N tr smks objs
                       (if bhSeqEnd h > fget rh (bhDeviceID h) then map_put (bhDeviceID h) (bhSeqEnd h) rh else rh)
                       (markBundlePulled (fst s1) (obKey ob), snd s1))))"

definition advance_all :: "string list \<Rightarrow> db \<Rightarrow> db" where
  "advance_all ids d = fold (\<lambda>i d. AdvanceContiguous d i) ids d"

definition pullBundles :: "pull_env \<Rightarrow> transport \<Rightarrow> (string \<times> bytes) list \<Rightarrow> db \<times> change_set \<Rightarrow> (db \<times> change_set) \<times> go_error option" where
  "pullBundles N tr smks s =
     (case listEventBundles tr of
        Inl e \<Rightarrow> (s, Some e)
      | Inr objs \<Rightarrow>
          (case pull_loop N tr smks objs (Clone (HeadGet (fst s))) s of
             ((s1, _), Some e) \<Rightarrow> (s1, Some e)
           | ((s1, rh), None) \<Rightarrow>
               ((CompactUpToHeads (advance_all (map fst rh) (fst s1)), snd s1), None)))"

section \<open>The synchronisation invariant\<close>

text \<open>
  The events all devices ever wrote: valid, numbered from 1, one per device and number, and storable.
\<close>

definition universe :: "pull_env \<Rightarrow> (string \<times> int \<Rightarrow> string) \<Rightarrow> event set \<Rightarrow> bool" where
  "universe N idOf U \<longleftrightarrow> valid_events (pnCbor N) (pnHash N) idOf U
     \<and> (\<forall>ev \<in> U. evSeq ev > 0 \<and> \<not> isl (Encode (pnCbor N) ev))
     \<and> (\<forall>ev \<in> U. \<forall>ev' \<in> U. evDeviceID ev = evDeviceID ev' \<longrightarrow> evSeq ev = evSeq ev' \<longrightarrow> ev = ev')"

definition has_event :: "event set \<Rightarrow> string \<Rightarrow> int \<Rightarrow> bool" where
  "has_event E dev seq \<longleftrightarrow> (\<exists>ev \<in> E. evDeviceID ev = dev \<and> evSeq ev = seq)"

text \<open>
  A database that has taken in the events \<open>E\<close>: its history means \<open>E\<close>, every stored event is one of \<open>E\<close>, and below
  the head of a device no number is missing.
\<close>

definition sync_inv :: "pull_env \<Rightarrow> (string \<times> int \<Rightarrow> string) \<Rightarrow> event set \<Rightarrow> db \<Rightarrow> bool" where
  "sync_inv N idOf E d \<longleftrightarrow>
     history_ok (pnHash N) d \<and> replica_inv (pnCbor N) (pnHash N) idOf E (view d) \<and> map_ok (sync_heads d)
     \<and> (\<forall>r \<in> set (sync_events d). has_event E (ev_device_id r) (ev_seq r))
     \<and> (\<forall>dev. 0 \<le> head_seq d dev)
     \<and> (\<forall>dev seq. 0 < seq \<and> seq \<le> head_seq d dev \<longrightarrow> has_event E dev seq)"

lemma has_event_mono: "has_event E dev seq \<Longrightarrow> E \<subseteq> F \<Longrightarrow> has_event F dev seq"
  by (auto simp: has_event_def)

lemma has_event_in:
  "universe N idOf U \<Longrightarrow> E \<subseteq> U \<Longrightarrow> ev \<in> U \<Longrightarrow> has_event E (evDeviceID ev) (evSeq ev) \<Longrightarrow> ev \<in> E"
  unfolding universe_def has_event_def by (metis subsetD)

lemma ExistsTx_iff: "ExistsTx d dev seq \<longleftrightarrow> (\<exists>r \<in> set (sync_events d). at_event dev seq r)"
  by (auto simp: ExistsTx_def filter_empty_conv)

lemma sync_events_update [simp]:
  "history_ok H (d\<lparr>sync_events := x\<rparr>) = history_ok H d" "view (d\<lparr>sync_events := x\<rparr>) = view d"
  by (simp_all add: history_ok_def row_refs_ok_def view_def scanEntries_def scanEntry_def)

lemma transport_state_update [simp]:
  "history_ok H (d\<lparr>transport_state := x\<rparr>) = history_ok H d" "view (d\<lparr>transport_state := x\<rparr>) = view d"
  by (simp_all add: history_ok_def row_refs_ok_def view_def scanEntries_def scanEntry_def)

lemma sync_heads_update [simp]:
  "history_ok H (d\<lparr>sync_heads := x\<rparr>) = history_ok H d" "view (d\<lparr>sync_heads := x\<rparr>) = view d"
  by (simp_all add: history_ok_def row_refs_ok_def view_def scanEntries_def scanEntry_def)

text \<open>Applying an event touches neither the event table nor the heads nor the transport state.\<close>

lemma InsertExec_frame [simp]:
  "sync_events (fst (InsertExec H now d e)) = sync_events d"
  "sync_heads (fst (InsertExec H now d e)) = sync_heads d"
  "transport_state (fst (InsertExec H now d e)) = transport_state d"
  by (simp_all add: InsertExec_def Let_def split_beta)

lemma Tombstone_frame [simp]:
  "sync_events (Tombstone d i) = sync_events d" "sync_heads (Tombstone d i) = sync_heads d"
  "transport_state (Tombstone d i) = transport_state d"
  "sync_events (fst (TombstoneByOrigin d dev s)) = sync_events d"
  "sync_heads (fst (TombstoneByOrigin d dev s)) = sync_heads d"
  "transport_state (fst (TombstoneByOrigin d dev s)) = transport_state d"
  by (simp_all add: Tombstone_def TombstoneByOrigin_def Let_def)

lemma ApplyTracked_frame:
  assumes "ApplyTracked c H now d ev = Inr (d', cs)"
  shows "sync_events d' = sync_events d \<and> sync_heads d' = sync_heads d \<and> transport_state d' = transport_state d"
  using assms
  by (auto simp: ApplyTracked_def applyCreated_def applyTombstone_def applyDeviceMeta_def Let_def result_Inr split_beta
      split: if_splits)

section \<open>Applying events keeps the invariant\<close>

lemma AppendExec_ok:
  assumes "universe N idOf U" "ev \<in> U" "\<not> ExistsTx d (evDeviceID ev) (evSeq ev)"
  obtains r where "AppendExec (pnCbor N) d ev = Inr (d\<lparr>sync_events := sync_events d @ [r]\<rparr>)"
    "at_event (evDeviceID ev) (evSeq ev) r"
proof -
  obtain b where "Encode (pnCbor N) ev = Inr b"
    using assms(1,2) by (cases "Encode (pnCbor N) ev") (auto simp: universe_def)
  then have "\<exists>r. AppendExec (pnCbor N) d ev = Inr (d\<lparr>sync_events := sync_events d @ [r]\<rparr>)
      \<and> at_event (evDeviceID ev) (evSeq ev) r"
    using assms(3) by (cases "evType ev \<noteq> TypeHistoryCreated \<and> evType ev \<noteq> TypeHistoryTombstoned")
      (auto simp: AppendExec_def Let_def)
  with that show ?thesis by blast
qed

lemma sync_inv_skip:
  assumes "sync_inv N idOf E d" "universe N idOf U" "E \<subseteq> U" "ev \<in> U"
    and "ExistsTx d (evDeviceID ev) (evSeq ev) \<or> evSeq ev \<le> head_seq d (evDeviceID ev)"
  shows "ev \<in> E"
proof (rule has_event_in[OF assms(2,3,4)])
  have "0 < evSeq ev" using assms(2,4) by (auto simp: universe_def)
  then show "has_event E (evDeviceID ev) (evSeq ev)"
    using assms(1,5) by (auto simp: sync_inv_def ExistsTx_iff)
qed

lemma sync_inv_apply:
  assumes inv: "sync_inv N idOf E d" and uni: "universe N idOf U" and sub: "E \<subseteq> U" and ev: "ev \<in> U"
    and new: "\<not> ExistsTx d (evDeviceID ev) (evSeq ev)"
  obtains d1 d2 cs where "AppendExec (pnCbor N) d ev = Inr d1"
    "ApplyTracked (pnCbor N) (pnHash N) (pnNow N) d1 ev = Inr (d2, cs)"
    "sync_inv N idOf (insert ev E) (MarkApplied d2 (evDeviceID ev) (evSeq ev))"
proof -
  from AppendExec_ok[OF uni ev new] obtain r where
    r: "AppendExec (pnCbor N) d ev = Inr (d\<lparr>sync_events := sync_events d @ [r]\<rparr>)" "at_event (evDeviceID ev) (evSeq ev) r" .
  let ?d1 = "d\<lparr>sync_events := sync_events d @ [r]\<rparr>"
  have val: "valid_events (pnCbor N) (pnHash N) idOf (insert ev E)"
    using uni ev sub by (auto simp: universe_def elim!: valid_events_mono)
  from Apply_step[of "pnHash N" ?d1 "pnCbor N" idOf E ev "pnNow N"] val inv obtain d2 cs where
    d2: "ApplyTracked (pnCbor N) (pnHash N) (pnNow N) ?d1 ev = Inr (d2, cs)" "history_ok (pnHash N) d2"
      "replica_inv (pnCbor N) (pnHash N) idOf (insert ev E) (view d2)"
    by (auto simp: sync_inv_def)
  have fr: "sync_events d2 = sync_events d @ [r]" "sync_heads d2 = sync_heads d"
    using ApplyTracked_frame[OF d2(1)] by simp_all
  have mono: "has_event E a b \<Longrightarrow> has_event (insert ev E) a b" for a b by (auto simp: has_event_def)
  have "has_event (insert ev E) (evDeviceID ev) (evSeq ev)" by (auto simp: has_event_def)
  then have "sync_inv N idOf (insert ev E) (MarkApplied d2 (evDeviceID ev) (evSeq ev))"
    using inv d2(2,3) fr r(2) by (auto simp: sync_inv_def MarkApplied_def intro: mono split: if_splits)
  with that r(1) d2(1) show thesis by blast
qed

lemma apply_events_inv:
  assumes "sync_inv N idOf E d" "universe N idOf U" "E \<subseteq> U" "set evs \<subseteq> U"
  shows "\<exists>cs' d'. apply_events_loop N d cs evs = (cs', Inr d') \<and> sync_inv N idOf (E \<union> set evs) d'
     \<and> transport_state d' = transport_state d"
  using assms
proof (induction evs arbitrary: d cs E)
  case (Cons ev evs)
  show ?case
  proof (cases "ExistsTx d (evDeviceID ev) (evSeq ev) \<or> evSeq ev \<le> head_seq d (evDeviceID ev)")
    case True
    then have "ev \<in> E" using sync_inv_skip[OF Cons.prems(1-3)] Cons.prems(4) by simp
    then have "E \<union> set (ev # evs) = E \<union> set evs" by auto
    then show ?thesis using Cons.IH[OF Cons.prems(1-3), of cs] Cons.prems(4) True by auto
  next
    case False
    from sync_inv_apply[OF Cons.prems(1-3)] False Cons.prems(4) obtain d1 d2 cs1 where
      st: "AppendExec (pnCbor N) d ev = Inr d1" "ApplyTracked (pnCbor N) (pnHash N) (pnNow N) d1 ev = Inr (d2, cs1)"
      and inv: "sync_inv N idOf (insert ev E) (MarkApplied d2 (evDeviceID ev) (evSeq ev))"
      by (metis insert_subset list.simps(15))
    have "transport_state d2 = transport_state d"
      using ApplyTracked_frame[OF st(2)] st(1) by (auto simp: AppendExec_def Let_def result_Inr split: if_splits)
    moreover have "insert ev E \<subseteq> U" "set evs \<subseteq> U" using Cons.prems by auto
    ultimately show ?thesis
      using Cons.IH[OF inv Cons.prems(2), of "cs_Merge cs cs1"] st False by (auto simp: MarkApplied_def)
  qed
qed auto

section \<open>Pulling bundles\<close>

lemma HeadSet_frame [simp]:
  "history_ok H (HeadSet d dev s) = history_ok H d" "transport_state (HeadSet d dev s) = transport_state d"
  by (simp_all add: HeadSet_def)

lemma advance_loop_history_ok [simp]: "history_ok H (advance_loop d dev h) = history_ok H d"
  by (induction d dev h rule: advance_loop.induct) (subst advance_loop.simps, simp add: Let_def)

lemma advance_loop_transport_state [simp]: "transport_state (advance_loop d dev h) = transport_state d"
  by (induction d dev h rule: advance_loop.induct) (subst advance_loop.simps, simp add: Let_def)

lemma advance_loop_map_ok: "map_ok (sync_heads d) \<Longrightarrow> map_ok (sync_heads (advance_loop d dev h))"
  by (induction d dev h rule: advance_loop.induct) (subst advance_loop.simps, simp add: Let_def)

lemma sync_inv_advance:
  assumes inv: "sync_inv N idOf E d"
  shows "sync_inv N idOf E (AdvanceContiguous d dev)"
proof -
  let ?d = "AdvanceContiguous d dev"
  have sp: "head_seq d dev \<le> head_seq ?d dev" "\<forall>s. head_seq d dev < s \<and> s \<le> head_seq ?d dev \<longrightarrow> event_applied d dev s"
    using advance_loop_spec[OF refl, of d dev] inv by (auto simp: sync_inv_def AdvanceContiguous_def Let_def)
  have other: "dev' \<noteq> dev \<Longrightarrow> head_seq ?d dev' = head_seq d dev'" for dev'
    by (simp add: AdvanceContiguous_def advance_loop_other)
  have "has_event E dev' s" if s: "0 < s" "s \<le> head_seq ?d dev'" for dev' s
  proof (cases "dev' = dev \<and> head_seq d dev < s")
    case True
    with sp s have "event_applied d dev s" by blast
    with inv True show ?thesis by (auto simp: sync_inv_def event_applied_iff)
  next
    case False
    with s other have "s \<le> head_seq d dev'" by (cases "dev' = dev") auto
    with inv s show ?thesis by (auto simp: sync_inv_def)
  qed
  moreover have "0 \<le> head_seq ?d dev'" for dev'
  proof -
    have "0 \<le> head_seq d dev'" using inv by (simp add: sync_inv_def)
    then show ?thesis using sp(1) other[of dev'] by (cases "dev' = dev") simp_all
  qed
  ultimately show ?thesis
    using inv by (simp add: sync_inv_def AdvanceContiguous_def advance_loop_view advance_loop_map_ok)
qed

lemma sync_inv_advance_all: "sync_inv N idOf E d \<Longrightarrow> sync_inv N idOf E (advance_all ids d)"
  by (induction ids arbitrary: d) (auto simp: advance_all_def sync_inv_advance)

lemma advance_all_frame [simp]: "transport_state (advance_all ids d) = transport_state d"
  by (induction ids arbitrary: d) (auto simp: advance_all_def AdvanceContiguous_def)

lemma sync_inv_compact: "sync_inv N idOf E d \<Longrightarrow> sync_inv N idOf E (CompactUpToHeads d)"
  by (auto simp: sync_inv_def CompactUpToHeads_def)

lemma sync_inv_state: "sync_inv N idOf E d \<Longrightarrow> sync_inv N idOf E (d\<lparr>transport_state := x\<rparr>)"
  by (simp add: sync_inv_def)

text \<open>The events of a bundle of the remote, and of all of them.\<close>

definition bundle_events :: "pull_env \<Rightarrow> transport \<Rightarrow> (string \<times> bytes) list \<Rightarrow> string \<Rightarrow> event set" where
  "bundle_events N tr smks key =
     (case read_bundle N tr smks key of Inl _ \<Rightarrow> {} | Inr (h, evs) \<Rightarrow> set evs)"

definition bundle_keys :: "object list \<Rightarrow> string set" where
  "bundle_keys objs = {obKey ob | ob. ob \<in> set objs \<and> bundleDevice (obKey ob) \<noteq> []}"

definition remote_events :: "pull_env \<Rightarrow> transport \<Rightarrow> (string \<times> bytes) list \<Rightarrow> event set" where
  "remote_events N tr smks =
     (case listEventBundles tr of Inl _ \<Rightarrow> {} | Inr objs \<Rightarrow> \<Union> (bundle_events N tr smks ` bundle_keys objs))"

text \<open>What a pull needs of the remote: the listing succeeds, the bundles not yet pulled open and hold events of \<open>U\<close>;
  those marked as pulled were taken in.\<close>

definition pullable :: "pull_env \<Rightarrow> transport \<Rightarrow> (string \<times> bytes) list \<Rightarrow> event set \<Rightarrow> event set \<Rightarrow> db \<Rightarrow> object list \<Rightarrow> bool" where
  "pullable N tr smks U E d objs \<longleftrightarrow>
     (\<forall>key \<in> bundle_keys objs.
        if bundlePulled d key then bundle_events N tr smks key \<subseteq> E
        else (\<exists>h evs. read_bundle N tr smks key = Inr (h, evs) \<and> set evs \<subseteq> U))"

lemma bundlePulled_mark [simp]: "bundlePulled (markBundlePulled d k) key \<longleftrightarrow> key = k \<or> bundlePulled d key"
  by (auto simp: bundlePulled_def markBundlePulled_def state_put_def state_get_def map_of_put)

lemma bundlePulled_cong: "transport_state d = transport_state d' \<Longrightarrow> bundlePulled d = bundlePulled d'"
  by (simp add: bundlePulled_def state_get_def fun_eq_iff)

lemma bundle_keys_Cons:
  "bundle_keys (ob # objs) = (if bundleDevice (obKey ob) = [] then bundle_keys objs else insert (obKey ob) (bundle_keys objs))"
  by (auto simp: bundle_keys_def)

lemma pull_loop_inv:
  assumes "sync_inv N idOf E (fst s)" "universe N idOf U" "E \<subseteq> U" "pullable N tr smks U E (fst s) objs"
  shows "\<exists>s' rh'. pull_loop N tr smks objs rh s = ((s', rh'), None)
     \<and> sync_inv N idOf (E \<union> \<Union> (bundle_events N tr smks ` bundle_keys objs)) (fst s')
     \<and> bundlePulled (fst s') = (\<lambda>key. key \<in> bundle_keys objs \<or> bundlePulled (fst s) key)"
  using assms
proof (induction objs arbitrary: s rh E)
  case (Cons ob objs)
  let ?k = "obKey ob"
  have tail: "pullable N tr smks U E (fst s) objs"
    using Cons.prems(4) by (auto simp: pullable_def bundle_keys_Cons split: if_splits)
  consider (skip) "bundleDevice ?k = []" | (old) "bundleDevice ?k \<noteq> []" "bundlePulled (fst s) ?k"
    | (new) "bundleDevice ?k \<noteq> []" "\<not> bundlePulled (fst s) ?k" by blast
  then show ?case
  proof cases
    case skip
    then show ?thesis using Cons.IH[OF Cons.prems(1-3) tail] by (simp add: bundle_keys_Cons)
  next
    case old
    then have "bundle_events N tr smks ?k \<subseteq> E" using Cons.prems(4) by (simp add: pullable_def bundle_keys_Cons)
    then have "E \<union> \<Union> (bundle_events N tr smks ` bundle_keys (ob # objs)) = E \<union> \<Union> (bundle_events N tr smks ` bundle_keys objs)"
      using old by (auto simp: bundle_keys_Cons)
    then show ?thesis using Cons.IH[OF Cons.prems(1-3) tail, of rh] old by (auto simp: bundle_keys_Cons fun_eq_iff)
  next
    case new
    then obtain h evs where ob: "read_bundle N tr smks ?k = Inr (h, evs)" "set evs \<subseteq> U"
      using Cons.prems(4) by (auto simp: pullable_def bundle_keys_Cons)
    obtain cs' d' where ap: "apply_events_loop N (fst s) (snd s) evs = (cs', Inr d')"
      "sync_inv N idOf (E \<union> set evs) d'" "transport_state d' = transport_state (fst s)"
      using apply_events_inv[OF Cons.prems(1-3) ob(2)] by blast
    let ?s = "(markBundlePulled d' ?k, cs')"
    let ?rh = "if bhSeqEnd h > fget rh (bhDeviceID h) then map_put (bhDeviceID h) (bhSeqEnd h) rh else rh"
    have be: "bundle_events N tr smks ?k = set evs" using ob(1) by (simp add: bundle_events_def)
    have pul: "bundlePulled (markBundlePulled d' ?k) key \<longleftrightarrow> key = ?k \<or> bundlePulled (fst s) key" for key
      using bundlePulled_cong[OF ap(3)] by simp
    have "sync_inv N idOf (E \<union> set evs) (fst ?s)"
      using ap(2) by (simp add: markBundlePulled_def state_put_def sync_inv_state)
    moreover have "E \<union> set evs \<subseteq> U" using Cons.prems(3) ob(2) by simp
    moreover have "pullable N tr smks U (E \<union> set evs) (fst ?s) objs"
      using tail be bundlePulled_cong[OF ap(3)] unfolding pullable_def by (auto split: if_splits)
    ultimately obtain s' rh' where s': "pull_loop N tr smks objs ?rh ?s = ((s', rh'), None)"
      "sync_inv N idOf (E \<union> set evs \<union> \<Union> (bundle_events N tr smks ` bundle_keys objs)) (fst s')"
      "bundlePulled (fst s') = (\<lambda>key. key \<in> bundle_keys objs \<or> bundlePulled (fst ?s) key)"
      using Cons.IH[OF _ Cons.prems(2), of "E \<union> set evs" ?s ?rh] by auto
    have "pull_loop N tr smks (ob # objs) rh s = ((s', rh'), None)"
      using new ob(1) ap(1) s'(1) by (simp add: applyEvents_def)
    moreover have "E \<union> set evs \<union> \<Union> (bundle_events N tr smks ` bundle_keys objs) =
        E \<union> \<Union> (bundle_events N tr smks ` bundle_keys (ob # objs))"
      using new be by (auto simp: bundle_keys_Cons)
    moreover have "bundlePulled (fst s') = (\<lambda>key. key \<in> bundle_keys (ob # objs) \<or> bundlePulled (fst s) key)"
      using new by (auto simp: s'(3) pul bundle_keys_Cons fun_eq_iff simp del: bundlePulled_mark)
    ultimately show ?thesis using s'(2) by metis
  qed
qed (auto simp: bundle_keys_def)

lemma pullBundles_inv:
  assumes "sync_inv N idOf E (fst s)" "universe N idOf U" "E \<subseteq> U" "listEventBundles tr = Inr objs"
    "pullable N tr smks U E (fst s) objs"
  shows "\<exists>s'. pullBundles N tr smks s = (s', None) \<and> sync_inv N idOf (E \<union> remote_events N tr smks) (fst s')
     \<and> bundlePulled (fst s') = (\<lambda>key. key \<in> bundle_keys objs \<or> bundlePulled (fst s) key)"
proof -
  obtain s' rh' where s': "pull_loop N tr smks objs (Clone (HeadGet (fst s))) s = ((s', rh'), None)"
    "sync_inv N idOf (E \<union> remote_events N tr smks) (fst s')"
    "bundlePulled (fst s') = (\<lambda>key. key \<in> bundle_keys objs \<or> bundlePulled (fst s) key)"
    using pull_loop_inv[OF assms(1-3,5), of "Clone (HeadGet (fst s))"] assms(4) by (auto simp: remote_events_def)
  let ?d = "CompactUpToHeads (advance_all (map fst rh') (fst s'))"
  have "sync_inv N idOf (E \<union> remote_events N tr smks) ?d"
    using s'(2) by (intro sync_inv_compact sync_inv_advance_all)
  moreover have "bundlePulled ?d = bundlePulled (fst s')"
    by (rule bundlePulled_cong) (simp add: CompactUpToHeads_def)
  ultimately show ?thesis using s' assms(4) by (simp add: pullBundles_def)
qed

section \<open>Events that are known\<close>

text \<open>An event the engine will not apply again: its row is stored, or its number is not above the head.\<close>

definition known :: "db \<Rightarrow> event \<Rightarrow> bool" where
  "known d ev \<longleftrightarrow> ExistsTx d (evDeviceID ev) (evSeq ev) \<or> evSeq ev \<le> head_seq d (evDeviceID ev)"

lemma apply_events_known: "\<forall>ev \<in> set evs. known d ev \<Longrightarrow> apply_events_loop N d cs evs = (cs, Inr d)"
  by (induction evs) (auto simp: known_def)

lemma AppendExec_parts:
  assumes "AppendExec c d ev = Inr d'"
  obtains r where "d' = d\<lparr>sync_events := sync_events d @ [r]\<rparr>" "at_event (evDeviceID ev) (evSeq ev) r"
  using assms by (auto simp: AppendExec_def Let_def result_Inr split: if_splits)

lemma known_after_apply:
  assumes "AppendExec c d ev = Inr d1" "ApplyTracked c H now d1 ev = Inr (d2, cs)"
  shows "known (MarkApplied d2 (evDeviceID ev) (evSeq ev)) ev"
    and "known d e \<Longrightarrow> known (MarkApplied d2 (evDeviceID ev) (evSeq ev)) e"
proof -
  obtain r where r: "d1 = d\<lparr>sync_events := sync_events d @ [r]\<rparr>" "at_event (evDeviceID ev) (evSeq ev) r"
    using AppendExec_parts[OF assms(1)] .
  show "known (MarkApplied d2 (evDeviceID ev) (evSeq ev)) ev"
    using ApplyTracked_frame[OF assms(2)] r by (auto simp: known_def ExistsTx_iff MarkApplied_def)
  show "known d e \<Longrightarrow> known (MarkApplied d2 (evDeviceID ev) (evSeq ev)) e"
    using ApplyTracked_frame[OF assms(2)] r by (auto simp: known_def ExistsTx_iff MarkApplied_def)
qed

lemma apply_events_makes_known:
  "apply_events_loop N d cs evs = (cs', Inr d') \<Longrightarrow> ev \<in> set evs \<or> known d ev \<Longrightarrow> known d' ev"
proof (induction evs arbitrary: d cs)
  case (Cons e evs)
  then show ?case
    by (auto split: if_splits sum.splits simp: known_after_apply intro: known_def[THEN iffD2])
qed auto

lemma advance_loop_mono: "head_seq d dev = h \<Longrightarrow> h \<le> head_seq (advance_loop d dev h) dev"
proof (induction d dev h rule: advance_loop.induct)
  case (1 d dev h)
  show ?case
  proof (cases "event_applied d dev (h + 1)")
    case True
    have "head_seq (HeadSet d dev (h + 1)) dev = h + 1" using "1.prems" by (auto simp: HeadSet_heads)
    from "1.IH"[OF refl _ this] True show ?thesis by (simp add: advance_loop.simps[of d dev h] Let_def)
  next
    case False
    then show ?thesis using "1.prems" by (simp add: advance_loop.simps[of d dev h] Let_def)
  qed
qed

lemma known_advance: "known d ev \<Longrightarrow> known (AdvanceContiguous d dev) ev"
  using advance_loop_mono[of d dev, OF refl] advance_loop_other[of "evDeviceID ev" dev d "head_seq d dev"]
  by (cases "evDeviceID ev = dev") (auto simp: known_def ExistsTx_iff AdvanceContiguous_def)

lemma known_advance_all: "known d ev \<Longrightarrow> known (advance_all ids d) ev"
  by (induction ids arbitrary: d) (auto simp: advance_all_def known_advance)

lemma known_compact: "known d ev \<Longrightarrow> known (CompactUpToHeads d) ev"
  by (auto simp: known_def ExistsTx_iff CompactUpToHeads_def)

lemma pullBundles_live:
  assumes "universe N idOf U" "E \<subseteq> U" "sync_inv N idOf E (fst s)"
    and "listEventBundles tr = Inr objs" "pullable N tr smks U E (fst s) objs"
  obtains s' where "pullBundles N tr smks s = (s', None)"
    "live (fst s') = live_meaning (pnCbor N) (E \<union> remote_events N tr smks)"
    "sync_inv N idOf (E \<union> remote_events N tr smks) (fst s')"
    "\<forall>key \<in> bundle_keys objs. bundlePulled (fst s') key"
proof -
  obtain s' where s': "pullBundles N tr smks s = (s', None)" "sync_inv N idOf (E \<union> remote_events N tr smks) (fst s')"
    "bundlePulled (fst s') = (\<lambda>key. key \<in> bundle_keys objs \<or> bundlePulled (fst s) key)"
    using pullBundles_inv[OF assms(3,1,2,4,5)] by blast
  have "E \<union> remote_events N tr smks \<subseteq> U"
    using assms(2,4,5) by (fastforce simp: remote_events_def pullable_def bundle_events_def split: if_splits)
  then have "valid_events (pnCbor N) (pnHash N) idOf (E \<union> remote_events N tr smks)"
    using assms(1) by (auto simp: universe_def elim!: valid_events_mono)
  then have "live (fst s') = live_meaning (pnCbor N) (E \<union> remote_events N tr smks)"
    using s'(2) by (intro replica_inv_live[of _ "pnHash N" idOf]) (auto simp: sync_inv_def valid_events_def)
  then show ?thesis using s' that by auto
qed

section \<open>Properties\<close>

text \<open>C3: A pull from a remote whose bundles open and hold valid events succeeds, marks every bundle as pulled, and
  leaves the device showing exactly what its own events and all events of the remote mean together: the created
  entries that no tombstone names. The bundles may come in any order; events stored before, at or below the head,
  or in bundles pulled before are skipped.\<close>

theorem pull_shows_everything:
  assumes "universe N idOf U" "E \<subseteq> U" "sync_inv N idOf E (fst s)"
    and "listEventBundles tr = Inr objs" "pullable N tr smks U E (fst s) objs"
  shows "\<exists>s'. pullBundles N tr smks s = (s', None)
     \<and> live (fst s') = live_meaning (pnCbor N) (E \<union> remote_events N tr smks)
     \<and> sync_inv N idOf (E \<union> remote_events N tr smks) (fst s')
     \<and> (\<forall>key \<in> bundle_keys objs. bundlePulled (fst s') key)"
  using pullBundles_live[OF assms] by metis

text \<open>C6: Two devices that together with their remotes hold the same events show the same history after each has pulled,
  whatever the order of the bundles, the keys, and the state of either before.\<close>

theorem pulled_devices_converge:
  assumes "universe N idOf U" "E \<subseteq> U" "F \<subseteq> U" "sync_inv N idOf E (fst s)" "sync_inv N idOf F (fst t)"
    and "listEventBundles tr = Inr objs" "pullable N tr smks U E (fst s) objs"
    and "listEventBundles tr' = Inr objs'" "pullable N tr' smks' U F (fst t) objs'"
    and "E \<union> remote_events N tr smks = F \<union> remote_events N tr' smks'"
  shows "\<exists>s' t'. pullBundles N tr smks s = (s', None) \<and> pullBundles N tr' smks' t = (t', None)
     \<and> live (fst s') = live (fst t')"
  using pullBundles_live[OF assms(1,2,4,6,7)] pullBundles_live[OF assms(1,3,5,8,9)] assms(10) by metis

text \<open>\<^verbatim>\<open>applyEvents\<close> is a transaction: an error leaves the database as it was.\<close>

theorem applyEvents_atomic:
  assumes "applyEvents N d cs evs = ((d', cs'), Some e)"
  shows "d' = d"
  using assms by (auto simp: applyEvents_def split: prod.splits sum.splits)

text \<open>Events once applied are never applied again, also after heads have advanced and the event table was
  compacted: replaying any of them changes nothing.\<close>

theorem applyEvents_replay:
  assumes "applyEvents N d cs evs = ((d1, cs1), None)" and "set evs' \<subseteq> set evs"
    and d2_def: "d2 = CompactUpToHeads (advance_all ids d1)"
  shows "applyEvents N' d2 cs2 evs' = ((d2, cs2), None)"
proof -
  have "apply_events_loop N d cs evs = (cs1, Inr d1)"
    using assms(1) by (auto simp: applyEvents_def split: prod.splits sum.splits)
  then have "\<forall>ev \<in> set evs'. known d2 ev"
    unfolding d2_def using assms(2) apply_events_makes_known known_advance_all known_compact by blast
  from apply_events_known[OF this] show ?thesis by (simp add: applyEvents_def)
qed

subsection \<open>A concrete remote\<close>

text \<open>Two bundles: device A wrote one entry, device B an entry and the tombstone of A's entry.\<close>

definition pull_evA :: event where
  "pull_evA = demo_event TypeHistoryCreated ''A'' 1 1"

definition pull_evB :: event where
  "pull_evB = demo_event TypeHistoryCreated ''B'' 1 2"

definition pull_tombB :: event where
  "pull_tombB = demo_event TypeHistoryTombstoned ''B'' 2 3"

definition pull_header :: "string \<Rightarrow> int \<Rightarrow> bundle_header" where
  "pull_header dev n = \<lparr>bhVersion = 1, bhDeviceID = dev, bhSeqStart = 1, bhSeqEnd = n, bhEventCount = n,
     bhGenerationID = ''g'', bhNonce = []\<rparr>"

definition pull_cbor :: bundle_cbor where
  "pull_cbor = \<lparr>marshal_events = (\<lambda>_. Inl (Errorf ''cbor'')),
     unmarshal_events = (\<lambda>b. if b = [1] then Inr [pull_evA] else Inr [pull_evB, pull_tombB]),
     marshal_header = (\<lambda>_. Inr []), marshal_file = (\<lambda>_. Inl (Errorf ''cbor'')),
     unmarshal_file = (\<lambda>b. Inr \<lparr>bfHeader = (if b = [1] then pull_header ''A'' 1 else pull_header ''B'' 2),
        bfCiphertext = b @ demo_key\<rparr>)\<rparr>"

definition demo_pull_env :: "gotime \<Rightarrow> pull_env" where
  "demo_pull_env t = \<lparr>pnCbor = demo_cbor, pnHash = (\<lambda>s. map (\<lambda>ch. of_char ch) s), pnBundle = pull_cbor,
     pnAead = demo_aead, pnNow = t\<rparr>"

definition pull_objs :: "object list" where
  "pull_objs = [\<lparr>obKey = ''events/A/a.bundle'', obSize = 1\<rparr>, \<lparr>obKey = ''events/B/b.bundle'', obSize = 1\<rparr>]"

definition pull_transport :: "object list \<Rightarrow> transport" where
  "pull_transport objs = \<lparr>trList = (\<lambda>_. Inr objs), trListDirs = (\<lambda>_. Inr []), trListShallow = None,
     trGet = (\<lambda>k. if k = ''events/A/a.bundle'' then Inr [1] else if k = ''events/B/b.bundle'' then Inr [2] else Inl NotExist)\<rparr>"

abbreviation pull_universe :: "event set" where
  "pull_universe \<equiv> {pull_tombB, pull_evB, pull_evA}"

lemma pull_universe_run: "snd ` set demo_run = pull_universe"
  by (simp add: demo_run_def pull_evA_def pull_evB_def pull_tombB_def)

lemma demo_universe: "universe (demo_pull_env t) demo_id pull_universe"
  using demo_valid[unfolded pull_universe_run]
  by (simp add: universe_def demo_pull_env_def)
     (simp add: pull_evA_def pull_evB_def pull_tombB_def demo_event_def Encode_def demo_cbor_def)

lemma sync_inv_empty: "sync_inv N idOf {} empty_db"
proof -
  have "sync_heads empty_db = []" "sync_events empty_db = []" by (simp_all add: empty_db_def)
  then show ?thesis using replica_inv_empty by (auto simp: sync_inv_def)
qed

lemma demo_read_bundle:
  "read_bundle (demo_pull_env t) (pull_transport objs) [(''g'', demo_key)] ''events/A/a.bundle'' = Inr (pull_header ''A'' 1, [pull_evA])"
  "read_bundle (demo_pull_env t) (pull_transport objs) [(''g'', demo_key)] ''events/B/b.bundle'' = Inr (pull_header ''B'' 2, [pull_evB, pull_tombB])"
  by (simp_all add: read_bundle_def getBytes_def pull_transport_def bundle_key_def peekGeneration_def PeekHeader_def demo_pull_env_def
      pull_cbor_def pull_header_def Unpack_def bundle_CurrentVersion_def Open_def demo_aead_def demo_key_def)

lemma demo_bundle_keys:
  "bundle_keys pull_objs = {''events/A/a.bundle'', ''events/B/b.bundle''}"
  by (simp add: pull_objs_def bundle_keys_Cons bundleDevice_def) (simp add: bundle_keys_def)

lemma bundle_keys_rev: "bundle_keys (rev objs) = bundle_keys objs"
  by (simp add: bundle_keys_def)

lemma demo_pullable:
  assumes "bundle_keys objs = {''events/A/a.bundle'', ''events/B/b.bundle''}"
  shows "listEventBundles (pull_transport objs) = Inr objs"
    and "pullable (demo_pull_env t) (pull_transport objs) [(''g'', demo_key)] pull_universe {} empty_db objs"
    and "remote_events (demo_pull_env t) (pull_transport objs) [(''g'', demo_key)] = pull_universe"
proof -
  show l: "listEventBundles (pull_transport objs) = Inr objs" by (simp add: listEventBundles_def pull_transport_def)
  have "\<not> bundlePulled empty_db key" for key by (simp add: bundlePulled_def state_get_def empty_db_def)
  then show "pullable (demo_pull_env t) (pull_transport objs) [(''g'', demo_key)] pull_universe {} empty_db objs"
    unfolding pullable_def assms by (simp add: demo_read_bundle)
  show "remote_events (demo_pull_env t) (pull_transport objs) [(''g'', demo_key)] = pull_universe"
    by (auto simp: remote_events_def l assms bundle_events_def demo_read_bundle)
qed

theorem pull_shows_everything_witness:
  "\<exists>s'. pullBundles (demo_pull_env 7) (pull_transport pull_objs) [(''g'', demo_key)] (empty_db, empty_cs) = (s', None)
     \<and> live (fst s') = live_meaning demo_cbor pull_universe"
  using pull_shows_everything[where s = "(empty_db, empty_cs)", simplified, OF demo_universe _ sync_inv_empty
      demo_pullable(1,2)[OF demo_bundle_keys], of 7] demo_pullable(3)[OF demo_bundle_keys, of 7]
  by (auto simp: demo_pull_env_def)

theorem pulled_devices_converge_witness:
  "\<exists>s' t'. pullBundles (demo_pull_env 7) (pull_transport pull_objs) [(''g'', demo_key)] (empty_db, empty_cs) = (s', None)
     \<and> pullBundles (demo_pull_env 7) (pull_transport (rev pull_objs)) [(''g'', demo_key)] (empty_db, empty_cs) = (t', None)
     \<and> live (fst s') = live (fst t')"
proof -
  have keys: "bundle_keys (rev pull_objs) = {''events/A/a.bundle'', ''events/B/b.bundle''}"
    using demo_bundle_keys by (simp add: bundle_keys_rev)
  show ?thesis
    using pulled_devices_converge[where s = "(empty_db, empty_cs)" and t = "(empty_db, empty_cs)", unfolded fst_conv,
        OF demo_universe empty_subsetI empty_subsetI sync_inv_empty sync_inv_empty demo_pullable(1,2)[OF demo_bundle_keys]
          demo_pullable(1,2)[OF keys]]
      demo_pullable(3)[OF demo_bundle_keys] demo_pullable(3)[OF keys] by simp
qed

theorem applyEvents_atomic_witness:
  "\<exists>cs e. applyEvents (demo_pull_env 7) empty_db empty_cs [pull_evA\<lparr>evPayload := []\<rparr>] = ((empty_db, cs), Some e)"
proof -
  have "applyEvents (demo_pull_env 7) empty_db empty_cs [pull_evA\<lparr>evPayload := []\<rparr>] = ((d, cs), Some e) \<Longrightarrow> d = empty_db" for d cs e
    by (rule applyEvents_atomic)
  moreover have "snd (applyEvents (demo_pull_env 7) empty_db empty_cs [pull_evA\<lparr>evPayload := []\<rparr>]) \<noteq> None"
    by code_simp
  ultimately show ?thesis
    by (metis not_None_eq prod.collapse)
qed

theorem applyEvents_replay_witness:
  "\<exists>d. fst (fst (applyEvents (demo_pull_env 7) empty_db empty_cs [pull_evB, pull_tombB])) = d
     \<and> applyEvents (demo_pull_env 9) (CompactUpToHeads (advance_all [''B''] d)) empty_cs [pull_tombB]
         = ((CompactUpToHeads (advance_all [''B''] d), empty_cs), None)"
proof -
  let ?r = "applyEvents (demo_pull_env 7) empty_db empty_cs [pull_evB, pull_tombB]"
  have "snd ?r = None" by code_simp
  then have "?r = ((fst (fst ?r), snd (fst ?r)), None)" by (metis prod.collapse)
  from applyEvents_replay[OF this, of "[pull_tombB]" _ "[''B'']"] show ?thesis by simp
qed

end
