(* ===== verification/Roster.thy ===== *)
theory Roster
  imports Keystore Device Gc Pull
begin

text \<open>
  The signed remote manifest and the device roster: \<^verbatim>\<open>internal/sync/syncer/manifest.go\<close>, the roster half of
  \<^verbatim>\<open>init.go\<close> and \<^verbatim>\<open>recover.go\<close>, and \<^verbatim>\<open>pullMetadata\<close> of \<^verbatim>\<open>engine.go\<close>. The theory shows what a published roster guarantees,
  that the trusted counter never falls, and that a pull applies a manifest without checking its signature.
\<close>

section \<open>The remote manifest\<close>

record remote_manifest =
  rmVersion :: int
  rmCounter :: int
  rmActiveGeneration :: string
  rmDevices :: "string list"
  rmRetired :: "string list"
  rmPruned :: "string list"
  rmUpdatedAt :: int
  rmMAC :: string

record device_file =
  dfVersion :: int
  dfID :: string
  dfName :: string
  dfHostname :: string
  dfStatus :: string
  dfHead :: int

record remote_codec =
  json_remote :: "remote_manifest \<Rightarrow> bytes result"
  unjson_remote :: "bytes \<Rightarrow> remote_manifest result"
  json_device :: "device_file \<Rightarrow> bytes result"
  unjson_device :: "bytes \<Rightarrow> device_file result"
  unjson_gen :: "bytes \<Rightarrow> gen_manifest result"

definition remote_CurrentVersion :: int where
  "remote_CurrentVersion = 1"

definition remote_mac :: "key_env \<Rightarrow> bytes \<Rightarrow> bytes \<Rightarrow> string" where
  "remote_mac K smk body = hex_encode (hmac256 K (mac_key K ''remnix-remote-manifest'' smk) body)"

definition SignRemote :: "key_env \<Rightarrow> remote_codec \<Rightarrow> remote_manifest \<Rightarrow> bytes \<Rightarrow> remote_manifest result" where
  "SignRemote K R m smk =
     (let m1 = m\<lparr>rmUpdatedAt := (if rmUpdatedAt m = 0 then UnixMilli (know K) else rmUpdatedAt m), rmMAC := []\<rparr>
      in bind_result (json_remote R m1) (\<lambda>body. Inr (m1\<lparr>rmMAC := remote_mac K smk body\<rparr>)))"

definition VerifyRemote :: "key_env \<Rightarrow> remote_codec \<Rightarrow> remote_manifest \<Rightarrow> bytes \<Rightarrow> go_error option" where
  "VerifyRemote K R m smk =
     (case json_remote R (m\<lparr>rmMAC := []\<rparr>) of
        Inl e \<Rightarrow> Some e
      | Inr body \<Rightarrow>
          if remote_mac K smk body \<noteq> rmMAC m then Some (Errorf ''remote manifest mac mismatch'')
          else if rmVersion m \<noteq> remote_CurrentVersion
          then Some (Errorf (''unsupported remote version '' @ show_int (rmVersion m)))
          else None)"

definition MustSMK :: "bytes \<Rightarrow> go_error option" where
  "MustSMK smk = (if length smk \<noteq> SMKSize then Some (Errorf ''invalid smk size'') else None)"

fun unique_loop :: "string list \<Rightarrow> string list \<Rightarrow> string list" where
  "unique_loop out [] = out"
| "unique_loop out (i # is) = (if i = [] \<or> i \<in> set out then unique_loop out is else unique_loop (out @ [i]) is)"

definition uniqueSorted :: "string list \<Rightarrow> string list" where
  "uniqueSorted ids = sort (unique_loop [] ids)"

lemma unique_loop_spec:
  "distinct out \<Longrightarrow> distinct (unique_loop out ids) \<and> set (unique_loop out ids) = set out \<union> (set ids - {[]})"
  by (induction out ids rule: unique_loop.induct) auto

lemma uniqueSorted_spec:
  "sorted (uniqueSorted ids)" "distinct (uniqueSorted ids)" "set (uniqueSorted ids) = set ids - {[]}"
  using unique_loop_spec[of "[]" ids] by (simp_all add: uniqueSorted_def)

section \<open>Publishing the roster\<close>

text \<open>
  The sets of \<^verbatim>\<open>publishRemoteRoster\<close> as lists of ids; the results are sorted and made unique, so their order is
  immaterial. \<open>existing\<close> is the manifest on the remote when it decodes and verifies.
\<close>

definition roster :: "string \<Rightarrow> string list \<Rightarrow> device_row list \<Rightarrow> remote_manifest option \<Rightarrow> string list \<times> string list \<times> string list" where
  "roster self extraPruned devs existing =
     (let exPruned = (case existing of None \<Rightarrow> [] | Some m \<Rightarrow> rmPruned m);
          exRetired = (case existing of None \<Rightarrow> [] | Some m \<Rightarrow> rmRetired m);
          pruned = removeAll self (extraPruned @ exPruned);
          localRetired = map dvID (filter (\<lambda>d. dvStatus d = StatusRetired) (device_List devs));
          gone = filter (\<lambda>i. i \<notin> set pruned) (localRetired @ exRetired);
          ids = (if length (ActiveIDs devs) > 0 then ActiveIDs devs else [self]);
          active = filter (\<lambda>i. \<not> (i \<in> set pruned \<or> i \<in> set gone)) ids
      in if length active = 0 then ([self], removeAll self gone, removeAll self pruned)
         else (active, gone, pruned))"

definition existing_manifest :: "key_env \<Rightarrow> remote_codec \<Rightarrow> transport \<Rightarrow> bytes \<Rightarrow> remote_manifest option" where
  "existing_manifest K R tr verifySMK =
     (case getBytes tr ''metadata/manifest'' of
        Inl _ \<Rightarrow> None
      | Inr raw \<Rightarrow>
          (case unjson_remote R raw of
             Inl _ \<Rightarrow> None
           | Inr m \<Rightarrow> if VerifyRemote K R m verifySMK = None then Some m else None))"

definition roster_manifest :: "string \<Rightarrow> int \<Rightarrow> int \<Rightarrow> string list \<times> string list \<times> string list \<Rightarrow> remote_manifest" where
  "roster_manifest activeGeneration counter trusted r =
     (case r of (active, gone, pruned) \<Rightarrow>
        \<lparr>rmVersion = remote_CurrentVersion,
         rmCounter = (if trusted \<ge> counter then wrap64 (trusted + 1) else counter),
         rmActiveGeneration = activeGeneration, rmDevices = uniqueSorted active, rmRetired = uniqueSorted gone,
         rmPruned = uniqueSorted pruned, rmUpdatedAt = 0, rmMAC = []\<rparr>)"

definition publishRemoteRoster :: "key_env \<Rightarrow> remote_codec \<Rightarrow> 's remote_ops \<Rightarrow> string \<Rightarrow> string \<Rightarrow> device_row list \<Rightarrow>
    string \<Rightarrow> int \<Rightarrow> bytes \<Rightarrow> bytes \<Rightarrow> string list \<Rightarrow> keydb \<times> 's \<Rightarrow> (keydb \<times> 's) \<times> go_error option" where
  "publishRemoteRoster K R ops self kind devs activeGeneration counter signSMK verifySMK extraPruned s =
     (let (kd, rem) = s;
          existing = existing_manifest K R (roView ops rem) verifySMK;
          rm = roster_manifest activeGeneration counter (TrustedCounter kd kind) (roster self extraPruned devs existing)
      in case SignRemote K R rm signSMK of
           Inl e \<Rightarrow> (s, Some e)
         | Inr rm1 \<Rightarrow>
             (case json_remote R rm1 of
                Inl e \<Rightarrow> (s, Some e)
              | Inr raw \<Rightarrow>
                  (case roPut ops rem ''metadata/manifest'' raw of
                     (rem', Some e) \<Rightarrow> ((kd, rem'), Some e)
                   | (rem', None) \<Rightarrow>
                       ((SetTrusted (know K) kd kind activeGeneration (rmCounter rm1) [] raw, rem'), None))))"

section \<open>Applying a roster\<close>

definition applyRemoteRoster :: "gotime \<Rightarrow> remote_manifest \<Rightarrow> device_row list \<Rightarrow> device_row list" where
  "applyRemoteRoster now rm devs =
     fold (\<lambda>i ds.
         if i = [] \<or> i \<in> set (rmRetired rm) \<union> set (rmPruned rm) then ds
         else if device_Get ds i = None then
           Upsert now ds \<lparr>dvID = i, dvName = i, dvHostname = [], dvStatus = StatusActive, dvCreatedAt = zero_time, dvRetiredAt = None\<rparr>
         else ds)
       (rmDevices rm) devs"

definition retire_one :: "gotime \<Rightarrow> string \<Rightarrow> device_row list \<Rightarrow> device_row list" where
  "retire_one now i ds =
     (if i = [] then ds
      else (let (name, hostname, at) =
              (case device_Get ds i of None \<Rightarrow> (i, [], None) | Some d \<Rightarrow> (dvName d, dvHostname d, dvRetiredAt d))
            in Upsert now ds \<lparr>dvID = i, dvName = name, dvHostname = hostname, dvStatus = StatusRetired,
                 dvCreatedAt = zero_time, dvRetiredAt = Some (case at of None \<Rightarrow> now | Some t \<Rightarrow> t)\<rparr>))"

definition applyRetired :: "gotime \<Rightarrow> string list \<Rightarrow> device_row list \<Rightarrow> device_row list" where
  "applyRetired now ids devs = fold (retire_one now) ids devs"

definition applyPruned :: "string \<Rightarrow> string list \<Rightarrow> device_row list \<Rightarrow> device_row list" where
  "applyPruned self ids devs =
     fold (\<lambda>i ds. if i = [] \<or> i = self then ds else fst (device_Delete ds i)) ids devs"

text \<open>\<^verbatim>\<open>readAll\<close>: the first object of each key; the map is kept in the order of the listing.\<close>

fun read_all_loop :: "transport \<Rightarrow> object list \<Rightarrow> (string \<times> bytes) list \<Rightarrow> (string \<times> bytes) list result" where
  "read_all_loop tr [] out = Inr out"
| "read_all_loop tr (ob # objs) out =
     (if map_of out (obKey ob) \<noteq> None then read_all_loop tr objs out
      else bind_result (getBytes tr (obKey ob)) (\<lambda>b. read_all_loop tr objs (out @ [(obKey ob, b)])))"

definition readAll :: "transport \<Rightarrow> string \<Rightarrow> (string \<times> bytes) list result" where
  "readAll tr pref = bind_result (trList tr pref) (\<lambda>objs. read_all_loop tr objs [])"

definition CutSuffix :: "string \<Rightarrow> string \<Rightarrow> string option" where
  "CutSuffix s suf = (if HasSuffix s suf then Some (take (length s - length suf) s) else None)"

definition ack_devices :: "transport \<Rightarrow> string list" where
  "ack_devices tr =
     (case trList tr ''acks/'' of
        Inl _ \<Rightarrow> []
      | Inr objs \<Rightarrow> List.map_filter (\<lambda>ob. case CutSuffix (path_base (obKey ob)) ''.ack'' of
            None \<Rightarrow> None | Some i \<Rightarrow> if i \<noteq> [] then Some i else None) objs)"

definition wanted_devices :: "gc_codec \<Rightarrow> string \<Rightarrow> transport \<Rightarrow> string list" where
  "wanted_devices C self tr =
     self # ack_devices tr @ (case NewestCheckpoint C tr of Inr (Some m) \<Rightarrow> map fst (mfFrontier m) | _ \<Rightarrow> [])"

definition import_device :: "remote_codec \<Rightarrow> gotime \<Rightarrow> string list \<Rightarrow> string \<times> bytes \<Rightarrow> device_row list \<Rightarrow> device_row list" where
  "import_device R now wanted kb ds =
     (case kb of (key, body) \<Rightarrow>
        if \<not> HasSuffix key ''.json'' then ds
        else (case unjson_device R body of
                Inl _ \<Rightarrow> ds
              | Inr df \<Rightarrow>
                  if dfID df = [] \<or> dfID df \<notin> set wanted then ds
                  else Upsert now ds
                    \<lparr>dvID = dfID df, dvName = (if dfName df = [] then dfID df else dfName df), dvHostname = dfHostname df,
                     dvStatus = (if dfStatus df = [] then StatusActive else dfStatus df), dvCreatedAt = zero_time,
                     dvRetiredAt = None\<rparr>))"

definition importWantedDevices :: "gc_codec \<Rightarrow> remote_codec \<Rightarrow> gotime \<Rightarrow> string \<Rightarrow> transport \<Rightarrow> device_row list \<Rightarrow> device_row list result" where
  "importWantedDevices C R now self tr devs =
     bind_result (readAll tr ''metadata/devices'') (\<lambda>raw.
       Inr (fold (import_device R now (wanted_devices C self tr)) raw devs))"

section \<open>Pulling metadata\<close>

definition chooseGeneration :: "gen_manifest list \<Rightarrow> string \<Rightarrow> string \<Rightarrow> gen_manifest" where
  "chooseGeneration ms activeID localID =
     (case find (\<lambda>m. gmGenerationID m = activeID) ms of
        Some m \<Rightarrow> m
      | None \<Rightarrow> (case find (\<lambda>m. gmGenerationID m = localID) ms of Some m \<Rightarrow> m | None \<Rightarrow> ms ! 0))"

fun group_by_seq :: "remote_codec \<Rightarrow> (string \<times> bytes) list \<Rightarrow> (int \<times> gen_manifest list) list \<Rightarrow> (int \<times> gen_manifest list) list result" where
  "group_by_seq R [] out = Inr out"
| "group_by_seq R ((key, body) # raw) out =
     (if \<not> HasSuffix key ''/manifest'' then group_by_seq R raw out
      else (case unjson_gen R body of
              Inl e \<Rightarrow> Inl (Wrapped (''generation manifest '' @ key) e)
            | Inr m \<Rightarrow> group_by_seq R raw (map_put (gmSeq m) (get_default [] out (gmSeq m) @ [m]) out)))"

fun import_generations :: "gotime \<Rightarrow> string \<Rightarrow> bool \<Rightarrow> (int \<times> string) list \<Rightarrow> (int \<times> gen_manifest list) list \<Rightarrow> keydb \<Rightarrow>
    keydb \<times> go_error option" where
  "import_generations now activeID haveManifest localBySeq [] kd = (kd, None)"
| "import_generations now activeID haveManifest localBySeq ((seq, ms) # rest) kd =
     (let m = chooseGeneration ms activeID (get_default [] localBySeq seq);
          clash = (case map_of localBySeq seq of None \<Rightarrow> False | Some existing \<Rightarrow> existing \<noteq> gmGenerationID m)
      in if clash \<and> gmGenerationID m \<noteq> activeID then import_generations now activeID haveManifest localBySeq rest kd
         else (let kd1 = (if clash then DeleteGeneration kd (the (map_of localBySeq seq)) else kd);
                   m1 = (if haveManifest then m\<lparr>gmActive := (gmGenerationID m = activeID)\<rparr> else m)
               in case putGeneration now kd1 m1 of
                    Inl e \<Rightarrow> (kd1, Some e)
                  | Inr kd2 \<Rightarrow> import_generations now activeID haveManifest localBySeq rest kd2))"

definition zero_remote :: remote_manifest where
  "zero_remote = \<lparr>rmVersion = 0, rmCounter = 0, rmActiveGeneration = [], rmDevices = [], rmRetired = [], rmPruned = [],
     rmUpdatedAt = 0, rmMAC = []\<rparr>"

text \<open>The first half of \<^verbatim>\<open>pullMetadata\<close>, up to \<^verbatim>\<open>applyRemoteRoster\<close>: the manifest, if the remote has one.\<close>

definition pull_manifest :: "key_env \<Rightarrow> remote_codec \<Rightarrow> string \<Rightarrow> transport \<Rightarrow> keydb \<times> device_row list \<Rightarrow>
    ((keydb \<times> device_row list) \<times> remote_manifest option) \<times> go_error option" where
  "pull_manifest K R kind tr s =
     (case getBytes tr ''metadata/manifest'' of
        Inl e \<Rightarrow> ((s, None), if is_not_exist e then None else Some e)
      | Inr b \<Rightarrow>
          (case unjson_remote R b of
             Inl e \<Rightarrow> ((s, None), Some e)
           | Inr rm \<Rightarrow>
               (let trusted = TrustedCounter (fst s) kind
                in if rmCounter rm < trusted then
                     ((s, None), Some (Errorf (''remote manifest rollback detected (counter '' @ show_int (rmCounter rm) @
                        '' < trusted '' @ show_int trusted @ '')'')))
                   else (((SetTrusted (know K) (fst s) kind (rmActiveGeneration rm) (rmCounter rm) [] b,
                           applyRemoteRoster (know K) rm (snd s)), Some rm), None))))"

definition pullMetadata :: "key_env \<Rightarrow> remote_codec \<Rightarrow> gc_codec \<Rightarrow> string \<Rightarrow> string \<Rightarrow> transport \<Rightarrow> keydb \<times> device_row list \<Rightarrow>
    (keydb \<times> device_row list) \<times> go_error option" where
  "pullMetadata K R C self kind tr s =
     (case pull_manifest K R kind tr s of
        ((s1, _), Some e) \<Rightarrow> (s1, Some e)
      | ((s1, rm), None) \<Rightarrow>
          (case importWantedDevices C R (know K) self tr (snd s1) of
             Inl e \<Rightarrow> (s1, Some e)
           | Inr devs1 \<Rightarrow>
               (let devs2 = (case rm of None \<Rightarrow> devs1
                       | Some m \<Rightarrow> applyPruned self (rmPruned m) (applyRetired (know K) (rmRetired m) devs1));
                    active = (case rm of None \<Rightarrow> [] | Some m \<Rightarrow> rmActiveGeneration m);
                    s2 = (fst s1, devs2)
                in case bind_result (readAll tr ''keys/generations'') (\<lambda>raw. group_by_seq R raw []) of
                     Inl e \<Rightarrow> (s2, Some e)
                   | Inr bySeq \<Rightarrow>
                       (let localBySeq = fold (\<lambda>g m. map_put (gmSeq g) (gmGenerationID g) m) (Generations (fst s2)) []
                        in case import_generations (know K) active (rm \<noteq> None) localBySeq bySeq (fst s2) of
                             (kd, err) \<Rightarrow> ((kd, devs2), err)))))"

section \<open>Facts about rosters\<close>

lemma roster_spec:
  assumes "roster self extra devs existing = (act, gone, pr)"
  shows "act \<noteq> []" "set act \<inter> set gone = {}" "set act \<inter> set pr = {}" "set gone \<inter> set pr = {}"
    "set pr = (set extra \<union> (case existing of None \<Rightarrow> {} | Some m \<Rightarrow> set (rmPruned m))) - {self}"
    "(case existing of None \<Rightarrow> {} | Some m \<Rightarrow> set (rmRetired m)) \<subseteq> set gone \<union> set pr \<union> {self}"
proof -
  define exP where "exP = (case existing of None \<Rightarrow> [] | Some m \<Rightarrow> rmPruned m)"
  define exR where "exR = (case existing of None \<Rightarrow> [] | Some m \<Rightarrow> rmRetired m)"
  define pr0 where "pr0 = removeAll self (extra @ exP)"
  define gone0 where "gone0 = filter (\<lambda>i. i \<notin> set pr0)
    (map dvID (filter (\<lambda>d. dvStatus d = StatusRetired) (device_List devs)) @ exR)"
  define act0 where "act0 = filter (\<lambda>i. \<not> (i \<in> set pr0 \<or> i \<in> set gone0))
    (if length (ActiveIDs devs) > 0 then ActiveIDs devs else [self])"
  have r: "(act, gone, pr) = (if act0 = [] then ([self], removeAll self gone0, removeAll self pr0) else (act0, gone0, pr0))"
    unfolding assms[symmetric] roster_def Let_def exP_def[symmetric] exR_def[symmetric] pr0_def[symmetric]
      gone0_def[symmetric] act0_def[symmetric] by simp
  have p: "set pr0 = (set extra \<union> set exP) - {self}" by (auto simp: pr0_def)
  have g: "set gone0 \<inter> set pr0 = {}" "set exR \<subseteq> set gone0 \<union> set pr0" by (auto simp: gone0_def)
  have a: "set act0 \<inter> set gone0 = {}" "set act0 \<inter> set pr0 = {}" by (auto simp: act0_def)
  have ex: "set exP = (case existing of None \<Rightarrow> {} | Some m \<Rightarrow> set (rmPruned m))"
    "set exR = (case existing of None \<Rightarrow> {} | Some m \<Rightarrow> set (rmRetired m))"
    by (simp_all add: exP_def exR_def split: option.splits)
  show "act \<noteq> []" "set act \<inter> set gone = {}" "set act \<inter> set pr = {}" "set gone \<inter> set pr = {}"
    using r a g by (cases "act0 = []"; auto)+
  show "set pr = (set extra \<union> (case existing of None \<Rightarrow> {} | Some m \<Rightarrow> set (rmPruned m))) - {self}"
    using r p unfolding ex[symmetric] by (cases "act0 = []") auto
  show "(case existing of None \<Rightarrow> {} | Some m \<Rightarrow> set (rmRetired m)) \<subseteq> set gone \<union> set pr \<union> {self}"
    using r g unfolding ex[symmetric] by (cases "act0 = []") auto
qed

lemma SignRemote_parts:
  assumes "SignRemote K R m smk = Inr m'"
  shows "rmCounter m' = rmCounter m" "rmDevices m' = rmDevices m" "rmRetired m' = rmRetired m" "rmPruned m' = rmPruned m"
    "rmActiveGeneration m' = rmActiveGeneration m" "rmVersion m = remote_CurrentVersion \<Longrightarrow> VerifyRemote K R m' smk = None"
  using assms by (auto simp: SignRemote_def VerifyRemote_def Let_def result_Inr)

lemma find_trusted_SetTrusted:
  "find_trusted (SetTrusted now d kind gid counter ckpt payload) kind' =
     (if kind' = kind then Some \<lparr>tmKind = kind, tmGenerationID = gid, tmCounter = counter,
          tmCheckpointID = (if ckpt = [] then TrustedCheckpointID d kind else ckpt), tmPayload = payload, tmUpdatedAt = UnixMilli now\<rparr>
      else find_trusted d kind')"
proof -
  have map: "find (\<lambda>r. tmKind r = k) (map (\<lambda>x. if tmKind x = kind then f x else x) rows) =
      (if k = kind then map_option f (find (\<lambda>r. tmKind r = k) rows) else find (\<lambda>r. tmKind r = k) rows)"
    if "\<And>x. tmKind (f x) = tmKind x" for f rows k
    using that by (induction rows) auto
  have none: "find (\<lambda>r. tmKind r = kind) rows = None" if "\<not> (\<exists>x \<in> set rows. tmKind x = kind)" for rows
    using that by (auto simp: find_None_iff)
  have snoc: "find P (rows @ [r]) = (case find P rows of None \<Rightarrow> if P r then Some r else None | Some x \<Rightarrow> Some x)"
    for P and r :: trusted_row and rows by (induction rows) auto
  show ?thesis
  proof (cases "\<exists>x \<in> set (trusted_manifests d). tmKind x = kind")
    case True
    then obtain r where r: "find (\<lambda>r. tmKind r = kind) (trusted_manifests d) = Some r"
      by (cases "find (\<lambda>r. tmKind r = kind) (trusted_manifests d)") (auto simp: find_None_iff)
    then have "tmKind r = kind" by (auto simp: find_Some_iff)
    with True r show ?thesis
      by (simp add: find_trusted_def SetTrusted_def upsert_row_def map TrustedCheckpointID_def trusted_row.equality)
  next
    case False
    with none[OF False] show ?thesis
      by (simp add: find_trusted_def SetTrusted_def upsert_row_def snoc TrustedCheckpointID_def split: option.splits)
  qed
qed

lemma TrustedCounter_SetTrusted:
  "TrustedCounter (SetTrusted now d kind gid counter ckpt payload) kind' = (if kind' = kind then counter else TrustedCounter d kind')"
  by (simp add: TrustedCounter_def find_trusted_SetTrusted)

lemma trusted_frame: "trusted_manifests d = trusted_manifests d' \<Longrightarrow> TrustedCounter d = TrustedCounter d'"
  by (simp add: TrustedCounter_def find_trusted_def fun_eq_iff)

lemma putGeneration_trusted: "putGeneration now d m = Inr d' \<Longrightarrow> trusted_manifests d' = trusted_manifests d"
  by (drule putGeneration_parts(1)) simp

lemma import_generations_trusted:
  "trusted_manifests (fst (import_generations now a h l ms kd)) = trusted_manifests kd"
  by (induction now a h l ms kd rule: import_generations.induct)
     (auto simp: Let_def DeleteGeneration_def putGeneration_trusted split: sum.splits)

lemma Upsert_retired: "dvStatus dev \<in> {[], StatusActive, StatusRetired} \<Longrightarrow> retired ds i \<Longrightarrow> retired (Upsert now ds dev) i"
  by (auto simp: Upsert_def Let_def intro: upsert_device_retired)

lemma Upsert_makes_retired: "dvStatus dev = StatusRetired \<Longrightarrow> retired (Upsert now ds dev) (dvID dev)"
proof -
  assume st: "dvStatus dev = StatusRetired"
  define x where "x = \<lparr>d_id = dvID dev, d_name = dvName dev, d_hostname = nullString (dvHostname dev), d_status = StatusRetired,
     d_created_at = UnixMilli (if dvCreatedAt dev = zero_time then now else dvCreatedAt dev), d_retired_at = map_option UnixMilli (dvRetiredAt dev)\<rparr>"
  have "retired (upsert_device ds x) (d_id x)" if "d_status x = StatusRetired" for x :: device_row
  proof (cases "\<exists>r \<in> set ds. d_id r = d_id x")
    case True
    then obtain r where r: "r \<in> set ds" "d_id r = d_id x" by blast
    show ?thesis
      unfolding retired_def upsert_device_def if_P[OF True] ex_map_if
      using r that by (intro bexI[of _ r]) (simp_all add: Let_def StatusRetired_def)
  next
    case False
    then show ?thesis using that by (auto simp: upsert_device_def retired_def)
  qed
  from this[of x] show ?thesis using st by (simp add: Upsert_def Let_def x_def StatusRetired_def)
qed

lemma retire_one_retired:
  "i \<noteq> [] \<Longrightarrow> retired (retire_one now i ds) i" "retired ds j \<Longrightarrow> retired (retire_one now i ds) j"
proof -
  define x where "x = (case (case device_Get ds i of None \<Rightarrow> (i, [], None) | Some d \<Rightarrow> (dvName d, dvHostname d, dvRetiredAt d)) of
    (name, hostname, at) \<Rightarrow> \<lparr>dvID = i, dvName = name, dvHostname = hostname, dvStatus = StatusRetired,
                 dvCreatedAt = zero_time, dvRetiredAt = Some (case at of None \<Rightarrow> now | Some t \<Rightarrow> t)\<rparr>)"
  have eq: "retire_one now i ds = (if i = [] then ds else Upsert now ds x)"
    by (simp add: retire_one_def x_def Let_def split: option.splits prod.splits)
  have x: "dvID x = i" "dvStatus x = StatusRetired" by (simp_all add: x_def split: option.splits prod.splits)
  show "i \<noteq> [] \<Longrightarrow> retired (retire_one now i ds) i" using Upsert_makes_retired[of x now ds] x by (simp add: eq)
  show "retired ds j \<Longrightarrow> retired (retire_one now i ds) j" using Upsert_retired[of x ds j now] x by (simp add: eq)
qed

lemma applyRetired_retires: "i \<in> set ids \<and> i \<noteq> [] \<or> retired devs i \<Longrightarrow> retired (applyRetired now ids devs) i"
  unfolding applyRetired_def by (induction ids arbitrary: devs) (auto simp: retire_one_retired)

lemma applyPruned_rows:
  "set (applyPruned self ids devs) = {r \<in> set devs. d_id r \<notin> set ids - {[], self}}"
  unfolding applyPruned_def
  by (induction ids arbitrary: devs) (auto simp: device_Delete_def)

section \<open>Properties\<close>


lemma pullMetadata_rollback:
  assumes "getBytes tr ''metadata/manifest'' = Inr b" "unjson_remote R b = Inr rm" "rmCounter rm < TrustedCounter (fst s) kind"
  shows "\<exists>err. pullMetadata K R C self kind tr s = (s, Some err)"
  using assms by (auto simp: pullMetadata_def pull_manifest_def Let_def)

text \<open>A pull of the metadata never lowers the trusted counter, and a manifest whose counter is below it is refused before
  anything is changed.\<close>

theorem trusted_counter_never_falls:
  assumes "pullMetadata K R C self kind tr s = (s', err)"
  shows "TrustedCounter (fst s) kind \<le> TrustedCounter (fst s') kind
     \<and> (\<forall>b rm. getBytes tr ''metadata/manifest'' = Inr b \<and> unjson_remote R b = Inr rm
          \<and> rmCounter rm < TrustedCounter (fst s) kind \<longrightarrow> err \<noteq> None \<and> s' = s)"
proof -
  obtain s1 rm e where pm: "pull_manifest K R kind tr s = ((s1, rm), e)" by (metis surj_pair)
  have up: "TrustedCounter (fst s) kind \<le> TrustedCounter (fst s1) kind"
    using pm by (auto simp: pull_manifest_def Let_def TrustedCounter_SetTrusted split: sum.splits if_splits)
  have "trusted_manifests (fst s') = trusted_manifests (fst s1)"
    using assms pm import_generations_trusted
    by (auto simp: pullMetadata_def Let_def split: option.splits sum.splits prod.splits) (metis fst_conv)+
  then have "TrustedCounter (fst s') kind = TrustedCounter (fst s1) kind" using trusted_frame by metis
  moreover have "err \<noteq> None \<and> s' = s"
    if "getBytes tr ''metadata/manifest'' = Inr b" "unjson_remote R b = Inr m" "rmCounter m < TrustedCounter (fst s) kind" for b m
    using assms pullMetadata_rollback[OF that, of K C self] by auto
  ultimately show ?thesis using up by auto
qed

text \<open>A pull applies the roster of a manifest that no key verifies: if its counter is not below the trusted one, every
  device it calls retired is retired afterwards, every other device it calls pruned is gone, and its counter is
  trusted from then on.\<close>

theorem pull_applies_unverified_roster:
  assumes "getBytes tr ''metadata/manifest'' = Inr b" "unjson_remote R b = Inr rm" "TrustedCounter (fst s) kind \<le> rmCounter rm"
    and "\<And>smk. VerifyRemote K R rm smk \<noteq> None" and "pullMetadata K R C self kind tr s = (s', None)"
  shows "TrustedCounter (fst s') kind = rmCounter rm
     \<and> (\<forall>i \<in> set (rmRetired rm) - set (rmPruned rm) - {[]}. retired (snd s') i)
     \<and> (\<forall>i \<in> set (rmPruned rm) - {[], self}. device_Get (snd s') i = None)"
proof -
  obtain s1 where pm: "pull_manifest K R kind tr s = ((s1, Some rm), None)" "TrustedCounter (fst s1) kind = rmCounter rm"
    using assms(1-3) by (auto simp: pull_manifest_def Let_def TrustedCounter_SetTrusted)
  then obtain devs1 where d: "snd s' = applyPruned self (rmPruned rm) (applyRetired (know K) (rmRetired rm) devs1)"
    and t: "trusted_manifests (fst s') = trusted_manifests (fst s1)"
    using assms(5) import_generations_trusted
    by (auto simp: pullMetadata_def Let_def split: option.splits sum.splits prod.splits) (metis fst_conv)
  have "retired (snd s') i" if "i \<in> set (rmRetired rm) - set (rmPruned rm) - {[]}" for i
    using applyRetired_retires[of i "rmRetired rm" devs1 "know K"] that
    unfolding retired_def d by (auto simp: applyPruned_rows)
  moreover have "device_Get (snd s') i = None" if "i \<in> set (rmPruned rm) - {[], self}" for i
    using that by (auto simp: device_Get_def find_None_iff d applyPruned_rows)
  ultimately show ?thesis using trusted_frame[OF t] pm(2) by simp
qed

subsection \<open>Concrete runs\<close>

text \<open>A manifest nobody signed: it retires device A and prunes device B.\<close>

definition forged_manifest :: remote_manifest where
  "forged_manifest = \<lparr>rmVersion = 1, rmCounter = 5, rmActiveGeneration = ''g1'', rmDevices = [''M''], rmRetired = [''A''],
     rmPruned = [''B''], rmUpdatedAt = 1, rmMAC = ''x''\<rparr>"

definition demo_remote_codec :: remote_codec where
  "demo_remote_codec = \<lparr>json_remote = (\<lambda>m. Inr (map (\<lambda>_. 1) (rmDevices m))),
     unjson_remote = (\<lambda>b. if b = [5] then Inr forged_manifest else Inl (Errorf ''json'')),
     json_device = (\<lambda>_. Inr [2]), unjson_device = (\<lambda>_. Inl (Errorf ''json'')), unjson_gen = (\<lambda>_. Inl (Errorf ''json''))\<rparr>"

definition demo_gc_codec :: gc_codec where
  "demo_gc_codec = \<lparr>unmarshal_manifest = (\<lambda>_. Inl (Errorf ''cbor'')), unmarshal_ack = (\<lambda>_. Inl (Errorf ''cbor'')), gcBundle = pull_cbor\<rparr>"

definition manifest_transport :: "bytes option \<Rightarrow> transport" where
  "manifest_transport b = \<lparr>trList = (\<lambda>_. Inr []), trListDirs = (\<lambda>_. Inr []), trListShallow = None,
     trGet = (\<lambda>k. case b of Some body \<Rightarrow> if k = ''metadata/manifest'' then Inr body else Inl NotExist | None \<Rightarrow> Inl NotExist)\<rparr>"

definition demo_ops :: "(bytes option) remote_ops" where
  "demo_ops = \<lparr>roView = manifest_transport, roPut = (\<lambda>_ k b. (Some b, None)), roRemove = (\<lambda>s _. (s, None))\<rparr>"

definition demo_devices :: "device_row list" where
  "demo_devices = map (\<lambda>i. \<lparr>d_id = i, d_name = i, d_hostname = None, d_status = ''active'', d_created_at = 1, d_retired_at = None\<rparr>)
     [''M'', ''A'', ''B'']"


theorem trusted_counter_never_falls_witness:
  "\<exists>e. pullMetadata demo_key_env demo_remote_codec demo_gc_codec ''M'' ''remote'' (manifest_transport (Some [5]))
     (SetTrusted 1 demo_keydb ''remote'' ''g1'' 7 [] [], demo_devices)
   = ((SetTrusted 1 demo_keydb ''remote'' ''g1'' 7 [] [], demo_devices), Some e)"
proof -
  let ?s = "(SetTrusted 1 demo_keydb ''remote'' ''g1'' 7 [] [], demo_devices)"
  obtain s' err where p: "pullMetadata demo_key_env demo_remote_codec demo_gc_codec ''M'' ''remote'' (manifest_transport (Some [5])) ?s = (s', err)"
    by (metis surj_pair)
  have "getBytes (manifest_transport (Some [5])) ''metadata/manifest'' = Inr [5]" "unjson_remote demo_remote_codec [5] = Inr forged_manifest"
    "rmCounter forged_manifest < TrustedCounter (fst ?s) ''remote''"
    by (simp_all add: getBytes_def manifest_transport_def demo_remote_codec_def forged_manifest_def TrustedCounter_SetTrusted)
  with trusted_counter_never_falls[OF p] p show ?thesis by fastforce
qed

theorem pull_applies_unverified_roster_witness:
  "\<exists>s'. pullMetadata demo_key_env demo_remote_codec demo_gc_codec ''M'' ''remote'' (manifest_transport (Some [5])) (demo_keydb, demo_devices) = (s', None)
     \<and> (\<forall>smk. VerifyRemote demo_key_env demo_remote_codec forged_manifest smk \<noteq> None)
     \<and> retired (snd s') ''A'' \<and> device_Get (snd s') ''B'' = None"
proof -
  let ?r = "pullMetadata demo_key_env demo_remote_codec demo_gc_codec ''M'' ''remote'' (manifest_transport (Some [5])) (demo_keydb, demo_devices)"
  have "snd ?r = None" by code_simp
  then obtain s' where p: "?r = (s', None)" by (metis prod.collapse)
  have g: "getBytes (manifest_transport (Some [5])) ''metadata/manifest'' = Inr [5]" "unjson_remote demo_remote_codec [5] = Inr forged_manifest"
    by (simp_all add: getBytes_def manifest_transport_def demo_remote_codec_def)
  have c: "TrustedCounter (fst (demo_keydb, demo_devices)) ''remote'' \<le> rmCounter forged_manifest"
    by (simp add: TrustedCounter_def find_trusted_def demo_keydb_def putGeneration_def empty_keydb_def Let_def forged_manifest_def)
  have v: "VerifyRemote demo_key_env demo_remote_codec forged_manifest smk \<noteq> None" for smk
    by (simp add: VerifyRemote_def demo_remote_codec_def remote_mac_def hex_encode_def demo_key_env_def forged_manifest_def)
  from pull_applies_unverified_roster[OF g c v p] p v show ?thesis by (simp add: forged_manifest_def)
qed

end
