(* ===== verification/Query.thy ===== *)
theory Query
  imports History_Store
begin

text \<open>
  The queries of the history store: the second half of \<^verbatim>\<open>internal/history/store.go\<close>. The SQL of each method is
  written as filters, sorts and cuts on the rows of the table. The theory shows what the queries return in terms of
  the entries alone: the escaping of \<^verbatim>\<open>likePrefix\<close> is right, \<^verbatim>\<open>List\<close> with \<^verbatim>\<open>Unique\<close> keeps the newest run of each
  command, and the summaries count every live run once.
\<close>

section \<open>LIKE patterns\<close>

text \<open>\<^verbatim>\<open>strings.ReplaceAll\<close> with a pattern of one byte.\<close>

definition ReplaceAll :: "string \<Rightarrow> char \<Rightarrow> string \<Rightarrow> string" where
  "ReplaceAll s c r = concat (map (\<lambda>x. if x = c then r else [x]) s)"

definition likePrefix :: "string \<Rightarrow> string" where
  "likePrefix s =
     (let s1 = ReplaceAll s (CHR 0x5C) [CHR 0x5C, CHR 0x5C];
          s2 = ReplaceAll s1 (CHR ''%'') [CHR 0x5C, CHR ''%''];
          s3 = ReplaceAll s2 (CHR ''_'') [CHR 0x5C, CHR ''_'']
      in s3 @ ''%'')"

text \<open>\<^verbatim>\<open>text LIKE pattern ESCAPE '\'\<close>. An underscore stands for one character; the model takes one byte, and no pattern of
  the store holds one unescaped.\<close>

function sql_like :: "string \<Rightarrow> string \<Rightarrow> bool" where
  "sql_like [] s = (s = [])"
| "sql_like (c # p) s =
     (if c = CHR 0x5C then
        (case p of [] \<Rightarrow> False
         | e # p' \<Rightarrow> (case s of [] \<Rightarrow> False | x # s' \<Rightarrow> ascii_fold x = ascii_fold e \<and> sql_like p' s'))
      else if c = CHR ''%'' then
        sql_like p s \<or> (case s of [] \<Rightarrow> False | x # s' \<Rightarrow> sql_like (c # p) s')
      else if c = CHR ''_'' then (case s of [] \<Rightarrow> False | x # s' \<Rightarrow> sql_like p s')
      else (case s of [] \<Rightarrow> False | x # s' \<Rightarrow> ascii_fold x = ascii_fold c \<and> sql_like p s'))"
  by pat_completeness auto
termination by (relation "measure (\<lambda>(p, s). length p + length s)") auto

declare sql_like.simps(2) [simp del]

definition fold_prefix :: "string \<Rightarrow> string \<Rightarrow> bool" where
  "fold_prefix p s \<longleftrightarrow> length p \<le> length s \<and> map ascii_fold (take (length p) s) = map ascii_fold p"

section \<open>Filters\<close>

record filter_spec =
  fiQuery :: string
  fiCwd :: string
  fiHost :: string
  fiShell :: string
  fiSession :: string
  fiDeviceID :: string
  fiExit :: "int option"
  fiSince :: "gotime option"
  fiUntil :: "gotime option"
  fiIncludeDeleted :: bool
  fiUnique :: bool
  fiLimit :: int

text \<open>\<^verbatim>\<open>col = (SELECT id FROM table WHERE value = ?)\<close>: a comparison with \<^verbatim>\<open>NULL\<close> is not true.\<close>

definition interned_as :: "intern_table \<Rightarrow> int option \<Rightarrow> string \<Rightarrow> bool" where
  "interned_as t i v \<longleftrightarrow> i \<noteq> None \<and> row_id_of t v = i"

definition predicates :: "filter_spec \<Rightarrow> db \<Rightarrow> hist_row \<Rightarrow> bool" where
  "predicates f d r \<longleftrightarrow>
     (fiIncludeDeleted f \<or> \<not> h_deleted r)
     \<and> (fiCwd f \<noteq> [] \<longrightarrow> interned_as (intern_cwd d) (h_cwd_id r) (fiCwd f))
     \<and> (fiHost f \<noteq> [] \<longrightarrow> interned_as (intern_hostname d) (h_hostname_id r) (fiHost f))
     \<and> (fiShell f \<noteq> [] \<longrightarrow> interned_as (intern_shell d) (h_shell_id r) (fiShell f))
     \<and> (fiSession f \<noteq> [] \<longrightarrow> interned_as (intern_session d) (h_session_id r) (fiSession f))
     \<and> (fiDeviceID f \<noteq> [] \<longrightarrow> h_device_id r = fiDeviceID f)
     \<and> (case fiExit f of None \<Rightarrow> True | Some x \<Rightarrow> h_exit_status r = Some x)
     \<and> (case fiSince f of None \<Rightarrow> True | Some t \<Rightarrow> h_start_ts r \<ge> UnixMilli t)
     \<and> (case fiUntil f of None \<Rightarrow> True | Some t \<Rightarrow> h_start_ts r \<le> UnixMilli t)
     \<and> (fiQuery f \<noteq> [] \<longrightarrow> Contains (sql_lower (h_command r)) (sql_lower (fiQuery f)))"

text \<open>The row value comparison \<^verbatim>\<open>(a.start_ts, a.id) > (b.start_ts, b.id)\<close>.\<close>

definition newer :: "hist_row \<Rightarrow> hist_row \<Rightarrow> bool" where
  "newer a b \<longleftrightarrow> h_start_ts a > h_start_ts b \<or> h_start_ts a = h_start_ts b \<and> h_id a > h_id b"

definition limit_rows :: "int \<Rightarrow> 'r list \<Rightarrow> 'r list" where
  "limit_rows n rows = (if n > 0 then take (nat n) rows else rows)"

definition list_rows :: "filter_spec \<Rightarrow> db \<Rightarrow> hist_row list" where
  "list_rows f d =
     (if fiUnique f
      then filter (\<lambda>r. predicates f d r \<and>
             \<not> (\<exists>r2 \<in> set (history d). predicates f d r2 \<and> h_command_hash r2 = h_command_hash r \<and> newer r2 r)) (history d)
      else filter (predicates f d) (history d))"

definition history_List :: "db \<Rightarrow> filter_spec \<Rightarrow> entry list" where
  "history_List d f = scanEntries d (limit_rows (fiLimit f) (sort_by (\<lambda>a b. h_start_ts a > h_start_ts b) (list_rows f d)))"

section \<open>Suggestions by prefix\<close>

definition SuggestPrefixCandidates :: "db \<Rightarrow> string \<Rightarrow> int \<Rightarrow> entry list" where
  "SuggestPrefixCandidates d pre limit =
     (if pre = [] then []
      else scanEntries d (take (nat (if limit \<le> 0 then 32 else limit)) (sort_by newer
             (filter (\<lambda>r. \<not> h_deleted r \<and> sql_like (likePrefix pre) (h_command r) \<and> h_command r \<noteq> pre) (history d)))))"

definition SuggestPrefix :: "db \<Rightarrow> string \<Rightarrow> string" where
  "SuggestPrefix d pre =
     (let cands = SuggestPrefixCandidates d pre 32 in if length cands = 0 then [] else eCommand (cands ! 0))"

definition ListByCommand :: "db \<Rightarrow> string \<Rightarrow> entry list" where
  "ListByCommand d command =
     scanEntries d (sort_by newer (filter (\<lambda>r. \<not> h_deleted r \<and> h_command r = command) (history d)))"

section \<open>Summaries and statistics\<close>

datatype summary_sort = SortRecent | SortTop | SortFailed

fun SummarySort_Next :: "summary_sort \<Rightarrow> summary_sort" where
  "SummarySort_Next SortRecent = SortTop"
| "SummarySort_Next SortTop = SortFailed"
| "SummarySort_Next SortFailed = SortRecent"

record command_summary =
  smCommand :: string
  smRuns :: int
  smSuccess :: int
  smFailed :: int
  smFirstTS :: gotime
  smLastTS :: gotime
  smLastExit :: "int option"
  smLastCwd :: string
  smLastHost :: string
  smLastDurationMs :: "int option"

record summary_filter =
  sfQuery :: string
  sfSort :: summary_sort
  sfLimit :: int

definition failed_run :: "hist_row \<Rightarrow> bool" where
  "failed_run r \<longleftrightarrow> (case h_exit_status r of None \<Rightarrow> False | Some x \<Rightarrow> x \<noteq> 0)"

text \<open>The group of a command hash in the inner \<^verbatim>\<open>SELECT\<close>.\<close>

definition summary_group :: "db \<Rightarrow> summary_filter \<Rightarrow> bytes \<Rightarrow> hist_row list" where
  "summary_group d f hash =
     filter (\<lambda>r. \<not> h_deleted r \<and> (sfQuery f \<noteq> [] \<longrightarrow> Contains (sql_lower (h_command r)) (sql_lower (sfQuery f)))
        \<and> h_command_hash r = hash) (history d)"

definition count_rows :: "('r \<Rightarrow> bool) \<Rightarrow> 'r list \<Rightarrow> int" where
  "count_rows P rows = int (length (filter P rows))"

definition summary_of :: "db \<Rightarrow> summary_filter \<Rightarrow> hist_row \<Rightarrow> command_summary" where
  "summary_of d f r =
     (let g = summary_group d f (h_command_hash r); ts = map h_start_ts g
      in \<lparr>smCommand = h_command r, smRuns = count_rows (\<lambda>_. True) g, smSuccess = count_rows (\<lambda>x. h_exit_status x = Some 0) g,
          smFailed = count_rows failed_run g, smFirstTS = ofMilli (fold min ts (hd ts)), smLastTS = ofMilli (fold max ts (hd ts)),
          smLastExit = h_exit_status r, smLastCwd = intern_value (intern_cwd d) (h_cwd_id r),
          smLastHost = intern_value (intern_hostname d) (h_hostname_id r), smLastDurationMs = h_duration_ms r\<rparr>)"

definition summary_rows :: "db \<Rightarrow> summary_filter \<Rightarrow> hist_row list" where
  "summary_rows d f =
     filter (\<lambda>r. \<not> h_deleted r \<and> summary_group d f (h_command_hash r) \<noteq> []
        \<and> (sfSort f = SortFailed \<longrightarrow> count_rows failed_run (summary_group d f (h_command_hash r)) > 0)
        \<and> \<not> (\<exists>r2 \<in> set (history d). \<not> h_deleted r2 \<and> h_command_hash r2 = h_command_hash r \<and> newer r2 r)) (history d)"

definition summary_before :: "summary_sort \<Rightarrow> command_summary \<Rightarrow> command_summary \<Rightarrow> bool" where
  "summary_before s a b =
     (let recent = (smLastTS a > smLastTS b \<or> smLastTS a = smLastTS b \<and> smCommand a < smCommand b)
      in if s = SortTop then smRuns a > smRuns b \<or> smRuns a = smRuns b \<and> recent else recent)"

definition CommandSummaries :: "db \<Rightarrow> summary_filter \<Rightarrow> command_summary list" where
  "CommandSummaries d f =
     limit_rows (sfLimit f) (sort_by (summary_before (sfSort f)) (map (summary_of d f) (summary_rows d f)))"

definition Count :: "db \<Rightarrow> int" where
  "Count d = count_rows (\<lambda>r. \<not> h_deleted r) (history d)"

record stats =
  stCommands :: int
  stDeleted :: int
  stDevices :: int
  stSessions :: int
  stSuccess :: int
  stFailed :: int

text \<open>\<^verbatim>\<open>COUNT(DISTINCT c)\<close> skips \<^verbatim>\<open>NULL\<close>.\<close>

definition Stats :: "db \<Rightarrow> stats" where
  "Stats d =
     \<lparr>stCommands = count_rows (\<lambda>r. \<not> h_deleted r) (history d), stDeleted = count_rows h_deleted (history d),
      stDevices = int (length (remdups (map h_device_id (history d)))),
      stSessions = int (length (remdups (List.map_filter h_session_id (history d)))),
      stSuccess = count_rows (\<lambda>r. \<not> h_deleted r \<and> h_exit_status r = Some 0) (history d),
      stFailed = count_rows (\<lambda>r. \<not> h_deleted r \<and> failed_run r) (history d)\<rparr>"

section \<open>The pattern of a prefix\<close>

definition like_escape :: "char \<Rightarrow> string" where
  "like_escape c = (if c = CHR 0x5C \<or> c = CHR ''%'' \<or> c = CHR ''_'' then [CHR 0x5C, c] else [c])"

lemma ReplaceAll_simps [simp]:
  "ReplaceAll [] c r = []" "ReplaceAll (x # s) c r = (if x = c then r else [x]) @ ReplaceAll s c r"
  by (simp_all add: ReplaceAll_def)

lemma ReplaceAll_append [simp]: "ReplaceAll (s @ t) c r = ReplaceAll s c r @ ReplaceAll t c r"
  by (simp add: ReplaceAll_def)

lemma likePrefix_escape: "likePrefix s = concat (map like_escape s) @ ''%''"
  unfolding likePrefix_def Let_def by (induction s) (auto simp: like_escape_def)

lemma like_any: "sql_like ''%'' s"
  by (induction s) (auto simp: sql_like.simps(2))

lemma like_escape_Cons:
  "sql_like (like_escape c @ p) s \<longleftrightarrow> (\<exists>x s'. s = x # s' \<and> ascii_fold x = ascii_fold c \<and> sql_like p s')"
  by (cases s) (auto simp: like_escape_def sql_like.simps(2))

lemma likePrefix_matches: "sql_like (likePrefix p) s \<longleftrightarrow> fold_prefix p s"
  unfolding likePrefix_escape
proof (induction p arbitrary: s)
  case Nil
  then show ?case by (simp add: like_any fold_prefix_def)
next
  case (Cons c p)
  show ?case
    by (cases s) (auto simp: like_escape_Cons Cons.IH fold_prefix_def)
qed

section \<open>Queries on entries\<close>

definition entry_newer :: "entry \<Rightarrow> entry \<Rightarrow> bool" where
  "entry_newer a b \<longleftrightarrow> eStartTS a > eStartTS b \<or> eStartTS a = eStartTS b \<and> eID a > eID b"

lemma ofMilli_less [simp]: "ofMilli a < ofMilli b \<longleftrightarrow> a < b" "ofMilli a = ofMilli b \<longleftrightarrow> a = b"
  by (auto simp: ofMilli_def)

lemma entry_newer_scan [simp]: "entry_newer (scanEntry d a) (scanEntry d b) \<longleftrightarrow> newer a b"
  by (simp add: entry_newer_def newer_def scanEntry_def)

lemma map_insert_by: "(\<And>x y. lt' (f x) (f y) = lt x y) \<Longrightarrow> map f (insert_by lt a xs) = insert_by lt' (f a) (map f xs)"
  by (induction xs) auto

lemma map_sort_by: "(\<And>x y. lt' (f x) (f y) = lt x y) \<Longrightarrow> map f (sort_by lt xs) = sort_by lt' (map f xs)"
  by (induction xs) (simp_all add: map_insert_by[of lt' f lt])

lemma newer_order:
  "\<not> newer a a" "newer a b \<Longrightarrow> newer b c \<Longrightarrow> newer a c" "h_id a \<noteq> h_id b \<Longrightarrow> newer a b \<or> newer b a"
  by (auto simp: newer_def)

lemma newest_exists:
  assumes "finite A" "A \<noteq> {}"
  shows "\<exists>r \<in> A. \<forall>r' \<in> A. \<not> newer r' r"
  using assms
proof (induction rule: finite_ne_induct)
  case (insert x A)
  then obtain r where r: "r \<in> A" "\<forall>r' \<in> A. \<not> newer r' r" by blast
  show ?case
  proof (cases "newer x r")
    case True
    then have "\<forall>r' \<in> insert x A. \<not> newer r' x" using r newer_order(1,2) by blast
    then show ?thesis by blast
  next
    case False
    then show ?thesis using r by blast
  qed
qed (simp add: newer_order)

text \<open>The rows without a newer one of the same hash: one for each hash.\<close>

definition newest_rows :: "(hist_row \<Rightarrow> bool) \<Rightarrow> hist_row list \<Rightarrow> hist_row list" where
  "newest_rows P rows =
     filter (\<lambda>r. P r \<and> \<not> (\<exists>r2 \<in> set rows. P r2 \<and> h_command_hash r2 = h_command_hash r \<and> newer r2 r)) rows"

lemma newest_rows_hashes: "h_command_hash ` set (newest_rows P rows) = h_command_hash ` {r \<in> set rows. P r}"
proof (rule equalityI)
  show "h_command_hash ` {r \<in> set rows. P r} \<subseteq> h_command_hash ` set (newest_rows P rows)"
  proof (rule image_subsetI)
    fix r assume r: "r \<in> {r \<in> set rows. P r}"
    let ?A = "{x \<in> set rows. P x \<and> h_command_hash x = h_command_hash r}"
    from newest_exists[of ?A] r obtain x where "x \<in> ?A" "\<forall>r' \<in> ?A. \<not> newer r' x" by auto
    then have "x \<in> set (newest_rows P rows)" "h_command_hash x = h_command_hash r" by (auto simp: newest_rows_def)
    then show "h_command_hash r \<in> h_command_hash ` set (newest_rows P rows)" by (metis imageI)
  qed
qed (auto simp: newest_rows_def)

lemma newest_rows_distinct:
  assumes "distinct (map h_id rows)"
  shows "distinct (map h_command_hash (newest_rows P rows))"
  unfolding distinct_map
proof (intro conjI inj_onI)
  show "distinct (newest_rows P rows)" using assms by (simp add: newest_rows_def distinct_map)
  fix a b assume ab: "a \<in> set (newest_rows P rows)" "b \<in> set (newest_rows P rows)" "h_command_hash a = h_command_hash b"
  then have "\<not> newer a b" "\<not> newer b a" by (auto simp: newest_rows_def)
  then have "h_id a = h_id b" using newer_order(3) by blast
  then show "a = b" using assms ab by (auto simp: newest_rows_def distinct_map inj_on_def)
qed

lemma sum_groups:
  assumes "finite S" "key ` set rows \<subseteq> S"
  shows "(\<Sum>k \<in> S. int (length (filter (\<lambda>r. key r = k) rows))) = int (length rows)"
  using assms(2)
proof (induction rows)
  case (Cons r rows)
  have "(\<Sum>k \<in> S. int (length (filter (\<lambda>r. key r = k) (r # rows)))) =
      (\<Sum>k \<in> S. (if key r = k then 1 else 0) + int (length (filter (\<lambda>r. key r = k) rows)))"
    by (intro sum.cong) auto
  also have "\<dots> = int (length (r # rows))"
    using Cons assms(1) by (simp add: sum.distrib)
  finally show ?case .
qed simp

section \<open>Properties\<close>

text \<open>The candidates for a prefix are exactly the newest live entries whose command starts with it up to the case of ASCII
  letters and is longer or differs in case, newest first, cut to the limit: the escaping of the pattern lets no
  character of the prefix act as a wildcard.\<close>

theorem SuggestPrefixCandidates_newest_matches:
  "SuggestPrefixCandidates d pre limit =
     (if pre = [] then []
      else take (nat (if limit \<le> 0 then 32 else limit)) (sort_by entry_newer
             (filter (\<lambda>e. \<not> eDeleted e \<and> fold_prefix pre (eCommand e) \<and> eCommand e \<noteq> pre) (view d))))"
proof -
  have "map (scanEntry d) (sort_by newer (filter P rows)) = sort_by entry_newer (map (scanEntry d) (filter P rows))" for P rows
    by (rule map_sort_by) simp
  moreover have "filter (\<lambda>e. \<not> eDeleted e \<and> fold_prefix pre (eCommand e) \<and> eCommand e \<noteq> pre) (view d) =
      map (scanEntry d) (filter (\<lambda>r. \<not> h_deleted r \<and> fold_prefix pre (h_command r) \<and> h_command r \<noteq> pre) (history d))"
    by (simp add: view_def scanEntries_def filter_map comp_def)
  ultimately show ?thesis
    by (simp add: SuggestPrefixCandidates_def scanEntries_def likePrefix_matches take_map[symmetric])
qed

text \<open>With \<^verbatim>\<open>Unique\<close> and no limit, \<^verbatim>\<open>List\<close> returns one entry for each command the filter selects, its newest one, provided
  the hash does not collide on the stored commands.\<close>

theorem List_unique_newest:
  assumes "history_ok H d" "inj_on H (h_command ` set (history d))" "fiUnique f" "fiLimit f \<le> 0"
  defines "all \<equiv> history_List d (f\<lparr>fiUnique := False\<rparr>)"
  shows "distinct (map eCommand (history_List d f)) \<and> eCommand ` set (history_List d f) = eCommand ` set all
     \<and> (\<forall>e \<in> set (history_List d f). e \<in> set all \<and> (\<forall>e' \<in> set all. eCommand e' = eCommand e \<longrightarrow> \<not> entry_newer e' e))"
proof -
  let ?P = "predicates f d"
  have P: "predicates (f\<lparr>fiUnique := False\<rparr>) d = ?P" by (simp add: predicates_def fun_eq_iff)
  have rows: "list_rows f d = newest_rows ?P (history d)" using assms(3) by (simp add: list_rows_def newest_rows_def)
  have set_all: "set all = scanEntry d ` {r \<in> set (history d). ?P r}"
    using assms(4) unfolding all_def history_List_def list_rows_def P by (simp add: limit_rows_def scanEntries_def)
  have set_L: "set (history_List d f) = scanEntry d ` set (newest_rows ?P (history d))"
    using assms(4) by (simp add: history_List_def rows limit_rows_def scanEntries_def)
  have hash: "h_command_hash r = H (h_command r)" if "r \<in> set (history d)" for r
    using assms(1) that by (auto simp: history_ok_def)
  have cmd: "h_command_hash r = h_command_hash r' \<longleftrightarrow> h_command r = h_command r'"
    if "r \<in> set (history d)" "r' \<in> set (history d)" for r r'
    using hash that assms(2) by (metis image_eqI inj_on_eq_iff)
  have "distinct (map h_id (history d))" using view_ids_distinct[OF assms(1)] by (simp add: view_def scanEntries_def comp_def)
  then have dist: "distinct (map h_command (newest_rows ?P (history d)))"
    using newest_rows_distinct[of "history d" ?P] cmd
    by (auto simp: distinct_map inj_on_def newest_rows_def)
  have "mset (map eCommand (history_List d f)) = mset (map h_command (newest_rows ?P (history d)))"
    using assms(4) by (simp add: history_List_def rows limit_rows_def scanEntries_def comp_def mset_map_sort_by)
  then have 1: "distinct (map eCommand (history_List d f))" using dist mset_eq_imp_distinct_iff by metis
  have 2: "eCommand ` set (history_List d f) = eCommand ` set all"
  proof (rule equalityI)
    show "eCommand ` set (history_List d f) \<subseteq> eCommand ` set all"
      unfolding set_L set_all by (auto simp: newest_rows_def)
    show "eCommand ` set all \<subseteq> eCommand ` set (history_List d f)"
    proof (rule image_subsetI)
      fix e assume "e \<in> set all"
      then obtain r where r: "r \<in> set (history d)" "?P r" "e = scanEntry d r" unfolding set_all by auto
      then have "h_command_hash r \<in> h_command_hash ` set (newest_rows ?P (history d))"
        unfolding newest_rows_hashes by simp
      then obtain x where x: "x \<in> set (newest_rows ?P (history d))" "h_command_hash x = h_command_hash r" by auto
      then have "h_command x = h_command r" using cmd[of x r] r by (auto simp: newest_rows_def)
      then have "eCommand (scanEntry d x) = eCommand e" using r by simp
      with x(1) show "eCommand e \<in> eCommand ` set (history_List d f)" unfolding set_L by (metis imageI)
    qed
  qed
  have 3: "e \<in> set all \<and> (\<forall>e' \<in> set all. eCommand e' = eCommand e \<longrightarrow> \<not> entry_newer e' e)" if "e \<in> set (history_List d f)" for e
  proof -
    obtain r where r: "r \<in> set (newest_rows ?P (history d))" "e = scanEntry d r" using \<open>e \<in> _\<close> unfolding set_L by auto
    then show ?thesis unfolding set_all using cmd by (auto simp: newest_rows_def)
  qed
  show ?thesis using 1 2 3 by blast
qed

text \<open>Without a query and a limit, the summaries count every live run exactly once.\<close>

theorem CommandSummaries_count_every_run:
  assumes "history_ok H d" "sfQuery f = []" "sfSort f \<noteq> SortFailed" "sfLimit f \<le> 0"
  shows "sum_list (map smRuns (CommandSummaries d f)) = Count d"
proof -
  let ?live = "\<lambda>r. \<not> h_deleted r" and ?rows = "filter (\<lambda>r. \<not> h_deleted r) (history d)"
  have g: "summary_group d f hash = filter (\<lambda>r. h_command_hash r = hash) ?rows" for hash
    using assms(2) by (simp add: summary_group_def conj_commute)
  have rows: "summary_rows d f = newest_rows ?live (history d)"
    unfolding summary_rows_def newest_rows_def using assms(3) by (intro filter_cong) (auto simp: g filter_empty_conv)
  have "distinct (map h_id (history d))" using view_ids_distinct[OF assms(1)] by (simp add: view_def scanEntries_def comp_def)
  then have dist: "distinct (map h_command_hash (newest_rows ?live (history d)))" by (rule newest_rows_distinct)
  have "mset (map smRuns (CommandSummaries d f)) = mset (map smRuns (map (summary_of d f) (summary_rows d f)))"
    using assms(4) by (simp only: CommandSummaries_def limit_rows_def mset_map_sort_by not_less[symmetric] if_False)
  then have "sum_list (map smRuns (CommandSummaries d f)) = sum_list (map smRuns (map (summary_of d f) (summary_rows d f)))"
    by (metis sum_mset_sum_list)
  also have "\<dots> = sum_list (map (\<lambda>k. int (length (filter (\<lambda>r. h_command_hash r = k) ?rows)))
      (map h_command_hash (newest_rows ?live (history d))))"
    by (simp add: rows summary_of_def Let_def count_rows_def g comp_def)
  also have "\<dots> = (\<Sum>k \<in> h_command_hash ` set (newest_rows ?live (history d)). int (length (filter (\<lambda>r. h_command_hash r = k) ?rows)))"
    using sum_list_distinct_conv_sum_set[OF dist] by (simp only: set_map)
  also have "\<dots> = int (length ?rows)"
    unfolding newest_rows_hashes by (rule sum_groups) auto
  finally show ?thesis by (simp add: Count_def count_rows_def)
qed

subsection \<open>A concrete history\<close>

definition query_entry :: "string \<Rightarrow> string \<Rightarrow> int \<Rightarrow> entry" where
  "query_entry i cmd ms = \<lparr>eID = i, eCommand = cmd, eStartTS = ofMilli ms, eEndTS = None, eDurationMs = None, eExitStatus = Some 0,
     eCwd = ''/tmp'', eSessionID = ''s'', eHostname = ''h'', eDeviceID = ''A'', eShell = ''zsh'', eDeleted = False,
     eOriginDeviceID = [], eOriginSeq = None, eCreatedAt = 5\<rparr>"

definition query_hash :: "string \<Rightarrow> bytes" where
  "query_hash s = map (\<lambda>c. of_char c) s"

definition query_db :: db where
  "query_db = fold (\<lambda>e d. fst (InsertExec query_hash 7 d e))
     [query_entry ''1'' ''ls'' 10, query_entry ''2'' ''make'' 20, query_entry ''3'' ''ls'' 30] empty_db"

lemma query_db_ok: "history_ok query_hash query_db"
  unfolding query_db_def by (simp add: InsertExec_refines(1))

definition all_filter :: filter_spec where
  "all_filter = \<lparr>fiQuery = [], fiCwd = [], fiHost = [], fiShell = [], fiSession = [], fiDeviceID = [], fiExit = None, fiSince = None,
     fiUntil = None, fiIncludeDeleted = False, fiUnique = True, fiLimit = 0\<rparr>"

theorem List_unique_newest_witness:
  "map eID (history_List query_db all_filter) = [''3'', ''2''] \<and> distinct (map eCommand (history_List query_db all_filter))"
proof -
  have "map h_command (history query_db) = [''ls'', ''make'', ''ls'']" by code_simp
  then have "set (map h_command (history query_db)) = set [''ls'', ''make'', ''ls'']" by (rule arg_cong)
  moreover have "inj_on query_hash (set [''ls'', ''make'', ''ls''])" by (simp add: inj_on_def query_hash_def)
  ultimately have "inj_on query_hash (h_command ` set (history query_db))" by (simp only: set_map)
  from List_unique_newest[OF query_db_ok this, of all_filter]
  have "distinct (map eCommand (history_List query_db all_filter))" by (simp add: all_filter_def)
  moreover have "map eID (history_List query_db all_filter) = [''3'', ''2'']" by code_simp
  ultimately show ?thesis by blast
qed

theorem CommandSummaries_count_every_run_witness:
  "sum_list (map smRuns (CommandSummaries query_db \<lparr>sfQuery = [], sfSort = SortTop, sfLimit = 0\<rparr>)) = 3"
proof -
  have "Count query_db = 3" by code_simp
  then show ?thesis
    using CommandSummaries_count_every_run[OF query_db_ok, of "\<lparr>sfQuery = [], sfSort = SortTop, sfLimit = 0\<rparr>"] by simp
qed

end
