(* ===== verification/Engine.thy ===== *)
theory Engine
  imports Roster Query
begin

text \<open>
  The sync engine (\<^verbatim>\<open>internal/sync/syncer\<close>): publishing local events, acknowledgements and device records, checkpoints,
  unlocking, the device operations and \<^verbatim>\<open>Sync\<close> itself. The state of an operation is the local database, the key
  tables, the remote and the change set of the run; an operation returns the state it leaves behind together with
  its error, since an error in the middle keeps what was done before it.
\<close>

section \<open>State and environment\<close>

record 's engine =
  enDb :: db
  enKeys :: keydb
  enRemote :: 's
  enChanges :: change_set

record options =
  opDeviceID :: string
  opDeviceName :: string
  opHostname :: string
  opEndpointID :: string
  opEndpointName :: string
  opUnlock :: unlock
  opCachedSMKs :: "(string \<times> bytes) list"

text \<open>
  What the engine calls outside the repository. \<open>snBegin\<close>, \<open>snEnd\<close> and \<open>snDedupe\<close> are the optional methods of the transport, the
  identity without error when it lacks them; \<open>snFido\<close> are the authenticators \<^verbatim>\<open>fidoDevices\<close> opens, with the error of opening them.
\<close>

record 's sync_env =
  snPull :: pull_env
  snKey :: key_env
  snCodec :: remote_codec
  snGc :: gc_codec
  snSnap :: snapshot_codec
  snOps :: "'s remote_ops"
  snBegin :: "'s \<Rightarrow> 's \<times> go_error option"
  snEnd :: "'s \<Rightarrow> 's \<times> go_error option"
  snDedupe :: "'s \<Rightarrow> 's \<times> go_error option"
  snSha :: "bytes \<Rightarrow> bytes"
  snAck :: "ack \<Rightarrow> bytes result"
  snManifest :: "manifest \<Rightarrow> bytes result"
  snFido :: "fido_device list \<times> go_error option"

type_synonym 's step = "'s engine \<Rightarrow> 's engine \<times> go_error option"

definition seq_step :: "'s step \<Rightarrow> 's step \<Rightarrow> 's step" where
  "seq_step f g e = (case f e of (e1, None) \<Rightarrow> g e1 | (e1, Some err) \<Rightarrow> (e1, Some err))"

definition put_step :: "'s sync_env \<Rightarrow> string \<Rightarrow> bytes \<Rightarrow> 's step" where
  "put_step N key b e =
     (case roPut (snOps N) (enRemote e) key b of (rem, err) \<Rightarrow> (e\<lparr>enRemote := rem\<rparr>, err))"

abbreviation remote_of :: "'s sync_env \<Rightarrow> 's engine \<Rightarrow> transport" where
  "remote_of N e \<equiv> roView (snOps N) (enRemote e)"

abbreviation now_of :: "'s sync_env \<Rightarrow> gotime" where
  "now_of N \<equiv> pnNow (snPull N)"

definition trustKind :: "options \<Rightarrow> string" where
  "trustKind o' = (if opEndpointID o' = [] then ''remote'' else ''remote:'' @ opEndpointID o')"

definition publishedSeqKey :: "options \<Rightarrow> string" where
  "publishedSeqKey o' =
     (if opEndpointID o' = [] then ''published_seq:'' @ opDeviceID o'
      else ''published_seq:'' @ opEndpointID o' @ '':'' @ opDeviceID o')"

definition epName :: "options \<Rightarrow> string" where
  "epName o' = (if opEndpointName o' \<noteq> [] then opEndpointName o' else opEndpointID o')"

section \<open>Publishing\<close>

definition localMaxSeq :: "string \<Rightarrow> db \<Rightarrow> int" where
  "localMaxSeq dev d =
     (let eventMax = max_seq (map ev_seq (filter (\<lambda>r. ev_device_id r = dev) (sync_events d)));
          headMax = head_of d dev;
          histMax = max_seq (List.map_filter h_origin_seq (filter (\<lambda>r. h_origin_device_id r = Some dev) (history d)))
      in fold (\<lambda>v n. case v of None \<Rightarrow> n | Some x \<Rightarrow> if x > n then x else n) [eventMax, headMax, histMax] 0)"

definition last_published :: "options \<Rightarrow> db \<Rightarrow> int" where
  "last_published o' d =
     (case state_get d (publishedSeqKey o') of
        None \<Rightarrow> 0
      | Some s \<Rightarrow> (case ParseInt s of None \<Rightarrow> 0 | Some n \<Rightarrow> n))"

definition publishLocal :: "'s sync_env \<Rightarrow> options \<Rightarrow> bytes \<Rightarrow> string \<Rightarrow> 's step" where
  "publishLocal N o' smk generationID e =
     (let d = enDb e; dev = opDeviceID o'; lastPub = last_published o' d; maxSeq = localMaxSeq dev d
      in if maxSeq \<le> lastPub then (e, None)
         else (case EventRange (pnCbor (snPull N)) (now_of N) d dev (lastPub + 1) maxSeq of
                 Inl err \<Rightarrow> (e, Some err)
               | Inr evs \<Rightarrow>
                   if length evs = 0 then (e, None)
                   else (case Pack (pnBundle (snPull N)) (pnAead (snPull N)) (krand (snKey N) 0) dev generationID evs smk of
                           Inl err \<Rightarrow> (e, Some err)
                         | Inr (raw, _) \<Rightarrow>
                             seq_step (put_step N (path_join [''events'', dev, Filename (snSha N) raw]) raw)
                               (\<lambda>e1. (e1\<lparr>enDb := CompactUpToHeads (HeadSet
                                  (state_put (enDb e1) (publishedSeqKey o') (show_int maxSeq)) dev maxSeq)\<rparr>, None)) e)))"

definition old_ack_checkpoint :: "'s sync_env \<Rightarrow> options \<Rightarrow> 's engine \<Rightarrow> string" where
  "old_ack_checkpoint N o' e =
     (case getBytes (remote_of N e) (path_join [''acks'', opDeviceID o' @ ''.ack'']) of
        Inl _ \<Rightarrow> []
      | Inr b \<Rightarrow> (case unmarshal_ack (snGc N) b of Inl _ \<Rightarrow> [] | Inr old \<Rightarrow> akCheckpointID old))"

definition publishAck :: "'s sync_env \<Rightarrow> options \<Rightarrow> string \<Rightarrow> 's step" where
  "publishAck N o' checkpointID e =
     (let dev = opDeviceID o'
      in if (case device_Get (devices (enDb e)) dev of None \<Rightarrow> False | Some d \<Rightarrow> dvStatus d = StatusRetired) then (e, None)
         else (let ckpt = (if checkpointID = [] then old_ack_checkpoint N o' e else checkpointID)
               in case snAck N (NewAck (now_of N) dev (HeadGet (enDb e)) ckpt) of
                    Inl err \<Rightarrow> (e, Some err)
                  | Inr b \<Rightarrow> put_step N (path_join [''acks'', dev @ ''.ack'']) b e))"

definition device_record :: "options \<Rightarrow> db \<Rightarrow> string \<Rightarrow> device_file" where
  "device_record o' d i =
     (let dev = device_Get (devices d) i;
          name0 = (case dev of None \<Rightarrow> [] | Some x \<Rightarrow> dvName x);
          host0 = (case dev of None \<Rightarrow> [] | Some x \<Rightarrow> dvHostname x);
          status = (case dev of None \<Rightarrow> StatusActive | Some x \<Rightarrow> if dvStatus x \<noteq> [] then dvStatus x else StatusActive);
          name1 = (if i = opDeviceID o' \<and> name0 = [] then opDeviceName o' else name0);
          host1 = (if i = opDeviceID o' \<and> host0 = [] then opHostname o' else host0)
      in \<lparr>dfVersion = remote_CurrentVersion, dfID = i, dfName = (if name1 = [] then i else name1), dfHostname = host1,
          dfStatus = status, dfHead = fget (HeadGet d) i\<rparr>)"

definition publishDeviceRecord :: "'s sync_env \<Rightarrow> options \<Rightarrow> string \<Rightarrow> 's step" where
  "publishDeviceRecord N o' i e =
     (case json_device (snCodec N) (device_record o' (enDb e) i) of
        Inl err \<Rightarrow> (e, Some err)
      | Inr b \<Rightarrow> put_step N (path_join [''metadata'', ''devices'', i @ ''.json'']) b e)"

section \<open>Local events\<close>

definition set_origin :: "db \<Rightarrow> string \<Rightarrow> string \<Rightarrow> int \<Rightarrow> db" where
  "set_origin d i dev seq =
     d\<lparr>history := map (\<lambda>r. if h_id r = i then r\<lparr>h_origin_device_id := Some dev, h_origin_seq := Some seq\<rparr> else r) (history d)\<rparr>"

text \<open>The end of both functions: mark the event, advance the own head, forget what the heads cover.\<close>

definition settle_local :: "string \<Rightarrow> int \<Rightarrow> db \<Rightarrow> db" where
  "settle_local dev seq d = CompactUpToHeads (HeadSet (MarkApplied d dev seq) dev seq)"

definition EnqueueHistoryCreated :: "event_cbor \<Rightarrow> gotime \<Rightarrow> string \<Rightarrow> db \<Rightarrow> entry \<Rightarrow> db result" where
  "EnqueueHistoryCreated c now dev d ent =
     (let seq = NextSeq d dev
      in bind_result (NewHistoryCreated c now dev seq ent) (\<lambda>ev.
         bind_result (AppendExec c d ev) (\<lambda>d1.
           Inr (settle_local dev seq (set_origin d1 (eID ent) dev seq)))))"

definition newTombstone :: "event_cbor \<Rightarrow> gotime \<Rightarrow> string \<Rightarrow> int \<Rightarrow> string \<Rightarrow> string \<Rightarrow> int \<Rightarrow> event result" where
  "newTombstone c now dev seq historyID origin originSeq =
     NewHistoryTombstoned c now dev seq \<lparr>tHistoryID = historyID, tOriginDeviceID = origin, tOriginSeq = originSeq\<rparr>"

definition EnqueueHistoryTombstoned :: "event_cbor \<Rightarrow> gotime \<Rightarrow> string \<Rightarrow> db \<Rightarrow> entry \<Rightarrow> db result" where
  "EnqueueHistoryTombstoned c now dev d ent =
     (let seq = NextSeq d dev; originSeq = (case eOriginSeq ent of None \<Rightarrow> 0 | Some s \<Rightarrow> s)
      in bind_result (newTombstone c now dev seq (eID ent) (eOriginDeviceID ent) originSeq) (\<lambda>ev.
         bind_result (AppendExec c d ev) (\<lambda>d1.
           Inr (settle_local dev seq (Tombstone d1 (eID ent))))))"

section \<open>Checkpoints\<close>

definition behindNewestCheckpoint :: "'s sync_env \<Rightarrow> 's engine \<Rightarrow> bool result" where
  "behindNewestCheckpoint N e =
     bind_result (NewestCheckpoint (snGc N) (remote_of N e)) (\<lambda>m.
       Inr (case m of None \<Rightarrow> False | Some m \<Rightarrow> \<not> Dominates (HeadGet (enDb e)) (mfFrontier m)))"

definition all_rows :: filter_spec where
  "all_rows = \<lparr>fiQuery = [], fiCwd = [], fiHost = [], fiShell = [], fiSession = [], fiDeviceID = [], fiExit = None, fiSince = None,
     fiUntil = None, fiIncludeDeleted = True, fiUnique = False, fiLimit = 0\<rparr>"

definition createCheckpoint :: "'s sync_env \<Rightarrow> bytes \<Rightarrow> string \<Rightarrow> 's engine \<Rightarrow> 's engine \<times> manifest result" where
  "createCheckpoint N smk generationID e =
     (case kuuid (snKey N) 0 of
        Inl err \<Rightarrow> (e, Inl err)
      | Inr uid \<Rightarrow>
          (let m = NewManifest (now_of N) uid generationID (HeadGet (enDb e))
           in case bind_result (EncodeManifest (snManifest N) m) (\<lambda>mb.
                   bind_result (PackSnapshot (snSnap N) (pnAead (snPull N)) (krand (snKey N) 0) (history_List (enDb e) all_rows) smk) (\<lambda>(nonce, ct).
                     Inr (mb, EncodeFile nonce ct))) of
                Inl err \<Rightarrow> (e, Inl err)
              | Inr (mb, file) \<Rightarrow>
                  (let base = path_join [''checkpoints'', mfID m]
                   in case seq_step (put_step N (path_join [base, ''manifest'']) mb)
                             (put_step N (path_join [base, ''snapshot'']) file) e of
                        (e', Some err) \<Rightarrow> (e', Inl err)
                      | (e', None) \<Rightarrow> (e', Inr m))))"

definition CreateCheckpoint :: "'s sync_env \<Rightarrow> bytes \<Rightarrow> string \<Rightarrow> 's engine \<Rightarrow> 's engine \<times> manifest result" where
  "CreateCheckpoint N smk generationID e =
     (case behindNewestCheckpoint N e of
        Inl err \<Rightarrow> (e, Inl err)
      | Inr True \<Rightarrow> (e, Inl (Errorf ''local frontier does not dominate newest checkpoint''))
      | Inr False \<Rightarrow> createCheckpoint N smk generationID e)"

definition origin_key :: "string \<Rightarrow> int \<Rightarrow> string" where
  "origin_key dev seq = dev @ CHR 0x00 # show_int seq"

definition tombstonedIndex :: "db \<Rightarrow> string list \<times> string list" where
  "tombstonedIndex d =
     (let rows = filter h_deleted (history d)
      in (map h_id rows,
          List.map_filter (\<lambda>r. case (h_origin_device_id r, h_origin_seq r) of
              (Some dev, Some seq) \<Rightarrow> if dev \<noteq> [] then Some (origin_key dev seq) else None
            | _ \<Rightarrow> None) rows))"

definition mark_tombstoned :: "string list \<times> string list \<Rightarrow> entry \<Rightarrow> entry" where
  "mark_tombstoned idx ent =
     (if eID ent \<in> set (fst idx)
         \<or> eOriginDeviceID ent \<noteq> [] \<and> (case eOriginSeq ent of None \<Rightarrow> False
              | Some s \<Rightarrow> origin_key (eOriginDeviceID ent) s \<in> set (snd idx))
      then ent\<lparr>eDeleted := True\<rparr> else ent)"

definition bootstrap_db :: "(string \<Rightarrow> bytes) \<Rightarrow> gotime \<Rightarrow> manifest \<Rightarrow> entry list \<Rightarrow> db \<Rightarrow> db" where
  "bootstrap_db H now m entries d =
     (let idx = tombstonedIndex d;
          d1 = fold (\<lambda>ent d. fst (InsertExec H now d (mark_tombstoned idx ent))) entries d;
          local = HeadGet d1
      in fold (\<lambda>(i, seq) d. if seq > fget local i then HeadSet d i seq else d) (mfFrontier m) d1)"

definition BootstrapFromCheckpoint :: "'s sync_env \<Rightarrow> options \<Rightarrow> bytes \<Rightarrow> manifest \<Rightarrow> bytes \<Rightarrow> 's step" where
  "BootstrapFromCheckpoint N o' smk m snapFile e =
     (case bind_result (DecodeFile (snSnap N) snapFile) (\<lambda>(nonce, ct). UnpackSnapshot (snSnap N) (pnAead (snPull N)) smk nonce ct) of
        Inl err \<Rightarrow> (e, Some err)
      | Inr entries \<Rightarrow>
          (e\<lparr>enDb := bootstrap_db (pnHash (snPull N)) (now_of N) m entries (enDb e),
             enKeys := SetTrustedCheckpoint (now_of N) (enKeys e) (trustKind o') (mfID m)\<rparr>, None))"

definition skipStaleCheckpoint :: "'s sync_env \<Rightarrow> options \<Rightarrow> manifest \<Rightarrow> 's engine \<Rightarrow> bool" where
  "skipStaleCheckpoint N o' m e =
     (let trustedID = TrustedCheckpointID (enKeys e) (trustKind o')
      in if trustedID = [] \<or> trustedID = mfID m then False
         else (case getBytes (remote_of N e) (path_join [''checkpoints'', trustedID, ''manifest'']) of
                 Inl _ \<Rightarrow> False
               | Inr b \<Rightarrow>
                   (case DecodeManifest (unmarshal_manifest (snGc N)) b of
                      Inl _ \<Rightarrow> False
                    | Inr tm \<Rightarrow> Dominates (mfFrontier tm) (mfFrontier m) \<and> \<not> Dominates (mfFrontier m) (mfFrontier tm))))"

text \<open>The keys of \<^verbatim>\<open>pullCheckpoint\<close>, in order: that of the checkpoint's generation, then the others.\<close>

fun bootstrap_with :: "'s sync_env \<Rightarrow> options \<Rightarrow> manifest \<Rightarrow> bytes \<Rightarrow> bytes list \<Rightarrow> go_error option \<Rightarrow> 's step" where
  "bootstrap_with N o' m snap [] lastE e =
     (e, Some (case lastE of
        Some err \<Rightarrow> Wrapped (''checkpoint '' @ mfID m) err
      | None \<Rightarrow> Errorf (''no key for checkpoint '' @ mfID m @ '' generation '' @ mfGenerationID m)))"
| "bootstrap_with N o' m snap (smk # smks) lastE e =
     (case BootstrapFromCheckpoint N o' smk m snap e of
        (e1, None) \<Rightarrow> (e1, None)
      | (e1, Some err) \<Rightarrow> bootstrap_with N o' m snap smks (Some err) e1)"

definition checkpoint_keys :: "manifest \<Rightarrow> (string \<times> bytes) list \<Rightarrow> bytes list" where
  "checkpoint_keys m smks =
     (case map_of smks (mfGenerationID m) of None \<Rightarrow> [] | Some k \<Rightarrow> if length k > 0 then [k] else [])
     @ map snd (filter (\<lambda>(i, _). i \<noteq> mfGenerationID m) smks)"

definition pullCheckpoint :: "'s sync_env \<Rightarrow> options \<Rightarrow> (string \<times> bytes) list \<Rightarrow> 's step" where
  "pullCheckpoint N o' smks e =
     (case NewestCheckpoint (snGc N) (remote_of N e) of
        Inl err \<Rightarrow> (e, Some err)
      | Inr None \<Rightarrow> (e, None)
      | Inr (Some m) \<Rightarrow>
          if skipStaleCheckpoint N o' m e then (e, None)
          else if Dominates (HeadGet (enDb e)) (mfFrontier m)
          then (e\<lparr>enKeys := SetTrustedCheckpoint (now_of N) (enKeys e) (trustKind o') (mfID m)\<rparr>, None)
          else (case getBytes (remote_of N e) (path_join [''checkpoints'', mfID m, ''snapshot'']) of
                  Inl err \<Rightarrow> (e, Some (Wrapped (''checkpoint snapshot '' @ mfID m) err))
                | Inr snap \<Rightarrow> bootstrap_with N o' m snap (checkpoint_keys m smks) None e))"

end
