(* ===== verification/Service.thy ===== *)
theory Service
  imports Rank Cache_Spec Engine
begin

text \<open>
  The history service of the daemon (\<^verbatim>\<open>internal/history/service.go\<close>): every operation changes the database, records an event for the
  other devices, and updates the cache; a cache that may be stale is rebuilt. The user's ignore rules (\<^verbatim>\<open>ignore.go\<close>, \<^verbatim>\<open>skip.go\<close>)
  come first. Parameters: the upper-case mapping of Unicode, compiled regular expressions, the file system below the two rule
  files, fresh identifiers, the clock, and what SQLite answers to \<^verbatim>\<open>PRAGMA data_version\<close>.
\<close>

section \<open>Commands that are never recorded\<close>

definition skipSecrets :: "(string \<Rightarrow> string) \<Rightarrow> string \<Rightarrow> bool" where
  "skipSecrets ToUpper command =
     (let u = ToUpper command
      in list_ex (Contains u) [''REMNIX_RECOVERY_KEY='', ''RCLONE_CONFIG_PASS='', ''AWS_SECRET_ACCESS_KEY='', ''AZURE_STORAGE_KEY=''])"

record ignore_rules =
  irExact :: "string list"
  irRes :: "(string \<Rightarrow> bool) list"

definition rules_match :: "ignore_rules \<Rightarrow> string \<Rightarrow> bool" where
  "rules_match r command = (if command \<in> set (irExact r) then True else list_ex (\<lambda>re. re command) (irRes r))"

record file_stamp =
  fsPath :: string
  fsMtime :: gotime
  fsOk :: bool

record ignore_env =
  ieStat :: "string \<Rightarrow> gotime option"
  ieReadFile :: "string \<Rightarrow> string option"
  ieCompile :: "string \<Rightarrow> (string \<Rightarrow> bool) option"
  ieCommandsPath :: string
  ieRegexPath :: string

definition stampFile :: "ignore_env \<Rightarrow> string \<Rightarrow> file_stamp" where
  "stampFile F p = (case ieStat F p of
       None \<Rightarrow> \<lparr>fsPath = p, fsMtime = zero_time, fsOk = False\<rparr>
     | Some t \<Rightarrow> \<lparr>fsPath = p, fsMtime = t, fsOk = True\<rparr>)"

record ignore_cache =
  icTxtPath :: string
  icRePath :: string
  icTxtMtime :: gotime
  icReMtime :: gotime
  icTxtOK :: bool
  icReOK :: bool
  icRules :: ignore_rules

definition userIgnore :: ignore_cache where
  "userIgnore = \<lparr>icTxtPath = [], icRePath = [], icTxtMtime = zero_time, icReMtime = zero_time, icTxtOK = False, icReOK = False,
     icRules = \<lparr>irExact = [], irRes = []\<rparr>\<rparr>"

definition readIgnoreLines :: "ignore_env \<Rightarrow> string \<Rightarrow> string list" where
  "readIgnoreLines F p = (case ieReadFile F p of
       None \<Rightarrow> []
     | Some data \<Rightarrow> filter (\<lambda>l. l \<noteq> []) (map TrimSpace (Split data (CHR 0x0A))))"

definition loadIgnore :: "ignore_env \<Rightarrow> file_stamp \<Rightarrow> file_stamp \<Rightarrow> ignore_rules" where
  "loadIgnore F txt re =
     \<lparr>irExact = (if fsOk txt then readIgnoreLines F (fsPath txt) else []),
      irRes = (if fsOk re then List.map_filter (ieCompile F) (readIgnoreLines F (fsPath re)) else [])\<rparr>"

definition rulesFor :: "ignore_env \<Rightarrow> ignore_cache \<Rightarrow> ignore_rules \<times> ignore_cache" where
  "rulesFor F c =
     (let txt = stampFile F (ieCommandsPath F); re = stampFile F (ieRegexPath F)
      in if icTxtPath c = fsPath txt \<and> icRePath c = fsPath re \<and> icTxtOK c = fsOk txt \<and> icReOK c = fsOk re
            \<and> icTxtMtime c = fsMtime txt \<and> icReMtime c = fsMtime re
         then (icRules c, c)
         else (let rules = loadIgnore F txt re
               in (rules, \<lparr>icTxtPath = fsPath txt, icRePath = fsPath re, icTxtMtime = fsMtime txt, icReMtime = fsMtime re,
                     icTxtOK = fsOk txt, icReOK = fsOk re, icRules = rules\<rparr>)))"

definition ShouldSkip :: "(string \<Rightarrow> string) \<Rightarrow> ignore_env \<Rightarrow> string \<Rightarrow> ignore_cache \<Rightarrow> bool \<times> ignore_cache" where
  "ShouldSkip ToUpper F command c =
     (if skipSecrets ToUpper command then (True, c)
      else (let (rules, c1) = rulesFor F c in (rules_match rules command, c1)))"

section \<open>The service\<close>

type_synonym enqueue_func = "db \<Rightarrow> entry \<Rightarrow> db result"

record service_env =
  seHash :: "string \<Rightarrow> bytes"
  seUpper :: "string \<Rightarrow> string"
  seIgnore :: ignore_env
  seNow :: gotime
  seUuid :: "nat \<Rightarrow> string result"
  seGetwd :: string
  seHost :: string
  seDevice :: string
  seCreated :: "enqueue_func option"
  seTombstone :: "enqueue_func option"
  sePragma :: "int result"

record service =
  svDb :: db
  svCache :: cache
  svVersion :: int
  svIgnore :: ignore_cache

definition NewService :: "db \<Rightarrow> cache \<Rightarrow> service" where
  "NewService d c = \<lparr>svDb = d, svCache = c, svVersion = 0, svIgnore = userIgnore\<rparr>"

definition rebuildLocked :: "service_env \<Rightarrow> (entry \<Rightarrow> go_error option) \<Rightarrow> service \<Rightarrow> service \<times> go_error option" where
  "rebuildLocked N cancelled s =
     (case Rebuild cancelled (svDb s) (svCache s) of
        (c, Some err) \<Rightarrow> (s\<lparr>svCache := c\<rparr>, Some err)
      | (c, None) \<Rightarrow> (s\<lparr>svCache := c, svVersion := (case sePragma N of Inl _ \<Rightarrow> 0 | Inr v \<Rightarrow> v)\<rparr>, None))"

definition CompactCache :: "service \<Rightarrow> service" where
  "CompactCache s = s\<lparr>svCache := Compact (svCache s)\<rparr>"

definition EnsureFresh :: "service_env \<Rightarrow> (entry \<Rightarrow> go_error option) \<Rightarrow> service \<Rightarrow> service \<times> go_error option" where
  "EnsureFresh N cancelled s =
     (if cDirty (svCache s) then rebuildLocked N cancelled s
      else (case sePragma N of
              Inl err \<Rightarrow> (s, Some err)
            | Inr cur \<Rightarrow> if svVersion s \<noteq> 0 \<and> cur \<noteq> svVersion s
                then rebuildLocked N cancelled (s\<lparr>svCache := MarkDirty (svCache s)\<rparr>) else (s, None)))"

definition SuggestCandidates :: "service_env \<Rightarrow> string \<Rightarrow> service \<Rightarrow> service \<times> entry list result" where
  "SuggestCandidates N pfx s =
     (if pfx = [] then (s, Inr [])
      else (case EnsureFresh N (\<lambda>_. None) s of
              (s1, Some err) \<Rightarrow> (s1, Inl err)
            | (s1, None) \<Rightarrow> (s1, Inr (Suggest (svCache s1) pfx))))"

definition SearchCandidates :: "service_env \<Rightarrow> service \<Rightarrow> service \<times> entry list result" where
  "SearchCandidates N s =
     (case EnsureFresh N (\<lambda>_. None) s of (s1, Some err) \<Rightarrow> (s1, Inl err) | (s1, None) \<Rightarrow> (s1, Inr (AllUnique (svCache s1))))"

definition noteVersion :: "service_env \<Rightarrow> service \<Rightarrow> service \<times> go_error option" where
  "noteVersion N s = (case sePragma N of Inl err \<Rightarrow> (s, Some err) | Inr v \<Rightarrow> (s\<lparr>svVersion := v\<rparr>, None))"

text \<open>The cache operations do not panic on a well-formed cache, so the recovery of \<^verbatim>\<open>afterCommit\<close> has nothing to catch.\<close>

definition afterCommit :: "service_env \<Rightarrow> (cache \<Rightarrow> cache) \<Rightarrow> service \<Rightarrow> service \<times> go_error option" where
  "afterCommit N upd s =
     (let s1 = s\<lparr>svCache := upd (svCache s)\<rparr>
      in if cDirty (svCache s1) then rebuildLocked N (\<lambda>_. None) s1 else noteVersion N s1)"

definition run_hook :: "enqueue_func option \<Rightarrow> db \<Rightarrow> entry \<Rightarrow> db result" where
  "run_hook f d e = (case f of None \<Rightarrow> Inr d | Some g \<Rightarrow> g d e)"

definition start_entry :: "service_env \<Rightarrow> string \<Rightarrow> string \<Rightarrow> string \<Rightarrow> string \<Rightarrow> string \<Rightarrow> entry" where
  "start_entry N i command cwd session shell = zero_entry\<lparr>eID := i, eCommand := command, eStartTS := seNow N,
     eCwd := (if cwd = [] then seGetwd N else cwd), eSessionID := session, eHostname := seHost N, eDeviceID := seDevice N, eShell := shell\<rparr>"

definition StartCommand :: "service_env \<Rightarrow> string \<Rightarrow> string \<Rightarrow> string \<Rightarrow> string \<Rightarrow> service \<Rightarrow> service \<times> string \<times> go_error option" where
  "StartCommand N command cwd session shell s =
     (case seUuid N 0 of
        Inl err \<Rightarrow> (s, [], Some err)
      | Inr i \<Rightarrow> (case ShouldSkip (seUpper N) (seIgnore N) command (svIgnore s) of (skip, ig) \<Rightarrow>
          (let s0 = s\<lparr>svIgnore := ig\<rparr>
           in if skip then (s0, i, None)
              else (let e = start_entry N i command cwd session shell; d1 = fst (InsertExec (seHash N) (seNow N) (svDb s0) e)
                    in case run_hook (seCreated N) d1 e of
                         Inl err \<Rightarrow> (s0\<lparr>svDb := d1\<rparr>, [], Some err)
                       | Inr d2 \<Rightarrow> (case afterCommit N (\<lambda>c. ApplyCreated c e) (s0\<lparr>svDb := d2\<rparr>) of (s2, err) \<Rightarrow> (s2, eID e, err))))))"

definition CompleteCommand :: "service_env \<Rightarrow> string \<Rightarrow> int \<Rightarrow> service \<Rightarrow> service \<times> go_error option" where
  "CompleteCommand N i exit s =
     (if i = [] then (s, None)
      else (let endT = seNow N
            in afterCommit N (\<lambda>c. ApplyCompleted c i endT exit) (s\<lparr>svDb := Complete (svDb s) i endT exit\<rparr>)))"

fun tombstone_loop :: "service_env \<Rightarrow> entry list \<Rightarrow> db \<Rightarrow> db \<times> go_error option" where
  "tombstone_loop N [] d = (d, None)"
| "tombstone_loop N (e # es) d =
     (case (case seTombstone N of None \<Rightarrow> Inr (Tombstone d (eID e)) | Some g \<Rightarrow> g d e) of
        Inl err \<Rightarrow> (d, Some err)
      | Inr d1 \<Rightarrow> tombstone_loop N es d1)"

definition TombstoneEntries :: "service_env \<Rightarrow> entry list \<Rightarrow> service \<Rightarrow> service \<times> go_error option" where
  "TombstoneEntries N entries s =
     (if length entries = 0 then (s, None)
      else (case tombstone_loop N entries (svDb s) of
              (d, Some err) \<Rightarrow> (s\<lparr>svDb := d\<rparr>, Some err)
            | (d, None) \<Rightarrow>
                (let ids = map eID entries; cmds = remdups (filter (\<lambda>c. c \<noteq> []) (map eCommand entries))
                 in afterCommit N (\<lambda>c. foldl ApplyTombstoneCommand (ApplyTombstoned c ids) cmds) (s\<lparr>svDb := d\<rparr>))))"

definition TombstoneCommand :: "service_env \<Rightarrow> string \<Rightarrow> service \<Rightarrow> service \<times> go_error option" where
  "TombstoneCommand N command s = (if command = [] then (s, None) else TombstoneEntries N (ListByCommand (svDb s) command) s)"

text \<open>The loop of \<^verbatim>\<open>Import\<close>: \<open>k\<close> counts the identifiers drawn, \<open>created\<close> the entries that were inserted and recorded.\<close>

fun import_loop :: "service_env \<Rightarrow> entry list \<Rightarrow> nat \<Rightarrow> int \<Rightarrow> entry list \<Rightarrow> service \<Rightarrow> service \<times> int \<times> entry list \<times> go_error option" where
  "import_loop N [] k inserted created s = (s, inserted, created, None)"
| "import_loop N (e0 # es) k inserted created s =
     (case ShouldSkip (seUpper N) (seIgnore N) (eCommand e0) (svIgnore s) of (skip, ig) \<Rightarrow>
        (let s0 = s\<lparr>svIgnore := ig\<rparr>
         in if skip then import_loop N es k inserted created s0
            else (case (if eID e0 = [] then seUuid N k else Inr (eID e0)) of
                    Inl err \<Rightarrow> (s0, inserted, created, Some err)
                  | Inr i \<Rightarrow>
                      (let k1 = (if eID e0 = [] then k + 1 else k);
                           e = e0\<lparr>eID := i, eDeviceID := (if eDeviceID e0 = [] then seDevice N else eDeviceID e0)\<rparr>
                       in case InsertExec (seHash N) (seNow N) (svDb s0) e of
                            (d1, False) \<Rightarrow> import_loop N es k1 inserted created (s0\<lparr>svDb := d1\<rparr>)
                          | (d1, True) \<Rightarrow> (case run_hook (seCreated N) d1 e of
                                Inl err \<Rightarrow> (s0\<lparr>svDb := d1\<rparr>, inserted + 1, created, Some err)
                              | Inr d2 \<Rightarrow> import_loop N es k1 (inserted + 1) (created @ [e]) (s0\<lparr>svDb := d2\<rparr>))))))"

definition Import :: "service_env \<Rightarrow> entry list \<Rightarrow> service \<Rightarrow> service \<times> int \<times> go_error option" where
  "Import N entries s =
     (case import_loop N entries 0 0 [] s of
        (s1, inserted, created, Some err) \<Rightarrow> (s1, inserted, Some err)
      | (s1, inserted, created, None) \<Rightarrow>
          (case afterCommit N (\<lambda>c. ApplyBatch c (empty_cs\<lparr>csCreated := created\<rparr>)) s1 of (s2, err) \<Rightarrow> (s2, inserted, err)))"

definition ApplyRemoteChanges :: "service_env \<Rightarrow> change_set \<Rightarrow> service \<Rightarrow> service \<times> go_error option" where
  "ApplyRemoteChanges N cs s = (if cs_Empty cs then noteVersion N s else afterCommit N (\<lambda>c. ApplyBatch c cs) s)"

end
