(* ===== verification/Bootstrap.thy ===== *)
theory Bootstrap
  imports Engine
begin

text \<open>
  What starting from a checkpoint does to a database (\<^verbatim>\<open>BootstrapFromCheckpoint\<close> of
  \<^verbatim>\<open>internal/sync/syncer/checkpoint.go\<close>) and what publishing leaves behind. Local deletions survive a checkpoint
  and heads never go back; but a deletion that only the checkpoint knows is lost, because the existing row is kept
  and the head moves past the tombstone.
\<close>

section \<open>The rows after a bootstrap\<close>

definition insert_all :: "(string \<Rightarrow> bytes) \<Rightarrow> gotime \<Rightarrow> entry list \<Rightarrow> db \<Rightarrow> db" where
  "insert_all H now es d = fold (\<lambda>ent d. fst (InsertExec H now d ent)) es d"

lemma insert_all_frame [simp]:
  "sync_heads (insert_all H now es d) = sync_heads d" "sync_events (insert_all H now es d) = sync_events d"
  unfolding insert_all_def by (induction es arbitrary: d) simp_all

lemma insert_view_set: "set (fst (insert_view H now v e)) \<subseteq> insert (norm_entry now e) (set v)"
  "set v \<subseteq> set (fst (insert_view H now v e))"
  by (auto simp: insert_view_def)

lemma insert_all_view:
  "history_ok H d \<Longrightarrow> history_ok H (insert_all H now es d) \<and> set (view d) \<subseteq> set (view (insert_all H now es d))
     \<and> set (view (insert_all H now es d)) \<subseteq> set (view d) \<union> norm_entry now ` set es"
proof (induction es arbitrary: d)
  case (Cons e es)
  let ?d = "fst (InsertExec H now d e)"
  have ok: "history_ok H ?d" using Cons.prems by (simp add: InsertExec_refines(1))
  have v: "set (view d) \<subseteq> set (view ?d)" "set (view ?d) \<subseteq> insert (norm_entry now e) (set (view d))"
    using insert_view_set[where H = H and now = now and v = "view d" and e = e] InsertExec_view[OF Cons.prems, of now e] by simp_all
  show ?case using Cons.IH[OF ok] v by (auto simp: insert_all_def)
qed (simp add: insert_all_def)

definition raise_heads :: "frontier \<Rightarrow> frontier \<Rightarrow> db \<Rightarrow> db" where
  "raise_heads local f d = fold (\<lambda>(i, seq) d. if seq > fget local i then HeadSet d i seq else d) f d"

lemma bootstrap_db_parts:
  "bootstrap_db H now m es d =
     (let d1 = insert_all H now (map (mark_tombstoned (tombstonedIndex d)) es) d in raise_heads (HeadGet d1) (mfFrontier m) d1)"
  by (simp add: bootstrap_db_def insert_all_def raise_heads_def Let_def fold_map comp_def)

lemma raise_heads_frame [simp]:
  "view (raise_heads l f d) = view d" "history_ok H (raise_heads l f d) = history_ok H d"
  unfolding raise_heads_def by (induction f arbitrary: d) (simp_all add: split_beta)

lemma raise_heads_head:
  assumes "map_ok f" "\<forall>i. fget l i = head_seq d i"
  shows "head_seq (raise_heads l f d) dev = (case map_of f dev of None \<Rightarrow> head_seq d dev | Some s \<Rightarrow> max s (head_seq d dev))"
proof -
  have "head_seq (raise_heads l f d') dev = (case map_of f dev of None \<Rightarrow> head_seq d' dev | Some s \<Rightarrow> max s (head_seq d' dev))"
    if "\<forall>i \<in> fst ` set f. head_seq d' i = fget l i" for d'
    using assms(1) that
  proof (induction f arbitrary: d')
    case (Cons p f)
    obtain i s where p: "p = (i, s)" by (cases p)
    let ?d = "if s > fget l i then HeadSet d' i s else d'"
    have heads: "head_seq ?d j = (if j = i then max s (head_seq d' i) else head_seq d' j)" for j
      using Cons.prems(2) p by (auto simp: HeadSet_heads max_def)
    have "\<forall>j \<in> fst ` set f. head_seq ?d j = fget l j" using Cons.prems p by (auto simp: heads)
    then have ih: "head_seq (raise_heads l f ?d) dev = (case map_of f dev of None \<Rightarrow> head_seq ?d dev | Some s \<Rightarrow> max s (head_seq ?d dev))"
      using Cons.IH[of ?d] Cons.prems(1) by simp
    have step: "raise_heads l (p # f) d' = raise_heads l f ?d" by (simp add: raise_heads_def p)
    show ?case
    proof (cases "dev = i")
      case True
      then have "map_of f dev = None" using Cons.prems(1) p by (simp add: map_of_eq_None_iff)
      then show ?thesis unfolding step ih using True p by (simp only: heads) simp
    next
      case False
      then show ?thesis unfolding step ih using p by (simp only: heads) simp
    qed
  qed (simp add: raise_heads_def)
  from this[of d] assms(2) show ?thesis by simp
qed

lemma bootstrap_heads:
  assumes "map_ok (sync_heads d)" "map_ok (mfFrontier m)"
  shows "head_seq (bootstrap_db H now m es d) dev =
     (case map_of (mfFrontier m) dev of None \<Rightarrow> head_seq d dev | Some s \<Rightarrow> max s (head_seq d dev))"
proof -
  let ?d1 = "insert_all H now (map (mark_tombstoned (tombstonedIndex d)) es) d"
  have "\<forall>i. fget (HeadGet ?d1) i = head_seq ?d1 i" using HeadGet_fget[of ?d1] assms(1) by simp
  from raise_heads_head[OF assms(2) this, of dev] show ?thesis unfolding bootstrap_db_parts Let_def insert_all_frame .
qed

section \<open>Tombstones of the database\<close>

lemma tombstonedIndex_ids: "i \<in> set (fst (tombstonedIndex d)) \<longleftrightarrow> (\<exists>e \<in> set (view d). eDeleted e \<and> eID e = i)"
  by (auto simp: tombstonedIndex_def Let_def view_def scanEntries_def)

lemma tombstonedIndex_origins:
  assumes "e \<in> set (view d)" "eDeleted e" "eOriginDeviceID e \<noteq> []" "eOriginSeq e = Some s"
  shows "origin_key (eOriginDeviceID e) s \<in> set (snd (tombstonedIndex d))"
proof -
  obtain r where r: "r \<in> set (history d)" "e = scanEntry d r" using assms(1) by (auto simp: set_view)
  then have "h_origin_device_id r = Some (eOriginDeviceID e)" "h_origin_seq r = Some s" "h_deleted r"
    using assms(2-4) by (auto simp: stringOf_def split: option.splits)
  then show ?thesis
    using r(1) assms(3) unfolding tombstonedIndex_def Let_def snd_conv List.map_filter_def set_map set_filter
    by (intro image_eqI[of _ _ r]) auto
qed

text \<open>Two entries are the same command run: the same id, or the same origin.\<close>

definition same_run :: "entry \<Rightarrow> entry \<Rightarrow> bool" where
  "same_run a b \<longleftrightarrow> eID a = eID b
     \<or> eOriginDeviceID a \<noteq> [] \<and> eOriginSeq a \<noteq> None \<and> eOriginDeviceID a = eOriginDeviceID b \<and> eOriginSeq a = eOriginSeq b"

lemma mark_tombstoned_simps [simp]:
  "eID (mark_tombstoned idx e) = eID e" "eOriginDeviceID (mark_tombstoned idx e) = eOriginDeviceID e"
  "eOriginSeq (mark_tombstoned idx e) = eOriginSeq e"
  by (simp_all add: mark_tombstoned_def)

lemma mark_tombstoned_deleted:
  assumes "e \<in> set (view d)" "eDeleted e" "same_run e x"
  shows "eDeleted (mark_tombstoned (tombstonedIndex d) x)"
proof (cases "eID e = eID x")
  case True
  then show ?thesis using tombstonedIndex_ids[of "eID x" d] assms by (auto simp: mark_tombstoned_def)
next
  case False
  then have o: "eOriginDeviceID e \<noteq> []" "eOriginSeq e \<noteq> None" "eOriginDeviceID e = eOriginDeviceID x" "eOriginSeq e = eOriginSeq x"
    using assms(3) unfolding same_run_def by blast+
  then obtain s where s: "eOriginSeq e = Some s" by blast
  have "origin_key (eOriginDeviceID x) s \<in> set (snd (tombstonedIndex d))" "eOriginDeviceID x \<noteq> []" "eOriginSeq x = Some s"
    using tombstonedIndex_origins[OF assms(1,2) o(1) s] o s by simp_all
  then show ?thesis by (simp add: mark_tombstoned_def)
qed

lemma same_run_unique:
  assumes "history_ok H d" "a \<in> set (view d)" "b \<in> set (view d)" "same_run a b"
  shows "a = b"
proof -
  obtain r r' where r: "r \<in> set (history d)" "a = scanEntry d r" "r' \<in> set (history d)" "b = scanEntry d r'"
    using assms(2,3) by (auto simp: set_view)
  have "row_conflict r r'"
    using assms(4) r by (auto simp: same_run_def row_conflict_def stringOf_def split: option.splits)
  moreover have "\<lbrakk>no_conflicts rows; x \<in> set rows; y \<in> set rows; row_conflict x y\<rbrakk> \<Longrightarrow> x = y" for rows x y
    by (induction rows) (auto simp: no_conflicts_def row_conflict_def)
  ultimately show ?thesis using r assms(1) by (auto simp: history_ok_def)
qed

section \<open>Properties\<close>

text \<open>C24: Starting from a checkpoint never brings back what was deleted locally: after it, every row that is the same run as a
  deleted row, by its id or by its origin, is deleted. Heads never go back: each is the larger of its old value and
  the frontier of the checkpoint.\<close>

theorem bootstrap_keeps_local_deletions:
  assumes "history_ok H d" "map_ok (sync_heads d)" "map_ok (mfFrontier m)"
  shows "(\<forall>e \<in> set (view d). \<forall>e' \<in> set (view (bootstrap_db H now m entries d)). eDeleted e \<longrightarrow> same_run e e' \<longrightarrow> eDeleted e')
     \<and> (\<forall>dev. head_seq (bootstrap_db H now m entries d) dev =
          (case map_of (mfFrontier m) dev of None \<Rightarrow> head_seq d dev | Some s \<Rightarrow> max s (head_seq d dev)))"
proof -
  let ?marked = "map (mark_tombstoned (tombstonedIndex d)) entries"
  have v: "set (view (bootstrap_db H now m entries d)) \<subseteq> set (view d) \<union> norm_entry now ` set ?marked"
    using insert_all_view[OF assms(1), of now ?marked] by (simp add: bootstrap_db_parts Let_def)
  have "eDeleted e'" if e: "e \<in> set (view d)" "eDeleted e" "e' \<in> set (view (bootstrap_db H now m entries d))" "same_run e e'" for e e'
  proof (cases "e' \<in> set (view d)")
    case True
    then show ?thesis using same_run_unique[OF assms(1) e(1) True e(4)] e(2) by simp
  next
    case False
    then obtain x where x: "e' = norm_entry now (mark_tombstoned (tombstonedIndex d) x)" using v e(3) by auto
    then have "same_run e x" using e(4) by (simp add: same_run_def)
    then show ?thesis using mark_tombstoned_deleted[OF e(1,2)] x by simp
  qed
  then show ?thesis using bootstrap_heads[OF assms(2,3)] by blast
qed

text \<open>A deletion that only the checkpoint knows is lost. If an entry is live locally and the snapshot carries the same id as
  deleted, the entry is still live after the bootstrap, and every event the frontier covers, the tombstone included,
  is skipped from then on.\<close>

theorem bootstrap_loses_remote_deletion:
  assumes "history_ok H d" "map_ok (sync_heads d)" "map_ok (mfFrontier m)"
    and "e \<in> set (view d)" "\<not> eDeleted e" "x \<in> set entries" "eID x = eID e" "eDeleted x"
    and "map_of (mfFrontier m) (evDeviceID ev) = Some n" "evSeq ev \<le> n"
  shows "let d' = bootstrap_db H now m entries d
         in e \<in> set (view d') \<and> \<not> eDeleted e \<and> applyEvents N d' cs [ev] = ((d', cs), None)"
proof -
  let ?d = "bootstrap_db H now m entries d"
  have "e \<in> set (view ?d)"
    using insert_all_view[OF assms(1), of now "map (mark_tombstoned (tombstonedIndex d)) entries"] assms(4)
    by (auto simp: bootstrap_db_parts Let_def)
  moreover have "known ?d ev" using assms(9,10) bootstrap_heads[OF assms(2,3)] by (auto simp: known_def)
  then have "applyEvents N ?d cs [ev] = ((?d, cs), None)"
    using apply_events_known[of "[ev]" ?d N cs] by (simp add: applyEvents_def)
  ultimately show ?thesis using assms(5) by (simp add: Let_def)
qed

section \<open>Publishing twice\<close>

lemma max_seq_ge: "max_seq xs = Some m \<Longrightarrow> x \<in> set xs \<Longrightarrow> x \<le> m"
  using fold_max_ge by (cases xs) (fastforce simp: max_seq_def)+

lemma max_seq_in: "max_seq xs = Some m \<Longrightarrow> m \<in> set xs"
proof -
  have "fold max ys x \<in> insert x (set ys)" for ys and x :: int
  proof (induction ys arbitrary: x)
    case (Cons y ys)
    from Cons.IH[of "max y x"] show ?case by (auto simp: max_def split: if_splits)
  qed simp
  then show "max_seq xs = Some m \<Longrightarrow> m \<in> set xs" by (cases xs) (auto simp: max_seq_def)
qed

definition opt_max :: "int option \<Rightarrow> int \<Rightarrow> int" where
  "opt_max v n = (case v of None \<Rightarrow> n | Some x \<Rightarrow> max n x)"

abbreviation event_max :: "string \<Rightarrow> db \<Rightarrow> int option" where
  "event_max dev d \<equiv> max_seq (map ev_seq (filter (\<lambda>r. ev_device_id r = dev) (sync_events d)))"

abbreviation origin_max :: "string \<Rightarrow> db \<Rightarrow> int option" where
  "origin_max dev d \<equiv> max_seq (List.map_filter h_origin_seq (filter (\<lambda>r. h_origin_device_id r = Some dev) (history d)))"

lemma localMaxSeq_eq: "localMaxSeq dev d = opt_max (origin_max dev d) (opt_max (head_of d dev) (opt_max (event_max dev d) 0))"
  by (simp add: localMaxSeq_def Let_def opt_max_def max_def split: option.splits)

lemma opt_max_ge: "n \<le> opt_max v n" "v = Some x \<Longrightarrow> x \<le> opt_max v n" "n \<le> k \<Longrightarrow> opt_max v n \<le> opt_max v k"
  "n \<le> k \<Longrightarrow> (\<And>x. v = Some x \<Longrightarrow> x \<le> k) \<Longrightarrow> opt_max v n \<le> k"
  by (auto simp: opt_max_def split: option.splits)

text \<open>The database after a publication: the events the heads cover are gone, the own head is at the published number.\<close>

definition published_db :: "string \<Rightarrow> string \<Rightarrow> int \<Rightarrow> db \<Rightarrow> db" where
  "published_db key dev m d = CompactUpToHeads (HeadSet (state_put d key (show_int m)) dev m)"

lemma published_localMax: "localMaxSeq dev (published_db key dev (localMaxSeq dev d) d) = localMaxSeq dev d"
proof -
  let ?M = "localMaxSeq dev d" let ?d = "published_db key dev ?M d"
  have le: "0 \<le> ?M" "\<And>x. event_max dev d = Some x \<Longrightarrow> x \<le> ?M" "\<And>x. head_of d dev = Some x \<Longrightarrow> x \<le> ?M"
    "\<And>x. origin_max dev d = Some x \<Longrightarrow> x \<le> ?M"
    unfolding localMaxSeq_eq using opt_max_ge(1,2) order_trans by meson+
  have h: "head_of ?d dev = Some ?M"
    using le(3) by (auto simp: published_db_def CompactUpToHeads_def HeadSet_def state_put_def head_of_def map_of_put split: option.splits)
  have o: "origin_max dev ?d = origin_max dev d" by (simp add: published_db_def CompactUpToHeads_def state_put_def)
  have ev: "x \<le> ?M" if "event_max dev ?d = Some x" for x
  proof -
    have "x \<in> set (map ev_seq (filter (\<lambda>r. ev_device_id r = dev) (sync_events d)))"
      using max_seq_in[OF that] by (auto simp: published_db_def CompactUpToHeads_def state_put_def)
    moreover from this obtain y where "event_max dev d = Some y"
      by (cases "map ev_seq (filter (\<lambda>r. ev_device_id r = dev) (sync_events d))") (auto simp: max_seq_def)
    ultimately show ?thesis using max_seq_ge le(2) by fastforce
  qed
  have "opt_max (event_max dev ?d) 0 \<le> ?M" using le(1) ev by (rule opt_max_ge(4))
  then have "opt_max (head_of ?d dev) (opt_max (event_max dev ?d) 0) = ?M" by (simp add: h opt_max_def)
  moreover have "opt_max (origin_max dev d) ?M = ?M" using le(4) by (auto simp: opt_max_def split: option.splits)
  ultimately show ?thesis using localMaxSeq_eq[of dev ?d] o by simp
qed

text \<open>Publishing the local events twice publishes nothing new: after a successful call another one changes nothing.\<close>

theorem publishLocal_idempotent:
  assumes "publishLocal N o' smk gid e = (e', None)" "localMaxSeq (opDeviceID o') (enDb e) < 2 ^ 63"
  shows "publishLocal N o' smk gid e' = (e', None)"
proof -
  let ?M = "localMaxSeq (opDeviceID o') (enDb e)"
  let ?d = "published_db (publishedSeqKey o') (opDeviceID o') ?M (enDb e)"
  consider "e' = e" | "enDb e' = ?d"
    using assms(1)
    by (auto simp: publishLocal_def Let_def seq_step_def put_step_def published_db_def
        split: if_splits sum.splits prod.splits option.splits)
  then show ?thesis
  proof cases
    case 1
    then show ?thesis using assms(1) by simp
  next
    case 2
    have "0 \<le> ?M" unfolding localMaxSeq_eq using opt_max_ge(1) order_trans by meson
    then have "last_published o' ?d = ?M"
      using assms(2) ParseInt_show_int[of ?M]
      by (simp add: last_published_def published_db_def state_get_def state_put_def CompactUpToHeads_def map_of_put)
    then show ?thesis using published_localMax[of "opDeviceID o'" "publishedSeqKey o'" "enDb e"] 2
      by (simp add: publishLocal_def Let_def)
  qed
qed

subsection \<open>Concrete runs\<close>

definition boot_manifest :: manifest where
  "boot_manifest = \<lparr>mfVersion = 1, mfID = ''c'', mfGenerationID = ''g'', mfFrontier = [(''B'', 2)], mfCreatedAt = 9\<rparr>"

lemma query_db_heads: "sync_heads query_db = []"
  by code_simp

theorem bootstrap_keeps_local_deletions_witness:
  "head_seq (bootstrap_db query_hash 8 boot_manifest [query_entry ''1'' ''ls'' 10] (Tombstone query_db ''1'')) ''B'' = 2
   \<and> filter (\<lambda>e. eID e = ''1'' \<and> \<not> eDeleted e) (view (bootstrap_db query_hash 8 boot_manifest [query_entry ''1'' ''ls'' 10] (Tombstone query_db ''1''))) = []"
proof -
  let ?d = "Tombstone query_db ''1''"
  have ok: "history_ok query_hash ?d" "map_ok (sync_heads ?d)" "map_ok (mfFrontier boot_manifest)"
    using query_db_ok by (simp_all add: query_db_heads boot_manifest_def)
  have "filter (\<lambda>e. eDeleted e \<and> eID e = ''1'') (view ?d) \<noteq> []" by code_simp
  then obtain e where e: "e \<in> set (view ?d)" "eDeleted e" "eID e = ''1''" by (auto simp: filter_empty_conv)
  have r: "same_run e e'" if "eID e' = ''1''" for e' using e that by (simp add: same_run_def)
  show ?thesis
    using bootstrap_keeps_local_deletions[OF ok, of 8 "[query_entry ''1'' ''ls'' 10]"] e r
    by (auto simp: filter_empty_conv boot_manifest_def query_db_heads get_default_def)
qed

theorem bootstrap_loses_remote_deletion_witness:
  "let d' = bootstrap_db query_hash 8 boot_manifest [(query_entry ''1'' ''ls'' 10)\<lparr>eDeleted := True\<rparr>] query_db
   in (\<exists>e \<in> set (view d'). eID e = ''1'' \<and> \<not> eDeleted e) \<and> applyEvents (demo_pull_env 9) d' empty_cs [pull_tombB] = ((d', empty_cs), None)"
proof -
  have ok: "history_ok query_hash query_db" "map_ok (sync_heads query_db)" "map_ok (mfFrontier boot_manifest)"
    using query_db_ok by (simp_all add: query_db_heads boot_manifest_def)
  have "filter (\<lambda>e. \<not> eDeleted e \<and> eID e = ''1'') (view query_db) \<noteq> []" by code_simp
  then obtain e where e: "e \<in> set (view query_db)" "\<not> eDeleted e" "eID e = ''1''" by (auto simp: filter_empty_conv)
  have ev: "map_of (mfFrontier boot_manifest) (evDeviceID pull_tombB) = Some 2" "evSeq pull_tombB \<le> 2"
    by (simp_all add: boot_manifest_def pull_tombB_def demo_event_def)
  have x: "(query_entry ''1'' ''ls'' 10)\<lparr>eDeleted := True\<rparr> \<in> set [(query_entry ''1'' ''ls'' 10)\<lparr>eDeleted := True\<rparr>]"
    "eID ((query_entry ''1'' ''ls'' 10)\<lparr>eDeleted := True\<rparr>) = eID e" "eDeleted ((query_entry ''1'' ''ls'' 10)\<lparr>eDeleted := True\<rparr>)"
    using e by (simp_all add: query_entry_def)
  from bootstrap_loses_remote_deletion[OF ok e(1,2) x ev, of 8 "demo_pull_env 9" empty_cs] e(3)
  show ?thesis by (auto simp: Let_def)
qed

definition pub_cbor :: bundle_cbor where
  "pub_cbor = \<lparr>marshal_events = (\<lambda>_. Inr [1]), unmarshal_events = (\<lambda>_. Inl (Errorf ''cbor'')), marshal_header = (\<lambda>_. Inr []),
     marshal_file = (\<lambda>_. Inr [9]), unmarshal_file = (\<lambda>_. Inl (Errorf ''cbor''))\<rparr>"

definition demo_sync_env :: "(bytes option) sync_env" where
  "demo_sync_env = \<lparr>snPull = (demo_pull_env 9)\<lparr>pnBundle := pub_cbor\<rparr>, snKey = demo_key_env, snCodec = demo_remote_codec, snGc = demo_gc_codec,
     snSnap = demo_snapshot_codec, snOps = demo_ops, snBegin = (\<lambda>s. (s, None)), snEnd = (\<lambda>s. (s, None)), snDedupe = (\<lambda>s. (s, None)),
     snSha = (\<lambda>b. b), snAck = (\<lambda>_. Inr [7]), snManifest = (\<lambda>_. Inr [8]), snFido = ([], None)\<rparr>"

definition demo_options :: options where
  "demo_options = \<lparr>opDeviceID = ''A'', opDeviceName = ''laptop'', opHostname = ''h'', opEndpointID = [], opEndpointName = [],
     opUnlock = \<lparr>unRecoverySecret = [4], unTokens = [], unFIDO2 = []\<rparr>, opCachedSMKs = []\<rparr>"

definition demo_engine :: "(bytes option) engine" where
  "demo_engine = \<lparr>enDb = (case EnqueueHistoryCreated demo_cbor 9 ''A'' query_db (query_entry ''1'' ''ls'' 10) of Inr d \<Rightarrow> d | Inl _ \<Rightarrow> empty_db),
     enKeys = demo_keydb, enRemote = None, enChanges = empty_cs\<rparr>"

theorem publishLocal_idempotent_witness:
  "\<exists>e'. publishLocal demo_sync_env demo_options demo_key ''g'' demo_engine = (e', None) \<and> enRemote e' = Some [9]
     \<and> publishLocal demo_sync_env demo_options demo_key ''g'' e' = (e', None)"
proof -
  let ?r = "publishLocal demo_sync_env demo_options demo_key ''g'' demo_engine"
  have "snd ?r = None \<and> enRemote (fst ?r) = Some [9]" by code_simp
  then obtain e' where p: "?r = (e', None)" "enRemote e' = Some [9]" by (metis prod.collapse)
  have "localMaxSeq (opDeviceID demo_options) (enDb demo_engine) = 1" by code_simp
  then show ?thesis using publishLocal_idempotent[OF p(1)] p by simp
qed

end
