(* ===== verification/Sync.thy ===== *)
theory Sync
  imports Bootstrap
begin

text \<open>
  The whole engine: unlocking the generations, \<^verbatim>\<open>Sync\<close>, publishing generations, retiring and pruning devices
  (\<^verbatim>\<open>internal/sync/syncer/engine.go\<close>, \<^verbatim>\<open>init.go\<close>, \<^verbatim>\<open>recover.go\<close>) and rotating the master key (\<^verbatim>\<open>rotate.go\<close>).
\<close>

section \<open>Unlocking\<close>

definition trusted_by_manifest :: "key_env \<Rightarrow> remote_codec \<Rightarrow> keydb \<Rightarrow> bytes \<Rightarrow> string \<Rightarrow> bool" where
  "trusted_by_manifest K R kd smk kind \<longleftrightarrow>
     HasPrefix kind ''remote'' \<and> length (TrustedPayload kd kind) \<noteq> 0
     \<and> (case unjson_remote R (TrustedPayload kd kind) of Inl _ \<Rightarrow> False | Inr rm \<Rightarrow> VerifyRemote K R rm smk = None)"

definition cachedSMKValid :: "key_env \<Rightarrow> remote_codec \<Rightarrow> keydb \<Rightarrow> gen_manifest \<Rightarrow> bytes \<Rightarrow> bool" where
  "cachedSMKValid K R kd g smk =
     (if length smk = 0 then False
      else if Verify K g smk = None then True
      else if \<not> gmActive g then True
      else list_ex (trusted_by_manifest K R kd smk) (TrustedKinds kd))"

fun cached_keys :: "key_env \<Rightarrow> remote_codec \<Rightarrow> keydb \<Rightarrow> (string \<times> bytes) list \<Rightarrow> gen_manifest list \<Rightarrow>
    (string \<times> bytes) list \<times> gen_manifest option \<Rightarrow> (string \<times> bytes) list \<times> gen_manifest option" where
  "cached_keys K R kd cache [] acc = acc"
| "cached_keys K R kd cache (g # gs) (out, active) =
     (case map_of cache (gmGenerationID g) of
        None \<Rightarrow> cached_keys K R kd cache gs (out, active)
      | Some smk \<Rightarrow>
          if cachedSMKValid K R kd g smk
          then cached_keys K R kd cache gs (map_put (gmGenerationID g) smk out, if gmActive g then Some g else active)
          else cached_keys K R kd cache gs (out, active))"

fun unwrap_keys :: "key_env \<Rightarrow> unlock \<Rightarrow> go_error option \<Rightarrow> gen_manifest list \<Rightarrow> (string \<times> bytes) list \<Rightarrow> gen_manifest option \<Rightarrow>
    ((string \<times> bytes) list \<times> gen_manifest option) result" where
  "unwrap_keys K u hidErr [] out active = Inr (out, active)"
| "unwrap_keys K u hidErr (g # gs) out active =
     (if map_of out (gmGenerationID g) \<noteq> None then unwrap_keys K u hidErr gs out active
      else (case UnwrapAny K (gmSlots g) u of
              Inr (smk, _) \<Rightarrow>
                unwrap_keys K u hidErr gs (map_put (gmGenerationID g) smk out) (if gmActive g then Some g else active)
            | Inl err \<Rightarrow>
                if gmActive g then
                  Inl (Wrapped (''unlock generation '' @ gmGenerationID g)
                    (case hidErr of
                       Some he \<Rightarrow> if length (OfType (gmSlots g) TypeFIDO2Hmac) > 0 \<and> length (unRecoverySecret u) = 0
                                     \<and> length (unTokens u) = 0 then he else err
                     | None \<Rightarrow> err))
                else unwrap_keys K u hidErr gs out active))"

text \<open>\<^verbatim>\<open>fidoDevices\<close>: the given authenticators, else those found, and only if some generation has a FIDO2 slot.\<close>

definition fidoDevices :: "fido_device list option \<Rightarrow> fido_device list \<times> go_error option \<Rightarrow> gen_manifest list \<Rightarrow> fido_device list \<times> go_error option" where
  "fidoDevices given opened gens =
     (case given of
        Some devs \<Rightarrow> (devs, None)
      | None \<Rightarrow> if list_ex (\<lambda>g. length (OfType (gmSlots g) TypeFIDO2Hmac) > 0) gens
                then (if snd opened = None then opened else ([], snd opened)) else ([], None))"

definition unlockAll :: "'s sync_env \<Rightarrow> options \<Rightarrow> keydb \<Rightarrow> ((string \<times> bytes) list \<times> gen_manifest) result" where
  "unlockAll N o' kd =
     (let gens = Generations kd;
          (out, active) = cached_keys (snKey N) (snCodec N) kd (opCachedSMKs o') gens ([], None)
      in case active of
           Some g \<Rightarrow> Inr (out, g)
         | None \<Rightarrow>
             (let given = (if unFIDO2 (opUnlock o') = [] then None else Some (unFIDO2 (opUnlock o')));
                  (fido, hidErr) = fidoDevices given (snFido N) gens
              in bind_result (unwrap_keys (snKey N) ((opUnlock o')\<lparr>unFIDO2 := fido\<rparr>) hidErr gens out None) (\<lambda>(out', active').
                   case active' of
                     None \<Rightarrow> Inl (Errorf ''no active key generation'')
                   | Some g \<Rightarrow> Inr (out', g))))"

section \<open>Sync\<close>

definition metadata_step :: "'s sync_env \<Rightarrow> options \<Rightarrow> 's step" where
  "metadata_step N o' e =
     (case pullMetadata (snKey N) (snCodec N) (snGc N) (opDeviceID o') (trustKind o') (remote_of N e) (enKeys e, devices (enDb e)) of
        ((kd, devs), err) \<Rightarrow> (e\<lparr>enKeys := kd, enDb := (enDb e)\<lparr>devices := devs\<rparr>\<rparr>, err))"

definition bundles_step :: "'s sync_env \<Rightarrow> (string \<times> bytes) list \<Rightarrow> 's step" where
  "bundles_step N smks e =
     (case pullBundles (snPull N) (remote_of N e) smks (enDb e, enChanges e) of
        ((d, cs), err) \<Rightarrow> (e\<lparr>enDb := d, enChanges := cs\<rparr>, err))"

definition remote_step :: "('s \<Rightarrow> 's \<times> go_error option) \<Rightarrow> 's step" where
  "remote_step f e = (case f (enRemote e) of (rem, err) \<Rightarrow> (e\<lparr>enRemote := rem\<rparr>, err))"

text \<open>What follows \<^verbatim>\<open>Begin\<close> in \<^verbatim>\<open>Sync\<close>.\<close>

definition sync_body :: "'s sync_env \<Rightarrow> options \<Rightarrow> 's step" where
  "sync_body N o' e =
     seq_step (\<lambda>e. (e\<lparr>enChanges := empty_cs\<rparr>, None))
    (seq_step (remote_step (snDedupe N))
    (seq_step (metadata_step N o')
     (\<lambda>e1. case unlockAll N o' (enKeys e1) of
        Inl err \<Rightarrow> (e1, Some err)
      | Inr (smks, active) \<Rightarrow>
          seq_step (pullCheckpoint N o' smks)
         (seq_step (bundles_step N smks)
         (seq_step (publishLocal N o' (get_default [] smks (gmGenerationID active)) (gmGenerationID active))
         (seq_step (publishAck N o' []) (publishDeviceRecord N o' (opDeviceID o'))))) e1))) e"

text \<open>\<^verbatim>\<open>withRemote\<close> and the start of \<^verbatim>\<open>Sync\<close>: \<^verbatim>\<open>End\<close> runs after the body whatever its outcome, and its error is dropped.\<close>

definition withRemote :: "'s sync_env \<Rightarrow> 's step \<Rightarrow> 's step" where
  "withRemote N fn =
     seq_step (remote_step (snBegin N))
       (\<lambda>e1. case fn e1 of (e2, err) \<Rightarrow> (fst (remote_step (snEnd N) e2), err))"

definition Sync :: "'s sync_env \<Rightarrow> options \<Rightarrow> 's step" where
  "Sync N o' = withRemote N (sync_body N o')"

section \<open>Publishing generations, retiring and pruning\<close>

definition publishGenerationMaterial :: "'s sync_env \<Rightarrow> gen_manifest \<Rightarrow> 's step" where
  "publishGenerationMaterial N m e =
     (case json_gen (snKey N) m of
        Inl err \<Rightarrow> (e, Some err)
      | Inr body \<Rightarrow> put_step N (path_join [''keys'', ''generations'', gmGenerationID m, ''manifest'']) body e)"

definition roster_step :: "'s sync_env \<Rightarrow> options \<Rightarrow> string \<Rightarrow> int \<Rightarrow> bytes \<Rightarrow> bytes \<Rightarrow> string list \<Rightarrow> 's step" where
  "roster_step N o' gen counter signSMK verifySMK extraPruned e =
     (case publishRemoteRoster (snKey N) (snCodec N) (snOps N) (opDeviceID o') (trustKind o') (devices (enDb e)) gen counter
             signSMK verifySMK extraPruned (enKeys e, enRemote e) of
        ((kd, rem), err) \<Rightarrow> (e\<lparr>enKeys := kd, enRemote := rem\<rparr>, err))"

definition put_generation_step :: "'s sync_env \<Rightarrow> gen_manifest \<Rightarrow> 's step" where
  "put_generation_step N m e =
     (case putGeneration (now_of N) (enKeys e) m of
        Inl err \<Rightarrow> (e, Some err)
      | Inr kd \<Rightarrow> (e\<lparr>enKeys := kd\<rparr>, None))"

definition publishGeneration :: "'s sync_env \<Rightarrow> options \<Rightarrow> gen_manifest \<Rightarrow> bytes \<Rightarrow> string list \<Rightarrow> 's step" where
  "publishGeneration N o' m smk extraPruned =
     seq_step (put_generation_step N m)
    (seq_step (publishGenerationMaterial N m)
     (roster_step N o' (gmGenerationID m) (gmCounter m) smk smk extraPruned))"

definition publish_active :: "'s sync_env \<Rightarrow> options \<Rightarrow> string \<Rightarrow> string list \<Rightarrow> 's step" where
  "publish_active N o' what extraPruned e =
     (case unlockAll N o' (enKeys e) of
        Inl err \<Rightarrow> (e, Some (Wrapped what err))
      | Inr (smks, active) \<Rightarrow> publishGeneration N o' active (get_default [] smks (gmGenerationID active)) extraPruned e)"

definition RetireDevice :: "'s sync_env \<Rightarrow> options \<Rightarrow> string \<Rightarrow> gotime \<Rightarrow> 's step" where
  "RetireDevice N o' i at =
     withRemote N
      (seq_step (\<lambda>e. case Retire (devices (enDb e)) i at of (devs, err) \<Rightarrow> (e\<lparr>enDb := (enDb e)\<lparr>devices := devs\<rparr>\<rparr>, err))
      (seq_step (publishDeviceRecord N o' i)
      (seq_step (remote_step (\<lambda>s. roRemove (snOps N) s (path_join [''acks'', i @ ''.ack''])))
       (publish_active N o' ''unlock to publish retirement'' []))))"

definition removeRemoteDeviceArtifacts :: "'s sync_env \<Rightarrow> string \<Rightarrow> 's step" where
  "removeRemoteDeviceArtifacts N i =
     seq_step (remote_step (\<lambda>s. DeleteIfExists (roRemove (snOps N)) s (path_join [''metadata'', ''devices'', i @ ''.json''])))
    (seq_step (remote_step (\<lambda>s. DeleteIfExists (roRemove (snOps N)) s (path_join [''acks'', i @ ''.ack''])))
     (remote_step (\<lambda>s. DeleteIfExists (roRemove (snOps N)) s (path_join [''events'', i]))))"

definition pruneCleanupError :: "string \<Rightarrow> go_error \<Rightarrow> go_error" where
  "pruneCleanupError i err = Wrapped (''device was pruned from the manifest, but remote cleanup failed '' @ i) err"

definition PruneDevice :: "'s sync_env \<Rightarrow> options \<Rightarrow> string \<Rightarrow> 's step" where
  "PruneDevice N o' i =
     (if i = opDeviceID o' then (\<lambda>e. (e, Some (Errorf (''cannot prune this device ('' @ i @ '')''))))
      else withRemote N
       (seq_step (publish_active N o' ''unlock to publish prune'' [i])
       (seq_step (\<lambda>e. case removeRemoteDeviceArtifacts N i e of (e', err) \<Rightarrow> (e', map_option (pruneCleanupError i) err))
        (\<lambda>e. (e\<lparr>enDb := (enDb e)\<lparr>devices := device_DeleteIfExists (devices (enDb e)) i\<rparr>\<rparr>, None)))))"

section \<open>Recovering a generation\<close>

definition recover_local :: "gotime \<Rightarrow> gen_manifest \<Rightarrow> gen_manifest list \<Rightarrow> keydb \<Rightarrow> keydb \<times> go_error option" where
  "recover_local now gen gens kd =
     fold (\<lambda>g (kd, err).
         if err \<noteq> None then (kd, err)
         else if gmGenerationID g = gmGenerationID gen then (kd, None)
         else if gmSeq g = gmSeq gen then (DeleteGeneration kd (gmGenerationID g), None)
         else if gmActive g then
           (case putGeneration now kd (g\<lparr>gmActive := False\<rparr>) of Inl er \<Rightarrow> (kd, Some er) | Inr kd' \<Rightarrow> (kd', None))
         else (kd, None))
       gens (kd, None)"

definition recover_roster :: "'s sync_env \<Rightarrow> options \<Rightarrow> 's step" where
  "recover_roster N o' e =
     (case importWantedDevices (snGc N) (snCodec N) (now_of N) (opDeviceID o') (remote_of N e) (devices (enDb e)) of
        Inl err \<Rightarrow> (e, Some err)
      | Inr devs \<Rightarrow>
          (let devs' = (case getBytes (remote_of N e) ''metadata/manifest'' of
                 Inl _ \<Rightarrow> devs
               | Inr b \<Rightarrow> (case unjson_remote (snCodec N) b of
                     Inl _ \<Rightarrow> devs
                   | Inr rm \<Rightarrow> applyPruned (opDeviceID o') (rmPruned rm) (applyRetired (now_of N) (rmRetired rm) devs)))
           in (e\<lparr>enDb := (enDb e)\<lparr>devices := devs'\<rparr>\<rparr>, None)))"

definition recover_target :: "'s sync_env \<Rightarrow> string \<Rightarrow> 's engine \<Rightarrow> gen_manifest result" where
  "recover_target N generationID e =
     bind_result
       (if generationID \<noteq> [] then Inr generationID
        else bind_result (NewestCheckpoint (snGc N) (remote_of N e)) (\<lambda>m. case m of
               None \<Rightarrow> Inl (Errorf ''specify a generation id; no checkpoint found on the remote'')
             | Some m \<Rightarrow> Inr (mfGenerationID m)))
       (\<lambda>gid. case getBytes (remote_of N e) (path_join [''keys'', ''generations'', gid, ''manifest'']) of
          Inl err \<Rightarrow> Inl (Wrapped (''read generation '' @ gid) err)
        | Inr raw \<Rightarrow> (case unjson_gen (snCodec N) raw of
              Inl err \<Rightarrow> Inl (Wrapped (''generation manifest '' @ gid) err)
            | Inr gen \<Rightarrow> Inr (gen\<lparr>gmActive := True\<rparr>)))"

definition RecoverGeneration :: "'s sync_env \<Rightarrow> options \<Rightarrow> string \<Rightarrow> 's engine \<Rightarrow> 's engine \<times> gen_manifest result" where
  "RecoverGeneration N o' generationID e =
     (case seq_step (remote_step (snDedupe N)) (recover_roster N o') e of
        (e1, Some err) \<Rightarrow> (e1, Inl err)
      | (e1, None) \<Rightarrow> (case recover_target N generationID e1 of
          Inl err \<Rightarrow> (e1, Inl err)
        | Inr gen \<Rightarrow>
            (case seq_step (\<lambda>e. case recover_local (now_of N) gen (Generations (enKeys e)) (enKeys e) of (kd, err) \<Rightarrow> (e\<lparr>enKeys := kd\<rparr>, err))
                    (put_generation_step N gen) e1 of
               (e2, Some err) \<Rightarrow> (e2, Inl err)
             | (e2, None) \<Rightarrow> (case unlockAll N o' (enKeys e2) of
                 Inl err \<Rightarrow> (e2, Inl (Wrapped (''unlock recovered generation '' @ gmGenerationID gen) err))
               | Inr (smks, active) \<Rightarrow>
                   (case seq_step (publishGeneration N o' active (get_default [] smks (gmGenerationID active)) [])
                          (seq_step (pullCheckpoint N o' smks) (publishDeviceRecord N o' (opDeviceID o'))) e2 of
                      (e3, Some err) \<Rightarrow> (e3, Inl err)
                    | (e3, None) \<Rightarrow> (e3, Inr active))))))"

section \<open>Rotating the master key\<close>

definition rotationNotCommitted :: "go_error \<Rightarrow> go_error" where
  "rotationNotCommitted err = Wrapped ''key rotation was not committed'' err"

definition rememberSMKs :: "(string \<times> bytes) list \<Rightarrow> options \<Rightarrow> options" where
  "rememberSMKs smks o' =
     o'\<lparr>opCachedSMKs := fold (\<lambda>(i, smk) c. if length smk = 0 then c else map_put i smk c) smks (opCachedSMKs o')\<rparr>"

definition valid_key :: "'s sync_env \<Rightarrow> keydb \<Rightarrow> gen_manifest \<Rightarrow> (string \<times> bytes) list \<Rightarrow> bytes option" where
  "valid_key N kd m smks =
     (case map_of smks (gmGenerationID m) of
        None \<Rightarrow> None
      | Some smk \<Rightarrow> if length smk > 0 \<and> cachedSMKValid (snKey N) (snCodec N) kd m smk then Some smk else None)"

definition smkFor :: "'s sync_env \<Rightarrow> options \<Rightarrow> keydb \<Rightarrow> gen_manifest \<Rightarrow> (string \<times> bytes) list \<Rightarrow> bytes result" where
  "smkFor N o' kd m smks =
     (case valid_key N kd m smks of
        Some smk \<Rightarrow> Inr smk
      | None \<Rightarrow>
          (case valid_key N kd m (opCachedSMKs o') of
             Some smk \<Rightarrow> Inr smk
           | None \<Rightarrow> bind_result (UnwrapAny (snKey N) (gmSlots m) (opUnlock o')) (\<lambda>(smk, _). Inr smk)))"

fun decode_generations :: "remote_codec \<Rightarrow> (string \<times> bytes) list \<Rightarrow> gen_manifest list result" where
  "decode_generations R [] = Inr []"
| "decode_generations R ((key, body) # raw) =
     (if \<not> HasSuffix key ''/manifest'' then decode_generations R raw
      else (case unjson_gen R body of
              Inl e \<Rightarrow> Inl (Wrapped (''generation manifest '' @ key) e)
            | Inr m \<Rightarrow> bind_result (decode_generations R raw) (\<lambda>ms. Inr (m # ms))))"

definition listRemoteGenerations :: "'s sync_env \<Rightarrow> 's engine \<Rightarrow> gen_manifest list result" where
  "listRemoteGenerations N e = bind_result (readAll (remote_of N e) ''keys/generations'') (decode_generations (snCodec N))"

definition loadRemoteManifest :: "'s sync_env \<Rightarrow> 's engine \<Rightarrow> remote_manifest option result" where
  "loadRemoteManifest N e =
     (case getBytes (remote_of N e) ''metadata/manifest'' of
        Inl _ \<Rightarrow> Inr None
      | Inr raw \<Rightarrow> bind_result (unjson_remote (snCodec N) raw) (\<lambda>rm. Inr (Some rm)))"

definition generationsAtSeq :: "gen_manifest list \<Rightarrow> int \<Rightarrow> gen_manifest list" where
  "generationsAtSeq gens seq = filter (\<lambda>g. gmSeq g = seq) gens"

definition findGeneration :: "gen_manifest list \<Rightarrow> string \<Rightarrow> gen_manifest option" where
  "findGeneration gens i = find (\<lambda>g. gmGenerationID g = i) gens"

definition rejectConflictingSeq :: "gen_manifest list \<Rightarrow> string \<Rightarrow> go_error option" where
  "rejectConflictingSeq atSeq expectedID =
     (if expectedID = [] then
        (if length atSeq > 1 then Some (Errorf (''conflicting generations claim seq '' @ show_int (gmSeq (atSeq ! 0)))) else None)
      else (case find (\<lambda>g. gmGenerationID g \<noteq> expectedID) atSeq of
              None \<Rightarrow> None
            | Some g \<Rightarrow> Some (Errorf (''conflicting generation '' @ gmGenerationID g @ '' also claims seq '' @ show_int (gmSeq g)))))"

definition verifyNewGeneration :: "'s sync_env \<Rightarrow> options \<Rightarrow> gen_manifest \<Rightarrow> bytes \<Rightarrow> go_error option" where
  "verifyNewGeneration N o' m smk =
     (case Verify (snKey N) m smk of
        Some e \<Rightarrow> Some (Wrapped ''verify new generation'' e)
      | None \<Rightarrow>
          (case UnwrapAny (snKey N) (gmSlots m) (opUnlock o') of
             Inl e \<Rightarrow> Some (Wrapped ''new generation is not recoverable'' e)
           | Inr (got, _) \<Rightarrow> if got \<noteq> smk then Some (Errorf ''new generation slot unwrap mismatch'') else None))"

text \<open>\<^verbatim>\<open>_ = e.keys.SetRotationPhase(phase)\<close>: the error is dropped.\<close>

definition phase_step :: "'s sync_env \<Rightarrow> string \<Rightarrow> 's engine \<Rightarrow> 's engine" where
  "phase_step N ph e = (case SetRotationPhase (now_of N) (enKeys e) ph of Inl _ \<Rightarrow> e | Inr kd \<Rightarrow> e\<lparr>enKeys := kd\<rparr>)"

definition activateRotatedGeneration :: "'s sync_env \<Rightarrow> options \<Rightarrow> gen_manifest \<Rightarrow> bytes \<Rightarrow> bytes \<Rightarrow> 's step" where
  "activateRotatedGeneration N o' nextG oldSMK newSMK e =
     (let (e1, putErr) = roster_step N o' (gmGenerationID nextG) (gmCounter nextG) newSMK oldSMK [] e;
          committed = (case loadRemoteManifest N e1 of
              Inr (Some rm) \<Rightarrow> VerifyRemote (snKey N) (snCodec N) rm newSMK = None \<and> rmActiveGeneration rm = gmGenerationID nextG
            | _ \<Rightarrow> False)
      in if committed then (phase_step N RotationManifestCommitted e1, None)
         else (case putErr of
                 Some err \<Rightarrow> (e1, Some (rotationNotCommitted (Wrapped ''failed to activate new generation'' err)))
               | None \<Rightarrow> (phase_step N RotationManifestCommitted e1, None)))"

definition reconcileRotatedLocal :: "'s sync_env \<Rightarrow> gen_manifest \<Rightarrow> gen_manifest \<Rightarrow> 's engine \<Rightarrow> 's engine" where
  "reconcileRotatedLocal N old nextG e =
     e\<lparr>enKeys := PromoteRotation (now_of N) (enKeys e) (gmGenerationID old) (gmGenerationID nextG)\<rparr>"

definition finishRotation :: "'s sync_env \<Rightarrow> options \<Rightarrow> gen_manifest \<Rightarrow> gen_manifest \<Rightarrow> bytes \<Rightarrow> bytes \<Rightarrow> 's step" where
  "finishRotation N o' old nextG oldSMK newSMK e =
     (case Sign (snKey N) (nextG\<lparr>gmActive := True\<rparr>) newSMK of
        Inl err \<Rightarrow> (e, Some (rotationNotCommitted err))
      | Inr pub \<Rightarrow>
          (case publishGenerationMaterial N pub e of
             (e1, Some err) \<Rightarrow> (e1, Some (rotationNotCommitted (Wrapped ''failed to publish new generation'' err)))
           | (e1, None) \<Rightarrow>
               (case activateRotatedGeneration N o' nextG oldSMK newSMK (phase_step N RotationGenerationPublished e1) of
                  (e2, Some err) \<Rightarrow> (e2, Some err)
                | (e2, None) \<Rightarrow> (phase_step N RotationComplete (reconcileRotatedLocal N old nextG e2), None))))"

text \<open>The pair of generations a journal names; a missing new generation is taken from the remote.\<close>

definition loadJournalPair :: "'s sync_env \<Rightarrow> options \<Rightarrow> rotation \<Rightarrow> (string \<times> bytes) list \<Rightarrow> gen_manifest list \<Rightarrow> 's engine \<Rightarrow>
    's engine \<times> (gen_manifest \<times> gen_manifest \<times> bytes \<times> bytes) result" where
  "loadJournalPair N o' rot smks remoteGens e =
     (case Generation (enKeys e) (roOldGenerationID rot) of
        None \<Rightarrow> (e, Inl (rotationNotCommitted (Errorf (''in-progress rotation is missing old generation '' @ roOldGenerationID rot))))
      | Some old \<Rightarrow>
          (let (e1, found) =
             (case Generation (enKeys e) (roNewGenerationID rot) of
                Some g \<Rightarrow> (e, Inr g)
              | None \<Rightarrow>
                  (case findGeneration remoteGens (roNewGenerationID rot) of
                     None \<Rightarrow> (e, Inl (rotationNotCommitted (Errorf (''in-progress rotation generation '' @ roNewGenerationID rot @ '' is missing''))))
                   | Some g \<Rightarrow>
                       (case put_generation_step N (g\<lparr>gmActive := False\<rparr>) e of
                          (e', Some err) \<Rightarrow> (e', Inl (rotationNotCommitted err))
                        | (e', None) \<Rightarrow> (e', Inr (g\<lparr>gmActive := False\<rparr>)))))
           in (e1, bind_result found (\<lambda>nextG.
                (case smkFor N o' (enKeys e1) old smks of
                   Inl err \<Rightarrow> Inl (rotationNotCommitted err)
                 | Inr oldSMK \<Rightarrow>
                     (case smkFor N o' (enKeys e1) nextG smks of
                        Inl err \<Rightarrow> Inl (rotationNotCommitted err)
                      | Inr newSMK \<Rightarrow> Inr (old, nextG, oldSMK, newSMK)))))))"

text \<open>A generation the remote already selects; \<open>None\<close> when it is ours or its manifest does not verify.\<close>

definition remoteAheadOfLocal :: "'s sync_env \<Rightarrow> options \<Rightarrow> gen_manifest \<Rightarrow> (string \<times> bytes) list \<Rightarrow> remote_manifest \<Rightarrow> 's engine \<Rightarrow>
    (gen_manifest \<times> bytes) option result" where
  "remoteAheadOfLocal N o' local smks rm e =
     (let gid = rmActiveGeneration rm
      in if gid = [] \<or> gid = gmGenerationID local then Inr None
         else bind_result
           (case Generation (enKeys e) gid of
              Some g \<Rightarrow> Inr g
            | None \<Rightarrow>
                (case getBytes (remote_of N e) (path_join [''keys'', ''generations'', gid, ''manifest'']) of
                   Inl _ \<Rightarrow> Inl (Errorf (''remote already selects generation '' @ gid))
                 | Inr raw \<Rightarrow> unjson_gen (snCodec N) raw))
           (\<lambda>nextG.
              case smkFor N o' (enKeys e) nextG smks of
                Inl _ \<Rightarrow> Inl (Errorf (''remote already selects generation '' @ gid @ '', which this device cannot unlock''))
              | Inr smk \<Rightarrow>
                  if VerifyRemote (snKey N) (snCodec N) rm smk \<noteq> None then Inr None
                  else Inr (Some (nextG\<lparr>gmActive := False\<rparr>, smk))))"

definition stage_step :: "'s sync_env \<Rightarrow> gen_manifest \<Rightarrow> gen_manifest \<Rightarrow> string \<Rightarrow> 's step" where
  "stage_step N nextG old encoded e =
     (case StageRotation (now_of N) (enKeys e) nextG old encoded of
        Inl err \<Rightarrow> (e, Some err)
      | Inr kd \<Rightarrow> (e\<lparr>enKeys := kd\<rparr>, None))"

text \<open>Staging and finishing a candidate, with the outcome of \<^verbatim>\<open>rotateGeneration\<close>: the encoded recovery key and the error.\<close>

definition stage_and_finish :: "'s sync_env \<Rightarrow> options \<Rightarrow> gen_manifest \<Rightarrow> gen_manifest \<Rightarrow> bytes \<Rightarrow> bytes \<Rightarrow> string \<Rightarrow> 's engine \<Rightarrow>
    's engine \<times> string \<times> go_error option" where
  "stage_and_finish N o' old nextG oldSMK newSMK encoded e =
     (case stage_step N nextG old encoded e of
        (e1, Some err) \<Rightarrow> (e1, [], Some (rotationNotCommitted err))
      | (e1, None) \<Rightarrow> (case finishRotation N o' old nextG oldSMK newSMK e1 of (e2, err) \<Rightarrow> (e2, encoded, err)))"

definition rotate_fresh :: "'s sync_env \<Rightarrow> options \<Rightarrow> (string \<times> bytes) list \<Rightarrow> gen_manifest \<Rightarrow> gen_manifest list \<Rightarrow> 's engine \<Rightarrow>
    's engine \<times> string \<times> go_error option" where
  "rotate_fresh N o' smks active remoteGens e =
     (let atSeq = generationsAtSeq remoteGens (gmSeq active + 1); oldSMK = get_default [] smks (gmGenerationID active)
      in case rejectConflictingSeq atSeq [] of
           Some err \<Rightarrow> (e, [], Some err)
         | None \<Rightarrow>
             if length atSeq = 1 then
               (let cand = atSeq ! 0
                in case smkFor N o' (enKeys e) cand smks of
                     Inl _ \<Rightarrow> (e, [], Some (Errorf (''a generation with seq '' @ show_int (gmSeq cand) @ '' already exists'')))
                   | Inr smk \<Rightarrow> stage_and_finish N o' active (cand\<lparr>gmActive := False\<rparr>) oldSMK smk [] e)
             else (case NewGenerationFromSlots (snKey N) active
                          (if unRecoverySecret (opUnlock o') = [] then None else Some (unRecoverySecret (opUnlock o')))
                          (unTokens (opUnlock o')) (unFIDO2 (opUnlock o')) of
                     Inl err \<Rightarrow> (e, [], Some (rotationNotCommitted err))
                   | Inr (nextG, newSMK, encoded) \<Rightarrow>
                       (case verifyNewGeneration N o' nextG newSMK of
                          Some err \<Rightarrow> (e, [], Some (rotationNotCommitted err))
                        | None \<Rightarrow> stage_and_finish N o' active nextG oldSMK newSMK encoded e)))"

definition rotateGeneration :: "'s sync_env \<Rightarrow> options \<Rightarrow> 's engine \<Rightarrow> 's engine \<times> string \<times> go_error option" where
  "rotateGeneration N o0 e =
     (case unlockAll N o0 (enKeys e) of
        Inl err \<Rightarrow> (e, [], Some (rotationNotCommitted err))
      | Inr (smks, active) \<Rightarrow>
          (let o' = rememberSMKs smks o0
           in case listRemoteGenerations N e of
                Inl err \<Rightarrow> (e, [], Some (rotationNotCommitted err))
              | Inr remoteGens \<Rightarrow>
                  (case loadRemoteManifest N e of
                     Inl err \<Rightarrow> (e, [], Some (rotationNotCommitted err))
                   | Inr rm \<Rightarrow>
                       (case key_rotation (enKeys e) of
                          Some rot \<Rightarrow>
                            (case loadJournalPair N o' rot smks remoteGens e of
                               (e1, Inl err) \<Rightarrow> (e1, [], Some err)
                             | (e1, Inr (old, nextG, oldSMK, newSMK)) \<Rightarrow>
                                 (case rejectConflictingSeq (generationsAtSeq remoteGens (roNewSeq rot)) (roNewGenerationID rot) of
                                    Some err \<Rightarrow> (e1, [], Some err)
                                  | None \<Rightarrow> (case finishRotation N o' old nextG oldSMK newSMK e1 of (e2, err) \<Rightarrow> (e2, roRecoveryBech32 rot, err))))
                        | None \<Rightarrow>
                            (case (case rm of None \<Rightarrow> Inr None | Some m \<Rightarrow> remoteAheadOfLocal N o' active smks m e) of
                               Inl err \<Rightarrow> (e, [], Some err)
                             | Inr (Some (nextG, newSMK)) \<Rightarrow>
                                 (let oldSMK = get_default [] smks (gmGenerationID active)
                                  in case stage_step N nextG active [] e of
                                       (e1, Some err) \<Rightarrow>
                                         if Generation (enKeys e1) (gmGenerationID nextG) = None then (e1, [], Some (rotationNotCommitted err))
                                         else (case finishRotation N o' active nextG oldSMK newSMK e1 of (e2, err2) \<Rightarrow> (e2, [], err2))
                                     | (e1, None) \<Rightarrow> (case finishRotation N o' active nextG oldSMK newSMK e1 of (e2, err2) \<Rightarrow> (e2, [], err2)))
                             | Inr None \<Rightarrow> rotate_fresh N o' smks active remoteGens e)))))"

definition RotateGeneration :: "'s sync_env \<Rightarrow> options \<Rightarrow> 's engine \<Rightarrow> 's engine \<times> string \<times> go_error option" where
  "RotateGeneration N o' e =
     (case remote_step (snBegin N) e of
        (e1, Some err) \<Rightarrow> (e1, [], Some err)
      | (e1, None) \<Rightarrow> (case rotateGeneration N o' e1 of (e2, encoded, err) \<Rightarrow> (fst (remote_step (snEnd N) e2), encoded, err)))"

section \<open>Facts about unlocking and rotating\<close>

lemma phase_step_frame [simp]:
  "enDb (phase_step N ph e) = enDb e" "enRemote (phase_step N ph e) = enRemote e"
  "key_generations (enKeys (phase_step N ph e)) = key_generations (enKeys e)"
  "key_slots (enKeys (phase_step N ph e)) = key_slots (enKeys e)"
  by (auto simp: phase_step_def SetRotationPhase_def split: sum.splits option.splits)

lemma active_ids_cong: "key_generations d = key_generations d' \<Longrightarrow> active_ids d = active_ids d'"
  by (simp add: active_ids_def)

lemma roster_step_frame:
  assumes "roster_step N o' g c k1 k2 xs e = (e1, err)"
  shows "key_generations (enKeys e1) = key_generations (enKeys e)" "enDb e1 = enDb e"
  using assms by (auto simp: roster_step_def publishRemoteRoster_def Let_def SetTrusted_def
      split: prod.splits sum.splits option.splits)

lemma put_step_frame:
  assumes "put_step N key b e = (e1, err)"
  shows "enKeys e1 = enKeys e" "enDb e1 = enDb e" "enChanges e1 = enChanges e"
  using assms by (auto simp: put_step_def split: prod.splits)

lemma publishGenerationMaterial_frame:
  "publishGenerationMaterial N m e = (e1, err) \<Longrightarrow> enKeys e1 = enKeys e \<and> enDb e1 = enDb e"
  using put_step_frame by (fastforce simp: publishGenerationMaterial_def split: sum.splits)

lemma activate_frame:
  assumes "activateRotatedGeneration N o' g k1 k2 e = (e1, err)"
  shows "key_generations (enKeys e1) = key_generations (enKeys e)"
proof -
  obtain e0 pe where r: "roster_step N o' (gmGenerationID g) (gmCounter g) k2 k1 [] e = (e0, pe)" by (metis surj_pair)
  have "e1 = e0 \<or> e1 = phase_step N RotationManifestCommitted e0"
    using assms r by (auto simp: activateRotatedGeneration_def Let_def split: if_splits option.splits)
  then show ?thesis using roster_step_frame(1)[OF r] by auto
qed

lemma cached_keys_active:
  assumes "cached_keys K R kd cache gs (out, active) = (out', Some g)"
    and "\<And>g. active = Some g \<Longrightarrow> gmActive g \<and> g \<in> A \<and>
      (\<exists>smk. map_of out (gmGenerationID g) = Some smk \<and> map_of cache (gmGenerationID g) = Some smk \<and> cachedSMKValid K R kd g smk)"
    and "set gs \<subseteq> A"
  shows "gmActive g \<and> g \<in> A \<and>
    (\<exists>smk. map_of out' (gmGenerationID g) = Some smk \<and> map_of cache (gmGenerationID g) = Some smk \<and> cachedSMKValid K R kd g smk)"
  using assms
proof (induction gs arbitrary: out active)
  case (Cons h gs)
  show ?case
  proof (cases "\<exists>smk. map_of cache (gmGenerationID h) = Some smk \<and> cachedSMKValid K R kd h smk")
    case True
    then obtain smk where smk: "map_of cache (gmGenerationID h) = Some smk" "cachedSMKValid K R kd h smk" by blast
    show ?thesis
    proof (rule Cons.IH)
      show "cached_keys K R kd cache gs (map_put (gmGenerationID h) smk out, if gmActive h then Some h else active) = (out', Some g)"
        using Cons.prems(1) smk by simp
      show "set gs \<subseteq> A" using Cons.prems(3) by simp
      fix x assume x: "(if gmActive h then Some h else active) = Some x"
      show "gmActive x \<and> x \<in> A \<and> (\<exists>k. map_of (map_put (gmGenerationID h) smk out) (gmGenerationID x) = Some k
          \<and> map_of cache (gmGenerationID x) = Some k \<and> cachedSMKValid K R kd x k)"
        using x smk Cons.prems(2)[of x] Cons.prems(3) by (auto simp: map_of_put split: if_splits)
    qed
  next
    case False
    then have "cached_keys K R kd cache gs (out, active) = (out', Some g)"
      using Cons.prems(1) by (auto split: option.splits)
    then show ?thesis using Cons.IH Cons.prems(2,3) by simp
  qed
qed simp

lemma unwrap_keys_active:
  assumes "unwrap_keys K u he gs out active = Inr (out', Some g)"
    and "\<And>g. active = Some g \<Longrightarrow> gmActive g \<and> g \<in> A \<and>
      (\<exists>smk sl. map_of out (gmGenerationID g) = Some smk \<and> UnwrapAny K (gmSlots g) u = Inr (smk, sl))"
    and "set gs \<subseteq> A"
  shows "gmActive g \<and> g \<in> A \<and> (\<exists>smk sl. map_of out' (gmGenerationID g) = Some smk \<and> UnwrapAny K (gmSlots g) u = Inr (smk, sl))"
  using assms
proof (induction gs arbitrary: out active)
  case (Cons h gs)
  show ?case
  proof (cases "map_of out (gmGenerationID h) = None \<and> (\<exists>r. UnwrapAny K (gmSlots h) u = Inr r)")
    case True
    then obtain smk sl where smk: "map_of out (gmGenerationID h) = None" "UnwrapAny K (gmSlots h) u = Inr (smk, sl)" by auto
    show ?thesis
    proof (rule Cons.IH)
      show "unwrap_keys K u he gs (map_put (gmGenerationID h) smk out) (if gmActive h then Some h else active) = Inr (out', Some g)"
        using Cons.prems(1) smk by simp
      show "set gs \<subseteq> A" using Cons.prems(3) by simp
      fix x assume x: "(if gmActive h then Some h else active) = Some x"
      show "gmActive x \<and> x \<in> A \<and> (\<exists>k sl. map_of (map_put (gmGenerationID h) smk out) (gmGenerationID x) = Some k
          \<and> UnwrapAny K (gmSlots x) u = Inr (k, sl))"
        using x smk Cons.prems(2)[of x] Cons.prems(3) by (cases "gmActive h") (auto simp: map_of_put)
    qed
  next
    case False
    then have "unwrap_keys K u he gs out active = Inr (out', Some g)"
      using Cons.prems(1) by (auto split: if_splits sum.splits)
    then show ?thesis using Cons.IH Cons.prems(2,3) by simp
  qed
qed simp

section \<open>Properties\<close>

text \<open>The key that unlocking returns for the active generation is one the store has a reason to trust: a cached key that
  passed the check, or one that an active slot of that generation unwraps under the credentials given.\<close>

theorem unlockAll_active_key:
  assumes "unlockAll N o' kd = Inr (out, g)"
  shows "g \<in> set (Generations kd) \<and> gmActive g
     \<and> (\<exists>smk. map_of out (gmGenerationID g) = Some smk \<and>
          ((map_of (opCachedSMKs o') (gmGenerationID g) = Some smk \<and> cachedSMKValid (snKey N) (snCodec N) kd g smk)
           \<or> (\<exists>fido sl. UnwrapAny (snKey N) (gmSlots g) ((opUnlock o')\<lparr>unFIDO2 := fido\<rparr>) = Inr (smk, sl))))"
proof -
  obtain out0 active where c: "cached_keys (snKey N) (snCodec N) kd (opCachedSMKs o') (Generations kd) ([], None) = (out0, active)"
    by (metis surj_pair)
  show ?thesis
  proof (cases active)
    case (Some g')
    then have "g' = g" "out0 = out" using assms c by (simp_all add: unlockAll_def Let_def)
    then show ?thesis using cached_keys_active[OF c[unfolded Some], of "set (Generations kd)"] by auto
  next
    case None
    then obtain fido he where "unwrap_keys (snKey N) ((opUnlock o')\<lparr>unFIDO2 := fido\<rparr>) he (Generations kd) out0 None = Inr (out, Some g)"
      using assms c by (auto simp: unlockAll_def Let_def bind_result_Inr split: option.splits prod.splits)
    from unwrap_keys_active[OF this, of "set (Generations kd)"] show ?thesis by auto
  qed
qed


text \<open>A remote whose manifest was rolled back stops \<^verbatim>\<open>Sync\<close> before it changes anything: database and key tables are as before,
  and the remote has only seen the start, the clean-up of duplicates and the end of the session.\<close>

theorem Sync_stops_at_rollback:
  assumes "snBegin N (enRemote e) = (r1, None)" "snDedupe N r1 = (r2, None)"
    and "getBytes (roView (snOps N) r2) ''metadata/manifest'' = Inr b" "unjson_remote (snCodec N) b = Inr rm"
    and "rmCounter rm < TrustedCounter (enKeys e) (trustKind o')"
  shows "\<exists>err. Sync N o' e = (e\<lparr>enRemote := fst (snEnd N r2), enChanges := empty_cs\<rparr>, Some err)"
proof -
  obtain err where "pullMetadata (snKey N) (snCodec N) (snGc N) (opDeviceID o') (trustKind o') (roView (snOps N) r2)
      (enKeys e, devices (enDb e)) = ((enKeys e, devices (enDb e)), Some err)"
    using pullMetadata_rollback[OF assms(3,4)] assms(5) by fastforce
  then have "sync_body N o' (e\<lparr>enRemote := r1\<rparr>) = (e\<lparr>enRemote := r2, enChanges := empty_cs\<rparr>, Some err)"
    using assms(2) by (simp add: sync_body_def seq_step_def remote_step_def metadata_step_def)
  then show ?thesis
    using assms(1) by (simp add: Sync_def withRemote_def seq_step_def remote_step_def split_beta)
qed

lemma seq_step_frame:
  assumes "\<And>e e1 err. f e = (e1, err) \<Longrightarrow> P e1 = P e" "\<And>e e1 err. g e = (e1, err) \<Longrightarrow> P e1 = P e"
  shows "seq_step f g e = (e', err) \<Longrightarrow> P e' = P e"
proof -
  assume s: "seq_step f g e = (e', err)"
  obtain e1 er where f: "f e = (e1, er)" by (metis surj_pair)
  then show "P e' = P e" using s assms(1)[OF f] assms(2)[of e1] by (cases er) (auto simp: seq_step_def)
qed

lemma remote_step_db: "remote_step f e = (e1, err) \<Longrightarrow> enDb e1 = enDb e"
  by (auto simp: remote_step_def split: prod.splits)

lemma publishGeneration_db: "publishGeneration N o' m smk xs e = (e1, err) \<Longrightarrow> enDb e1 = enDb e"
  unfolding publishGeneration_def
proof (rule seq_step_frame[where P = enDb])
  show "put_generation_step N m e = (e1, err) \<Longrightarrow> enDb e1 = enDb e" for e e1 err
    by (auto simp: put_generation_step_def split: sum.splits)
  show "seq_step (publishGenerationMaterial N m) (roster_step N o' (gmGenerationID m) (gmCounter m) smk smk xs) e = (e1, err)
      \<Longrightarrow> enDb e1 = enDb e" for e e1 err
    by (rule seq_step_frame[where P = enDb, rotated 2]) (auto dest: publishGenerationMaterial_frame roster_step_frame(2))
qed

lemma publish_active_db: "publish_active N o' what xs e = (e1, err) \<Longrightarrow> enDb e1 = enDb e"
  using publishGeneration_db by (fastforce simp: publish_active_def split: sum.splits)

lemma removeArtifacts_db: "removeRemoteDeviceArtifacts N i e = (e1, err) \<Longrightarrow> enDb e1 = enDb e"
  unfolding removeRemoteDeviceArtifacts_def
  by (rule seq_step_frame[where P = enDb], erule remote_step_db,
      rule seq_step_frame[where P = enDb], erule remote_step_db, erule remote_step_db, assumption+)

lemma seq_step_cases:
  assumes "seq_step f g e = (e', err)"
  obtains "f e = (e', err)" "err \<noteq> None" | e1 where "f e = (e1, None)" "g e1 = (e', err)"
proof -
  obtain e1 er where "f e = (e1, er)" by (metis surj_pair)
  then show thesis using assms that by (cases er) (auto simp: seq_step_def)
qed

text \<open>C25: A prune never touches this device, and forgets the device locally only when the whole prune succeeded: any error leaves
  the registry as it was, so the prune can be retried.\<close>

theorem PruneDevice_all_or_nothing:
  assumes "PruneDevice N o' i e = (e', err)"
  shows "(err = None \<longrightarrow> i \<noteq> opDeviceID o' \<and> device_Get (devices (enDb e')) i = None)
     \<and> (err \<noteq> None \<longrightarrow> enDb e' = enDb e)"
proof (cases "i = opDeviceID o'")
  case True
  then show ?thesis using assms by (auto simp: PruneDevice_def)
next
  case False
  define clean where "clean = (\<lambda>e. case removeRemoteDeviceArtifacts N i e of (e', err) \<Rightarrow> (e', map_option (pruneCleanupError i) err))"
  define forget where "forget = (\<lambda>e :: 'a engine. (e\<lparr>enDb := (enDb e)\<lparr>devices := device_DeleteIfExists (devices (enDb e)) i\<rparr>\<rparr>, None :: go_error option))"
  have clean: "clean e = (e1, er) \<Longrightarrow> enDb e1 = enDb e" for e e1 er
    using removeArtifacts_db by (fastforce simp: clean_def split: prod.splits)
  let ?body = "seq_step (publish_active N o' ''unlock to publish prune'' [i]) (seq_step clean forget)"
  have w: "withRemote N ?body e = (e', err)" using assms False by (simp add: PruneDevice_def clean_def forget_def)
  show ?thesis
  proof (cases rule: seq_step_cases[OF w[unfolded withRemote_def]])
    case 1
    then show ?thesis using remote_step_db by auto
  next
    case (2 e1)
    obtain e2 er where b0: "?body e1 = (e2, er)" by (metis surj_pair)
    have b: "?body e1 = (e2, err)" "enDb e' = enDb e2"
      using 2(2) unfolding b0 by (auto simp: remote_step_def split: prod.splits)
    have d1: "enDb e1 = enDb e" using remote_step_db[OF 2(1)] .
    show ?thesis
    proof (cases rule: seq_step_cases[OF b(1)])
      case 1
      then show ?thesis using publish_active_db[OF 1(1)] d1 b(2) by auto
    next
      case (2 e3)
      have d3: "enDb e3 = enDb e" using publish_active_db[OF 2(1)] d1 by simp
      show ?thesis
      proof (cases rule: seq_step_cases[OF 2(2)])
        case 1
        then show ?thesis using clean[OF 1(1)] d3 b(2) by auto
      next
        case (2 e4)
        then show ?thesis using False b(2) by (auto simp: forget_def device_Get_def device_DeleteIfExists_def find_None_iff)
      qed
    qed
  qed
qed

subsection \<open>Concrete runs\<close>

definition demo_kd :: keydb where
  "demo_kd = (case putGeneration 3 empty_keydb demo_gen of Inr d \<Rightarrow> d | Inl _ \<Rightarrow> empty_keydb)"

theorem unlockAll_active_key_witness:
  "\<exists>out g smk. unlockAll demo_sync_env demo_options demo_kd = Inr (out, g) \<and> g \<in> set (Generations demo_kd)
     \<and> map_of out (gmGenerationID g) = Some smk"
proof -
  have "\<not> isl (unlockAll demo_sync_env demo_options demo_kd)" by code_simp
  then obtain out g where r: "unlockAll demo_sync_env demo_options demo_kd = Inr (out, g)"
    by (cases "unlockAll demo_sync_env demo_options demo_kd") auto
  from unlockAll_active_key[OF r] r show ?thesis by blast
qed

definition rotating_engine :: "(bytes option) engine" where
  "rotating_engine = demo_engine\<lparr>enKeys :=
     (case StageRotation 4 demo_keydb (demo_gen_of ''g2'' 2) (demo_gen_of ''g1'' 1) ''r'' of Inr d \<Rightarrow> d | Inl _ \<Rightarrow> empty_keydb)\<rparr>"


definition rolled_back_engine :: "(bytes option) engine" where
  "rolled_back_engine = demo_engine\<lparr>enKeys := SetTrusted 1 demo_keydb (trustKind demo_options) ''g1'' 7 [] [], enRemote := Some [5]\<rparr>"

theorem Sync_stops_at_rollback_witness:
  "\<exists>err. Sync demo_sync_env demo_options rolled_back_engine = (rolled_back_engine, Some err)"
proof -
  have t: "TrustedCounter (enKeys rolled_back_engine) (trustKind demo_options) = 7"
    by (simp add: rolled_back_engine_def TrustedCounter_SetTrusted)
  have "\<exists>err. Sync demo_sync_env demo_options rolled_back_engine
     = (rolled_back_engine\<lparr>enRemote := fst (snEnd demo_sync_env (Some [5])), enChanges := empty_cs\<rparr>, Some err)"
    by (rule Sync_stops_at_rollback[where ?r1.0 = "Some [5]" and b = "[5]" and rm = forged_manifest])
      (simp_all add: t, simp_all add: demo_sync_env_def rolled_back_engine_def demo_ops_def getBytes_def manifest_transport_def
         demo_remote_codec_def forged_manifest_def)
  then show ?thesis by (simp add: demo_sync_env_def rolled_back_engine_def demo_engine_def)
qed

definition pruning_engine :: "(bytes option) engine" where
  "pruning_engine = demo_engine\<lparr>enKeys := demo_kd, enDb := (enDb demo_engine)\<lparr>devices := demo_devices\<rparr>\<rparr>"

theorem PruneDevice_all_or_nothing_witness:
  "\<exists>e'. PruneDevice demo_sync_env demo_options ''B'' pruning_engine = (e', None)
     \<and> device_Get (devices (enDb pruning_engine)) ''B'' \<noteq> None \<and> device_Get (devices (enDb e')) ''B'' = None"
proof -
  let ?r = "PruneDevice demo_sync_env demo_options ''B'' pruning_engine"
  have "snd ?r = None" by code_simp
  then obtain e' where r: "?r = (e', None)" by (metis prod.collapse)
  have "device_Get (devices (enDb pruning_engine)) ''B'' \<noteq> None" by code_simp
  with PruneDevice_all_or_nothing[OF r] r show ?thesis by simp
qed

end
