(* ===== verification/Directory.thy ===== *)
theory Directory
  imports Transport
begin

text \<open>
  The directory transport (\<^verbatim>\<open>internal/transport/directory/directory.go\<close>): a remote that is a directory of the file system.
  The state is the content of \<^verbatim>\<open>t.Root\<close>: named entries in the order \<^verbatim>\<open>os.ReadDir\<close> gives, by name, each a file with its bytes
  or a directory; a root that does not exist yet has no entries. The operations of \<^verbatim>\<open>os\<close> and \<^verbatim>\<open>path/filepath\<close> the code uses
  are functions on this tree, and the points where the operating system may fail a write are a parameter.
\<close>

section \<open>The file system\<close>

datatype node = File bytes | Dir "(string \<times> node) list"

type_synonym entries = "(string \<times> node) list"

definition not_dir :: go_error where
  "not_dir = IOFault ''not a directory''"

definition is_dir :: go_error where
  "is_dir = IOFault ''is a directory''"

fun set_child :: "string \<Rightarrow> node \<Rightarrow> entries \<Rightarrow> entries" where
  "set_child c n [] = [(c, n)]"
| "set_child c n ((k, m) # es) =
     (if c = k then (c, n) # es else if c < k then (c, n) # (k, m) # es else (k, m) # set_child c n es)"

fun stat :: "node \<Rightarrow> string list \<Rightarrow> node result" where
  "stat n [] = Inr n"
| "stat (File _) (c # cs) = Inl not_dir"
| "stat (Dir es) (c # cs) = (case map_of es c of None \<Rightarrow> Inl NotExist | Some m \<Rightarrow> stat m cs)"

fun mkdirAll :: "node \<Rightarrow> string list \<Rightarrow> node result" where
  "mkdirAll (File _) cs = Inl not_dir"
| "mkdirAll (Dir es) [] = Inr (Dir es)"
| "mkdirAll (Dir es) (c # cs) =
     bind_result (mkdirAll (case map_of es c of None \<Rightarrow> Dir [] | Some m \<Rightarrow> m) cs) (\<lambda>m. Inr (Dir (set_child c m es)))"

text \<open>\<open>in_dir p f\<close> changes the entries of the directory \<open>p\<close>.\<close>

fun in_dir :: "string list \<Rightarrow> (entries \<Rightarrow> entries) \<Rightarrow> node \<Rightarrow> node" where
  "in_dir p f (File b) = File b"
| "in_dir [] f (Dir es) = Dir (f es)"
| "in_dir (c # cs) f (Dir es) = (case map_of es c of None \<Rightarrow> Dir es | Some m \<Rightarrow> Dir (set_child c (in_dir cs f m) es))"

definition del_child :: "string \<Rightarrow> entries \<Rightarrow> entries" where
  "del_child c es = filter (\<lambda>e. fst e \<noteq> c) es"

fun walk :: "string list \<Rightarrow> node \<Rightarrow> (string list \<times> bytes) list" where
  "walk p (File b) = [(p, b)]"
| "walk p (Dir es) = concat (map (\<lambda>(c, m). walk (p @ [c]) m) es)"

section \<open>The transport\<close>

definition resolve :: "string \<Rightarrow> string list result" where
  "resolve key =
     (let clean = drop 1 (path_clean (CHR ''/'' # key))
      in if Contains clean ''..'' then Inl (Errorf ''invalid key'')
         else Inr (if clean = [] then [] else Split clean (CHR ''/'')))"

definition resolve_prefix :: "string \<Rightarrow> string list result" where
  "resolve_prefix pre = (if pre = [] then Inr [] else resolve pre)"

definition tmp_name :: "string \<Rightarrow> bool" where
  "tmp_name name \<longleftrightarrow> HasSuffix name ''.tmp'' \<or> Contains name ''.tmp-''"

definition dir_List :: "entries \<Rightarrow> string \<Rightarrow> object list result" where
  "dir_List es pre =
     bind_result (resolve_prefix pre) (\<lambda>p.
       case stat (Dir es) p of
         Inl e \<Rightarrow> if is_not_exist e then Inr [] else Inl e
       | Inr n \<Rightarrow>
           Inr (map (\<lambda>(q, b). \<lparr>obKey = join_path q, obSize = int (length b)\<rparr>)
             (filter (\<lambda>(q, b). \<not> (HasSuffix (join_path q) ''.tmp'' \<or> Contains (last q) ''.tmp-'')) (walk p n))))"

text \<open>\<^verbatim>\<open>strings.TrimSuffix(strings.TrimPrefix(prefix, "/"), "/")\<close>, and the key of an entry under it.\<close>

definition prefix_base :: "string \<Rightarrow> string" where
  "prefix_base pre =
     (let s = (if HasPrefix pre ''/'' then drop 1 pre else pre)
      in if HasSuffix s ''/'' then butlast s else s)"

definition child_key :: "string \<Rightarrow> string \<Rightarrow> string" where
  "child_key pre name = (if prefix_base pre = [] then name else prefix_base pre @ ''/'' @ name)"

text \<open>\<^verbatim>\<open>os.ReadDir\<close>: a missing directory reads as empty here.\<close>

definition read_dir :: "entries \<Rightarrow> string \<Rightarrow> entries result" where
  "read_dir es pre =
     bind_result (resolve_prefix pre) (\<lambda>p.
       case stat (Dir es) p of
         Inl e \<Rightarrow> if is_not_exist e then Inr [] else Inl e
       | Inr (File _) \<Rightarrow> Inl not_dir
       | Inr (Dir cs) \<Rightarrow> Inr (filter (\<lambda>(name, _). \<not> tmp_name name) cs))"

definition dir_ListShallow :: "entries \<Rightarrow> string \<Rightarrow> object list result" where
  "dir_ListShallow es pre =
     bind_result (read_dir es pre) (\<lambda>cs.
       Inr (List.map_filter (\<lambda>(name, n). case n of File b \<Rightarrow> Some \<lparr>obKey = child_key pre name, obSize = int (length b)\<rparr> | Dir _ \<Rightarrow> None) cs))"

definition dir_ListDirs :: "entries \<Rightarrow> string \<Rightarrow> string list result" where
  "dir_ListDirs es pre =
     bind_result (read_dir es pre) (\<lambda>cs.
       Inr (List.map_filter (\<lambda>(name, n). case n of Dir _ \<Rightarrow> Some (child_key pre name) | File _ \<Rightarrow> None) cs))"

definition dir_Get :: "entries \<Rightarrow> string \<Rightarrow> bytes result" where
  "dir_Get es key =
     bind_result (resolve key) (\<lambda>p. bind_result (stat (Dir es) p) (\<lambda>n. case n of File b \<Rightarrow> Inr b | Dir _ \<Rightarrow> Inl is_dir))"

text \<open>
  What the operating system makes of one put: the name \<^verbatim>\<open>uuid.NewString\<close> gives, the failure of the copy, the sync, the close or the
  rename, what was written by then, and whether removing the temporary file fails as well.
\<close>

record put_faults =
  pfUUID :: string
  pfWrite :: "go_error option"
  pfPartial :: bytes
  pfRename :: "go_error option"
  pfKeepsTmp :: bool

text \<open>The branches that give up: the temporary file is removed, if that works.\<close>

definition give_up :: "put_faults \<Rightarrow> string \<Rightarrow> bytes \<Rightarrow> entries \<Rightarrow> entries" where
  "give_up F tmp written es = (if pfKeepsTmp F then set_child tmp (File written) es else del_child tmp es)"

definition put_in :: "put_faults \<Rightarrow> string \<Rightarrow> bytes \<Rightarrow> entries \<Rightarrow> entries \<times> go_error option" where
  "put_in F name body es =
     (let tmp = name @ ''.tmp-'' @ pfUUID F
      in if map_of es tmp \<noteq> None then (es, Some (IOFault ''file exists''))
         else (case pfWrite F of
                 Some e \<Rightarrow> (give_up F tmp (pfPartial F) (set_child tmp (File (pfPartial F)) es), Some e)
               | None \<Rightarrow>
                   (let es1 = set_child tmp (File body) es;
                        err = (case map_of es1 name of Some (Dir _) \<Rightarrow> Some is_dir | _ \<Rightarrow> pfRename F)
                    in case err of
                         Some e \<Rightarrow> (give_up F tmp body es1, Some e)
                       | None \<Rightarrow> (set_child name (File body) (del_child tmp es1), None))))"

definition entries_of :: "node \<Rightarrow> entries" where
  "entries_of n = (case n of Dir es \<Rightarrow> es | File _ \<Rightarrow> [])"

definition dir_put :: "put_faults \<Rightarrow> entries \<Rightarrow> string \<Rightarrow> bytes \<Rightarrow> entries \<times> go_error option" where
  "dir_put F es key body =
     (case resolve key of
        Inl e \<Rightarrow> (es, Some e)
      | Inr p \<Rightarrow>
          if p = [] then (es, Some is_dir)
          else (case mkdirAll (Dir es) (butlast p) of
                  Inl e \<Rightarrow> (es, Some e)
                | Inr n \<Rightarrow>
                    (case stat n (butlast p) of
                       Inr (Dir cs) \<Rightarrow>
                         (case put_in F (last p) body cs of
                            (cs', err) \<Rightarrow> (entries_of (in_dir (butlast p) (\<lambda>_. cs') n), err))
                     | _ \<Rightarrow> (entries_of n, Some not_dir))))"

definition dir_Remove :: "entries \<Rightarrow> string \<Rightarrow> entries \<times> go_error option" where
  "dir_Remove es key =
     (case resolve key of
        Inl e \<Rightarrow> (es, Some e)
      | Inr p \<Rightarrow>
          if p = [] then ([], None)
          else (case stat (Dir es) p of
                  Inl e \<Rightarrow> (es, if is_not_exist e then None else Some e)
                | Inr _ \<Rightarrow> (entries_of (in_dir (butlast p) (del_child (last p)) (Dir es)), None)))"

definition dir_Mkdir :: "entries \<Rightarrow> string \<Rightarrow> entries \<times> go_error option" where
  "dir_Mkdir es key =
     (case resolve key of
        Inl e \<Rightarrow> (es, Some e)
      | Inr p \<Rightarrow>
          (case mkdirAll (Dir es) p of
             Inl e \<Rightarrow> (es, MapFSError (Some e))
           | Inr n \<Rightarrow> (entries_of n, None)))"

text \<open>\<^verbatim>\<open>HealthCheck\<close>, with the configured path of the root; creating the root succeeds.\<close>

definition dir_HealthCheck :: "string \<Rightarrow> entries \<Rightarrow> health_state" where
  "dir_HealthCheck root es =
     (if root = [] then HealthMisconfigured
      else (case dir_List es [] of Inl e \<Rightarrow> ClassifyHealth (MapFSError (Some e)) | Inr _ \<Rightarrow> HealthOK))"

definition dir_view :: "entries \<Rightarrow> transport" where
  "dir_view es = \<lparr>trList = dir_List es, trListDirs = dir_ListDirs es, trListShallow = Some (dir_ListShallow es), trGet = dir_Get es\<rparr>"

definition directory_ops :: "(entries \<Rightarrow> string \<Rightarrow> put_faults) \<Rightarrow> entries remote_ops" where
  "directory_ops F = \<lparr>roView = dir_view, roPut = (\<lambda>es key. dir_put (F es key) es key), roRemove = dir_Remove\<rparr>"

section \<open>Laws of the tree\<close>

fun tree_ok :: "node \<Rightarrow> bool" where
  "tree_ok (File b) = True"
| "tree_ok (Dir es) = (sorted_wrt (<) (map fst es) \<and> list_all (\<lambda>(c, m). tree_ok m) es)"

definition file_at :: "node \<Rightarrow> string list \<Rightarrow> bytes option" where
  "file_at n p = (case stat n p of Inr (File b) \<Rightarrow> Some b | _ \<Rightarrow> None)"

lemma file_at_simps [simp]:
  "file_at (File b) [] = Some b"
  "file_at (Dir es) [] = None"
  "file_at (File b) (c # cs) = None"
  "file_at (Dir es) (c # cs) = (case map_of es c of None \<Rightarrow> None | Some m \<Rightarrow> file_at m cs)"
  by (simp_all add: file_at_def split: option.splits)

lemma map_of_set_child [simp]: "map_of (set_child c n es) x = (if x = c then Some n else map_of es x)"
  by (induction c n es rule: set_child.induct) auto

lemma map_of_del_child [simp]: "map_of (del_child c es) x = (if x = c then None else map_of es x)"
  by (induction es) (auto simp: del_child_def)

lemma set_child_set: "set (set_child c n es) \<subseteq> insert (c, n) (set es)"
  by (induction c n es rule: set_child.induct) auto

lemma fst_set_child: "fst ` set (set_child c n es) = insert c (fst ` set es)"
  by (induction c n es rule: set_child.induct) auto

lemma sorted_set_child: "sorted_wrt (<) (map fst es) \<Longrightarrow> sorted_wrt (<) (map fst (set_child c n es))"
proof (induction c n es rule: set_child.induct)
  case (2 c n k m es)
  then show ?case using fst_set_child[of c n es] by (auto simp: image_iff)
qed simp

lemma tree_ok_set_child: "tree_ok (Dir es) \<Longrightarrow> tree_ok n \<Longrightarrow> tree_ok (Dir (set_child c n es))"
  using set_child_set[of c n es] by (auto simp: sorted_set_child list_all_iff)

lemma tree_ok_del_child: "tree_ok (Dir es) \<Longrightarrow> tree_ok (Dir (del_child c es))"
  by (auto simp: del_child_def list_all_iff sorted_wrt_map intro: sorted_wrt_filter)

lemma tree_ok_child: "tree_ok (Dir es) \<Longrightarrow> map_of es c = Some m \<Longrightarrow> tree_ok m"
  by (auto simp: list_all_iff dest: map_of_SomeD)

lemma tree_ok_stat: "tree_ok n \<Longrightarrow> stat n p = Inr m \<Longrightarrow> tree_ok m"
  by (induction n p rule: stat.induct) (auto split: option.splits dest: tree_ok_child simp del: tree_ok.simps)

lemma tree_ok_mkdirAll: "tree_ok n \<Longrightarrow> mkdirAll n p = Inr m \<Longrightarrow> tree_ok m"
proof (induction n p arbitrary: m rule: mkdirAll.induct)
  case (3 es c cs)
  have "tree_ok (case map_of es c of None \<Rightarrow> Dir [] | Some m \<Rightarrow> m)"
    using tree_ok_child[OF 3(2), of c] by (auto split: option.split)
  then show ?case using 3 tree_ok_set_child by (auto simp: bind_result_Inr simp del: tree_ok.simps)
qed auto

lemma tree_ok_in_dir:
  assumes "tree_ok n" "\<And>es. stat n p = Inr (Dir es) \<Longrightarrow> tree_ok (Dir (f es))"
  shows "tree_ok (in_dir p f n)"
  using assms
proof (induction p f n rule: in_dir.induct)
  case (3 c cs f es)
  then show ?case
    using tree_ok_child[OF 3(2), of c] tree_ok_set_child[OF 3(2)] by (auto split: option.splits simp del: tree_ok.simps)
qed auto

lemma stat_in_dir_below:
  "stat n p = Inr (Dir cs) \<Longrightarrow> stat (in_dir p f n) (p @ r) = stat (Dir (f cs)) r"
proof (induction p f n rule: in_dir.induct)
  case (1 p f b)
  then show ?case by (cases p) auto
qed (auto split: option.splits)

lemma file_in_dir_below:
  "stat n p = Inr (Dir cs) \<Longrightarrow> file_at (in_dir p f n) (p @ r) = file_at (Dir (f cs)) r"
  by (simp add: file_at_def stat_in_dir_below)

lemma file_in_dir_beside:
  "stat n p = Inr (Dir cs) \<Longrightarrow> \<not> prefix p q \<Longrightarrow> file_at (in_dir p f n) q = file_at n q"
proof (induction p f n arbitrary: q rule: in_dir.induct)
  case (3 c cs' f es)
  then show ?case by (cases q) (auto split: option.splits)
qed auto

lemma file_at_append: "stat n p = Inr m \<Longrightarrow> file_at n (p @ r) = file_at m r"
  by (induction n p rule: stat.induct) (auto split: option.splits)

lemma mkdirAll_dir: "mkdirAll n p = Inr n' \<Longrightarrow> \<exists>cs. stat n' p = Inr (Dir cs)"
  by (induction n p arbitrary: n' rule: mkdirAll.induct) (auto simp: bind_result_Inr)

lemma mkdirAll_files: "mkdirAll n p = Inr n' \<Longrightarrow> file_at n' q = file_at n q"
proof (induction n p arbitrary: n' q rule: mkdirAll.induct)
  case (3 es c cs)
  then obtain m where m: "mkdirAll (case map_of es c of None \<Rightarrow> Dir [] | Some m \<Rightarrow> m) cs = Inr m" "n' = Dir (set_child c m es)"
    by (auto simp: bind_result_Inr)
  have "file_at (Dir []) ds = None" for ds by (cases ds) simp_all
  then show ?case using 3(1)[OF m(1)] m(2) by (cases q) (auto split: option.splits)
qed auto

lemma walk_files: "tree_ok n \<Longrightarrow> (q, b) \<in> set (walk p n) \<longleftrightarrow> (\<exists>r. q = p @ r \<and> file_at n r = Some b)"
proof (induction p n arbitrary: q b rule: walk.induct)
  case (1 p c)
  have "file_at (File c) r = Some b \<longleftrightarrow> r = [] \<and> b = c" for r by (cases r) auto
  then show ?case by auto
next
  case (2 p es)
  have "distinct (map fst es)" using 2(2) strict_sorted_iff by auto
  then have mem: "(c, m) \<in> set es \<longleftrightarrow> map_of es c = Some m" for c m by simp
  have IH: "(q, b) \<in> set (walk (p @ [c]) m) \<longleftrightarrow> (\<exists>r. q = p @ c # r \<and> file_at m r = Some b)" if "(c, m) \<in> set es" for c m
    using 2(1)[OF that refl] tree_ok_child[OF 2(2)] that by (auto simp: mem)
  have "(q, b) \<in> set (walk p (Dir es)) \<longleftrightarrow> (\<exists>c m. (c, m) \<in> set es \<and> (\<exists>r. q = p @ c # r \<and> file_at m r = Some b))"
    using IH by fastforce
  moreover have "file_at (Dir es) r = Some b \<longleftrightarrow> (\<exists>c m r'. r = c # r' \<and> (c, m) \<in> set es \<and> file_at m r' = Some b)" for r
    unfolding mem by (cases r) (auto split: option.splits)
  ultimately show ?case by blast
qed

section \<open>The transport keeps the contract of a store\<close>

text \<open>Keys as the clients build them: plain elements joined by slashes, none with two dots in a row.\<close>

definition plain_key :: "string \<Rightarrow> bool" where
  "plain_key k \<longleftrightarrow> list_all plain_elem (Split k (CHR ''/'')) \<and> \<not> Contains k ''..''"

definition below_key :: "string \<Rightarrow> string \<Rightarrow> bool" where
  "below_key k k' \<longleftrightarrow> prefix (Split k (CHR ''/'')) (Split k' (CHR ''/''))"

lemma join_path_Cons: "ps \<noteq> [] \<Longrightarrow> join_path (p # ps) = p @ CHR ''/'' # join_path ps"
  by (cases ps) auto

lemma join_path_Split [simp]: "join_path (Split k (CHR ''/'')) = k"
proof (induction k)
  case (Cons c k)
  obtain p ps where "Split k (CHR ''/'') = p # ps" by (metis Split_not_Nil neq_Nil_conv)
  then show ?case using Cons by (cases ps) auto
qed simp

lemma resolve_plain: "plain_key k \<Longrightarrow> resolve k = Inr (Split k (CHR ''/''))"
proof -
  assume k: "plain_key k"
  have ne: "k \<noteq> []" using k by (auto simp: plain_key_def plain_elem_def)
  have "clean_elems True [] (Split k (CHR ''/'')) = Split k (CHR ''/'')"
    using k clean_elems_plain[of "Split k (CHR ''/'')" True "[]"] by (simp add: plain_key_def list_all_iff)
  then have "path_clean (CHR ''/'' # k) = CHR ''/'' # k" by (simp add: path_clean_def Let_def)
  then show ?thesis using k ne by (simp add: resolve_def plain_key_def)
qed

lemma dir_Get_plain: "plain_key k \<Longrightarrow> dir_Get es k = Inr b \<longleftrightarrow> file_at (Dir es) (Split k (CHR ''/'')) = Some b"
  by (auto simp: dir_Get_def resolve_plain file_at_def bind_result_Inr split: sum.splits node.splits)

lemma tmp_differs: "name @ ''.tmp-'' @ u \<noteq> name"
  by simp

lemma put_in_ok:
  assumes "put_in F name body es = (es', None)"
  shows "map_of es' x = (if x = name then Some (File body) else map_of es x)" "\<nexists>cs. map_of es name = Some (Dir cs)"
  using assms tmp_differs[of name "pfUUID F"]
  by (auto simp: put_in_def Let_def split: if_splits option.splits node.splits)

lemma put_in_error:
  assumes "put_in F name body es = (es', Some e)" "map_of es x = Some m"
  shows "map_of es' x = Some m"
  using assms by (auto simp: put_in_def Let_def give_up_def split: if_splits option.splits node.splits)

lemma tree_ok_put_in: "tree_ok (Dir es) \<Longrightarrow> put_in F name body es = (es', err) \<Longrightarrow> tree_ok (Dir es')"
  by (auto simp: put_in_def Let_def give_up_def split: if_splits option.splits node.splits simp del: tree_ok.simps(2)
      intro!: tree_ok_set_child tree_ok_del_child)

lemma in_dir_is_Dir: "\<exists>es'. in_dir p f (Dir es) = Dir es'"
  by (cases p) (auto split: option.split)

lemma mkdirAll_is_Dir: "mkdirAll n p = Inr n' \<Longrightarrow> \<exists>es. n' = Dir es"
  by (induction n p rule: mkdirAll.induct) (auto simp: bind_result_Inr)

text \<open>A put under a resolved path: either it stopped before the directory was touched, or it is a \<open>put_in\<close> in that directory.\<close>

lemma dir_put_cases:
  assumes "dir_put F es key body = (es', err)"
  obtains (stopped) e where "err = Some e" "es' = es"
  | (put) p n cs cs' where "resolve key = Inr p" "p \<noteq> []" "mkdirAll (Dir es) (butlast p) = Inr n" "stat n (butlast p) = Inr (Dir cs)"
      "put_in F (last p) body cs = (cs', err)" "Dir es' = in_dir (butlast p) (\<lambda>_. cs') n"
proof (cases "resolve key")
  case (Inl e)
  then show thesis using assms stopped by (auto simp: dir_put_def)
next
  case (Inr p)
  show thesis
  proof (cases "p = [] \<or> (\<exists>e. mkdirAll (Dir es) (butlast p) = Inl e)")
    case True
    then show thesis using assms Inr stopped by (auto simp: dir_put_def split: if_splits)
  next
    case False
    then obtain n where n: "mkdirAll (Dir es) (butlast p) = Inr n" by (cases "mkdirAll (Dir es) (butlast p)") auto
    obtain cs where cs: "stat n (butlast p) = Inr (Dir cs)" using mkdirAll_dir[OF n] by blast
    obtain cs' er where pi: "put_in F (last p) body cs = (cs', er)" by (metis surj_pair)
    obtain es0 where "n = Dir es0" using mkdirAll_is_Dir[OF n] by blast
    then obtain es1 where "in_dir (butlast p) (\<lambda>_. cs') n = Dir es1" using in_dir_is_Dir by blast
    then show thesis using assms Inr False n cs pi put[OF Inr _ n cs] by (auto simp: dir_put_def entries_of_def)
  qed
qed

lemma put_in_back:
  assumes "put_in F name body es = (es', err)" "map_of es' x = Some m"
  shows "x = name \<and> err = None \<and> m = File body \<or> map_of es x = Some m \<or> x = name @ ''.tmp-'' @ pfUUID F \<and> (\<exists>b. m = File b)"
  using assms by (simp add: put_in_def Let_def give_up_def split: if_splits option.splits node.splits) (auto split: if_splits)

lemma file_at_put_in:
  assumes "put_in F name body cs = (cs', err)"
  shows "file_at (Dir cs) r = Some c \<Longrightarrow> file_at (Dir cs') r = Some (if r = [name] \<and> err = None then body else c)"
    and "file_at (Dir cs') r = Some c \<Longrightarrow> r = [name] \<and> err = None \<and> c = body \<or> file_at (Dir cs) r = Some c \<or> r = [name @ ''.tmp-'' @ pfUUID F]"
proof -
  assume old: "file_at (Dir cs) r = Some c"
  then obtain x r' m where x: "r = x # r'" "map_of cs x = Some m" "file_at m r' = Some c" by (cases r) (auto split: option.splits)
  show "file_at (Dir cs') r = Some (if r = [name] \<and> err = None then body else c)"
  proof (cases err)
    case None
    have "x = name \<Longrightarrow> r' = []" using put_in_ok(2)[OF assms[unfolded None]] x(2,3) by (cases m; cases r') auto
    then show ?thesis using put_in_ok(1)[OF assms[unfolded None], of x] x None by auto
  qed (use put_in_error[of F name body cs cs' _ x m] assms x in auto)
next
  assume new: "file_at (Dir cs') r = Some c"
  then obtain x r' m where x: "r = x # r'" "map_of cs' x = Some m" "file_at m r' = Some c" by (cases r) (auto split: option.splits)
  have leaf: "file_at (File b) r' = Some c \<Longrightarrow> r' = [] \<and> c = b" for b by (cases r') auto
  show "r = [name] \<and> err = None \<and> c = body \<or> file_at (Dir cs) r = Some c \<or> r = [name @ ''.tmp-'' @ pfUUID F]"
    using put_in_back[OF assms x(2)] x(1,3) leaf by auto
qed

text \<open>How a put changes the files of the whole tree, from how it changes those of its directory.\<close>

lemma dir_put_tree:
  assumes "dir_put F es key body = (es', err)" "resolve key = Inr p"
  obtains "err \<noteq> None" "es' = es"
  | cs cs' where "p \<noteq> []" "put_in F (last p) body cs = (cs', err)"
      "\<And>r. file_at (Dir es) (butlast p @ r) = file_at (Dir cs) r" "\<And>r. file_at (Dir es') (butlast p @ r) = file_at (Dir cs') r"
      "\<And>q. \<not> prefix (butlast p) q \<Longrightarrow> file_at (Dir es') q = file_at (Dir es) q"
  using assms(1)
proof (cases rule: dir_put_cases)
  case stopped
  then show thesis using that(1) by simp
next
  case (put p' n cs cs')
  have p: "p' = p" using put(1) assms(2) by simp
  show thesis
  proof (rule that(2)[OF put(2,5)[unfolded p]])
    show "file_at (Dir es) (butlast p @ r) = file_at (Dir cs) r" for r
      using mkdirAll_files[OF put(3)] file_at_append[OF put(4)] p by metis
    show "file_at (Dir es') (butlast p @ r) = file_at (Dir cs') r" for r
      using file_in_dir_below[OF put(4)] put(6) p by metis
    show "\<not> prefix (butlast p) q \<Longrightarrow> file_at (Dir es') q = file_at (Dir es) q" for q
      using file_in_dir_beside[OF put(4)] put(6) mkdirAll_files[OF put(3)] p by metis
  qed
qed

lemma dir_put_file:
  assumes "dir_put F es key body = (es', err)" "resolve key = Inr p"
  shows "file_at (Dir es) q = Some c \<Longrightarrow> file_at (Dir es') q = Some (if q = p \<and> err = None then body else c)"
    and "file_at (Dir es') q = Some c \<Longrightarrow> q = p \<and> err = None \<and> c = body \<or> file_at (Dir es) q = Some c
      \<or> q = butlast p @ [last p @ ''.tmp-'' @ pfUUID F]"
proof -
  have "(file_at (Dir es) q = Some c \<longrightarrow> file_at (Dir es') q = Some (if q = p \<and> err = None then body else c)) \<and>
    (file_at (Dir es') q = Some c \<longrightarrow> q = p \<and> err = None \<and> c = body \<or> file_at (Dir es) q = Some c
      \<or> q = butlast p @ [last p @ ''.tmp-'' @ pfUUID F])"
    using assms
  proof (cases rule: dir_put_tree)
    case (2 cs cs')
    have p: "p = butlast p @ [last p]" using 2(1) by simp
    show ?thesis
    proof (cases "prefix (butlast p) q")
      case True
      then obtain r where r: "q = butlast p @ r" by (auto simp: prefix_def)
      have "q = p \<longleftrightarrow> r = [last p]" using r p by (metis same_append_eq)
      then show ?thesis using file_at_put_in[OF 2(2), of r c] 2(3,4)[of r] r by simp
    next
      case False
      then have "q \<noteq> p" by (metis p prefixI)
      then show ?thesis using 2(5)[OF False] by simp
    qed
  qed auto
  then show "file_at (Dir es) q = Some c \<Longrightarrow> file_at (Dir es') q = Some (if q = p \<and> err = None then body else c)"
    and "file_at (Dir es') q = Some c \<Longrightarrow> q = p \<and> err = None \<and> c = body \<or> file_at (Dir es) q = Some c
      \<or> q = butlast p @ [last p @ ''.tmp-'' @ pfUUID F]"
    by blast+
qed

lemma dir_put_reads:
  assumes "dir_put F es key body = (es', None)" "resolve key = Inr p"
  shows "file_at (Dir es') p = Some body"
  using assms(1)
proof (cases rule: dir_put_cases)
  case (put p' n cs cs')
  have p: "p' = p" "p = butlast p @ [last p]" using put(1,2) assms(2) by auto
  have "file_at (Dir es') (butlast p @ [last p]) = file_at (Dir cs') [last p]"
    using file_in_dir_below[OF put(4)[unfolded p(1)]] put(6) p(1) by simp
  then show ?thesis using put_in_ok(1)[OF put(5), of "last p"] p by simp
qed simp

lemma tree_ok_dir_put: "tree_ok (Dir es) \<Longrightarrow> dir_put F es key body = (es', err) \<Longrightarrow> tree_ok (Dir es')"
proof (erule dir_put_cases)
  fix p n cs cs'
  assume ok: "tree_ok (Dir es)" and n: "mkdirAll (Dir es) (butlast p) = Inr n" and cs: "stat n (butlast p) = Inr (Dir cs)"
    and pi: "put_in F (last p) body cs = (cs', err)" and es': "Dir es' = in_dir (butlast p) (\<lambda>_. cs') n"
  have "tree_ok n" using tree_ok_mkdirAll[OF ok n] .
  then have "tree_ok (in_dir (butlast p) (\<lambda>_. cs') n)"
    using tree_ok_stat[OF _ cs] tree_ok_put_in[OF _ pi] by (intro tree_ok_in_dir) auto
  then show "tree_ok (Dir es')" unfolding es' .
qed simp

lemma stat_parent:
  assumes "stat n p = Inr m" "p \<noteq> []"
  shows "\<exists>cs. stat n (butlast p) = Inr (Dir cs) \<and> map_of cs (last p) = Some m"
  using assms
proof (induction n p rule: stat.induct)
  case (3 es c cs)
  then show ?case by (cases cs) (auto split: option.splits)
qed auto

lemma stat_error_below: "stat n p = Inl e \<Longrightarrow> stat n (p @ r) = Inl e"
  by (induction n p rule: stat.induct) (auto split: option.splits)

lemma dir_Remove_cases:
  assumes "dir_Remove es key = (es', err)" "resolve key = Inr p"
  obtains (absent) "es' = es" "\<exists>e. stat (Dir es) p = Inl e"
  | (all) "p = []" "es' = []"
  | (removed) cs where "p \<noteq> []" "stat (Dir es) (butlast p) = Inr (Dir cs)" "Dir es' = in_dir (butlast p) (del_child (last p)) (Dir es)"
proof (cases "stat (Dir es) p")
  case (Inl e)
  have "es' = es" using assms Inl by (cases p) (auto simp: dir_Remove_def)
  then show thesis using absent Inl by blast
next
  case (Inr m)
  show thesis
  proof (cases "p = []")
    case True
    then show thesis using assms all by (simp add: dir_Remove_def)
  next
    case False
    then obtain cs where cs: "stat (Dir es) (butlast p) = Inr (Dir cs)" using stat_parent[OF Inr] by blast
    obtain es1 where "in_dir (butlast p) (del_child (last p)) (Dir es) = Dir es1" using in_dir_is_Dir by blast
    then show thesis using assms Inr False removed[OF False cs] by (simp add: dir_Remove_def entries_of_def)
  qed
qed

lemma dir_Remove_files:
  assumes "dir_Remove es key = (es', err)" "resolve key = Inr p"
  shows "file_at (Dir es') q = (if prefix p q then None else file_at (Dir es) q)"
  using assms
proof (cases rule: dir_Remove_cases)
  case absent
  then show ?thesis using stat_error_below by (auto simp: prefix_def file_at_def)
next
  case all
  have "file_at (Dir []) q = None" by (cases q) simp_all
  then show ?thesis using all by simp
next
  case (removed cs)
  have p: "p = butlast p @ [last p]" using removed(1) by simp
  show ?thesis
  proof (cases "prefix (butlast p) q")
    case False
    then have "\<not> prefix p q" by (metis append_prefixD p)
    then show ?thesis using file_in_dir_beside[OF removed(2) False] removed(3) by simp
  next
    case True
    then obtain r where r: "q = butlast p @ r" by (auto simp: prefix_def)
    have pre: "prefix p q \<longleftrightarrow> prefix [last p] r" using r p by (metis same_prefix_prefix)
    have "file_at (Dir es') q = file_at (Dir (del_child (last p) cs)) r" "file_at (Dir es) q = file_at (Dir cs) r"
      using file_in_dir_below[OF removed(2)] removed(3) file_at_append[OF removed(2)] r by simp_all
    then show ?thesis using pre by (cases r) (auto split: option.splits)
  qed
qed

lemma tree_ok_dir_Remove: "tree_ok (Dir es) \<Longrightarrow> dir_Remove es key = (es', err) \<Longrightarrow> tree_ok (Dir es')"
proof (cases "resolve key")
  case (Inr p)
  assume ok: "tree_ok (Dir es)" and r: "dir_Remove es key = (es', err)"
  from r Inr show ?thesis
  proof (cases rule: dir_Remove_cases)
    case (removed cs)
    then show ?thesis
      using tree_ok_in_dir[OF ok, of "butlast p" "del_child (last p)"] tree_ok_del_child[OF tree_ok_stat[OF ok]] by (simp del: tree_ok.simps)
  qed (use ok in auto)
qed (auto simp: dir_Remove_def)

lemma plain_key_inj: "Split k (CHR ''/'') = Split k' (CHR ''/'') \<Longrightarrow> k = k'"
  by (metis join_path_Split)

interpretation directory: remote_store "directory_ops F" "\<lambda>es. tree_ok (Dir es)" plain_key below_key for F
proof unfold_locales
  fix s k b s' err
  assume "tree_ok (Dir s)" "roPut (directory_ops F) s k b = (s', err)"
  then show "tree_ok (Dir s')" using tree_ok_dir_put[of s "F s k" k b s' err] by (simp add: directory_ops_def)
next
  fix s k s' err
  assume "tree_ok (Dir s)" "roRemove (directory_ops F) s k = (s', err)"
  then show "tree_ok (Dir s')" using tree_ok_dir_Remove[of s k s' err] by (simp add: directory_ops_def)
next
  fix s k b s'
  assume "plain_key k" "roPut (directory_ops F) s k b = (s', None)"
  then show "trGet (roView (directory_ops F) s') k = Inr b"
    using dir_put_reads[OF _ resolve_plain] by (simp add: directory_ops_def dir_view_def dir_Get_plain)
next
  fix s k b s' e c
  assume "plain_key k" "roPut (directory_ops F) s k b = (s', Some e)" "trGet (roView (directory_ops F) s) k = Inr c"
  then show "trGet (roView (directory_ops F) s') k = Inr c"
    using dir_put_file(1)[OF _ resolve_plain] by (fastforce simp: directory_ops_def dir_view_def dir_Get_plain)
next
  fix s k k' b s' err c
  assume "plain_key k" "plain_key k'" "k' \<noteq> k" "roPut (directory_ops F) s k b = (s', err)" "trGet (roView (directory_ops F) s) k' = Inr c"
  then show "trGet (roView (directory_ops F) s') k' = Inr c"
    using dir_put_file(1)[OF _ resolve_plain] plain_key_inj by (fastforce simp: directory_ops_def dir_view_def dir_Get_plain)
next
  fix s k s'
  assume k: "plain_key k" "roRemove (directory_ops F) s k = (s', None)"
  then have "file_at (Dir s') (Split k (CHR ''/'')) = None"
    using dir_Remove_files[OF _ resolve_plain] by (simp add: directory_ops_def)
  then show "\<exists>e. trGet (roView (directory_ops F) s') k = Inl e"
    using dir_Get_plain[OF k(1), of s'] by (cases "dir_Get s' k") (auto simp: directory_ops_def dir_view_def)
next
  fix s k k' s' err c
  assume "plain_key k" "plain_key k'" "\<not> below_key k k'" "roRemove (directory_ops F) s k = (s', err)"
  then show "trGet (roView (directory_ops F) s') k' = Inr c \<longleftrightarrow> trGet (roView (directory_ops F) s) k' = Inr c"
    using dir_Remove_files[OF _ resolve_plain] by (simp add: directory_ops_def dir_view_def dir_Get_plain below_key_def)
qed

section \<open>The transport as a map from keys to contents\<close>

definition tmp_key :: "string \<Rightarrow> bool" where
  "tmp_key k = tmp_name (last (Split k (CHR ''/'')))"

text \<open>What a client can see: the contents of the files under keys that are not temporary.\<close>

definition visible :: "entries \<Rightarrow> string \<Rightarrow> bytes option" where
  "visible es k = (if plain_key k \<and> \<not> tmp_key k then file_at (Dir es) (Split k (CHR ''/'')) else None)"

lemma visible_dir_put:
  assumes "plain_key key" "\<not> tmp_key key" "dir_put F es key body = (es', err)"
  shows "visible es' = (if err = None then (visible es)(key \<mapsto> body) else visible es)"
proof
  fix k
  let ?q = "Split k (CHR ''/'')" and ?p = "Split key (CHR ''/'')"
  show "visible es' k = (if err = None then (visible es)(key \<mapsto> body) else visible es) k"
  proof (cases "plain_key k \<and> \<not> tmp_key k")
    case True
    have "Contains (a @ ''.tmp-'' @ b) ''.tmp-''" for a b unfolding Contains_iff by blast
    then have nt: "?q \<noteq> d @ [n @ ''.tmp-'' @ u]" for d n u
      using True by (metis last_snoc tmp_key_def tmp_name_def)
    have q: "?q = ?p \<longleftrightarrow> k = key" using plain_key_inj by blast
    note f = dir_put_file[OF assms(3) resolve_plain[OF assms(1)], of ?q]
    have "file_at (Dir es') ?q = (if err = None \<and> k = key then Some body else file_at (Dir es) ?q)"
    proof (cases "err = None \<and> k = key")
      case True
      then show ?thesis using dir_put_reads[OF _ resolve_plain[OF assms(1)]] assms(3) by simp
    next
      case False
      then have "file_at (Dir es') ?q = Some c \<longleftrightarrow> file_at (Dir es) ?q = Some c" for c
        using f(1)[of c] f(2)[of c] q nt by auto
      then show ?thesis using False option.exhaust by metis
    qed
    then show ?thesis using True by (auto simp: visible_def)
  next
    case False
    then show ?thesis using assms(1,2) by (auto simp: visible_def)
  qed
qed

lemma visible_dir_Remove:
  assumes "plain_key key" "dir_Remove es key = (es', err)"
  shows "visible es' = (\<lambda>k. if below_key key k then None else visible es k)"
  using dir_Remove_files[OF assms(2) resolve_plain[OF assms(1)]] by (auto simp: visible_def below_key_def fun_eq_iff)

text \<open>File names have no slash and are none of the special names.\<close>

fun names_ok :: "node \<Rightarrow> bool" where
  "names_ok (File b) = True"
| "names_ok (Dir es) = list_all (\<lambda>(c, m). plain_elem c \<and> names_ok m) es"

lemma names_ok_path: "names_ok n \<Longrightarrow> file_at n p = Some b \<Longrightarrow> list_all plain_elem p"
proof (induction n p rule: stat.induct)
  case (3 es c cs)
  then obtain m where "(c, m) \<in> set es" "file_at m cs = Some b" "map_of es c = Some m"
    by (auto split: option.splits dest: map_of_SomeD)
  then show ?case using 3 by (auto simp: list_all_iff)
qed auto

lemma HasSuffix_after_slash:
  assumes "CHR ''/'' \<notin> set p"
  shows "HasSuffix (a @ CHR ''/'' # b) p \<longleftrightarrow> HasSuffix b p"
proof
  assume "HasSuffix (a @ CHR ''/'' # b) p"
  then obtain t where t: "a @ CHR ''/'' # b = t @ p" by (auto simp: HasSuffix_iff)
  then obtain u where "b = u @ p \<or> p = u @ CHR ''/'' # b"
    by (auto simp: append_eq_append_conv2 Cons_eq_append_conv)
  then show "HasSuffix b p" using assms by (auto simp: HasSuffix_iff)
qed (force simp: HasSuffix_iff)

lemma HasSuffix_join_path: "CHR ''/'' \<notin> set p \<Longrightarrow> q \<noteq> [] \<Longrightarrow> HasSuffix (join_path q) p \<longleftrightarrow> HasSuffix (last q) p"
  by (induction q rule: join_path.induct) (simp_all add: HasSuffix_after_slash)

lemma dir_List_visible:
  assumes "tree_ok (Dir es)" "names_ok (Dir es)"
  shows "\<exists>objs. dir_List es [] = Inr objs \<and> (\<forall>k. k \<in> obKey ` set objs \<and> \<not> Contains k ''..'' \<longleftrightarrow> k \<in> dom (visible es))"
proof -
  let ?shown = "\<lambda>(q, b). \<not> (HasSuffix (join_path q) ''.tmp'' \<or> Contains (last q) ''.tmp-'')"
  let ?objs = "map (\<lambda>(q, b). \<lparr>obKey = join_path q, obSize = int (length b)\<rparr>) (filter ?shown (walk [] (Dir es)))"
  have "k \<in> obKey ` set ?objs \<and> \<not> Contains k ''..'' \<longleftrightarrow> k \<in> dom (visible es)" for k
  proof
    assume k: "k \<in> obKey ` set ?objs \<and> \<not> Contains k ''..''"
    then obtain q b where q: "k = join_path q" "file_at (Dir es) q = Some b" "?shown (q, b)"
      using walk_files[OF assms(1), of _ _ "[]"] by force
    have pl: "list_all plain_elem q" "q \<noteq> []" using names_ok_path[OF assms(2) q(2)] q(2) by auto
    then have sp: "Split k (CHR ''/'') = q" unfolding q(1) by (intro Split_join_path) (auto simp: list_all_iff plain_elem_def)
    have "plain_key k" using k pl sp by (simp add: plain_key_def)
    moreover have "\<not> tmp_key k" using q(1,3) sp HasSuffix_join_path[OF _ pl(2)] by (simp add: tmp_key_def tmp_name_def)
    ultimately show "k \<in> dom (visible es)" using q(2) sp by (simp add: visible_def dom_def)
  next
    assume "k \<in> dom (visible es)"
    then obtain b where b: "plain_key k" "\<not> tmp_key k" "file_at (Dir es) (Split k (CHR ''/'')) = Some b"
      by (auto simp: visible_def split: if_splits)
    let ?q = "Split k (CHR ''/'')"
    have "(?q, b) \<in> set (walk [] (Dir es))" using walk_files[OF assms(1), of ?q b "[]"] b(3) by simp
    moreover have "?shown (?q, b)"
      using b(2) HasSuffix_join_path[of "''.tmp''" ?q] by (simp add: tmp_key_def tmp_name_def)
    ultimately have "\<lparr>obKey = join_path ?q, obSize = int (length b)\<rparr> \<in> set ?objs" by force
    then show "k \<in> obKey ` set ?objs \<and> \<not> Contains k ''..''" using b(1) by (force simp: plain_key_def)
  qed
  then show ?thesis by (simp add: dir_List_def resolve_prefix_def)
qed

section \<open>Properties\<close>

text \<open>C8: The directory transport implements a map from keys to contents, whatever the operating system makes of a write: an atomic
  put either sets the key or leaves the map as it was, a removal deletes the key and what is below it, \<^verbatim>\<open>Get\<close> reads the map,
  and \<^verbatim>\<open>List\<close> shows exactly its keys.\<close>

theorem directory_refines_map:
  assumes "tree_ok (Dir es)" "names_ok (Dir es)" "plain_key key" "\<not> tmp_key key"
  shows "visible (fst (dir_put F es key body)) =
      (if snd (dir_put F es key body) = None then (visible es)(key \<mapsto> body) else visible es)
    \<and> visible (fst (dir_Remove es key)) = (\<lambda>k. if below_key key k then None else visible es k)
    \<and> (dir_Get es key = Inr b \<longleftrightarrow> visible es key = Some b)
    \<and> (\<exists>objs. dir_List es [] = Inr objs \<and> (\<forall>k. k \<in> obKey ` set objs \<and> \<not> Contains k ''..'' \<longleftrightarrow> k \<in> dom (visible es)))"
proof (intro conjI)
  show "visible (fst (dir_put F es key body)) = (if snd (dir_put F es key body) = None then (visible es)(key \<mapsto> body) else visible es)"
    by (rule visible_dir_put[OF assms(3,4)]) simp
  show "visible (fst (dir_Remove es key)) = (\<lambda>k. if below_key key k then None else visible es k)"
    by (rule visible_dir_Remove[OF assms(3)]) (rule prod.collapse[symmetric])
  show "dir_Get es key = Inr b \<longleftrightarrow> visible es key = Some b"
    using assms(3,4) by (simp add: dir_Get_plain visible_def)
qed (rule dir_List_visible[OF assms(1,2)])

definition demo_tree :: entries where
  "demo_tree = [(''acks'', Dir [(''A.ack'', File [1])]), (''metadata'', Dir [])]"

definition failing_rename :: put_faults where
  "failing_rename = \<lparr>pfUUID = ''u'', pfWrite = None, pfPartial = [], pfRename = Some (IOFault ''rename''), pfKeepsTmp = True\<rparr>"

theorem directory_refines_map_witness:
  "snd (dir_put failing_rename demo_tree ''acks/B.ack'' [2]) \<noteq> None
   \<and> visible (fst (dir_put failing_rename demo_tree ''acks/B.ack'' [2])) = visible demo_tree
   \<and> visible (fst (dir_Remove demo_tree ''acks/A.ack'')) ''acks/A.ack'' = None"
proof -
  have ok: "tree_ok (Dir demo_tree)" "names_ok (Dir demo_tree)" "plain_key ''acks/B.ack''" "\<not> tmp_key ''acks/B.ack''"
    "plain_key ''acks/A.ack''" "\<not> tmp_key ''acks/A.ack''" by code_simp+
  have e: "snd (dir_put failing_rename demo_tree ''acks/B.ack'' [2]) \<noteq> None" "below_key ''acks/A.ack'' ''acks/A.ack''"
    by code_simp (simp add: below_key_def)
  show ?thesis
    using directory_refines_map[OF ok(1-4), of failing_rename "[2]" "[]"] directory_refines_map[OF ok(1,2,5,6), of failing_rename "[2]" "[]"] e
    by simp
qed

end
