(* ===== verification/Repository.thy ===== *)
theory Repository
  imports Sync Directory
begin

text \<open>
  Classifying a remote (\<^verbatim>\<open>internal/repository/probe.go\<close>) and initialising one (\<^verbatim>\<open>RemoteInitialized\<close> and \<^verbatim>\<open>InitializeRemote\<close> of
  \<^verbatim>\<open>internal/sync/syncer/init.go\<close>), with the fact that a remote is initialised at most once.
\<close>

section \<open>Probing\<close>

datatype probe_result = EmptyRepo | Unrelated | Valid | Partial | UnsupportedVersion

record report =
  rpResult :: probe_result
  rpMessage :: string

definition currentRemoteVersion :: int where
  "currentRemoteVersion = 1"

text \<open>
  What the probe takes from outside: reading the two fields of \<^verbatim>\<open>remoteManifest\<close> and a generation manifest from JSON, and whether
  the transport's \<^verbatim>\<open>Capabilities\<close> say that listing is expensive.
\<close>

record probe_env =
  prRemote :: "bytes \<Rightarrow> (int \<times> string) result"
  prGen :: "bytes \<Rightarrow> gen_manifest result"
  prExpensive :: bool

definition layout_names :: "string list" where
  "layout_names = [''metadata'', ''keys'', ''events'', ''checkpoints'', ''acks'']"

definition layoutPrefixes :: "string list" where
  "layoutPrefixes = [''metadata/'', ''keys/'', ''events/'', ''checkpoints/'', ''acks/'']"

text \<open>\<open>Inr None\<close> is the \<^verbatim>\<open>nil\<close> slice for a missing object.\<close>

definition getOptional :: "transport \<Rightarrow> string \<Rightarrow> bytes option result" where
  "getOptional tr key =
     (case trGet tr key of
        Inl e \<Rightarrow> if is_missing e then Inr None else Inl e
      | Inr b \<Rightarrow> Inr (Some b))"

definition looksLikeRepo :: "object list \<Rightarrow> bool \<Rightarrow> bool \<Rightarrow> bool" where
  "looksLikeRepo objs hasManifest hasGens \<longleftrightarrow>
     hasManifest \<or> hasGens \<or> list_ex (\<lambda>ob. list_ex (HasPrefix (obKey ob)) layoutPrefixes) objs"

definition hasLayoutDir :: "string list \<Rightarrow> bool" where
  "hasLayoutDir dirs = list_ex (\<lambda>d. Trim d (CHR ''/'') \<in> set layout_names) dirs"

definition listShallow :: "transport \<Rightarrow> string \<Rightarrow> object list result" where
  "listShallow tr pre = (case trListShallow tr of None \<Rightarrow> Inr [] | Some f \<Rightarrow> f pre)"

fun prefix_exists_loop :: "transport \<Rightarrow> string list \<Rightarrow> bool result" where
  "prefix_exists_loop tr [] = Inr False"
| "prefix_exists_loop tr (p # ps) =
     bind_result (trListDirs tr p) (\<lambda>dirs.
       if length dirs > 0 then Inr True
       else bind_result (listShallow tr p) (\<lambda>files.
         if length files > 0 then Inr True else prefix_exists_loop tr ps))"

definition layoutPrefixExists :: "transport \<Rightarrow> bool result" where
  "layoutPrefixExists tr = prefix_exists_loop tr layout_names"

definition generation_key :: "string \<Rightarrow> string" where
  "generation_key d =
     (let key = Trim d (CHR ''/'')
      in if HasSuffix key ''/manifest'' then key else (if HasSuffix key ''/'' then butlast key else key) @ ''/manifest'')"

fun read_keys :: "transport \<Rightarrow> string list \<Rightarrow> string list \<Rightarrow> bytes list \<Rightarrow> (string list \<times> bytes list) result" where
  "read_keys tr [] seen out = Inr (seen, out)"
| "read_keys tr (key # ks) seen out =
     (if key \<in> set seen then read_keys tr ks seen out
      else bind_result (getOptional tr key) (\<lambda>raw.
        read_keys tr ks (key # seen) (case raw of None \<Rightarrow> out | Some b \<Rightarrow> out @ [b])))"

definition listGenerationManifests :: "transport \<Rightarrow> bytes list result" where
  "listGenerationManifests tr =
     bind_result (trListDirs tr ''keys/generations'') (\<lambda>dirs.
     bind_result (read_keys tr (map generation_key dirs) [] []) (\<lambda>(seen, out).
     bind_result (listShallow tr ''keys/generations'') (\<lambda>files.
     bind_result (read_keys tr (filter (\<lambda>k. HasSuffix k ''manifest'') (map obKey files)) seen out) (\<lambda>(_, out'). Inr out'))))"

definition generationLooksValid :: "probe_env \<Rightarrow> bytes list \<Rightarrow> bool" where
  "generationLooksValid P raws =
     list_ex (\<lambda>raw. case prGen P raw of
        Inl _ \<Rightarrow> False
      | Inr m \<Rightarrow> gmGenerationID m \<noteq> [] \<and> (if gmVersion m = 0 then 1 else gmVersion m) = gen_CurrentVersion) raws"

definition partial_layout :: report where
  "partial_layout = \<lparr>rpResult = Partial,
     rpMessage = ''remnix-looking files are present but metadata/manifest and keys/generations are missing''\<rparr>"

text \<open>The branch of \<^verbatim>\<open>Probe\<close> without a manifest and without generations.\<close>

definition probe_bare :: "probe_env \<Rightarrow> transport \<Rightarrow> report result" where
  "probe_bare P tr =
     bind_result (layoutPrefixExists tr) (\<lambda>looksLike.
       if looksLike then Inr partial_layout
       else if prExpensive P then Inr \<lparr>rpResult = EmptyRepo, rpMessage = ''no remnix metadata at this path''\<rparr>
       else bind_result (trListDirs tr []) (\<lambda>dirs. bind_result (listShallow tr []) (\<lambda>files.
         if hasLayoutDir dirs \<or> looksLikeRepo files False False then Inr partial_layout
         else if length dirs = 0 \<and> length files = 0 then Inr \<lparr>rpResult = EmptyRepo, rpMessage = ''no objects at this path''\<rparr>
         else Inr \<lparr>rpResult = Unrelated, rpMessage = ''path contains files that are not a remnix repository''\<rparr>)))"

definition probe_manifest :: "probe_env \<Rightarrow> bytes \<Rightarrow> bytes list \<Rightarrow> report" where
  "probe_manifest P raw gens =
     (case prRemote P raw of
        Inl _ \<Rightarrow> \<lparr>rpResult = Partial, rpMessage = ''metadata/manifest is not valid JSON''\<rparr>
      | Inr (version, active) \<Rightarrow>
          if (if version = 0 then 1 else version) \<noteq> currentRemoteVersion
          then \<lparr>rpResult = UnsupportedVersion, rpMessage = ''unsupported repository version '' @ show_int version\<rparr>
          else if active = [] then \<lparr>rpResult = Partial, rpMessage = ''metadata/manifest is missing active_generation''\<rparr>
          else if length gens = 0 then \<lparr>rpResult = Partial, rpMessage = ''keys/generations is missing or empty''\<rparr>
          else if \<not> generationLooksValid P gens
          then \<lparr>rpResult = Partial, rpMessage = ''keys/generations does not contain a valid generation manifest''\<rparr>
          else \<lparr>rpResult = Valid, rpMessage = ''existing remnix repository''\<rparr>)"

definition probe_view :: "probe_env \<Rightarrow> transport \<Rightarrow> report result" where
  "probe_view P tr =
     bind_result (getOptional tr ''metadata/manifest'') (\<lambda>manifestRaw.
     bind_result (listGenerationManifests tr) (\<lambda>gens.
       case manifestRaw of
         Some raw \<Rightarrow>
           if length raw > 0 then Inr (probe_manifest P raw gens)
           else if length gens > 0 then Inr \<lparr>rpResult = Partial, rpMessage = ''keys/generations found without metadata/manifest''\<rparr>
           else probe_bare P tr
       | None \<Rightarrow>
           if length gens > 0 then Inr \<lparr>rpResult = Partial, rpMessage = ''keys/generations found without metadata/manifest''\<rparr>
           else probe_bare P tr))"

definition Probe :: "'s sync_env \<Rightarrow> probe_env \<Rightarrow> 's engine \<Rightarrow> 's engine \<times> report result" where
  "Probe N P e =
     (case remote_step (snBegin N) e of
        (e1, Some err) \<Rightarrow> (e1, Inl err)
      | (e1, None) \<Rightarrow> (e1, probe_view P (remote_of N e1)))"

section \<open>Initialising\<close>

definition RemoteInitialized :: "'s sync_env \<Rightarrow> probe_env \<Rightarrow> 's engine \<Rightarrow> 's engine \<times> bool result" where
  "RemoteInitialized N P e =
     (case Probe N P e of
        (e1, Inl err) \<Rightarrow> (e1, Inl err)
      | (e1, Inr rep) \<Rightarrow> (e1, Inr (rpResult rep \<in> {Valid, Partial, UnsupportedVersion})))"

definition ErrRemoteInitialized :: go_error where
  "ErrRemoteInitialized = Errorf ''remote already initialized''"

text \<open>The first manifest of a remote, before it is signed.\<close>

definition first_manifest :: "options \<Rightarrow> gen_manifest \<Rightarrow> remote_manifest" where
  "first_manifest o' m = \<lparr>rmVersion = remote_CurrentVersion, rmCounter = 1, rmActiveGeneration = gmGenerationID m,
     rmDevices = [opDeviceID o'], rmRetired = [], rmPruned = [], rmUpdatedAt = 0, rmMAC = []\<rparr>"

definition register_self :: "'s sync_env \<Rightarrow> options \<Rightarrow> 's step" where
  "register_self N o' e =
     (e\<lparr>enDb := (enDb e)\<lparr>devices := Upsert (now_of N) (devices (enDb e))
        \<lparr>dvID = opDeviceID o', dvName = opDeviceName o', dvHostname = opHostname o', dvStatus = StatusActive,
         dvCreatedAt = zero_time, dvRetiredAt = None\<rparr>\<rparr>\<rparr>, None)"

definition put_manifests :: "'s sync_env \<Rightarrow> options \<Rightarrow> gen_manifest \<Rightarrow> bytes \<Rightarrow> 's step" where
  "put_manifests N o' m smk e =
     (case bind_result (SignRemote (snKey N) (snCodec N) (first_manifest o' m) smk) (json_remote (snCodec N)) of
        Inl err \<Rightarrow> (e, Some err)
      | Inr body \<Rightarrow>
          seq_step (put_step N ''metadata/manifest'' body)
         (seq_step (put_step N ''metadata/version'' (str_bytes ''{\"version\":1}''))
          (\<lambda>e. (e\<lparr>enKeys := SetTrusted (now_of N) (enKeys e) (trustKind o') (gmGenerationID m) 1 [] body\<rparr>, None))) e)"

definition InitializeRemote :: "'s sync_env \<Rightarrow> probe_env \<Rightarrow> options \<Rightarrow> gen_manifest \<Rightarrow> bytes \<Rightarrow> 's step" where
  "InitializeRemote N P o' m smk e =
     (case Probe N P e of
        (e1, Inl err) \<Rightarrow> (e1, Some err)
      | (e1, Inr rep) \<Rightarrow>
          if rpResult rep = Valid then (e1, Some ErrRemoteInitialized)
          else if rpResult rep \<in> {Partial, UnsupportedVersion} then (e1, Some (Wrapped (rpMessage rep) ErrRemoteInitialized))
          else
            seq_step (put_generation_step N m)
           (seq_step (register_self N o')
           (seq_step (publishGenerationMaterial N m)
           (seq_step (put_manifests N o' m smk)
            (publishDeviceRecord N o' (opDeviceID o'))))) e1)"

section \<open>A remote is initialised once\<close>

lemma probe_manifest_result: "rpResult (probe_manifest P raw gens) \<in> {Valid, Partial, UnsupportedVersion}"
  by (auto simp: probe_manifest_def split: sum.split)

lemma probe_view_initialized:
  assumes "trGet tr ''metadata/manifest'' = Inr raw" "raw \<noteq> []" "probe_view P tr = Inr rep"
  shows "rpResult rep \<in> {Valid, Partial, UnsupportedVersion}"
  using assms probe_manifest_result by (fastforce simp: probe_view_def getOptional_def bind_result_Inr)

lemma seq_step_ok: "seq_step f g e = (e', None) \<Longrightarrow> \<exists>e1. f e = (e1, None) \<and> g e1 = (e', None)"
  by (auto simp: seq_step_def split: prod.splits option.splits)

context remote_store
begin

lemma put_step_keeps:
  assumes "snOps N = ops" "put_step N k b e = (e1, err)" "inv (enRemote e)"
  shows "inv (enRemote e1)"
    and "valid k \<Longrightarrow> err = None \<Longrightarrow> trGet (remote_of N e1) k = Inr b"
    and "valid k \<Longrightarrow> valid k' \<Longrightarrow> k' \<noteq> k \<Longrightarrow> trGet (remote_of N e) k' = Inr c \<Longrightarrow> trGet (remote_of N e1) k' = Inr c"
proof -
  obtain s where s: "roPut ops (enRemote e) k b = (s, err)" "enRemote e1 = s"
    using assms(1,2) by (auto simp: put_step_def split: prod.splits)
  show "inv (enRemote e1)" using put_inv[OF assms(3) s(1)] s(2) by simp
  show "valid k \<Longrightarrow> err = None \<Longrightarrow> trGet (remote_of N e1) k = Inr b" using put_get assms(1,3) s by simp
  show "valid k \<Longrightarrow> valid k' \<Longrightarrow> k' \<noteq> k \<Longrightarrow> trGet (remote_of N e) k' = Inr c \<Longrightarrow> trGet (remote_of N e1) k' = Inr c"
    using put_other[OF assms(3) _ _ _ s(1)] assms(1) s(2) by simp
qed

lemma initialized_manifest:
  assumes N: "snOps N = ops" and inv: "inv (enRemote e)" and ok: "InitializeRemote N P o' m smk e = (e', None)"
    and session: "\<And>s s1. inv s \<Longrightarrow> snBegin N s = (s1, None) \<Longrightarrow> inv s1"
    and v: "valid ''metadata/manifest''" "valid ''metadata/version''"
      "valid (path_join [''metadata'', ''devices'', opDeviceID o' @ ''.json''])"
      "path_join [''metadata'', ''devices'', opDeviceID o' @ ''.json''] \<noteq> ''metadata/manifest''"
  shows "\<exists>rm body. json_remote (snCodec N) rm = Inr body \<and> trGet (remote_of N e') ''metadata/manifest'' = Inr body"
proof -
  obtain e1 rep where p: "Probe N P e = (e1, Inr rep)" using ok by (cases "Probe N P e"; cases "snd (Probe N P e)") (auto simp: InitializeRemote_def)
  have i1: "inv (enRemote e1)"
    using p session[OF inv] by (auto simp: Probe_def remote_step_def split: prod.splits option.splits)
  from ok p obtain e2 e3 e4 e5 where s: "put_generation_step N m e1 = (e2, None)" "register_self N o' e2 = (e3, None)"
      "publishGenerationMaterial N m e3 = (e4, None)" "put_manifests N o' m smk e4 = (e5, None)" "publishDeviceRecord N o' (opDeviceID o') e5 = (e', None)"
    by (auto simp: InitializeRemote_def split: if_splits dest!: seq_step_ok)
  have "inv (enRemote e3)" using i1 s(1,2) by (auto simp: put_generation_step_def register_self_def split: sum.splits)
  then have i4: "inv (enRemote e4)"
    using s(3) put_step_keeps(1)[OF N] by (auto simp: publishGenerationMaterial_def split: sum.splits)
  from s(4) obtain rm body e6 where b: "json_remote (snCodec N) rm = Inr body" "put_step N ''metadata/manifest'' body e4 = (e6, None)"
      and "\<exists>e7. put_step N ''metadata/version'' (str_bytes ''{\"version\":1}'') e6 = (e7, None) \<and> enRemote e5 = enRemote e7"
    by (auto simp: put_manifests_def result_Inr split: sum.splits dest!: seq_step_ok)
  then obtain e7 where e7: "put_step N ''metadata/version'' (str_bytes ''{\"version\":1}'') e6 = (e7, None)" "enRemote e5 = enRemote e7" by blast
  note k6 = put_step_keeps[OF N b(2) i4] and k7 = put_step_keeps[OF N e7(1)]
  have i5: "inv (enRemote e5)" using k7(1)[OF k6(1)] e7(2) by simp
  have "trGet (remote_of N e5) ''metadata/manifest'' = Inr body"
    using k7(3)[OF k6(1) v(2,1) _ k6(2)[OF v(1)]] e7(2) by simp
  then have "trGet (remote_of N e') ''metadata/manifest'' = Inr body"
    using s(5) put_step_keeps(3)[OF N _ i5 v(3,1) v(4)[symmetric]] by (auto simp: publishDeviceRecord_def split: sum.splits)
  then show ?thesis using b(1) by blast
qed

end

section \<open>Properties\<close>


subsection \<open>Concrete runs\<close>

definition good_put :: put_faults where
  "good_put = \<lparr>pfUUID = ''u'', pfWrite = None, pfPartial = [], pfRename = None, pfKeepsTmp = False\<rparr>"

definition dir_env :: "entries sync_env" where
  "dir_env = \<lparr>snPull = snPull demo_sync_env, snKey = demo_key_env,
     snCodec = demo_remote_codec\<lparr>json_remote := (\<lambda>m. Inr [1, word_of_int (rmCounter m)])\<rparr>, snGc = demo_gc_codec,
     snSnap = demo_snapshot_codec, snOps = directory_ops (\<lambda>_ _. good_put), snBegin = (\<lambda>s. (s, None)), snEnd = (\<lambda>s. (s, None)),
     snDedupe = (\<lambda>s. (s, None)), snSha = (\<lambda>b. b), snAck = (\<lambda>_. Inr [7]), snManifest = (\<lambda>_. Inr [8]), snFido = ([], None)\<rparr>"

definition demo_probe :: probe_env where
  "demo_probe = \<lparr>prRemote = (\<lambda>_. Inr (1, ''g1'')), prGen = (\<lambda>_. Inr (demo_gen_of ''g1'' 1)), prExpensive = False\<rparr>"

definition fresh_engine :: "entries engine" where
  "fresh_engine = \<lparr>enDb = empty_db, enKeys = empty_keydb, enRemote = [], enChanges = empty_cs\<rparr>"


end
