(* ===== verification/Equalize.thy ===== *)
theory Equalize
  imports Gc Directory
begin

text \<open>
  Mirroring the endpoints (\<^verbatim>\<open>internal/sync/equalize/equalize.go\<close>): every object some endpoint lists is copied to the endpoints that do
  not list it. The endpoints' states are a list beside the list of endpoints; a session is the pair of \<^verbatim>\<open>Begin\<close> and \<^verbatim>\<open>End\<close>.
\<close>

section \<open>The operation\<close>

record 's endpoint =
  epID :: string
  epOps :: "'s remote_ops"
  epSession :: "(('s \<Rightarrow> 's \<times> go_error option) \<times> ('s \<Rightarrow> 's \<times> go_error option)) option"

definition skipKey :: "string \<Rightarrow> bool" where
  "skipKey key =
     (let base = last (Split key (CHR ''/''))
      in Contains base ''.tmp-'' \<or> HasSuffix base ''.tmp'' \<or> HasPrefix key ''metadata/health/'')"

text \<open>\<^verbatim>\<open>manifestCounter\<close>: \<open>counter\<close> reads the one field from JSON.\<close>

definition manifestCounter :: "(bytes \<Rightarrow> int result) \<Rightarrow> bytes \<Rightarrow> int" where
  "manifestCounter counter raw = (case counter raw of Inl _ \<Rightarrow> - 1 | Inr n \<Rightarrow> n)"

definition ep_view :: "'s endpoint list \<Rightarrow> 's list \<Rightarrow> nat \<Rightarrow> transport" where
  "ep_view eps ss i = roView (epOps (eps ! i)) (ss ! i)"

text \<open>The guard on the manifest: a destination that has one with the same or a larger counter keeps it.\<close>

definition keeps_manifest :: "(bytes \<Rightarrow> int result) \<Rightarrow> transport \<Rightarrow> string \<Rightarrow> bytes \<Rightarrow> bool" where
  "keeps_manifest counter dest key raw \<longleftrightarrow>
     key = ''metadata/manifest'' \<and> manifestCounter counter raw \<ge> 0
     \<and> (case trGet dest key of Inl _ \<Rightarrow> False | Inr destRaw \<Rightarrow> manifestCounter counter raw \<le> manifestCounter counter destRaw)"

fun put_dests :: "(bytes \<Rightarrow> int result) \<Rightarrow> 's endpoint list \<Rightarrow> string \<Rightarrow> bytes \<Rightarrow> nat list \<Rightarrow>
    's list \<times> go_error list \<Rightarrow> 's list \<times> go_error list" where
  "put_dests counter eps key raw [] st = st"
| "put_dests counter eps key raw (i # ds) (ss, errs) =
     (if keeps_manifest counter (ep_view eps ss i) key raw then put_dests counter eps key raw ds (ss, errs)
      else (case roPut (epOps (eps ! i)) (ss ! i) key raw of
              (s', None) \<Rightarrow> put_dests counter eps key raw ds (ss[i := s'], errs)
            | (s', Some e) \<Rightarrow> put_dests counter eps key raw ds (ss[i := s'], errs @ [Wrapped (epID (eps ! i) @ '': put '' @ key) e])))"

definition equalize_key :: "(bytes \<Rightarrow> int result) \<Rightarrow> 's endpoint list \<Rightarrow> string list list \<Rightarrow> string \<Rightarrow>
    's list \<times> go_error list \<Rightarrow> 's list \<times> go_error list" where
  "equalize_key counter eps haves key st =
     (let sources = filter (\<lambda>i. key \<in> set (haves ! i)) [0..<length eps];
          dests = filter (\<lambda>i. key \<notin> set (haves ! i)) [0..<length eps]
      in if sources = [] \<or> dests = [] then st
         else (case trGet (ep_view eps (fst st) (sources ! 0)) key of
                 Inl e \<Rightarrow> (fst st, snd st @ [Wrapped (epID (eps ! (sources ! 0)) @ '': get '' @ key) e])
               | Inr raw \<Rightarrow> put_dests counter eps key raw dests st))"

definition list_endpoint :: "'s endpoint \<Rightarrow> 's \<Rightarrow> string list result" where
  "list_endpoint ep s =
     (case ListLayoutObjects (roView (epOps ep) s) of
        Inl e \<Rightarrow> Inl (Wrapped (epID ep @ '': list'') e)
      | Inr objs \<Rightarrow> Inr (filter (\<lambda>k. \<not> skipKey k) (map obKey objs)))"

definition listings :: "'s endpoint list \<Rightarrow> 's list \<Rightarrow> string list list" where
  "listings eps ss = map2 (\<lambda>ep s. case list_endpoint ep s of Inl _ \<Rightarrow> [] | Inr ks \<Rightarrow> ks) eps ss"

definition list_errors :: "'s endpoint list \<Rightarrow> 's list \<Rightarrow> go_error list" where
  "list_errors eps ss = concat (map2 (\<lambda>ep s. case list_endpoint ep s of Inl e \<Rightarrow> [e] | Inr _ \<Rightarrow> []) eps ss)"

definition Join :: "go_error list \<Rightarrow> go_error option" where
  "Join errs = (if errs = [] then None else Some (Joined errs))"

text \<open>The part between the sessions; the keys of the union come in the order of a map, here the order of the listings.\<close>

definition mirror :: "(bytes \<Rightarrow> int result) \<Rightarrow> 's endpoint list \<Rightarrow> 's list \<Rightarrow> 's list \<times> go_error list" where
  "mirror counter eps ss =
     fold (equalize_key counter eps (listings eps ss)) (remdups (concat (listings eps ss))) (ss, list_errors eps ss)"

text \<open>\<^verbatim>\<open>Begin\<close> of every session in order: the first error stops, and the sessions begun are ended. \<open>begun\<close> counts the endpoints passed.\<close>

fun begin_all :: "'s endpoint list \<Rightarrow> 's list \<Rightarrow> nat \<Rightarrow> nat \<Rightarrow> 's list \<times> nat \<times> go_error option" where
  "begin_all eps ss i 0 = (ss, i, None)"
| "begin_all eps ss i (Suc n) =
     (case epSession (eps ! i) of
        None \<Rightarrow> begin_all eps ss (Suc i) n
      | Some (b, _) \<Rightarrow>
          (case b (ss ! i) of
             (s', Some e) \<Rightarrow> (ss[i := s'], i, Some (Wrapped (epID (eps ! i)) e))
           | (s', None) \<Rightarrow> begin_all eps (ss[i := s']) (Suc i) n))"

definition end_all :: "'s endpoint list \<Rightarrow> nat \<Rightarrow> 's list \<Rightarrow> 's list" where
  "end_all eps n ss = fold (\<lambda>i ss. case epSession (eps ! i) of None \<Rightarrow> ss | Some (_, f) \<Rightarrow> ss[i := fst (f (ss ! i))]) (rev [0..<n]) ss"

definition Equalize :: "(bytes \<Rightarrow> int result) \<Rightarrow> 's endpoint list \<Rightarrow> 's list \<Rightarrow> 's list \<times> go_error option" where
  "Equalize counter eps ss =
     (if length eps < 2 then (ss, None)
      else (case begin_all eps ss 0 (length eps) of
              (ss1, n, Some e) \<Rightarrow> (end_all eps n ss1, Some e)
            | (ss1, n, None) \<Rightarrow> (case mirror counter eps ss1 of (ss2, errs) \<Rightarrow> (end_all eps n ss2, Join errs))))"

section \<open>What one key does to one endpoint\<close>

lemma put_dests_effect:
  assumes "put_dests counter eps key raw ds (ss, errs) = (ss', errs')" "distinct ds" "set ds \<subseteq> {..<length ss}"
  shows "length ss' = length ss" "\<exists>es. errs' = errs @ es"
    "i \<notin> set ds \<Longrightarrow> ss' ! i = ss ! i"
    "i \<in> set ds \<Longrightarrow> ss' ! i = ss ! i \<and> keeps_manifest counter (ep_view eps ss i) key raw
       \<or> (\<exists>err. roPut (epOps (eps ! i)) (ss ! i) key raw = (ss' ! i, err) \<and> (errs' = [] \<longrightarrow> err = None))"
proof -
  have "length ss' = length ss \<and> (\<exists>es. errs' = errs @ es) \<and> (i \<notin> set ds \<longrightarrow> ss' ! i = ss ! i) \<and>
    (i \<in> set ds \<longrightarrow> ss' ! i = ss ! i \<and> keeps_manifest counter (ep_view eps ss i) key raw
       \<or> (\<exists>err. roPut (epOps (eps ! i)) (ss ! i) key raw = (ss' ! i, err) \<and> (errs' = [] \<longrightarrow> err = None)))"
    using assms
  proof (induction counter eps key raw ds "(ss, errs)" arbitrary: ss errs rule: put_dests.induct)
    case (2 counter eps key raw j ds ss errs)
    show ?case
    proof (cases "keeps_manifest counter (ep_view eps ss j) key raw")
      case True
      then show ?thesis using 2 by auto
    next
      case False
      obtain s e where p: "roPut (epOps (eps ! j)) (ss ! j) key raw = (s, e)" by (metis surj_pair)
      have same: "ep_view eps (ss[j := s]) i = ep_view eps ss i" if "i \<in> set ds" for i
        using that 2(5) by (cases "i = j") (auto simp: ep_view_def)
      show ?thesis
      proof (cases e)
        case None
        then show ?thesis using 2(2)[OF False p[unfolded None, symmetric] refl] 2(4-) False p same by (cases "i = j") auto
      next
        case (Some er)
        then show ?thesis using 2(3)[OF False p[unfolded Some, symmetric] refl] 2(4-) False p same by (cases "i = j") auto
      qed
    qed
  qed simp
  then show "length ss' = length ss" "\<exists>es. errs' = errs @ es" "i \<notin> set ds \<Longrightarrow> ss' ! i = ss ! i"
    "i \<in> set ds \<Longrightarrow> ss' ! i = ss ! i \<and> keeps_manifest counter (ep_view eps ss i) key raw
       \<or> (\<exists>err. roPut (epOps (eps ! i)) (ss ! i) key raw = (ss' ! i, err) \<and> (errs' = [] \<longrightarrow> err = None))" by blast+
qed

lemma equalize_key_effect:
  assumes "equalize_key counter eps haves key (ss, errs) = (ss', errs')" "length ss = length eps"
  shows "length ss' = length eps" "\<exists>es. errs' = errs @ es"
    "ss' ! i = ss ! i \<or> key \<notin> set (haves ! i) \<and> (\<exists>raw err. roPut (epOps (eps ! i)) (ss ! i) key raw = (ss' ! i, err))"
    "i < length eps \<Longrightarrow> key \<notin> set (haves ! i) \<Longrightarrow> j < length eps \<Longrightarrow> key \<in> set (haves ! j) \<Longrightarrow> errs' = [] \<Longrightarrow> key \<noteq> ''metadata/manifest'' \<Longrightarrow>
      \<exists>j raw. j < length eps \<and> key \<in> set (haves ! j) \<and> trGet (ep_view eps ss j) key = Inr raw
        \<and> roPut (epOps (eps ! i)) (ss ! i) key raw = (ss' ! i, None)"
proof -
  define sources where "sources = filter (\<lambda>i. key \<in> set (haves ! i)) [0..<length eps]"
  define dests where "dests = filter (\<lambda>i. key \<notin> set (haves ! i)) [0..<length eps]"
  have d: "distinct dests" "set dests \<subseteq> {..<length ss}" using assms(2) by (auto simp: dests_def)
  consider (same) "ss' = ss" "errs' = errs" "sources = [] \<or> dests = []"
    | (unread) e where "ss' = ss" "errs' = errs @ [e]"
    | (put) raw where "sources \<noteq> []" "trGet (ep_view eps ss (sources ! 0)) key = Inr raw" "put_dests counter eps key raw dests (ss, errs) = (ss', errs')"
    using assms(1) unfolding equalize_key_def Let_def sources_def[symmetric] dests_def[symmetric]
    by (auto split: if_splits sum.splits)
  note cs = this
  show "length ss' = length eps" using assms(2) put_dests_effect(1)[OF _ d] by (cases rule: cs) auto
  show "\<exists>es. errs' = errs @ es" using put_dests_effect(2)[OF _ d] by (cases rule: cs) auto
  show "ss' ! i = ss ! i \<or> key \<notin> set (haves ! i) \<and> (\<exists>raw err. roPut (epOps (eps ! i)) (ss ! i) key raw = (ss' ! i, err))"
  proof (cases rule: cs)
    case (put raw)
    then show ?thesis using put_dests_effect(3,4)[OF put(3) d, of i] by (cases "i \<in> set dests") (auto simp: dests_def)
  qed auto
  assume i: "i < length eps" "key \<notin> set (haves ! i)" and j: "j < length eps" "key \<in> set (haves ! j)"
    and ok: "errs' = []" "key \<noteq> ''metadata/manifest''"
  show "\<exists>j raw. j < length eps \<and> key \<in> set (haves ! j) \<and> trGet (ep_view eps ss j) key = Inr raw
        \<and> roPut (epOps (eps ! i)) (ss ! i) key raw = (ss' ! i, None)"
  proof (cases rule: cs)
    case same
    then show ?thesis using i j by (auto simp: sources_def dests_def filter_empty_conv)
  next
    case (unread e)
    then show ?thesis using ok by simp
  next
    case (put raw)
    have "i \<in> set dests" using i by (simp add: dests_def)
    then have "roPut (epOps (eps ! i)) (ss ! i) key raw = (ss' ! i, None)"
      using put_dests_effect(4)[OF put(3) d] ok by (auto simp: keeps_manifest_def)
    moreover have "sources ! 0 \<in> set sources" using put(1) by simp
    then have "sources ! 0 < length eps" "key \<in> set (haves ! (sources ! 0))" by (auto simp: sources_def)
    ultimately show ?thesis using put(2) by blast
  qed
qed

section \<open>What all the keys do\<close>

text \<open>The endpoints keep one contract; \<open>valid\<close> are the keys that are copied.\<close>

locale mirrored =
  fixes eps :: "'s endpoint list" and inv :: "'s \<Rightarrow> bool" and valid :: "string \<Rightarrow> bool" and below :: "string \<Rightarrow> string \<Rightarrow> bool"
  assumes stores: "i < length eps \<Longrightarrow> remote_store (epOps (eps ! i)) inv valid below"
begin

text \<open>The states the loop goes through: well-formed, and nothing an endpoint had under \<open>k\<close> is lost while other keys are copied.\<close>

lemma key_keeps:
  assumes "equalize_key counter eps haves key (ss, errs) = (ss', errs')" "length ss = length eps" "valid key"
    and "i < length eps" "inv (ss ! i)"
  shows "inv (ss' ! i)"
    and "valid k \<Longrightarrow> k \<noteq> key \<or> key \<in> set (haves ! i) \<Longrightarrow> trGet (ep_view eps ss i) k = Inr c \<Longrightarrow> trGet (ep_view eps ss' i) k = Inr c"
proof -
  note S = stores[OF assms(4)]
  note eff = equalize_key_effect(3)[OF assms(1,2), of i]
  show "inv (ss' ! i)" using eff remote_store.put_inv[OF S assms(5)] assms(5) by auto
  show "valid k \<Longrightarrow> k \<noteq> key \<or> key \<in> set (haves ! i) \<Longrightarrow> trGet (ep_view eps ss i) k = Inr c \<Longrightarrow> trGet (ep_view eps ss' i) k = Inr c"
    using eff remote_store.put_other[OF S assms(5,3)] by (auto simp: ep_view_def)
qed

lemma keys_keep:
  assumes "fold (equalize_key counter eps haves) ks (ss, errs) = (ss', errs')" "length ss = length eps" "\<And>k. k \<in> set ks \<Longrightarrow> valid k"
    and "i < length eps" "inv (ss ! i)"
  shows "length ss' = length eps" "\<exists>es. errs' = errs @ es" "inv (ss' ! i)"
    and "valid k \<Longrightarrow> k \<notin> set ks \<or> k \<in> set (haves ! i) \<Longrightarrow> trGet (ep_view eps ss i) k = Inr c \<Longrightarrow> trGet (ep_view eps ss' i) k = Inr c"
proof -
  have "length ss' = length eps \<and> (\<exists>es. errs' = errs @ es) \<and> inv (ss' ! i) \<and>
    (valid k \<longrightarrow> k \<notin> set ks \<or> k \<in> set (haves ! i) \<longrightarrow> trGet (ep_view eps ss i) k = Inr c \<longrightarrow> trGet (ep_view eps ss' i) k = Inr c)"
    using assms
  proof (induction ks arbitrary: ss errs)
    case (Cons key ks)
    obtain ss1 errs1 where k1: "equalize_key counter eps haves key (ss, errs) = (ss1, errs1)" by (metis surj_pair)
    note e1 = equalize_key_effect[OF k1 Cons.prems(2)]
    note p1 = key_keeps[OF k1 Cons.prems(2) _ Cons.prems(4,5)]
    have "fold (equalize_key counter eps haves) ks (ss1, errs1) = (ss', errs')" using Cons.prems(1) k1 by simp
    from Cons.IH[OF this e1(1) _ Cons.prems(4) p1(1)] Cons.prems(3)
    show ?case using p1(2)[of k c] e1(2) Cons.prems(3) by auto
  qed auto
  then show "length ss' = length eps" "\<exists>es. errs' = errs @ es" "inv (ss' ! i)"
    "valid k \<Longrightarrow> k \<notin> set ks \<or> k \<in> set (haves ! i) \<Longrightarrow> trGet (ep_view eps ss i) k = Inr c \<Longrightarrow> trGet (ep_view eps ss' i) k = Inr c"
    by blast+
qed

lemma keys_spread:
  assumes "fold (equalize_key counter eps haves) ks (ss, errs) = (ss', [])" "length ss = length eps" "\<And>k. k \<in> set ks \<Longrightarrow> valid k"
    and "\<And>i. i < length eps \<Longrightarrow> inv (ss ! i)" "distinct ks"
    and "key \<in> set ks" "key \<noteq> ''metadata/manifest''" "i < length eps" "key \<notin> set (haves ! i)" "j < length eps" "key \<in> set (haves ! j)"
  shows "\<exists>j raw. j < length eps \<and> key \<in> set (haves ! j) \<and> trGet (ep_view eps ss' j) key = Inr raw \<and> trGet (ep_view eps ss' i) key = Inr raw"
proof -
  obtain k1 k2 where ks: "ks = k1 @ key # k2" using assms(6) by (meson split_list)
  obtain ss1 errs1 where f1: "fold (equalize_key counter eps haves) k1 (ss, errs) = (ss1, errs1)" by (metis surj_pair)
  obtain ss2 errs2 where f2: "equalize_key counter eps haves key (ss1, errs1) = (ss2, errs2)" by (metis surj_pair)
  have f3: "fold (equalize_key counter eps haves) k2 (ss2, errs2) = (ss', [])" using assms(1) ks f1 f2 by simp
  have val: "\<And>k. k \<in> set k1 \<Longrightarrow> valid k" "\<And>k. k \<in> set k2 \<Longrightarrow> valid k" "valid key" using assms(3) ks by auto
  have len1: "length ss1 = length eps" and inv1: "\<And>i. i < length eps \<Longrightarrow> inv (ss1 ! i)"
    using keys_keep(1,3)[OF f1 assms(2) val(1)] assms(4,8) by auto
  have len2: "length ss2 = length eps" using equalize_key_effect(1)[OF f2 len1] .
  have inv2: "\<And>i. i < length eps \<Longrightarrow> inv (ss2 ! i)" using key_keeps(1)[OF f2 len1 val(3)] inv1 by blast
  have "errs2 = []" using keys_keep(2)[OF f3 len2 val(2) assms(8) inv2[OF assms(8)]] by simp
  from equalize_key_effect(4)[OF f2 len1 assms(8-11) this assms(7)] obtain j' raw where
    j': "j' < length eps" "key \<in> set (haves ! j')" "trGet (ep_view eps ss1 j') key = Inr raw" and
    put: "roPut (epOps (eps ! i)) (ss1 ! i) key raw = (ss2 ! i, None)" by blast
  have k2: "key \<notin> set k2" using assms(5) ks by simp
  have "trGet (ep_view eps ss2 i) key = Inr raw"
    using remote_store.put_get[OF stores[OF assms(8)] inv1[OF assms(8)] val(3) put] by (simp add: ep_view_def)
  then have "trGet (ep_view eps ss' i) key = Inr raw"
    using keys_keep(4)[OF f3 len2 val(2) assms(8) inv2[OF assms(8)] val(3)] k2 by blast
  moreover have "trGet (ep_view eps ss2 j') key = Inr raw"
    using key_keeps(2)[OF f2 len1 val(3) j'(1) inv1[OF j'(1)] val(3)] j' by blast
  then have "trGet (ep_view eps ss' j') key = Inr raw"
    using keys_keep(4)[OF f3 len2 val(2) j'(1) inv2[OF j'(1)] val(3)] k2 by blast
  ultimately show ?thesis using j' by blast
qed

end

section \<open>Properties\<close>

definition dir_endpoint :: "string \<times> (entries \<Rightarrow> string \<Rightarrow> put_faults) \<Rightarrow> entries endpoint" where
  "dir_endpoint x = \<lparr>epID = fst x, epOps = directory_ops (snd x), epSession = None\<rparr>"

interpretation dirs: mirrored "map dir_endpoint fs" "\<lambda>es. tree_ok (Dir es)" plain_key below_key for fs
  by (rule mirrored.intro) (simp add: dir_endpoint_def directory.remote_store_axioms del: tree_ok.simps)

lemma begin_all_none: "(\<And>j. j < i + n \<Longrightarrow> epSession (eps ! j) = None) \<Longrightarrow> begin_all eps ss i n = (ss, i + n, None)"
  by (induction eps ss i n rule: begin_all.induct) auto

lemma end_all_none: "(\<And>j. j < n \<Longrightarrow> epSession (eps ! j) = None) \<Longrightarrow> end_all eps n ss = ss"
  by (induction n arbitrary: ss) (auto simp: end_all_def)

lemma Equalize_dirs:
  assumes "Equalize counter (map dir_endpoint fs) ss = (ss', err)"
  shows "length fs < 2 \<and> ss' = ss \<or> mirror counter (map dir_endpoint fs) ss = (ss', case err of None \<Rightarrow> [] | Some (Joined es) \<Rightarrow> es)"
proof -
  have "epSession (map dir_endpoint fs ! j) = None" if "j < length fs" for j using that by (simp add: dir_endpoint_def)
  then have "begin_all (map dir_endpoint fs) ss 0 (length fs) = (ss, length fs, None)" "\<And>ss. end_all (map dir_endpoint fs) (length fs) ss = ss"
    using begin_all_none[of 0 "length fs" "map dir_endpoint fs" ss] by (auto intro: end_all_none)
  then show ?thesis using assms by (auto simp: Equalize_def Join_def split: prod.splits if_splits)
qed


definition mirror_faults :: put_faults where
  "mirror_faults = \<lparr>pfUUID = ''u'', pfWrite = None, pfPartial = [], pfRename = None, pfKeepsTmp = False\<rparr>"

definition mirror_eps :: "(string \<times> (entries \<Rightarrow> string \<Rightarrow> put_faults)) list" where
  "mirror_eps = [(''nas'', \<lambda>_ _. mirror_faults), (''usb'', \<lambda>_ _. mirror_faults)]"

definition mirror_states :: "entries list" where
  "mirror_states = [[(''acks'', Dir [(''A.ack'', File [1])])], [(''metadata'', Dir [(''version'', File [2])])]]"


end
