(* ===== verification/Gc_Safety.thy ===== *)
theory Gc_Safety
  imports Gc
begin

text \<open>
  When the plan of the garbage collector is safe. The order of checkpoints is a strict total order on well-formed
  frontiers; the planned bundles are acknowledged by every required device; the kept checkpoint stays.
\<close>

section \<open>The order of checkpoints\<close>

definition manifest_ok :: "manifest \<Rightarrow> bool" where
  "manifest_ok m \<longleftrightarrow> frontier_ok (mfFrontier m) \<and> score_fits (mfFrontier m)"

definition rank_key :: "manifest \<Rightarrow> int \<times> int \<times> string" where
  "rank_key m = (Score (mfFrontier m), mfCreatedAt m, mfID m)"

definition key_greater :: "int \<times> int \<times> string \<Rightarrow> int \<times> int \<times> string \<Rightarrow> bool" where
  "key_greater x y \<longleftrightarrow> fst x > fst y \<or> fst x = fst y \<and> (fst (snd x) > fst (snd y) \<or>
     fst (snd x) = fst (snd y) \<and> snd (snd x) > snd (snd y))"

lemma better_key:
  assumes "manifest_ok a" "manifest_ok b"
  shows "betterCheckpoint a b \<longleftrightarrow> key_greater (rank_key a) (rank_key b)"
proof -
  have ok: "frontier_ok (mfFrontier a)" "frontier_ok (mfFrontier b)" "score_fits (mfFrontier a)" "score_fits (mfFrontier b)"
    using assms by (auto simp: manifest_ok_def)
  note d1 = Dominates_Score[OF ok] and d2 = Dominates_Score[OF ok(2,1,4,3)]
  show ?thesis
    using d1 d2
    by (cases "Dominates (mfFrontier a) (mfFrontier b)"; cases "Dominates (mfFrontier b) (mfFrontier a)")
      (auto simp: betterCheckpoint_def key_greater_def rank_key_def Let_def)
qed

text \<open>On manifests with well-formed frontiers whose scores do not overflow, \<^verbatim>\<open>betterCheckpoint\<close>, which mixes the
  partial order of frontiers with scores, times and ids, is the lexicographic order on score, creation time and id,
  so sorting by it is well defined and a dominating frontier always comes first.\<close>

theorem betterCheckpoint_lexicographic:
  assumes "frontier_ok (mfFrontier a)" "frontier_ok (mfFrontier b)" "score_fits (mfFrontier a)" "score_fits (mfFrontier b)"
  shows "betterCheckpoint a b \<longleftrightarrow>
    (Score (mfFrontier a) > Score (mfFrontier b) \<or>
     Score (mfFrontier a) = Score (mfFrontier b) \<and>
       (mfCreatedAt a > mfCreatedAt b \<or> mfCreatedAt a = mfCreatedAt b \<and> mfID a > mfID b))"
  using better_key[of a b] assms by (simp add: manifest_ok_def key_greater_def rank_key_def)

interpretation ckpt_order: strict_weak_less betterCheckpoint "{m. manifest_ok m}"
proof
  fix x y z assume "x \<in> {m. manifest_ok m}" "y \<in> {m. manifest_ok m}"
  then show "betterCheckpoint x y \<Longrightarrow> \<not> betterCheckpoint y x"
    by (auto simp: better_key key_greater_def)
  assume "z \<in> {m. manifest_ok m}"
  with \<open>x \<in> _\<close> \<open>y \<in> _\<close> show "\<not> betterCheckpoint x y \<Longrightarrow> \<not> betterCheckpoint y z \<Longrightarrow> \<not> betterCheckpoint x z"
    by (auto simp: better_key key_greater_def)
qed

section \<open>The parts of a plan\<close>

lemma Evaluate_parts:
  assumes "Evaluate C tr required cid = (p, None)"
  obtains acks objs ckpt where "loadAcks C tr = Inr acks" "ListLayoutObjects tr = Inr objs"
    "plEligible p \<longleftrightarrow> blocked_by acks cid required = [] \<and> required \<noteq> []"
    "(if plEligible p then resolveCheckpoint C tr acks required cid else Inr zero_manifest) = Inr ckpt"
    "plCheckpoint p = mfID ckpt" "plBundles p = map obKey (filter (covered_bundle C tr ckpt) objs)"
    "plCheckpoints p = sort_by (<) (map (\<lambda>i. path_join [''checkpoints'', i])
       (filter (ckpt_goes (ckpt_meta C tr objs) (fst (keep_of C tr (ckpt_meta C tr objs) (mfID ckpt)))
          (snd (keep_of C tr (ckpt_meta C tr objs) (mfID ckpt))) (plEligible p \<and> mfID ckpt \<noteq> [])) (ckpt_ids tr objs)))"
    "plTmpOrphans p = map obKey (filter (\<lambda>ob. is_tmp (obKey ob)) objs)" "plGenerations p = []"
proof -
  obtain acks where acks: "loadAcks C tr = Inr acks"
    using assms by (cases "loadAcks C tr") (auto simp: Evaluate_def)
  obtain objs where objs: "ListLayoutObjects tr = Inr objs"
    using assms acks by (cases "ListLayoutObjects tr") (auto simp: Evaluate_def Let_def)
  let ?el = "length (blocked_by acks cid required) = 0 \<and> length required > 0"
  obtain ckpt where ckpt: "(if ?el then resolveCheckpoint C tr acks required cid else Inr zero_manifest) = Inr ckpt"
    using assms acks objs
    by (cases "if ?el then resolveCheckpoint C tr acks required cid else Inr zero_manifest")
      (auto simp: Evaluate_def Let_def split: if_splits)
  have "p = fst (Evaluate C tr required cid)" using assms by simp
  with acks objs ckpt show thesis
    by (intro that[of acks objs ckpt]) (auto simp: Evaluate_def Let_def zero_plan_def case_prod_beta split: if_splits)
qed

section \<open>Bundles\<close>

lemma all_dominateD: "all_dominate acks required f \<Longrightarrow> i \<in> set required \<Longrightarrow> \<exists>a. map_of acks i = Some a \<and> Dominates (akFrontier a) f"
  by (induction acks required f rule: all_dominate.induct) (auto split: option.splits if_splits)

lemma Dominates_Covers:
  assumes "Dominates a m" "Covers m dev seq" "0 < seq"
  shows "Covers a dev seq"
proof -
  from assms(2,3) obtain s where "map_of m dev = Some s" "seq \<le> s"
    by (auto simp: Covers_def get_default_def split: option.splits)
  with assms(1) show ?thesis by (auto simp: Dominates_iff_all Covers_def dest!: map_of_SomeD)
qed

lemma covered_bundleD:
  assumes "covered_bundle C tr ckpt ob"
  obtains raw h where "gc_read tr (obKey ob) = Inr raw" "PeekHeader (gcBundle C) raw = Inr h" "mfID ckpt \<noteq> []"
    "Covers (mfFrontier ckpt) (bhDeviceID h) (bhSeqEnd h)" "HasPrefix (obKey ob) ''events/''"
  using assms by (auto simp: covered_bundle_def split: if_split_asm sum.split_asm)

text \<open>What it takes for a device to be done with a bundle: it holds the events, or it has acknowledged the very
  checkpoint the caller named.\<close>

definition acknowledged :: "string \<Rightarrow> ack \<Rightarrow> bundle_header \<Rightarrow> bool" where
  "acknowledged cid a h \<longleftrightarrow>
     (if cid = [] then bhSeqEnd h \<le> 0 \<or> Covers (akFrontier a) (bhDeviceID h) (bhSeqEnd h) else akCheckpointID a = cid)"

lemma resolve_acknowledged:
  assumes "resolveCheckpoint C tr acks required cid = Inr ckpt" "mfID ckpt \<noteq> []" "blocked_by acks cid required = []"
    and "Covers (mfFrontier ckpt) (bhDeviceID h) (bhSeqEnd h)" "i \<in> set required"
  shows "\<exists>a. map_of acks i = Some a \<and> acknowledged cid a h"
proof (cases "cid = []")
  case True
  with assms(1) obtain xs where xs: "(case find (\<lambda>m. allDominate acks required (mfFrontier m)) xs of None \<Rightarrow> zero_manifest | Some m \<Rightarrow> m) = ckpt"
    by (auto simp: resolveCheckpoint_def result_Inr)
  have "allDominate acks required (mfFrontier ckpt)"
  proof (cases "find (\<lambda>m. allDominate acks required (mfFrontier m)) xs")
    case None
    with xs assms(2) show ?thesis by (auto simp: zero_manifest_def)
  next
    case (Some m)
    with xs show ?thesis by (auto simp: find_Some_iff)
  qed
  from all_dominateD[OF _ assms(5)] this obtain a where "map_of acks i = Some a" "Dominates (akFrontier a) (mfFrontier ckpt)"
    by (auto simp: allDominate_def)
  with Dominates_Covers[OF this(2) assms(4)] True show ?thesis
    by (cases "0 < bhSeqEnd h") (auto simp: acknowledged_def)
next
  case False
  with assms(3,5) show ?thesis
    by (auto simp: blocked_by_def filter_empty_conv ackCovers_def acknowledged_def split: option.splits)
qed

lemma planned_bundle_acknowledged:
  assumes "Evaluate C tr required cid = (p, None)" "key \<in> set (plBundles p)"
  shows "required \<noteq> [] \<and> plEligible p \<and> HasPrefix key ''events/'' \<and>
    (\<exists>acks raw h. loadAcks C tr = Inr acks \<and> trGet tr key = Inr raw \<and> PeekHeader (gcBundle C) raw = Inr h \<and>
       (\<forall>i \<in> set required. \<exists>a. map_of acks i = Some a \<and> acknowledged cid a h))"
proof -
  obtain acks objs ckpt where E: "loadAcks C tr = Inr acks" "plEligible p \<longleftrightarrow> blocked_by acks cid required = [] \<and> required \<noteq> []"
    "(if plEligible p then resolveCheckpoint C tr acks required cid else Inr zero_manifest) = Inr ckpt"
    "plBundles p = map obKey (filter (covered_bundle C tr ckpt) objs)"
    by (rule Evaluate_parts[OF assms(1)])
  from assms(2) E(4) obtain ob where ob: "covered_bundle C tr ckpt ob" "key = obKey ob" by auto
  obtain raw h where h: "gc_read tr (obKey ob) = Inr raw" "PeekHeader (gcBundle C) raw = Inr h" "mfID ckpt \<noteq> []"
    "Covers (mfFrontier ckpt) (bhDeviceID h) (bhSeqEnd h)" "HasPrefix (obKey ob) ''events/''"
    by (rule covered_bundleD[OF ob(1)])
  have el: "plEligible p" using E(3) h(3) by (auto simp: zero_manifest_def split: if_splits)
  with E(2,3) have "resolveCheckpoint C tr acks required cid = Inr ckpt" "blocked_by acks cid required = []" "required \<noteq> []" by auto
  with resolve_acknowledged[OF this(1) h(3) this(2) h(4)] E(1) h el ob(2) show ?thesis by (auto simp: gc_read_def)
qed

text \<open>C9: Garbage collection plans a bundle only when it is safe for every required device: there is at least one,
  none is blocked, and each has published an acknowledgement that either covers the last event of the bundle or,
  when the caller named a checkpoint, names that checkpoint.\<close>

theorem gc_deletes_only_acknowledged:
  assumes "Evaluate C tr required cid = (p, None)" "key \<in> set (plBundles p)"
  shows "required \<noteq> [] \<and> plEligible p \<and> HasPrefix key ''events/'' \<and>
    (\<exists>acks raw h. loadAcks C tr = Inr acks \<and> trGet tr key = Inr raw \<and> PeekHeader (gcBundle C) raw = Inr h \<and>
       (\<forall>i \<in> set required. \<exists>a. map_of acks i = Some a \<and> acknowledged cid a h))"
  using assms by (rule planned_bundle_acknowledged)

section \<open>Checkpoints\<close>

text \<open>A repository in order: the id in a manifest is the one of its directory, ids are plain path elements, and the
  frontiers are well formed.\<close>

definition repo_ok :: "gc_codec \<Rightarrow> transport \<Rightarrow> object list \<Rightarrow> bool" where
  "repo_ok C tr objs \<longleftrightarrow> list_all (\<lambda>(i, m). mfID m = i \<and> manifest_ok m) (ckpt_meta C tr objs) \<and>
     list_all plain_elem (ckpt_ids tr objs) \<and> list_all (\<lambda>(i, m). plain_elem i) (ckpt_meta C tr objs)"

definition chain :: "manifest list \<Rightarrow> bool" where
  "chain ms \<longleftrightarrow> list_all (\<lambda>a. list_all (\<lambda>b. Dominates (mfFrontier a) (mfFrontier b) \<or> Dominates (mfFrontier b) (mfFrontier a)) ms) ms"

lemma plain_checkpoints: "plain_elem ''checkpoints''"
  by (simp add: plain_elem_def)

lemma ckpt_path_inj:
  assumes "plain_elem i" "plain_elem j" "path_join [''checkpoints'', i] = path_join [''checkpoints'', j]"
  shows "i = j"
  using assms path_join_plain[of "[''checkpoints'', i]"] path_join_plain[of "[''checkpoints'', j]"] plain_checkpoints by simp

lemma pickBest_spec:
  assumes "pickBestCheckpoint meta = Some best" "list_all (\<lambda>(i, m). manifest_ok m) meta"
  shows "best \<in> snd ` set meta" "m \<in> snd ` set meta \<Longrightarrow> \<not> betterCheckpoint m best"
proof -
  from assms(1) have ne: "map snd meta \<noteq> []" and b: "best = hd (sort_by betterCheckpoint (map snd meta))"
    by (auto simp: pickBestCheckpoint_def sortCheckpoints_def hd_conv_nth split: if_splits)
      (metis hd_conv_nth length_0_conv length_map length_sort_by)
  have "set (map snd meta) \<subseteq> {m. manifest_ok m}" using assms(2) by (auto simp: list_all_iff)
  from ckpt_order.hd_sort_by_least[OF ne this] b
  show "best \<in> snd ` set meta" "m \<in> snd ` set meta \<Longrightarrow> \<not> betterCheckpoint m best" by auto
qed

lemma pickBest_None: "pickBestCheckpoint meta = None \<longleftrightarrow> meta = []"
  by (simp add: pickBestCheckpoint_def)

lemma gc_keeps_best:
  assumes "Evaluate C tr required cid = (p, None)" "ListLayoutObjects tr = Inr objs" "repo_ok C tr objs"
    and "pickBestCheckpoint (ckpt_meta C tr objs) = Some best"
  shows "path_join [''checkpoints'', mfID best] \<notin> set (plCheckpoints p)"
proof
  obtain objs' and ckpt :: manifest where E: "ListLayoutObjects tr = Inr objs'"
    "plCheckpoints p = sort_by (<) (map (\<lambda>i. path_join [''checkpoints'', i])
       (filter (ckpt_goes (ckpt_meta C tr objs') (fst (keep_of C tr (ckpt_meta C tr objs') (mfID ckpt)))
          (snd (keep_of C tr (ckpt_meta C tr objs') (mfID ckpt))) (plEligible p \<and> mfID ckpt \<noteq> [])) (ckpt_ids tr objs')))"
    by (rule Evaluate_parts[OF assms(1)]) blast
  then have o: "objs' = objs" using assms(2) by simp
  have keep: "keep_of C tr (ckpt_meta C tr objs) (mfID ckpt) = (mfID best, Some best)" by (simp add: keep_of_def assms(4))
  assume "path_join [''checkpoints'', mfID best] \<in> set (plCheckpoints p)"
  then obtain i where i: "path_join [''checkpoints'', mfID best] = path_join [''checkpoints'', i]" "i \<in> set (ckpt_ids tr objs)"
    "ckpt_goes (ckpt_meta C tr objs) (mfID best) (Some best) (plEligible p \<and> mfID ckpt \<noteq> []) i"
    unfolding E(2) o keep by auto
  have "best \<in> snd ` set (ckpt_meta C tr objs)"
    by (rule pickBest_spec(1)[OF assms(4)]) (use assms(3) in \<open>auto simp: repo_ok_def list_all_iff\<close>)
  then have "plain_elem (mfID best)" "plain_elem i" using assms(3) i(2) by (fastforce simp: repo_ok_def list_all_iff)+
  with ckpt_path_inj[OF this i(1)] i(3) show False by (simp add: ckpt_goes_def)
qed

text \<open>The best checkpoint of the repository, the one with the greatest score, is never planned for removal.\<close>

theorem gc_keeps_best_checkpoint:
  assumes "Evaluate C tr required cid = (p, None)" "ListLayoutObjects tr = Inr objs" "repo_ok C tr objs"
    and "pickBestCheckpoint (ckpt_meta C tr objs) = Some best"
  shows "path_join [''checkpoints'', mfID best] \<notin> set (plCheckpoints p)"
  using assms by (rule gc_keeps_best)

text \<open>C10: When the checkpoints of the repository form a chain, nothing is lost for a device that joins later: for
  every planned bundle a checkpoint stays whose frontier covers the bundle's events.\<close>

theorem gc_bundles_stay_covered:
  assumes "Evaluate C tr required cid = (p, None)" "key \<in> set (plBundles p)"
    and "ListLayoutObjects tr = Inr objs" "repo_ok C tr objs" "chain (map snd (ckpt_meta C tr objs))"
    and "\<And>acks m. loadAcks C tr = Inr acks \<Longrightarrow> resolveCheckpoint C tr acks required cid = Inr m \<Longrightarrow> mfID m \<noteq> [] \<Longrightarrow>
      m \<in> snd ` set (ckpt_meta C tr objs)"
  shows "\<exists>best raw h. best \<in> snd ` set (ckpt_meta C tr objs) \<and> path_join [''checkpoints'', mfID best] \<notin> set (plCheckpoints p) \<and>
    trGet tr key = Inr raw \<and> PeekHeader (gcBundle C) raw = Inr h \<and> Covers (mfFrontier best) (bhDeviceID h) (bhSeqEnd h)"
proof -
  obtain acks objs' ckpt where E: "loadAcks C tr = Inr acks" "ListLayoutObjects tr = Inr objs'"
    "(if plEligible p then resolveCheckpoint C tr acks required cid else Inr zero_manifest) = Inr ckpt"
    "plBundles p = map obKey (filter (covered_bundle C tr ckpt) objs')"
    by (rule Evaluate_parts[OF assms(1)])
  from assms(2) E(4) obtain ob where ob: "covered_bundle C tr ckpt ob" "key = obKey ob" by auto
  obtain raw h where h: "gc_read tr (obKey ob) = Inr raw" "PeekHeader (gcBundle C) raw = Inr h" "mfID ckpt \<noteq> []"
    "Covers (mfFrontier ckpt) (bhDeviceID h) (bhSeqEnd h)"
    by (rule covered_bundleD[OF ob(1)])
  let ?meta = "ckpt_meta C tr objs"
  have ckpt: "ckpt \<in> snd ` set ?meta"
    using E(1,3) h(3) assms(6) by (auto simp: zero_manifest_def split: if_splits)
  then obtain best where best: "pickBestCheckpoint ?meta = Some best" using pickBest_None[of ?meta] by (cases "pickBestCheckpoint ?meta") auto
  have mok: "list_all (\<lambda>(i, m). manifest_ok m) ?meta" using assms(4) by (auto simp: repo_ok_def list_all_iff)
  note b = pickBest_spec[OF best mok]
  have ok: "manifest_ok best" "manifest_ok ckpt" using b(1) ckpt mok by (auto simp: list_all_iff)
  have "Dominates (mfFrontier best) (mfFrontier ckpt)"
  proof (rule ccontr)
    assume n: "\<not> Dominates (mfFrontier best) (mfFrontier ckpt)"
    then have "Dominates (mfFrontier ckpt) (mfFrontier best)"
      using assms(5) b(1) ckpt by (auto simp: chain_def list_all_iff)
    with n have "betterCheckpoint ckpt best" by (simp add: betterCheckpoint_def)
    with b(2)[OF ckpt] show False ..
  qed
  then have "Covers (mfFrontier best) (bhDeviceID h) (bhSeqEnd h)"
    using h(4) ok by (auto simp: manifest_ok_def Dominates_iff frontier_ok_map_ok Covers_def intro: order_trans)
  with b(1) h(1,2) ob(2) gc_keeps_best[OF assms(1,3,4) best] show ?thesis by (auto simp: gc_read_def)
qed

section \<open>Without acknowledgements\<close>

text \<open>While some required device is blocked, or there is none, no bundle is planned, and a checkpoint with a readable
  manifest is planned only if the kept checkpoint dominates it.\<close>

theorem gc_blocked_plan:
  assumes "Evaluate C tr required cid = (p, None)" "\<not> plEligible p" "ListLayoutObjects tr = Inr objs"
    and "k \<in> set (plCheckpoints p)"
  shows "plBundles p = [] \<and> (\<exists>i. k = path_join [''checkpoints'', i] \<and>
    (case map_of (ckpt_meta C tr objs) i of
       None \<Rightarrow> True
     | Some m \<Rightarrow> (case snd (keep_of C tr (ckpt_meta C tr objs) []) of
                    None \<Rightarrow> False | Some keep \<Rightarrow> Dominates (mfFrontier keep) (mfFrontier m))))"
proof -
  obtain objs' and ckpt :: manifest where E: "ListLayoutObjects tr = Inr objs'"
    "(if plEligible p then resolveCheckpoint C tr acks required cid else Inr zero_manifest) = Inr ckpt"
    "plBundles p = map obKey (filter (covered_bundle C tr ckpt) objs')"
    "plCheckpoints p = sort_by (<) (map (\<lambda>i. path_join [''checkpoints'', i])
       (filter (ckpt_goes (ckpt_meta C tr objs') (fst (keep_of C tr (ckpt_meta C tr objs') (mfID ckpt)))
          (snd (keep_of C tr (ckpt_meta C tr objs') (mfID ckpt))) (plEligible p \<and> mfID ckpt \<noteq> [])) (ckpt_ids tr objs')))"
    for acks by (rule Evaluate_parts[OF assms(1)]) (use assms(2) in auto)
  have o: "objs' = objs" and z: "mfID ckpt = []" using E(1,2) assms(2,3) by (auto simp: zero_manifest_def)
  from assms(4) obtain i where i: "k = path_join [''checkpoints'', i]"
    "ckpt_goes (ckpt_meta C tr objs) (fst (keep_of C tr (ckpt_meta C tr objs) [])) (snd (keep_of C tr (ckpt_meta C tr objs) [])) False i"
    unfolding E(4) o z by auto
  have "plBundles p = []" unfolding E(3) by (simp add: filter_empty_conv covered_bundle_def z)
  moreover from i(2) have "case map_of (ckpt_meta C tr objs) i of
       None \<Rightarrow> True
     | Some m \<Rightarrow> (case snd (keep_of C tr (ckpt_meta C tr objs) []) of
                    None \<Rightarrow> False | Some keep \<Rightarrow> Dominates (mfFrontier keep) (mfFrontier m))"
    by (auto simp: ckpt_goes_def Let_def split: option.splits if_splits)
  ultimately show ?thesis using i(1) by blast
qed

section \<open>Carrying out\<close>

text \<open>\<^verbatim>\<open>Execute\<close> removes the planned keys in order and stops at the first one whose removal fails with anything but
  "not found": the remote is then as after removing a part of the plan, and a rerun can go on. A dry run changes
  nothing.\<close>

theorem Execute_removes_prefix:
  "\<exists>n. n \<le> length (plan_keys p) \<and> fst (Execute remove s p dryRun) =
       foldl (\<lambda>s k. fst (remove s k)) s (take n (if dryRun then [] else plan_keys p)) \<and>
     (snd (Execute remove s p dryRun) = None) = (dryRun \<or> (n = length (plan_keys p) \<and>
        list_all (\<lambda>m. case snd (remove (foldl (\<lambda>s k. fst (remove s k)) s (take m (plan_keys p))) (plan_keys p ! m)) of
           None \<Rightarrow> True | Some e \<Rightarrow> is_missing e) [0..<length (plan_keys p)]))"
proof -
  let ?run = "\<lambda>s ks. foldl (\<lambda>s k. fst (remove s k)) s ks"
  let ?ok = "\<lambda>s ks m. case snd (remove (?run s (take m ks)) (ks ! m)) of None \<Rightarrow> True | Some e \<Rightarrow> is_missing e"
  have loop: "\<exists>n \<le> length ks. fst (execute_loop remove s ks) = ?run s (take n ks) \<and>
      (snd (execute_loop remove s ks) = None) = (n = length ks \<and> (\<forall>m < length ks. ?ok s ks m))" for s ks
  proof (induction ks arbitrary: s)
    case (Cons k ks)
    obtain s' e where r: "remove s k = (s', e)" by fastforce
    show ?case
    proof (cases "e = None \<or> is_missing (the e)")
      case True
      then have d: "execute_loop remove s (k # ks) = execute_loop remove s' ks"
        using r by (auto simp: DeleteIfExists_def split: option.splits)
      obtain n where n: "n \<le> length ks" "fst (execute_loop remove s' ks) = ?run s' (take n ks)"
        "(snd (execute_loop remove s' ks) = None) = (n = length ks \<and> (\<forall>m < length ks. ?ok s' ks m))"
        using Cons.IH by blast
      have "(\<forall>m < length (k # ks). ?ok s (k # ks) m) \<longleftrightarrow> (\<forall>m < length ks. ?ok s' ks m)"
        using True r by (auto simp: All_less_Suc2 split: option.splits)
      with n d r show ?thesis by (intro exI[of _ "Suc n"]) simp
    next
      case False
      then have "execute_loop remove s (k # ks) = (s', Some (Wrapped ''garbage collection was only partially completed'' (the e)))"
        using r by (auto simp: DeleteIfExists_def)
      moreover have "\<not> ?ok s (k # ks) 0" using False r by auto
      ultimately show ?thesis using r by (intro exI[of _ 1]) auto
    qed
  qed simp
  show ?thesis using loop[of "plan_keys p" s] by (auto simp: Execute_def list_all_iff)
qed

section \<open>Two repositories\<close>

text \<open>A repository with two checkpoints, one bundle and one acknowledgement, given by its frontiers.\<close>

definition gc_manifest :: "string \<Rightarrow> frontier \<Rightarrow> int \<Rightarrow> manifest" where
  "gc_manifest i f t = \<lparr>mfVersion = 1, mfID = i, mfGenerationID = ''g'', mfFrontier = f, mfCreatedAt = t\<rparr>"

definition gc_objs :: "string list \<Rightarrow> object list" where
  "gc_objs ks = map (\<lambda>k. \<lparr>obKey = k, obSize = 1\<rparr>) ks"

definition gc_transport :: transport where
  "gc_transport = \<lparr>
     trList = (\<lambda>p. if HasPrefix p ''acks'' then Inr (gc_objs [''acks/d''])
       else if HasPrefix p ''checkpoints'' then Inr (gc_objs [''checkpoints/P/manifest'', ''checkpoints/K/manifest''])
       else if HasPrefix p ''events'' then Inr (gc_objs [''events/A/x.bundle'']) else Inr []),
     trListDirs = (\<lambda>p. if HasPrefix p ''checkpoints'' then Inr [''checkpoints/P'', ''checkpoints/K''] else Inr []),
     trListShallow = None,
     trGet = (\<lambda>k. if k = ''acks/d'' then Inr [1] else if k = ''checkpoints/P/manifest'' then Inr [2]
       else if k = ''checkpoints/K/manifest'' then Inr [3] else if k = ''events/A/x.bundle'' then Inr [4] else Inl NotExist)\<rparr>"

definition gc_header :: bundle_header where
  "gc_header = \<lparr>bhVersion = 1, bhDeviceID = ''A'', bhSeqStart = 2, bhSeqEnd = 5, bhEventCount = 4, bhGenerationID = ''g'', bhNonce = []\<rparr>"

definition gc_codec_of :: "frontier \<Rightarrow> frontier \<Rightarrow> frontier \<Rightarrow> gc_codec" where
  "gc_codec_of fa fP fK = \<lparr>
     unmarshal_manifest = (\<lambda>b. if b = [2] then Inr (gc_manifest ''P'' fP 1) else if b = [3] then Inr (gc_manifest ''K'' fK 2)
       else Inl (Errorf ''json'')),
     unmarshal_ack = (\<lambda>b. Inr \<lparr>akVersion = 1, akDeviceID = ''d'', akFrontier = fa, akCheckpointID = [], akUpdatedAt = 3\<rparr>),
     gcBundle = demo_bundle_cbor\<lparr>unmarshal_file := (\<lambda>b. if b = [4] then Inr \<lparr>bfHeader = gc_header, bfCiphertext = []\<rparr> else Inl (Errorf ''cbor''))\<rparr>\<rparr>"

definition chain_codec :: gc_codec where
  "chain_codec = gc_codec_of [(''A'', 6)] [(''A'', 5)] [(''A'', 9), (''B'', 2)]"

definition fork_codec :: gc_codec where
  "fork_codec = gc_codec_of [(''A'', 5), (''B'', 5)] [(''A'', 5), (''B'', 1)] [(''A'', 1), (''B'', 9)]"

lemma chain_plan:
  "Evaluate chain_codec gc_transport [''d''] [] =
     (zero_plan\<lparr>plEligible := True, plCheckpoint := ''P'', plBundles := [''events/A/x.bundle''], plCheckpoints := [''checkpoints/P'']\<rparr>, None)"
  by code_simp

text \<open>When two checkpoints are incomparable, the plan can lose history for devices that join later: the bundle with
  the events 2 to 5 of device A is planned because checkpoint P covers it and every device has acknowledged P, and P
  itself is planned because the newer checkpoint K has the greater score, although K does not cover the bundle.\<close>

theorem gc_incomparable_checkpoints:
  "(let (p, e) = Evaluate fork_codec gc_transport [''d''] []
    in e = None \<and> plBundles p = [''events/A/x.bundle''] \<and> plCheckpoints p = [''checkpoints/P'']) \<and>
   PeekHeader (gcBundle fork_codec) [4] = Inr gc_header \<and>
   \<not> Covers (mfFrontier (gc_manifest ''K'' [(''A'', 1), (''B'', 9)] 2)) (bhDeviceID gc_header) (bhSeqEnd gc_header)"
  by code_simp

section \<open>The theorems at these repositories\<close>

theorem betterCheckpoint_lexicographic_witness:
  "betterCheckpoint (gc_manifest ''K'' [(''A'', 9), (''B'', 2)] 2) (gc_manifest ''P'' [(''A'', 5)] 1)"
  by (subst betterCheckpoint_lexicographic)
    (simp_all add: gc_manifest_def frontier_ok_def score_fits_def Score_def wrap64_def)

theorem gc_deletes_only_acknowledged_witness:
  "\<exists>p. Evaluate chain_codec gc_transport [''d''] [] = (p, None) \<and> ''events/A/x.bundle'' \<in> set (plBundles p) \<and>
    (\<exists>acks raw h. loadAcks chain_codec gc_transport = Inr acks \<and> trGet gc_transport ''events/A/x.bundle'' = Inr raw \<and>
       PeekHeader (gcBundle chain_codec) raw = Inr h \<and> (\<exists>a. map_of acks ''d'' = Some a \<and> acknowledged [] a h))"
  using gc_deletes_only_acknowledged[OF chain_plan, of "''events/A/x.bundle''"] chain_plan by simp

definition chain_objs :: "object list" where
  "chain_objs = gc_objs [''events/A/x.bundle'', ''checkpoints/P/manifest'', ''checkpoints/K/manifest'', ''acks/d'']"

lemma chain_layout: "ListLayoutObjects gc_transport = Inr chain_objs"
  by code_simp

lemma chain_meta: "ckpt_meta chain_codec gc_transport chain_objs =
    [(''P'', gc_manifest ''P'' [(''A'', 5)] 1), (''K'', gc_manifest ''K'' [(''A'', 9), (''B'', 2)] 2)]"
  by code_simp

lemma chain_ids: "ckpt_ids gc_transport chain_objs = [''P'', ''K'']"
  by code_simp

lemma chain_repo_ok: "repo_ok chain_codec gc_transport chain_objs"
  unfolding repo_ok_def chain_meta chain_ids
  by (simp add: gc_manifest_def manifest_ok_def frontier_ok_def score_fits_def plain_elem_def)

lemma chain_best: "pickBestCheckpoint (ckpt_meta chain_codec gc_transport chain_objs) = Some (gc_manifest ''K'' [(''A'', 9), (''B'', 2)] 2)"
  by code_simp

theorem gc_keeps_best_checkpoint_witness:
  "\<exists>p. Evaluate chain_codec gc_transport [''d''] [] = (p, None) \<and> path_join [''checkpoints'', ''K''] \<notin> set (plCheckpoints p)"
  using gc_keeps_best_checkpoint[OF chain_plan chain_layout chain_repo_ok chain_best] chain_plan
  by (auto simp: gc_manifest_def)

lemma chain_resolve:
  "loadAcks chain_codec gc_transport = Inr acks \<Longrightarrow> resolveCheckpoint chain_codec gc_transport acks [''d''] [] = Inr m \<Longrightarrow>
     m = gc_manifest ''P'' [(''A'', 5)] 1"
proof -
  have "loadAcks chain_codec gc_transport = Inr [(''d'', \<lparr>akVersion = 1, akDeviceID = ''d'', akFrontier = [(''A'', 6)], akCheckpointID = [], akUpdatedAt = 3\<rparr>)]"
    by code_simp
  moreover have "resolveCheckpoint chain_codec gc_transport
      [(''d'', \<lparr>akVersion = 1, akDeviceID = ''d'', akFrontier = [(''A'', 6)], akCheckpointID = [], akUpdatedAt = 3\<rparr>)] [''d''] [] =
      Inr (gc_manifest ''P'' [(''A'', 5)] 1)"
    by code_simp
  moreover assume "loadAcks chain_codec gc_transport = Inr acks" "resolveCheckpoint chain_codec gc_transport acks [''d''] [] = Inr m"
  ultimately show ?thesis by simp
qed

theorem gc_bundles_stay_covered_witness:
  "\<exists>p best raw h. Evaluate chain_codec gc_transport [''d''] [] = (p, None) \<and> ''events/A/x.bundle'' \<in> set (plBundles p) \<and>
     path_join [''checkpoints'', mfID best] \<notin> set (plCheckpoints p) \<and> trGet gc_transport ''events/A/x.bundle'' = Inr raw \<and>
     PeekHeader (gcBundle chain_codec) raw = Inr h \<and> Covers (mfFrontier (best :: manifest)) (bhDeviceID h) (bhSeqEnd h)"
proof -
  have c: "chain (map snd (ckpt_meta chain_codec gc_transport chain_objs))"
    unfolding chain_meta by (simp add: chain_def gc_manifest_def get_default_def)
  have r: "\<And>acks m. loadAcks chain_codec gc_transport = Inr acks \<Longrightarrow> resolveCheckpoint chain_codec gc_transport acks [''d''] [] = Inr m \<Longrightarrow>
      mfID m \<noteq> [] \<Longrightarrow> m \<in> snd ` set (ckpt_meta chain_codec gc_transport chain_objs)"
    using chain_resolve unfolding chain_meta by fastforce
  define p where "p = fst (Evaluate chain_codec gc_transport [''d''] [])"
  have p: "Evaluate chain_codec gc_transport [''d''] [] = (p, None)" "''events/A/x.bundle'' \<in> set (plBundles p)"
    unfolding p_def chain_plan by simp_all
  have "\<exists>best raw h. best \<in> snd ` set (ckpt_meta chain_codec gc_transport chain_objs) \<and>
      path_join [''checkpoints'', mfID best] \<notin> set (plCheckpoints p) \<and> trGet gc_transport ''events/A/x.bundle'' = Inr raw \<and>
      PeekHeader (gcBundle chain_codec) raw = Inr h \<and> Covers (mfFrontier best) (bhDeviceID h) (bhSeqEnd h)"
    by (rule gc_bundles_stay_covered[OF p chain_layout chain_repo_ok c]) (rule r)
  with p show ?thesis by blast
qed

lemma blocked_plan:
  "Evaluate chain_codec gc_transport [''d'', ''e''] [] =
     (zero_plan\<lparr>plBlockedBy := [''e''], plCheckpoints := [''checkpoints/P'']\<rparr>, None)"
  by code_simp

theorem gc_blocked_plan_witness:
  "\<exists>p. Evaluate chain_codec gc_transport [''d'', ''e''] [] = (p, None) \<and> plBundles p = [] \<and> plCheckpoints p = [''checkpoints/P'']"
  using gc_blocked_plan[OF blocked_plan _ chain_layout, of "''checkpoints/P''"] blocked_plan by (simp add: zero_plan_def)

end
