(* ===== verification/App.thy ===== *)
theory App
  imports Service Repository Equalize Gc_Safety
begin

text \<open>
  The application (\<^verbatim>\<open>internal/app\<close>): it opens the configured endpoints, runs the engine against each of them under the process
  lock, mirrors the endpoints, collects garbage and writes checkpoints. The local tables are shared by the engines; every endpoint
  has a remote state of its own. Parameters: the engine's environment per endpoint, the rclone library, the expansion of
  environment variables, the keyring, the recovery key in the environment, and the callbacks' exit states.
\<close>

section \<open>Endpoints of the configuration\<close>

record config_endpoint =
  ceID :: string
  ceType :: string
  ceDisplayName :: string
  ceEnabled :: bool
  ceRcloneRemote :: string
  ceProvider :: string
  cePath :: string
  ceRemote :: string
  ceHost :: string
  ceUser :: string
  cePort :: int

definition Label :: "config_endpoint \<Rightarrow> string" where
  "Label e = (let n = TrimSpace (ceDisplayName e) in if n \<noteq> [] then n else ceID e)"

record sync_config =
  scEnabled :: "bool option"
  scEndpoints :: "config_endpoint list"
  scCallbacks :: "string list"
  scInterval :: string
  scGCInterval :: string

definition EnabledEndpoints :: "sync_config \<Rightarrow> config_endpoint list" where
  "EnabledEndpoints s = filter ceEnabled (scEndpoints s)"

definition IsEnabled :: "sync_config \<Rightarrow> bool" where
  "IsEnabled s = (if scEnabled s = Some False then False else length (EnabledEndpoints s) > 0)"

definition config_Endpoint :: "sync_config \<Rightarrow> string \<Rightarrow> config_endpoint option" where
  "config_Endpoint s i = find (\<lambda>e. ceID e = i) (scEndpoints s)"

fun upsert_endpoint :: "config_endpoint \<Rightarrow> config_endpoint list \<Rightarrow> config_endpoint list" where
  "upsert_endpoint ep [] = [ep]"
| "upsert_endpoint ep (e # es) = (if ceID e = ceID ep then ep # es else e # upsert_endpoint ep es)"

definition UpsertEndpoint :: "sync_config \<Rightarrow> config_endpoint \<Rightarrow> sync_config" where
  "UpsertEndpoint s ep = s\<lparr>scEndpoints := upsert_endpoint ep (scEndpoints s)\<rparr>"

text \<open>The endpoint reported as removed is the last one with the id.\<close>

definition RemoveEndpoint :: "sync_config \<Rightarrow> string \<Rightarrow> sync_config \<times> config_endpoint option" where
  "RemoveEndpoint s i =
     (s\<lparr>scEndpoints := filter (\<lambda>e. ceID e \<noteq> i) (scEndpoints s)\<rparr>, find (\<lambda>e. ceID e = i) (rev (scEndpoints s)))"

text \<open>Durations are nanoseconds; \<open>parse\<close> is \<^verbatim>\<open>time.ParseDuration\<close>.\<close>

definition IntervalDuration :: "(string \<Rightarrow> int option) \<Rightarrow> sync_config \<Rightarrow> int" where
  "IntervalDuration parse s =
     (if scInterval s = [] then 300000000000
      else (case parse (scInterval s) of None \<Rightarrow> 300000000000 | Some d \<Rightarrow> if d < 1000000000 then 300000000000 else d))"

definition GCIntervalDuration :: "(string \<Rightarrow> int option) \<Rightarrow> sync_config \<Rightarrow> int" where
  "GCIntervalDuration parse s =
     (if scGCInterval s = [] then 3600000000000
      else (case parse (scGCInterval s) of None \<Rightarrow> 3600000000000 | Some d \<Rightarrow> if d \<le> 0 then 3600000000000 else d))"

section \<open>State and environment\<close>

text \<open>Who holds the lock file: nobody, a caller in this process, or another process. The operating system grants it once.\<close>

datatype lock_holder = Unheld | Ours | Theirs

record 's app =
  apConfig :: sync_config
  apDb :: db
  apKeys :: keydb
  apRemotes :: "config_endpoint \<Rightarrow> 's"
  apLock :: lock_holder

record 's app_env =
  aeSync :: "config_endpoint \<Rightarrow> 's sync_env"
  aeExpand :: "string \<Rightarrow> string"
  aeRclone :: "string \<Rightarrow> string \<Rightarrow> go_error option"
  aeDeviceID :: string
  aeDeviceName :: string
  aeHostname :: string
  aeRecoveryEnv :: bytes
  aeKeyring :: "(string \<times> bytes) list"
  aeKeyringAfter :: "(string \<times> bytes) list"
  aeCallback :: "string \<Rightarrow> go_error option"
  aeParseDuration :: "string \<Rightarrow> int option"
  aeCounter :: "bytes \<Rightarrow> int result"
  aeLockFault :: "go_error option"

definition AcquireLock :: "'s app_env \<Rightarrow> 's app \<Rightarrow> 's app \<times> go_error option" where
  "AcquireLock N a =
     (case aeLockFault N of
        Some err \<Rightarrow> (a, Some (Wrapped ''acquire lock'' err))
      | None \<Rightarrow> if apLock a \<noteq> Unheld then (a, Some (Errorf ''another remnix process holds the lock''))
                else (a\<lparr>apLock := Ours\<rparr>, None))"

definition Release :: "'s app \<Rightarrow> 's app" where
  "Release a = a\<lparr>apLock := Unheld\<rparr>"

text \<open>A function body between \<^verbatim>\<open>AcquireLock\<close> and the deferred \<^verbatim>\<open>Release\<close>; \<open>failed\<close> is what it returns without the lock.\<close>

definition locked :: "'s app_env \<Rightarrow> (go_error \<Rightarrow> 'r) \<Rightarrow> ('s app \<Rightarrow> 's app \<times> 'r) \<Rightarrow> 's app \<Rightarrow> 's app \<times> 'r" where
  "locked N failed body a =
     (case AcquireLock N a of
        (a1, Some err) \<Rightarrow> (a1, failed err)
      | (a1, None) \<Rightarrow> (case body a1 of (a2, r) \<Rightarrow> (Release a2, r)))"

section \<open>Opening endpoints\<close>

text \<open>Whether \<^verbatim>\<open>OpenTransport\<close> fails; the transport it returns is the endpoint's remote state with the operations of its environment.\<close>

definition OpenTransport :: "'s app_env \<Rightarrow> config_endpoint \<Rightarrow> go_error option" where
  "OpenTransport N ep =
     (let missing = (\<lambda>what. Some (Errorf (''endpoint '' @ ceID ep @ '': '' @ what @ '' is not configured; run remnix setup'')))
      in if ceType ep = [] \<or> ceType ep = ''directory'' then (if aeExpand N (cePath ep) = [] then missing ''directory path'' else None)
         else if ceType ep = ''rsync''
           then (let spec0 = aeExpand N (ceRemote ep); spec = (if spec0 = [] then aeExpand N (cePath ep) else spec0)
                 in if spec = [] then missing ''rsync remote'' else None)
         else if ceType ep = ''scp'' then (if aeExpand N (ceHost ep) = [] then missing ''scp host'' else None)
         else if ceType ep = ''rclone'' then aeRclone N (if ceRcloneRemote ep = [] then ceID ep else ceRcloneRemote ep) (cePath ep)
         else Some (Errorf (''endpoint '' @ ceID ep @ '': unknown type'')))"

definition resolveEndpoints :: "sync_config \<Rightarrow> string \<Rightarrow> config_endpoint list result" where
  "resolveEndpoints cfg onlyID =
     (if onlyID \<noteq> []
      then (case config_Endpoint cfg onlyID of None \<Rightarrow> Inl (Errorf (''endpoint '' @ onlyID @ '' not found'')) | Some ep \<Rightarrow> Inr [ep])
      else (let eps = EnabledEndpoints cfg in if length eps = 0 then Inl SyncDisabled else Inr eps))"

fun openEndpoints :: "'s app_env \<Rightarrow> config_endpoint list \<Rightarrow> config_endpoint list \<times> go_error list" where
  "openEndpoints N [] = ([], [])"
| "openEndpoints N (ep # eps) =
     (case openEndpoints N eps of (opn, errs) \<Rightarrow>
        (case OpenTransport N ep of None \<Rightarrow> (ep # opn, errs) | Some err \<Rightarrow> (opn, Wrapped (ceID ep) err # errs)))"

definition newEngine :: "'s app_env \<Rightarrow> sync_config \<Rightarrow> string \<Rightarrow> unlock \<Rightarrow> options" where
  "newEngine N cfg endpointID u =
     \<lparr>opDeviceID = aeDeviceID N, opDeviceName = aeDeviceName N, opHostname = aeHostname N, opEndpointID = endpointID,
      opEndpointName = (case config_Endpoint cfg endpointID of None \<Rightarrow> endpointID | Some ep \<Rightarrow> Label ep),
      opUnlock = (if length (unRecoverySecret u) = 0 then u\<lparr>unRecoverySecret := aeRecoveryEnv N\<rparr> else u),
      opCachedSMKs = aeKeyring N\<rparr>"

definition engine_at :: "'s app \<Rightarrow> config_endpoint \<Rightarrow> 's engine" where
  "engine_at a ep = \<lparr>enDb = apDb a, enKeys = apKeys a, enRemote = apRemotes a ep, enChanges = empty_cs\<rparr>"

definition put_engine :: "config_endpoint \<Rightarrow> 's engine \<Rightarrow> 's app \<Rightarrow> 's app" where
  "put_engine ep e a = a\<lparr>apDb := enDb e, apKeys := enKeys e, apRemotes := (apRemotes a)(ep := enRemote e)\<rparr>"

section \<open>Local recording\<close>

text \<open>\<^verbatim>\<open>LocalEngine\<close> records events without a transport; \<open>c\<close> is the CBOR codec of the events.\<close>

definition app_EnqueueHistoryCreated :: "event_cbor \<Rightarrow> gotime \<Rightarrow> 's app_env \<Rightarrow> entry \<Rightarrow> 's app \<Rightarrow> 's app \<times> go_error option" where
  "app_EnqueueHistoryCreated c now N e a =
     (case EnqueueHistoryCreated c now (aeDeviceID N) (apDb a) e of Inl err \<Rightarrow> (a, Some err) | Inr d \<Rightarrow> (a\<lparr>apDb := d\<rparr>, None))"

fun app_TombstoneEntries :: "event_cbor \<Rightarrow> gotime \<Rightarrow> 's app_env \<Rightarrow> entry list \<Rightarrow> 's app \<Rightarrow> 's app \<times> go_error option" where
  "app_TombstoneEntries c now N [] a = (a, None)"
| "app_TombstoneEntries c now N (e # es) a =
     (case EnqueueHistoryTombstoned c now (aeDeviceID N) (apDb a) e of
        Inl err \<Rightarrow> (a, Some err)
      | Inr d \<Rightarrow> app_TombstoneEntries c now N es (a\<lparr>apDb := d\<rparr>))"

definition app_TombstoneCommand :: "event_cbor \<Rightarrow> gotime \<Rightarrow> 's app_env \<Rightarrow> string \<Rightarrow> 's app \<Rightarrow> 's app \<times> go_error option" where
  "app_TombstoneCommand c now N command a =
     (if command = [] then (a, None) else app_TombstoneEntries c now N (ListByCommand (apDb a) command) a)"

section \<open>Synchronising\<close>

text \<open>What a failed callback's output is cut down to: the last three lines that look like errors, or the last three lines.\<close>

definition callbackOutputTail :: "(string \<Rightarrow> string) \<Rightarrow> (string \<Rightarrow> string) \<Rightarrow> (string \<Rightarrow> string) \<Rightarrow> string \<Rightarrow> string" where
  "callbackOutputTail stripANSI ToUpper redact s0 =
     (let s = TrimSpace (stripANSI s0)
      in if s = [] then []
         else (let lines = Split s (CHR 0x0A); last3 = (\<lambda>xs. drop (length xs - 3) xs);
                   pick = filter (\<lambda>ln. list_ex (Contains (ToUpper ln)) [''ERROR'', ''FAILED'', ''ABORT'']) (map TrimSpace lines);
                   chosen = (if pick = [] then filter (\<lambda>t. t \<noteq> []) (map TrimSpace (last3 lines)) else last3 pick);
                   out = redact (strings_Join chosen ''; '')
               in if length out > 400 then take 400 out @ ''...'' else out))"

fun sync_loop :: "'s app_env \<Rightarrow> unlock \<Rightarrow> config_endpoint list \<Rightarrow> 's app \<times> bool \<times> change_set \<times> go_error list \<Rightarrow>
    's app \<times> bool \<times> change_set \<times> go_error list" where
  "sync_loop N u [] st = st"
| "sync_loop N u (ep # eps) (a, anyOK, cs, errs) =
     (case Sync (aeSync N ep) (newEngine N (apConfig a) (ceID ep) u) (engine_at a ep) of
        (e, Some err) \<Rightarrow> sync_loop N u eps (put_engine ep e a, anyOK, cs, errs @ [Wrapped (ceID ep) err])
      | (e, None) \<Rightarrow> sync_loop N u eps (put_engine ep e a, True, cs_Merge cs (enChanges e), errs))"

definition named_endpoint :: "'s app_env \<Rightarrow> config_endpoint \<Rightarrow> 's endpoint" where
  "named_endpoint N ep = \<lparr>epID = ceID ep, epOps = snOps (aeSync N ep), epSession = Some (snBegin (aeSync N ep), snEnd (aeSync N ep))\<rparr>"

definition put_remotes :: "config_endpoint list \<Rightarrow> 's list \<Rightarrow> 's app \<Rightarrow> 's app" where
  "put_remotes eps ss a = a\<lparr>apRemotes := fold (\<lambda>(ep, s) f. f(ep := s)) (zip eps ss) (apRemotes a)\<rparr>"

definition equalize_live :: "'s app_env \<Rightarrow> config_endpoint list \<Rightarrow> 's app \<Rightarrow> 's app \<times> go_error list" where
  "equalize_live N opn a =
     (case Equalize (aeCounter N) (map (named_endpoint N) opn) (map (apRemotes a) opn) of
        (ss, err) \<Rightarrow> (put_remotes opn ss a, case err of None \<Rightarrow> [] | Some e \<Rightarrow> [e]))"

definition syncUnlocked :: "'s app_env \<Rightarrow> unlock \<Rightarrow> string \<Rightarrow> 's app \<Rightarrow> 's app \<times> bool \<times> change_set \<times> go_error option" where
  "syncUnlocked N u onlyID a =
     (case resolveEndpoints (apConfig a) onlyID of
        Inl err \<Rightarrow> (a, False, empty_cs, Some err)
      | Inr eps \<Rightarrow> (case openEndpoints N eps of (opn, errs0) \<Rightarrow>
          (case sync_loop N u opn (a, False, empty_cs, errs0) of (a1, anyOK, cs, errs) \<Rightarrow>
             if anyOK \<and> onlyID = [] \<and> length opn > 1
             then (case equalize_live N opn a1 of (a2, es) \<Rightarrow> (a2, anyOK, cs, Join (errs @ es)))
             else (a1, anyOK, cs, Join errs))))"

fun callback_errors :: "'s app_env \<Rightarrow> nat \<Rightarrow> string list \<Rightarrow> go_error list" where
  "callback_errors N i [] = []"
| "callback_errors N i (raw # cmds) =
     (let cmd = TrimSpace raw
      in if cmd = [] then callback_errors N (i + 1) cmds
         else (case aeCallback N (aeExpand N cmd) of
                 None \<Rightarrow> callback_errors N (i + 1) cmds
               | Some err \<Rightarrow> Wrapped (''callback '' @ show_nat (i + 1)) err # callback_errors N (i + 1) cmds))"

definition runCallbacks :: "'s app_env \<Rightarrow> string list \<Rightarrow> go_error option" where
  "runCallbacks N cmds = (if length cmds = 0 then None else Join (callback_errors N 0 cmds))"

definition join_opt :: "go_error option \<Rightarrow> go_error option \<Rightarrow> go_error option" where
  "join_opt x y = Join (List.map_filter id [x, y])"

definition SyncOnly :: "'s app_env \<Rightarrow> string \<Rightarrow> unlock \<Rightarrow> 's app \<Rightarrow> 's app \<times> go_error option" where
  "SyncOnly N endpointID u = locked N Some (\<lambda>a.
     case syncUnlocked N u endpointID a of (a1, anyOK, cs, syncErr) \<Rightarrow>
       if \<not> anyOK then (a1, syncErr) else (a1, join_opt syncErr (runCallbacks N (scCallbacks (apConfig a1)))))"

definition SyncEngineWithChanges :: "'s app_env \<Rightarrow> unlock \<Rightarrow> 's app \<Rightarrow> 's app \<times> change_set \<times> go_error option" where
  "SyncEngineWithChanges N u = locked N (\<lambda>err. (empty_cs, Some err)) (\<lambda>a.
     case syncUnlocked N u [] a of (a1, anyOK, cs, err) \<Rightarrow> (a1, cs, err))"

section \<open>The same for every endpoint\<close>

text \<open>\<open>fn\<close> is called with the environment, the engine's options and the engine; \<open>'x\<close> is what the caller's closure collects.\<close>

type_synonym ('s, 'x) endpoint_fn = "'s sync_env \<Rightarrow> options \<Rightarrow> 's engine \<Rightarrow> 'x \<Rightarrow> 's engine \<times> 'x \<times> go_error option"

fun each_loop :: "'s app_env \<Rightarrow> unlock \<Rightarrow> ('s, 'x) endpoint_fn \<Rightarrow> config_endpoint list \<Rightarrow> 's app \<times> 'x \<times> go_error list \<Rightarrow> 's app \<times> 'x \<times> go_error list" where
  "each_loop N u fn [] st = st"
| "each_loop N u fn (ep # eps) (a, x, errs) =
     (case fn (aeSync N ep) (newEngine N (apConfig a) (ceID ep) u) (engine_at a ep) x of
        (e, x1, Some err) \<Rightarrow> each_loop N u fn eps (put_engine ep e a, x1, errs @ [Wrapped (ceID ep) err])
      | (e, x1, None) \<Rightarrow> each_loop N u fn eps (put_engine ep e a, x1, errs))"

definition forEachEndpoint :: "'s app_env \<Rightarrow> unlock \<Rightarrow> ('s, 'x) endpoint_fn \<Rightarrow> 'x \<Rightarrow> 's app \<Rightarrow> 's app \<times> 'x \<times> go_error option" where
  "forEachEndpoint N u fn x a =
     (case resolveEndpoints (apConfig a) [] of
        Inl err \<Rightarrow> (a, x, Some err)
      | Inr eps \<Rightarrow> (case openEndpoints N eps of (opn, errs0) \<Rightarrow>
          (case each_loop N u fn opn (a, x, errs0) of (a1, x1, errs) \<Rightarrow> (a1, x1, Join errs))))"

definition plain_fn :: "('s sync_env \<Rightarrow> options \<Rightarrow> 's step) \<Rightarrow> ('s, unit) endpoint_fn" where
  "plain_fn f M o' e x = (case f M o' e of (e1, err) \<Rightarrow> (e1, (), err))"

definition for_each :: "'s app_env \<Rightarrow> unlock \<Rightarrow> ('s sync_env \<Rightarrow> options \<Rightarrow> 's step) \<Rightarrow> 's app \<Rightarrow> 's app \<times> go_error option" where
  "for_each N u f = locked N Some (\<lambda>a. case forEachEndpoint N u (plain_fn f) () a of (a1, x, err) \<Rightarrow> (a1, err))"

definition app_RetireDevice :: "'s app_env \<Rightarrow> string \<Rightarrow> unlock \<Rightarrow> 's app \<Rightarrow> 's app \<times> go_error option" where
  "app_RetireDevice N i u = for_each N u (\<lambda>M o'. RetireDevice M o' i (now_of M))"

definition app_PruneDevice :: "'s app_env \<Rightarrow> string \<Rightarrow> unlock \<Rightarrow> 's app \<Rightarrow> 's app \<times> go_error option" where
  "app_PruneDevice N i u = for_each N u (\<lambda>M o'. PruneDevice M o' i)"

definition app_PublishGeneration :: "'s app_env \<Rightarrow> gen_manifest \<Rightarrow> bytes \<Rightarrow> unlock \<Rightarrow> 's app \<Rightarrow> 's app \<times> go_error option" where
  "app_PublishGeneration N m smk u = for_each N u (\<lambda>M o'. publishGeneration M o' m smk [])"

definition rotate_fn :: "('s, string) endpoint_fn" where
  "rotate_fn M o' e encoded =
     (case RotateGeneration M o' e of (e1, got, err) \<Rightarrow> (e1, if got \<noteq> [] then got else encoded, err))"

definition app_RotateGeneration :: "'s app_env \<Rightarrow> unlock \<Rightarrow> 's app \<Rightarrow> 's app \<times> string \<times> go_error option" where
  "app_RotateGeneration N u = locked N (\<lambda>err. ([], Some err)) (\<lambda>a.
     case forEachEndpoint N u rotate_fn [] a of
       (a1, encoded, None) \<Rightarrow> (a1\<lparr>apKeys := ClearRotation (apKeys a1)\<rparr>, encoded, None)
     | (a1, encoded, Some err) \<Rightarrow> (a1, encoded, Some err))"

text \<open>
  Recovery stops at the first endpoint that has the generation, and publishes it to the others. The endpoint it came from is
  remembered by its id, so one without an id counts as none.
\<close>

fun recover_loop :: "'s app_env \<Rightarrow> unlock \<Rightarrow> string \<Rightarrow> config_endpoint list \<Rightarrow> 's app \<Rightarrow> go_error list \<Rightarrow>
    's app \<times> (config_endpoint \<times> gen_manifest) option \<times> go_error list" where
  "recover_loop N u gid [] a errs = (a, None, errs)"
| "recover_loop N u gid (ep # eps) a errs =
     (case RecoverGeneration (aeSync N ep) (newEngine N (apConfig a) (ceID ep) u) gid (engine_at a ep) of
        (e, Inl err) \<Rightarrow> recover_loop N u gid eps (put_engine ep e a) (errs @ [Wrapped (ceID ep) err])
      | (e, Inr active) \<Rightarrow> (put_engine ep e a, Some (ep, active), errs))"

definition app_RecoverGeneration :: "'s app_env \<Rightarrow> string \<Rightarrow> unlock \<Rightarrow> 's app \<Rightarrow> 's app \<times> gen_manifest option \<times> go_error option" where
  "app_RecoverGeneration N gid u = locked N (\<lambda>err. (None, Some err)) (\<lambda>a.
     case resolveEndpoints (apConfig a) [] of
       Inl err \<Rightarrow> (a, None, Some err)
     | Inr eps \<Rightarrow> (case openEndpoints N eps of (opn, errs0) \<Rightarrow>
         (case recover_loop N u gid opn a errs0 of
            (a1, None, errs) \<Rightarrow> (a1, None, if length errs = 0 then Some (Errorf ''no endpoints available'') else Join errs)
          | (a1, Some (from, active), errs) \<Rightarrow>
              if ceID from = [] then (a1, None, if length errs = 0 then Some (Errorf ''no endpoints available'') else Join errs)
              else (let smk = get_default [] (aeKeyringAfter N) (gmGenerationID active)
               in case each_loop N u (plain_fn (\<lambda>M o'. publishGeneration M o' active smk []))
                         (filter (\<lambda>ep. ceID ep \<noteq> ceID from) opn) (a1, (), errs) of
                    (a2, x, errs2) \<Rightarrow> (a2, Some active, Join errs2)))))"

section \<open>Garbage and checkpoints\<close>

definition gc_body :: "'s sync_env \<Rightarrow> string list \<Rightarrow> bool \<Rightarrow> 's \<Rightarrow> 's \<times> plan option \<times> go_error option" where
  "gc_body M required dryRun s =
     (case (if dryRun then (s, None) else snDedupe M s) of
        (s1, Some err) \<Rightarrow> (s1, None, Some err)
      | (s1, None) \<Rightarrow> (case Evaluate (snGc M) (roView (snOps M) s1) required [] of
          (p, Some err) \<Rightarrow> (s1, None, Some err)
        | (p, None) \<Rightarrow> (case Execute (roRemove (snOps M)) s1 p dryRun of
            (s2, Some err) \<Rightarrow> (s2, None, Some err)
          | (s2, None) \<Rightarrow> (s2, Some p, None))))"

text \<open>\<^verbatim>\<open>transport.WithSession\<close> around the body; the plan is combined before the session ends.\<close>

definition gc_endpoint :: "'s sync_env \<Rightarrow> string list \<Rightarrow> bool \<Rightarrow> 's \<Rightarrow> 's \<times> plan option \<times> go_error option" where
  "gc_endpoint M required dryRun s =
     (case snBegin M s of
        (s1, Some err) \<Rightarrow> (s1, None, Some err)
      | (s1, None) \<Rightarrow> (case gc_body M required dryRun s1 of (s2, p, err) \<Rightarrow>
          (case snEnd M s2 of (s3, endErr) \<Rightarrow> (s3, p, if err \<noteq> None then err else endErr))))"

definition combine_plan :: "plan \<Rightarrow> plan \<Rightarrow> plan" where
  "combine_plan c p = c\<lparr>plBundles := plBundles c @ plBundles p, plCheckpoints := plCheckpoints c @ plCheckpoints p,
     plGenerations := plGenerations c @ plGenerations p, plTmpOrphans := plTmpOrphans c @ plTmpOrphans p,
     plBlockedBy := plBlockedBy c @ plBlockedBy p, plCheckpoint := (if plCheckpoint p \<noteq> [] then plCheckpoint p else plCheckpoint c),
     plEligible := (plEligible c \<or> plEligible p)\<rparr>"

fun gc_loop :: "'s app_env \<Rightarrow> string list \<Rightarrow> bool \<Rightarrow> config_endpoint list \<Rightarrow> 's app \<times> plan \<times> go_error list \<Rightarrow> 's app \<times> plan \<times> go_error list" where
  "gc_loop N required dryRun [] st = st"
| "gc_loop N required dryRun (ep # eps) (a, c, errs) =
     (case gc_endpoint (aeSync N ep) required dryRun (apRemotes a ep) of (s, p, err) \<Rightarrow>
        gc_loop N required dryRun eps
          (a\<lparr>apRemotes := (apRemotes a)(ep := s)\<rparr>, case p of None \<Rightarrow> c | Some p \<Rightarrow> combine_plan c p,
           case err of None \<Rightarrow> errs | Some e \<Rightarrow> errs @ [Wrapped (ceID ep) e]))"

definition GarbageCollect :: "'s app_env \<Rightarrow> bool \<Rightarrow> 's app \<Rightarrow> 's app \<times> plan \<times> go_error option" where
  "GarbageCollect N dryRun = locked N (\<lambda>err. (zero_plan, Some err)) (\<lambda>a.
     let required = RequiredDevices (device_List (devices (apDb a)))
     in case resolveEndpoints (apConfig a) [] of
          Inl err \<Rightarrow> (a, zero_plan, Some err)
        | Inr eps \<Rightarrow> (case openEndpoints N eps of (opn, errs0) \<Rightarrow>
            (case gc_loop N required dryRun opn (a, zero_plan, errs0) of (a1, c, errs) \<Rightarrow> (a1, c, Join errs))))"

fun due_loop :: "'s app_env \<Rightarrow> config_endpoint list \<Rightarrow> 's app \<times> bool \<times> go_error list \<Rightarrow> 's app \<times> bool \<times> go_error list" where
  "due_loop N [] st = st"
| "due_loop N (ep # eps) (a, due, errs) =
     (let M = aeSync N ep
      in case snBegin M (apRemotes a ep) of
           (s1, Some err) \<Rightarrow> due_loop N eps (a\<lparr>apRemotes := (apRemotes a)(ep := s1)\<rparr>, due, errs @ [Wrapped (ceID ep) err])
         | (s1, None) \<Rightarrow>
             (case snEnd M s1 of (s2, endErr) \<Rightarrow>
                (let a1 = a\<lparr>apRemotes := (apRemotes a)(ep := s2)\<rparr>
                 in case (CheckpointDue (snGc M) (roView (snOps M) s1) (now_of M) (GCIntervalDuration (aeParseDuration N) (apConfig a)), endErr) of
                      (Inl err, _) \<Rightarrow> due_loop N eps (a1, due, errs @ [Wrapped (ceID ep) err])
                    | (Inr ok, Some err) \<Rightarrow> due_loop N eps (a1, due, errs @ [Wrapped (ceID ep) err])
                    | (Inr ok, None) \<Rightarrow> due_loop N eps (a1, due \<or> ok, errs))))"

definition ErrCheckpointNotCaughtUp :: go_error where
  "ErrCheckpointNotCaughtUp = Errorf ''local frontier does not dominate newest checkpoint''"

definition no_unlock :: unlock where
  "no_unlock = \<lparr>unRecoverySecret = [], unTokens = [], unFIDO2 = []\<rparr>"

definition write_checkpoint :: "'s app_env \<Rightarrow> bool \<Rightarrow> config_endpoint list \<Rightarrow> go_error list \<Rightarrow> 's app \<Rightarrow> 's app \<times> go_error option" where
  "write_checkpoint N force opn errs a =
     (if length opn = 0 then (a, Join errs)
      else (let ep = opn ! 0; M = aeSync N ep; o' = newEngine N (apConfig a) (ceID ep) no_unlock
            in case unlockAll M o' (apKeys a) of
                 Inl err \<Rightarrow> (a, Some err)
               | Inr (smks, active) \<Rightarrow>
                   (case CreateCheckpoint M (get_default [] smks (gmGenerationID active)) (gmGenerationID active) (engine_at a ep) of
                      (e, Inl err) \<Rightarrow> (put_engine ep e a, if \<not> force \<and> error_is err ErrCheckpointNotCaughtUp then Join errs else Some err)
                    | (e, Inr m) \<Rightarrow>
                        (case (if length opn > 1 then equalize_live N opn (put_engine ep e a) else (put_engine ep e a, [])) of (a1, es) \<Rightarrow>
                           (case each_loop N no_unlock (plain_fn (\<lambda>M o'. publishAck M o' (mfID m))) opn (a1, (), errs @ es) of
                              (a2, x, errs2) \<Rightarrow> (a2, Join errs2))))))"

definition checkpoint :: "'s app_env \<Rightarrow> bool \<Rightarrow> 's app \<Rightarrow> 's app \<times> go_error option" where
  "checkpoint N force a =
     (case resolveEndpoints (apConfig a) [] of
        Inl err \<Rightarrow> (a, Some err)
      | Inr eps \<Rightarrow> (case openEndpoints N eps of (opn, errs0) \<Rightarrow>
          (case (if force then (a, True, errs0) else due_loop N opn (a, False, errs0)) of (a1, due, errs) \<Rightarrow>
             if \<not> due then (a1, Join errs) else locked N Some (write_checkpoint N force opn errs) a1)))"

end
