(* ===== verification/App_Safety.thy ===== *)
theory App_Safety
  imports App
begin

text \<open>
  The application composed with the directory transport: collecting garbage at every endpoint never destroys a bundle that some
  device still needs.
\<close>

section \<open>What a directory lists\<close>

definition is_file :: "entries \<Rightarrow> string \<Rightarrow> bool" where
  "is_file es k \<longleftrightarrow> (\<exists>q b. k = join_path q \<and> q \<noteq> [] \<and> list_all plain_elem q \<and> file_at (Dir es) q = Some b)"

lemma Split_plain: "q \<noteq> [] \<Longrightarrow> list_all plain_elem q \<Longrightarrow> Split (join_path q) (CHR ''/'') = q"
  by (rule Split_join_path) (auto simp: list_all_iff plain_elem_def)

lemma resolve_join:
  assumes "q \<noteq> []" "list_all plain_elem q" "resolve (join_path q) = Inr p"
  shows "p = q"
proof -
  have "clean_elems True [] (Split (join_path q) (CHR ''/'')) = q"
    using clean_elems_plain[of q True "[]"] assms(1,2) by (simp add: Split_plain list_all_iff)
  then have "path_clean (CHR ''/'' # join_path q) = CHR ''/'' # join_path q" by (simp add: path_clean_def Let_def)
  moreover have "join_path q \<noteq> []" using assms(1,2) by (auto simp: join_path_eq_Nil plain_elem_def)
  ultimately show ?thesis using assms by (auto simp: resolve_def Split_plain Let_def split: if_splits)
qed

lemma file_at_plain: "names_ok (Dir es) \<Longrightarrow> file_at (Dir es) q = Some b \<Longrightarrow> is_file es (join_path q)"
  using names_ok_path[of "Dir es" q b] by (cases q) (auto simp: is_file_def)

lemma dir_List_files:
  assumes "tree_ok (Dir es)" "names_ok (Dir es)" "dir_List es pre = Inr objs" "ob \<in> set objs"
  shows "is_file es (obKey ob)"
proof -
  obtain p where p: "resolve_prefix pre = Inr p" using assms(3) by (cases "resolve_prefix pre") (auto simp: dir_List_def)
  obtain n where n: "stat (Dir es) p = Inr n"
    using assms(3,4) p by (cases "stat (Dir es) p") (auto simp: dir_List_def split: if_splits)
  from assms(3,4) p n obtain q b where "obKey ob = join_path q" "(q, b) \<in> set (walk p n)" by (auto simp: dir_List_def)
  moreover from this(2) obtain r where "q = p @ r" "file_at n r = Some b" using walk_files[OF tree_ok_stat[OF assms(1) n]] by auto
  ultimately show ?thesis using file_at_plain[OF assms(2), of q b] file_at_append[OF n] by simp
qed

lemma join_ends:
  assumes "q \<noteq> []" "list_all plain_elem q"
  shows "join_path q \<noteq> []" "hd (join_path q) \<noteq> CHR ''/''" "last (join_path q) \<noteq> CHR ''/''"
proof -
  show n: "join_path q \<noteq> []" using assms by (auto simp: join_path_eq_Nil plain_elem_def)
  have "hd q \<noteq> []" "CHR ''/'' \<notin> set (hd q)" using assms by (cases q; simp add: plain_elem_def)+
  then show "hd (join_path q) \<noteq> CHR ''/''" using hd_join_path[OF assms(1)] by (metis hd_in_set)
  have "last (join_path q) = last (last q)" if "last q \<noteq> []"
    using assms(1) that by (induction q rule: join_path.induct) (auto simp: join_path_eq_Nil)
  moreover have "plain_elem (last q)" using assms by (simp add: list_all_iff)
  ultimately show "last (join_path q) \<noteq> CHR ''/''" by (metis last_in_set plain_elem_def)
qed

lemma base_join: "q \<noteq> [] \<Longrightarrow> list_all plain_elem q \<Longrightarrow> prefix_base (join_path q) = join_path q"
  using join_ends[of q] by (cases "join_path q" rule: rev_cases) (auto simp: prefix_base_def HasPrefix_def HasSuffix_iff hd_append neq_Nil_conv split: if_splits)

lemma Trim_join: 
  assumes "q \<noteq> []" "list_all plain_elem q"
  shows "Trim (join_path q) (CHR ''/'') = join_path q" "Trim (join_path q @ ''/'') (CHR ''/'') = join_path q"
proof -
  obtain c t where ct: "join_path q = c # t" "c \<noteq> CHR ''/''" using join_ends[OF assms] by (cases "join_path q") auto
  obtain u x where ux: "join_path q = u @ [x]" "x \<noteq> CHR ''/''" using join_ends[OF assms] by (cases "join_path q" rule: rev_cases) auto
  have d: "dropWhile (\<lambda>x. x = CHR ''/'') (join_path q @ r) = join_path q @ r" for r using ct by simp
  have r: "dropWhile (\<lambda>x. x = CHR ''/'') (rev (join_path q)) = rev (join_path q)" using ux by simp
  show "Trim (join_path q) (CHR ''/'') = join_path q" using d[of "[]"] r by (simp add: Trim_def)
  show "Trim (join_path q @ ''/'') (CHR ''/'') = join_path q" using d[of "''/''"] r by (simp add: Trim_def)
qed

lemma child_join: "q \<noteq> [] \<Longrightarrow> list_all plain_elem q \<Longrightarrow> child_key (join_path q) name = join_path (q @ [name])"
proof -
  assume q: "q \<noteq> []" "list_all plain_elem q"
  have "join_path (q @ [name]) = join_path q @ ''/'' @ name" using q(1) by (induction q rule: join_path.induct) auto
  moreover have "join_path q \<noteq> []" using q by (auto simp: join_path_eq_Nil plain_elem_def)
  ultimately show ?thesis using base_join[OF q] by (simp add: child_key_def)
qed

lemma read_dir_children:
  assumes "tree_ok (Dir es)" "names_ok (Dir es)" "q \<noteq> []" "list_all plain_elem q" "read_dir es (join_path q) = Inr cs" "(name, m) \<in> set cs"
  shows "plain_elem name" "m = File b \<Longrightarrow> file_at (Dir es) (q @ [name]) = Some b"
proof -
  have "join_path q \<noteq> []" using assms(3,4) by (auto simp: join_path_eq_Nil plain_elem_def)
  then obtain p where p: "resolve (join_path q) = Inr p" using assms(5) by (cases "resolve (join_path q)") (auto simp: read_dir_def resolve_prefix_def)
  then have pq: "p = q" using resolve_join assms(3,4) by blast
  obtain ds where ds: "stat (Dir es) q = Inr (Dir ds)" "(name, m) \<in> set ds"
    using assms(5,6) p pq \<open>join_path q \<noteq> []\<close> by (auto simp: read_dir_def resolve_prefix_def split: sum.splits if_splits node.splits)
  have names: "names_ok n \<Longrightarrow> stat n q = Inr n' \<Longrightarrow> names_ok n'" for n n'
    by (induction n q rule: stat.induct) (auto split: option.splits dest!: map_of_SomeD simp: list_all_iff)
  have t: "tree_ok (Dir ds)" using tree_ok_stat[OF assms(1) ds(1)] .
  show "plain_elem name" using names[OF assms(2) ds(1)] ds(2) by (auto simp: list_all_iff)
  have "distinct (map fst ds)" using t strict_sorted_iff by auto
  then show "m = File b \<Longrightarrow> file_at (Dir es) (q @ [name]) = Some b" using file_at_append[OF ds(1), of "[name]"] ds(2) by simp
qed

lemma shallow_files:
  assumes "tree_ok (Dir es)" "names_ok (Dir es)" "q \<noteq> []" "list_all plain_elem q" "dir_ListShallow es (join_path q) = Inr objs" "ob \<in> set objs"
  shows "is_file es (obKey ob)"
proof -
  obtain cs where cs: "read_dir es (join_path q) = Inr cs" using assms(5) by (cases "read_dir es (join_path q)") (auto simp: dir_ListShallow_def)
  then obtain name b where "(name, File b) \<in> set cs" "obKey ob = child_key (join_path q) name"
    using assms(5,6) by (auto simp: dir_ListShallow_def List.map_filter_def split: node.splits)
  then show ?thesis using read_dir_children(2)[OF assms(1-4) cs] file_at_plain[OF assms(2)] child_join[OF assms(3,4)] by metis
qed

lemma ListDirs_names:
  assumes "tree_ok (Dir es)" "names_ok (Dir es)" "q \<noteq> []" "list_all plain_elem q" "dir_ListDirs es (join_path q) = Inr ds" "d \<in> set ds"
  shows "\<exists>name. d = join_path (q @ [name]) \<and> plain_elem name"
proof -
  obtain cs where cs: "read_dir es (join_path q) = Inr cs" using assms(5) by (cases "read_dir es (join_path q)") (auto simp: dir_ListDirs_def)
  then obtain name m where "(name, m) \<in> set cs" "d = child_key (join_path q) name"
    using assms(5,6) by (auto simp: dir_ListDirs_def List.map_filter_def split: node.splits)
  then show ?thesis using read_dir_children(1)[OF assms(1-4) cs] child_join[OF assms(3,4)] by metis
qed

lemma shallow_dirs_files:
  assumes "tree_ok (Dir es)" "names_ok (Dir es)" "shallow_dirs (dir_ListShallow es) ds files = Inr objs"
    and "\<And>d. d \<in> set ds \<Longrightarrow> \<exists>q. d = join_path q \<and> q \<noteq> [] \<and> list_all plain_elem q" "\<And>ob. ob \<in> set files \<Longrightarrow> is_file es (obKey ob)"
    and "ob \<in> set objs"
  shows "is_file es (obKey ob)"
  using assms(3-)
proof (induction ds arbitrary: files)
  case (Cons d ds)
  then obtain more where m: "dir_ListShallow es d = Inr more" "shallow_dirs (dir_ListShallow es) ds (files @ more) = Inr objs"
    by (cases "dir_ListShallow es d") auto
  obtain q where q: "d = join_path q" "q \<noteq> []" "list_all plain_elem q" using Cons.prems(2)[of d] by auto
  show ?case
  proof (rule Cons.IH[OF m(2)])
    show "is_file es (obKey x)" if "x \<in> set (files @ more)" for x
      using that Cons.prems(3) shallow_files[OF assms(1,2) q(2,3)] m(1) q(1) by auto
  qed (use Cons.prems in auto)
qed auto

lemma plain_events: "''events'' = join_path [''events'']" "list_all plain_elem [''events'']"
  "''checkpoints'' = join_path [''checkpoints'']" "list_all plain_elem [''checkpoints'']"
  by (simp_all add: plain_elem_def)

lemma event_files:
  assumes "tree_ok (Dir es)" "names_ok (Dir es)" "listEventObjects (dir_view es) = Inr objs" "ob \<in> set objs"
  shows "is_file es (obKey ob)"
proof -
  obtain files ds where f: "dir_ListShallow es ''events'' = Inr files" "dir_ListDirs es ''events'' = Inr ds"
    "shallow_dirs (dir_ListShallow es) ds files = Inr objs"
    using assms(3) by (cases "dir_ListShallow es ''events''"; cases "dir_ListDirs es ''events''")
      (auto simp: listEventObjects_def dir_view_def)
  show ?thesis
  proof (rule shallow_dirs_files[OF assms(1,2) f(3) _ _ assms(4)])
    show "\<exists>q. d = join_path q \<and> q \<noteq> [] \<and> list_all plain_elem q" if "d \<in> set ds" for d
    proof -
      have "\<exists>name. d = join_path ([''events''] @ [name]) \<and> plain_elem name"
        by (rule ListDirs_names[OF assms(1,2) _ plain_events(2)]) (use f(2) that in simp_all)
      then obtain name where "d = join_path [''events'', name]" "plain_elem name" by auto
      then show ?thesis using plain_events(2) by (intro exI[of _ "[''events'', name]"]) simp
    qed
    show "is_file es (obKey x)" if "x \<in> set files" for x
      using shallow_files[OF assms(1,2) _ plain_events(2), of files x] f(1) that by simp
  qed
qed

lemma layout_files:
  assumes "tree_ok (Dir es)" "names_ok (Dir es)" "layout_loop (dir_view es) ps out = Inr objs" "\<And>ob. ob \<in> set out \<Longrightarrow> is_file es (obKey ob)"
    and "ob \<in> set objs"
  shows "is_file es (obKey ob)"
  using assms(3-)
proof (induction ps arbitrary: out)
  case (Cons p ps)
  obtain more where m: "(if p = ''events'' then listEventObjects (dir_view es) else trList (dir_view es) p) = Inr more"
    "layout_loop (dir_view es) ps (add_objects out more) = Inr objs"
    using Cons.prems(1) by (cases "if p = ''events'' then listEventObjects (dir_view es) else trList (dir_view es) p") auto
  have a: "set (add_objects o1 m1) \<subseteq> set o1 \<union> set m1" for o1 m1
    by (induction o1 m1 rule: add_objects.induct) auto
  have "is_file es (obKey x)" if "x \<in> set more" for x
    using m(1) that event_files[OF assms(1,2)] dir_List_files[OF assms(1,2)] by (auto simp: dir_view_def split: if_splits)
  then show ?case using Cons.IH[OF m(2)] Cons.prems a[of out more] by blast
qed auto

lemma layout_keys:
  assumes "tree_ok (Dir es)" "names_ok (Dir es)" "ListLayoutObjects (dir_view es) = Inr objs" "ob \<in> set objs"
  shows "is_file es (obKey ob)"
  using layout_files[OF assms(1,2) assms(3)[unfolded ListLayoutObjects_def] _ assms(4)] by simp

section \<open>Garbage collection in a directory\<close>

lemma files_apart:
  assumes "file_at n p = Some b" "file_at n q = Some c" "prefix p q"
  shows "p = q"
proof -
  obtain r where r: "q = p @ r" using assms(3) by (auto simp: prefix_def)
  have "stat n p = Inr (File b)" using assms(1) by (auto simp: file_at_def split: sum.splits node.splits)
  then have "file_at n q = file_at (File b) r" using file_at_append r by blast
  then show ?thesis using assms(2) r by (cases r) auto
qed

lemma execute_keeps:
  assumes "execute_loop dir_Remove es ks = (es', err)" "file_at (Dir es) q = Some b"
    and "\<And>k p. k \<in> set ks \<Longrightarrow> resolve k = Inr p \<Longrightarrow> \<not> prefix p q"
  shows "file_at (Dir es') q = Some b"
  using assms
proof (induction ks arbitrary: es)
  case (Cons k ks)
  obtain es1 e1 where r: "dir_Remove es k = (es1, e1)" by fastforce
  have keep: "file_at (Dir es1) q = Some b"
  proof (cases "resolve k")
    case (Inl e)
    then show ?thesis using r Cons.prems(2) by (simp add: dir_Remove_def)
  next
    case (Inr p)
    then show ?thesis using dir_Remove_files[OF r Inr] Cons.prems(2) Cons.prems(3)[of k p] by simp
  qed
  show ?case
  proof (cases "snd (DeleteIfExists dir_Remove es k)")
    case None
    then have "execute_loop dir_Remove es1 ks = (es', err)"
      using Cons.prems(1) r by (auto simp: DeleteIfExists_def split: option.splits if_splits)
    then show ?thesis using Cons.IH keep Cons.prems(3) by (meson list.set_intros(2))
  next
    case (Some e)
    then have "es' = es1" using Cons.prems(1) r by (auto simp: DeleteIfExists_def split: option.splits if_splits)
    then show ?thesis using keep by simp
  qed
qed simp

lemma checkpoint_id_plain:
  assumes "k = join_path q \<or> k = join_path q @ ''/''" "q \<noteq> []" "list_all plain_elem q" "checkpointIDFromKey k \<noteq> []"
  shows "plain_elem (checkpointIDFromKey k)"
proof -
  have "Split (Trim k (CHR ''/'')) (CHR ''/'') = q" using assms(1-3) by (auto simp: Trim_join Split_plain)
  then show ?thesis using assms(3,4) by (auto simp: checkpointIDFromKey_def Let_def list_all_length split: if_splits)
qed

lemma ckpt_ids_plain:
  assumes "tree_ok (Dir es)" "names_ok (Dir es)" "ListLayoutObjects (dir_view es) = Inr objs" "i \<in> set (ckpt_ids (dir_view es) objs)"
  shows "plain_elem i"
proof -
  have "i \<noteq> []" using assms(4) by (auto simp: ckpt_ids_def)
  have "i \<in> (\<lambda>ob. checkpointIDFromKey (obKey ob)) ` set objs \<or>
    (\<exists>ds. dir_ListDirs es ''checkpoints/'' = Inr ds \<and> i \<in> (\<lambda>d. checkpointIDFromKey (d @ ''/'')) ` set ds)"
    using assms(4) by (cases "dir_ListDirs es ''checkpoints/''") (auto simp: ckpt_ids_def dir_view_def)
  then consider ob where "ob \<in> set objs" "i = checkpointIDFromKey (obKey ob)"
    | ds d where "dir_ListDirs es ''checkpoints/'' = Inr ds" "d \<in> set ds" "i = checkpointIDFromKey (d @ ''/'')" by blast
  then show ?thesis
  proof cases
    case 1
    then obtain q where "obKey ob = join_path q" "q \<noteq> []" "list_all plain_elem q"
      using layout_keys[OF assms(1-3)] by (auto simp: is_file_def)
    then show ?thesis using checkpoint_id_plain[of "obKey ob" q] 1 \<open>i \<noteq> []\<close> by simp
  next
    case 2
    have eq: "resolve ''checkpoints/'' = resolve ''checkpoints''" "child_key ''checkpoints/'' = child_key ''checkpoints''" by code_simp (rule ext, code_simp)
    have "dir_ListDirs es ''checkpoints/'' = dir_ListDirs es ''checkpoints''"
      unfolding dir_ListDirs_def read_dir_def resolve_prefix_def eq by simp
    then have ld: "dir_ListDirs es (join_path [''checkpoints'']) = Inr ds" using 2(1) by simp
    have "\<exists>name. d = join_path ([''checkpoints''] @ [name]) \<and> plain_elem name"
      by (rule ListDirs_names[OF assms(1,2) _ plain_events(4) ld 2(2)]) simp
    then obtain name where "d = join_path [''checkpoints'', name]" "list_all plain_elem [''checkpoints'', name]"
      using plain_events(4) by auto
    then show ?thesis using checkpoint_id_plain[of "d @ ''/''" "[''checkpoints'', name]"] 2 \<open>i \<noteq> []\<close> by simp
  qed
qed

text \<open>An event bundle that some required device has not acknowledged survives the collection.\<close>

lemma events_not_checkpoints:
  assumes "HasPrefix key ''events/''" "Split key (CHR ''/'') = ''checkpoints'' # r"
  shows False
proof -
  define t where "t = drop (length ''events/'') key"
  have "key = ''events/'' @ t" using assms(1) append_take_drop_id[of "length ''events/''" key] unfolding HasPrefix_def t_def by metis
  then have "key = ''events'' @ CHR ''/'' # t" by simp
  then have "Split key (CHR ''/'') = ''events'' # Split t (CHR ''/'')" using Split_append_sep[of "CHR ''/''" "''events''" t] by simp
  then show False using assms(2) by simp
qed

lemma Execute_spares:
  assumes "tree_ok (Dir es)" "names_ok (Dir es)" "plain_key key" "HasPrefix key ''events/''" "\<not> is_tmp key" "dir_Get es key = Inr raw"
    and "Evaluate C (dir_view es) required [] = (p, None)" "Execute dir_Remove es p dryRun = (es', err)" "key \<notin> set (plBundles p)"
  shows "dir_Get es' key = Inr raw"
proof -
  let ?q = "Split key (CHR ''/'')"
  have q: "file_at (Dir es) ?q = Some raw" using dir_Get_plain[OF assms(3)] assms(6) by simp
  obtain objs meta keepID keep full where E: "ListLayoutObjects (dir_view es) = Inr objs"
    "set (plBundles p) \<subseteq> obKey ` set objs" "plTmpOrphans p = map obKey (filter (\<lambda>ob. is_tmp (obKey ob)) objs)" "plGenerations p = []"
    "plCheckpoints p = sort_by (<) (map (\<lambda>i. path_join [''checkpoints'', i]) (filter (ckpt_goes meta keepID keep full) (ckpt_ids (dir_view es) objs)))"
    by (rule Evaluate_parts[OF assms(7)]) (auto intro!: that)
  have apart: "\<not> prefix r ?q" if key: "k \<in> set (plan_keys p)" and res: "resolve k = Inr r" for k r
  proof
    assume pre: "prefix r ?q"
    consider "k \<in> obKey ` set objs" "k \<in> set (plTmpOrphans p) \<or> k \<in> set (plBundles p)"
      | i where "k = path_join [''checkpoints'', i]" "i \<in> set (ckpt_ids (dir_view es) objs)"
    proof -
      have "k \<in> set (plTmpOrphans p) \<union> set (plBundles p) \<union> set (plCheckpoints p)" using key E(4) by (auto simp: plan_keys_def split: if_splits)
      moreover have "set (plCheckpoints p) \<subseteq> (\<lambda>i. path_join [''checkpoints'', i]) ` set (ckpt_ids (dir_view es) objs)" by (auto simp: E(5))
      moreover have "set (plTmpOrphans p) \<subseteq> obKey ` set objs" by (auto simp: E(3))
      ultimately show thesis using E(2) that by blast
    qed
    then show False
    proof cases
      case 1
      then have "is_file es k" using layout_keys[OF assms(1,2) E(1)] by blast
      then obtain q' b where q': "k = join_path q'" "q' \<noteq> []" "list_all plain_elem q'" "file_at (Dir es) q' = Some b"
        unfolding is_file_def by blast
      then have "r = q'" using resolve_join res by blast
      then have "q' = ?q" using files_apart[OF q'(4) q] pre by simp
      then have "k = key" using q'(1) by simp
      then show False using 1(2) assms(5,9) E(3) by auto
    next
      case (2 i)
      have "plain_elem i" using ckpt_ids_plain[OF assms(1,2) E(1)] 2(2) .
      then have pl: "list_all plain_elem [''checkpoints'', i]" using plain_events(4) by simp
      then have "k = join_path [''checkpoints'', i]" using 2(1) path_join_plain[of "[''checkpoints'', i]"] by (simp add: list_all_iff)
      then have "r = [''checkpoints'', i]" using resolve_join[OF _ pl] res by simp
      then obtain t where "?q = ''checkpoints'' # t" using pre by (auto simp: prefix_def)
      then show False using events_not_checkpoints[OF assms(4)] by blast
    qed
  qed
  have "file_at (Dir es') ?q = Some raw"
  proof (cases dryRun)
    case True
    then show ?thesis using assms(8) q by (simp add: Execute_def)
  next
    case False
    then show ?thesis using execute_keeps[OF _ q apart] assms(8) by (simp add: Execute_def)
  qed
  then show ?thesis using dir_Get_plain[OF assms(3)] by simp
qed

text \<open>An endpoint that is a directory: no staging session and no duplicates to merge.\<close>

definition directory_env :: "entries sync_env \<Rightarrow> bool" where
  "directory_env M \<longleftrightarrow> (\<exists>F. snOps M = directory_ops F) \<and> snBegin M = (\<lambda>s. (s, None)) \<and> snEnd M = (\<lambda>s. (s, None)) \<and> snDedupe M = (\<lambda>s. (s, None))"

lemma gc_endpoint_spares:
  assumes "directory_env M" "tree_ok (Dir es)" "names_ok (Dir es)" "plain_key key" "HasPrefix key ''events/''" "\<not> is_tmp key" "dir_Get es key = Inr raw"
    and "PeekHeader (gcBundle (snGc M)) raw = Inr h" "i \<in> set required"
    and "\<And>acks x. loadAcks (snGc M) (dir_view es) = Inr acks \<Longrightarrow> map_of acks i = Some x \<Longrightarrow> \<not> acknowledged [] x h"
    and "gc_endpoint M required dryRun es = (es', p, err)"
  shows "dir_Get es' key = Inr raw"
proof -
  have M: "roView (snOps M) = dir_view" "roRemove (snOps M) = dir_Remove" "snBegin M = (\<lambda>s. (s, None))" "snEnd M = (\<lambda>s. (s, None))" "snDedupe M = (\<lambda>s. (s, None))"
    using assms(1) by (auto simp: directory_env_def directory_ops_def)
  obtain p1 e1 where ev: "Evaluate (snGc M) (dir_view es) required [] = (p1, e1)" by fastforce
  show ?thesis
  proof (cases e1)
    case (Some e)
    then show ?thesis using assms(7,11) ev by (cases dryRun) (auto simp: gc_endpoint_def gc_body_def M)
  next
    case None
    obtain es1 e2 where ex: "Execute dir_Remove es p1 dryRun = (es1, e2)" by fastforce
    then have "es' = es1" using assms(11) ev None by (cases e2; cases dryRun) (auto simp: gc_endpoint_def gc_body_def M)
    moreover have "key \<notin> set (plBundles p1)"
    proof
      assume "key \<in> set (plBundles p1)"
      from planned_bundle_acknowledged[OF ev[unfolded None] this] obtain acks raw' h' where
        "loadAcks (snGc M) (dir_view es) = Inr acks" "dir_Get es key = Inr raw'" "PeekHeader (gcBundle (snGc M)) raw' = Inr h'"
        "\<exists>a. map_of acks i = Some a \<and> acknowledged [] a h'" using assms(9) by (auto simp: dir_view_def)
      then show False using assms(7,8,10) by auto
    qed
    ultimately show ?thesis using Execute_spares[OF assms(2-7) ev[unfolded None] ex] by simp
  qed
qed

lemma gc_loop_other: "gc_loop N required dryRun eps (a, c, errs) = (a', c', errs') \<Longrightarrow> ep \<notin> set eps \<Longrightarrow> apRemotes a' ep = apRemotes a ep"
proof (induction eps arbitrary: a c errs)
  case (Cons x eps)
  obtain s p err where g: "gc_endpoint (aeSync N x) required dryRun (apRemotes a x) = (s, p, err)" by (metis surj_pair)
  show ?case using Cons.IH[OF Cons.prems(1)[simplified, unfolded g prod.case]] Cons.prems(2) by simp
qed simp

lemma gc_loop_at:
  assumes "gc_loop N required dryRun eps (a, c, errs) = (a', c', errs')" "ep \<in> set eps" "distinct eps"
  shows "\<exists>p err. gc_endpoint (aeSync N ep) required dryRun (apRemotes a ep) = (apRemotes a' ep, p, err)"
  using assms
proof (induction eps arbitrary: a c errs)
  case (Cons x eps)
  obtain s p err where g: "gc_endpoint (aeSync N x) required dryRun (apRemotes a x) = (s, p, err)" by (metis surj_pair)
  note l = Cons.prems(1)[simplified, unfolded g prod.case]
  show ?case
  proof (cases "x = ep")
    case True
    then have "apRemotes a' ep = s" using gc_loop_other[OF l, of ep] Cons.prems(3) by simp
    then show ?thesis using g True by blast
  next
    case False
    then show ?thesis using Cons.IH[OF l] Cons.prems(2,3) by simp
  qed
qed simp

lemma openEndpoints_sub: "openEndpoints N eps = (opn, errs) \<Longrightarrow> distinct eps \<Longrightarrow> set opn \<subseteq> set eps \<and> distinct opn"
proof (induction eps arbitrary: opn errs)
  case (Cons ep eps)
  obtain o1 e1 where o: "openEndpoints N eps = (o1, e1)" by fastforce
  then show ?case using Cons.IH[OF o] Cons.prems by (auto split: option.splits)
qed simp

text \<open>C4: Collecting garbage never takes an event bundle away from a device that still needs it: when some device of the
  registry that is not retired has published no acknowledgement covering a bundle in a directory endpoint, the bundle is still
  there afterwards, whatever happens at the other endpoints and whatever errors occur.\<close>

theorem GarbageCollect_spares_unacknowledged:
  assumes "GarbageCollect N dryRun a = (a', plan, err)" "distinct (scEndpoints (apConfig a))" "directory_env (aeSync N ep)"
    and "tree_ok (Dir (apRemotes a ep))" "names_ok (Dir (apRemotes a ep))" "plain_key key" "HasPrefix key ''events/''" "\<not> is_tmp key"
    and "dir_Get (apRemotes a ep) key = Inr raw" "PeekHeader (gcBundle (snGc (aeSync N ep))) raw = Inr h"
    and "i \<in> set (RequiredDevices (device_List (devices (apDb a))))"
    and "\<And>acks x. loadAcks (snGc (aeSync N ep)) (dir_view (apRemotes a ep)) = Inr acks \<Longrightarrow> map_of acks i = Some x \<Longrightarrow> \<not> acknowledged [] x h"
  shows "dir_Get (apRemotes a' ep) key = Inr raw"
proof (cases "apRemotes a' ep = apRemotes a ep")
  case True
  then show ?thesis using assms(9) by simp
next
  case False
  let ?req = "RequiredDevices (device_List (devices (apDb a)))"
  obtain a1 le where l0: "AcquireLock N a = (a1, le)" by fastforce
  have "le = None"
  proof (rule ccontr)
    assume "le \<noteq> None"
    then have "a' = a1" "a1 = a" using assms(1) l0 by (auto simp: GarbageCollect_def locked_def AcquireLock_def split: option.splits if_splits)
    then show False using False by simp
  qed
  then have l: "AcquireLock N a = (a1, None)" using l0 by simp
  then have a1: "a1 = a\<lparr>apLock := Ours\<rparr>" by (auto simp: AcquireLock_def split: option.splits if_splits)
  obtain eps where r: "resolveEndpoints (apConfig a) [] = Inr eps"
    using assms(1) False l a1 by (cases "resolveEndpoints (apConfig a) []") (auto simp: GarbageCollect_def locked_def Release_def)
  obtain opn errs0 where o: "openEndpoints N eps = (opn, errs0)" by fastforce
  obtain a2 c errs where g: "gc_loop N ?req dryRun opn (a1, zero_plan, errs0) = (a2, c, errs)" by (metis surj_pair)
  have a': "apRemotes a' ep = apRemotes a2 ep" using assms(1) l a1 r o g by (auto simp: GarbageCollect_def locked_def Release_def)
  have "distinct eps" using r assms(2) by (auto simp: resolveEndpoints_def EnabledEndpoints_def Let_def split: if_splits)
  then have "distinct opn" using openEndpoints_sub[OF o] by blast
  moreover have "ep \<in> set opn" using gc_loop_other[OF g, of ep] False a' a1 by auto
  ultimately have "\<exists>p e. gc_endpoint (aeSync N ep) ?req dryRun (apRemotes a1 ep) = (apRemotes a2 ep, p, e)" by (intro gc_loop_at[OF g])
  then obtain p e where "gc_endpoint (aeSync N ep) ?req dryRun (apRemotes a ep) = (apRemotes a' ep, p, e)" using a1 a' by auto
  then show ?thesis using gc_endpoint_spares[OF assms(3-11)] assms(12) by blast
qed

subsection \<open>A concrete collection\<close>

definition demo_endpoint :: config_endpoint where
  "demo_endpoint = \<lparr>ceID = ''usb'', ceType = ''directory'', ceDisplayName = [], ceEnabled = True, ceRcloneRemote = [], ceProvider = [],
     cePath = ''/mnt'', ceRemote = [], ceHost = [], ceUser = [], cePort = 0\<rparr>"

definition demo_app_env :: "entries app_env" where
  "demo_app_env = \<lparr>aeSync = (\<lambda>_. dir_env\<lparr>snGc := chain_codec\<rparr>), aeExpand = id, aeRclone = (\<lambda>_ _. Some Offline), aeDeviceID = ''d'',
     aeDeviceName = ''d'', aeHostname = ''h'', aeRecoveryEnv = [], aeKeyring = [], aeKeyringAfter = [], aeCallback = (\<lambda>_. None),
     aeParseDuration = (\<lambda>_. None), aeCounter = (\<lambda>_. Inr 0), aeLockFault = None\<rparr>"

text \<open>A checkpoint that covers the bundle, the acknowledgement of one device, and a registry of two devices.\<close>

definition demo_app :: "entries app" where
  "demo_app = \<lparr>apConfig = \<lparr>scEnabled = None, scEndpoints = [demo_endpoint], scCallbacks = [], scInterval = [], scGCInterval = []\<rparr>,
     apDb = empty_db\<lparr>devices := map (\<lambda>i. \<lparr>d_id = i, d_name = i, d_hostname = None, d_status = ''active'', d_created_at = 1, d_retired_at = None\<rparr>) [''d'', ''e'']\<rparr>, apKeys = empty_keydb,
     apRemotes = (\<lambda>_. [(''acks'', Dir [(''d'', File [1])]), (''checkpoints'', Dir [(''P'', Dir [(''manifest'', File [2])])]),
       (''events'', Dir [(''A'', Dir [(''x.bundle'', File [4])])])]), apLock = Unheld\<rparr>"

theorem GarbageCollect_spares_unacknowledged_witness:
  "dir_Get (apRemotes (fst (GarbageCollect demo_app_env False demo_app)) demo_endpoint) ''events/A/x.bundle'' = Inr [4] \<and>
   snd (snd (GarbageCollect demo_app_env False demo_app)) = None"
proof -
  obtain a' p err where g: "GarbageCollect demo_app_env False demo_app = (a', p, err)" by (metis surj_pair)
  have "dir_Get (apRemotes a' demo_endpoint) ''events/A/x.bundle'' = Inr [4]"
  proof (rule GarbageCollect_spares_unacknowledged[OF g, where h = gc_header and i = "''e''"])
    show "distinct (scEndpoints (apConfig demo_app))" by (simp add: demo_app_def)
    show "directory_env (aeSync demo_app_env demo_endpoint)" by (auto simp: directory_env_def demo_app_env_def dir_env_def)
    show "tree_ok (Dir (apRemotes demo_app demo_endpoint))" "names_ok (Dir (apRemotes demo_app demo_endpoint))"
      "plain_key ''events/A/x.bundle''" "HasPrefix ''events/A/x.bundle'' ''events/''" "\<not> is_tmp ''events/A/x.bundle''"
      "dir_Get (apRemotes demo_app demo_endpoint) ''events/A/x.bundle'' = Inr [4]"
      "PeekHeader (gcBundle (snGc (aeSync demo_app_env demo_endpoint))) [4] = Inr gc_header" by code_simp+
    show "''e'' \<in> set (RequiredDevices (device_List (devices (apDb demo_app))))" by code_simp
    fix acks x
    assume "loadAcks (snGc (aeSync demo_app_env demo_endpoint)) (dir_view (apRemotes demo_app demo_endpoint)) = Inr acks" "map_of acks ''e'' = Some x"
    moreover have "map_sum id (map fst) (loadAcks (snGc (aeSync demo_app_env demo_endpoint)) (dir_view (apRemotes demo_app demo_endpoint))) = Inr [''d'']" by code_simp
    ultimately show "\<not> acknowledged [] x gc_header" by (auto dest!: map_of_SomeD)
  qed
  moreover have "snd (snd (GarbageCollect demo_app_env False demo_app)) = None" by code_simp
  ultimately show ?thesis using g by simp
qed

end
