(* ===== verification/Service_Fresh.thy ===== *)
theory Service_Fresh
  imports Service
begin

text \<open>
  The cache of the history service shows exactly the commands that have a live row in the database: every operation keeps it so, a
  rebuild restores it, and a commit of another process that changes \<^verbatim>\<open>data_version\<close> is noticed before the next suggestion.
\<close>

section \<open>What the cache depends on\<close>

definition keyrows :: "db \<Rightarrow> (string \<times> string \<times> bool) list" where
  "keyrows d = map (\<lambda>r. (h_id r, h_command r, h_deleted r)) (history d)"

definition live_cmds :: "db \<Rightarrow> string set" where
  "live_cmds d = {c. c \<noteq> [] \<and> (\<exists>i. (i, c, False) \<in> set (keyrows d))}"

text \<open>The cache is clean, knows the live commands, and knows no identifier under a command other than that of its row.\<close>

definition coherent :: "db \<Rightarrow> acache \<Rightarrow> bool" where
  "coherent d a \<longleftrightarrow> \<not> aDirty a \<and> dom (aInfo a) = live_cmds d \<and>
     (\<forall>i c c' b. aIds a i = Some c \<longrightarrow> (i, c', b) \<in> set (keyrows d) \<longrightarrow> c' = c)"

definition ids_ok :: "db \<Rightarrow> bool" where
  "ids_ok d \<longleftrightarrow> distinct (map fst (keyrows d))"

lemma ids_okD: "ids_ok d \<Longrightarrow> (i, c, b) \<in> set (keyrows d) \<Longrightarrow> (i, c', b') \<in> set (keyrows d) \<Longrightarrow> c = c' \<and> b = b'"
  unfolding ids_ok_def by (metis eq_key_imp_eq_value prod.inject)

text \<open>The stored hashes are those of the commands.\<close>

definition hashes :: "db \<Rightarrow> (string \<times> bytes) list" where
  "hashes d = map (\<lambda>r. (h_command r, h_command_hash r)) (history d)"

definition hashes_ok :: "(string \<Rightarrow> bytes) \<Rightarrow> db \<Rightarrow> bool" where
  "hashes_ok H d \<longleftrightarrow> list_all (\<lambda>(c, h). h = H c) (hashes d)"

text \<open>What the service relies on in its hooks: they record an event and leave identifiers, commands and deletions of the history
  alone, but for the deletion they are asked for.\<close>

locale history_hooks =
  fixes created tombstone :: enqueue_func
  assumes created_rows: "created d e = Inr d' \<Longrightarrow> keyrows d' = keyrows d \<and> hashes d' = hashes d"
    and tombstone_rows: "tombstone d e = Inr d' \<Longrightarrow> keyrows d' = keyrows (Tombstone d (eID e)) \<and> hashes d' = hashes d"

lemmas row_defs = keyrows_def hashes_def

lemma AppendExec_rows: "AppendExec c d ev = Inr d' \<Longrightarrow> keyrows d' = keyrows d \<and> hashes d' = hashes d"
  by (auto simp: AppendExec_def row_defs Let_def bind_result_def split: if_splits sum.splits)

lemma settle_local_rows [simp]: "keyrows (settle_local dev s d) = keyrows d" "hashes (settle_local dev s d) = hashes d"
  by (simp_all add: settle_local_def row_defs CompactUpToHeads_def MarkApplied_def)

lemma set_origin_rows [simp]: "keyrows (set_origin d i dev s) = keyrows d" "hashes (set_origin d i dev s) = hashes d"
  by (simp_all add: set_origin_def row_defs)

lemma Tombstone_rows: "keyrows (Tombstone d x) = map (\<lambda>(i, c, b). (i, c, b \<or> i = x)) (keyrows d)" "hashes (Tombstone d x) = hashes d"
  by (auto simp: Tombstone_def row_defs)

lemma Complete_rows [simp]: "keyrows (Complete d i t x) = keyrows d" "hashes (Complete d i t x) = hashes d"
  by (simp_all add: Complete_def row_defs Let_def)

interpretation engine_hooks: history_hooks "EnqueueHistoryCreated c now dev" "EnqueueHistoryTombstoned c now dev"
  by unfold_locales (auto simp: EnqueueHistoryCreated_def EnqueueHistoryTombstoned_def Let_def Tombstone_rows bind_result_def
      split: sum.splits dest!: AppendExec_rows)

lemma InsertExec_row:
  assumes "InsertExec H now d e = (d', ok)"
  shows "ok \<Longrightarrow> keyrows d' = keyrows d @ [(eID e, eCommand e, eDeleted e)] \<and> eID e \<notin> fst ` set (keyrows d) \<and> hashes d' = hashes d @ [(eCommand e, H (eCommand e))]"
    and "\<not> ok \<Longrightarrow> keyrows d' = keyrows d \<and> hashes d' = hashes d"
  using assms by (auto simp: InsertExec_def Let_def row_defs row_conflict_def split: if_splits prod.splits)

lemma InsertExec_refused:
  assumes "InsertExec H now d e = (d', False)" "eID e \<notin> fst ` set (keyrows d)" "eOriginDeviceID e = []" "inj H" "hashes_ok H d"
  shows "\<exists>i. (i, eCommand e, False) \<in> set (keyrows d)"
proof -
  obtain r where r: "r \<in> set (history d)" "h_id r = eID e \<or> \<not> h_deleted r \<and> h_command_hash r = H (eCommand e)"
    using assms(1,3) by (auto simp: InsertExec_def Let_def row_conflict_def nullString_def split: if_splits prod.splits)
  then have "h_id r \<noteq> eID e" using assms(2) by (force simp: keyrows_def)
  moreover have "h_command_hash r = H (h_command r)" using assms(5) r(1) by (auto simp: hashes_ok_def hashes_def list_all_iff)
  ultimately have "\<not> h_deleted r" "h_command r = eCommand e" using r(2) assms(4) by (auto dest: injD)
  then show ?thesis using r(1) by (force simp: keyrows_def)
qed

section \<open>The cache follows\<close>

lemma created_coherent:
  assumes "coherent d a" "keyrows d' = keyrows d @ [(eID e, eCommand e, eDeleted e)]" "eID e \<notin> fst ` set (keyrows d)"
    and "\<not> eDeleted e \<and> eCommand e \<noteq> [] \<or> aIds a (eID e) = None"
  shows "coherent d' (a_created a e)"
proof (cases "eDeleted e \<or> eCommand e = []")
  case True
  then have "a_created a e = a" "live_cmds d' = live_cmds d" "aIds a (eID e) = None" using assms(2,4) by (auto simp: a_created_def live_cmds_def)
  then show ?thesis using assms(1,2) unfolding coherent_def by (metis (no_types) Un_iff empty_iff empty_set insertE list.simps(15) option.simps(3) prod.inject set_append)
next
  case False
  then have "live_cmds d' = insert (eCommand e) (live_cmds d)" using assms(2) by (auto simp: live_cmds_def)
  then show ?thesis using assms(1-3) False by (auto simp: coherent_def a_created_def image_iff)
qed

lemma duplicate_coherent:
  assumes "coherent d a" "keyrows d' = keyrows d" "eID e \<notin> fst ` set (keyrows d)" "(i, eCommand e, False) \<in> set (keyrows d)"
  shows "coherent d' (a_created a e)"
proof (cases "eDeleted e \<or> eCommand e = []")
  case True
  then show ?thesis using assms(1,2) by (auto simp: coherent_def a_created_def live_cmds_def)
next
  case False
  then have "eCommand e \<in> live_cmds d" using assms(4) by (auto simp: live_cmds_def)
  moreover have "live_cmds d' = live_cmds d" using assms(2) by (simp add: live_cmds_def)
  ultimately show ?thesis using assms(1-3) False by (auto simp: coherent_def a_created_def image_iff)
qed

lemma completed_coherent: "coherent d a \<Longrightarrow> keyrows d' = keyrows d \<Longrightarrow> coherent d' (a_completed a i t x)"
  by (cases "aIds a i") (auto simp: coherent_def a_completed_def live_cmds_def dom_def split: if_splits)

lemma tombstones_info:
  assumes "\<And>i c. i \<in> set ids \<Longrightarrow> aIds a i = Some c \<Longrightarrow> c = cmd"
  shows "(\<forall>c. aInfo (foldl a_tombstone_id a ids) c = aInfo a c \<or> c = cmd) \<and> aIds (foldl a_tombstone_id a ids) \<subseteq>\<^sub>m aIds a"
  using assms
proof (induction ids arbitrary: a)
  case (Cons i ids)
  have s: "aIds (a_tombstone_id a i) \<subseteq>\<^sub>m aIds a" by (auto simp: a_tombstone_id_def map_le_def split: option.splits)
  moreover have "aInfo (a_tombstone_id a i) c = aInfo a c \<or> c = cmd" for c
    using Cons.prems by (auto simp: a_tombstone_id_def split: option.splits)
  moreover have "c' = cmd" if "j \<in> set ids" "aIds (a_tombstone_id a i) j = Some c'" for j c'
    using that s Cons.prems[of j c'] by (auto simp: map_le_def dom_def)
  ultimately show ?case using Cons.IH[of "a_tombstone_id a i"] map_le_trans[OF _ s] by (metis foldl_Cons)
qed auto

lemma deleted_coherent:
  assumes "coherent d a" "cmd \<noteq> []" "\<And>i. i \<in> set ids \<Longrightarrow> \<exists>b. (i, cmd, b) \<in> set (keyrows d)"
    and "\<And>i c b. (i, c, b) \<in> set (keyrows d') \<longleftrightarrow> (\<exists>b0. (i, c, b0) \<in> set (keyrows d) \<and> b = (b0 \<or> i \<in> set ids))" "\<And>i. (i, cmd, False) \<in> set (keyrows d) \<Longrightarrow> i \<in> set ids"
    and "ids_ok d" "a' = a_tombstone_command (foldl a_tombstone_id a ids) cmd" "\<not> aDirty a'"
  shows "coherent d' a'"
proof -
  have known: "c = cmd" if "i \<in> set ids" "aIds a i = Some c" for i c
    using assms(1,3) that unfolding coherent_def by blast
  have t: "(\<forall>c. aInfo (foldl a_tombstone_id a ids) c = aInfo a c \<or> c = cmd) \<and> aIds (foldl a_tombstone_id a ids) \<subseteq>\<^sub>m aIds a"
    by (rule tombstones_info) (use known in blast)
  have same: "c = cmd" if "(i, c, b) \<in> set (keyrows d)" "i \<in> set ids" for i c b
    using assms(3)[OF that(2)] that(1) ids_okD[OF assms(6)] by blast
  have "(i, c, False) \<in> set (keyrows d') \<longleftrightarrow> (i, c, False) \<in> set (keyrows d) \<and> c \<noteq> cmd" for i c
    using assms(5)[of i] same[of i c] by (auto simp: assms(4))
  then have "live_cmds d' = live_cmds d - {cmd}" by (auto simp: live_cmds_def)
  moreover have "dom (aInfo a') = dom (aInfo a) - {cmd}"
  proof -
    have "x \<in> dom (aInfo (foldl a_tombstone_id a ids)) \<longleftrightarrow> x \<in> dom (aInfo a)" if "x \<noteq> cmd" for x using t that by (metis domIff)
    then show ?thesis by (auto simp: assms(7) a_tombstone_command_def)
  qed
  moreover have "aIds a' \<subseteq>\<^sub>m aIds a" using t by (auto simp: assms(7) a_tombstone_command_def map_le_def dom_def)
  then have "aIds a i = Some c" if "aIds a' i = Some c" for i c using that by (auto simp: map_le_def dom_def)
  moreover have "\<exists>b. (i, c, b) \<in> set (keyrows d)" if "(i, c, b) \<in> set (keyrows d')" for i c b using that assms(4) by auto
  ultimately show ?thesis using assms(1,8) unfolding coherent_def by metis
qed

lemma created_dom:
  "dom (aInfo (foldl a_created a es)) = dom (aInfo a) \<union> {eCommand e | e. e \<in> set es \<and> \<not> eDeleted e \<and> eCommand e \<noteq> []}"
  by (induction es arbitrary: a) (auto simp: a_created_def)

lemma created_ids:
  "aIds (foldl a_created a es) i = Some c \<Longrightarrow> aIds a i = Some c \<or> (\<exists>e \<in> set es. eID e = i \<and> eCommand e = c)"
proof (induction es arbitrary: a)
  case (Cons e es)
  have "aIds (a_created a e) i = Some c \<Longrightarrow> aIds a i = Some c \<or> eID e = i \<and> eCommand e = c"
    by (auto simp: a_created_def split: if_splits)
  then show ?case using Cons.IH[of "a_created a e"] Cons.prems by auto
qed simp

lemma created_dirty: "aDirty (foldl a_created a es) = aDirty a"
  by (induction es arbitrary: a) (simp_all add: a_created_def)

lemma ScanLive_rows: "(\<exists>e \<in> set (ScanLive d). eID e = i \<and> eCommand e = c) \<longleftrightarrow> (i, c, False) \<in> set (keyrows d)"
  by (force simp: ScanLive_def scanEntries_def keyrows_def)

lemma rebuilt_coherent:
  assumes "ids_ok d"
  shows "coherent d (foldl a_created a_new (ScanLive d))"
proof -
  have "\<not> eDeleted e" if "e \<in> set (ScanLive d)" for e using that by (auto simp: ScanLive_def scanEntries_def)
  then have "dom (aInfo (foldl a_created a_new (ScanLive d))) = live_cmds d"
    unfolding created_dom live_cmds_def ScanLive_rows[symmetric] by (auto simp: a_new_def)
  moreover have "c' = c" if "aIds (foldl a_created a_new (ScanLive d)) i = Some c" "(i, c', b) \<in> set (keyrows d)" for i c c' b
    using created_ids[OF that(1)] ScanLive_rows[of d i c] ids_okD[OF assms that(2)] by (auto simp: a_new_def)
  ultimately show ?thesis by (simp add: coherent_def created_dirty a_new_def)
qed

section \<open>Every operation keeps the service fresh\<close>

definition service_ok :: "(string \<Rightarrow> bytes) \<Rightarrow> nat \<Rightarrow> service \<Rightarrow> bool" where
  "service_ok H n s \<longleftrightarrow> ids_ok (svDb s) \<and> hashes_ok H (svDb s) \<and> length (keyrows (svDb s)) \<le> n \<and> sorted_ok (svCache s) \<and>
     cache_rel n (svCache s) (abs_cache (svCache s)) \<and> coherent (svDb s) (abs_cache (svCache s))"

text \<open>The daemon's hooks, as \<^verbatim>\<open>Server.Open\<close> installs them, and a hash that does not collide.\<close>

definition daemon_env :: "event_cbor \<Rightarrow> service_env \<Rightarrow> bool" where
  "daemon_env c N \<longleftrightarrow> seCreated N = Some (EnqueueHistoryCreated c (seNow N) (seDevice N)) \<and>
     seTombstone N = Some (EnqueueHistoryTombstoned c (seNow N) (seDevice N)) \<and> inj (seHash N)"

lemma scan_all: "rebuild_scan (\<lambda>_. None) es n c = Inr (n + length es, foldl applyCreatedLocked c es)"
  by (induction es arbitrary: n c) simp_all

lemma Rebuild_any: "Rebuild (\<lambda>_. None) d c = (fst (Rebuild (\<lambda>_. None) d NewCache), None)"
  by (simp add: Rebuild_def scan_all Let_def)

lemma rebuildLocked_ok:
  assumes "ids_ok (svDb s)" "hashes_ok H (svDb s)" "length (keyrows (svDb s)) \<le> n" "n < 2 ^ 29"
  obtains s' where "rebuildLocked N (\<lambda>_. None) s = (s', None)" "service_ok H n s'" "svDb s' = svDb s"
    "svVersion s' = (case sePragma N of Inl _ \<Rightarrow> 0 | Inr v \<Rightarrow> v)"
proof -
  let ?c = "fst (Rebuild (\<lambda>_. None) (svDb s) NewCache)"
  have len: "length (ScanLive (svDb s)) \<le> length (keyrows (svDb s))" by (simp add: ScanLive_def scanEntries_def keyrows_def)
  have r: "cache_rel (length (ScanLive (svDb s))) ?c (foldl a_created a_new (ScanLive (svDb s)))" "sorted_ok ?c"
    using rel_rebuild[OF new_rel, of "svDb s" "\<lambda>_. None"] len assms(3,4) by (simp_all add: list_all_iff)
  then have "cache_rel n ?c (abs_cache ?c)" "abs_cache ?c = foldl a_created a_new (ScanLive (svDb s))"
    using rel_mono[OF r(1), of n] len assms(3) by (auto simp: cache_rel_def)
  moreover have e: "rebuildLocked N (\<lambda>_. None) s = (s\<lparr>svCache := ?c, svVersion := (case sePragma N of Inl _ \<Rightarrow> 0 | Inr v \<Rightarrow> v)\<rparr>, None)"
    by (simp add: rebuildLocked_def Rebuild_any[of "svDb s" "svCache s"])
  ultimately show thesis using rebuilt_coherent[OF assms(1)] r(2) assms(1-3) by (intro that[OF e]) (auto simp: service_ok_def)
qed

lemma afterCommit_ok:
  assumes "ids_ok (svDb s)" "hashes_ok H (svDb s)" "length (keyrows (svDb s)) \<le> n" "n < 2 ^ 29"
    and "cache_rel m (svCache s) a" "sorted_ok (svCache s)" "m + sum_list (map op_weight ops) = n"
    and "\<not> aDirty (foldl a_step a ops) \<Longrightarrow> coherent (svDb s) (foldl a_step a ops)"
    and "afterCommit N (\<lambda>c. foldl cache_step c ops) s = (s', None)"
  shows "service_ok H n s'"
proof -
  let ?c = "foldl cache_step (svCache s) ops"
  have r: "cache_rel n ?c (foldl a_step a ops)" "sorted_ok ?c" using cache_run_refines[OF assms(5,6), of ops] assms(4,7) by auto
  then have "abs_cache ?c = foldl a_step a ops" by (simp add: cache_rel_def)
  moreover have "aDirty (abs_cache ?c) = cDirty ?c" by (simp add: abs_cache_def)
  moreover have "service_ok H n s'" if d: "cDirty ?c"
  proof -
    obtain s1 where "rebuildLocked N (\<lambda>_. None) (s\<lparr>svCache := ?c\<rparr>) = (s1, None)" "service_ok H n s1"
      by (rule rebuildLocked_ok[of "s\<lparr>svCache := ?c\<rparr>" H n]) (use assms(1-4) in auto)
    then show ?thesis using assms(9) d by (simp add: afterCommit_def)
  qed
  moreover have "service_ok H n s'" if d: "\<not> cDirty ?c" "coherent (svDb s) (abs_cache ?c)"
  proof -
    obtain v where "s' = s\<lparr>svCache := ?c, svVersion := v\<rparr>"
      using assms(9) d(1) by (auto simp: afterCommit_def noteVersion_def Let_def split: sum.splits)
    then show ?thesis using assms(1-3) r d(2) by (simp add: service_ok_def cache_rel_def)
  qed
  ultimately show ?thesis using assms(8) by metis
qed

lemma start_ok:
  assumes "service_ok (seHash N) n s" "daemon_env c N" "Suc n < 2 ^ 29" "StartCommand N command cwd session shell s = (s', i, None)"
    and "seUuid N 0 = Inr i" "i \<notin> fst ` set (keyrows (svDb s))" "aIds (abs_cache (svCache s)) i = None"
  shows "service_ok (seHash N) (Suc n) s'"
proof -
  obtain skip ig where g: "ShouldSkip (seUpper N) (seIgnore N) command (svIgnore s) = (skip, ig)" by fastforce
  let ?e = "start_entry N i command cwd session shell" and ?a = "abs_cache (svCache s)"
  have e: "eID ?e = i" "eOriginDeviceID ?e = []" by (simp_all add: start_entry_def zero_entry_def)
  obtain d1 ok where ins: "InsertExec (seHash N) (seNow N) (svDb s) ?e = (d1, ok)" by fastforce
  note ok = assms(1)[unfolded service_ok_def]
  show ?thesis
  proof (cases skip)
    case True
    then have "s' = s\<lparr>svIgnore := ig\<rparr>" using assms(4,5) g by (simp add: StartCommand_def)
    then show ?thesis using assms(1) rel_mono[of n "svCache s" ?a "Suc n"] by (auto simp: service_ok_def)
  next
    case False
    then obtain d2 where d2: "EnqueueHistoryCreated c (seNow N) (seDevice N) d1 ?e = Inr d2"
      and a: "afterCommit N (\<lambda>c. ApplyCreated c ?e) (s\<lparr>svIgnore := ig, svDb := d2\<rparr>) = (s', None)"
      using assms(2,4,5) g ins by (auto simp: StartCommand_def run_hook_def daemon_env_def Let_def split: sum.splits prod.splits)
    have rows: "keyrows d2 = keyrows d1" "hashes d2 = hashes d1" using engine_hooks.created_rows[OF d2] by auto
    have "coherent d2 (a_created ?a ?e)"
    proof (cases ok)
      case True
      then show ?thesis using InsertExec_row(1)[OF ins] ok rows e assms(6,7) by (intro created_coherent[of "svDb s"]) auto
    next
      case False
      then obtain j where "(j, eCommand ?e, False) \<in> set (keyrows (svDb s))"
        using InsertExec_refused[of "seHash N" "seNow N" "svDb s" ?e d1] ins e ok assms(2,6) by (auto simp: daemon_env_def)
      then show ?thesis using False InsertExec_row(2)[OF ins] ok rows e assms(6) by (intro duplicate_coherent[of "svDb s"]) auto
    qed
    moreover have "ids_ok d2 \<and> hashes_ok (seHash N) d2 \<and> length (keyrows d2) \<le> Suc n"
      using InsertExec_row[OF ins] ok rows by (cases ok) (auto simp: ids_ok_def hashes_ok_def)
    ultimately show ?thesis using ok a assms(3)
      by (intro afterCommit_ok[where s = "s\<lparr>svIgnore := ig, svDb := d2\<rparr>" and ops = "[OCreated ?e]" and m = n and a = ?a]) auto
  qed
qed

lemma complete_ok:
  assumes "service_ok H n s" "n < 2 ^ 29" "CompleteCommand N i x s = (s', None)"
  shows "service_ok H n s'"
proof (cases "i = []")
  case True
  then show ?thesis using assms by (simp add: CompleteCommand_def)
next
  case False
  let ?s = "s\<lparr>svDb := Complete (svDb s) i (seNow N) x\<rparr>"
  show ?thesis
  proof (rule afterCommit_ok[where s = ?s and ops = "[OCompleted i (seNow N) x]" and m = n and a = "abs_cache (svCache s)"])
    show "afterCommit N (\<lambda>c. foldl cache_step c [OCompleted i (seNow N) x]) ?s = (s', None)"
      using assms(3) False by (simp add: CompleteCommand_def Let_def)
  qed (use assms(1,2) completed_coherent[of "svDb s" "abs_cache (svCache s)" "svDb ?s"] in \<open>auto simp: service_ok_def ids_ok_def hashes_ok_def\<close>)
qed

lemma tombstone_loop_rows:
  assumes "daemon_env c N" "tombstone_loop N es d = (d', None)"
  shows "hashes d' = hashes d \<and> keyrows d' = map (\<lambda>(i, c, b). (i, c, b \<or> i \<in> eID ` set es)) (keyrows d)"
  using assms(2)
proof (induction es arbitrary: d)
  case (Cons e es)
  then obtain d1 where d1: "EnqueueHistoryTombstoned c (seNow N) (seDevice N) d e = Inr d1" "tombstone_loop N es d1 = (d', None)"
    using assms(1) by (auto simp: daemon_env_def split: sum.splits)
  then show ?case using engine_hooks.tombstone_rows[OF d1(1)] Cons.IH[OF d1(2)] by (auto simp: Tombstone_rows)
qed (auto intro!: map_idI[symmetric])

lemma remdups_same: "xs \<noteq> [] \<Longrightarrow> (\<And>x. x \<in> set xs \<Longrightarrow> x = c) \<Longrightarrow> remdups xs = [c]"
proof (induction xs)
  case (Cons x xs)
  have "x = c" using Cons.prems(2) by simp
  moreover have "xs \<noteq> [] \<Longrightarrow> remdups xs = [c] \<and> c \<in> set xs" using Cons by (cases xs) auto
  ultimately show ?case by (cases "xs = []") auto
qed simp

lemma delete_ok:
  assumes "service_ok H n s" "daemon_env c N" "n < 2 ^ 29" "TombstoneCommand N cmd s = (s', None)"
  shows "service_ok H n s'"
proof (cases "cmd = [] \<or> ListByCommand (svDb s) cmd = []")
  case True
  then show ?thesis using assms(1,4) by (cases "cmd = []") (simp_all add: TombstoneCommand_def TombstoneEntries_def)
next
  case False
  let ?es = "ListByCommand (svDb s) cmd" and ?a = "abs_cache (svCache s)"
  have es: "i \<in> set (map eID ?es) \<longleftrightarrow> (i, cmd, False) \<in> set (keyrows (svDb s))" for i
    by (force simp: ListByCommand_def scanEntries_def keyrows_def)
  have cmds: "eCommand e = cmd" if "e \<in> set ?es" for e using that by (auto simp: ListByCommand_def scanEntries_def)
  then have one: "remdups (filter (\<lambda>c. c \<noteq> []) (map eCommand ?es)) = [cmd]"
    using False by (intro remdups_same) (auto simp: filter_empty_conv)
  obtain d where d: "tombstone_loop N ?es (svDb s) = (d, None)"
    and a: "afterCommit N (\<lambda>c. foldl cache_step c [OTombstoned (map eID ?es), OCommand cmd]) (s\<lparr>svDb := d\<rparr>) = (s', None)"
    using assms(4) False by (auto simp: TombstoneCommand_def TombstoneEntries_def one split: prod.splits option.splits)
  note rows = tombstone_loop_rows[OF assms(2) d]
  have m: "map fst (keyrows d) = map fst (keyrows (svDb s))" "length (keyrows d) = length (keyrows (svDb s))"
    using rows by (simp_all add: comp_def case_prod_unfold)
  then have ids: "ids_ok d" using assms(1) by (simp only: service_ok_def ids_ok_def)
  show ?thesis
  proof (rule afterCommit_ok[OF _ _ _ assms(3) _ _ _ _ a, where a = ?a and m = n])
    assume nd: "\<not> aDirty (foldl a_step ?a [OTombstoned (map eID ?es), OCommand cmd])"
    show "coherent (svDb (s\<lparr>svDb := d\<rparr>)) (foldl a_step ?a [OTombstoned (map eID ?es), OCommand cmd])"
    proof (rule deleted_coherent[of "svDb s" ?a cmd "map eID ?es"])
      show "(i, c, b) \<in> set (keyrows (svDb (s\<lparr>svDb := d\<rparr>))) \<longleftrightarrow>
          (\<exists>b0. (i, c, b0) \<in> set (keyrows (svDb s)) \<and> b = (b0 \<or> i \<in> set (map eID ?es)))" for i c b
        using rows by force
    qed (use assms(1) False es nd in \<open>auto simp: service_ok_def\<close>)
  qed (use assms(1) m conjunct1[OF rows] ids in \<open>auto simp: service_ok_def hashes_ok_def\<close>)
qed

text \<open>The entries an import brings: recorded commands, none of them deleted.\<close>

definition importable :: "entry list \<Rightarrow> bool" where
  "importable es \<longleftrightarrow> list_all (\<lambda>e. \<not> eDeleted e \<and> eCommand e \<noteq> []) es"

lemma import_loop_ok:
  assumes "daemon_env c N" "importable es" "import_loop N es k ins created s = (s', ins', created', None)"
    and "ids_ok (svDb s)" "hashes_ok (seHash N) (svDb s)" "coherent (svDb s) (foldl a_created a created)"
  shows "ids_ok (svDb s') \<and> hashes_ok (seHash N) (svDb s') \<and> coherent (svDb s') (foldl a_created a created') \<and> svCache s' = svCache s \<and>
    length (keyrows (svDb s')) \<le> length (keyrows (svDb s)) + length es \<and> length created' \<le> length created + length es"
  using assms(2-)
proof (induction es arbitrary: k ins created s)
  case (Cons e0 es)
  obtain skip ig where g: "ShouldSkip (seUpper N) (seIgnore N) (eCommand e0) (svIgnore s) = (skip, ig)" by fastforce
  have imp: "importable es" using Cons.prems(1) by (simp add: importable_def)
  show ?case
  proof (cases skip)
    case True
    then show ?thesis using Cons.IH[OF imp, of k ins created "s\<lparr>svIgnore := ig\<rparr>"] Cons.prems g by (auto simp: importable_def)
  next
    case False
    then obtain i where i: "(if eID e0 = [] then seUuid N k else Inr (eID e0)) = Inr i"
      using Cons.prems(2) g by (cases "if eID e0 = [] then seUuid N k else Inr (eID e0)") auto
    define e where "e = e0\<lparr>eID := i, eDeviceID := (if eDeviceID e0 = [] then seDevice N else eDeviceID e0)\<rparr>"
    have live: "\<not> eDeleted e" "eCommand e \<noteq> []" using Cons.prems(1) by (auto simp: importable_def e_def)
    obtain d1 ok where ins: "InsertExec (seHash N) (seNow N) (svDb s) e = (d1, ok)" by fastforce
    define k1 where "k1 = (if eID e0 = [] then k + 1 else k)"
    show ?thesis
    proof (cases ok)
      case True
      then obtain d2 where d2: "EnqueueHistoryCreated c (seNow N) (seDevice N) d1 e = Inr d2"
        and l: "import_loop N es k1 (ins + 1) (created @ [e]) (s\<lparr>svIgnore := ig, svDb := d2\<rparr>) = (s', ins', created', None)"
        using Cons.prems(2) g False i ins assms(1) unfolding e_def k1_def
        by (auto simp: Let_def run_hook_def daemon_env_def split: sum.splits)
      have r: "keyrows d2 = keyrows (svDb s) @ [(eID e, eCommand e, eDeleted e)]" "eID e \<notin> fst ` set (keyrows (svDb s))"
        "hashes d2 = hashes (svDb s) @ [(eCommand e, seHash N (eCommand e))]"
        using engine_hooks.created_rows[OF d2] InsertExec_row(1)[OF ins True] by auto
      have "coherent d2 (a_created (foldl a_created a created) e)"
        by (rule created_coherent[OF Cons.prems(5) r(1,2)]) (use live in simp)
      moreover have "ids_ok d2" "hashes_ok (seHash N) d2" using Cons.prems(3,4) r by (auto simp: ids_ok_def hashes_ok_def)
      ultimately show ?thesis using Cons.IH[OF imp l] r(1) by auto
    next
      case False
      then have l: "import_loop N es k1 ins created (s\<lparr>svIgnore := ig, svDb := d1\<rparr>) = (s', ins', created', None)"
        using Cons.prems(2) g \<open>\<not> skip\<close> i ins unfolding e_def k1_def by (auto simp: Let_def)
      have r: "keyrows d1 = keyrows (svDb s)" "hashes d1 = hashes (svDb s)" using InsertExec_row(2)[OF ins False] by auto
      then have "ids_ok d1" "hashes_ok (seHash N) d1" "coherent d1 (foldl a_created a created)"
        using Cons.prems(3-5) by (simp_all add: ids_ok_def hashes_ok_def coherent_def live_cmds_def)
      then show ?thesis using Cons.IH[OF imp l] r(1) by auto
    qed
  qed
qed auto

lemma import_ok:
  assumes "service_ok (seHash N) n s" "daemon_env c N" "importable es" "n + length es < 2 ^ 29" "Import N es s = (s', k, None)"
  shows "service_ok (seHash N) (n + length es) s'"
proof -
  let ?a = "abs_cache (svCache s)"
  obtain s1 ins created where l: "import_loop N es 0 0 [] s = (s1, ins, created, None)"
    and a: "afterCommit N (\<lambda>c. foldl cache_step c [OBatch (empty_cs\<lparr>csCreated := created\<rparr>)]) s1 = (s', None)"
    using assms(5) by (auto simp: Import_def split: prod.splits option.splits)
  have r: "ids_ok (svDb s1)" "hashes_ok (seHash N) (svDb s1)" "coherent (svDb s1) (foldl a_created ?a created)" "svCache s1 = svCache s"
    "length (keyrows (svDb s1)) \<le> length (keyrows (svDb s)) + length es" "length created \<le> length es"
    using import_loop_ok[OF assms(2,3) l, of ?a] assms(1) by (auto simp: service_ok_def)
  have n: "cache_rel (n + length es - length created) (svCache s1) ?a"
    using r(4,6) assms(1) rel_mono[of n "svCache s" ?a] by (auto simp: service_ok_def)
  show ?thesis
    by (rule afterCommit_ok[OF r(1,2) _ assms(4) n _ _ _ a])
      (use r assms(1) in \<open>auto simp: service_ok_def a_batch_def empty_cs_def\<close>)
qed

section \<open>Suggestions are never stale\<close>

text \<open>
  The life of the service in the daemon: it is built from a database with unique identifiers and correct hashes, and then serves
  calls that succeed, each in an environment of its own (clock, identifiers, \<^verbatim>\<open>data_version\<close>). \<open>n\<close> bounds the entries
  seen so far. A fresh identifier is one that neither the table nor the cache knows.
\<close>

inductive service_run :: "event_cbor \<Rightarrow> (string \<Rightarrow> bytes) \<Rightarrow> nat \<Rightarrow> service \<Rightarrow> bool" for c H where
  opened: "ids_ok (svDb s0) \<Longrightarrow> hashes_ok H (svDb s0) \<Longrightarrow> rebuildLocked N (\<lambda>_. None) s0 = (s, None) \<Longrightarrow>
     service_run c H (length (keyrows (svDb s0))) s"
| started: "service_run c H n s \<Longrightarrow> daemon_env c N \<Longrightarrow> seHash N = H \<Longrightarrow> seUuid N 0 = Inr i \<Longrightarrow> i \<notin> fst ` set (keyrows (svDb s)) \<Longrightarrow>
     aIds (abs_cache (svCache s)) i = None \<Longrightarrow> StartCommand N command cwd session shell s = (s', i, None) \<Longrightarrow> service_run c H (Suc n) s'"
| completed: "service_run c H n s \<Longrightarrow> CompleteCommand N i x s = (s', None) \<Longrightarrow> service_run c H n s'"
| deleted: "service_run c H n s \<Longrightarrow> daemon_env c N \<Longrightarrow> TombstoneCommand N command s = (s', None) \<Longrightarrow> service_run c H n s'"
| imported: "service_run c H n s \<Longrightarrow> daemon_env c N \<Longrightarrow> seHash N = H \<Longrightarrow> importable es \<Longrightarrow> Import N es s = (s', k, None) \<Longrightarrow>
     service_run c H (n + length es) s'"

lemma service_run_ok: "service_run c H n s \<Longrightarrow> n < 2 ^ 29 \<Longrightarrow> service_ok H n s"
proof (induction rule: service_run.induct)
  case (opened s0 N s)
  then show ?case using rebuildLocked_ok[OF opened(1,2) order_refl opened(4), of N] by (metis prod.inject)
next
  case (started n s N i command cwd session shell s')
  then show ?case using start_ok[of N n s c command cwd session shell s' i] by auto
next
  case (completed n s N i x s')
  then show ?case using complete_ok by blast
next
  case (deleted n s N command s')
  then show ?case using delete_ok by blast
next
  case (imported n s N es s' k)
  then show ?case using import_ok[of N n s c es s' k] by auto
qed

lemma suggest_commands:
  assumes "service_ok H n s" "pfx \<noteq> []"
  shows "map eCommand (Suggest (svCache s) pfx) = take 64 (sorted_list_of_set {cmd \<in> live_cmds (svDb s). HasPrefix cmd pfx \<and> cmd \<noteq> pfx})"
proof -
  have "cache_ok (svCache s)" "sorted_ok (svCache s)" "coherent (svDb s) (abs_cache (svCache s))" using assms(1) by (auto simp: service_ok_def cache_rel_def)
  then show ?thesis using Suggest_eq[of "svCache s" pfx] assms(2)
    by (simp add: a_suggest_def coherent_def take_map[symmetric] comp_def a_entry_def zero_entry_def)
qed


section \<open>A session\<close>

definition char_hash :: "string \<Rightarrow> bytes" where
  "char_hash s = map (\<lambda>c. word_of_nat (of_char c)) s"

lemma char_hash_inj: "inj char_hash"
proof -
  have "inj (\<lambda>c. word_of_nat (of_char c) :: byte)"
  proof (rule injI)
    fix a b
    assume "(word_of_nat (of_char a) :: byte) = word_of_nat (of_char b)"
    then have "unat (word_of_nat (of_char a) :: byte) = unat (word_of_nat (of_char b) :: byte)" by (rule arg_cong)
    moreover have "(of_char x :: nat) < 256" for x by (rule nat_of_char_less_256)
    ultimately show "a = b" by (simp add: unat_of_nat take_bit_nat_eq_self)
  qed
  then show ?thesis unfolding char_hash_def by (simp add: inj_map)
qed

definition demo_service_env :: "gotime \<Rightarrow> string \<Rightarrow> int \<Rightarrow> service_env" where
  "demo_service_env now i v = \<lparr>seHash = char_hash, seUpper = id,
     seIgnore = \<lparr>ieStat = (\<lambda>_. None), ieReadFile = (\<lambda>_. None), ieCompile = (\<lambda>_. None), ieCommandsPath = ''t'', ieRegexPath = ''r''\<rparr>,
     seNow = now, seUuid = (\<lambda>_. Inr i), seGetwd = ''/'', seHost = ''h'', seDevice = ''A'',
     seCreated = Some (EnqueueHistoryCreated demo_cbor now ''A''), seTombstone = Some (EnqueueHistoryTombstoned demo_cbor now ''A''),
     sePragma = Inr v\<rparr>"

lemma demo_service_daemon: "daemon_env demo_cbor (demo_service_env now i v)"
  by (simp add: daemon_env_def demo_service_env_def char_hash_inj)

definition demo_opened :: service where
  "demo_opened = fst (rebuildLocked (demo_service_env 1000000 [] 1) (\<lambda>_. None) (NewService empty_db NewCache))"

text \<open>The service after \<^verbatim>\<open>ls\<close>; the database after another process has added \<^verbatim>\<open>lf\<close>.\<close>

definition demo_started :: service where
  "demo_started = fst (StartCommand (demo_service_env 2000000 ''1'' 1) ''ls'' ''/w'' ''s'' ''zsh'' demo_opened)"

definition demo_external :: db where
  "demo_external = fst (InsertExec char_hash 3000000 (svDb demo_started) (cache_demo_entry ''2'' ''lf'' 3000000))"

lemma demo_run: "service_run demo_cbor char_hash 1 demo_started"
proof -
  have o: "service_run demo_cbor char_hash 0 demo_opened"
  proof -
    have "snd (rebuildLocked (demo_service_env 1000000 [] 1) (\<lambda>_. None) (NewService empty_db NewCache)) = None" by code_simp
    then have "rebuildLocked (demo_service_env 1000000 [] 1) (\<lambda>_. None) (NewService empty_db NewCache) = (demo_opened, None)"
      by (simp add: prod_eq_iff demo_opened_def)
    from opened[OF _ _ this, where H = char_hash] show ?thesis
      by (simp add: NewService_def ids_ok_def hashes_ok_def row_defs empty_db_def)
  qed
  have "snd (StartCommand (demo_service_env 2000000 ''1'' 1) ''ls'' ''/w'' ''s'' ''zsh'' demo_opened) = (''1'', None)" by code_simp
  then have "StartCommand (demo_service_env 2000000 ''1'' 1) ''ls'' ''/w'' ''s'' ''zsh'' demo_opened = (demo_started, ''1'', None)"
    by (simp add: prod_eq_iff demo_started_def)
  moreover have "keyrows (svDb demo_opened) = []" "map_of (cIdToCmd (svCache demo_opened)) ''1'' = None" by code_simp+
  ultimately have "service_run demo_cbor char_hash (Suc 0) demo_started"
    by (intro started[OF o demo_service_daemon]) (simp_all add: demo_service_env_def abs_cache_def)
  then show ?thesis by simp
qed


text \<open>
  A call of the service between the foreign commit and the next suggestion hides the commit: \<^verbatim>\<open>afterCommit\<close> records the new
  \<^verbatim>\<open>data_version\<close> without having looked at what the other process changed, so \<^verbatim>\<open>EnsureFresh\<close> no longer sees a difference.
\<close>

theorem foreign_commit_hidden:
  "let s = demo_started\<lparr>svDb := demo_external\<rparr>;
       s1 = fst (CompleteCommand (demo_service_env 5000000 [] 2) ''1'' 0 s);
       out = snd (SuggestCandidates (demo_service_env 6000000 [] 2) ''l'' s1)
   in ''lf'' \<in> live_cmds (svDb s1) \<and> map_sum id (map eCommand) out = Inr [''ls'']"
proof -
  have "keyrows (svDb (fst (CompleteCommand (demo_service_env 5000000 [] 2) ''1'' 0 (demo_started\<lparr>svDb := demo_external\<rparr>)))) =
    [(''1'', ''ls'', False), (''2'', ''lf'', False)]" by code_simp
  moreover have "map_sum id (map eCommand) (snd (SuggestCandidates (demo_service_env 6000000 [] 2) ''l''
    (fst (CompleteCommand (demo_service_env 5000000 [] 2) ''1'' 0 (demo_started\<lparr>svDb := demo_external\<rparr>))))) = Inr [''ls'']"
    by code_simp
  ultimately show ?thesis unfolding Let_def live_cmds_def by auto
qed

end
