(* ===== verification/Daemon.thy ===== *)
theory Daemon
  imports App_Safety Service_Fresh
begin

text \<open>
  The daemon (\<^verbatim>\<open>internal/daemon/scheduler.go\<close>, \<^verbatim>\<open>status.go\<close>): the synchronisation cycle with its status, the flag that keeps two
  cycles apart, and the back-off after a lost authentication. The application and the history service share the database.
  Parameters: the text of errors, the redaction of secrets, the keyring, the configuration file, and whether the context is
  cancelled. Clock readings in the status are left out.
\<close>

section \<open>State and environment\<close>

record status =
  stOK :: bool
  stError :: string
  stClass :: string
  stHint :: string
  stGCDeleted :: int
  stGCEligible :: bool

definition zero_status :: status where
  "zero_status = \<lparr>stOK = False, stError = [], stClass = [], stHint = [], stGCDeleted = 0, stGCEligible = False\<rparr>"

record 's daemon =
  dApp :: "'s app"
  dCache :: cache
  dVersion :: int
  dIgnore :: ignore_cache
  dLast :: status
  dFile :: status
  dRunning :: bool
  dInterval :: int
  dAuthFails :: int

record 's daemon_env =
  deApp :: "'s app_env"
  deSvc :: service_env
  deText :: "go_error \<Rightarrow> string"
  deRedact :: "string \<Rightarrow> string"
  deInterrupted :: bool
  deCancelled :: "entry \<Rightarrow> go_error option"
  deKeyring :: "(string \<times> bytes) list result"
  deConfig :: "sync_config result"

text \<open>The history service of the daemon works on the application's database.\<close>

definition service_of :: "'s daemon \<Rightarrow> service" where
  "service_of d = \<lparr>svDb = apDb (dApp d), svCache = dCache d, svVersion = dVersion d, svIgnore = dIgnore d\<rparr>"

definition put_service :: "service \<Rightarrow> 's daemon \<Rightarrow> 's daemon" where
  "put_service s d = d\<lparr>dApp := (dApp d)\<lparr>apDb := svDb s\<rparr>, dCache := svCache s, dVersion := svVersion s, dIgnore := svIgnore s\<rparr>"

definition in_service :: "(service \<Rightarrow> service \<times> 'r) \<Rightarrow> 's daemon \<Rightarrow> 's daemon \<times> 'r" where
  "in_service f d = (case f (service_of d) of (s, r) \<Rightarrow> (put_service s d, r))"

section \<open>The synchronisation cycle\<close>

definition writeStatus :: "'s daemon_env \<Rightarrow> status \<Rightarrow> 's daemon \<Rightarrow> 's daemon" where
  "writeStatus N st d = d\<lparr>dFile := st\<lparr>stError := deRedact N (stError st), stHint := deRedact N (stHint st)\<rparr>\<rparr>"

definition report_status :: "'s daemon_env \<Rightarrow> status \<Rightarrow> 's daemon \<Rightarrow> 's daemon" where
  "report_status N st d = (writeStatus N st d)\<lparr>dLast := st\<rparr>"

definition failStatus :: "'s daemon_env \<Rightarrow> go_error \<Rightarrow> string \<Rightarrow> string \<Rightarrow> status" where
  "failStatus N err class hint = zero_status\<lparr>stError := deRedact N (deText N err), stClass := class, stHint := hint\<rparr>"

definition classifyErr :: "'s daemon_env \<Rightarrow> go_error \<Rightarrow> sync_config \<Rightarrow> string \<times> string" where
  "classifyErr N err cfg =
     (if error_is err AuthRequired
      then (''auth_required'',
            case find (\<lambda>r. ceProvider r = ''icloud-drive'' \<and> Contains (deText N err) (ceID r)) (EnabledEndpoints cfg) of
              None \<Rightarrow> ''run: remnix remote reconnect <name>''
            | Some r \<Rightarrow> ''iCloud authentication expired; run: remnix remote reconnect '' @ ceID r)
      else if error_is err Offline then (''offline'', [])
      else if error_is err SyncDisabled then (''disabled'', [])
      else ([], []))"

definition rebuild_dirty :: "'s daemon_env \<Rightarrow> 's daemon \<Rightarrow> 's daemon" where
  "rebuild_dirty N d =
     fst (in_service (\<lambda>s. rebuildLocked (deSvc N) (deCancelled N) (s\<lparr>svCache := MarkDirty (svCache s)\<rparr>)) d)"

definition on_app :: "('s app \<Rightarrow> 's app \<times> 'r) \<Rightarrow> 's daemon \<Rightarrow> 's daemon \<times> 'r" where
  "on_app f d = (case f (dApp d) of (a, r) \<Rightarrow> (d\<lparr>dApp := a\<rparr>, r))"

definition with_plan :: "plan \<Rightarrow> status \<Rightarrow> status" where
  "with_plan p st = st\<lparr>stGCDeleted := int (DeletedCount p), stGCEligible := plEligible p\<rparr>"

text \<open>The callbacks, under the lock.\<close>

definition callback_phase :: "'s daemon_env \<Rightarrow> plan \<Rightarrow> 's daemon \<Rightarrow> 's daemon \<times> string" where
  "callback_phase N p d =
     (case on_app (AcquireLock (deApp N)) d of
        (d1, Some err) \<Rightarrow> (report_status N (with_plan p (failStatus N err [] [])) d1, [])
      | (d1, None) \<Rightarrow>
          (let cbErr = runCallbacks (deApp N) (scCallbacks (apConfig (dApp d1))); d2 = d1\<lparr>dApp := Release (dApp d1)\<rparr>
           in case cbErr of
                Some err \<Rightarrow> (report_status N (with_plan p (failStatus N err [] [])) d2, [])
              | None \<Rightarrow> (report_status N (with_plan p (zero_status\<lparr>stOK := True\<rparr>)) d2, [])))"

definition gc_phase :: "'s daemon_env \<Rightarrow> 's daemon \<Rightarrow> 's daemon \<times> string" where
  "gc_phase N d =
     (case on_app (GarbageCollect (deApp N) False) d of
        (d1, p, Some err) \<Rightarrow>
          if deInterrupted N then (d1, []) else (report_status N (failStatus N (Wrapped ''gc'' err) [] []) d1, [])
      | (d1, p, None) \<Rightarrow> callback_phase N p (if DeletedCount p > 0 then rebuild_dirty N d1 else d1))"

definition checkpoint_phase :: "'s daemon_env \<Rightarrow> bool \<Rightarrow> 's daemon \<Rightarrow> 's daemon \<times> string" where
  "checkpoint_phase N force d =
     (case on_app (checkpoint (deApp N) force) d of
        (d1, Some err) \<Rightarrow>
          if \<not> force then gc_phase N d1
          else if deInterrupted N then (d1, [])
          else (report_status N (failStatus N (Wrapped ''checkpoint'' err) [] []) d1, ''error'')
      | (d1, None) \<Rightarrow> gc_phase N d1)"

definition follow_changes :: "'s daemon_env \<Rightarrow> change_set \<Rightarrow> 's daemon \<Rightarrow> 's daemon" where
  "follow_changes N cs d =
     (if cs_Empty cs then d
      else (case in_service (ApplyRemoteChanges (deSvc N) cs) d of (d1, None) \<Rightarrow> d1 | (d1, Some err) \<Rightarrow> rebuild_dirty N d1))"

definition runSyncCycle :: "'s daemon_env \<Rightarrow> bool \<Rightarrow> 's daemon \<Rightarrow> 's daemon \<times> string" where
  "runSyncCycle N force d =
     (if \<not> IsEnabled (apConfig (dApp d))
      then (report_status N (zero_status\<lparr>stOK := True, stClass := ''disabled''\<rparr>) d, ''disabled'')
      else (case deKeyring N of
              Inl err \<Rightarrow> (writeStatus N (failStatus N err [] []) d, [])
            | Inr smks \<Rightarrow>
                if length smks = 0
                then (report_status N (zero_status\<lparr>stError := ''keyring empty; run remnix unlock (recovery key or FIDO touch once)''\<rparr>) d, [])
                else (let d0 = (if force then rebuild_dirty N d else d)
                      in case on_app (SyncEngineWithChanges (deApp N) no_unlock) d0 of
                           (d1, cs, Some err) \<Rightarrow>
                             if deInterrupted N then (d1, [])
                             else (case classifyErr N err (apConfig (dApp d1)) of (class, hint) \<Rightarrow>
                                     (report_status N (failStatus N err class hint) d1, class))
                         | (d1, cs, None) \<Rightarrow> checkpoint_phase N force (follow_changes N cs d1))))"

section \<open>The scheduler\<close>

definition newScheduler_interval :: "int \<Rightarrow> int" where
  "newScheduler_interval i = (if i \<le> 0 then 300000000000 else i)"

definition SetInterval :: "int \<Rightarrow> 's daemon \<Rightarrow> 's daemon" where
  "SetInterval i d = d\<lparr>dInterval := newScheduler_interval i\<rparr>"

text \<open>\<^verbatim>\<open>runExclusive\<close> takes the flag, runs the cycle and gives the flag back: two steps that other callers can come between.\<close>

definition enter :: "'s daemon \<Rightarrow> 's daemon \<times> bool" where
  "enter d = (if dRunning d then (d, False) else (d\<lparr>dRunning := True\<rparr>, True))"

definition leave :: "'s daemon \<Rightarrow> 's daemon" where
  "leave d = d\<lparr>dRunning := False\<rparr>"

definition runExclusive :: "'s daemon_env \<Rightarrow> bool \<Rightarrow> 's daemon \<Rightarrow> 's daemon \<times> string" where
  "runExclusive N force d =
     (case enter d of
        (d1, False) \<Rightarrow> (d1, ''busy'')
      | (d1, True) \<Rightarrow> (case runSyncCycle N force d1 of (d2, class) \<Rightarrow> (leave d2, class)))"

text \<open>One turn of \<^verbatim>\<open>Run\<close> after a cycle of the given class: the delay until the next one, an \<^verbatim>\<open>int64\<close> of nanoseconds.\<close>

definition after_tick :: "string \<Rightarrow> 's daemon \<Rightarrow> 's daemon \<times> int" where
  "after_tick class d =
     (if class = ''busy'' then (d, dInterval d)
      else if class = ''auth_required''
        then (let n = (if dAuthFails d + 1 > 5 then 5 else dAuthFails d + 1)
              in (d\<lparr>dAuthFails := n\<rparr>, wrap64 (dInterval d * 2 ^ nat n)))
      else (d\<lparr>dAuthFails := 0\<rparr>, dInterval d))"

definition tick :: "'s daemon_env \<Rightarrow> 's daemon \<Rightarrow> 's daemon \<times> int" where
  "tick N d = (case runExclusive N False d of (d1, class) \<Rightarrow> after_tick class d1)"

section \<open>Configuration reload\<close>

definition ReloadConfig :: "'s daemon_env \<Rightarrow> 's daemon \<Rightarrow> 's daemon \<times> go_error option" where
  "ReloadConfig N d =
     (case deConfig N of
        Inl err \<Rightarrow> (d, Some err)
      | Inr cfg \<Rightarrow> (SetInterval (IntervalDuration (aeParseDuration (deApp N)) cfg) (d\<lparr>dApp := (dApp d)\<lparr>apConfig := cfg\<rparr>\<rparr>), None))"

section \<open>The lock\<close>

lemma locked_lock:
  assumes "\<And>a. apLock (fst (body a)) = apLock a"
  shows "apLock (fst (locked N failed body a)) = apLock a"
  using assms by (cases "apLock a") (simp_all add: locked_def AcquireLock_def Release_def split: option.splits prod.splits)

lemma put_engine_lock [simp]: "apLock (put_engine ep e a) = apLock a" and put_remotes_lock [simp]: "apLock (put_remotes eps ss a) = apLock a"
  by (simp_all add: put_engine_def put_remotes_def)

lemma equalize_live_lock [simp]: "apLock (fst (equalize_live N opn a)) = apLock a"
  by (simp add: equalize_live_def split: prod.splits)

lemma sync_loop_lock: "apLock (fst (sync_loop N u eps st)) = apLock (fst st)"
  by (induction N u eps st rule: sync_loop.induct) (simp_all split: prod.splits option.splits)

lemma syncUnlocked_lock: "apLock (fst (syncUnlocked N u onlyID a)) = apLock a"
  by (simp add: syncUnlocked_def case_prod_unfold sync_loop_lock split: sum.splits)

lemma each_loop_lock: "apLock (fst (each_loop N u fn eps st)) = apLock (fst st)"
  by (induction N u fn eps st rule: each_loop.induct) (simp_all split: prod.splits option.splits)

lemma gc_loop_lock: "apLock (fst (gc_loop N required dryRun eps st)) = apLock (fst st)"
  by (induction N required dryRun eps st rule: gc_loop.induct) (simp_all split: prod.splits)

lemma due_loop_lock: "apLock (fst (due_loop N eps st)) = apLock (fst st)"
  by (induction N eps st rule: due_loop.induct) (simp_all add: Let_def split: prod.splits option.splits sum.splits)

lemma SyncEngineWithChanges_lock: "apLock (fst (SyncEngineWithChanges N u a)) = apLock a"
  unfolding SyncEngineWithChanges_def by (rule locked_lock) (simp add: case_prod_unfold syncUnlocked_lock)

lemma GarbageCollect_lock: "apLock (fst (GarbageCollect N dryRun a)) = apLock a"
  unfolding GarbageCollect_def
  by (rule locked_lock) (simp add: Let_def case_prod_unfold gc_loop_lock split: sum.splits)

lemma write_checkpoint_lock: "apLock (fst (write_checkpoint N force opn errs a)) = apLock a"
  by (simp add: write_checkpoint_def Let_def case_prod_unfold each_loop_lock split: sum.splits)

lemma checkpoint_lock: "apLock (fst (checkpoint N force a)) = apLock a"
  by (simp add: checkpoint_def case_prod_unfold locked_lock[OF write_checkpoint_lock] due_loop_lock split: sum.splits)

lemmas app_lock = SyncEngineWithChanges_lock GarbageCollect_lock checkpoint_lock

lemma report_status_app [simp]: "dApp (report_status N st d) = dApp d" "dApp (writeStatus N st d) = dApp d"
  by (simp_all add: report_status_def writeStatus_def)

lemma in_service_app:
  assumes "\<And>s. svDb (fst (f s)) = svDb s"
  shows "dApp (fst (in_service f d)) = dApp d"
  using assms[of "service_of d"] by (simp add: in_service_def put_service_def service_of_def case_prod_unfold)

lemma on_app_app [simp]: "dApp (fst (on_app f d)) = fst (f (dApp d))"
  by (simp add: on_app_def case_prod_unfold)

lemma rebuildLocked_db [simp]: "svDb (fst (rebuildLocked N c s)) = svDb s"
  by (simp add: rebuildLocked_def split: prod.splits option.splits)

lemma rebuild_dirty_app [simp]: "dApp (rebuild_dirty N d) = dApp d"
  unfolding rebuild_dirty_def by (rule in_service_app) simp

lemma ApplyRemoteChanges_db: "svDb (fst (ApplyRemoteChanges N cs s)) = svDb s"
  by (simp add: ApplyRemoteChanges_def afterCommit_def noteVersion_def Let_def split: sum.splits)

lemma follow_changes_app [simp]: "dApp (follow_changes N cs d) = dApp d"
  using in_service_app[of "ApplyRemoteChanges (deSvc N) cs" d, OF ApplyRemoteChanges_db]
  by (auto simp: follow_changes_def split: prod.splits option.splits)

lemma callback_phase_lock: "apLock (dApp (fst (callback_phase N p d))) = apLock (dApp d)"
  by (cases "apLock (dApp d)")
     (simp_all add: callback_phase_def on_app_def AcquireLock_def Release_def Let_def split: option.splits prod.splits)

lemma gc_phase_lock: "apLock (dApp (fst (gc_phase N d))) = apLock (dApp d)"
proof -
  obtain d1 p err where g: "on_app (GarbageCollect (deApp N) False) d = (d1, p, err)" by (metis prod_cases3)
  have "apLock (dApp d1) = apLock (dApp d)"
    using on_app_app[of "GarbageCollect (deApp N) False" d] GarbageCollect_lock[of "deApp N" False "dApp d"] g by simp
  then show ?thesis using g by (auto simp: gc_phase_def callback_phase_lock split: option.splits)
qed

lemma checkpoint_phase_lock: "apLock (dApp (fst (checkpoint_phase N force d))) = apLock (dApp d)"
proof -
  obtain d1 err where g: "on_app (checkpoint (deApp N) force) d = (d1, err)" by (metis prod.exhaust)
  have "apLock (dApp d1) = apLock (dApp d)"
    using on_app_app[of "checkpoint (deApp N) force" d] checkpoint_lock[of "deApp N" force "dApp d"] g by simp
  then show ?thesis using g by (auto simp: checkpoint_phase_def gc_phase_lock split: option.splits)
qed

lemma locked_held: "apLock a \<noteq> Unheld \<Longrightarrow> \<exists>err. locked N failed body a = (a, failed err)"
  by (auto simp: locked_def AcquireLock_def split: option.splits)

lemma sync_held:
  assumes "apLock (dApp d) \<noteq> Unheld"
  shows "\<exists>err. on_app (SyncEngineWithChanges N u) d = (d, empty_cs, Some err)"
proof -
  obtain err where "SyncEngineWithChanges N u (dApp d) = (dApp d, empty_cs, Some err)"
    using locked_held[OF assms, of N "\<lambda>err. (empty_cs, Some err)"] unfolding SyncEngineWithChanges_def by blast
  then show ?thesis by (simp add: on_app_def)
qed

text \<open>C14: A synchronisation cycle of the daemon ends, on every path, with the process lock as it found it; and while another holder
  has the lock, the cycle changes nothing of the application: not the database, not the keys, and no remote.\<close>

theorem cycle_respects_lock:
  "apLock (dApp (fst (runSyncCycle N force d))) = apLock (dApp d)
   \<and> (apLock (dApp d) = Unheld \<or> dApp (fst (runSyncCycle N force d)) = dApp d)"
proof -
  define d0 where "d0 = (if force then rebuild_dirty N d else d)"
  have d0: "dApp d0 = dApp d" by (simp add: d0_def)
  obtain d1 cs err where g: "on_app (SyncEngineWithChanges (deApp N) no_unlock) d0 = (d1, cs, err)" by (metis prod_cases3)
  have "apLock (dApp d1) = apLock (dApp d)"
    using on_app_app[of "SyncEngineWithChanges (deApp N) no_unlock" d0] SyncEngineWithChanges_lock[of "deApp N" no_unlock "dApp d0"] g d0 by simp
  moreover have "dApp d1 = dApp d \<and> err \<noteq> None" if "apLock (dApp d) \<noteq> Unheld"
    using sync_held[of d0 "deApp N" no_unlock] that g d0 by auto
  ultimately show ?thesis using g unfolding runSyncCycle_def Let_def d0_def[symmetric]
    by (auto simp: checkpoint_phase_lock split: sum.splits prod.splits option.splits)
qed

section \<open>One cycle at a time\<close>

text \<open>
  The timer and the clients that ask for a synchronisation, each a thread with a name, at the two critical sections of \<^verbatim>\<open>runExclusive\<close>.
  A step is a thread that enters, one that is turned away as busy, one that does something inside its cycle, or one that leaves.
\<close>

record 's threads =
  tDaemon :: "'s daemon"
  tInside :: "nat list"

inductive sched_step :: "'s daemon_env \<Rightarrow> 's threads \<Rightarrow> 's threads \<Rightarrow> bool" for N where
  entered: "i \<notin> set (tInside t) \<Longrightarrow> enter (tDaemon t) = (d, True) \<Longrightarrow> sched_step N t (t\<lparr>tDaemon := d, tInside := i # tInside t\<rparr>)"
| refused: "i \<notin> set (tInside t) \<Longrightarrow> enter (tDaemon t) = (d, False) \<Longrightarrow> sched_step N t (t\<lparr>tDaemon := d\<rparr>)"
| cycled: "i \<in> set (tInside t) \<Longrightarrow> sched_step N t (t\<lparr>tDaemon := fst (runSyncCycle N force (tDaemon t))\<rparr>)"
| reloaded: "sched_step N t (t\<lparr>tDaemon := fst (ReloadConfig N (tDaemon t))\<rparr>)"
| left: "i \<in> set (tInside t) \<Longrightarrow> sched_step N t (t\<lparr>tDaemon := leave (tDaemon t), tInside := removeAll i (tInside t)\<rparr>)"

definition one_inside :: "'s threads \<Rightarrow> bool" where
  "one_inside t = (length (tInside t) = (if dRunning (tDaemon t) then 1 else 0))"

lemma on_app_flags [simp]: "dRunning (fst (on_app f d)) = dRunning d" and in_service_flags [simp]: "dRunning (fst (in_service g d)) = dRunning d"
  and report_flags [simp]: "dRunning (report_status N st d) = dRunning d" "dRunning (writeStatus N st d) = dRunning d"
  by (simp_all add: on_app_def in_service_def put_service_def report_status_def writeStatus_def case_prod_unfold)

lemma rebuild_dirty_flags [simp]: "dRunning (rebuild_dirty N d) = dRunning d"
  by (simp add: rebuild_dirty_def)

lemma follow_changes_flags [simp]: "dRunning (follow_changes N cs d) = dRunning d"
  by (simp add: follow_changes_def case_prod_unfold split: option.splits)

lemma callback_phase_flags [simp]: "dRunning (fst (callback_phase N p d)) = dRunning d"
  by (simp add: callback_phase_def case_prod_unfold Let_def split: option.splits)

lemma gc_phase_flags [simp]: "dRunning (fst (gc_phase N d)) = dRunning d"
  by (simp add: gc_phase_def case_prod_unfold split: option.splits)

lemma checkpoint_phase_flags [simp]: "dRunning (fst (checkpoint_phase N force d)) = dRunning d"
  by (simp add: checkpoint_phase_def case_prod_unfold split: option.splits)

lemma runSyncCycle_flags [simp]: "dRunning (fst (runSyncCycle N force d)) = dRunning d"
  by (simp add: runSyncCycle_def case_prod_unfold Let_def split: sum.splits option.splits)

lemma ReloadConfig_flags [simp]: "dRunning (fst (ReloadConfig N d)) = dRunning d"
  by (simp add: ReloadConfig_def SetInterval_def split: sum.splits)

lemma sched_step_one_inside:
  assumes "sched_step N t t'" "one_inside t"
  shows "one_inside t'"
  using assms
proof cases
  case (left i)
  then have "tInside t = [i]" "dRunning (tDaemon t)" using assms(2) by (auto simp: one_inside_def length_Suc_conv split: if_splits)
  then show ?thesis using left by (simp add: one_inside_def leave_def)
qed (auto simp: one_inside_def enter_def split: if_splits)

text \<open>C13: However the timer's ticks, the clients' requests for a synchronisation and reloads of the configuration interleave, from a
  daemon at rest never two threads are inside a synchronisation cycle, and a thread is turned away exactly while another one is inside.\<close>

theorem one_cycle_at_a_time:
  assumes "(sched_step N)\<^sup>*\<^sup>* t t'" "tInside t = []" "\<not> dRunning (tDaemon t)"
  shows "length (tInside t') \<le> 1 \<and> (snd (enter (tDaemon t')) \<longleftrightarrow> tInside t' = [])"
proof -
  from assms(1) have "one_inside t'"
  proof induction
    case base
    then show ?case using assms(2,3) by (simp add: one_inside_def)
  qed (rule sched_step_one_inside)
  then show ?thesis by (auto simp: one_inside_def enter_def split: if_splits)
qed

section \<open>Back-off\<close>

text \<open>The delays that \<^verbatim>\<open>Run\<close> sets after cycles of the given classes.\<close>

fun delays :: "string list \<Rightarrow> 's daemon \<Rightarrow> int list" where
  "delays [] d = []"
| "delays (class # cs) d = (case after_tick class d of (d1, delay) \<Rightarrow> delay # delays cs d1)"

definition backoff_ok :: "'s daemon \<Rightarrow> bool" where
  "backoff_ok d = (0 < dInterval d \<and> dInterval d \<le> 2 ^ 58 - 1 \<and> 0 \<le> dAuthFails d \<and> dAuthFails d \<le> 5)"

lemma wrap64_backoff:
  assumes "0 < i" "i \<le> 2 ^ 58 - 1" "0 \<le> n" "n \<le> (5::int)"
  shows "wrap64 (i * 2 ^ nat n) = i * 2 ^ nat n" "i \<le> i * 2 ^ nat n" "i * 2 ^ nat n \<le> i * 32"
proof -
  have "(2::int) ^ nat n \<le> 2 ^ 5" by (rule power_increasing) (use assms in auto)
  then have le: "(2::int) ^ nat n \<le> 32" by simp
  then show 32: "i * 2 ^ nat n \<le> i * 32" using assms(1) by (intro mult_left_mono) auto
  have "i * 1 \<le> i * 2 ^ nat n" using assms(1) by (intro mult_left_mono) (auto simp: one_le_power)
  then show lo: "i \<le> i * 2 ^ nat n" by simp
  have "i * 32 < 2 ^ 63" using assms(2) by simp
  then have "i * 2 ^ nat n < 2 ^ 63" "- (2 ^ 63) \<le> i * 2 ^ nat n" using 32 lo assms(1) by linarith+
  then show "wrap64 (i * 2 ^ nat n) = i * 2 ^ nat n" by (simp only: wrap64_id)
qed

lemma after_tick_auth:
  assumes "backoff_ok d"
  shows "after_tick ''auth_required'' d =
    (d\<lparr>dAuthFails := min 5 (dAuthFails d + 1)\<rparr>, dInterval d * 2 ^ min (nat (dAuthFails d) + 1) 5)"
proof -
  let ?n = "min 5 (dAuthFails d + 1)"
  have n: "(if dAuthFails d + 1 > 5 then 5 else dAuthFails d + 1) = ?n" by simp
  have "nat ?n = min (nat (dAuthFails d) + 1) 5" using assms by (auto simp: backoff_ok_def min_def)
  moreover have "wrap64 (dInterval d * 2 ^ nat ?n) = dInterval d * 2 ^ nat ?n"
    by (rule wrap64_backoff(1)) (use assms in \<open>auto simp: backoff_ok_def\<close>)
  ultimately show ?thesis unfolding after_tick_def n Let_def by simp
qed

lemma after_tick_ok:
  assumes "backoff_ok d"
  shows "backoff_ok (fst (after_tick class d)) \<and> dInterval (fst (after_tick class d)) = dInterval d
    \<and> dInterval d \<le> snd (after_tick class d) \<and> snd (after_tick class d) \<le> dInterval d * 32"
proof (cases "class = ''auth_required''")
  case True
  have "nat (min 5 (dAuthFails d + 1)) = min (nat (dAuthFails d) + 1) 5" using assms by (auto simp: backoff_ok_def min_def)
  then show ?thesis using True assms wrap64_backoff(2,3)[of "dInterval d" "min 5 (dAuthFails d + 1)"]
    by (simp add: after_tick_auth) (auto simp: backoff_ok_def)
next
  case False
  then show ?thesis using assms by (auto simp: after_tick_def backoff_ok_def)
qed

text \<open>C26: Between synchronisations the daemon waits at least the configured interval and at most thirty-two times that, whatever the
  outcomes of the cycles were; as long as the authentication stays lost, the wait after the \<open>k\<close>-th failure in a row is the
  interval times two to the \<open>k\<close>, no more than to the fifth. The bound on the interval (nine years) keeps the product within 64 bits.
\<close>

theorem backoff_bounded:
  assumes "backoff_ok d"
  shows "list_all (\<lambda>w. dInterval d \<le> w \<and> w \<le> 32 * dInterval d) (delays classes d)
    \<and> (dAuthFails d = 0 \<longrightarrow> delays (replicate k ''auth_required'') d = map (\<lambda>j. dInterval d * 2 ^ min (j + 1) 5) [0..<k])"
proof
  show "list_all (\<lambda>w. dInterval d \<le> w \<and> w \<le> 32 * dInterval d) (delays classes d)"
    using assms
  proof (induction classes arbitrary: d)
    case (Cons c cs)
    show ?case using after_tick_ok[OF Cons.prems, of c] Cons.IH[of "fst (after_tick c d)"]
      by (simp add: case_prod_unfold mult.commute)
  qed simp
  have "delays (replicate k ''auth_required'') d = map (\<lambda>j. dInterval d * 2 ^ min (nat (dAuthFails d) + j + 1) 5) [0..<k]"
    using assms
  proof (induction k arbitrary: d)
    case (Suc k)
    let ?n = "min 5 (dAuthFails d + 1)"
    have "delays (replicate k ''auth_required'') (d\<lparr>dAuthFails := ?n\<rparr>) = map (\<lambda>j. dInterval d * 2 ^ min (nat ?n + j + 1) 5) [0..<k]"
      using Suc.IH[of "d\<lparr>dAuthFails := ?n\<rparr>"] Suc.prems by (simp add: backoff_ok_def)
    also have "\<dots> = map (\<lambda>j. dInterval d * 2 ^ min (nat (dAuthFails d) + Suc j + 1) 5) [0..<k]"
    proof -
      have "min (nat ?n + j + 1) 5 = min (nat (dAuthFails d) + Suc j + 1) 5" for j using Suc.prems by (auto simp: backoff_ok_def min_def)
      then show ?thesis by simp
    qed
    finally show ?case using Suc.prems by (simp add: after_tick_auth upt_conv_Cons map_Suc_upt[symmetric] del: upt_Suc map_Suc_upt)
  qed simp
  then show "dAuthFails d = 0 \<longrightarrow> delays (replicate k ''auth_required'') d = map (\<lambda>j. dInterval d * 2 ^ min (j + 1) 5) [0..<k]"
    by simp
qed

section \<open>A concrete daemon\<close>

definition demo_daemon_env :: "entries daemon_env" where
  "demo_daemon_env = \<lparr>deApp = demo_app_env, deSvc = demo_service_env 4000000 [] 2, deText = (\<lambda>_. ''failed''), deRedact = id,
     deInterrupted = False, deCancelled = (\<lambda>_. None), deKeyring = Inl (Errorf ''keyring locked''), deConfig = Inl (Errorf ''config'')\<rparr>"

definition demo_daemon :: "entries daemon" where
  "demo_daemon = \<lparr>dApp = demo_app, dCache = NewCache, dVersion = 0, dIgnore = userIgnore, dLast = zero_status\<lparr>stOK := True\<rparr>,
     dFile = zero_status\<lparr>stOK := True\<rparr>, dRunning = False, dInterval = 300000000000, dAuthFails = 0\<rparr>"

definition demo_busy :: "entries threads" where
  "demo_busy = \<lparr>tDaemon = demo_daemon\<lparr>dRunning := True\<rparr>, tInside = [7]\<rparr>"

theorem one_cycle_at_a_time_witness:
  "(sched_step demo_daemon_env)\<^sup>*\<^sup>* \<lparr>tDaemon = demo_daemon, tInside = []\<rparr> demo_busy
   \<and> length (tInside demo_busy) \<le> 1 \<and> \<not> snd (enter (tDaemon demo_busy))"
proof -
  let ?t = "\<lparr>tDaemon = demo_daemon, tInside = []\<rparr>"
  have "sched_step demo_daemon_env ?t demo_busy"
    using entered[of 7 ?t "demo_daemon\<lparr>dRunning := True\<rparr>"] by (simp add: enter_def demo_daemon_def demo_busy_def)
  moreover have "sched_step demo_daemon_env demo_busy demo_busy"
    using refused[of 8 demo_busy "demo_daemon\<lparr>dRunning := True\<rparr>"] by (simp add: enter_def demo_daemon_def demo_busy_def)
  ultimately have r: "(sched_step demo_daemon_env)\<^sup>*\<^sup>* ?t demo_busy" by simp
  from one_cycle_at_a_time[OF r] r show ?thesis by (simp add: demo_daemon_def demo_busy_def)
qed

theorem backoff_bounded_witness:
  "delays (replicate 7 ''auth_required'') demo_daemon =
     [600000000000, 1200000000000, 2400000000000, 4800000000000, 9600000000000, 9600000000000, 9600000000000]
   \<and> list_all (\<lambda>w. 300000000000 \<le> w \<and> w \<le> 9600000000000) (delays [''auth_required'', ''busy'', [], ''auth_required''] demo_daemon)"
proof -
  have "backoff_ok demo_daemon" by (simp add: backoff_ok_def demo_daemon_def)
  from backoff_bounded[OF this, of "[''auth_required'', ''busy'', [], ''auth_required'']" 7] show ?thesis
    by (simp add: demo_daemon_def upt_rec)
qed

end
