(* ===== verification/Terminal.thy ===== *)
theory Terminal
  imports Prelude
begin

text \<open>
  The byte streams of a terminal session (\<^verbatim>\<open>internal/terminal\<close>): the lossless queue of keyboard input (\<^verbatim>\<open>pty_input.go\<close>), the lossy
  queue of output that is still to be parsed (\<^verbatim>\<open>parse_queue.go\<close>), the writer that copes with short writes (\<^verbatim>\<open>writefull.go\<close>), and
  the frames between client and daemon (\<^verbatim>\<open>protocol.go\<close>). A mutex makes every operation of a queue one step; an operation that
  waits for a condition is a step that is enabled when the condition holds.
\<close>

unbundle bit_operations_syntax

section \<open>Queues over a slice with a head index\<close>

text \<open>
  Both queues keep a slice and the index of its first live element; popping clears the element and, when the dead part is long
  enough, copies the live part to a new slice.
\<close>

definition drop_head :: "'a \<Rightarrow> 'a list \<Rightarrow> nat \<Rightarrow> 'a list \<times> nat" where
  "drop_head zero items head =
     (let items1 = items[head := zero]; head1 = head + 1
      in if head1 > 32 \<and> head1 * 2 \<ge> length items1 then (drop head1 items1, 0) else (items1, head1))"

lemma drop_head_live:
  assumes "head < length items" "drop_head zero items head = (items', head')"
  shows "drop head' items' = drop (Suc head) items" "head' \<le> length items'"
  using assms by (auto simp: drop_head_def Let_def split: if_splits)

section \<open>Keyboard input\<close>

definition maxPTYInputBytes :: int where
  "maxPTYInputBytes = 1048576"

datatype input_error = InputStopped | InputSaturated

record input_queue =
  iqChunks :: "bytes list"
  iqHead :: nat
  iqBytes :: int
  iqBudget :: int
  iqMaxDepth :: int
  iqStopped :: bool

definition newPTYInputQueue :: "int \<Rightarrow> input_queue" where
  "newPTYInputQueue budget = \<lparr>iqChunks = [], iqHead = 0, iqBytes = 0, iqBudget = (if budget < 1 then maxPTYInputBytes else budget),
     iqMaxDepth = 0, iqStopped = False\<rparr>"

definition input_push :: "input_queue \<Rightarrow> bytes \<Rightarrow> input_queue \<times> input_error option" where
  "input_push q p =
     (if length p = 0 then (q, None)
      else if iqStopped q then (q, Some InputStopped)
      else if iqBytes q + int (length p) > iqBudget q then (q, Some InputSaturated)
      else (let n = iqBytes q + int (length p)
            in (q\<lparr>iqChunks := iqChunks q @ [p], iqBytes := n, iqMaxDepth := (if n > iqMaxDepth q then n else iqMaxDepth q)\<rparr>, None)))"

text \<open>\<^verbatim>\<open>popWait\<close>: \<open>None\<close> while it waits; \<open>Some None\<close> when the queue is stopped and empty.\<close>

definition input_popWait :: "input_queue \<Rightarrow> (input_queue \<times> bytes option) option" where
  "input_popWait q =
     (if iqHead q \<ge> length (iqChunks q) then (if iqStopped q then Some (q, None) else None)
      else (let item = iqChunks q ! iqHead q; (chunks, head) = drop_head [] (iqChunks q) (iqHead q); n = iqBytes q - int (length item)
            in Some (q\<lparr>iqChunks := chunks, iqHead := head, iqBytes := (if n < 0 then 0 else n)\<rparr>, Some item)))"

definition input_stop :: "input_queue \<Rightarrow> input_queue" where
  "input_stop q = q\<lparr>iqStopped := True\<rparr>"

section \<open>Output waiting to be parsed\<close>

definition maxParseQueuedBytes :: int where
  "maxParseQueuedBytes = 1048576"

record parse_item =
  piSeq :: nat
  piData :: bytes
  piCpr :: bool

definition zero_item :: parse_item where
  "zero_item = \<lparr>piSeq = 0, piData = [], piCpr = False\<rparr>"

text \<open>The sequence numbers and the count of saturations are \<^verbatim>\<open>uint64\<close>.\<close>

definition next64 :: "nat \<Rightarrow> nat" where
  "next64 n = (n + 1) mod 2 ^ 64"

record parse_queue =
  pqItems :: "parse_item list"
  pqHead :: nat
  pqQueuedBytes :: int
  pqEnqueuedSeq :: nat
  pqParsedSeq :: nat
  pqDirty :: bool
  pqStopped :: bool
  pqBudget :: int
  pqMaxQueued :: int
  pqSaturations :: nat

definition newParseQueue :: "int \<Rightarrow> parse_queue" where
  "newParseQueue budget = \<lparr>pqItems = [], pqHead = 0, pqQueuedBytes = 0, pqEnqueuedSeq = 0, pqParsedSeq = 0, pqDirty = False,
     pqStopped = False, pqBudget = (if budget < 1 then maxParseQueuedBytes else budget), pqMaxQueued = 0, pqSaturations = 0\<rparr>"

text \<open>Giving up the backlog when the budget is exceeded.\<close>

definition saturate :: "parse_queue \<Rightarrow> parse_queue" where
  "saturate q = q\<lparr>pqSaturations := next64 (pqSaturations q), pqDirty := True, pqItems := [], pqHead := 0, pqQueuedBytes := 0,
     pqParsedSeq := pqEnqueuedSeq q\<rparr>"

definition append_item :: "parse_queue \<Rightarrow> bytes \<Rightarrow> bool \<Rightarrow> parse_queue" where
  "append_item q data cpr =
     (let seq = next64 (pqEnqueuedSeq q); n = pqQueuedBytes q + int (length data)
      in q\<lparr>pqEnqueuedSeq := seq, pqItems := pqItems q @ [\<lparr>piSeq = seq, piData = data, piCpr = cpr\<rparr>], pqQueuedBytes := n,
           pqMaxQueued := (if n > pqMaxQueued q then n else pqMaxQueued q)\<rparr>)"

definition enqueue :: "parse_queue \<Rightarrow> bytes \<Rightarrow> bool \<Rightarrow> parse_queue \<times> nat \<times> bool" where
  "enqueue q data cpr =
     (if length data = 0 \<and> \<not> cpr then (q, 0, False)
      else if pqStopped q then (q, pqEnqueuedSeq q, False)
      else (let over = pqQueuedBytes q + int (length data) > pqBudget q; q1 = (if over then saturate q else q)
            in if over \<and> int (length data) > pqBudget q then (q1, pqEnqueuedSeq q1, False)
               else (let q2 = append_item q1 data cpr in (q2, pqEnqueuedSeq q2, True))))"

definition popLocked :: "parse_queue \<Rightarrow> parse_queue \<times> parse_item option" where
  "popLocked q =
     (if pqHead q \<ge> length (pqItems q) then (q, None)
      else (let item = pqItems q ! pqHead q; (items, head) = drop_head zero_item (pqItems q) (pqHead q);
                n = pqQueuedBytes q - int (length (piData item))
            in (q\<lparr>pqItems := items, pqHead := head, pqQueuedBytes := (if n < 0 then 0 else n)\<rparr>, Some item)))"

definition popWait :: "parse_queue \<Rightarrow> (parse_queue \<times> parse_item option) option" where
  "popWait q = (if pqHead q \<ge> length (pqItems q) \<and> \<not> pqStopped q then None else Some (popLocked q))"

definition markParsed :: "parse_queue \<Rightarrow> nat \<Rightarrow> parse_queue" where
  "markParsed q seq = (if seq > pqParsedSeq q then q\<lparr>pqParsedSeq := seq\<rparr> else q)"

definition currentSeq :: "parse_queue \<Rightarrow> nat" where
  "currentSeq q = pqEnqueuedSeq q"

text \<open>Whether \<^verbatim>\<open>wait(target)\<close> returns.\<close>

definition wait_returns :: "parse_queue \<Rightarrow> nat \<Rightarrow> bool" where
  "wait_returns q target \<longleftrightarrow> \<not> (pqParsedSeq q < target \<and> \<not> pqStopped q)"

definition parse_stop :: "parse_queue \<Rightarrow> parse_queue" where
  "parse_stop q = q\<lparr>pqStopped := True, pqItems := [], pqHead := 0, pqQueuedBytes := 0, pqParsedSeq := pqEnqueuedSeq q\<rparr>"

text \<open>\<^verbatim>\<open>enqueueParse\<close> of \<^verbatim>\<open>session_unix.go\<close>: the chunk is cut behind every cursor query.\<close>

fun enqueue_loop :: "bytes \<Rightarrow> int list \<Rightarrow> int \<Rightarrow> parse_queue \<Rightarrow> parse_queue \<times> int" where
  "enqueue_loop p [] start q = (q, start)"
| "enqueue_loop p (end0 # ends) start q =
     (if end0 < start then enqueue_loop p ends start q
      else (let end1 = (if end0 > int (length p) then int (length p) else end0)
            in if end1 > start
               then enqueue_loop p ends end1 (fst (enqueue q (take (nat (end1 - start)) (drop (nat start) p)) True))
               else enqueue_loop p ends end1 (fst (enqueue q [] True))))"

definition enqueueParse :: "bytes \<Rightarrow> int list \<Rightarrow> parse_queue \<Rightarrow> parse_queue" where
  "enqueueParse p cprEnds q =
     (if length p = 0 then q
      else (let (q1, start) = enqueue_loop p cprEnds 0 q
            in if start < int (length p) then fst (enqueue q1 (drop (nat start) p) False) else q1))"

section \<open>Writing everything\<close>

datatype write_error = Eintr | Eagain | WriteFailed go_error

partial_function (option) writeFull ::
  "('s \<Rightarrow> bytes \<Rightarrow> 's \<times> nat \<times> write_error option) \<Rightarrow> ('s \<Rightarrow> 's \<times> go_error option) option \<Rightarrow> 's \<Rightarrow> bytes \<Rightarrow> ('s \<times> go_error option) option" where
  [code]: "writeFull w waitEAGAIN s p =
     (if p = [] then Some (s, None)
      else (case w s p of (s1, n, err) \<Rightarrow>
        (case err of
           None \<Rightarrow> if n = 0 then Some (s1, Some (Errorf ''short write'')) else writeFull w waitEAGAIN s1 (drop n p)
         | Some Eintr \<Rightarrow> writeFull w waitEAGAIN s1 (drop n p)
         | Some Eagain \<Rightarrow>
             (case waitEAGAIN of
                None \<Rightarrow> Some (s1, Some (IOFault ''would block''))
              | Some f \<Rightarrow> (case f s1 of
                    (s2, Some werr) \<Rightarrow> Some (s2, Some werr)
                  | (s2, None) \<Rightarrow> writeFull w waitEAGAIN s2 (drop n p)))
         | Some (WriteFailed e) \<Rightarrow> Some (s1, Some e))))"

record short_writer =
  swBuf :: bytes
  swLimit :: nat
  swFail :: "write_error option"
  swBlocked :: nat

definition shortWriter_Write :: "short_writer \<Rightarrow> bytes \<Rightarrow> short_writer \<times> nat \<times> write_error option" where
  "shortWriter_Write w p =
     (if swBlocked w > 0 then (w\<lparr>swBlocked := swBlocked w - 1\<rparr>, 0, Some Eagain)
      else (case swFail w of
              Some e \<Rightarrow> (w\<lparr>swFail := None\<rparr>, 0, Some e)
            | None \<Rightarrow>
                if length p = 0 then (w, 0, None)
                else (let n = (if swLimit w > 0 \<and> length p > swLimit w then swLimit w else length p)
                      in (w\<lparr>swBuf := swBuf w @ take n p\<rparr>, n, None))))"

section \<open>Frames\<close>

text \<open>\<^verbatim>\<open>binary.BigEndian\<close> on 32 bits.\<close>

definition be32 :: "32 word \<Rightarrow> bytes" where
  "be32 n = [ucast (drop_bit 24 n), ucast (drop_bit 16 n), ucast (drop_bit 8 n), ucast n]"

definition unbe32 :: "bytes \<Rightarrow> 32 word" where
  "unbe32 b = push_bit 24 (ucast (b ! 0)) OR push_bit 16 (ucast (b ! 1)) OR push_bit 8 (ucast (b ! 2)) OR ucast (b ! 3)"

definition frame_bytes :: "byte \<Rightarrow> bytes \<Rightarrow> bytes" where
  "frame_bytes kind payload = kind # be32 (word_of_nat (length payload)) @ payload"

definition WriteFrame :: "('s \<Rightarrow> bytes \<Rightarrow> 's \<times> nat \<times> write_error option) \<Rightarrow> 's \<Rightarrow> byte \<Rightarrow> bytes \<Rightarrow> ('s \<times> go_error option) option" where
  "WriteFrame w s kind payload = writeFull w None s (frame_bytes kind payload)"

text \<open>\<^verbatim>\<open>io.ReadFull\<close> on a stream of which \<open>r\<close> is left.\<close>

definition read_full :: "nat \<Rightarrow> bytes \<Rightarrow> (bytes \<times> bytes) result" where
  "read_full n r =
     (if length r < n then Inl (Errorf (if r = [] then ''EOF'' else ''unexpected EOF'')) else Inr (take n r, drop n r))"

definition ReadFrame :: "bytes \<Rightarrow> ((byte \<times> bytes) \<times> bytes) result" where
  "ReadFrame r =
     bind_result (read_full 5 r) (\<lambda>(hdr, r1).
       let n = unbe32 (drop 1 hdr)
       in if n > 4194304 then Inl (Errorf ''terminal: frame too large'')
          else if n = 0 then Inr ((hdr ! 0, []), r1)
          else bind_result (read_full (unat n) r1) (\<lambda>(body, r2). Inr ((hdr ! 0, body), r2)))"

section \<open>The request that creates a session\<close>

record create_request =
  crShell :: string
  crCwd :: string
  crCols :: int
  crRows :: int
  crXpixel :: int
  crYpixel :: int
  crEnv :: "string list"

abbreviation nl :: char where
  "nl \<equiv> CHR 0x0A"

definition WriteCreate :: "create_request \<Rightarrow> string" where
  "WriteCreate req =
     concat (map (\<lambda>l. l @ [nl])
       ([''CREATE'', ''shell='' @ crShell req, ''cwd='' @ crCwd req, ''cols='' @ show_int (crCols req), ''rows='' @ show_int (crRows req),
         ''xpixel='' @ show_int (crXpixel req), ''ypixel='' @ show_int (crYpixel req),
         ''env_count='' @ show_int (int (length (crEnv req)))] @ crEnv req @ [[]]))"

text \<open>\<^verbatim>\<open>ReadLine\<close>: a last line without a newline counts, a line over a megabyte is an error.\<close>

fun ReadLine :: "string \<Rightarrow> string \<Rightarrow> (string \<times> string) result" where
  "ReadLine out [] = (if out = [] then Inl (Errorf ''EOF'') else Inr (out, []))"
| "ReadLine out (c # r) =
     (if c = nl then Inr (out, r)
      else if length out + 1 > 1048576 then Inl (Errorf ''terminal: header line too long'')
      else ReadLine (out @ [c]) r)"

fun read_lines :: "nat \<Rightarrow> string \<Rightarrow> (string list \<times> string) result" where
  "read_lines 0 r = Inr ([], r)"
| "read_lines (Suc n) r =
     bind_result (ReadLine [] r) (\<lambda>(l, r1). bind_result (read_lines n r1) (\<lambda>(ls, r2). Inr (l # ls, r2)))"

text \<open>\<^verbatim>\<open>fmt.Sscanf(v, "%d", &n)\<close>: spaces, an optional sign, digits up to the first other character, within 64 bits.\<close>

definition scan_d :: "string \<Rightarrow> int result" where
  "scan_d v =
     (let t = dropWhile (\<lambda>c. c = CHR '' '' \<or> c = CHR 0x09 \<or> c = CHR 0x0D) v;
          neg = (t \<noteq> [] \<and> hd t = CHR ''-'');
          body = (if t \<noteq> [] \<and> (hd t = CHR ''-'' \<or> hd t = CHR ''+'') then tl t else t);
          ds = takeWhile (\<lambda>c. digit_val c \<noteq> None) body
      in case parse_digits 0 ds of
           None \<Rightarrow> Inl (Errorf ''expected integer'')
         | Some n \<Rightarrow>
             if ds = [] then Inl (Errorf ''expected integer'')
             else (let i = (if neg then - int n else int n)
                   in if - (2 ^ 63) \<le> i \<and> i < 2 ^ 63 then Inr i else Inl (Errorf ''integer overflow on token'')))"

text \<open>\<^verbatim>\<open>strings.Cut(line, "=")\<close>.\<close>

definition cut_eq :: "string \<Rightarrow> (string \<times> string) option" where
  "cut_eq line =
     (if CHR ''='' \<in> set line
      then Some (takeWhile (\<lambda>c. c \<noteq> CHR ''='') line, tl (dropWhile (\<lambda>c. c \<noteq> CHR ''='') line)) else None)"

text \<open>One header line: the new request, and how many lines of environment follow.\<close>

definition header_line :: "string \<Rightarrow> create_request \<Rightarrow> (create_request \<times> int) result" where
  "header_line line req =
     (case cut_eq line of
        None \<Rightarrow> Inr (req, 0)
      | Some (k, v) \<Rightarrow>
          if k = ''shell'' then Inr (req\<lparr>crShell := v\<rparr>, 0)
          else if k = ''cwd'' then Inr (req\<lparr>crCwd := v\<rparr>, 0)
          else if k = ''cols'' then bind_result (scan_d v) (\<lambda>n. Inr (req\<lparr>crCols := n\<rparr>, 0))
          else if k = ''rows'' then bind_result (scan_d v) (\<lambda>n. Inr (req\<lparr>crRows := n\<rparr>, 0))
          else if k = ''xpixel'' then bind_result (scan_d v) (\<lambda>n. Inr (req\<lparr>crXpixel := n\<rparr>, 0))
          else if k = ''ypixel'' then bind_result (scan_d v) (\<lambda>n. Inr (req\<lparr>crYpixel := n\<rparr>, 0))
          else if k = ''env_count'' then bind_result (scan_d v) (\<lambda>n. Inr (req, n))
          else Inr (req, 0))"

lemma ReadLine_shorter: "ReadLine out r = Inr (l, r') \<Longrightarrow> length r' < length r \<or> r = [] \<and> out \<noteq> [] \<and> r' = []"
  by (induction out r rule: ReadLine.induct) (auto split: if_splits)

lemma read_lines_shorter: "read_lines n r = Inr (ls, r') \<Longrightarrow> length r' \<le> length r"
proof (induction n arbitrary: r ls)
  case (Suc n)
  then obtain l r1 ls1 where "ReadLine [] r = Inr (l, r1)" "read_lines n r1 = Inr (ls1, r')" by (auto simp: bind_result_Inr)
  then show ?case using ReadLine_shorter[of "[]" r l r1] Suc.IH[of r1 ls1] by auto
qed simp

function read_headers :: "string \<Rightarrow> create_request \<Rightarrow> create_request result" where
  "read_headers r req =
     (case ReadLine [] r of
        Inl e \<Rightarrow> Inl e
      | Inr (line, r1) \<Rightarrow>
          if line = [] then Inr req
          else (case header_line line req of
                  Inl e \<Rightarrow> Inl e
                | Inr (req1, envN) \<Rightarrow>
                    (case read_lines (nat envN) r1 of
                       Inl e \<Rightarrow> Inl e
                     | Inr (ls, r2) \<Rightarrow> read_headers r2 (req1\<lparr>crEnv := crEnv req1 @ ls\<rparr>))))"
  by pat_completeness auto

termination
  by (relation "measure (\<lambda>(r, _). length r)")
    (auto dest!: ReadLine_shorter read_lines_shorter)

declare read_headers.simps [simp del]

definition ReadCreate :: "string \<Rightarrow> create_request result" where
  "ReadCreate r =
     bind_result (ReadLine [] r) (\<lambda>(line, r1).
       if line \<noteq> ''CREATE'' then Inl (Errorf ''terminal: want CREATE'')
       else read_headers r1 \<lparr>crShell = [], crCwd = [], crCols = 0, crRows = 0, crXpixel = 0, crYpixel = 0, crEnv = []\<rparr>)"

section \<open>Frames and requests come back\<close>

lemma unbe32_be32 [simp]: "unbe32 (be32 n) = n"
proof (rule bit_word_eqI)
  fix i :: nat
  assume "i < LENGTH(32)"
  then show "bit (unbe32 (be32 n)) i = bit n i"
    by (cases "i < 8"; cases "i < 16"; cases "i < 24")
      (auto simp: unbe32_def be32_def bit_or_iff bit_push_bit_iff bit_ucast_iff bit_drop_bit_eq)
qed

lemma length_be32 [simp]: "length (be32 n) = 4"
  by (simp add: be32_def)

lemma frame_header:
  "read_full 5 (frame_bytes k p @ r) = Inr (k # be32 (word_of_nat (length p)), p @ r)"
  by (simp add: read_full_def frame_bytes_def)

text \<open>A frame that was written is read back with its kind and payload, and the stream behind it is untouched, up to four
  megabytes; a longer one, as far as its length fits 32 bits, is refused by the reader although the writer sent it.\<close>

theorem ReadFrame_frame_bytes:
  assumes "length p < 2 ^ 32"
  shows "ReadFrame (frame_bytes k p @ r) = (if length p \<le> 4194304 then Inr ((k, p), r) else Inl (Errorf ''terminal: frame too large''))"
proof -
  have unat: "unat (word_of_nat (length p) :: 32 word) = length p"
    using assms by (simp add: unat_of_nat)
  have big: "(4194304 < (word_of_nat (length p) :: 32 word)) \<longleftrightarrow> 4194304 < length p"
    using unat by (simp add: word_less_nat_alt)
  have zero: "(word_of_nat (length p) :: 32 word) = 0 \<longleftrightarrow> p = []"
    using unat by (metis length_0_conv unat_0 unat_eq_zero)
  show ?thesis unfolding ReadFrame_def frame_header using unat big zero by (auto simp: read_full_def)
qed

theorem ReadFrame_frame_bytes_witness:
  "ReadFrame (frame_bytes 0 [104, 105] @ [9]) = Inr ((0, [104, 105]), [9])"
  using ReadFrame_frame_bytes[of "[104, 105]" 0 "[9]"] by simp

lemma ReadLine_line:
  "nl \<notin> set l \<Longrightarrow> length out + length l \<le> 1048576 \<Longrightarrow> ReadLine out (l @ nl # r) = Inr (out @ l, r)"
  by (induction l arbitrary: out) auto

lemma read_lines_lines:
  "\<forall>l \<in> set ls. nl \<notin> set l \<and> length l \<le> 1048576 \<Longrightarrow> read_lines (length ls) (concat (map (\<lambda>l. l @ [nl]) ls) @ r) = Inr (ls, r)"
  by (induction ls) (simp_all add: ReadLine_line)

lemma digits_show_nat: "\<forall>c \<in> set (show_nat n). digit_val c \<noteq> None"
proof (induction n rule: show_nat.induct)
  case (1 n)
  then show ?case by (subst show_nat.simps) auto
qed

lemma scan_d_show_int: "- (2 ^ 63) \<le> i \<Longrightarrow> i < 2 ^ 63 \<Longrightarrow> scan_d (show_int i) = Inr i"
proof -
  assume i: "- (2 ^ 63) \<le> i" "i < 2 ^ 63"
  have tw: "takeWhile (\<lambda>c. \<exists>d. digit_val c = Some d) (show_nat n) = show_nat n" for n
    using digits_show_nat[of n] by simp
  have other: "digit_val (CHR '' '') = None" "digit_val (CHR 0x09) = None" "digit_val (CHR 0x0D) = None" "digit_val (CHR ''-'') = None"
    "digit_val (CHR ''+'') = None" by code_simp+
  show ?thesis
  proof (cases "i < 0")
    case True
    then show ?thesis using i parse_show_nat by (simp add: scan_d_def show_int_def Let_def tw)
  next
    case False
    obtain c t where ct: "show_nat (nat i) = c # t" by (metis list.exhaust show_nat_not_Nil)
    have "digit_val c \<noteq> None" using digits_show_nat[of "nat i"] ct by simp
    then have "c \<notin> {CHR '' '', CHR 0x09, CHR 0x0D, CHR ''-'', CHR ''+''}" using other by auto
    then show ?thesis using i False ct parse_show_nat[of "nat i"] tw[of "nat i", unfolded ct] by (simp add: scan_d_def show_int_def Let_def)
  qed
qed

lemma header_line_values:
  "header_line (''shell='' @ v) req = Inr (req\<lparr>crShell := v\<rparr>, 0)"
  "header_line (''cwd='' @ v) req = Inr (req\<lparr>crCwd := v\<rparr>, 0)"
  "header_line (''cols='' @ v) req = bind_result (scan_d v) (\<lambda>n. Inr (req\<lparr>crCols := n\<rparr>, 0))"
  "header_line (''rows='' @ v) req = bind_result (scan_d v) (\<lambda>n. Inr (req\<lparr>crRows := n\<rparr>, 0))"
  "header_line (''xpixel='' @ v) req = bind_result (scan_d v) (\<lambda>n. Inr (req\<lparr>crXpixel := n\<rparr>, 0))"
  "header_line (''ypixel='' @ v) req = bind_result (scan_d v) (\<lambda>n. Inr (req\<lparr>crYpixel := n\<rparr>, 0))"
  "header_line (''env_count='' @ v) req = bind_result (scan_d v) (\<lambda>n. Inr (req, n))"
  by (simp_all add: header_line_def cut_eq_def)

text \<open>A line the writer can send without breaking the header: no newline, at most a megabyte.\<close>

definition line_ok :: "string \<Rightarrow> bool" where
  "line_ok l \<longleftrightarrow> nl \<notin> set l \<and> length l \<le> 1048560"

definition request_ok :: "create_request \<Rightarrow> bool" where
  "request_ok req \<longleftrightarrow> line_ok (crShell req) \<and> line_ok (crCwd req) \<and> list_all line_ok (crEnv req) \<and> int (length (crEnv req)) < 2 ^ 63
     \<and> list_all (\<lambda>i. - (2 ^ 63) \<le> i \<and> i < 2 ^ 63) [crCols req, crRows req, crXpixel req, crYpixel req]"

lemma length_show_nat: "n < 10 ^ k \<Longrightarrow> 0 < k \<Longrightarrow> length (show_nat n) \<le> k"
proof (induction n arbitrary: k rule: show_nat.induct)
  case (1 n)
  show ?case
  proof (cases "n < 10")
    case True
    then show ?thesis using 1(3) by (subst show_nat.simps) simp
  next
    case False
    then obtain k' where k: "k = Suc k'" "0 < k'" using 1(2,3) by (cases k; cases "k - 1") auto
    then have "n div 10 < 10 ^ k'" using 1(2) by (simp add: less_mult_imp_div_less mult.commute)
    then show ?thesis using 1(1)[OF False _ k(2)] False k(1) by (subst show_nat.simps) simp
  qed
qed

lemma show_int_line:
  assumes "- (2 ^ 63) \<le> i" "i < 2 ^ 63"
  shows "nl \<notin> set (show_int i)" "length (show_int i) \<le> 21"
proof -
  have d: "digit_val nl = None" "nl \<noteq> CHR ''-''" by code_simp+
  then have "nl \<notin> set (show_nat n)" for n using digits_show_nat[of n] by auto
  then show "nl \<notin> set (show_int i)" using d(2) by (auto simp: show_int_def)
  have "nat (- i) < 10 ^ 20" "nat i < 10 ^ 20" using assms by auto
  then show "length (show_int i) \<le> 21"
    using length_show_nat[of "nat (- i)" 20] length_show_nat[of "nat i" 20] by (simp add: show_int_def)
qed

lemma header_step:
  assumes "nl \<notin> set l" "length l \<le> 1048576" "l \<noteq> []" "header_line l req = Inr (req1, 0)"
  shows "read_headers (l @ nl # r) req = read_headers r req1"
  using assms by (subst read_headers.simps) (simp add: ReadLine_line)

lemma header_steps:
  assumes "nl \<notin> set v" "length v \<le> 1048560"
  shows "read_headers ((''shell='' @ v) @ nl # r) q = read_headers r (q\<lparr>crShell := v\<rparr>)"
    "read_headers ((''cwd='' @ v) @ nl # r) q = read_headers r (q\<lparr>crCwd := v\<rparr>)"
    "scan_d v = Inr i \<Longrightarrow> read_headers ((''cols='' @ v) @ nl # r) q = read_headers r (q\<lparr>crCols := i\<rparr>)"
    "scan_d v = Inr i \<Longrightarrow> read_headers ((''rows='' @ v) @ nl # r) q = read_headers r (q\<lparr>crRows := i\<rparr>)"
    "scan_d v = Inr i \<Longrightarrow> read_headers ((''xpixel='' @ v) @ nl # r) q = read_headers r (q\<lparr>crXpixel := i\<rparr>)"
    "scan_d v = Inr i \<Longrightarrow> read_headers ((''ypixel='' @ v) @ nl # r) q = read_headers r (q\<lparr>crYpixel := i\<rparr>)"
proof -
  show "read_headers ((''shell='' @ v) @ nl # r) q = read_headers r (q\<lparr>crShell := v\<rparr>)"
    by (rule header_step) (use assms in \<open>simp_all add: header_line_values[simplified]\<close>)
  show "read_headers ((''cwd='' @ v) @ nl # r) q = read_headers r (q\<lparr>crCwd := v\<rparr>)"
    by (rule header_step) (use assms in \<open>simp_all add: header_line_values[simplified]\<close>)
  show "scan_d v = Inr i \<Longrightarrow> read_headers ((''cols='' @ v) @ nl # r) q = read_headers r (q\<lparr>crCols := i\<rparr>)"
    by (rule header_step) (use assms in \<open>simp_all add: header_line_values[simplified]\<close>)
  show "scan_d v = Inr i \<Longrightarrow> read_headers ((''rows='' @ v) @ nl # r) q = read_headers r (q\<lparr>crRows := i\<rparr>)"
    by (rule header_step) (use assms in \<open>simp_all add: header_line_values[simplified]\<close>)
  show "scan_d v = Inr i \<Longrightarrow> read_headers ((''xpixel='' @ v) @ nl # r) q = read_headers r (q\<lparr>crXpixel := i\<rparr>)"
    by (rule header_step) (use assms in \<open>simp_all add: header_line_values[simplified]\<close>)
  show "scan_d v = Inr i \<Longrightarrow> read_headers ((''ypixel='' @ v) @ nl # r) q = read_headers r (q\<lparr>crYpixel := i\<rparr>)"
    by (rule header_step) (use assms in \<open>simp_all add: header_line_values[simplified]\<close>)
qed

text \<open>The request a client writes is the request the daemon reads, for values without newlines.\<close>

theorem ReadCreate_WriteCreate:
  assumes "request_ok req"
  shows "ReadCreate (WriteCreate req) = Inr req"
proof -
  have b: "line_ok (crShell req)" "line_ok (crCwd req)" "\<forall>l \<in> set (crEnv req). nl \<notin> set l \<and> length l \<le> 1048576"
    using assms by (auto simp: request_ok_def list_all_iff line_ok_def)
  have n: "scan_d (show_int i) = Inr i" "nl \<notin> set (show_int i)" "length (show_int i) \<le> 21"
    if "i \<in> {crCols req, crRows req, crXpixel req, crYpixel req, int (length (crEnv req))}" for i
  proof -
    have "- (2 ^ 63) \<le> i" "i < 2 ^ 63" using that assms by (auto simp: request_ok_def)
    then show "scan_d (show_int i) = Inr i" "nl \<notin> set (show_int i)" "length (show_int i) \<le> 21"
      using scan_d_show_int show_int_line by blast+
  qed
  let ?zero = "\<lparr>crShell = [], crCwd = [], crCols = 0, crRows = 0, crXpixel = 0, crYpixel = 0, crEnv = []\<rparr>"
  have env: "read_headers ((''env_count='' @ show_int (int (length (crEnv req)))) @ nl # concat (map (\<lambda>l. l @ [nl]) (crEnv req)) @ [nl]) r =
      Inr (r\<lparr>crEnv := crEnv r @ crEnv req\<rparr>)" for r
    using n[of "int (length (crEnv req))"] read_lines_lines[OF b(3), of "[nl]"]
    by (subst read_headers.simps) (simp add: ReadLine_line header_line_values[simplified] read_headers.simps[of "[nl]"])
  have "WriteCreate req = ''CREATE'' @ nl # (''shell='' @ crShell req) @ nl # (''cwd='' @ crCwd req) @ nl # (''cols='' @ show_int (crCols req)) @ nl #
      (''rows='' @ show_int (crRows req)) @ nl # (''xpixel='' @ show_int (crXpixel req)) @ nl # (''ypixel='' @ show_int (crYpixel req)) @ nl #
      (''env_count='' @ show_int (int (length (crEnv req)))) @ nl # concat (map (\<lambda>l. l @ [nl]) (crEnv req)) @ [nl]"
    by (simp add: WriteCreate_def)
  moreover have "ReadLine [] (''CREATE'' @ nl # r) = Inr (''CREATE'', r)" for r by (simp add: ReadLine_line)
  moreover have "read_headers ((''shell='' @ crShell req) @ nl # r) q = read_headers r (q\<lparr>crShell := crShell req\<rparr>)" for r q
    using b(1) by (intro header_steps(1)) (simp_all add: line_ok_def)
  moreover have "read_headers ((''cwd='' @ crCwd req) @ nl # r) q = read_headers r (q\<lparr>crCwd := crCwd req\<rparr>)" for r q
    using b(2) by (intro header_steps(2)) (simp_all add: line_ok_def)
  moreover have "read_headers ((''cols='' @ show_int (crCols req)) @ nl # r) q = read_headers r (q\<lparr>crCols := crCols req\<rparr>)" for r q
    using n[of "crCols req"] by (intro header_steps(3)) simp_all
  moreover have "read_headers ((''rows='' @ show_int (crRows req)) @ nl # r) q = read_headers r (q\<lparr>crRows := crRows req\<rparr>)" for r q
    using n[of "crRows req"] by (intro header_steps(4)) simp_all
  moreover have "read_headers ((''xpixel='' @ show_int (crXpixel req)) @ nl # r) q = read_headers r (q\<lparr>crXpixel := crXpixel req\<rparr>)" for r q
    using n[of "crXpixel req"] by (intro header_steps(5)) simp_all
  moreover have "read_headers ((''ypixel='' @ show_int (crYpixel req)) @ nl # r) q = read_headers r (q\<lparr>crYpixel := crYpixel req\<rparr>)" for r q
    using n[of "crYpixel req"] by (intro header_steps(6)) simp_all
  ultimately show ?thesis unfolding ReadCreate_def by (simp only: env bind_result_simps prod.case) simp
qed

definition demo_request :: create_request where
  "demo_request = \<lparr>crShell = ''/bin/zsh'', crCwd = ''/root'', crCols = 80, crRows = 24, crXpixel = 0, crYpixel = -1, crEnv = [''A=b=c'', []]\<rparr>"

theorem ReadCreate_WriteCreate_witness:
  "request_ok demo_request \<and> ReadCreate (WriteCreate demo_request) = Inr demo_request"
proof -
  have "request_ok demo_request" by (simp add: demo_request_def request_ok_def line_ok_def)
  then show ?thesis using ReadCreate_WriteCreate by blast
qed

end
