(* ===== verification/Rpc.thy ===== *)
theory Rpc
  imports Daemon Terminal
begin

text \<open>
  The two request protocols of the daemon: length-prefixed CBOR frames (\<^verbatim>\<open>internal/protocol/protocol.go\<close>,
  \<^verbatim>\<open>internal/daemon/rpc_server.go\<close>) and zero-terminated fields (\<^verbatim>\<open>nul_codec.go\<close>, \<^verbatim>\<open>rpc_nul.go\<close>), with the shell's side of the
  latter (\<^verbatim>\<open>internal/agent/protocol.go\<close>). A connection is the bytes still to be read and the bytes written. Parameters: CBOR, the
  lower-case mapping, \<^verbatim>\<open>strconv.Quote\<close>, the terminal sessions' snapshots, and the process figures of the statistics.
\<close>

section \<open>Frames and fields\<close>

definition maxFrame :: nat where
  "maxFrame = 16777216"

text \<open>\<^verbatim>\<open>protocol.WriteFrame\<close> of an encoded body, and \<^verbatim>\<open>protocol.ReadFrame\<close> up to the decoding of the body.\<close>

definition write_frame :: "bytes \<Rightarrow> bytes result" where
  "write_frame body =
     (if length body > maxFrame then Inl (Errorf ''protocol: frame too large'') else Inr (be32 (word_of_nat (length body)) @ body))"

definition read_frame :: "bytes \<Rightarrow> (bytes \<times> bytes) result" where
  "read_frame r =
     bind_result (read_full 4 r) (\<lambda>(hdr, r1).
       let n = unbe32 hdr
       in if n = 0 then Inl (Errorf ''protocol: empty frame'')
          else if unat n > maxFrame then Inl (Errorf ''protocol: frame too large'')
          else read_full (unat n) r1)"

text \<open>\<^verbatim>\<open>ReadBytes(0)\<close> without the final byte; the rest of the stream; end of input before the terminator is an error.\<close>

fun nulReadField :: "string \<Rightarrow> (string \<times> string) result" where
  "nulReadField [] = Inl (Errorf ''EOF'')"
| "nulReadField (c # r) = (if c = CHR 0x00 then Inr ([], r) else bind_result (nulReadField r) (\<lambda>(s, r1). Inr (c # s, r1)))"

definition nulWriteField :: "string \<Rightarrow> string" where
  "nulWriteField s = s @ [CHR 0x00]"

definition nulWriteOK :: "string \<Rightarrow> string" where
  "nulWriteOK payload = nulWriteField ''ok'' @ nulWriteField payload"

definition nulWriteOKList :: "string list \<Rightarrow> string" where
  "nulWriteOKList items = nulWriteField ''ok'' @ nulWriteField (show_nat (length items)) @ concat (map nulWriteField items)"

definition nulWriteErr :: "string \<Rightarrow> string" where
  "nulWriteErr msg = nulWriteField ''err'' @ nulWriteField msg"

fun read_fields :: "nat \<Rightarrow> string \<Rightarrow> (string list \<times> string) result" where
  "read_fields 0 r = Inr ([], r)"
| "read_fields (Suc n) r = bind_result (nulReadField r) (\<lambda>(s, r1). bind_result (read_fields n r1) (\<lambda>(ss, r2). Inr (s # ss, r2)))"

text \<open>The shell's side: one payload, or a counted list. \<^verbatim>\<open>Sscanf\<close> reads the count: it skips (ASCII) blanks
  and stops at the first character that is no digit, and leaves 0 after an error.\<close>

definition readReply :: "string \<Rightarrow> (string \<times> string) result" where
  "readReply r =
     bind_result (nulReadField r) (\<lambda>(st, r1). bind_result (nulReadField r1) (\<lambda>(payload, r2).
       if st \<noteq> ''ok'' then Inl (Errorf (if payload = [] then ''agent error'' else payload)) else Inr (payload, r2)))"

definition Sscanf_d :: "string \<Rightarrow> int" where
  "Sscanf_d s =
     (let t = dropWhile (\<lambda>c. c \<in> {CHR 0x09, CHR 0x0B, CHR 0x0C, CHR 0x0D, CHR '' ''}) s; neg = (t \<noteq> [] \<and> hd t = CHR ''-''); u = (if t \<noteq> [] \<and> hd t \<in> set ''+-'' then tl t else t);
          n = (case parse_digits 0 (takeWhile (\<lambda>c. digit_val c \<noteq> None) u) of None \<Rightarrow> 0 | Some n \<Rightarrow> n);
          v = (if neg then - int n else int n)
      in if v < - (2 ^ 63) \<or> v \<ge> 2 ^ 63 then 0 else v)"

definition readReplyList :: "string \<Rightarrow> (string list \<times> string) result" where
  "readReplyList r =
     bind_result (nulReadField r) (\<lambda>(st, r1). bind_result (nulReadField r1) (\<lambda>(nRaw, r2).
       if st \<noteq> ''ok'' then Inl (Errorf (if nRaw = [] then ''agent error'' else nRaw))
       else (let n = (if nRaw \<noteq> [] then Sscanf_d nRaw else 0) in read_fields (nat (if n < 0 then 0 else n)) r2)))"

text \<open>The candidates of an interactive completion: pairs of an item and its description, at most 512 of them, empty items left out.\<close>

fun complete_items :: "nat \<Rightarrow> string \<Rightarrow> ((string \<times> string) list \<times> string) result" where
  "complete_items 0 r = Inr ([], r)"
| "complete_items (Suc n) r =
     bind_result (nulReadField r) (\<lambda>(item, r1). bind_result (nulReadField r1) (\<lambda>(descr, r2).
       bind_result (complete_items n r2) (\<lambda>(ps, r3). Inr (if item = [] then ps else (item, descr) # ps, r3))))"

definition readSuggestCompleteItems :: "string \<Rightarrow> ((string list \<times> string list \<times> bool) \<times> string) result" where
  "readSuggestCompleteItems r =
     bind_result (nulReadField r) (\<lambda>(nRaw, r1).
       let n = Atoi_value nRaw
       in if n < 0 then Inr (([], [], True), r1)
          else bind_result (complete_items (nat (if n > 512 then 512 else n)) r1) (\<lambda>(ps, r2). Inr ((map fst ps, map snd ps, False), r2)))"

section \<open>Requests and replies\<close>

record request =
  rqVersion :: int
  rqID :: nat
  rqOp :: string
  rqSessionID :: string
  rqPayload :: bytes

record response =
  rsID :: nat
  rsStatus :: string
  rsError :: string
  rsPayload :: bytes

record search_hit =
  shID :: string
  shCommand :: string
  shCwd :: string
  shDeviceID :: string
  shSessionID :: string
  shHostname :: string
  shShell :: string
  shStartTS :: int
  shDurationMs :: "int option"
  shExit :: "int option"

record daemon_stats =
  saCache :: cacheStats
  saLast :: status
  saRunning :: bool

datatype payload = PString string | PVersion int string | PCapabilities "string list" | PItems "string list" | PStartID string
  | PHits "search_hit list" | PStats daemon_stats | PStatus status | PSnapshot bytes

text \<open>The decoders return what is in a request's payload, with zero values for what is missing or cannot be read.\<close>

record 's rpc_env =
  rpDaemon :: "'s daemon_env"
  rpLower :: "string \<Rightarrow> string"
  rpQuote :: "string \<Rightarrow> string"
  rpMenuMax :: int
  rpVersion :: string
  rpSnapshot :: "string \<Rightarrow> bytes result"
  rpMarshal :: "payload \<Rightarrow> bytes result"
  rpSuggestReq :: "bytes \<Rightarrow> string \<times> string"
  rpSuggestListReq :: "bytes \<Rightarrow> string \<times> string \<times> int"
  rpStartReq :: "bytes \<Rightarrow> string \<times> string \<times> string \<times> string"
  rpEndReq :: "bytes \<Rightarrow> string \<times> int"
  rpSearchReq :: "bytes \<Rightarrow> string \<times> string \<times> string \<times> bool \<times> int"
  rpDeleteReq :: "bytes \<Rightarrow> string"
  rpTombReq :: "bytes \<Rightarrow> string list"
  rpSyncReq :: "bytes \<Rightarrow> bool"

definition svc :: "'s rpc_env \<Rightarrow> service_env" where
  "svc N = deSvc (rpDaemon N)"

definition MenuLimit :: "int \<Rightarrow> int" where
  "MenuLimit menuMax = (if menuMax \<le> 0 then 8 else if menuMax > 32 then 32 else menuMax)"

definition EncodeErr :: "nat \<Rightarrow> string \<Rightarrow> response" where
  "EncodeErr i msg = \<lparr>rsID = i, rsStatus = ''err'', rsError = msg, rsPayload = []\<rparr>"

definition EncodeOK :: "'s rpc_env \<Rightarrow> nat \<Rightarrow> payload option \<Rightarrow> response result" where
  "EncodeOK N i payload =
     (case payload of
        None \<Rightarrow> Inr \<lparr>rsID = i, rsStatus = ''ok'', rsError = [], rsPayload = []\<rparr>
      | Some v \<Rightarrow> bind_result (rpMarshal N v) (\<lambda>body. Inr \<lparr>rsID = i, rsStatus = ''ok'', rsError = [], rsPayload = body\<rparr>))"

text \<open>The two ways \<^verbatim>\<open>dispatch\<close> answers: with an error for a payload that cannot be encoded, or dropping that error.\<close>

definition answer :: "'s rpc_env \<Rightarrow> nat \<Rightarrow> payload option result \<Rightarrow> response" where
  "answer N i r =
     (case bind_result r (EncodeOK N i) of Inl err \<Rightarrow> EncodeErr i (deText (rpDaemon N) err) | Inr resp \<Rightarrow> resp)"

definition answer_dropping :: "'s rpc_env \<Rightarrow> nat \<Rightarrow> payload option \<Rightarrow> response" where
  "answer_dropping N i v =
     (case EncodeOK N i v of Inl err \<Rightarrow> \<lparr>rsID = 0, rsStatus = [], rsError = [], rsPayload = []\<rparr> | Inr resp \<Rightarrow> resp)"

definition outcome :: "go_error option \<Rightarrow> 'a \<Rightarrow> 'a result" where
  "outcome err x = (case err of None \<Rightarrow> Inr x | Some e \<Rightarrow> Inl e)"

definition search_context :: "'s rpc_env \<Rightarrow> string \<Rightarrow> string \<Rightarrow> rank_context" where
  "search_context N cwd session =
     zero_context\<lparr>xCwd := cwd, xDeviceID := aeDeviceID (deApp (rpDaemon N)), xSessionID := session\<rparr>"

definition bestSuggestion :: "'s rpc_env \<Rightarrow> string \<Rightarrow> string \<Rightarrow> entry list \<Rightarrow> string" where
  "bestSuggestion N pfx cwd cands = BestSuggestion (rpLower N) (seNow (svc N)) pfx cands (search_context N cwd [])"

definition suggestList :: "'s rpc_env \<Rightarrow> string \<Rightarrow> string \<Rightarrow> entry list \<Rightarrow> int \<Rightarrow> string list" where
  "suggestList N pfx cwd cands limit = Suggestions (rpLower N) (seNow (svc N)) pfx cands (search_context N cwd []) limit"

definition hit_of :: "entry \<Rightarrow> search_hit" where
  "hit_of e = \<lparr>shID = eID e, shCommand = eCommand e, shCwd = eCwd e, shDeviceID = eDeviceID e, shSessionID = eSessionID e,
     shHostname = eHostname e, shShell = eShell e, shStartTS = UnixMilli (eStartTS e), shDurationMs = eDurationMs e, shExit = eExitStatus e\<rparr>"

definition search_hits :: "'s rpc_env \<Rightarrow> string \<Rightarrow> string \<Rightarrow> string \<Rightarrow> bool \<Rightarrow> int \<Rightarrow> entry list \<Rightarrow> search_hit list" where
  "search_hits N query cwd session exact limit0 cands =
     (let ranked = RankWith (rpLower N) (seNow (svc N)) query cands exact (search_context N cwd session);
          limit = (if limit0 \<le> 0 \<or> limit0 > int (length ranked) then int (length ranked) else limit0)
      in map (\<lambda>r. hit_of (rEntry r)) (take (nat limit) ranked))"

definition rpc_Stats :: "'s daemon \<Rightarrow> daemon_stats" where
  "rpc_Stats d = \<lparr>saCache = Cache.Stats (dCache d), saLast = dLast d, saRunning = dRunning d\<rparr>"

definition rpc_CompactCache :: "'s daemon \<Rightarrow> 's daemon \<times> daemon_stats" where
  "rpc_CompactCache d = (let d1 = fst (in_service (\<lambda>s. (CompactCache s, ())) d) in (d1, rpc_Stats d1))"

definition Capabilities :: "string list" where
  "Capabilities = [''ping'', ''version'', ''capabilities'', ''history.start'', ''history.end'', ''suggest'', ''suggest-list'', ''history.search'',
     ''history.delete'', ''history.tombstone-entries'', ''history.import'', ''history.stats'', ''sync.now'', ''daemon.stats'', ''daemon.status'',
     ''config.reload'', ''cache.compact'', ''screen.snapshot'']"

text \<open>\<^verbatim>\<open>SyncNow\<close> as \<^verbatim>\<open>dispatch\<close> answers it: the class of the cycle, then the daemon's last status.\<close>

definition sync_now :: "'s rpc_env \<Rightarrow> nat \<Rightarrow> bool \<Rightarrow> 's daemon \<Rightarrow> 's daemon \<times> response" where
  "sync_now N i force d =
     (case runExclusive (rpDaemon N) force d of (d1, class) \<Rightarrow>
        (d1, if class = ''busy'' then EncodeErr i ''sync already running''
             else if class = ''error'' then EncodeErr i (if stError (dLast d1) \<noteq> [] then stError (dLast d1) else ''sync failed'')
             else if class \<noteq> ''disabled'' \<and> \<not> stOK (dLast d1) \<and> stError (dLast d1) \<noteq> [] then EncodeErr i (stError (dLast d1))
             else answer_dropping N i (Some (PString class))))"

definition dispatch :: "'s rpc_env \<Rightarrow> request \<Rightarrow> 's daemon \<Rightarrow> 's daemon \<times> response" where
  "dispatch N req d =
     (let i = rqID req; p = rqPayload req; op = rqOp req
      in if rqVersion req \<noteq> 0 \<and> rqVersion req \<noteq> 1 then (d, EncodeErr i ''unsupported protocol version'')
         else if op = ''ping'' then (d, answer_dropping N i None)
         else if op = ''version'' then (d, answer N i (Inr (Some (PVersion 1 (rpVersion N)))))
         else if op = ''capabilities'' then (d, answer N i (Inr (Some (PCapabilities Capabilities))))
         else if op = ''suggest''
           then (let (pfx, cwd) = rpSuggestReq N p
                 in case in_service (SuggestCandidates (svc N) pfx) d of (d1, res) \<Rightarrow>
                      (d1, answer N i (bind_result res (\<lambda>cands. Inr (Some (PString (bestSuggestion N pfx cwd cands)))))))
         else if op = ''suggest-list''
           then (let (pfx, cwd, limit0) = rpSuggestListReq N p; limit = (if limit0 \<le> 0 then MenuLimit (rpMenuMax N) else limit0)
                 in case in_service (SuggestCandidates (svc N) pfx) d of (d1, res) \<Rightarrow>
                      (d1, answer N i (bind_result res (\<lambda>cands. Inr (Some (PItems (suggestList N pfx cwd cands limit)))))))
         else if op = ''history.start''
           then (let (command, cwd, session, shell) = rpStartReq N p
                 in case in_service (StartCommand (svc N) command cwd session shell) d of (d1, h, err) \<Rightarrow>
                      (d1, answer N i (outcome err (Some (PStartID h)))))
         else if op = ''history.end''
           then (let (h, exit) = rpEndReq N p
                 in case in_service (CompleteCommand (svc N) h exit) d of (d1, err) \<Rightarrow> (d1, answer N i (outcome err None)))
         else if op = ''history.search''
           then (let (query, cwd, session, exact, limit) = rpSearchReq N p
                 in case in_service (SearchCandidates (svc N)) d of (d1, res) \<Rightarrow>
                      (d1, answer N i (bind_result res (\<lambda>cands. Inr (Some (PHits (search_hits N query cwd session exact limit cands)))))))
         else if op = ''history.delete''
           then (case in_service (TombstoneCommand (svc N) (rpDeleteReq N p)) d of (d1, err) \<Rightarrow> (d1, answer N i (outcome err None)))
         else if op = ''history.tombstone-entries''
           then (case in_service (TombstoneEntries (svc N) (map (\<lambda>h. zero_entry\<lparr>eID := h\<rparr>) (rpTombReq N p))) d of (d1, err) \<Rightarrow>
                   (d1, answer N i (outcome err None)))
         else if op = ''sync.now'' then sync_now N i (rpSyncReq N p) d
         else if op = ''daemon.stats'' then (d, answer N i (Inr (Some (PStats (rpc_Stats d)))))
         else if op = ''daemon.status'' then (d, answer N i (Inr (Some (PStatus (dLast d)))))
         else if op = ''config.reload''
           then (case ReloadConfig (rpDaemon N) d of (d1, err) \<Rightarrow> (d1, answer N i (outcome err None)))
         else if op = ''cache.compact'' then (case rpc_CompactCache d of (d1, st) \<Rightarrow> (d1, answer N i (Inr (Some (PStats st)))))
         else if op = ''screen.snapshot''
           then (d, answer N i (bind_result (rpSnapshot N (rqSessionID req)) (\<lambda>snap. Inr (Some (PSnapshot snap)))))
         else (d, EncodeErr i (''unknown op '' @ op)))"

section \<open>The field protocol\<close>

definition reply_of :: "'s rpc_env \<Rightarrow> ('r \<Rightarrow> string) \<Rightarrow> 'r result \<Rightarrow> string" where
  "reply_of N f r = (case r of Inl err \<Rightarrow> nulWriteErr (deText (rpDaemon N) err) | Inr x \<Rightarrow> f x)"

text \<open>
  \<^verbatim>\<open>serveNULOne\<close> without the operations that open an overlay on a terminal: the rest of the input, the daemon, and what is written.
  A read error ends the connection.
\<close>

definition serveNULOne :: "'s rpc_env \<Rightarrow> string \<Rightarrow> 's daemon \<Rightarrow> (string \<times> 's daemon \<times> string) result" where
  "serveNULOne N r d =
     bind_result (nulReadField r) (\<lambda>(op, r0).
       if op = ''ping'' then Inr (r0, d, nulWriteOK [])
       else if op = ''suggest''
         then bind_result (read_fields 2 r0) (\<lambda>(fs, r1).
                case in_service (SuggestCandidates (svc N) (fs ! 0)) d of (d1, res) \<Rightarrow>
                  Inr (r1, d1, reply_of N (\<lambda>cands. nulWriteOK (bestSuggestion N (fs ! 0) (fs ! 1) cands)) res))
       else if op = ''suggest-list''
         then bind_result (read_fields 2 r0) (\<lambda>(fs, r1).
                case in_service (SuggestCandidates (svc N) (fs ! 0)) d of (d1, res) \<Rightarrow>
                  Inr (r1, d1, reply_of N (\<lambda>cands. nulWriteOKList (suggestList N (fs ! 0) (fs ! 1) cands (MenuLimit (rpMenuMax N)))) res))
       else if op = ''start''
         then bind_result (read_fields 4 r0) (\<lambda>(fs, r1).
                case in_service (StartCommand (svc N) (fs ! 0) (fs ! 1) (fs ! 2) (fs ! 3)) d of (d1, i, err) \<Rightarrow>
                  Inr (r1, d1, reply_of N nulWriteOK (outcome err i)))
       else if op = ''end''
         then bind_result (read_fields 2 r0) (\<lambda>(fs, r1).
                case in_service (CompleteCommand (svc N) (fs ! 0) (Atoi_value (fs ! 1))) d of (d1, err) \<Rightarrow>
                  Inr (r1, d1, reply_of N nulWriteOK (outcome err [])))
       else Inr (r0, d, nulWriteErr (''unknown op '' @ rpQuote N op)))"

section \<open>Round trips\<close>

definition nul_free :: "string \<Rightarrow> bool" where
  "nul_free s = (CHR 0x00 \<notin> set s)"

lemma nulReadField_write [simp]: "nul_free s \<Longrightarrow> nulReadField (nulWriteField s @ r) = Inr (s, r)"
  by (induction s) (auto simp: nulWriteField_def nul_free_def)

lemma read_fields_write:
  "list_all nul_free ss \<Longrightarrow> read_fields (length ss) (concat (map nulWriteField ss) @ r) = Inr (ss, r)"
  by (induction ss) simp_all

lemma digits_nul_free: "list_all (\<lambda>c. digit_val c \<noteq> None) s \<Longrightarrow> nul_free s"
  by (auto simp: nul_free_def list_all_iff digit_val_def Let_def)

lemma show_nat_digits: "list_all (\<lambda>c. digit_val c \<noteq> None) (show_nat n)"
  using digits_show_nat[of n] by (simp add: list_all_iff)

lemma show_nat_nul_free [simp]: "nul_free (show_nat n)"
  by (rule digits_nul_free) (rule show_nat_digits)

lemma ok_nul_free [simp]: "nul_free ''ok''" "nul_free ''err''"
  by (simp_all add: nul_free_def)

lemma Sscanf_show_nat [simp]: "n < 2 ^ 63 \<Longrightarrow> Sscanf_d (show_nat n) = int n"
proof -
  assume n: "n < 2 ^ 63"
  obtain d where d: "d < 10" "hd (show_nat n) = digit_char d" using hd_show_nat by blast
  obtain c t where ct: "show_nat n = c # t" by (cases "show_nat n") auto
  have "digit_val c \<noteq> None" using show_nat_digits[of n] ct by simp
  then have c: "c \<notin> {CHR 0x09, CHR 0x0B, CHR 0x0C, CHR 0x0D, CHR '' ''}" "c \<notin> set ''+-''" "c \<noteq> CHR ''-''" by (auto simp: digit_val_def)
  have "takeWhile (\<lambda>c. digit_val c \<noteq> None) (show_nat n) = show_nat n"
    using show_nat_digits[of n] by (simp add: takeWhile_eq_all_conv list_all_iff)
  moreover have "int n < 2 ^ 63" using n by (metis of_nat_less_iff of_nat_numeral of_nat_power)
  ultimately show ?thesis using c parse_show_nat[of n] unfolding Sscanf_d_def ct Let_def by auto
qed

text \<open>C27: What the daemon writes as a reply of the field protocol, the shell reads back: a payload, a list of payloads of any length,
  and the message of an error, each without zero bytes, with the rest of the stream left for the next reply.\<close>

theorem replies_round_trip:
  assumes "nul_free s" "list_all nul_free items" "length items < 2 ^ 63" "nul_free msg" "msg \<noteq> []"
  shows "readReply (nulWriteOK s @ r) = Inr (s, r) \<and> readReplyList (nulWriteOKList items @ r) = Inr (items, r)
    \<and> readReply (nulWriteErr msg @ r) = Inl (Errorf msg) \<and> readReplyList (nulWriteErr msg @ r) = Inl (Errorf msg)"
  using assms read_fields_write[of items r]
  by (simp_all add: readReply_def nulWriteOK_def nulWriteErr_def readReplyList_def nulWriteOKList_def)

lemma read_full_append: "read_full (length b) (b @ r) = Inr (b, r)"
  by (simp add: read_full_def)

text \<open>A frame that is written is read back, for every body that is not empty and within the limit; and for a body shorter than the
  limit the frame starts with a zero byte, which is how the daemon tells the frame protocol from the field protocol.\<close>

theorem frames_round_trip:
  assumes "write_frame body = Inr w" "body \<noteq> []"
  shows "read_frame (w @ r) = Inr (body, r) \<and> (length body = maxFrame \<or> hd w = 0)"
proof -
  have le: "length body \<le> maxFrame" and w: "w = be32 (word_of_nat (length body)) @ body"
    using assms(1) by (auto simp: write_frame_def split: if_splits)
  then have u: "unat (word_of_nat (length body) :: 32 word) = length body"
    by (simp add: unat_of_nat maxFrame_def)
  then have nz: "(word_of_nat (length body) :: 32 word) \<noteq> 0" using assms(2) by auto
  have "read_full 4 (w @ r) = Inr (be32 (word_of_nat (length body)), body @ r)"
    using read_full_append[of "be32 (word_of_nat (length body))" "body @ r"] w by simp
  then have "read_frame (w @ r) = Inr (body, r)" using u nz le by (simp add: read_frame_def read_full_append Let_def)
  moreover have "hd w = 0" if "length body < maxFrame"
  proof -
    have "unat (drop_bit 24 (word_of_nat (length body) :: 32 word)) = 0"
      using that unfolding unat_drop_bit_eq u by (simp add: drop_bit_eq_div maxFrame_def)
    then have "drop_bit 24 (word_of_nat (length body) :: 32 word) = 0" by (simp add: unat_eq_0)
    then show ?thesis by (simp add: w be32_def)
  qed
  ultimately show ?thesis using le by linarith
qed

section \<open>Requests\<close>

definition reply_ok :: "request \<Rightarrow> response \<Rightarrow> bool" where
  "reply_ok req resp = (rsID resp = rqID req
     \<and> (rsStatus resp = ''ok'' \<and> rsError resp = [] \<or> rsStatus resp = ''err'' \<and> rsPayload resp = []))"

lemma reply_ok_err [simp]: "reply_ok req (EncodeErr (rqID req) msg)"
  by (simp add: reply_ok_def EncodeErr_def)

lemma reply_ok_answer [simp]: "reply_ok req (answer N (rqID req) r)"
proof (cases r)
  case (Inr v)
  show ?thesis unfolding Inr
    by (cases v; cases "rpMarshal N (the v)") (auto simp: answer_def EncodeOK_def reply_ok_def EncodeErr_def)
qed (simp add: answer_def)

lemma reply_ok_dropping [simp]:
  "reply_ok req (answer_dropping N (rqID req) None)"
  "rpMarshal N v = Inr b \<Longrightarrow> reply_ok req (answer_dropping N (rqID req) (Some v))"
  by (simp_all add: answer_dropping_def EncodeOK_def reply_ok_def)


text \<open>The fields a shell sends for an operation.\<close>

definition nul_request :: "string list \<Rightarrow> string" where
  "nul_request fs = concat (map nulWriteField fs)"

definition same_reply :: "(payload \<Rightarrow> bytes) \<Rightarrow> (string \<Rightarrow> payload) \<Rightarrow> response \<Rightarrow> string \<Rightarrow> bool" where
  "same_reply enc f resp out = ((\<exists>s. rsStatus resp = ''ok'' \<and> rsPayload resp = enc (f s) \<and> out = nulWriteOK s)
     \<or> rsStatus resp = ''err'' \<and> out = nulWriteErr (rsError resp))"

lemma same_reply_answer:
  assumes "\<And>v. rpMarshal N v = Inr (enc v)"
  shows "same_reply enc f (answer N i (bind_result res (\<lambda>x. Inr (Some (f (g x)))))) (reply_of N (\<lambda>x. nulWriteOK (g x)) res)"
  using assms by (auto simp: same_reply_def answer_def reply_of_def EncodeOK_def EncodeErr_def split: sum.splits)


section \<open>A concrete connection\<close>

definition demo_enc :: "payload \<Rightarrow> bytes" where
  "demo_enc v = (case v of PString s \<Rightarrow> map of_char s | PStartID s \<Rightarrow> map of_char s | _ \<Rightarrow> [])"

definition demo_rpc :: "entries rpc_env" where
  "demo_rpc = \<lparr>rpDaemon = demo_daemon_env, rpLower = id, rpQuote = id, rpMenuMax = 0, rpVersion = ''1.0'', rpSnapshot = (\<lambda>_. Inl (Errorf ''no session'')),
     rpMarshal = (\<lambda>v. Inr (demo_enc v)), rpSuggestReq = (\<lambda>_. (''l'', ''/'')), rpSuggestListReq = (\<lambda>_. (''l'', ''/'', 0)),
     rpStartReq = (\<lambda>_. (''l'', ''/'', ''s'', ''zsh'')), rpEndReq = (\<lambda>_. ([], 0)), rpSearchReq = (\<lambda>_. ([], [], [], False, 0)),
     rpDeleteReq = (\<lambda>_. []), rpTombReq = (\<lambda>_. []), rpSyncReq = (\<lambda>_. False)\<rparr>"

definition demo_request :: "string \<Rightarrow> request" where
  "demo_request op = \<lparr>rqVersion = 1, rqID = 7, rqOp = op, rqSessionID = [], rqPayload = []\<rparr>"

theorem replies_round_trip_witness:
  "readReplyList (nulWriteOKList [''ls'', [], ''cd ..''] @ ''rest'') = Inr ([''ls'', [], ''cd ..''], ''rest'')
   \<and> readReply (nulWriteErr ''locked'' @ []) = Inl (Errorf ''locked'')"
  using replies_round_trip[of "[]" "[''ls'', [], ''cd ..'']" "''locked''" "''rest''"] replies_round_trip[of "[]" "[]" "''locked''" "[]"]
  by (simp add: nul_free_def)

theorem frames_round_trip_witness:
  "read_frame ([0, 0, 0, 2, 8, 9] @ [5]) = Inr ([8, 9], [5]) \<and> hd [0, 0, 0, 2, 8, 9 :: byte] = 0"
proof -
  have "write_frame [8, 9] = Inr [0, 0, 0, 2, 8, 9]" by (simp add: write_frame_def be32_def maxFrame_def)
  from frames_round_trip[OF this, of "[5]"] show ?thesis by simp
qed



section \<open>Divergences\<close>

text \<open>Two operations that the daemon advertises as capabilities are unknown to it.\<close>

theorem advertised_ops_unknown:
  "''history.import'' \<in> set Capabilities \<and> ''history.stats'' \<in> set Capabilities
   \<and> rsError (snd (dispatch demo_rpc (demo_request ''history.import'') demo_daemon)) = ''unknown op history.import''
   \<and> rsError (snd (dispatch demo_rpc (demo_request ''history.stats'') demo_daemon)) = ''unknown op history.stats''"
  by (simp add: Capabilities_def dispatch_def demo_request_def EncodeErr_def)

text \<open>
  A cycle that cannot read the keyring writes the failure to the status file but leaves the status in memory as it was, and
  \<^verbatim>\<open>sync.now\<close> consults that one: after an earlier success the client is told that the synchronisation succeeded.
\<close>

theorem keyring_failure_answered_ok:
  "deKeyring (rpDaemon demo_rpc) = Inl (Errorf ''keyring locked'') \<and> \<not> stOK (dFile (fst (dispatch demo_rpc (demo_request ''sync.now'') demo_daemon)))
   \<and> rsStatus (snd (dispatch demo_rpc (demo_request ''sync.now'') demo_daemon)) = ''ok''"
proof -
  have "runSyncCycle demo_daemon_env False (demo_daemon\<lparr>dRunning := True\<rparr>) =
      (writeStatus demo_daemon_env (failStatus demo_daemon_env (Errorf ''keyring locked'') [] []) (demo_daemon\<lparr>dRunning := True\<rparr>), [])"
    by (simp add: runSyncCycle_def demo_daemon_def demo_daemon_env_def demo_app_def demo_endpoint_def IsEnabled_def EnabledEndpoints_def)
  then show ?thesis
    by (simp add: demo_rpc_def demo_request_def dispatch_def sync_now_def runExclusive_def enter_def leave_def writeStatus_def
        failStatus_def zero_status_def answer_dropping_def EncodeOK_def demo_daemon_def demo_daemon_env_def)
qed

text \<open>A frame whose body has exactly the greatest length starts with the byte 1: the daemon takes the connection for the field protocol.\<close>

theorem greatest_frame_misread:
  assumes "length body = maxFrame"
  shows "\<exists>w. write_frame body = Inr w \<and> hd w = 1"
proof -
  have "be32 (word_of_nat maxFrame) = [1, 0, 0, 0]" by (simp add: be32_def maxFrame_def)
  then show ?thesis using assms by (simp add: write_frame_def)
qed

end
