(* ===== verification/Terminal_Queues.thy ===== *)
theory Terminal_Queues
  imports Terminal
begin

text \<open>
  What the queues and the writer of \<^verbatim>\<open>internal/terminal\<close> promise: input is delivered complete, in order and within the budget;
  a caller that waits for its output to be parsed returns although the queue may drop its backlog; a writer that makes progress
  is eventually given every byte.
\<close>

section \<open>Keyboard input is lossless\<close>

text \<open>A run of the queue, with the bytes accepted from the client and the bytes handed to the terminal.\<close>

type_synonym input_run = "input_queue \<times> bytes \<times> bytes"

inductive input_step :: "input_run \<Rightarrow> input_run \<Rightarrow> bool" where
  accepted: "input_push q p = (q', None) \<Longrightarrow> input_step (q, acc, out) (q', acc @ p, out)"
| refused: "input_push q p = (q', Some e) \<Longrightarrow> input_step (q, acc, out) (q', acc, out)"
| popped: "input_popWait q = Some (q', Some item) \<Longrightarrow> input_step (q, acc, out) (q', acc, out @ item)"
| closed: "input_popWait q = Some (q', None) \<Longrightarrow> input_step (q, acc, out) (q', acc, out)"
| stopped: "input_step (q, acc, out) (input_stop q, acc, out)"

definition input_pending :: "input_queue \<Rightarrow> bytes" where
  "input_pending q = concat (drop (iqHead q) (iqChunks q))"

definition input_inv :: "input_run \<Rightarrow> bool" where
  "input_inv r = (case r of (q, acc, out) \<Rightarrow>
     iqHead q \<le> length (iqChunks q) \<and> acc = out @ input_pending q \<and> iqBytes q = int (length (input_pending q)) \<and> iqBytes q \<le> iqBudget q)"

lemma input_push_pending:
  assumes "iqHead q \<le> length (iqChunks q)" "input_push q p = (q', None)"
  shows "iqHead q' \<le> length (iqChunks q')" "input_pending q' = input_pending q @ p" "iqBytes q' = iqBytes q + int (length p)"
    "iqBudget q' = iqBudget q" "iqBytes q \<le> iqBudget q \<Longrightarrow> iqBytes q' \<le> iqBudget q'"
  using assms by (auto simp: input_push_def input_pending_def Let_def split: if_splits)

lemma input_pop_pending:
  assumes "iqBytes q = int (length (input_pending q))" "input_popWait q = Some (q', Some item)"
  shows "iqHead q' \<le> length (iqChunks q')" "input_pending q = item @ input_pending q'" "iqBytes q' = int (length (input_pending q'))"
    "iqBudget q' = iqBudget q"
proof -
  obtain chunks head where d: "drop_head [] (iqChunks q) (iqHead q) = (chunks, head)" by fastforce
  have h: "iqHead q < length (iqChunks q)" using assms(2) by (auto simp: input_popWait_def split: if_splits)
  have i: "item = iqChunks q ! iqHead q"
    and q': "q' = q\<lparr>iqChunks := chunks, iqHead := head, iqBytes := (if iqBytes q < int (length item) then 0 else iqBytes q - int (length item))\<rparr>"
    using assms(2) h d by (auto simp: input_popWait_def Let_def)
  show p: "input_pending q = item @ input_pending q'"
    using drop_head_live[OF h d] h by (simp add: input_pending_def q' i Cons_nth_drop_Suc[symmetric])
  show "iqHead q' \<le> length (iqChunks q')" using drop_head_live(2)[OF h d] by (simp add: q')
  have "iqBytes q = int (length item) + int (length (input_pending q'))" using assms(1) p by simp
  then show "iqBytes q' = int (length (input_pending q'))" using arg_cong[OF q', of iqBytes] by simp
  show "iqBudget q' = iqBudget q" by (simp add: q')
qed

lemma input_step_inv: "input_step r r' \<Longrightarrow> input_inv r \<Longrightarrow> input_inv r'"
proof (induction rule: input_step.induct)
  case (accepted q p q' acc out)
  then show ?case using input_push_pending[of q p q'] by (auto simp: input_inv_def)
next
  case (refused q p q' e acc out)
  then have "q' = q" by (auto simp: input_push_def Let_def split: if_splits)
  then show ?case using refused by simp
next
  case (popped q q' item acc out)
  then show ?case using input_pop_pending[of q q' item] by (auto simp: input_inv_def)
next
  case (closed q q' acc out)
  then have "q' = q" by (auto simp: input_popWait_def Let_def split: if_splits prod.splits)
  then show ?case using closed by simp
next
  case (stopped q acc out)
  then show ?case by (simp add: input_inv_def input_stop_def input_pending_def)
qed

lemma input_run_inv:
  assumes "input_step\<^sup>*\<^sup>* (newPTYInputQueue b, [], []) r"
  shows "input_inv r"
  using assms
proof (induction rule: rtranclp_induct)
  case base
  then show ?case by (simp add: input_inv_def newPTYInputQueue_def input_pending_def maxPTYInputBytes_def)
qed (rule input_step_inv)

text \<open>C20: Whatever the interleaving of pushes, pops and the stop, the bytes accepted from the client are those handed to the
  terminal followed by those still queued, in order; the queue never holds more than its budget; and when the reader is told that
  the queue is closed, nothing is left behind.\<close>

theorem pty_input_lossless:
  assumes "input_step\<^sup>*\<^sup>* (newPTYInputQueue budget, [], []) (q, acc, out)"
  shows "acc = out @ input_pending q \<and> int (length (input_pending q)) \<le> iqBudget q \<and>
    (input_popWait q = Some (q', None) \<longrightarrow> acc = out)"
  using input_run_inv[OF assms] by (auto simp: input_inv_def input_popWait_def input_pending_def Let_def split: if_splits prod.splits)

theorem pty_input_lossless_witness:
  "\<exists>q. input_step\<^sup>*\<^sup>* (newPTYInputQueue 4, [], []) (q, [1, 2, 3], [1, 2, 3]) \<and> input_popWait q = Some (q, None) \<and> input_pending q = []"
proof -
  let ?q1 = "fst (input_push (newPTYInputQueue 4) [1, 2])"
  let ?q2 = "fst (the (input_popWait ?q1))"
  let ?q3 = "fst (input_push ?q2 [3])"
  let ?q4 = "input_stop (fst (the (input_popWait ?q3)))"
  have "input_step (newPTYInputQueue 4, [], []) (?q1, [] @ [1, 2], [])" by (rule accepted) code_simp
  moreover have "input_step (?q1, [1, 2], []) (?q2, [1, 2], [] @ [1, 2])" by (rule popped) code_simp
  moreover have "input_step (?q2, [1, 2], [1, 2]) (?q3, [1, 2] @ [3], [1, 2])" by (rule accepted) code_simp
  moreover have "input_step (?q3, [1, 2, 3], [1, 2]) (fst (the (input_popWait ?q3)), [1, 2, 3], [1, 2] @ [3])" by (rule popped) code_simp
  moreover have "input_step (fst (the (input_popWait ?q3)), [1, 2, 3], [1, 2, 3]) (?q4, [1, 2, 3], [1, 2, 3])" by (rule stopped)
  ultimately have r: "input_step\<^sup>*\<^sup>* (newPTYInputQueue 4, [], []) (?q4, [1, 2, 3], [1, 2, 3])"
    by (simp add: converse_rtranclp_into_rtranclp)
  moreover have "input_popWait ?q4 = Some (?q4, None)" by code_simp
  ultimately show ?thesis using pty_input_lossless[OF r] by auto
qed

section \<open>Waiting for the parser\<close>

text \<open>
  The session as the queue sees it: the reader of the terminal enqueues chunks, the parser alternates between taking an item and
  marking it parsed (\<^verbatim>\<open>parseLoop\<close> of \<^verbatim>\<open>session_unix.go\<close>), and closing the session stops the queue. The state carries the sequence
  number of the item the parser holds.
\<close>

datatype parse_action = Enqueue bytes bool | Parser | Close

type_synonym parse_run = "parse_queue \<times> nat option"

fun parse_step :: "parse_action \<Rightarrow> parse_run \<Rightarrow> parse_run" where
  "parse_step (Enqueue data cpr) (q, h) = (fst (enqueue q data cpr), h)"
| "parse_step Parser (q, Some s) = (markParsed q s, None)"
| "parse_step Parser (q, None) = (case popWait q of Some (q1, Some item) \<Rightarrow> (q1, Some (piSeq item)) | Some (q1, None) \<Rightarrow> (q1, None) | None \<Rightarrow> (q, None))"
| "parse_step Close (q, h) = (parse_stop q, h)"

definition parse_runs :: "parse_action list \<Rightarrow> parse_run \<Rightarrow> parse_run" where
  "parse_runs acts r = fold parse_step acts r"

definition parse_pending :: "parse_queue \<Rightarrow> parse_item list" where
  "parse_pending q = drop (pqHead q) (pqItems q)"

text \<open>The sequence number before the first pending item.\<close>

definition base_seq :: "parse_queue \<Rightarrow> nat" where
  "base_seq q = pqEnqueuedSeq q - length (parse_pending q)"

definition parse_inv :: "parse_run \<Rightarrow> bool" where
  "parse_inv r = (case r of (q, h) \<Rightarrow>
     length (parse_pending q) \<le> pqEnqueuedSeq q \<and> map piSeq (parse_pending q) = [Suc (base_seq q)..<Suc (pqEnqueuedSeq q)] \<and>
     pqHead q \<le> length (pqItems q) \<and> pqParsedSeq q \<le> pqEnqueuedSeq q \<and>
     (case h of None \<Rightarrow> base_seq q \<le> pqParsedSeq q
      | Some s \<Rightarrow> s \<le> pqEnqueuedSeq q \<and> (base_seq q \<le> pqParsedSeq q \<or> s = base_seq q \<and> s \<le> Suc (pqParsedSeq q))))"

text \<open>How many parser steps a caller that waits for \<open>target\<close> still has to see.\<close>

definition steps_left :: "nat \<Rightarrow> parse_run \<Rightarrow> nat" where
  "steps_left target r = (case r of (q, h) \<Rightarrow>
     if wait_returns q target then 0 else 2 * (target - base_seq q) + (if h = None then 0 else 1))"

lemmas parse_run_defs = parse_inv_def steps_left_def base_seq_def parse_pending_def wait_returns_def

lemma saturate_base: "parse_pending (saturate q) = []" "pqParsedSeq (saturate q) = pqEnqueuedSeq q"
  "pqEnqueuedSeq (saturate q) = pqEnqueuedSeq q" "pqStopped (saturate q) = pqStopped q"
  "pqHead (saturate q) = 0" "pqItems (saturate q) = []"
  by (simp_all add: saturate_def parse_pending_def)

lemma enqueue_cases:
  assumes "pqHead q \<le> length (pqItems q)" "Suc (pqEnqueuedSeq q) < 2 ^ 64"
  obtains "fst (enqueue q data cpr) = q"
  | "fst (enqueue q data cpr) = saturate q"
  | q1 item where "q1 = q \<or> q1 = saturate q" "piSeq item = Suc (pqEnqueuedSeq q)"
      "parse_pending (fst (enqueue q data cpr)) = parse_pending q1 @ [item]"
      "pqEnqueuedSeq (fst (enqueue q data cpr)) = Suc (pqEnqueuedSeq q)"
      "pqParsedSeq (fst (enqueue q data cpr)) = pqParsedSeq q1" "pqStopped (fst (enqueue q data cpr)) = pqStopped q"
      "pqHead (fst (enqueue q data cpr)) \<le> length (pqItems (fst (enqueue q data cpr)))"
proof -
  have "fst (enqueue q data cpr) \<in> {q, saturate q, append_item q data cpr, append_item (saturate q) data cpr}"
    by (simp add: enqueue_def Let_def)
  then consider "fst (enqueue q data cpr) = q" | "fst (enqueue q data cpr) = saturate q"
    | q1 where "q1 = q \<or> q1 = saturate q" "fst (enqueue q data cpr) = append_item q1 data cpr" by blast
  then show thesis
  proof cases
    case (3 q1)
    then have "pqEnqueuedSeq q1 = pqEnqueuedSeq q" "pqHead q1 \<le> length (pqItems q1)" "pqStopped q1 = pqStopped q"
      using assms(1) by (auto simp: saturate_base)
    then show thesis using 3 assms(2)
      by (intro that(3)[of q1 "\<lparr>piSeq = Suc (pqEnqueuedSeq q), piData = data, piCpr = cpr\<rparr>"])
        (simp_all add: append_item_def parse_pending_def next64_def Let_def)
  qed (use that in blast)+
qed

lemma enqueue_step:
  assumes "parse_inv (q, h)" "Suc (pqEnqueuedSeq q) < 2 ^ 64" "target \<le> pqEnqueuedSeq q"
  shows "parse_inv (fst (enqueue q data cpr), h)" "steps_left target (fst (enqueue q data cpr), h) \<le> steps_left target (q, h)"
    "pqEnqueuedSeq q \<le> pqEnqueuedSeq (fst (enqueue q data cpr))" "pqEnqueuedSeq (fst (enqueue q data cpr)) \<le> Suc (pqEnqueuedSeq q)"
proof -
  have "pqHead q \<le> length (pqItems q)" using assms(1) by (simp add: parse_inv_def)
  then have "parse_inv (fst (enqueue q data cpr), h) \<and> steps_left target (fst (enqueue q data cpr), h) \<le> steps_left target (q, h) \<and>
    pqEnqueuedSeq q \<le> pqEnqueuedSeq (fst (enqueue q data cpr)) \<and> pqEnqueuedSeq (fst (enqueue q data cpr)) \<le> Suc (pqEnqueuedSeq q)"
  proof (rule enqueue_cases[of q data cpr])
    assume "fst (enqueue q data cpr) = saturate q"
    then show ?thesis using assms
      by (auto simp: parse_inv_def steps_left_def base_seq_def wait_returns_def saturate_base split: option.splits)
  next
    fix q1 item
    let ?q = "fst (enqueue q data cpr)"
    assume "q1 = q \<or> q1 = saturate q" and e: "piSeq item = Suc (pqEnqueuedSeq q)" "parse_pending ?q = parse_pending q1 @ [item]"
      "pqEnqueuedSeq ?q = Suc (pqEnqueuedSeq q)" "pqParsedSeq ?q = pqParsedSeq q1" "pqStopped ?q = pqStopped q"
      "pqHead ?q \<le> length (pqItems ?q)"
    from this(1) show ?thesis
    proof
      assume q1: "q1 = q"
      then have "base_seq ?q = base_seq q" using e by (simp add: base_seq_def)
      then show ?thesis using assms q1 e
        by (auto simp: parse_inv_def steps_left_def wait_returns_def base_seq_def split: option.splits)
    next
      assume "q1 = saturate q"
      then show ?thesis using assms e
        by (auto simp: parse_inv_def steps_left_def base_seq_def wait_returns_def saturate_base split: option.splits)
    qed
  qed (use assms in auto)
  then show "parse_inv (fst (enqueue q data cpr), h)" "steps_left target (fst (enqueue q data cpr), h) \<le> steps_left target (q, h)"
    "pqEnqueuedSeq q \<le> pqEnqueuedSeq (fst (enqueue q data cpr))" "pqEnqueuedSeq (fst (enqueue q data cpr)) \<le> Suc (pqEnqueuedSeq q)"
    by blast+
qed

lemma popLocked_live:
  assumes "pqHead q < length (pqItems q)"
  obtains item q1 where "popLocked q = (q1, Some item)" "parse_pending q = item # parse_pending q1" "pqHead q1 \<le> length (pqItems q1)"
    "pqEnqueuedSeq q1 = pqEnqueuedSeq q" "pqParsedSeq q1 = pqParsedSeq q" "pqStopped q1 = pqStopped q"
proof -
  obtain items head where d: "drop_head zero_item (pqItems q) (pqHead q) = (items, head)" by fastforce
  obtain q1 where q1: "popLocked q = (q1, Some (pqItems q ! pqHead q))" "pqItems q1 = items" "pqHead q1 = head"
    "pqEnqueuedSeq q1 = pqEnqueuedSeq q" "pqParsedSeq q1 = pqParsedSeq q" "pqStopped q1 = pqStopped q"
    using assms d by (simp add: popLocked_def Let_def)
  show thesis
    by (rule that[OF q1(1)]) (use q1 assms drop_head_live[OF assms d] in \<open>simp_all add: parse_pending_def Cons_nth_drop_Suc[symmetric]\<close>)
qed

lemma parser_step:
  assumes "parse_inv (q, h)" "target \<le> pqEnqueuedSeq q" "parse_step Parser (q, h) = (q', h')"
  shows "parse_inv (q', h')" "steps_left target (q', h') \<le> steps_left target (q, h) - 1" "pqEnqueuedSeq q' = pqEnqueuedSeq q"
proof -
  have "parse_inv (q', h') \<and> steps_left target (q', h') \<le> steps_left target (q, h) - 1 \<and> pqEnqueuedSeq q' = pqEnqueuedSeq q"
  proof (cases h)
    case (Some s)
    then have "q' = markParsed q s" "h' = None" using assms(3) by simp_all
    then show ?thesis using assms(1,2) Some by (auto simp: parse_run_defs markParsed_def)
  next
    case None
    show ?thesis
    proof (cases "pqHead q < length (pqItems q)")
      case True
      then obtain item q1 where p: "popLocked q = (q1, Some item)" "parse_pending q = item # parse_pending q1" "pqHead q1 \<le> length (pqItems q1)"
        "pqEnqueuedSeq q1 = pqEnqueuedSeq q" "pqParsedSeq q1 = pqParsedSeq q" "pqStopped q1 = pqStopped q" by (rule popLocked_live)
      then have q': "q' = q1" "h' = Some (piSeq item)" using assms(3) None True by (auto simp: popWait_def)
      have m: "piSeq item # map piSeq (parse_pending q1) = [Suc (base_seq q)..<Suc (pqEnqueuedSeq q)]"
        and l: "Suc (length (parse_pending q1)) \<le> pqEnqueuedSeq q" using assms(1) p(2) by (simp_all add: parse_inv_def)
      have b: "base_seq q1 = Suc (base_seq q)" "base_seq q < pqEnqueuedSeq q" using l p(2,4) by (auto simp: base_seq_def)
      then have i: "piSeq item = base_seq q1" "map piSeq (parse_pending q1) = [Suc (base_seq q1)..<Suc (pqEnqueuedSeq q)]"
        using m upt_conv_Cons[of "Suc (base_seq q)" "Suc (pqEnqueuedSeq q)"] by (simp_all del: upt_Suc)
      show ?thesis using assms(1,2) None p(3-) q' b i l by (auto simp: parse_inv_def steps_left_def wait_returns_def)
    next
      case False
      then have q': "q' = q" "h' = None" using assms(3) None by (cases "pqStopped q"; simp add: popWait_def popLocked_def)+
      moreover have "base_seq q = pqEnqueuedSeq q" using False by (simp add: base_seq_def parse_pending_def)
      then have "wait_returns q target" using assms(1,2) None by (auto simp: parse_inv_def wait_returns_def)
      ultimately show ?thesis using assms(1) None by (simp add: steps_left_def)
    qed
  qed
  then show "parse_inv (q', h')" "steps_left target (q', h') \<le> steps_left target (q, h) - 1" "pqEnqueuedSeq q' = pqEnqueuedSeq q" by blast+
qed

lemma close_step:
  assumes "parse_inv (q, h)"
  shows "parse_inv (parse_stop q, h)" "steps_left target (parse_stop q, h) = 0" "pqEnqueuedSeq (parse_stop q) = pqEnqueuedSeq q"
  using assms by (auto simp: parse_run_defs parse_stop_def split: option.splits)

lemma parse_runs_progress:
  assumes "parse_inv (q, h)" "target \<le> pqEnqueuedSeq q" "pqEnqueuedSeq q + length acts < 2 ^ 64" "parse_runs acts (q, h) = (q', h')"
  shows "parse_inv (q', h') \<and> target \<le> pqEnqueuedSeq q' \<and> pqEnqueuedSeq q' \<le> pqEnqueuedSeq q + length acts \<and>
    steps_left target (q', h') \<le> steps_left target (q, h) - count_list acts Parser"
  using assms
proof (induction acts arbitrary: q h)
  case Nil
  then show ?case by (simp add: parse_runs_def)
next
  case (Cons a acts)
  obtain q1 h1 where s: "parse_step a (q, h) = (q1, h1)" by fastforce
  have "parse_inv (q1, h1) \<and> pqEnqueuedSeq q \<le> pqEnqueuedSeq q1 \<and> pqEnqueuedSeq q1 \<le> Suc (pqEnqueuedSeq q) \<and>
    steps_left target (q1, h1) \<le> steps_left target (q, h) - count_list [a] Parser"
  proof (cases a)
    case (Enqueue data cpr)
    then show ?thesis using enqueue_step[OF Cons(2) _ Cons(3), of data cpr] Cons(4) s by auto
  next
    case Parser
    then show ?thesis using parser_step[OF Cons(2,3)] s by simp
  next
    case Close
    then show ?thesis using close_step[OF Cons(2)] s by auto
  qed
  moreover have "parse_runs acts (q1, h1) = (q', h')" using Cons(5) s by (simp add: parse_runs_def)
  ultimately show ?case using Cons(1)[of q1 h1] Cons(3,4) by auto
qed

lemma steps_left_zero: "parse_inv (q, h) \<Longrightarrow> steps_left target (q, h) = 0 \<Longrightarrow> wait_returns q target"
  by (auto simp: steps_left_def parse_inv_def wait_returns_def split: if_splits option.splits)

text \<open>C21: A caller that waits for the output enqueued so far to be parsed returns: after any history of the session, and however
  later output is enqueued, dropped by saturation or cut off by closing, at most two parser steps per pending item and one
  for the item in hand bring the parsed sequence number to the target (before 2^64 chunks have been enqueued).\<close>

theorem parse_queue_wait_returns:
  assumes "parse_runs acts0 (newParseQueue budget, None) = (q, h)" "target \<le> currentSeq q" "length acts0 + length acts < 2 ^ 64"
    and "2 * length (parse_pending q) + 1 \<le> count_list acts Parser"
  shows "wait_returns (fst (parse_runs acts (q, h))) target"
proof -
  obtain q' h' where r: "parse_runs acts (q, h) = (q', h')" by fastforce
  have "parse_inv (newParseQueue budget, None)" by (simp add: parse_run_defs newParseQueue_def)
  then have i: "parse_inv (q, h)" "pqEnqueuedSeq q \<le> length acts0"
    using parse_runs_progress[of "newParseQueue budget" None 0 acts0 q h] assms(1,3) by (auto simp: newParseQueue_def)
  have "steps_left target (q, h) \<le> 2 * length (parse_pending q) + 1"
    using assms(2) i(1) by (auto simp: steps_left_def base_seq_def currentSeq_def parse_inv_def)
  then show ?thesis using parse_runs_progress[OF i(1) _ _ r] assms(2-4) i(2) steps_left_zero r by (fastforce simp: currentSeq_def)
qed

theorem parse_queue_wait_returns_witness:
  "wait_returns (fst (parse_runs [Enqueue [1, 2, 3] False, Parser, Enqueue [4] True, Parser, Parser]
     (parse_runs [Enqueue [7] False] (newParseQueue 3, None)))) 1"
proof -
  obtain q h where r: "parse_runs [Enqueue [7] False] (newParseQueue 3, None) = (q, h)" by fastforce
  have "currentSeq (fst (parse_runs [Enqueue [7] False] (newParseQueue 3, None))) = 1 \<and>
    length (parse_pending (fst (parse_runs [Enqueue [7] False] (newParseQueue 3, None)))) = 1"
    by (simp add: parse_runs_def enqueue_def append_item_def saturate_def newParseQueue_def next64_def currentSeq_def parse_pending_def)
  then have "currentSeq q = 1" "length (parse_pending q) = 1" by (simp_all add: r)
  then show ?thesis
    using parse_queue_wait_returns[OF r, of 1 "[Enqueue [1, 2, 3] False, Parser, Enqueue [4] True, Parser, Parser]"] r by simp
qed

section \<open>Writing everything\<close>

text \<open>
  What \<^verbatim>\<open>writeFull\<close> needs of the writer: a write takes the reported prefix and nothing else (the contract of \<^verbatim>\<open>io.Writer\<close>), and an
  interrupted or blocked write that took nothing, with the wait that follows it, does not repeat forever (\<open>rank\<close> bounds how often).
\<close>

locale writer =
  fixes w :: "'s \<Rightarrow> bytes \<Rightarrow> 's \<times> nat \<times> write_error option"
    and waitEAGAIN :: "('s \<Rightarrow> 's \<times> go_error option) option"
    and sent :: "'s \<Rightarrow> bytes"
    and rank :: "'s \<Rightarrow> nat"
  assumes takes: "w s p = (s', n, err) \<Longrightarrow> n \<le> length p \<and> sent s' = sent s @ take n p"
    and interrupted: "w s p = (s', 0, Some Eintr) \<Longrightarrow> rank s' < rank s"
    and blocked: "w s p = (s', 0, Some Eagain) \<Longrightarrow> rank s' < rank s"
    and waits: "waitEAGAIN = Some f \<Longrightarrow> f s = (s', werr) \<Longrightarrow> sent s' = sent s \<and> rank s' \<le> rank s"
begin

text \<open>One round: the call is done, or it goes on with fewer bytes or a smaller rank.\<close>

lemma round:
  assumes "p \<noteq> []"
  obtains e s1 n where "writeFull w waitEAGAIN s p = Some (s1, Some e)" "n \<le> length p" "sent s1 = sent s @ take n p"
  | s1 n where "writeFull w waitEAGAIN s p = writeFull w waitEAGAIN s1 (drop n p)" "n \<le> length p" "sent s1 = sent s @ take n p"
      "n > 0 \<or> rank s1 < rank s"
proof -
  obtain s1 n err where w: "w s p = (s1, n, err)" by (cases "w s p") auto
  note t = takes[OF w]
  consider "err = None" | "err = Some Eintr" | "err = Some Eagain" | e where "err = Some (WriteFailed e)"
    by (metis option.exhaust write_error.exhaust)
  then show thesis
  proof cases
    case 1
    then show thesis using that(1)[of s1 _ n] that(2)[of s1 n] w t assms by (cases "n = 0") (simp_all add: writeFull.simps[of w waitEAGAIN s p])
  next
    case 2
    then show thesis using that(2)[of s1 n] w t assms interrupted[of s p s1] by (cases "n = 0") (simp_all add: writeFull.simps[of w waitEAGAIN s p])
  next
    case 3
    show thesis
    proof (cases waitEAGAIN)
      case None
      then show thesis using that(1)[of s1 _ n] 3 w t assms by (simp add: writeFull.simps[of w _ s p])
    next
      case (Some f)
      obtain s2 werr where f: "f s1 = (s2, werr)" by fastforce
      note u = waits[OF Some f]
      show thesis
        using that(1)[of s2 _ n] that(2)[of s2 n] 3 w t u f Some assms blocked[of s p s1]
        by (cases werr; cases "n = 0") (simp_all add: writeFull.simps[of w _ s p])
    qed
  next
    case 4
    then show thesis using that(1)[of s1 e n] w t assms by (simp add: writeFull.simps[of w waitEAGAIN s p])
  qed
qed

lemma returns:
  "\<exists>s' n e. writeFull w waitEAGAIN s p = Some (s', e) \<and> n \<le> length p \<and> sent s' = sent s @ take n p \<and> (e = None \<longrightarrow> n = length p)"
proof (induction "(p, s)" arbitrary: p s rule: wf_induct_rule[OF wf_measures[of "[length \<circ> fst, rank \<circ> snd]"]])
  case 1
  show ?case
  proof (cases "p = []")
    case True
    then show ?thesis by (simp add: writeFull.simps)
  next
    case False
    then show ?thesis
    proof (rule round[of p s])
      fix e s1 n
      assume "writeFull w waitEAGAIN s p = Some (s1, Some e)" "n \<le> length p" "sent s1 = sent s @ take n p"
      then show ?thesis by auto
    next
      fix s1 n
      assume a: "writeFull w waitEAGAIN s p = writeFull w waitEAGAIN s1 (drop n p)" "n \<le> length p" "sent s1 = sent s @ take n p"
        "n > 0 \<or> rank s1 < rank s"
      then have "((drop n p, s1), (p, s)) \<in> measures [length \<circ> fst, rank \<circ> snd]" using False by auto
      from 1[OF this] obtain s' m e where m: "writeFull w waitEAGAIN s1 (drop n p) = Some (s', e)" "m \<le> length p - n"
        "sent s' = sent s1 @ take m (drop n p)" "e = None \<longrightarrow> m = length p - n" by auto
      then show ?thesis using a by (intro exI[of _ s'] exI[of _ "n + m"] exI[of _ e]) (auto simp: take_add)
    qed
  qed
qed

end

text \<open>The writer of the tests meets the contract; its rank is the number of faults it still has to report.\<close>

lemmas shortWriter_facts = shortWriter_Write_def Let_def

interpretation short: writer shortWriter_Write None swBuf "\<lambda>s. swBlocked s + (if swFail s = None then 0 else 1)"
  by unfold_locales (auto simp: shortWriter_facts split: if_splits option.splits)

interpretation retrying: writer shortWriter_Write "Some (\<lambda>s. (s, None))" swBuf "\<lambda>s. swBlocked s + (if swFail s = None then 0 else 1)"
  by unfold_locales (auto simp: shortWriter_facts split: if_splits option.splits)

text \<open>C22: \<^verbatim>\<open>writeFull\<close> always returns on a writer that keeps the contract of \<^verbatim>\<open>io.Writer\<close> and does not block or get interrupted forever;
  what it has written is a prefix of the data, and all of it when it reports no error.\<close>

theorem writeFull_delivers_all:
  assumes "writer w waitEAGAIN sent rank"
  shows "\<exists>s' n e. writeFull w waitEAGAIN s p = Some (s', e) \<and> n \<le> length p \<and> sent s' = sent s @ take n p \<and> (e = None \<longrightarrow> n = length p)"
  using writer.returns[OF assms] .

theorem writeFull_delivers_all_witness:
  "writeFull shortWriter_Write (Some (\<lambda>s. (s, None))) \<lparr>swBuf = [9], swLimit = 2, swFail = Some Eintr, swBlocked = 3\<rparr> [1, 2, 3] =
     Some (\<lparr>swBuf = [9, 1, 2, 3], swLimit = 2, swFail = None, swBlocked = 0\<rparr>, None) \<and>
   (\<exists>s' n e. writeFull shortWriter_Write (Some (\<lambda>s. (s, None))) \<lparr>swBuf = [9], swLimit = 2, swFail = Some Eintr, swBlocked = 3\<rparr> [1, 2, 3] = Some (s', e)
     \<and> n \<le> 3 \<and> swBuf s' = [9] @ take n [1, 2, 3])"
proof -
  have "writer shortWriter_Write (Some (\<lambda>s. (s, None))) swBuf (\<lambda>s. swBlocked s + (if swFail s = None then 0 else 1))"
    by (rule retrying.writer_axioms)
  from writeFull_delivers_all[OF this, of "\<lparr>swBuf = [9], swLimit = 2, swFail = Some Eintr, swBlocked = 3\<rparr>" "[1, 2, 3]"]
  show ?thesis by (auto simp: writeFull.simps shortWriter_Write_def Let_def)
qed

end
