(* ===== verification/Keyboard.thy ===== *)
theory Keyboard
  imports Cache
begin

text \<open>
  The escape sequences between the terminal and the shell (\<^verbatim>\<open>internal/terminal/keyboard.go\<close>, \<^verbatim>\<open>query.go\<close>, \<^verbatim>\<open>resize.go\<close>): the translation of
  keys reported in the kitty protocol, the filter that keeps a program from changing the keyboard mode of the outer terminal, the
  scanner that answers terminal queries, and the coalescing of resizes. Bytes are characters, since the code turns them into strings.
\<close>

section \<open>Control sequences\<close>

abbreviation ESC :: char where "ESC \<equiv> CHR 0x1B"

definition csiFinal :: "char \<Rightarrow> bool" where
  "csiFinal c = (let n = of_char c :: nat in 64 \<le> n \<and> n \<le> 126)"

definition control :: "char \<Rightarrow> bool" where
  "control c = ((of_char c :: nat) < 32)"

text \<open>The inner loop over the bytes after \<^verbatim>\<open>ESC [\<close>: where the final byte is, where a control byte cancels the sequence, or neither.\<close>

datatype csi_end = CsiFinal nat | CsiCancel nat | CsiMore

fun csi_scan :: "nat \<Rightarrow> string \<Rightarrow> csi_end" where
  "csi_scan j [] = CsiMore"
| "csi_scan j (c # s) = (if csiFinal c then CsiFinal j else if control c then CsiCancel j else csi_scan (j + 1) s)"

lemma csi_scan_ge: "csi_scan j s = CsiFinal k \<Longrightarrow> j \<le> k" "csi_scan j s = CsiCancel k \<Longrightarrow> j \<le> k"
  by (induction j s rule: csi_scan.induct) (auto split: if_splits)

section \<open>Keys of the kitty protocol\<close>

text \<open>\<^verbatim>\<open>utf8.AppendRune\<close>: surrogates and numbers that are no code point become U+FFFD. The conversion to a rune wraps at 32 bits.\<close>

definition AppendRune :: "string \<Rightarrow> int \<Rightarrow> string" where
  "AppendRune b r0 =
     (let r1 = wrap32 r0; r = (if r1 < 0 \<or> r1 > 1114111 \<or> 55296 \<le> r1 \<and> r1 \<le> 57343 then 65533 else r1); byte = (\<lambda>x. char_of (nat x))
      in b @ (if r < 128 then [byte r]
              else if r < 2048 then [byte (192 + r div 64), byte (128 + r mod 64)]
              else if r < 65536 then [byte (224 + r div 4096), byte (128 + r div 64 mod 64), byte (128 + r mod 64)]
              else [byte (240 + r div 262144), byte (128 + r div 4096 mod 64), byte (128 + r div 64 mod 64), byte (128 + r mod 64)]))"

definition legacy_char :: "bool \<Rightarrow> bool \<Rightarrow> nat \<Rightarrow> nat" where
  "legacy_char shift ctrl key =
     (let ch = (if shift \<and> 97 \<le> key \<and> key \<le> 122 then key - 32 else key)
      in if ctrl
         then (if 97 \<le> ch \<and> ch \<le> 122 then ch - 96
               else if 65 \<le> ch \<and> ch \<le> 90 then ch - 64
               else if ch = 32 \<or> ch = 64 then 0 else ch)
         else ch)"

definition kittyKeyToLegacy :: "int \<Rightarrow> int \<Rightarrow> string" where
  "kittyKeyToLegacy key mods0 =
     (let bits = (if mods0 < 1 then 1 else mods0) - 1; ctrl = odd (bits div 4); alt = odd (bits div 2); shift = odd bits;
          b = (if key = 27 then [ESC]
               else if key = 13 then [CHR 0x0D]
               else if key = 9 then [CHR 0x09]
               else if key = 127 then [CHR 0x7F]
               else if 32 \<le> key \<and> key < 127 then [char_of (legacy_char shift ctrl (nat key))]
               else if key > 127 \<and> key < 1114112 then AppendRune [] key
               else [])
      in if alt \<and> b \<noteq> [] \<and> hd b \<noteq> ESC then ESC # b else b)"

definition atoi_or :: "int \<Rightarrow> string \<Rightarrow> int" where
  "atoi_or dflt s = (case ParseInt s of None \<Rightarrow> dflt | Some n \<Rightarrow> n)"

text \<open>The text field: code points between colons; what is not a positive number is skipped.\<close>

definition kitty_text :: "string \<Rightarrow> string" where
  "kitty_text field = fold (\<lambda>cp b. let r = atoi_or 0 cp in if r \<le> 0 then b else AppendRune b r) (Split field (CHR '':'')) []"

definition kitty_mods :: "string list \<Rightarrow> int" where
  "kitty_mods fs =
     (if length fs > 1 \<and> fs ! 1 \<noteq> [] then atoi_or 1 (hd (Split (fs ! 1) (CHR '':''))) else 1)"

definition kitty_event :: "string list \<Rightarrow> int" where
  "kitty_event fs =
     (if length fs > 1 \<and> fs ! 1 \<noteq> []
      then (let mp = Split (fs ! 1) (CHR '':'') in if length mp > 1 then atoi_or 1 (mp ! 1) else 1) else 1)"

text \<open>\<^verbatim>\<open>Some []\<close> is a sequence that is consumed without any output.\<close>

definition decodeKittyKey :: "string \<Rightarrow> string option" where
  "decodeKittyKey seq =
     (let n = length seq
      in if n < 4 \<or> seq ! 0 \<noteq> ESC \<or> seq ! 1 \<noteq> CHR ''['' \<or> seq ! (n - 1) \<noteq> CHR ''u'' then None
         else (let body = butlast (drop 2 seq)
               in if hd body \<in> set ''?><='' then Some []
                  else if digit_val (hd body) = None then None
                  else (let fs = Split body (CHR '';'')
                        in case ParseInt (hd (Split (fs ! 0) (CHR '':''))) of
                             None \<Rightarrow> None
                           | Some key \<Rightarrow>
                               if key < 0 then None
                               else if kitty_event fs = 3 then Some []
                               else if length fs > 2 \<and> fs ! 2 \<noteq> [] \<and> kitty_text (fs ! 2) \<noteq> [] then Some (kitty_text (fs ! 2))
                               else Some (kittyKeyToLegacy key (kitty_mods fs)))))"

definition kittyHoldMax :: nat where
  "kittyHoldMax = 256"

text \<open>The loop of \<^verbatim>\<open>kittyKeyDecoder.feed\<close> over what is held and the new bytes: the output, and what is held from now on.\<close>

function kitty_loop :: "string \<Rightarrow> string \<times> string" where
  "kitty_loop [] = ([], [])"
| "kitty_loop (c # s) =
     (if c \<noteq> ESC then (case kitty_loop s of (out, h) \<Rightarrow> (c # out, h))
      else if s = [] then ([ESC], [])
      else if hd s \<noteq> CHR ''['' then (case kitty_loop (tl s) of (out, h) \<Rightarrow> (c # hd s # out, h))
      else (case csi_scan 2 (tl s) of
              CsiCancel j \<Rightarrow> (case kitty_loop (drop j (c # s)) of (out, h) \<Rightarrow> (take j (c # s) @ out, h))
            | CsiMore \<Rightarrow> if length (c # s) > kittyHoldMax then (c # s, []) else ([], c # s)
            | CsiFinal j \<Rightarrow>
                (let seq = take (j + 1) (c # s)
                 in case kitty_loop (drop (j + 1) (c # s)) of (out, h) \<Rightarrow>
                      if last seq = CHR ''I'' \<or> last seq = CHR ''O'' then (out, h)
                      else (case decodeKittyKey seq of None \<Rightarrow> (seq @ out, h) | Some d \<Rightarrow> (d @ out, h)))))"
  by pat_completeness auto
termination
  by (relation "measure length") (auto dest: csi_scan_ge)

definition kitty_feed :: "string \<Rightarrow> string \<Rightarrow> string \<times> string" where
  "kitty_feed hold p = kitty_loop (hold @ p)"

section \<open>Keyboard modes\<close>

definition kittySetEnables :: "string \<Rightarrow> bool" where
  "kittySetEnables body =
     (if length body < 2 \<or> body ! 0 \<noteq> CHR ''='' then True
      else (case ParseInt (takeWhile (\<lambda>c. c \<noteq> CHR '';'') (tl body)) of None \<Rightarrow> True | Some n \<Rightarrow> n \<noteq> 0))"

definition modifyOtherKeysEnables :: "string \<Rightarrow> bool" where
  "modifyOtherKeysEnables body =
     (if length body = 2 then False
      else if body ! 2 \<noteq> CHR '';'' then True
      else if length body = 3 then False
      else body ! 3 \<noteq> CHR ''0'')"

definition keyboardModeCSI :: "string \<Rightarrow> bool" where
  "keyboardModeCSI seq =
     (let n = length seq
      in if n < 4 \<or> seq ! 0 \<noteq> ESC \<or> seq ! 1 \<noteq> CHR ''['' then False
         else (let fin = last seq; body = butlast (drop 2 seq)
               in if fin = CHR ''u''
                  then (if hd body = CHR ''?'' \<or> hd body = CHR ''>'' then True
                        else if hd body = CHR ''='' then kittySetEnables body else False)
                  else if fin = CHR ''m'' \<and> length body \<ge> 2 \<and> body ! 0 = CHR ''>'' \<and> body ! 1 = CHR ''4''
                    \<and> (length body = 2 \<or> body ! 2 = CHR '';'')
                  then modifyOtherKeysEnables body else False))"

text \<open>What is sent instead, whether that is nothing, and whether focus reporting is to be turned off.\<close>

definition rewriteFocusTracking :: "string \<Rightarrow> string \<times> bool \<times> bool" where
  "rewriteFocusTracking seq =
     (let n = length seq
      in if n < 5 \<or> seq ! 0 \<noteq> ESC \<or> seq ! 1 \<noteq> CHR ''['' \<or> seq ! 2 \<noteq> CHR ''?'' then (seq, False, False)
         else if last seq \<noteq> CHR ''h'' \<and> last seq \<noteq> CHR ''l'' then (seq, False, False)
         else (let parts = Split (butlast (drop 3 seq)) (CHR '';''); kept = filter (\<lambda>p. p \<noteq> ''1004'' \<and> p \<noteq> []) parts;
                   rest = (ESC # ''[?'') @ strings_Join kept '';'' @ [last seq]
               in if ''1004'' \<notin> set parts then (seq, False, False)
                  else if last seq = CHR ''l'' then (if kept = [] then (seq, False, False) else (rest, False, False))
                  else if kept = [] then ([], True, True)
                  else (rest, False, True)))"

definition focus_off :: string where
  "focus_off = ESC # ''[?1004l''"

definition strip_seq :: "string \<Rightarrow> string" where
  "strip_seq seq =
     (if keyboardModeCSI seq then []
      else (case rewriteFocusTracking seq of (out, dropped, off) \<Rightarrow> (if dropped then [] else out) @ (if off then focus_off else [])))"

function strip_loop :: "string \<Rightarrow> string \<times> string" where
  "strip_loop [] = ([], [])"
| "strip_loop (c # s) =
     (if c \<noteq> ESC then (case strip_loop s of (out, h) \<Rightarrow> (c # out, h))
      else if s = [] then ([], [ESC])
      else if hd s \<noteq> CHR ''['' then (case strip_loop (tl s) of (out, h) \<Rightarrow> (c # hd s # out, h))
      else (case csi_scan 2 (tl s) of
              CsiCancel j \<Rightarrow> strip_loop (drop j (c # s))
            | CsiMore \<Rightarrow> if length (c # s) > 64 then (case strip_loop s of (out, h) \<Rightarrow> (c # out, h)) else ([], c # s)
            | CsiFinal j \<Rightarrow> (case strip_loop (drop (j + 1) (c # s)) of (out, h) \<Rightarrow> (strip_seq (take (j + 1) (c # s)) @ out, h))))"
  by pat_completeness auto
termination
  by (relation "measure length") (auto dest: csi_scan_ge)

definition strip_feed :: "string \<Rightarrow> string \<Rightarrow> string \<times> string" where
  "strip_feed hold p = strip_loop (hold @ p)"

section \<open>Queries\<close>

definition oscTerminated :: "string \<Rightarrow> bool" where
  "oscTerminated s =
     (let n = length s in n \<ge> 1 \<and> s ! (n - 1) = CHR 0x07 \<or> n \<ge> 2 \<and> s ! (n - 2) = ESC \<and> s ! (n - 1) = CHR 0x5C)"

definition replyCSI :: "string \<Rightarrow> string \<times> bool" where
  "replyCSI s =
     (let fin = last s; body = butlast (drop 2 s)
      in if fin = CHR ''n'' then (if body = ''6'' then ([], True) else if body = ''5'' then (ESC # ''[0n'', False) else ([], False))
         else if fin = CHR ''c''
           then (if body = [] \<or> body = ''0'' then (ESC # ''[?1;2c'', False)
                 else if hd body = CHR ''>'' then (ESC # ''[>0;1c'', False) else ([], False))
         else if fin = CHR ''u'' then (if body = ''?'' then (ESC # ''[?0u'', False) else ([], False))
         else ([], False))"

text \<open>The first index from 2 on whose prefix satisfies the test, if any.\<close>

definition first_end :: "(string \<Rightarrow> bool) \<Rightarrow> string \<Rightarrow> nat option" where
  "first_end P s = find (\<lambda>i. P (take (i + 1) s)) [2..<length s]"

definition consumeQuery :: "string \<Rightarrow> string \<times> nat \<times> bool" where
  "consumeQuery s =
     (if length s < 2 \<or> s ! 0 \<noteq> ESC then ([], 0, False)
      else if s ! 1 = CHR ''['' then
        (case first_end (\<lambda>t. csiFinal (last t)) s of
           None \<Rightarrow> ([], 0, False)
         | Some i \<Rightarrow> (case replyCSI (take (i + 1) s) of (reply, cpr) \<Rightarrow> (reply, i + 1, cpr)))
      else if s ! 1 = CHR '']'' \<or> s ! 1 = CHR ''P'' then
        (case first_end oscTerminated s of None \<Rightarrow> ([], 0, False) | Some i \<Rightarrow> ([], i + 1, False))
      else ([], 2, False))"

lemma consumeQuery_pos: "consumeQuery s = (reply, n, cpr) \<Longrightarrow> n \<noteq> 0 \<Longrightarrow> s \<noteq> [] \<and> 0 < n"
  by (auto simp: consumeQuery_def split: if_splits)

text \<open>The loop of \<^verbatim>\<open>queryScanner.feed\<close>: replies, the positions after cursor queries, and what is kept.\<close>

function query_loop :: "nat \<Rightarrow> string \<Rightarrow> string \<times> nat list \<times> string" where
  "query_loop pos [] = ([], [], [])"
| "query_loop pos (c # s) =
     (if c \<noteq> ESC then query_loop (pos + 1) s
      else (case consumeQuery (c # s) of (reply, n, cpr) \<Rightarrow>
              if n = 0 then (if length (c # s) > 128 then query_loop (pos + 1) s else ([], [], c # s))
              else (case query_loop (pos + n) (drop n (c # s)) of (rs, ends, h) \<Rightarrow>
                      if cpr then (rs, (pos + n) # ends, h) else (reply @ rs, ends, h))))"
  by pat_completeness auto
termination
  by (relation "measure (\<lambda>(pos, s). length s)") (auto dest: consumeQuery_pos)

definition query_feed :: "string \<Rightarrow> string \<Rightarrow> (string \<times> nat list) \<times> string" where
  "query_feed hold p =
     (case query_loop 0 (hold @ p) of (rs, ends, h) \<Rightarrow> ((rs, map (\<lambda>e. min (e - length hold) (length p)) ends), h))"

definition cprCell :: "int \<Rightarrow> int \<Rightarrow> int" where
  "cprCell pos mx = (let p = wrap64 (pos + 1); n = (if p < 1 then 1 else p) in if mx \<ge> 1 \<and> n > mx then mx else n)"

definition formatCPR :: "int \<Rightarrow> int \<Rightarrow> int \<Rightarrow> int \<Rightarrow> string" where
  "formatCPR rows0 cols0 cursorRow cursorCol =
     (let rows = (if rows0 < 1 then 1 else rows0); cols = (if cols0 < 1 then 1 else cols0)
      in (ESC # ''['') @ show_int (cprCell cursorRow rows) @ '';'' @ show_int (cprCell cursorCol cols) @ ''R'')"

section \<open>Resizes\<close>

record terminalSize =
  tsCols :: int
  tsRows :: int
  tsXpixel :: int
  tsYpixel :: int

record sizeCoalescer =
  scPending :: "terminalSize option"
  scSignal :: bool

definition newSizeCoalescer :: sizeCoalescer where
  "newSizeCoalescer = \<lparr>scPending = None, scSignal = False\<rparr>"

definition size_note :: "terminalSize \<Rightarrow> sizeCoalescer \<Rightarrow> sizeCoalescer" where
  "size_note sz c = c\<lparr>scPending := Some sz, scSignal := True\<rparr>"

definition size_take :: "sizeCoalescer \<Rightarrow> sizeCoalescer \<times> terminalSize option" where
  "size_take c = (case scPending c of None \<Rightarrow> (c, None) | Some sz \<Rightarrow> (c\<lparr>scPending := None\<rparr>, Some sz))"

section \<open>Scanners that are fed in pieces\<close>

text \<open>
  A scanner keeps what may be the start of a sequence until the rest arrives. Its law: on whole tokens followed by the beginning of
  one that it holds, it puts out what the tokens stand for and holds the rest. Then the pieces the input comes in make no
  difference, as long as they are cut where the scanner can hold what is left.
\<close>

fun feed_all :: "(string \<Rightarrow> string \<Rightarrow> string \<times> string) \<Rightarrow> string \<Rightarrow> string list \<Rightarrow> string \<times> string" where
  "feed_all feed hold [] = ([], hold)"
| "feed_all feed hold (p # ps) = (case feed hold p of (o1, h1) \<Rightarrow> (case feed_all feed h1 ps of (o2, h2) \<Rightarrow> (o1 @ o2, h2)))"

locale token_scanner =
  fixes feed :: "string \<Rightarrow> string \<Rightarrow> string \<times> string" and token :: "string \<Rightarrow> bool" and out :: "string \<Rightarrow> string"
    and held :: "string \<Rightarrow> bool" and cut :: "string \<Rightarrow> bool"
  assumes feed_tokens: "list_all token ts \<Longrightarrow> held h \<Longrightarrow> hold @ p = concat ts @ h \<Longrightarrow> feed hold p = (concat (map out ts), h)"
    and held_Nil: "held []"
    and held_cut: "token (h @ r) \<Longrightarrow> r \<noteq> [] \<Longrightarrow> cut p \<Longrightarrow> hold @ p = x @ h \<Longrightarrow> held h"
begin

lemma prefix_of_tokens:
  assumes "concat ts = a @ b"
  shows "\<exists>us vs h. ts = us @ vs \<and> a = concat us @ h \<and> h @ b = concat vs \<and> (h = [] \<or> (\<exists>r t ws. vs = t # ws \<and> t = h @ r \<and> r \<noteq> []))"
  using assms
proof (induction ts arbitrary: a)
  case (Cons t ts)
  show ?case
  proof (cases "length a < length t")
    case True
    then obtain r where r: "t = a @ r" "r \<noteq> []" using Cons.prems by (auto simp: append_eq_append_conv2)
    then have "a @ b = concat (t # ts)" using Cons.prems by simp
    then show ?thesis using r by (intro exI[of _ "[]"] exI[of _ "t # ts"] exI[of _ a]) auto
  next
    case False
    then obtain a' where a': "a = t @ a'" using Cons.prems by (auto simp: append_eq_append_conv2)
    then have "concat ts = a' @ b" using Cons.prems by simp
    from Cons.IH[OF this] obtain us vs h where "ts = us @ vs" "a' = concat us @ h" "h @ b = concat vs"
      "h = [] \<or> (\<exists>r t ws. vs = t # ws \<and> t = h @ r \<and> r \<noteq> [])" by blast
    then show ?thesis using a' by (intro exI[of _ "t # us"] exI[of _ vs] exI[of _ h]) auto
  qed
qed simp

lemma pieces_make_no_difference:
  assumes "list_all token ts" "hold @ concat ps = concat ts" "list_all cut ps" "ps \<noteq> []"
  shows "feed_all feed hold ps = (concat (map out ts), [])"
  using assms
proof (induction ps arbitrary: hold ts)
  case (Cons p ps)
  show ?case
  proof (cases "ps = []")
    case True
    then show ?thesis using feed_tokens[of ts "[]" hold p] held_Nil Cons.prems by simp
  next
    case False
    obtain us vs h where ts: "ts = us @ vs" and p: "hold @ p = concat us @ h" and rest: "h @ concat ps = concat vs"
      and h: "h = [] \<or> (\<exists>r t ws. vs = t # ws \<and> t = h @ r \<and> r \<noteq> [])"
      using prefix_of_tokens[of ts "hold @ p" "concat ps"] Cons.prems(2) by auto
    have "held h" using h held_Nil held_cut[OF _ _ _ p] Cons.prems(1,3) ts by auto
    then have "feed hold p = (concat (map out us), h)" using feed_tokens[OF _ _ p] Cons.prems(1) ts by simp
    then show ?thesis using Cons.IH[OF _ rest _ False] Cons.prems(1,3) ts by simp
  qed
qed simp

end

section \<open>Tokens\<close>

definition csi_body :: "string \<Rightarrow> bool" where
  "csi_body s = list_all (\<lambda>c. \<not> csiFinal c \<and> \<not> control c) s"

definition csi_seq :: "string \<Rightarrow> bool" where
  "csi_seq t = (\<exists>body f. t = ESC # CHR ''['' # body @ [f] \<and> csi_body body \<and> csiFinal f)"

text \<open>A byte that is not an escape, an escape with one more byte, or a complete control sequence of at most 64 bytes.\<close>

definition key_token :: "string \<Rightarrow> bool" where
  "key_token t = ((\<exists>c. t = [c] \<and> c \<noteq> ESC) \<or> (\<exists>c. t = [ESC, c] \<and> c \<noteq> CHR ''['') \<or> csi_seq t \<and> length t \<le> 64)"

definition csi_part :: "string \<Rightarrow> bool" where
  "csi_part h = (\<exists>body. h = ESC # CHR ''['' # body \<and> csi_body body \<and> length h \<le> 64)"

lemma csi_scan_body: "csi_body b \<Longrightarrow> csi_scan j (b @ s) = csi_scan (j + length b) s"
  by (induction b arbitrary: j) (simp_all add: csi_body_def)

lemma csi_scan_seq:
  assumes "csi_seq t"
  shows "csi_scan 2 (drop 2 t @ u) = CsiFinal (length t - 1)" "2 < length t" "hd t = ESC" "t ! 1 = CHR ''[''" "hd (tl t) = CHR ''[''"
  using assms by (auto simp: csi_seq_def csi_scan_body)

lemma csi_scan_part: "csi_part h \<Longrightarrow> csi_scan 2 (drop 2 h) = CsiMore"
  using csi_scan_body[of _ 2 "[]"] by (auto simp: csi_part_def)

lemma key_token_cases:
  assumes "key_token t"
  obtains (plain) c where "t = [c]" "c \<noteq> ESC"
  | (pair) c where "t = [ESC, c]" "c \<noteq> CHR ''[''"
  | (csi) s where "t = ESC # CHR ''['' # s" "csi_seq t" "\<And>u. csi_scan 2 (s @ u) = CsiFinal (Suc (length s))" "csi_scan 2 s = CsiFinal (Suc (length s))"
proof -
  consider "\<exists>c. t = [c] \<and> c \<noteq> ESC" | "\<exists>c. t = [ESC, c] \<and> c \<noteq> CHR ''[''" | "csi_seq t" using assms by (auto simp: key_token_def)
  then show thesis
  proof cases
    case 3
    then obtain body f where t: "t = ESC # CHR ''['' # body @ [f]" by (auto simp: csi_seq_def)
    have "csi_scan 2 ((body @ [f]) @ u) = CsiFinal (Suc (length (body @ [f])))" for u using csi_scan_seq(1)[OF 3, of u] t by simp
    from this this[of "[]"] show thesis using csi[of "body @ [f]"] t 3 by simp
  qed (use plain pair in blast)+
qed

lemma csi_part_prefix: "csi_seq (h @ r) \<Longrightarrow> length (h @ r) \<le> 64 \<Longrightarrow> r \<noteq> [] \<Longrightarrow> h = [] \<or> h = [ESC] \<or> csi_part h"
proof -
  assume "csi_seq (h @ r)" and l: "length (h @ r) \<le> 64" and r: "r \<noteq> []"
  then obtain body f where b: "h @ r = ESC # CHR ''['' # body @ [f]" "csi_body body" by (auto simp: csi_seq_def)
  show ?thesis
  proof (cases "length h < 2")
    case True
    then show ?thesis using b(1) by (cases h) (auto simp: less_Suc_eq)
  next
    case False
    then obtain g where h: "h = ESC # CHR ''['' # g" using b(1) by (cases h; cases "tl h") auto
    then have "g @ r = body @ [f]" using b(1) by simp
    then have "g @ butlast r = body" using r by (metis butlast_append butlast_snoc)
    then have "csi_body g" using b(2) by (auto simp: csi_body_def)
    then show ?thesis using h l by (auto simp: csi_part_def)
  qed
qed

lemma key_token_prefix: "key_token (h @ r) \<Longrightarrow> r \<noteq> [] \<Longrightarrow> h = [] \<or> h = [ESC] \<or> csi_part h"
  using csi_part_prefix[of h r] unfolding key_token_def by (auto simp: append_eq_Cons_conv)

section \<open>The scanners on tokens\<close>

definition kitty_out :: "string \<Rightarrow> string" where
  "kitty_out t =
     (if csi_seq t then (if last t = CHR ''I'' \<or> last t = CHR ''O'' then [] else (case decodeKittyKey t of None \<Rightarrow> t | Some d \<Rightarrow> d)) else t)"

definition strip_out :: "string \<Rightarrow> string" where
  "strip_out t = (if csi_seq t then strip_seq t else t)"

lemma not_csi_seq [simp]: "\<not> csi_seq [c]" "c \<noteq> CHR ''['' \<Longrightarrow> \<not> csi_seq (ESC # c # s)"
  by (auto simp: csi_seq_def)

lemma kitty_loop_token:
  assumes "key_token t"
  shows "kitty_loop (t @ s) = (case kitty_loop s of (out, h) \<Rightarrow> (kitty_out t @ out, h))"
  using assms
proof (cases t rule: key_token_cases)
  case (csi u)
  then show ?thesis by (simp add: kitty_out_def Let_def split: option.splits prod.splits)
qed (auto simp: kitty_out_def split: prod.splits)

lemma strip_loop_token:
  assumes "key_token t"
  shows "strip_loop (t @ s) = (case strip_loop s of (out, h) \<Rightarrow> (strip_out t @ out, h))"
  using assms
proof (cases t rule: key_token_cases)
  case (csi u)
  then show ?thesis by (simp add: strip_out_def split: prod.splits)
qed (auto simp: strip_out_def split: prod.splits)

lemma csi_part_shape: "csi_part h \<Longrightarrow> \<exists>b. h = ESC # CHR ''['' # b \<and> csi_scan 2 b = CsiMore \<and> length b \<le> 62"
  using csi_scan_part[of h] by (auto simp: csi_part_def)

lemma kitty_loop_part: "h = [] \<or> csi_part h \<Longrightarrow> kitty_loop h = ([], h)"
  by (auto simp: kittyHoldMax_def dest!: csi_part_shape)

lemma strip_loop_part: "h = [] \<or> h = [ESC] \<or> csi_part h \<Longrightarrow> strip_loop h = ([], h)"
  by (auto dest!: csi_part_shape)

lemma kitty_loop_tokens: "list_all key_token ts \<Longrightarrow> h = [] \<or> csi_part h \<Longrightarrow> kitty_loop (concat ts @ h) = (concat (map kitty_out ts), h)"
  by (induction ts) (auto simp: kitty_loop_part kitty_loop_token)

lemma strip_loop_tokens:
  "list_all key_token ts \<Longrightarrow> h = [] \<or> h = [ESC] \<or> csi_part h \<Longrightarrow> strip_loop (concat ts @ h) = (concat (map strip_out ts), h)"
  by (induction ts) (auto simp: strip_loop_part strip_loop_token)

interpretation decoder: token_scanner kitty_feed key_token kitty_out "\<lambda>h. h = [] \<or> csi_part h" "\<lambda>p. p \<noteq> [] \<and> last p \<noteq> ESC"
proof unfold_locales
  fix h r p hold x
  assume "key_token (h @ r)" "r \<noteq> []" and p: "p \<noteq> [] \<and> last p \<noteq> ESC" "hold @ p = x @ h"
  then have "h = [] \<or> h = [ESC] \<or> csi_part h" by (intro key_token_prefix)
  moreover have "h \<noteq> [ESC]" using p by (metis last_appendR last_snoc)
  ultimately show "h = [] \<or> csi_part h" by blast
qed (simp_all add: kitty_feed_def kitty_loop_tokens)

interpretation stripper: token_scanner strip_feed key_token strip_out "\<lambda>h. h = [] \<or> h = [ESC] \<or> csi_part h" "\<lambda>_. True"
  by unfold_locales (simp_all add: strip_feed_def strip_loop_tokens key_token_prefix)

subsection \<open>Queries\<close>

definition consumed :: "string \<Rightarrow> nat" where
  "consumed s = fst (snd (consumeQuery s))"

text \<open>A byte that is not an escape, or a sequence the scanner consumes as a whole, of at most 128 bytes.\<close>

definition query_token :: "string \<Rightarrow> bool" where
  "query_token t = ((\<exists>c. t = [c] \<and> c \<noteq> ESC) \<or> (\<exists>s. t = ESC # s \<and> consumed t = length t \<and> length t \<le> 128))"

definition query_out :: "string \<Rightarrow> string" where
  "query_out t = (case consumeQuery t of (reply, n, cpr) \<Rightarrow> if cpr then [] else reply)"

definition query_part :: "string \<Rightarrow> bool" where
  "query_part h = (\<exists>s. h = ESC # s \<and> consumed h = 0 \<and> length h \<le> 128)"

definition query_replies :: "string \<Rightarrow> string \<Rightarrow> string \<times> string" where
  "query_replies hold p = (fst (fst (query_feed hold p)), snd (query_feed hold p))"

lemma find_append_Some: "find P xs = Some i \<Longrightarrow> find P (xs @ ys) = Some i"
  by (induction xs) (auto split: if_splits)

lemma find_upt_append: "find P [m..<n] = Some i \<Longrightarrow> find P [m..<n + k] = Some i"
  using upt_add_eq_append[of m n k] find_append_Some[of P "[m..<n]" i "[n..<n + k]"] by (cases "m \<le> n") simp_all

lemma find_cong_list: "(\<And>x. x \<in> set xs \<Longrightarrow> P x = Q x) \<Longrightarrow> find P xs = find Q xs"
  by (induction xs) auto

lemma first_end_extend: "first_end P s = Some i \<Longrightarrow> first_end P (s @ u) = Some i"
proof -
  assume a: "first_end P s = Some i"
  have "find (\<lambda>i. P (take (i + 1) s)) [2..<length s] = find (\<lambda>i. P (take (i + 1) (s @ u))) [2..<length s]" by (rule find_cong_list) auto
  then show ?thesis using a find_upt_append[of _ 2 "length s" i "length u"] by (simp add: first_end_def)
qed

lemma first_end_less: "first_end P s = Some i \<Longrightarrow> i < length s"
  by (auto simp: first_end_def find_Some_iff)

lemma consumeQuery_Cons:
  "consumeQuery (ESC # c # s) =
     (if c = CHR ''[''
      then (case first_end (\<lambda>t. csiFinal (last t)) (ESC # c # s) of
              None \<Rightarrow> ([], 0, False)
            | Some i \<Rightarrow> (fst (replyCSI (take (i + 1) (ESC # c # s))), i + 1, snd (replyCSI (take (i + 1) (ESC # c # s)))))
      else if c = CHR '']'' \<or> c = CHR ''P''
      then (case first_end oscTerminated (ESC # c # s) of None \<Rightarrow> ([], 0, False) | Some i \<Rightarrow> ([], i + 1, False))
      else ([], 2, False))"
  by (simp add: consumeQuery_def case_prod_unfold split: option.splits)

lemma consumed_shape: "consumed s \<noteq> 0 \<Longrightarrow> \<exists>c v. s = ESC # c # v"
  by (cases s; cases "tl s") (auto simp: consumed_def consumeQuery_def split: if_splits)

lemma consumeQuery_extend: "consumed s \<noteq> 0 \<Longrightarrow> consumeQuery (s @ u) = consumeQuery s"
proof -
  assume a: "consumed s \<noteq> 0"
  then obtain c v where s: "s = ESC # c # v" using consumed_shape by blast
  have e: "first_end P (ESC # c # v @ u) = Some i \<and> take (i + 1) (ESC # c # v @ u) = take (i + 1) (ESC # c # v)"
    if "first_end P (ESC # c # v) = Some i" for P i
    using first_end_extend[OF that, of u] first_end_less[OF that] take_append[of "i + 1" "ESC # c # v" u] by simp
  show ?thesis
  proof (cases "c = CHR ''[''")
    case True
    then obtain i where "first_end (\<lambda>t. csiFinal (last t)) (ESC # c # v) = Some i"
      using a by (auto simp: s consumed_def consumeQuery_Cons split: option.splits)
    from this e[OF this] show ?thesis using True unfolding s append_Cons consumeQuery_Cons by simp
  next
    case False
    show ?thesis
    proof (cases "c = CHR '']'' \<or> c = CHR ''P''")
      case True
      then obtain i where "first_end oscTerminated (ESC # c # v) = Some i"
        using a False by (auto simp: s consumed_def consumeQuery_Cons split: option.splits)
      from this e[OF this] show ?thesis using True False unfolding s append_Cons consumeQuery_Cons by simp
    next
      case no: False
      then show ?thesis using False unfolding s append_Cons consumeQuery_Cons by simp
    qed
  qed
qed

lemma consumed_le: "consumed s \<le> length s"
proof (cases "consumed s = 0")
  case False
  then obtain c v where s: "s = ESC # c # v" using consumed_shape by blast
  show ?thesis using first_end_less[of _ s] unfolding s by (auto simp: consumed_def consumeQuery_Cons Suc_le_eq split: option.splits)
qed simp

lemma consumed_prefix: "consumed (h @ r) = length (h @ r) \<Longrightarrow> h \<noteq> [] \<Longrightarrow> r \<noteq> [] \<Longrightarrow> consumed h = 0"
proof (rule ccontr)
  assume a: "consumed (h @ r) = length (h @ r)" "r \<noteq> []" "consumed h \<noteq> 0"
  then have "consumed h = length (h @ r)" using consumeQuery_extend[of h r] by (simp add: consumed_def)
  moreover have "consumed h \<le> length h" by (rule consumed_le)
  ultimately show False using a(2) by simp
qed

definition only_replies :: "string \<times> nat list \<times> string \<Rightarrow> string \<times> string" where
  "only_replies x = (fst x, snd (snd x))"

lemma query_loop_token:
  assumes "query_token t"
  shows "\<exists>pos'. only_replies (query_loop pos (t @ s)) = (query_out t @ fst (only_replies (query_loop pos' s)), snd (only_replies (query_loop pos' s)))"
proof -
  consider c where "t = [c]" "c \<noteq> ESC" | v where "t = ESC # v" "consumed t = length t"
    using assms unfolding query_token_def by blast
  then show ?thesis
  proof cases
    case 1
    have "query_loop pos (t @ s) = query_loop (pos + 1) s" "query_out t = []" using 1 by (simp_all add: query_out_def consumeQuery_def)
    then show ?thesis by (intro exI[of _ "pos + 1"]) simp
  next
    case 2
    obtain reply n cpr where q: "consumeQuery t = (reply, n, cpr)" by (metis prod_cases3)
    then have n: "n = length t" using 2 by (simp add: consumed_def)
    have "consumeQuery (t @ s) = (reply, n, cpr)" using consumeQuery_extend[of t s] 2 q by simp
    then have "query_loop pos (t @ s) = (case query_loop (pos + n) s of (rs, ends, h) \<Rightarrow> if cpr then (rs, (pos + n) # ends, h) else (reply @ rs, ends, h))"
      using 2 n by (simp add: case_prod_unfold)
    then show ?thesis using q by (intro exI[of _ "pos + n"]) (simp add: query_out_def only_replies_def case_prod_unfold)
  qed
qed

lemma query_loop_tokens:
  assumes "list_all query_token ts" "h = [] \<or> query_part h"
  shows "only_replies (query_loop pos (concat ts @ h)) = (concat (map query_out ts), h)"
  using assms(1)
proof (induction ts arbitrary: pos)
  case Nil
  show ?case
  proof (cases "h = []")
    case False
    then obtain s where "h = ESC # s" "consumed h = 0" "length h \<le> 128" using assms(2) by (auto simp: query_part_def)
    then show ?thesis by (simp add: only_replies_def consumed_def case_prod_unfold)
  qed (simp add: only_replies_def)
next
  case (Cons t ts)
  obtain pos' where "only_replies (query_loop pos (t @ concat ts @ h)) =
      (query_out t @ fst (only_replies (query_loop pos' (concat ts @ h))), snd (only_replies (query_loop pos' (concat ts @ h))))"
    using query_loop_token[of t pos "concat ts @ h"] Cons.prems by auto
  then show ?case using Cons by simp
qed

lemma query_replies_loop: "query_replies hold p = only_replies (query_loop 0 (hold @ p))"
  by (simp add: query_replies_def query_feed_def only_replies_def case_prod_unfold)

interpretation queries: token_scanner query_replies query_token query_out "\<lambda>h. h = [] \<or> query_part h" "\<lambda>_. True"
proof unfold_locales
  fix h r
  assume t: "query_token (h @ r)" "r \<noteq> []"
  show "h = [] \<or> query_part h"
  proof (cases h)
    case (Cons c s)
    then have "c = ESC" "consumed (h @ r) = length (h @ r)" "length h \<le> 128" using t by (auto simp: query_token_def)
    then show ?thesis using consumed_prefix[of h r] Cons t(2) by (auto simp: query_part_def)
  qed simp
qed (simp_all add: query_replies_loop query_loop_tokens)

section \<open>Properties\<close>

text \<open>
  The sequences the outer terminal must not see, by the protocols of the terminals and not by the code: the kitty protocol pushes a mode
  with \<^verbatim>\<open>CSI > ... u\<close>, asks for it with \<^verbatim>\<open>CSI ? u\<close> and sets it with \<^verbatim>\<open>CSI = flags u\<close>, xterm sets modifyOtherKeys with
  \<^verbatim>\<open>CSI > 4 ; v m\<close>, and private mode 1004 reports focus.
\<close>

definition switches :: "string \<Rightarrow> char \<Rightarrow> bool" where
  "switches body f \<longleftrightarrow>
     f = CHR ''u'' \<and> (HasPrefix body ''>'' \<or> HasPrefix body ''?''
       \<or> HasPrefix body ''='' \<and> ParseInt (takeWhile (\<lambda>c. c \<noteq> CHR '';'') (tl body)) \<noteq> Some 0)
     \<or> f = CHR ''m'' \<and> HasPrefix body ''>4;'' \<and> length body > 3 \<and> body ! 3 \<noteq> CHR ''0''
     \<or> f = CHR ''h'' \<and> HasPrefix body ''?'' \<and> ''1004'' \<in> set (Split (tl body) (CHR '';''))"

definition enables :: "string \<Rightarrow> bool" where
  "enables u \<longleftrightarrow> csi_seq u \<and> switches (butlast (drop 2 u)) (last u)"

lemma switches_keyboard:
  "keyboardModeCSI (ESC # CHR ''['' # body @ [f]) \<or> snd (snd (rewriteFocusTracking (ESC # CHR ''['' # body @ [f]))) \<longleftrightarrow> switches body f"
proof (cases body)
  case Nil
  then show ?thesis by (simp add: keyboardModeCSI_def rewriteFocusTracking_def switches_def HasPrefix_def)
next
  case (Cons c ps)
  have "ps \<noteq> []" if "''1004'' \<in> set (Split ps (CHR '';''))" using that by (cases ps) auto
  then have "snd (snd (rewriteFocusTracking (ESC # CHR ''['' # body @ [f]))) \<longleftrightarrow>
      f = CHR ''h'' \<and> c = CHR ''?'' \<and> ''1004'' \<in> set (Split ps (CHR '';''))"
    using Cons by (cases ps) (auto simp: rewriteFocusTracking_def Let_def numeral_3_eq_3 butlast_append)
  moreover have "keyboardModeCSI (ESC # CHR ''['' # body @ [f]) \<longleftrightarrow>
      f = CHR ''u'' \<and> (c = CHR ''>'' \<or> c = CHR ''?'' \<or> c = CHR ''='' \<and> ParseInt (takeWhile (\<lambda>c. c \<noteq> CHR '';'') ps) \<noteq> Some 0)
      \<or> f = CHR ''m'' \<and> HasPrefix body ''>4;'' \<and> length body > 3 \<and> body ! 3 \<noteq> CHR ''0''"
  proof -
    have "ParseInt [] = None" by code_simp
    then have "kittySetEnables body \<longleftrightarrow> ParseInt (takeWhile (\<lambda>c. c \<noteq> CHR '';'') ps) \<noteq> Some 0" if "c = CHR ''=''"
      using Cons that by (cases ps) (auto simp: kittySetEnables_def split: option.splits)
    moreover have "length body \<ge> 2 \<and> body ! 0 = CHR ''>'' \<and> body ! 1 = CHR ''4'' \<and> (length body = 2 \<or> body ! 2 = CHR '';'') \<and> modifyOtherKeysEnables body
      \<longleftrightarrow> HasPrefix body ''>4;'' \<and> length body > 3 \<and> body ! 3 \<noteq> CHR ''0''"
      by (cases body rule: remdups_adj.cases; cases "tl (tl body)"; cases "tl (tl (tl body))")
        (auto simp: modifyOtherKeysEnables_def HasPrefix_def numeral_2_eq_2 numeral_3_eq_3)
    ultimately show ?thesis using Cons by (auto simp: keyboardModeCSI_def Let_def split: if_splits)
  qed
  ultimately show ?thesis using Cons by (auto simp: switches_def HasPrefix_def)
qed

lemma enables_iff: "enables u \<longleftrightarrow> csi_seq u \<and> (keyboardModeCSI u \<or> snd (snd (rewriteFocusTracking u)))"
  by (auto simp: enables_def csi_seq_def switches_keyboard[symmetric])

lemma Split_set: "p \<in> set (Split s c) \<Longrightarrow> set p \<subseteq> set s \<and> c \<notin> set p"
proof (induction s arbitrary: p)
  case (Cons x s)
  obtain q qs where "Split s c = q # qs" by (cases "Split s c") auto
  then show ?case using Cons.IH[of q] Cons.IH[of p] Cons.prems by (auto split: if_splits)
qed simp

lemma Split_Join: "ps \<noteq> [] \<Longrightarrow> list_all (\<lambda>p. c \<notin> set p) ps \<Longrightarrow> Split (strings_Join ps [c]) c = ps"
  by (induction ps "[c]" rule: strings_Join.induct) (simp_all add: Split_no_sep Split_append_sep)

lemma set_Join: "set (strings_Join ps sep) \<subseteq> \<Union> (set ` set ps) \<union> set sep"
  by (induction ps sep rule: strings_Join.induct) auto

lemma length_Join_filter: "length (strings_Join (filter P ps) [c]) \<le> length (strings_Join ps [c])"
proof (induction ps "[c]" rule: strings_Join.induct)
  case (3 s v vs)
  then show ?case by (cases "filter P (v # vs)") auto
qed simp_all

lemma Join_Split: "strings_Join (Split s c) [c] = s"
proof (induction s)
  case (Cons x s)
  obtain p ps where "Split s c = p # ps" by (cases "Split s c") auto
  then show ?case using Cons by (cases ps) auto
qed simp

lemma focus_rest:
  assumes "csi_seq seq" "length seq \<le> 64" "5 \<le> length seq" "seq ! 2 = CHR ''?''" "last seq = CHR ''h'' \<or> last seq = CHR ''l''"
    and kept: "kept = filter (\<lambda>p. p \<noteq> ''1004'' \<and> p \<noteq> []) (Split (butlast (drop 3 seq)) (CHR '';''))" "kept \<noteq> []"
  shows "key_token ((ESC # ''[?'') @ strings_Join kept '';'' @ [last seq]) \<and> \<not> enables ((ESC # ''[?'') @ strings_Join kept '';'' @ [last seq])"
proof -
  obtain body f where s: "seq = ESC # CHR ''['' # body @ [f]" and b: "csi_body body" "csiFinal f" using assms(1) by (auto simp: csi_seq_def)
  obtain m where body: "body = CHR ''?'' # m" using assms(3,4) s by (cases body) (auto simp: nth_append)
  have m: "butlast (drop 3 seq) = m" "last seq = f" using s body by (simp_all add: numeral_3_eq_3)
  let ?j = "strings_Join kept '';''"
  have k: "list_all (\<lambda>p. CHR '';'' \<notin> set p \<and> set p \<subseteq> set m) kept" using Split_set[of _ m "CHR '';''"] kept(1) m by (auto simp: list_all_iff)
  have "set ?j \<subseteq> set m \<union> {CHR '';''}" using set_Join[of kept "'';''"] k by (fastforce simp: list_all_iff)
  moreover have "\<not> csiFinal (CHR '';'') \<and> \<not> control (CHR '';'')" by (simp add: csiFinal_def control_def)
  ultimately have jb: "csi_body (CHR ''?'' # ?j)" using b(1) body by (auto simp: csi_body_def list_all_iff)
  have "length ?j \<le> length m"
    using length_Join_filter[of "\<lambda>p. p \<noteq> ''1004'' \<and> p \<noteq> []" "Split m (CHR '';'')" "CHR '';''"] kept(1) m Join_Split[of m "CHR '';''"] by simp
  then have l: "length ((ESC # ''[?'') @ ?j @ [f]) \<le> 64" using assms(2) s body by simp
  have c: "csi_seq ((ESC # ''[?'') @ ?j @ [f])" unfolding csi_seq_def
    by (rule exI[of _ "CHR ''?'' # ?j"], rule exI[of _ f]) (use jb b(2) in simp)
  have "list_all (\<lambda>p. CHR '';'' \<notin> set p) kept" using k by (simp add: list_all_iff)
  then have sp: "Split ?j (CHR '';'') = kept" using Split_Join[OF kept(2)] by blast
  have "''1004'' \<notin> set kept" using kept(1) by simp
  then have "\<not> snd (snd (rewriteFocusTracking ((ESC # ''[?'') @ ?j @ [f])))"
    by (simp add: rewriteFocusTracking_def Let_def numeral_3_eq_3 sp)
  moreover have "\<not> keyboardModeCSI ((ESC # ''[?'') @ ?j @ [f])" using assms(5) m(2) by (auto simp: keyboardModeCSI_def Let_def)
  ultimately show ?thesis using c l m(2) by (simp add: key_token_def enables_iff)
qed

lemma focus_off_token: "key_token focus_off \<and> \<not> enables focus_off"
proof -
  have "csi_seq focus_off" unfolding csi_seq_def focus_off_def
    by (rule exI[of _ "''?1004''"], rule exI[of _ "CHR ''l''"]) (simp add: csi_body_def csiFinal_def control_def)
  moreover have "\<not> keyboardModeCSI focus_off \<and> \<not> snd (snd (rewriteFocusTracking focus_off))" by code_simp
  ultimately show ?thesis by (simp add: key_token_def enables_iff focus_off_def)
qed

lemma strip_out_tokens:
  assumes "key_token t"
  shows "\<exists>us. strip_out t = concat us \<and> list_all (\<lambda>u. key_token u \<and> \<not> enables u) us"
proof (cases "csi_seq t")
  case False
  then show ?thesis using assms by (intro exI[of _ "[t]"]) (simp add: strip_out_def enables_iff)
next
  case True
  then have l: "length t \<le> 64" using assms by (auto simp: key_token_def)
  obtain out dropped off where r: "rewriteFocusTracking t = (out, dropped, off)" by (metis prod_cases3)
  have "\<exists>us. (if dropped then [] else out) = concat us \<and> list_all (\<lambda>u. key_token u \<and> \<not> enables u) us" if k: "\<not> keyboardModeCSI t"
  proof (cases "out = t \<and> \<not> dropped \<and> \<not> off")
    case True
    then show ?thesis using assms k r by (intro exI[of _ "[t]"]) (simp add: enables_iff)
  next
    case False
    define kept where "kept = filter (\<lambda>p. p \<noteq> ''1004'' \<and> p \<noteq> []) (Split (butlast (drop 3 t)) (CHR '';''))"
    have a: "5 \<le> length t" "t ! 2 = CHR ''?''" "last t = CHR ''h'' \<or> last t = CHR ''l''"
      and o: "dropped \<or> kept \<noteq> [] \<and> out = (ESC # ''[?'') @ strings_Join kept '';'' @ [last t]"
      using r False by (auto simp: rewriteFocusTracking_def Let_def kept_def split: if_splits)
    show ?thesis
    proof (cases dropped)
      case False
      then show ?thesis using o focus_rest[OF True l a kept_def] by (intro exI[of _ "[out]"]) auto
    qed (auto intro: exI[of _ "[]"])
  qed
  then obtain us where us: "\<not> keyboardModeCSI t \<Longrightarrow> (if dropped then [] else out) = concat us \<and> list_all (\<lambda>u. key_token u \<and> \<not> enables u) us" by blast
  show ?thesis
  proof (cases "keyboardModeCSI t")
    case k: True
    then show ?thesis using True by (intro exI[of _ "[]"]) (simp add: strip_out_def strip_seq_def)
  next
    case k: False
    then show ?thesis using True us[OF k] r focus_off_token
      by (intro exI[of _ "us @ (if off then [focus_off] else [])"]) (simp add: strip_out_def strip_seq_def)
  qed
qed



subsection \<open>Concrete streams\<close>

lemma csi_seq_iff: "csi_seq (ESC # CHR ''['' # s) \<longleftrightarrow> s \<noteq> [] \<and> csi_body (butlast s) \<and> csiFinal (last s)"
  by (cases s rule: rev_cases) (auto simp: csi_seq_def)



subsection \<open>Divergences\<close>

text \<open>
  Two escapes in a row are taken for an escape with one more byte, and the sequence after them is passed on unexamined: a program can
  enable the kitty keyboard mode after all. A control byte inside a sequence makes the filter forget the bytes before it.
\<close>

theorem double_escape_passes: "strip_feed [] (ESC # ESC # ''[>1u'') = (ESC # ESC # ''[>1u'', []) \<and> keyboardModeCSI (ESC # ''[>1u'')"
  by code_simp

theorem interrupted_sequence_lost: "strip_feed [] ((ESC # ''[3'') @ [CHR 0x0A] @ ''1m'') = ([CHR 0x0A] @ ''1m'', [])"
  by code_simp

end
