(* ===== verification/Overlay.thy ===== *)
theory Overlay
  imports Terminal Keyboard Rank Keys
begin

text \<open>
  The overlay drawn over the shell's screen (\<^verbatim>\<open>internal/ptyproxy/place.go\<close>, \<^verbatim>\<open>screen.go\<close>, \<^verbatim>\<open>internal/kittypanel/snapshot.go\<close>): where it is
  placed, the escape sequences that prepare and restore the screen, the wire format of a screen snapshot, and what is read from
  kitty. A row is a string of bytes; removing escape sequences from one is a parameter.
\<close>

section \<open>Placement\<close>

record rect =
  rcX :: int
  rcY :: int
  rcW :: int
  rcH :: int

record placement =
  pcRect :: rect
  pcScroll :: int

definition full_width :: "int \<Rightarrow> int \<Rightarrow> int \<Rightarrow> int \<Rightarrow> placement" where
  "full_width y w h scroll = \<lparr>pcRect = \<lparr>rcX = 0, rcY = y, rcW = w, rcH = h\<rparr>, pcScroll = scroll\<rparr>"

text \<open>\<^verbatim>\<open>termRows/2\<close> divides a positive number.\<close>

definition Place :: "int \<Rightarrow> int \<Rightarrow> int \<Rightarrow> int \<Rightarrow> placement" where
  "Place cursorRow termRows0 termCols0 height0 =
     (let termRows = (if termRows0 < 1 then 1 else termRows0); termCols = (if termCols0 < 1 then 1 else termCols0);
          h1 = (if height0 < 1 then 1 else height0); height = (if h1 > termRows then termRows else h1);
          s = termRows - cursorRow; spaceBelow = (if s < 0 then 0 else s)
      in if height \<le> spaceBelow then full_width cursorRow termCols height 0
         else if cursorRow \<ge> termRows div 2
           then (let y = cursorRow - height in full_width (if y < 0 then 0 else y) termCols height 0)
         else (let sc = height - spaceBelow; scroll = (if sc < 0 then 0 else sc); y = cursorRow - scroll
               in full_width (if y < 0 then 0 else y) termCols height scroll))"

section \<open>Drawing\<close>

record snapshot =
  ssRows :: int
  ssCols :: int
  ssCursorRow :: int
  ssCursorCol :: int
  ssRowANSI :: "string list"

definition rowHasPrintable :: "(string \<Rightarrow> string) \<Rightarrow> string \<Rightarrow> bool" where
  "rowHasPrintable strip row = list_ex (\<lambda>r. \<not> IsSpace r) (runes (strip row))"

definition ContentCursorRow :: "(string \<Rightarrow> string) \<Rightarrow> snapshot \<Rightarrow> int" where
  "ContentCursorRow strip s =
     (case filter (\<lambda>i. rowHasPrintable strip (ssRowANSI s ! i)) [0..<length (ssRowANSI s)] of
        [] \<Rightarrow> ssCursorRow s
      | is \<Rightarrow> if ssCursorRow s > int (last is) then int (last is) else ssCursorRow s)"

definition MoveTo :: "int \<Rightarrow> int \<Rightarrow> string" where
  "MoveTo col row = (ESC # ''['') @ show_int ((if row < 0 then 0 else row) + 1) @ '';'' @ show_int ((if col < 0 then 0 else col) + 1) @ ''H''"

definition ScrollUp :: "int \<Rightarrow> int \<Rightarrow> string" where
  "ScrollUp termRows n = (if n \<le> 0 \<or> termRows < 1 then [] else MoveTo 0 (termRows - 1) @ replicate (nat n) (CHR 0x0A))"

definition sgr_reset :: string where
  "sgr_reset = ESC # ''[0m''"

definition ClearRect :: "rect \<Rightarrow> string" where
  "ClearRect r =
     (if rcW r < 1 \<or> rcH r < 1 then []
      else concat (map (\<lambda>dy. MoveTo (rcX r) (rcY r + int dy) @ sgr_reset @ replicate (nat (rcW r)) (CHR '' '')) [0..<nat (rcH r)]))"

definition Restore :: "snapshot \<Rightarrow> rect \<Rightarrow> int \<Rightarrow> string" where
  "Restore s r scroll =
     (if rcW r < 1 \<or> rcH r < 1 then []
      else concat (map (\<lambda>dy. let target = rcY r + int dy; src = target + scroll
             in MoveTo (rcX r) target @ sgr_reset @ replicate (nat (rcW r)) (CHR '' '') @ MoveTo (rcX r) target
                @ (if 0 \<le> src \<and> src < int (length (ssRowANSI s)) then ssRowANSI s ! nat src else [])) [0..<nat (rcH r)])
        @ MoveTo (ssCursorCol s) (if ssCursorRow s - scroll < 0 then 0 else ssCursorRow s - scroll) @ ESC # ''[?25h'')"

definition Prepare :: "snapshot \<Rightarrow> placement \<Rightarrow> string" where
  "Prepare snap place =
     (if pcScroll place > 0 then ScrollUp (ssRows snap) (pcScroll place) else [])
     @ ClearRect (pcRect place) @ MoveTo (rcX (pcRect place)) (rcY (pcRect place))"

section \<open>The wire format\<close>

definition clampU16 :: "int \<Rightarrow> int" where
  "clampU16 n = (if n < 0 then 0 else if n > 65535 then 65535 else n)"

text \<open>\<^verbatim>\<open>binary.BigEndian\<close> on 16 bits.\<close>

definition be16 :: "16 word \<Rightarrow> bytes" where
  "be16 n = [ucast (drop_bit 8 n), ucast n]"

definition unbe16 :: "bytes \<Rightarrow> 16 word" where
  "unbe16 b = push_bit 8 (ucast (b ! 0)) OR ucast (b ! 1)"

definition EncodeHeader :: "snapshot \<Rightarrow> bytes" where
  "EncodeHeader s = concat (map (\<lambda>n. be16 (word_of_int (clampU16 n))) [ssRows s, ssCols s, ssCursorRow s, ssCursorCol s])"

definition EncodeRow :: "string \<Rightarrow> bytes" where
  "EncodeRow row = be32 (word_of_nat (length row)) @ str_bytes row"

definition Encode :: "snapshot \<Rightarrow> bytes" where
  "Encode s = EncodeHeader s @ concat (map EncodeRow (ssRowANSI s))"

definition byte_string :: "bytes \<Rightarrow> string" where
  "byte_string b = map (\<lambda>x. char_of (unat x)) b"

definition header_of :: "bytes \<Rightarrow> string list \<Rightarrow> snapshot" where
  "header_of b rows =
     \<lparr>ssRows = uint (unbe16 (take 2 b)), ssCols = uint (unbe16 (take 2 (drop 2 b))), ssCursorRow = uint (unbe16 (take 2 (drop 4 b))),
      ssCursorCol = uint (unbe16 (take 2 (drop 6 b))), ssRowANSI = rows\<rparr>"

function decode_rows :: "bytes \<Rightarrow> string list result" where
  "decode_rows rest =
     (if length rest \<ge> 4
      then (let n = unat (unbe32 (take 4 rest)); rest1 = drop 4 rest
            in if n > length rest1 then Inl (Errorf ''snapshot: truncated row'')
               else bind_result (decode_rows (drop n rest1)) (\<lambda>rows. Inr (byte_string (take n rest1) # rows)))
      else if rest \<noteq> [] then Inl (Errorf ''snapshot: trailing bytes'') else Inr [])"
  by pat_completeness auto
termination
  by (relation "measure length") auto

declare decode_rows.simps [simp del]

definition snapshot_Decode :: "bytes \<Rightarrow> snapshot result" where
  "snapshot_Decode data =
     (if length data < 8 then Inl (Errorf ''snapshot: short header'')
      else bind_result (decode_rows (drop 8 data)) (\<lambda>rows. Inr (header_of data rows)))"

definition DecodeHeader :: "bytes \<Rightarrow> (snapshot \<times> bytes) result" where
  "DecodeHeader r = bind_result (read_full 8 r) (\<lambda>(hdr, r1). Inr (header_of hdr [], r1))"

fun ReadRows :: "nat \<Rightarrow> bytes \<Rightarrow> (string list \<times> bytes) result" where
  "ReadRows 0 r = Inr ([], r)"
| "ReadRows (Suc n) r =
     bind_result (read_full 4 r) (\<lambda>(lenBuf, r1).
       let sz = unat (unbe32 lenBuf)
       in bind_result (if sz = 0 then Inr ([], r1) else read_full sz r1) (\<lambda>(buf, r2).
            bind_result (ReadRows n r2) (\<lambda>(rows, r3). Inr (byte_string buf # rows, r3))))"

definition DecodeFrom :: "bytes \<Rightarrow> (snapshot \<times> bytes) result" where
  "DecodeFrom r =
     bind_result (DecodeHeader r) (\<lambda>(s, r1).
       bind_result (ReadRows (nat (ssRows s)) r1) (\<lambda>(rows, r2). Inr (s\<lparr>ssRowANSI := rows\<rparr>, r2)))"

section \<open>Kitty's screen\<close>

text \<open>\<^verbatim>\<open>ReplaceAll\<close> of a carriage return with a newline by a newline.\<close>

fun unixLines :: "string \<Rightarrow> string" where
  "unixLines (c # d # s) = (if c = CHR 0x0D \<and> d = CHR 0x0A then CHR 0x0A # unixLines s else c # unixLines (d # s))"
| "unixLines s = s"

definition SplitScreen :: "string \<Rightarrow> string list" where
  "SplitScreen text0 =
     (let t = unixLines text0; text = (if t \<noteq> [] \<and> last t = CHR 0x0A then butlast t else t)
      in if text = [] then [] else Split text (CHR 0x0A))"

definition isCSIFinal :: "char \<Rightarrow> bool" where
  "isCSIFinal b = (let n = of_char b :: nat in 65 \<le> n \<and> n \<le> 90 \<or> 97 \<le> n \<and> n \<le> 122)"

text \<open>A match of \<^verbatim>\<open>\\x1b\\[(\\d+);(\\d+)H\<close> at the start: the digits of the row, and the length of the match.\<close>

definition cup_at :: "string \<Rightarrow> (string \<times> nat) option" where
  "cup_at s =
     (let digits = takeWhile (\<lambda>c. digit_val c \<noteq> None); row = digits (drop 2 s); t = drop (2 + length row) s; col = digits (tl t); u = drop (1 + length col) t
      in if take 2 s = ESC # ''['' \<and> row \<noteq> [] \<and> t \<noteq> [] \<and> hd t = CHR '';'' \<and> col \<noteq> [] \<and> u \<noteq> [] \<and> hd u = CHR ''H''
         then Some (row, 4 + length row + length col) else None)"

text \<open>The matches from left to right: the position, the digits of the row.\<close>

function cup_matches :: "nat \<Rightarrow> string \<Rightarrow> (nat \<times> string) list" where
  "cup_matches pos [] = []"
| "cup_matches pos (c # s) =
     (case cup_at (c # s) of
        None \<Rightarrow> cup_matches (pos + 1) s
      | Some (row, n) \<Rightarrow> (pos, row) # cup_matches (pos + n) (drop n (c # s)))"
  by pat_completeness auto
termination
  by (relation "measure (\<lambda>(pos, s). length s)") (auto simp: cup_at_def Let_def split: if_splits)

function only_cursor :: "string \<Rightarrow> bool" where
  "only_cursor [] = True"
| "only_cursor (c # s) =
     (if c = ESC \<and> s \<noteq> [] \<and> hd s = CHR ''['' then only_cursor (drop 1 (dropWhile (\<lambda>x. \<not> isCSIFinal x) (tl s)))
      else if c = CHR '' '' \<or> c = CHR 0x0D then only_cursor s
      else False)"
  by pat_completeness auto
termination
  by (relation "measure length")
     (auto simp: less_Suc_eq_le intro: le_trans[OF diff_le_self le_trans[OF length_dropWhile_le]])

definition onlyCursorSuffix :: "string \<Rightarrow> bool" where
  "onlyCursorSuffix s = (only_cursor s \<and> cup_matches 0 s \<noteq> [])"

definition stripTrailingCursor :: "string \<Rightarrow> string \<times> int \<times> bool" where
  "stripTrailingCursor text =
     (case cup_matches 0 text of
        [] \<Rightarrow> (text, - 1, False)
      | ms \<Rightarrow> (case last ms of (pos, row) \<Rightarrow>
          (let line = rev (takeWhile (\<lambda>c. c \<noteq> CHR 0x0A) (rev (take pos text))); start = pos - length line
           in if \<not> onlyCursorSuffix (drop start text) then (text, - 1, False)
              else (case ParseInt row of
                      None \<Rightarrow> (text, - 1, False)
                    | Some r \<Rightarrow> if r < 1 then (text, - 1, False) else (take start text, r - 1, True)))))"

definition kitty_Report :: "string \<Rightarrow> (string \<Rightarrow> bool) \<Rightarrow> bool \<times> string" where
  "kitty_Report listen exists =
     (if listen = [] then (False, ''kitty panel: KITTY_LISTEN_ON is unset; set allow_remote_control and listen_on so Ctrl+R can use the height-limited panel'')
      else (let path = (if HasPrefix listen ''unix:'' then drop 5 listen else listen)
            in if path = [] then (False, ''kitty panel: KITTY_LISTEN_ON is empty'')
               else if HasPrefix path ''@'' then (True, ''kitty panel: listen socket '' @ listen)
               else if \<not> exists path then (False, ''kitty panel: listen socket missing: '' @ path)
               else (True, ''kitty panel: listen socket '' @ path)))"

section \<open>Properties\<close>

text \<open>The overlay always lies on the screen: for a cursor on the screen, the rectangle \<^verbatim>\<open>Place\<close> gives starts at a row of the screen,
  ends within it, has the whole width, and the height asked for or that of the screen. It scrolls only when it has to, by no more than
  keeps the cursor's line on the screen, and then starts at the line the cursor has moved to.\<close>

theorem Place_on_screen:
  assumes "0 \<le> cursorRow" "cursorRow < rows" "0 < cols"
  shows "0 \<le> rcY (pcRect (Place cursorRow rows cols height)) \<and> 1 \<le> rcH (pcRect (Place cursorRow rows cols height))
    \<and> rcY (pcRect (Place cursorRow rows cols height)) + rcH (pcRect (Place cursorRow rows cols height)) \<le> rows
    \<and> rcX (pcRect (Place cursorRow rows cols height)) = 0 \<and> rcW (pcRect (Place cursorRow rows cols height)) = cols
    \<and> rcH (pcRect (Place cursorRow rows cols height)) = max 1 (min height rows)
    \<and> 0 \<le> pcScroll (Place cursorRow rows cols height) \<and> pcScroll (Place cursorRow rows cols height) \<le> cursorRow
    \<and> (pcScroll (Place cursorRow rows cols height) = 0
        \<or> rcY (pcRect (Place cursorRow rows cols height)) = cursorRow - pcScroll (Place cursorRow rows cols height))"
  using assms by (auto simp: Place_def full_width_def Let_def)

theorem Place_on_screen_witness:
  "rcY (pcRect (Place 10 24 80 20)) + rcH (pcRect (Place 10 24 80 20)) \<le> 24 \<and> pcScroll (Place 10 24 80 20) = 6"
  using Place_on_screen[of 10 24 80 20] by (simp add: Place_def full_width_def)

lemma length_be16 [simp]: "length (be16 n) = 2"
  by (simp add: be16_def)

lemma unbe16_be16 [simp]: "unbe16 (be16 n) = n"
  unfolding unbe16_def be16_def
  by (rule bit_word_eqI) (auto simp: bit_simps)

lemma byte_string_str_bytes [simp]: "byte_string (str_bytes s) = s"
  by (induction s) (simp_all add: byte_string_def str_bytes_def unat_of_nat)

lemma byte_string_Nil: "byte_string [] = []" "str_bytes [] = []"
  by (simp_all add: byte_string_def str_bytes_def)

lemma length_str_bytes [simp]: "length (str_bytes s) = length s"
  by (simp add: str_bytes_def)

lemma decode_rows_encoded:
  assumes "list_all (\<lambda>r. length r < 2 ^ 32) rows"
  shows "decode_rows (concat (map EncodeRow rows)) = Inr rows"
  using assms
proof (induction rows)
  case Nil
  show ?case by (simp add: decode_rows.simps[of "[]"])
next
  case (Cons r rows)
  then have u: "unat (word_of_nat (length r) :: 32 word) = length r" by (simp add: unat_of_nat)
  show ?case using Cons u by (subst decode_rows.simps) (simp add: EncodeRow_def[of r] Let_def)
qed

lemma ReadRows_encoded:
  assumes "list_all (\<lambda>r. length r < 2 ^ 32) rows"
  shows "ReadRows (length rows) (concat (map EncodeRow rows) @ rest) = Inr (rows, rest)"
  using assms
proof (induction rows)
  case (Cons r rows)
  then have u: "unat (word_of_nat (length r) :: 32 word) = length r" by (simp add: unat_of_nat)
  show ?case using Cons u by (cases r) (simp_all add: EncodeRow_def[of r] EncodeRow_def[of "[]"] EncodeRow_def[of "_ # _"] Let_def read_full_def byte_string_Nil)
qed simp

definition snapshot_ok :: "snapshot \<Rightarrow> bool" where
  "snapshot_ok s = (list_all (\<lambda>n. 0 \<le> n \<and> n \<le> 65535) [ssRows s, ssCols s, ssCursorRow s, ssCursorCol s]
     \<and> list_all (\<lambda>r. length r < 2 ^ 32) (ssRowANSI s))"

lemma header_of_encoded:
  assumes "snapshot_ok s"
  shows "header_of (EncodeHeader s @ b) rows = s\<lparr>ssRowANSI := rows\<rparr>" "length (EncodeHeader s) = 8"
proof -
  have "uint (word_of_int (clampU16 n) :: 16 word) = n" if "0 \<le> n" "n \<le> 65535" for n
    using that by (simp add: clampU16_def uint_word_of_int)
  then show "header_of (EncodeHeader s @ b) rows = s\<lparr>ssRowANSI := rows\<rparr>"
    using assms by (simp add: header_of_def EncodeHeader_def snapshot_ok_def )
  show "length (EncodeHeader s) = 8" by (simp add: EncodeHeader_def)
qed

text \<open>C33: A snapshot of the screen is read back as it was written, both from a complete message and from a stream, where the reader stops
  right after the last row; numbers are of 16 bits, and the stream has as many rows as the screen.\<close>

theorem snapshot_round_trip:
  assumes "snapshot_ok s" "ssRows s = int (length (ssRowANSI s))"
  shows "snapshot_Decode (Encode s) = Inr s \<and> DecodeFrom (Encode s @ rest) = Inr (s, rest)"
proof
  have r: "list_all (\<lambda>r. length r < 2 ^ 32) (ssRowANSI s)" using assms(1) by (simp add: snapshot_ok_def)
  note h = header_of_encoded[OF assms(1)]
  show "snapshot_Decode (Encode s) = Inr s"
    using h decode_rows_encoded[OF r] by (simp add: snapshot_Decode_def Encode_def)
  have "DecodeHeader (Encode s @ rest) = Inr (s\<lparr>ssRowANSI := []\<rparr>, concat (map EncodeRow (ssRowANSI s)) @ rest)"
    using h h(1)[of "[]"] by (simp add: DecodeHeader_def Encode_def read_full_def)
  then show "DecodeFrom (Encode s @ rest) = Inr (s, rest)"
    using ReadRows_encoded[OF r, of rest] assms(2) by (simp add: DecodeFrom_def)
qed

theorem snapshot_round_trip_witness:
  "snapshot_Decode (Encode \<lparr>ssRows = 2, ssCols = 80, ssCursorRow = 1, ssCursorCol = 3, ssRowANSI = [''$ ls'', []]\<rparr>)
     = Inr \<lparr>ssRows = 2, ssCols = 80, ssCursorRow = 1, ssCursorCol = 3, ssRowANSI = [''$ ls'', []]\<rparr>"
  using snapshot_round_trip[of "\<lparr>ssRows = 2, ssCols = 80, ssCursorRow = 1, ssCursorCol = 3, ssRowANSI = [''$ ls'', []]\<rparr>" "[]"]
  by (simp add: snapshot_ok_def)

end
