(* ===== verification/Config.thy ===== *)
theory Config
  imports App
begin

text \<open>
  The configuration (\<^verbatim>\<open>internal/config/config.go\<close>, \<^verbatim>\<open>expand.go\<close>): defaults, validation, loading. The endpoints themselves are in theory App,
  which opens them. Parameters: YAML, the files, the home directory and the environment's variables.
\<close>

section \<open>Data\<close>

record syntax_colors =
  yCommand :: string
  yKeyword :: string
  yFlag :: string
  yString :: string
  yComment :: string
  yOperator :: string
  yVariable :: string
  yPath :: string
  yNumber :: string
  yArgument :: string

record colors =
  kAccent :: string
  kTitle :: string
  kMuted :: string
  kRule :: string
  kSelect :: string
  kBadge :: string
  kDuration :: string
  kFailed :: string
  kTime :: string
  kText :: string
  kSyntax :: syntax_colors

record icons =
  oCursor :: string
  oTyped :: string
  oHistory :: string
  oCompletion :: string
  oSeparator :: string
  oMoveUpDown :: string

record suggest_icons =
  giTyped :: string
  giHistory :: string
  giCompletion :: string

record suggest_config =
  gEnabled :: "bool option"
  gMenu :: "bool option"
  gMenuMax :: int
  gCompletions :: "bool option"
  gIcons :: suggest_icons
  gAccept :: "string list"

record config =
  cfVersion :: int
  cfDeviceID :: string
  cfDeviceName :: string
  cfDatabase :: string
  cfSync :: sync_config
  cfCompactInterval :: string
  cfWatchInterval :: string
  cfSuggest :: suggest_config
  cfProxyEnabled :: "bool option"
  cfProxyHeight :: int
  cfColors :: colors
  cfIcons :: icons
  cfDisableAutoMigrate :: bool

definition config_CurrentVersion :: int where
  "config_CurrentVersion = 2"

definition config_Default :: "string \<Rightarrow> config" where
  "config_Default dbPath =
     \<lparr>cfVersion = config_CurrentVersion, cfDeviceID = [], cfDeviceName = [], cfDatabase = dbPath,
      cfSync = \<lparr>scEnabled = None, scEndpoints = [], scCallbacks = [], scInterval = [], scGCInterval = []\<rparr>, cfCompactInterval = [], cfWatchInterval = [],
      cfSuggest = \<lparr>gEnabled = None, gMenu = None, gMenuMax = 0, gCompletions = None, gIcons = \<lparr>giTyped = [], giHistory = [], giCompletion = []\<rparr>, gAccept = []\<rparr>,
      cfProxyEnabled = None, cfProxyHeight = 0,
      cfColors = \<lparr>kAccent = [], kTitle = [], kMuted = [], kRule = [], kSelect = [], kBadge = [], kDuration = [], kFailed = [], kTime = [], kText = [],
        kSyntax = \<lparr>yCommand = [], yKeyword = [], yFlag = [], yString = [], yComment = [], yOperator = [], yVariable = [], yPath = [], yNumber = [], yArgument = []\<rparr>\<rparr>,
      cfIcons = \<lparr>oCursor = [], oTyped = [], oHistory = [], oCompletion = [], oSeparator = [], oMoveUpDown = []\<rparr>, cfDisableAutoMigrate = False\<rparr>"

section \<open>Defaults of single settings\<close>

definition DirectoryEndpoint :: "string \<Rightarrow> string \<Rightarrow> config_endpoint" where
  "DirectoryEndpoint i path = \<lparr>ceID = i, ceType = ''directory'', ceDisplayName = [], ceEnabled = True, ceRcloneRemote = [], ceProvider = [],
     cePath = path, ceRemote = [], ceHost = [], ceUser = [], cePort = 0\<rparr>"

definition proxy_IsEnabled :: "config \<Rightarrow> bool" where
  "proxy_IsEnabled c = (cfProxyEnabled c = Some True)"

definition Percent :: "int \<Rightarrow> int" where
  "Percent p = (if p \<le> 0 \<or> p \<ge> 100 then 100 else p)"

definition Full :: "int \<Rightarrow> bool" where
  "Full p = (Percent p \<ge> 100)"

definition suggest_IsEnabled :: "suggest_config \<Rightarrow> bool" where
  "suggest_IsEnabled s = (case gEnabled s of None \<Rightarrow> True | Some b \<Rightarrow> b)"

definition MenuEnabled :: "suggest_config \<Rightarrow> bool" where
  "MenuEnabled s = (gMenu s = Some True)"

definition CompletionsEnabled :: "suggest_config \<Rightarrow> bool" where
  "CompletionsEnabled s = (gCompletions s = Some True)"

definition AcceptKeys :: "suggest_config \<Rightarrow> string list" where
  "AcceptKeys s = (let out = filter (\<lambda>k. k \<noteq> []) (map TrimSpace (gAccept s)) in if out = [] then [''Right''] else out)"

definition colorOr :: "string \<Rightarrow> string \<Rightarrow> string" where
  "colorOr v fallback = (let t = TrimSpace v in if t = [] \<or> sql_lower t = ''default'' then fallback else t)"

definition AccentOrDefault :: "colors \<Rightarrow> string" where "AccentOrDefault c = colorOr (kAccent c) ''#F5C2E7''"
definition TitleOrDefault :: "colors \<Rightarrow> string" where "TitleOrDefault c = colorOr (kTitle c) ''#CBA6F7''"
definition MutedOrDefault :: "colors \<Rightarrow> string" where "MutedOrDefault c = colorOr (kMuted c) ''#585B70''"
definition RuleOrDefault :: "colors \<Rightarrow> string" where "RuleOrDefault c = colorOr (kRule c) ''#313244''"
definition SelectOrDefault :: "colors \<Rightarrow> string" where "SelectOrDefault c = colorOr (kSelect c) ''#313244''"
definition BadgeOrDefault :: "colors \<Rightarrow> string" where "BadgeOrDefault c = colorOr (kBadge c) ''#89B4FA''"
definition DurationOrDefault :: "colors \<Rightarrow> string" where "DurationOrDefault c = colorOr (kDuration c) ''#A6E3A1''"
definition FailedOrDefault :: "colors \<Rightarrow> string" where "FailedOrDefault c = colorOr (kFailed c) ''#F38BA8''"
definition TimeOrDefault :: "colors \<Rightarrow> string" where "TimeOrDefault c = colorOr (kTime c) ''#7F849C''"
definition TextOrDefault :: "colors \<Rightarrow> string" where "TextOrDefault c = colorOr (kText c) ''#CDD6F4''"

text \<open>Icons fall back to a literal in UTF-8; the one of the interface comes before the one of the suggestions.\<close>

definition iconOr :: "string \<Rightarrow> string \<Rightarrow> string" where
  "iconOr v fallback = (if TrimSpace v = [] then fallback else v)"

definition IconTyped :: "config \<Rightarrow> string" where
  "IconTyped c = iconOr (oTyped (cfIcons c)) (iconOr (giTyped (gIcons (cfSuggest c))) [CHR 0xE2, CHR 0x80, CHR 0xBA])"

definition IconHistory :: "config \<Rightarrow> string" where
  "IconHistory c = iconOr (oHistory (cfIcons c)) (iconOr (giHistory (gIcons (cfSuggest c))) ''*'')"

definition IconCompletion :: "config \<Rightarrow> string" where
  "IconCompletion c = iconOr (oCompletion (cfIcons c)) (iconOr (giCompletion (gIcons (cfSuggest c))) ''+'')"

definition CursorOrDefault :: "icons \<Rightarrow> string" where
  "CursorOrDefault i = iconOr (oCursor i) [CHR 0xE2, CHR 0x9D, CHR 0xAF]"

definition SeparatorOrDefault :: "icons \<Rightarrow> string" where
  "SeparatorOrDefault i = iconOr (oSeparator i) [CHR 0xC2, CHR 0xB7]"

definition MoveUpDownOrDefault :: "icons \<Rightarrow> string" where
  "MoveUpDownOrDefault i = iconOr (oMoveUpDown i) [CHR 0xE2, CHR 0x86, CHR 0x91, CHR 0xE2, CHR 0x86, CHR 0x93]"

definition CompactIntervalDuration :: "(string \<Rightarrow> int option) \<Rightarrow> config \<Rightarrow> int" where
  "CompactIntervalDuration parse c =
     (if cfCompactInterval c = [] then 300000000000
      else (case parse (cfCompactInterval c) of None \<Rightarrow> 300000000000 | Some d \<Rightarrow> if d \<le> 0 then 300000000000 else d))"

definition ConfigWatchIntervalDuration :: "(string \<Rightarrow> int option) \<Rightarrow> config \<Rightarrow> int" where
  "ConfigWatchIntervalDuration parse c =
     (if cfWatchInterval c = [] then 30000000000
      else (case parse (cfWatchInterval c) of None \<Rightarrow> 30000000000 | Some d \<Rightarrow> if d < 1000000000 then 30000000000 else d))"

definition EnsureDevice :: "string \<Rightarrow> string \<Rightarrow> config \<Rightarrow> config" where
  "EnsureDevice i name c = c\<lparr>cfDeviceID := (if cfDeviceID c = [] then i else cfDeviceID c), cfDeviceName := (if cfDeviceName c = [] then name else cfDeviceName c)\<rparr>"

section \<open>Expansion\<close>

definition Expand :: "(string \<Rightarrow> string) \<Rightarrow> string option \<Rightarrow> string \<Rightarrow> string" where
  "Expand ExpandEnv userHome s0 =
     (if s0 = [] then s0
      else (let s = ExpandEnv s0
            in case userHome of
                 None \<Rightarrow> s
               | Some home \<Rightarrow>
                   if home = [] then s
                   else if s = ''~'' then home
                   else if HasPrefix s ''~/'' then home @ tl s
                   else (let s1 = replace_all s '' ~/'' ('' '' @ home @ ''/''); s2 = replace_all s1 (CHR 0x09 # ''~/'') (CHR 0x09 # home @ ''/'')
                         in if HasSuffix s2 '' ~'' then take (length s2 - 2) s2 @ '' '' @ home else s2)))"

section \<open>Validation\<close>

definition hex_char :: "char \<Rightarrow> bool" where
  "hex_char c = (let n = of_char c :: nat in 48 \<le> n \<and> n \<le> 57 \<or> 97 \<le> n \<and> n \<le> 102 \<or> 65 \<le> n \<and> n \<le> 70)"

text \<open>A byte of a longer rune is no hexadecimal digit either. \<^verbatim>\<open>EqualFold\<close> with a word of these letters folds ASCII only.\<close>

definition validateColor :: "string \<Rightarrow> string \<Rightarrow> go_error option" where
  "validateColor key v0 =
     (let v = TrimSpace v0
      in if v = [] \<or> sql_lower v = ''default'' then None
         else if HasPrefix v ''#''
           then (if length (tl v) \<noteq> 3 \<and> length (tl v) \<noteq> 6 then Some (Errorf (key @ '': invalid color (want #RGB or #RRGGBB)''))
                 else if list_all hex_char (tl v) then None else Some (Errorf (key @ '': invalid color'')))
         else Some (Errorf (key @ '': invalid color (want #RRGGBB, #RGB, or default)'')))"

definition color_pairs :: "colors \<Rightarrow> (string \<times> string) list" where
  "color_pairs k =
     [(''ui.colors.accent'', kAccent k), (''ui.colors.title'', kTitle k), (''ui.colors.muted'', kMuted k), (''ui.colors.rule'', kRule k),
      (''ui.colors.select'', kSelect k), (''ui.colors.badge'', kBadge k), (''ui.colors.duration'', kDuration k), (''ui.colors.failed'', kFailed k),
      (''ui.colors.time'', kTime k), (''ui.colors.text'', kText k), (''ui.colors.syntax.command'', yCommand (kSyntax k)),
      (''ui.colors.syntax.keyword'', yKeyword (kSyntax k)), (''ui.colors.syntax.flag'', yFlag (kSyntax k)), (''ui.colors.syntax.string'', yString (kSyntax k)),
      (''ui.colors.syntax.comment'', yComment (kSyntax k)), (''ui.colors.syntax.operator'', yOperator (kSyntax k)), (''ui.colors.syntax.variable'', yVariable (kSyntax k)),
      (''ui.colors.syntax.path'', yPath (kSyntax k)), (''ui.colors.syntax.number'', yNumber (kSyntax k)), (''ui.colors.syntax.argument'', yArgument (kSyntax k))]"

fun first_error :: "go_error option list \<Rightarrow> go_error option" where
  "first_error [] = None"
| "first_error (e # es) = (case e of None \<Rightarrow> first_error es | Some err \<Rightarrow> Some err)"

definition endpoint_types :: "string list" where
  "endpoint_types = [''rclone'', ''directory'', ''rsync'', ''scp'']"

fun validate_endpoints :: "string list \<Rightarrow> config_endpoint list \<Rightarrow> go_error option" where
  "validate_endpoints seen [] = None"
| "validate_endpoints seen (ep # eps) =
     (if TrimSpace (ceID ep) = [] then Some (Errorf ''endpoint id is required'')
      else if ceID ep \<in> set seen then Some (Errorf (''duplicate endpoint id '' @ ceID ep))
      else if ceType ep = [] then Some (Errorf (''endpoint '' @ ceID ep @ '': type is required''))
      else if ceType ep \<notin> set endpoint_types then Some (Errorf (''endpoint '' @ ceID ep @ '': unknown type''))
      else validate_endpoints (ceID ep # seen) eps)"

definition validate :: "config \<Rightarrow> go_error option" where
  "validate c =
     (case first_error (map (\<lambda>(k, v). validateColor k v) (color_pairs (cfColors c))) of
        Some err \<Rightarrow> Some err
      | None \<Rightarrow> validate_endpoints [] (scEndpoints (cfSync c)))"

section \<open>Loading\<close>

text \<open>
  The two files (absent, unreadable, or their contents) and YAML: decoding onto a configuration, the probe for the settings of the old
  format (the transport, and which of its four sections are present), and the local file.
\<close>

record load_env =
  leConfig :: "string result option"
  leLocal :: "string result option"
  leYaml :: "string \<Rightarrow> config \<Rightarrow> config result"
  leProbe :: "string \<Rightarrow> (string \<times> bool list) result"
  leYamlLocal :: "string \<Rightarrow> (string \<times> string) result"
  leDatabase :: string

definition rejectLegacyConfig :: "load_env \<Rightarrow> string \<Rightarrow> go_error option" where
  "rejectLegacyConfig N data =
     (case leProbe N data of
        Inl _ \<Rightarrow> None
      | Inr (tr, sections) \<Rightarrow>
          if tr \<noteq> [] \<or> True \<in> set sections then Some (Errorf ''config format is no longer supported; run remnix setup'') else None)"

definition loadLocal :: "load_env \<Rightarrow> config \<Rightarrow> config result" where
  "loadLocal N c =
     (case leLocal N of
        None \<Rightarrow> Inr c
      | Some (Inl err) \<Rightarrow> Inl (Wrapped ''read local config'' err)
      | Some (Inr data) \<Rightarrow> (case leYamlLocal N data of
          Inl err \<Rightarrow> Inl (Wrapped ''parse local config'' err)
        | Inr (i, name) \<Rightarrow> Inr (c\<lparr>cfDeviceID := i, cfDeviceName := name\<rparr>)))"

definition Load :: "load_env \<Rightarrow> config result" where
  "Load N =
     bind_result
       (case leConfig N of
          None \<Rightarrow> Inr (config_Default (leDatabase N))
        | Some (Inl err) \<Rightarrow> Inl (Wrapped ''read config'' err)
        | Some (Inr data) \<Rightarrow> (case rejectLegacyConfig N data of
            Some err \<Rightarrow> Inl err
          | None \<Rightarrow> (case leYaml N data (config_Default (leDatabase N)) of
              Inl err \<Rightarrow> Inl (Wrapped ''parse config'' err)
            | Inr c \<Rightarrow> (case validate c of Some err \<Rightarrow> Inl err | None \<Rightarrow> Inr c))))
       (\<lambda>c. loadLocal N (c\<lparr>cfVersion := (if cfVersion c < config_CurrentVersion then config_CurrentVersion else cfVersion c), cfDatabase := leDatabase N\<rparr>))"

section \<open>The invariant of the endpoints\<close>

definition endpoint_ok :: "config_endpoint \<Rightarrow> bool" where
  "endpoint_ok ep = (TrimSpace (ceID ep) \<noteq> [] \<and> ceType ep \<in> set endpoint_types)"

definition endpoints_ok :: "sync_config \<Rightarrow> bool" where
  "endpoints_ok s = (distinct (map ceID (scEndpoints s)) \<and> list_all endpoint_ok (scEndpoints s))"

lemma validate_endpoints_iff:
  "validate_endpoints seen eps = None \<longleftrightarrow> list_all endpoint_ok eps \<and> distinct (map ceID eps) \<and> set seen \<inter> ceID ` set eps = {}"
proof (induction seen eps rule: validate_endpoints.induct)
  case (2 seen ep eps)
  have "[] \<notin> set endpoint_types" by (simp add: endpoint_types_def)
  then show ?case using 2 by (auto simp: endpoint_ok_def)
qed simp

lemma upsert_endpoint_ids: "ceID ` set (upsert_endpoint ep eps) = insert (ceID ep) (ceID ` set eps)"
  by (induction ep eps rule: upsert_endpoint.induct) auto

lemma upsert_endpoint_ok:
  "distinct (map ceID eps) \<Longrightarrow> list_all endpoint_ok eps \<Longrightarrow> endpoint_ok ep \<Longrightarrow>
   distinct (map ceID (upsert_endpoint ep eps)) \<and> list_all endpoint_ok (upsert_endpoint ep eps)"
proof (induction ep eps rule: upsert_endpoint.induct)
  case (2 ep e es)
  have "ceID e \<in> ceID ` set (upsert_endpoint ep es) \<longleftrightarrow> ceID e = ceID ep \<or> ceID e \<in> ceID ` set es" unfolding upsert_endpoint_ids by blast
  then show ?case using 2 by auto
qed simp

lemma find_upsert: "find (\<lambda>e. ceID e = i) (upsert_endpoint ep eps) = (if i = ceID ep then Some ep else find (\<lambda>e. ceID e = i) eps)"
  by (induction ep eps rule: upsert_endpoint.induct) auto

lemma find_removed: "find (\<lambda>e. ceID e = j) (filter (\<lambda>e. ceID e \<noteq> i) eps) = (if j = i then None else find (\<lambda>e. ceID e = j) eps)"
  by (induction eps) auto

lemma Load_endpoints: "Load N = Inr c \<Longrightarrow> endpoints_ok (cfSync c)"
proof -
  have l: "cfSync c' = cfSync c" if "loadLocal N c = Inr c'" for c c'
    using that by (auto simp: loadLocal_def split: option.splits sum.splits)
  have v: "endpoints_ok (cfSync c)" if "validate c = None" for c
    using that validate_endpoints_iff[of "[]" "scEndpoints (cfSync c)"] by (auto simp: validate_def endpoints_ok_def split: option.splits)
  have d: "endpoints_ok (cfSync (config_Default db))" for db by (simp add: endpoints_ok_def config_Default_def)
  assume "Load N = Inr c"
  then show ?thesis using d by (auto simp: Load_def result_Inr split: option.splits sum.splits dest!: l v)
qed

text \<open>C34: Every configuration that loads has endpoints with distinct ids and known types, whatever the files hold; adding, replacing and
  removing an endpoint keep this. An endpoint that was added is the one found under its id, one that was removed is not found, and every
  other id finds what it found before.\<close>

theorem config_endpoints_invariant:
  assumes "Load N = Inr c" "endpoint_ok ep"
  shows "endpoints_ok (cfSync c) \<and> endpoints_ok (UpsertEndpoint (cfSync c) ep) \<and> endpoints_ok (fst (RemoveEndpoint (cfSync c) i))
    \<and> config_Endpoint (UpsertEndpoint (cfSync c) ep) j = (if j = ceID ep then Some ep else config_Endpoint (cfSync c) j)
    \<and> config_Endpoint (fst (RemoveEndpoint (cfSync c) i)) j = (if j = i then None else config_Endpoint (cfSync c) j)"
proof -
  note ok = Load_endpoints[OF assms(1)]
  have "endpoints_ok (UpsertEndpoint (cfSync c) ep)"
    using upsert_endpoint_ok[OF _ _ assms(2)] ok by (simp add: endpoints_ok_def UpsertEndpoint_def)
  moreover have "endpoints_ok (fst (RemoveEndpoint (cfSync c) i))"
    using ok by (auto simp: endpoints_ok_def RemoveEndpoint_def list_all_iff intro: distinct_map_filter)
  ultimately show ?thesis using ok by (simp add: config_Endpoint_def UpsertEndpoint_def RemoveEndpoint_def find_upsert find_removed)
qed

theorem config_endpoints_invariant_witness:
  "config_Endpoint (UpsertEndpoint (cfSync (config_Default ''db'')) (DirectoryEndpoint ''usb'' ''/mnt'')) ''usb'' = Some (DirectoryEndpoint ''usb'' ''/mnt'')"
proof -
  define N where "N = \<lparr>leConfig = None, leLocal = None, leYaml = (\<lambda>_ c. Inr c), leProbe = (\<lambda>_. Inl (Errorf [])), leYamlLocal = (\<lambda>_. Inr ([], [])), leDatabase = ''db''\<rparr>"
  have l: "Load N = Inr (config_Default ''db'')" by (simp add: N_def Load_def loadLocal_def config_Default_def config_CurrentVersion_def)
  have "TrimSpace ''usb'' \<noteq> []" by code_simp
  then have ok: "endpoint_ok (DirectoryEndpoint ''usb'' ''/mnt'')" by (simp add: endpoint_ok_def DirectoryEndpoint_def endpoint_types_def)
  have "ceID (DirectoryEndpoint ''usb'' ''/mnt'') = ''usb''" by (simp add: DirectoryEndpoint_def)
  then show ?thesis
    using config_endpoints_invariant[OF l ok, THEN conjunct2, THEN conjunct2, THEN conjunct2, THEN conjunct1, of "''usb''"] by simp
qed

end
