(* ===== verification/Importers.thy ===== *)
theory Importers
  imports Rank Changes
begin

text \<open>
  The importers of other programs' histories (\<^verbatim>\<open>internal/importers\<close>): the line formats of zsh, bash and fish, and the rows of
  Atuin's database. A file is its contents; \<^verbatim>\<open>bufio.Scanner\<close> hands out its lines. The lower-case mapping of Unicode is a parameter.
\<close>

section \<open>Lines\<close>

text \<open>
  The scanner cuts at newlines, drops one carriage return before each, and stops with \<^verbatim>\<open>ErrTooLong\<close> at a line that does not fit
  its buffer of a mebibyte.
\<close>

definition maxLine :: nat where
  "maxLine = 1048576"

definition dropCR :: "string \<Rightarrow> string" where
  "dropCR l = (if l \<noteq> [] \<and> last l = CHR 0x0D then butlast l else l)"

definition raw_lines :: "string \<Rightarrow> string list" where
  "raw_lines data = (let ls = Split data (CHR 0x0A) in if last ls = [] then butlast ls else ls)"

definition scan_lines :: "string \<Rightarrow> string list \<times> go_error option" where
  "scan_lines data =
     (let ls = raw_lines data; ok = takeWhile (\<lambda>l. length l < maxLine) ls
      in (map dropCR ok, if length ok < length ls then Some (Errorf ''bufio.Scanner: token too long'') else None))"

text \<open>\<^verbatim>\<open>time.Unix(sec, 0)\<close>: the seconds are counted from the year 1 in 64 bits.\<close>

definition time_Unix :: "int \<Rightarrow> gotime" where
  "time_Unix sec = (wrap64 (sec + 62135596800) - 62135596800) * 1000000000"

section \<open>The formats\<close>

record import_record =
  irCommand :: string
  irStartTS :: gotime
  irDuration :: "int option"
  irExit :: "int option"
  irCwd :: string

definition zero_record :: import_record where
  "zero_record = \<lparr>irCommand = [], irStartTS = zero_time, irDuration = None, irExit = None, irCwd = []\<rparr>"

definition zsh_line :: "string \<Rightarrow> import_record option" where
  "zsh_line line =
     (if \<not> HasPrefix line '': ''
      then (if TrimSpace line = [] then None else Some (zero_record\<lparr>irCommand := line, irStartTS := time_Unix 0\<rparr>))
      else (case Cut (TrimPrefix line '': '') (CHR '';'') of
              (meta, cmd, False) \<Rightarrow> None
            | (meta, cmd, True) \<Rightarrow>
                (case Cut meta (CHR '':'') of (tsStr, durStr, found) \<Rightarrow>
                   Some (zero_record\<lparr>irCommand := cmd, irStartTS := time_Unix (Atoi_value (TrimSpace tsStr)),
                     irDuration := map_option (\<lambda>dur. wrap64 (dur * 1000)) (ParseInt (TrimSpace durStr))\<rparr>))))"

definition parseZsh :: "string \<Rightarrow> import_record list \<times> go_error option" where
  "parseZsh data = (case scan_lines data of (ls, err) \<Rightarrow> (List.map_filter zsh_line ls, err))"

text \<open>A comment line with a number is the time of the command after it.\<close>

definition bash_stamp :: "string \<Rightarrow> int option" where
  "bash_stamp line = (if HasPrefix line ''#'' then ParseInt (TrimPrefix line ''#'') else None)"

fun bash_loop :: "gotime option \<Rightarrow> string list \<Rightarrow> import_record list" where
  "bash_loop pending [] = []"
| "bash_loop pending (line # ls) =
     (case bash_stamp line of
        Some ts \<Rightarrow> bash_loop (Some (time_Unix ts)) ls
      | None \<Rightarrow>
          if TrimSpace line = [] then bash_loop pending ls
          else zero_record\<lparr>irCommand := line, irStartTS := (case pending of None \<Rightarrow> zero_time | Some t \<Rightarrow> t)\<rparr> # bash_loop None ls)"

definition parseBash :: "string \<Rightarrow> import_record list \<times> go_error option" where
  "parseBash data = (case scan_lines data of (ls, err) \<Rightarrow> (bash_loop None ls, err))"

definition fish_flush :: "import_record option \<Rightarrow> import_record list" where
  "fish_flush cur = (case cur of None \<Rightarrow> [] | Some r \<Rightarrow> if irCommand r \<noteq> [] then [r] else [])"

fun fish_loop :: "import_record option \<Rightarrow> string list \<Rightarrow> import_record list" where
  "fish_loop cur [] = fish_flush cur"
| "fish_loop cur (raw # ls) =
     (let line = TrimSpace raw
      in if HasPrefix line ''- cmd:''
         then fish_flush cur @ fish_loop (Some (zero_record\<lparr>irCommand := Trim (TrimSpace (TrimPrefix line ''- cmd:'')) (CHR 0x22)\<rparr>)) ls
         else (case cur of
                 None \<Rightarrow> fish_loop None ls
               | Some r \<Rightarrow>
                   if HasPrefix line ''when:''
                   then fish_loop (Some (r\<lparr>irStartTS := time_Unix (Atoi_value (TrimSpace (TrimPrefix line ''when:'')))\<rparr>)) ls
                   else if HasPrefix line ''paths:'' then fish_loop cur ls
                   else if HasPrefix line ''-'' \<and> irCwd r = []
                   then fish_loop (Some (r\<lparr>irCwd := Trim (TrimSpace (TrimPrefix line ''-'')) (CHR 0x22)\<rparr>)) ls
                   else fish_loop cur ls))"

definition parseFish :: "string \<Rightarrow> import_record list \<times> go_error option" where
  "parseFish data = (case scan_lines data of (ls, err) \<Rightarrow> (fish_loop None ls, err))"

definition ParseHistfile :: "(string \<Rightarrow> string) \<Rightarrow> string \<Rightarrow> string \<Rightarrow> import_record list \<times> go_error option" where
  "ParseHistfile ToLower data kind =
     (let k = ToLower kind
      in if k = ''zsh'' then parseZsh data
         else if k = ''bash'' then parseBash data
         else if k = ''fish'' then parseFish data
         else ([], Some (Errorf ''unknown histfile kind'')))"

definition DetectKind :: "(string \<Rightarrow> string) \<Rightarrow> string \<Rightarrow> string \<Rightarrow> string" where
  "DetectKind ToLower path firstLine =
     (let base = ToLower path
      in if Contains base ''fish'' then ''fish''
         else if Contains base ''zsh'' then ''zsh''
         else if Contains base ''bash'' then ''bash''
         else if HasPrefix (TrimSpace firstLine) '': '' then ''zsh''
         else if HasPrefix (TrimSpace firstLine) ''- cmd:'' then ''fish''
         else ''bash'')"

text \<open>\<^verbatim>\<open>ReadHistfile\<close> of a file that opens; the kind is guessed from the path and the first 128 bytes.\<close>

definition ReadHistfile :: "(string \<Rightarrow> string) \<Rightarrow> string result \<Rightarrow> string \<Rightarrow> string \<Rightarrow> import_record list \<times> go_error option" where
  "ReadHistfile ToLower file path kind =
     (case file of
        Inl err \<Rightarrow> ([], Some err)
      | Inr data \<Rightarrow>
          ParseHistfile ToLower data (if kind = [] \<or> kind = ''auto'' then DetectKind ToLower path (take 128 data) else kind))"

section \<open>Entries\<close>

definition import_entry :: "string \<Rightarrow> string \<Rightarrow> nat \<Rightarrow> import_record \<Rightarrow> entry" where
  "import_entry deviceID shell i r = zero_entry\<lparr>eCommand := irCommand r, eStartTS := (if irStartTS r = zero_time then time_Unix (int i) else irStartTS r),
     eCwd := irCwd r, eDeviceID := deviceID, eShell := shell, eDurationMs := irDuration r, eExitStatus := irExit r\<rparr>"

definition ToEntries :: "import_record list \<Rightarrow> string \<Rightarrow> string \<Rightarrow> entry list" where
  "ToEntries recs deviceID shell =
     map (\<lambda>(i, r). import_entry deviceID shell i r) (filter (\<lambda>(i, r). TrimSpace (irCommand r) \<noteq> []) (enumerate 0 recs))"

section \<open>Atuin\<close>

record atuin_row =
  arID :: string
  arTimestamp :: int
  arDuration :: int
  arExit :: int
  arCommand :: string
  arCwd :: string
  arSession :: string
  arHostname :: string

definition unixMaybeNano :: "int \<Rightarrow> gotime" where
  "unixMaybeNano ts = (if ts > 1000000000000 then ts else time_Unix ts)"

definition durationToMs :: "int \<Rightarrow> int" where
  "durationToMs d = (if d > 1000000 then d div 1000000 else d)"

definition atuin_entry :: "string \<Rightarrow> atuin_row \<Rightarrow> entry" where
  "atuin_entry deviceID r = zero_entry\<lparr>eID := arID r, eCommand := arCommand r, eStartTS := unixMaybeNano (arTimestamp r),
     eDurationMs := Some (durationToMs (arDuration r)), eExitStatus := Some (arExit r), eCwd := arCwd r, eSessionID := arSession r,
     eHostname := arHostname r, eDeviceID := deviceID, eShell := ''atuin''\<rparr>"

text \<open>The rows of the query, each read or with the error of reading it.\<close>

fun ImportAtuin :: "string \<Rightarrow> atuin_row result list \<Rightarrow> entry list result" where
  "ImportAtuin deviceID [] = Inr []"
| "ImportAtuin deviceID (row # rows) =
     bind_result row (\<lambda>r. bind_result (ImportAtuin deviceID rows) (\<lambda>es.
       Inr (if TrimSpace (arCommand r) = [] then es else atuin_entry deviceID r # es)))"

section \<open>Reading back what a shell wrote\<close>

text \<open>What zsh with extended history and bash with time stamps write for a command of one line.\<close>

definition zsh_print :: "string \<times> nat \<times> nat \<Rightarrow> string" where
  "zsh_print = (\<lambda>(cmd, ts, dur). '': '' @ show_nat ts @ '':'' @ show_nat dur @ '';'' @ cmd @ [CHR 0x0A])"

definition bash_print :: "string \<times> nat \<Rightarrow> string" where
  "bash_print = (\<lambda>(cmd, ts). ''#'' @ show_nat ts @ [CHR 0x0A] @ cmd @ [CHR 0x0A])"

definition one_line :: "string \<Rightarrow> bool" where
  "one_line cmd = (CHR 0x0A \<notin> set cmd \<and> (cmd = [] \<or> last cmd \<noteq> CHR 0x0D) \<and> length cmd < 1000000)"

lemma TrimSpace_digits: "list_all (\<lambda>c. digit_val c \<noteq> None) s \<Longrightarrow> TrimSpace s = s"
proof -
  assume d: "list_all (\<lambda>c. digit_val c \<noteq> None) s"
  have c: "48 \<le> (of_char c :: int) \<and> (of_char c :: int) \<le> 57" if "c \<in> set s" for c
  proof -
    have "48 \<le> (of_char c :: nat)" "(of_char c :: nat) \<le> 57"
      using d that by (auto simp: list_all_iff digit_val_def Let_def split: if_splits)
    then have "48 \<le> int (of_char c)" "int (of_char c) \<le> 57" by linarith+
    then show ?thesis by (simp add: of_nat_of_char)
  qed
  have "\<not> IsSpace (of_char c)" if "c \<in> set s" for c using c[OF that] by (simp add: IsSpace_def)
  then show ?thesis using c by (intro TrimSpace_ascii) (fastforce simp: list_all_iff)
qed

lemma digits_show: "list_all (\<lambda>c. digit_val c \<noteq> None) (show_nat n)"
proof -
  have "digit_val c \<noteq> None" if "c \<in> set (show_nat n)" for c
  proof -
    have "c \<in> digit_char ` {..<10}" using set_show_nat[of n] that by blast
    then show ?thesis by auto
  qed
  then show ?thesis by (simp add: list_all_iff)
qed

lemma show_nat_no: "digit_val c = None \<Longrightarrow> c \<notin> set (show_nat n)"
  using digits_show[of n] by (auto simp: list_all_iff)

lemma no_digit [simp]: "digit_val (CHR '':'') = None" "digit_val (CHR '';'') = None" "digit_val (CHR 0x0A) = None" "digit_val (CHR 0x0D) = None"
    "digit_val (CHR ''-'') = None" "digit_val (CHR ''+'') = None"
  by (simp_all add: digit_val_def)

lemmas show_nat_clean [simp] = no_digit[THEN show_nat_no]

lemma show_nat_sign: "hd (show_nat n) \<noteq> CHR ''-''" "hd (show_nat n) \<noteq> CHR ''+''"
  using hd_in_set[OF show_nat_not_Nil[of n]] by (metis show_nat_clean)+

lemma Atoi_show_nat: "n < 2 ^ 63 \<Longrightarrow> Atoi_value (show_nat n) = int n"
proof -
  assume "n < 2 ^ 63"
  then have "int n < int (2 ^ 63)" by (simp only: of_nat_less_iff)
  then have "int n \<le> 2 ^ 63 - 1" by simp
  then show ?thesis using show_nat_sign[of n] by (simp add: Atoi_value_def Let_def parse_show_nat)
qed

lemma ParseInt_show_nat: "n < 2 ^ 63 \<Longrightarrow> ParseInt (show_nat n) = Some (int n)"
proof -
  assume n: "n < 2 ^ 63"
  then have "int n < int (2 ^ 63)" by (simp only: of_nat_less_iff)
  then have "int n < 2 ^ 63" by simp
  then show ?thesis using ParseInt_show_int[of "int n"] by (simp add: show_int_def)
qed

lemma time_Unix_small: "0 \<le> s \<Longrightarrow> s < 2 ^ 62 \<Longrightarrow> time_Unix s = s * 1000000000"
proof -
  assume "0 \<le> s" "s < 2 ^ 62"
  then have "wrap64 (s + 62135596800) = s + 62135596800" by (intro wrap64_id) simp_all
  then show ?thesis by (simp add: time_Unix_def)
qed

lemma Split_lines: "list_all (\<lambda>l. CHR 0x0A \<notin> set l) ls \<Longrightarrow> Split (concat (map (\<lambda>l. l @ [CHR 0x0A]) ls)) (CHR 0x0A) = ls @ [[]]"
  by (induction ls) (simp_all add: Split_append_sep)

definition good_line :: "string \<Rightarrow> bool" where
  "good_line l = (CHR 0x0A \<notin> set l \<and> (l = [] \<or> last l \<noteq> CHR 0x0D) \<and> length l < maxLine)"

lemma scan_lines_written:
  assumes "list_all good_line ls"
  shows "scan_lines (concat (map (\<lambda>l. l @ [CHR 0x0A]) ls)) = (ls, None)"
proof -
  have "list_all (\<lambda>l. CHR 0x0A \<notin> set l) ls" using assms by (simp add: list_all_iff good_line_def)
  then have r: "raw_lines (concat (map (\<lambda>l. l @ [CHR 0x0A]) ls)) = ls" by (simp add: raw_lines_def Split_lines)
  have t: "takeWhile (\<lambda>l. length l < maxLine) ls = ls" using assms by (auto simp: takeWhile_eq_all_conv list_all_iff good_line_def)
  have "map dropCR ls = ls" using assms by (intro map_idI) (auto simp: list_all_iff good_line_def dropCR_def)
  then show ?thesis unfolding scan_lines_def r Let_def t by simp
qed

definition zsh_record :: "string \<times> nat \<times> nat \<Rightarrow> import_record" where
  "zsh_record = (\<lambda>(cmd, ts, dur). zero_record\<lparr>irCommand := cmd, irStartTS := int ts * 1000000000, irDuration := Some (int dur * 1000)\<rparr>)"

definition bash_record :: "string \<times> nat \<Rightarrow> import_record" where
  "bash_record = (\<lambda>(cmd, ts). zero_record\<lparr>irCommand := cmd, irStartTS := int ts * 1000000000\<rparr>)"

definition zsh_ok :: "string \<times> nat \<times> nat \<Rightarrow> bool" where
  "zsh_ok = (\<lambda>(cmd, ts, dur). one_line cmd \<and> ts < 10 ^ 18 \<and> dur < 10 ^ 15)"

definition bash_ok :: "string \<times> nat \<Rightarrow> bool" where
  "bash_ok = (\<lambda>(cmd, ts). one_line cmd \<and> ts < 10 ^ 18 \<and> TrimSpace cmd \<noteq> [] \<and> bash_stamp cmd = None)"

lemma length_show_nat_le: "n < 10 ^ k \<Longrightarrow> 0 < k \<Longrightarrow> length (show_nat n) \<le> k"
proof (induction k arbitrary: n)
  case (Suc k)
  show ?case
  proof (cases "n < 10")
    case True
    then show ?thesis by (simp add: show_nat.simps[of n])
  next
    case False
    then have "n div 10 < 10 ^ k" using Suc.prems by (simp add: less_mult_imp_div_less mult.commute)
    moreover have "0 < k" using False Suc.prems by (cases k) auto
    ultimately have "length (show_nat (n div 10)) \<le> k" using Suc.IH[of "n div 10"] by blast
    then show ?thesis using False by (simp add: show_nat.simps[of n])
  qed
qed simp

lemma Cut_at: "c \<notin> set p \<Longrightarrow> Cut (p @ c # q) c = (p, q, True)"
  by (simp add: Cut_def takeWhile_append dropWhile_append)

lemma zsh_line_print:
  assumes "zsh_ok x"
  shows "zsh_line ('': '' @ show_nat (fst (snd x)) @ '':'' @ show_nat (snd (snd x)) @ '';'' @ fst x) = Some (zsh_record x)"
proof -
  obtain cmd ts dur where x: "x = (cmd, ts, dur)" by (metis prod_cases3)
  have ts: "ts < 2 ^ 62" "ts < 2 ^ 63" and dur: "dur < 2 ^ 63" "int dur * 1000 < 2 ^ 63"
    using assms by (auto simp: zsh_ok_def x)
  have "Cut (show_nat ts @ CHR '':'' # show_nat dur @ CHR '';'' # cmd) (CHR '';'') = (show_nat ts @ CHR '':'' # show_nat dur, cmd, True)"
    using Cut_at[of "CHR '';''" "show_nat ts @ CHR '':'' # show_nat dur" cmd] by simp
  moreover have "Cut (show_nat ts @ CHR '':'' # show_nat dur) (CHR '':'') = (show_nat ts, show_nat dur, True)"
    by (rule Cut_at) simp
  moreover have "time_Unix (int ts) = int ts * 1000000000"
    by (rule time_Unix_small) (use ts(1) in \<open>simp_all flip: of_nat_less_iff\<close>)
  moreover have "wrap64 (int dur * 1000) = int dur * 1000" using dur(2) by (intro wrap64_id) simp_all
  ultimately show ?thesis
    by (simp add: x zsh_line_def HasPrefix_def TrimPrefix_def TrimSpace_digits[OF digits_show] Atoi_show_nat[OF ts(2)] ParseInt_show_nat[OF dur(1)] zsh_record_def)
qed

lemma last_show_nat: "last (show_nat n) \<noteq> CHR 0x0D"
  using last_in_set[OF show_nat_not_Nil[of n]] by (metis show_nat_clean(4))

lemma bash_loop_print:
  assumes "list_all bash_ok xs"
  shows "bash_loop None (concat (map (\<lambda>(cmd, ts). [''#'' @ show_nat ts, cmd]) xs)) = map bash_record xs"
  using assms
proof (induction xs)
  case (Cons x xs)
  obtain cmd ts where x: "x = (cmd, ts)" by fastforce
  have ts: "ts < 2 ^ 62" "ts < 2 ^ 63" and c: "bash_stamp cmd = None" "TrimSpace cmd \<noteq> []" using Cons.prems by (auto simp: bash_ok_def x)
  have "bash_stamp (''#'' @ show_nat ts) = Some (int ts)" by (simp add: bash_stamp_def HasPrefix_def TrimPrefix_def ParseInt_show_nat[OF ts(2)])
  moreover have "time_Unix (int ts) = int ts * 1000000000"
    by (rule time_Unix_small) (use ts(1) in \<open>simp_all flip: of_nat_less_iff\<close>)
  ultimately show ?case using Cons c by (simp add: x bash_record_def)
qed simp



section \<open>A divergence\<close>

text \<open>Durations are taken for nanoseconds only above a million: a millisecond becomes a quarter of an hour, two milliseconds become two.\<close>

theorem short_durations_misread: "durationToMs 1000000 = 1000000 \<and> durationToMs 2000000 = 2"
  by (simp add: durationToMs_def)

end
