(* ===== verification/Advanced.thy ===== *)
theory Advanced
  imports Query
begin

text \<open>
  The search by regular expressions (\<^verbatim>\<open>internal/history/advanced.go\<close>). The filter has two implementations: \<^verbatim>\<open>Match\<close> on an entry, and
  the one on the database, which resolves each expression to the ids of the interned strings it matches and puts these into the SQL.
  The theory shows when they agree, and that the summaries the SQL counts are those \<^verbatim>\<open>SummarizeRuns\<close> counts from the matching runs.
  A compiled expression is its text and the predicate \<^verbatim>\<open>MatchString\<close>.
\<close>

section \<open>Filters on entries\<close>

record regexp =
  rxString :: string
  rxMatchString :: "string \<Rightarrow> bool"

record advanced_filter =
  afCommandRE :: "regexp option"
  afCommandNeedle :: string
  afCwdRE :: "regexp option"
  afHostRE :: "regexp option"
  afShellRE :: "regexp option"
  afSessionRE :: "regexp option"
  afDeviceRE :: "regexp option"
  afExitRE :: "regexp option"
  afExitFailed :: bool
  afExit :: "int option"
  afSince :: "gotime option"
  afUntil :: "gotime option"
  afSort :: summary_sort
  afLimit :: int

definition Active :: "advanced_filter \<Rightarrow> bool" where
  "Active f \<longleftrightarrow> afCommandRE f \<noteq> None \<or> afCommandNeedle f \<noteq> [] \<or> afCwdRE f \<noteq> None \<or> afHostRE f \<noteq> None \<or> afShellRE f \<noteq> None
     \<or> afSessionRE f \<noteq> None \<or> afDeviceRE f \<noteq> None \<or> afExitRE f \<noteq> None \<or> afExitFailed f \<or> afExit f \<noteq> None
     \<or> afSince f \<noteq> None \<or> afUntil f \<noteq> None"

definition meta_char :: "char \<Rightarrow> bool" where
  "meta_char c \<longleftrightarrow> c = CHR 0x5C \<or> c \<in> set ''.*+?|()[]{}^$''"

text \<open>\<^verbatim>\<open>QuoteMeta\<close> changes a pattern exactly when it holds one of these characters.\<close>

definition RegexLiteralPrefix :: "string \<Rightarrow> string" where
  "RegexLiteralPrefix pat =
     (if pat = [] then [] else if list_all (\<lambda>c. \<not> meta_char c) pat then pat else takeWhile (\<lambda>c. \<not> meta_char c) pat)"

definition re_ok :: "regexp option \<Rightarrow> string \<Rightarrow> bool" where
  "re_ok re s = (case re of None \<Rightarrow> True | Some r \<Rightarrow> rxMatchString r s)"

definition Match :: "advanced_filter \<Rightarrow> entry \<Rightarrow> bool" where
  "Match f e \<longleftrightarrow> \<not> eDeleted e \<and> re_ok (afCommandRE f) (eCommand e) \<and> re_ok (afCwdRE f) (eCwd e) \<and> re_ok (afHostRE f) (eHostname e)
     \<and> re_ok (afShellRE f) (eShell e) \<and> re_ok (afSessionRE f) (eSessionID e) \<and> re_ok (afDeviceRE f) (eDeviceID e)
     \<and> (afExitFailed f \<longrightarrow> (case eExitStatus e of None \<Rightarrow> False | Some x \<Rightarrow> x \<noteq> 0))
     \<and> (case afExit f of None \<Rightarrow> True | Some x \<Rightarrow> eExitStatus e = Some x)
     \<and> (case afExitRE f of None \<Rightarrow> True | Some re \<Rightarrow> (case eExitStatus e of None \<Rightarrow> False | Some x \<Rightarrow> rxMatchString re (show_int x)))
     \<and> (case afSince f of None \<Rightarrow> True | Some t \<Rightarrow> \<not> eStartTS e < t)
     \<and> (case afUntil f of None \<Rightarrow> True | Some t \<Rightarrow> \<not> eStartTS e > t)"

definition FilterEntries :: "entry list \<Rightarrow> advanced_filter \<Rightarrow> entry list" where
  "FilterEntries es f = (if Active f then filter (Match f) es else filter (\<lambda>e. \<not> eDeleted e) es)"

text \<open>One round of the loop of \<^verbatim>\<open>SummarizeRuns\<close>; the flag is \<^verbatim>\<open>i == 0\<close>, where the old value of \<^verbatim>\<open>last\<close> is not read.\<close>

definition summarize_run :: "bool \<Rightarrow> entry \<Rightarrow> command_summary \<times> entry \<Rightarrow> command_summary \<times> entry" where
  "summarize_run initial e = (\<lambda>(cs, lst).
     let cs1 = cs\<lparr>smRuns := smRuns cs + 1,
           smSuccess := smSuccess cs + (if eExitStatus e = Some 0 then 1 else 0),
           smFailed := smFailed cs + (case eExitStatus e of None \<Rightarrow> 0 | Some x \<Rightarrow> if x = 0 then 0 else 1)\<rparr>;
         cs2 = (if initial \<or> eStartTS e < smFirstTS cs then cs1\<lparr>smFirstTS := eStartTS e\<rparr> else cs1)
     in if initial \<or> eStartTS e > smLastTS cs \<or> eStartTS e = smLastTS cs \<and> eID e > eID lst
        then (cs2\<lparr>smLastTS := eStartTS e\<rparr>, e) else (cs2, lst))"

definition zero_summary :: "string \<Rightarrow> command_summary" where
  "zero_summary c = \<lparr>smCommand = c, smRuns = 0, smSuccess = 0, smFailed = 0, smFirstTS = zero_time, smLastTS = zero_time, smLastExit = None,
     smLastCwd = [], smLastHost = [], smLastDurationMs = None\<rparr>"

fun SummarizeRuns :: "string \<Rightarrow> entry list \<Rightarrow> command_summary" where
  "SummarizeRuns c [] = zero_summary c"
| "SummarizeRuns c (e # es) =
     (case fold (summarize_run False) es (summarize_run True e (zero_summary c, e)) of (cs, lst) \<Rightarrow>
        cs\<lparr>smLastCwd := eCwd lst, smLastHost := eHostname lst, smLastExit := eExitStatus lst, smLastDurationMs := eDurationMs lst\<rparr>)"

section \<open>Filters on rows\<close>

record column_match =
  cmSet :: bool
  cmIds :: "int list"
  cmAllowNil :: bool
  cmNotNil :: bool

record string_match =
  smtSet :: bool
  smtVals :: "string list"
  smtAllowNil :: bool
  smtNotNil :: bool

record int_match =
  imSet :: bool
  imVals :: "int list"
  imAllowNil :: bool

definition column_impossible :: "column_match \<Rightarrow> bool" where
  "column_impossible m \<longleftrightarrow> cmSet m \<and> cmIds m = [] \<and> \<not> cmAllowNil m"

definition string_impossible :: "string_match \<Rightarrow> bool" where
  "string_impossible m \<longleftrightarrow> smtSet m \<and> smtVals m = [] \<and> \<not> smtAllowNil m"

definition int_impossible :: "int_match \<Rightarrow> bool" where
  "int_impossible m \<longleftrightarrow> imSet m \<and> imVals m = [] \<and> \<not> imAllowNil m"

definition resolveIntern :: "intern_table \<Rightarrow> regexp \<Rightarrow> column_match" where
  "resolveIntern t re =
     (let ids = map fst (filter (\<lambda>(i, v). rxMatchString re v) t); allowNil = rxMatchString re []
      in if length t > 0 \<and> length ids = length t
         then (if allowNil then \<lparr>cmSet = False, cmIds = [], cmAllowNil = True, cmNotNil = False\<rparr>
               else \<lparr>cmSet = True, cmIds = [], cmAllowNil = False, cmNotNil = True\<rparr>)
         else \<lparr>cmSet = True, cmIds = ids, cmAllowNil = allowNil, cmNotNil = False\<rparr>)"

text \<open>The values are those of \<^verbatim>\<open>SELECT DISTINCT device_id FROM history\<close>, a column that is never \<^verbatim>\<open>NULL\<close>.\<close>

definition resolveStrings :: "string list \<Rightarrow> regexp \<Rightarrow> string_match" where
  "resolveStrings rows re =
     (let vals = filter (rxMatchString re) rows; allowNil = rxMatchString re []
      in if length rows > 0 \<and> length vals = length rows
         then (if allowNil then \<lparr>smtSet = False, smtVals = [], smtAllowNil = True, smtNotNil = False\<rparr>
               else \<lparr>smtSet = True, smtVals = [], smtAllowNil = False, smtNotNil = True\<rparr>)
         else \<lparr>smtSet = True, smtVals = vals, smtAllowNil = allowNil, smtNotNil = False\<rparr>)"

definition resolveExits :: "int option list \<Rightarrow> regexp \<Rightarrow> int_match" where
  "resolveExits rows re =
     (let vals = filter (\<lambda>x. rxMatchString re (show_int x)) (List.map_filter id rows); allowNil = rxMatchString re []
      in if length rows > 0 \<and> length vals = length rows \<and> allowNil
         then \<lparr>imSet = False, imVals = [], imAllowNil = True\<rparr>
         else \<lparr>imSet = True, imVals = vals, imAllowNil = allowNil\<rparr>)"

record resolved_advanced =
  raImpossible :: bool
  raCommandNeedle :: string
  raExitFailed :: bool
  raExit :: "int option"
  raSince :: "gotime option"
  raUntil :: "gotime option"
  raCwd :: column_match
  raHost :: column_match
  raShell :: column_match
  raSession :: column_match
  raDevice :: string_match
  raExits :: int_match

definition column_of :: "intern_table \<Rightarrow> regexp option \<Rightarrow> column_match" where
  "column_of t re = (case re of None \<Rightarrow> \<lparr>cmSet = False, cmIds = [], cmAllowNil = False, cmNotNil = False\<rparr> | Some r \<Rightarrow> resolveIntern t r)"

text \<open>A field that is impossible ends the method; the fields after it are resolved here too, and nothing reads them then.\<close>

definition resolveAdvanced :: "db \<Rightarrow> advanced_filter \<Rightarrow> resolved_advanced" where
  "resolveAdvanced d f =
     (let cwd = column_of (intern_cwd d) (afCwdRE f); host = column_of (intern_hostname d) (afHostRE f);
          shell = column_of (intern_shell d) (afShellRE f); session = column_of (intern_session d) (afSessionRE f);
          device = (case afDeviceRE f of None \<Rightarrow> \<lparr>smtSet = False, smtVals = [], smtAllowNil = False, smtNotNil = False\<rparr>
                    | Some re \<Rightarrow> resolveStrings (remdups (map h_device_id (history d))) re);
          exits = (case afExitRE f of None \<Rightarrow> \<lparr>imSet = False, imVals = [], imAllowNil = False\<rparr>
                   | Some re \<Rightarrow> resolveExits (remdups (map h_exit_status (filter (\<lambda>r. \<not> h_deleted r) (history d)))) re)
      in \<lparr>raImpossible = column_impossible cwd \<or> column_impossible host \<or> column_impossible shell \<or> column_impossible session
            \<or> string_impossible device \<or> int_impossible exits,
          raCommandNeedle = afCommandNeedle f, raExitFailed = afExitFailed f, raExit = afExit f, raSince = afSince f, raUntil = afUntil f,
          raCwd = cwd, raHost = host, raShell = shell, raSession = session, raDevice = device, raExits = exits\<rparr>)"

definition appendColumn :: "column_match \<Rightarrow> int option \<Rightarrow> bool" where
  "appendColumn c v =
     (if \<not> cmSet c then True
      else if cmNotNil c then v \<noteq> None
      else if cmIds c = [] \<and> cmAllowNil c then v = None
      else if cmAllowNil c then v \<in> Some ` set (cmIds c) \<or> v = None
      else v \<in> Some ` set (cmIds c))"

definition appendStrings :: "string_match \<Rightarrow> string \<Rightarrow> bool" where
  "appendStrings c v =
     (if \<not> smtSet c then True
      else if smtNotNil c then v \<noteq> []
      else if smtVals c = [] \<and> smtAllowNil c then v = []
      else if smtAllowNil c then v \<in> set (smtVals c) \<or> v = []
      else v \<in> set (smtVals c))"

definition appendInts :: "int_match \<Rightarrow> int option \<Rightarrow> bool" where
  "appendInts c v =
     (if \<not> imSet c then True
      else if imVals c = [] \<and> imAllowNil c then v = None
      else if imAllowNil c then v \<in> Some ` set (imVals c) \<or> v = None
      else v \<in> Some ` set (imVals c))"

definition advanced_predicates :: "resolved_advanced \<Rightarrow> hist_row \<Rightarrow> bool" where
  "advanced_predicates r x \<longleftrightarrow>
     appendColumn (raCwd r) (h_cwd_id x) \<and> appendColumn (raHost r) (h_hostname_id x) \<and> appendColumn (raShell r) (h_shell_id x)
     \<and> appendColumn (raSession r) (h_session_id x) \<and> appendStrings (raDevice r) (h_device_id x) \<and> appendInts (raExits r) (h_exit_status x)
     \<and> (raExitFailed r \<longrightarrow> failed_run x)
     \<and> (case raExit r of None \<Rightarrow> True | Some v \<Rightarrow> h_exit_status x = Some v)
     \<and> (case raSince r of None \<Rightarrow> True | Some t \<Rightarrow> h_start_ts x \<ge> UnixMilli t)
     \<and> (case raUntil r of None \<Rightarrow> True | Some t \<Rightarrow> h_start_ts x \<le> UnixMilli t)
     \<and> (raCommandNeedle r \<noteq> [] \<longrightarrow> Contains (sql_lower (h_command x)) (sql_lower (raCommandNeedle r)))"

definition advanced_live :: "resolved_advanced \<Rightarrow> hist_row \<Rightarrow> bool" where
  "advanced_live r x \<longleftrightarrow> \<not> h_deleted x \<and> advanced_predicates r x"

definition in_group :: "resolved_advanced \<Rightarrow> bytes \<Rightarrow> hist_row \<Rightarrow> bool" where
  "in_group r hash x \<longleftrightarrow> advanced_live r x \<and> h_command_hash x = hash"

definition advanced_group :: "db \<Rightarrow> resolved_advanced \<Rightarrow> bytes \<Rightarrow> hist_row list" where
  "advanced_group d r hash = filter (in_group r hash) (history d)"

definition advanced_summary :: "db \<Rightarrow> resolved_advanced \<Rightarrow> hist_row \<Rightarrow> command_summary" where
  "advanced_summary d r x =
     (let g = advanced_group d r (h_command_hash x); ts = map h_start_ts g
      in \<lparr>smCommand = h_command x, smRuns = count_rows (\<lambda>_. True) g, smSuccess = count_rows (\<lambda>y. h_exit_status y = Some 0) g,
          smFailed = count_rows failed_run g, smFirstTS = ofMilli (fold min ts (hd ts)), smLastTS = ofMilli (fold max ts (hd ts)),
          smLastExit = h_exit_status x, smLastCwd = intern_value (intern_cwd d) (h_cwd_id x),
          smLastHost = intern_value (intern_hostname d) (h_hostname_id x), smLastDurationMs = h_duration_ms x\<rparr>)"

definition superseded :: "resolved_advanced \<Rightarrow> hist_row \<Rightarrow> hist_row \<Rightarrow> bool" where
  "superseded r x x2 \<longleftrightarrow> in_group r (h_command_hash x) x2 \<and> newer x2 x"

definition advanced_row :: "db \<Rightarrow> resolved_advanced \<Rightarrow> summary_sort \<Rightarrow> hist_row \<Rightarrow> bool" where
  "advanced_row d r srt x \<longleftrightarrow> advanced_live r x \<and> advanced_group d r (h_command_hash x) \<noteq> []
     \<and> (srt = SortFailed \<longrightarrow> count_rows failed_run (advanced_group d r (h_command_hash x)) > 0)
     \<and> \<not> list_ex (superseded r x) (history d)"

definition advanced_rows :: "db \<Rightarrow> resolved_advanced \<Rightarrow> summary_sort \<Rightarrow> hist_row list" where
  "advanced_rows d r srt = filter (advanced_row d r srt) (history d)"

definition with_needle :: "advanced_filter \<Rightarrow> advanced_filter" where
  "with_needle f =
     (case afCommandRE f of
        None \<Rightarrow> f
      | Some re \<Rightarrow> if afCommandNeedle f = [] then f\<lparr>afCommandNeedle := RegexLiteralPrefix (rxString re)\<rparr> else f)"

definition CommandSummariesAdvanced :: "db \<Rightarrow> advanced_filter \<Rightarrow> command_summary list" where
  "CommandSummariesAdvanced d f0 =
     (let f = with_needle f0
      in if \<not> Active f then CommandSummaries d \<lparr>sfQuery = [], sfSort = afSort f, sfLimit = afLimit f\<rparr>
         else (let r = resolveAdvanced d f
               in if raImpossible r then []
                  else (let out = limit_rows (afLimit f) (sort_by (summary_before (afSort f)) (map (advanced_summary d r) (advanced_rows d r (afSort f))))
                        in case afCommandRE f of
                             None \<Rightarrow> out
                           | Some re \<Rightarrow> limit_rows (afLimit f) (filter (\<lambda>cs. rxMatchString re (smCommand cs)) out))))"

definition ListByCommandMatching :: "db \<Rightarrow> string \<Rightarrow> advanced_filter \<Rightarrow> entry list" where
  "ListByCommandMatching d command f =
     (if command = [] \<or> \<not> re_ok (afCommandRE f) command then []
      else if \<not> Active f then ListByCommand d command
      else (let r = resolveAdvanced d f
            in if raImpossible r then []
               else scanEntries d (sort_by newer (filter (\<lambda>x. \<not> h_deleted x \<and> h_command x = command \<and> advanced_predicates r x) (history d)))))"

section \<open>When the two agree\<close>

text \<open>
  An expression that matches every stored value but not the empty string is resolved to \<^verbatim>\<open>notNil\<close> without ids, which
  \<^verbatim>\<open>impossible\<close> takes for no match at all; \<^verbatim>\<open>Match\<close> never accepts a run without exit status for an expression, while the SQL does when it
  matches the empty string; times before the millisecond are cut off; and the literal start of an expression need not occur in
  what it matches. The filters without these cases:
\<close>

definition selective :: "regexp option \<Rightarrow> string list \<Rightarrow> bool" where
  "selective re vals = (case re of None \<Rightarrow> True | Some r \<Rightarrow> vals = [] \<or> rxMatchString r [] \<or> \<not> list_all (rxMatchString r) vals)"

definition needle_sound :: "advanced_filter \<Rightarrow> string \<Rightarrow> bool" where
  "needle_sound f c \<longleftrightarrow> (re_ok (afCommandRE f) c \<longrightarrow> afCommandNeedle f = [] \<or> Contains (sql_lower c) (sql_lower (afCommandNeedle f)))"

definition faithful :: "db \<Rightarrow> advanced_filter \<Rightarrow> bool" where
  "faithful d f \<longleftrightarrow> selective (afCwdRE f) (map snd (intern_cwd d)) \<and> selective (afHostRE f) (map snd (intern_hostname d))
     \<and> selective (afShellRE f) (map snd (intern_shell d)) \<and> selective (afSessionRE f) (map snd (intern_session d))
     \<and> selective (afDeviceRE f) (map h_device_id (history d))
     \<and> (case afExitRE f of None \<Rightarrow> True | Some re \<Rightarrow> \<not> rxMatchString re [])
     \<and> (case afSince f of None \<Rightarrow> True | Some t \<Rightarrow> t mod 1000000 = 0)
     \<and> list_all (\<lambda>x. needle_sound (with_needle f) (h_command x)) (history d)"

subsection \<open>One column\<close>

lemma column_agrees:
  assumes ok: "intern_ok t" "intern_known t v" and "selective re (map snd t)"
  shows "re_ok re (intern_value t v) \<longleftrightarrow> \<not> column_impossible (column_of t re) \<and> appendColumn (column_of t re) v"
proof (cases re)
  case (Some r)
  have mem: "v \<in> Some ` set (map fst (filter (\<lambda>(i, w). rxMatchString r w) t)) \<longleftrightarrow> v \<noteq> None \<and> rxMatchString r (intern_value t v)"
  proof (cases v)
    case (Some k)
    then obtain w where w: "(k, w) \<in> set t" using ok(2) by (auto simp: intern_known_def)
    have one: "w' = w" if "(k, w') \<in> set t" for w'
      using ok(1) eq_key_imp_eq_value[OF _ that w] by (simp add: intern_ok_def)
    have "k \<in> set (map fst (filter (\<lambda>(i, w). rxMatchString r w) t)) \<longleftrightarrow> (\<exists>w'. (k, w') \<in> set t \<and> rxMatchString r w')"
      by (auto simp: image_iff Bex_def)
    then have "k \<in> set (map fst (filter (\<lambda>(i, w). rxMatchString r w) t)) \<longleftrightarrow> rxMatchString r w" using w one by blast
    moreover have "intern_value t v = w" using ok(1) w Some by (simp add: intern_value_mem)
    ultimately show ?thesis using Some by (auto simp: image_iff)
  qed auto
  have all: "length (filter (\<lambda>(i, w). rxMatchString r w) t) = length t \<longleftrightarrow> list_all (rxMatchString r) (map snd t)"
    by (simp add: length_filter_all list_all_iff split_beta)
  have value_in: "rxMatchString r (intern_value t v)" if "list_all (rxMatchString r) (map snd t)" "rxMatchString r []"
  proof (cases v)
    case (Some k)
    then obtain w where "(k, w) \<in> set t" using ok(2) by (auto simp: intern_known_def)
    then show ?thesis using that(1) ok(1) Some by (force simp: intern_value_mem list_all_iff)
  qed (use that in \<open>simp add: intern_value_def\<close>)
  have none: "intern_value t None = []" by (simp add: intern_value_def)
  show ?thesis
  proof (cases "t \<noteq> [] \<and> list_all (rxMatchString r) (map snd t)")
    case True
    then have "rxMatchString r []" using assms(3) Some by (simp add: selective_def)
    then show ?thesis using True Some all value_in
      by (simp add: re_ok_def column_of_def resolveIntern_def Let_def column_impossible_def appendColumn_def)
  next
    case False
    then have c: "column_of t re = \<lparr>cmSet = True, cmIds = map fst (filter (\<lambda>(i, w). rxMatchString r w) t), cmAllowNil = rxMatchString r [], cmNotNil = False\<rparr>"
      using Some all by (auto simp: column_of_def resolveIntern_def Let_def)
    define ids where "ids = map fst (filter (\<lambda>(i, w). rxMatchString r w) t)"
    have "v \<in> Some ` set ids \<longleftrightarrow> v \<noteq> None \<and> rxMatchString r (intern_value t v)" using mem by (simp only: ids_def)
    then show ?thesis
      unfolding c ids_def[symmetric] column_impossible_def appendColumn_def using none Some
      by (cases v) (auto simp: re_ok_def)
  qed
qed (simp add: re_ok_def column_of_def column_impossible_def appendColumn_def)

lemma device_agrees:
  assumes "v \<in> set vals" "selective re vals"
  shows "re_ok re v \<longleftrightarrow>
     (let m = (case re of None \<Rightarrow> \<lparr>smtSet = False, smtVals = [], smtAllowNil = False, smtNotNil = False\<rparr> | Some r \<Rightarrow> resolveStrings (remdups vals) r)
      in \<not> string_impossible m \<and> appendStrings m v)"
proof (cases re)
  case (Some r)
  have ne: "remdups vals \<noteq> []" using assms(1) by auto
  show ?thesis
  proof (cases "list_all (rxMatchString r) vals")
    case True
    then have "rxMatchString r []" "rxMatchString r v" using assms Some by (auto simp: selective_def list_all_iff)
    then show ?thesis using True Some ne
      by (simp add: re_ok_def resolveStrings_def Let_def length_filter_all list_all_iff string_impossible_def appendStrings_def)
  next
    case False
    then have c: "resolveStrings (remdups vals) r = \<lparr>smtSet = True, smtVals = filter (rxMatchString r) (remdups vals), smtAllowNil = rxMatchString r [], smtNotNil = False\<rparr>"
      by (simp add: resolveStrings_def Let_def length_filter_all list_all_iff)
    define xs where "xs = filter (rxMatchString r) (remdups vals)"
    have "v \<in> set xs \<longleftrightarrow> rxMatchString r v" using assms(1) by (simp add: xs_def)
    then show ?thesis
      using Some by (auto simp: c xs_def[symmetric] Let_def string_impossible_def appendStrings_def re_ok_def)
  qed
qed (simp add: re_ok_def Let_def string_impossible_def appendStrings_def)

lemma exit_agrees:
  assumes "v \<in> set vals" "case re of None \<Rightarrow> True | Some r \<Rightarrow> \<not> rxMatchString r []"
  shows "(case re of None \<Rightarrow> True | Some r \<Rightarrow> (case v of None \<Rightarrow> False | Some x \<Rightarrow> rxMatchString r (show_int x))) \<longleftrightarrow>
     (let m = (case re of None \<Rightarrow> \<lparr>imSet = False, imVals = [], imAllowNil = False\<rparr> | Some r \<Rightarrow> resolveExits (remdups vals) r)
      in \<not> int_impossible m \<and> appendInts m v)"
proof (cases re)
  case (Some r)
  define xs where "xs = filter (\<lambda>x. rxMatchString r (show_int x)) (List.map_filter id (remdups vals))"
  have "v \<in> Some ` set xs \<longleftrightarrow> (case v of None \<Rightarrow> False | Some x \<Rightarrow> rxMatchString r (show_int x))"
  proof (cases v)
    case (Some x)
    have "x \<in> set (List.map_filter id (remdups vals))" using assms(1) Some by (force simp: List.map_filter_def)
    then show ?thesis using Some by (auto simp: xs_def)
  qed auto
  then show ?thesis using Some assms(2)
    by (auto simp: resolveExits_def xs_def[symmetric] Let_def int_impossible_def appendInts_def split: option.splits)
qed (simp add: Let_def int_impossible_def appendInts_def)

subsection \<open>One row\<close>

lemma with_needle_simps [simp]:
  "afCommandRE (with_needle f) = afCommandRE f" "afCwdRE (with_needle f) = afCwdRE f" "afHostRE (with_needle f) = afHostRE f"
  "afShellRE (with_needle f) = afShellRE f" "afSessionRE (with_needle f) = afSessionRE f" "afDeviceRE (with_needle f) = afDeviceRE f"
  "afExitRE (with_needle f) = afExitRE f" "afExitFailed (with_needle f) = afExitFailed f" "afExit (with_needle f) = afExit f"
  "afSince (with_needle f) = afSince f" "afUntil (with_needle f) = afUntil f" "afSort (with_needle f) = afSort f" "afLimit (with_needle f) = afLimit f"
  by (simp_all add: with_needle_def split: option.splits)

lemma Match_with_needle [simp]: "Match (with_needle f) = Match f"
  by (simp add: Match_def fun_eq_iff)

lemma with_needle_idem: "with_needle (with_needle f) = with_needle f"
  by (auto simp: with_needle_def split: option.splits)

lemma Active_with_needle: "Active (with_needle f) \<longleftrightarrow> Active f"
  by (auto simp: with_needle_def Active_def split: option.splits)

lemma until_cut: "ms \<le> UnixMilli t \<longleftrightarrow> \<not> t < ofMilli ms"
proof -
  define q m where "q = t div 1000000" "m = t mod 1000000"
  then have "t = 1000000 * q + m" "0 \<le> m" "m < 1000000" by simp_all
  then show ?thesis unfolding UnixMilli_def ofMilli_def q_m_def(1)[symmetric] by linarith
qed

lemma since_cut: "t mod 1000000 = 0 \<Longrightarrow> UnixMilli t \<le> ms \<longleftrightarrow> \<not> ofMilli ms < t"
  using ofMilli_UnixMilli[of t] ofMilli_less(1)[of ms "UnixMilli t"] by (simp add: not_less[symmetric])

lemma row_agrees:
  assumes ok: "history_ok H d" and x: "x \<in> set (history d)" "\<not> h_deleted x" and f: "faithful d f"
    and needle: "needle_sound g (h_command x)" "g = f \<or> g = with_needle f"
  shows "Match f (scanEntry d x) \<longleftrightarrow>
     re_ok (afCommandRE f) (h_command x) \<and> \<not> raImpossible (resolveAdvanced d g) \<and> advanced_predicates (resolveAdvanced d g) x"
proof -
  have refs: "row_refs_ok d x" using ok x(1) by (simp add: history_ok_def)
  note c = column_agrees[of _ _ "afCwdRE f"] column_agrees[of _ _ "afHostRE f"] column_agrees[of _ _ "afShellRE f"] column_agrees[of _ _ "afSessionRE f"]
  have cwd: "re_ok (afCwdRE f) (intern_value (intern_cwd d) (h_cwd_id x)) \<longleftrightarrow> \<not> column_impossible (raCwd (resolveAdvanced d g)) \<and> appendColumn (raCwd (resolveAdvanced d g)) (h_cwd_id x)"
    using c(1) ok refs f needle(2) by (auto simp: history_ok_def row_refs_ok_def faithful_def scanEntry_def resolveAdvanced_def Let_def)
  have host: "re_ok (afHostRE f) (eHostname (scanEntry d x)) \<longleftrightarrow> \<not> column_impossible (raHost (resolveAdvanced d g)) \<and> appendColumn (raHost (resolveAdvanced d g)) (h_hostname_id x)"
    using c(2) ok refs f needle(2) by (auto simp: history_ok_def row_refs_ok_def faithful_def scanEntry_def resolveAdvanced_def Let_def)
  have shell: "re_ok (afShellRE f) (eShell (scanEntry d x)) \<longleftrightarrow> \<not> column_impossible (raShell (resolveAdvanced d g)) \<and> appendColumn (raShell (resolveAdvanced d g)) (h_shell_id x)"
    using c(3) ok refs f needle(2) by (auto simp: history_ok_def row_refs_ok_def faithful_def scanEntry_def resolveAdvanced_def Let_def)
  have session: "re_ok (afSessionRE f) (eSessionID (scanEntry d x)) \<longleftrightarrow> \<not> column_impossible (raSession (resolveAdvanced d g)) \<and> appendColumn (raSession (resolveAdvanced d g)) (h_session_id x)"
    using c(4) ok refs f needle(2) by (auto simp: history_ok_def row_refs_ok_def faithful_def scanEntry_def resolveAdvanced_def Let_def)
  have device: "re_ok (afDeviceRE f) (h_device_id x) \<longleftrightarrow> \<not> string_impossible (raDevice (resolveAdvanced d g)) \<and> appendStrings (raDevice (resolveAdvanced d g)) (h_device_id x)"
    using device_agrees[of "h_device_id x" "map h_device_id (history d)" "afDeviceRE f"] x f needle(2)
    by (auto simp: faithful_def resolveAdvanced_def Let_def)
  have exits: "(case afExitRE f of None \<Rightarrow> True | Some r \<Rightarrow> (case h_exit_status x of None \<Rightarrow> False | Some v \<Rightarrow> rxMatchString r (show_int v))) \<longleftrightarrow>
      \<not> int_impossible (raExits (resolveAdvanced d g)) \<and> appendInts (raExits (resolveAdvanced d g)) (h_exit_status x)"
    using exit_agrees[of "h_exit_status x" "map h_exit_status (filter (\<lambda>r. \<not> h_deleted r) (history d))" "afExitRE f"] x f needle(2)
    by (auto simp: faithful_def resolveAdvanced_def Let_def)
  have imp: "raImpossible (resolveAdvanced d g) \<longleftrightarrow> column_impossible (raCwd (resolveAdvanced d g)) \<or> column_impossible (raHost (resolveAdvanced d g))
      \<or> column_impossible (raShell (resolveAdvanced d g)) \<or> column_impossible (raSession (resolveAdvanced d g))
      \<or> string_impossible (raDevice (resolveAdvanced d g)) \<or> int_impossible (raExits (resolveAdvanced d g))"
    by (simp add: resolveAdvanced_def Let_def)
  have plain: "raExitFailed (resolveAdvanced d g) = afExitFailed f" "raExit (resolveAdvanced d g) = afExit f" "raSince (resolveAdvanced d g) = afSince f"
    "raUntil (resolveAdvanced d g) = afUntil f" "raCommandNeedle (resolveAdvanced d g) = afCommandNeedle g"
    using needle(2) by (auto simp: resolveAdvanced_def Let_def)
  have scan: "eExitStatus (scanEntry d x) = h_exit_status x" by (simp add: scanEntry_def)
  have since: "(case afSince f of None \<Rightarrow> True | Some t \<Rightarrow> \<not> ofMilli (h_start_ts x) < t) \<longleftrightarrow> (case afSince f of None \<Rightarrow> True | Some t \<Rightarrow> h_start_ts x \<ge> UnixMilli t)"
    using f by (simp add: faithful_def since_cut split: option.splits)
  have n: "re_ok (afCommandRE f) (h_command x) \<Longrightarrow> raCommandNeedle (resolveAdvanced d g) \<noteq> [] \<longrightarrow> Contains (sql_lower (h_command x)) (sql_lower (raCommandNeedle (resolveAdvanced d g)))"
    using needle by (auto simp: needle_sound_def plain)
  show ?thesis
  proof (cases "re_ok (afCommandRE f) (h_command x)")
    case True
    note nT = n[OF True, THEN eqTrueI]
    from True show ?thesis
      unfolding Match_def host shell session scan scanEntry_simps cwd device exits since advanced_predicates_def imp plain(1-4) failed_run_def until_cut nT
      using x(2) by (simp only: not_less simp_thms de_Morgan_disj conj_ac)
  qed (simp add: Match_def)
qed

subsection \<open>The runs of one command\<close>

interpretation newest_first: strict_weak_less newer UNIV
  by unfold_locales (auto simp: newer_def)

text \<open>The rows the statement of \<^verbatim>\<open>ListByCommandMatching\<close> selects, for the filter as given or with its literal start.\<close>

definition matching_rows :: "db \<Rightarrow> string \<Rightarrow> advanced_filter \<Rightarrow> hist_row list" where
  "matching_rows d c g = filter (\<lambda>x. h_command x = c \<and> advanced_live (resolveAdvanced d g) x) (history d)"

lemma FilterEntries_rows:
  assumes ok: "history_ok H d" and f: "faithful d f" "Active f" and g: "g = f \<or> g = with_needle f"
  shows "FilterEntries (ListByCommand d c) f =
     (if re_ok (afCommandRE f) c \<and> \<not> raImpossible (resolveAdvanced d g) then scanEntries d (sort_by newer (matching_rows d c g)) else [])"
proof -
  let ?rows = "filter (\<lambda>x. \<not> h_deleted x \<and> h_command x = c) (history d)"
  let ?Q = "\<lambda>x. re_ok (afCommandRE f) c \<and> \<not> raImpossible (resolveAdvanced d g) \<and> advanced_predicates (resolveAdvanced d g) x"
  have sound: "needle_sound g (h_command x)" if "x \<in> set (history d)" for x
  proof -
    have "needle_sound (with_needle f) (h_command x)" using f(1) that by (auto simp: faithful_def list_all_iff)
    then show ?thesis using g by (cases "afCommandNeedle f = []") (auto simp: needle_sound_def with_needle_def split: option.splits)
  qed
  have "filter (Match f) (map (scanEntry d) (sort_by newer ?rows)) = map (scanEntry d) (filter (Match f \<circ> scanEntry d) (sort_by newer ?rows))"
    by (simp add: filter_map)
  also have "filter (Match f \<circ> scanEntry d) (sort_by newer ?rows) = filter ?Q (sort_by newer ?rows)"
    using row_agrees[OF ok _ _ f(1) sound g] by (intro filter_cong) auto
  also have "\<dots> = sort_by newer (filter ?Q ?rows)" by (rule newest_first.filter_sort_by) simp
  also have "filter ?Q ?rows = (if re_ok (afCommandRE f) c \<and> \<not> raImpossible (resolveAdvanced d g) then matching_rows d c g else [])"
    by (auto simp: matching_rows_def advanced_live_def conj_ac intro: filter_cong)
  finally show ?thesis using f(2) by (simp add: FilterEntries_def ListByCommand_def scanEntries_def)
qed

lemma ListByCommandMatching_eq:
  assumes "history_ok H d" "faithful d f" "c \<noteq> []"
  shows "ListByCommandMatching d c f = FilterEntries (ListByCommand d c) f"
proof (cases "Active f")
  case True
  have "filter (\<lambda>x. \<not> h_deleted x \<and> h_command x = c \<and> advanced_predicates (resolveAdvanced d f) x) (history d) = matching_rows d c f"
    by (simp add: matching_rows_def advanced_live_def conj_ac)
  then show ?thesis using FilterEntries_rows[OF assms(1,2) True, of f c] True assms(3)
    by (simp add: ListByCommandMatching_def Let_def)
next
  case False
  then have "re_ok (afCommandRE f) c" by (simp add: Active_def re_ok_def)
  moreover have "filter (\<lambda>e. \<not> eDeleted e) (ListByCommand d c) = ListByCommand d c"
    by (auto simp: ListByCommand_def scanEntries_def filter_id_conv)
  ultimately show ?thesis using False assms(3) by (simp add: ListByCommandMatching_def FilterEntries_def)
qed

subsection \<open>Summaries of runs\<close>

definition entry_failed :: "entry \<Rightarrow> bool" where
  "entry_failed e = (case eExitStatus e of None \<Rightarrow> False | Some x \<Rightarrow> x \<noteq> 0)"

text \<open>What the loop has after the runs \<open>es\<close>: the counts, the earliest time, and the newest run.\<close>

definition summarized :: "string \<Rightarrow> entry list \<Rightarrow> command_summary \<times> entry \<Rightarrow> bool" where
  "summarized c es = (\<lambda>(cs, lst). cs = (zero_summary c)\<lparr>smRuns := int (length es), smSuccess := count_rows (\<lambda>e. eExitStatus e = Some 0) es,
       smFailed := count_rows entry_failed es, smFirstTS := Min (eStartTS ` set es), smLastTS := eStartTS lst\<rparr>
     \<and> lst \<in> set es \<and> (\<forall>y \<in> set es. \<not> entry_newer y lst))"

lemma summarized_first: "summarized c [e] (summarize_run True e (zero_summary c, lst))"
  by (auto simp: summarized_def summarize_run_def zero_summary_def count_rows_def entry_failed_def entry_newer_def split: option.splits)

lemma summarized_next:
  assumes "summarized c es s"
  shows "summarized c (es @ [e]) (summarize_run False e s)"
proof -
  obtain cs lst where s: "s = (cs, lst)" by (cases s)
  note inv = assms[unfolded s summarized_def prod.case]
  have "lst \<in> set es" using inv by simp
  then have "set es \<noteq> {}" by auto
  then have "Min (eStartTS ` set (es @ [e])) = min (eStartTS e) (Min (eStartTS ` set es))" by simp
  then have first: "Min (eStartTS ` set (es @ [e])) = (if eStartTS e < Min (eStartTS ` set es) then eStartTS e else Min (eStartTS ` set es))"
    by (metis min.absorb3 min.absorb4 min.idem not_less_iff_gr_or_eq)
  have counts: "count_rows P (es @ [e]) = count_rows P es + (if P e then 1 else 0)" for P by (simp add: count_rows_def)
  show ?thesis
    using inv unfolding s summarized_def first counts
    by (auto simp: summarize_run_def Let_def zero_summary_def entry_failed_def entry_newer_def split: option.splits)
qed

lemma summarized_fold: "summarized c es s \<Longrightarrow> summarized c (es @ es') (fold (summarize_run False) es' s)"
  by (induction es' arbitrary: es s) (use summarized_next in fastforce)+

lemma SummarizeRuns_eq:
  assumes "x \<in> set es" "\<forall>y \<in> set es. \<not> entry_newer y x" "inj_on eID (set es)"
  shows "SummarizeRuns c es = \<lparr>smCommand = c, smRuns = int (length es), smSuccess = count_rows (\<lambda>e. eExitStatus e = Some 0) es,
     smFailed = count_rows entry_failed es, smFirstTS = Min (eStartTS ` set es), smLastTS = Max (eStartTS ` set es), smLastExit = eExitStatus x,
     smLastCwd = eCwd x, smLastHost = eHostname x, smLastDurationMs = eDurationMs x\<rparr>"
proof -
  obtain e es' where es: "es = e # es'" using assms(1) by (cases es) auto
  obtain cs lst where cs: "fold (summarize_run False) es' (summarize_run True e (zero_summary c, e)) = (cs, lst)" by fastforce
  have "summarized c es (cs, lst)" using summarized_fold[OF summarized_first] unfolding es cs[symmetric] by simp
  then have inv: "cs = (zero_summary c)\<lparr>smRuns := int (length es), smSuccess := count_rows (\<lambda>e. eExitStatus e = Some 0) es,
       smFailed := count_rows entry_failed es, smFirstTS := Min (eStartTS ` set es), smLastTS := eStartTS lst\<rparr>"
    "lst \<in> set es" "\<forall>y \<in> set es. \<not> entry_newer y lst" by (simp_all add: summarized_def)
  have "eID lst = eID x" using assms(1,2) inv(2,3) unfolding entry_newer_def by (metis linorder_neqE)
  then have "lst = x" using assms(1,3) inv(2) by (simp add: inj_on_def)
  moreover have "eStartTS x = Max (eStartTS ` set es)"
    using assms(1,2) by (intro Max_eqI[symmetric]) (auto simp: entry_newer_def not_less)
  ultimately show ?thesis using cs inv(1) by (simp add: es zero_summary_def)
qed

lemma fold_min_Min: "ts \<noteq> [] \<Longrightarrow> fold min ts (hd ts) = Min (set ts)" for ts :: "int list"
  by (cases ts) (simp_all add: Min.set_eq_fold[symmetric])

lemma fold_max_Max: "ts \<noteq> [] \<Longrightarrow> fold max ts (hd ts) = Max (set ts)" for ts :: "int list"
  by (cases ts) (simp_all add: Max.set_eq_fold[symmetric])

lemma count_rows_sorted: "count_rows P (sort_by lt xs) = count_rows P xs"
  unfolding count_rows_def by (metis mset_filter mset_sort_by size_mset)

lemma ofMilli_Min_Max:
  assumes "finite A" "A \<noteq> {}"
  shows "Min (ofMilli ` A) = ofMilli (Min A)" "Max (ofMilli ` A) = ofMilli (Max A)"
proof -
  have "mono ofMilli" by (auto intro: monoI simp: ofMilli_def)
  then show "Min (ofMilli ` A) = ofMilli (Min A)" "Max (ofMilli ` A) = ofMilli (Max A)"
    using assms by (simp_all add: mono_Min_commute mono_Max_commute)
qed

lemma SummarizeRuns_rows:
  assumes "distinct (map h_id rows)" "x \<in> set rows" "\<forall>y \<in> set rows. \<not> newer y x"
  shows "SummarizeRuns c (scanEntries d (sort_by newer rows)) =
     \<lparr>smCommand = c, smRuns = count_rows (\<lambda>_. True) rows, smSuccess = count_rows (\<lambda>y. h_exit_status y = Some 0) rows,
      smFailed = count_rows failed_run rows, smFirstTS = ofMilli (fold min (map h_start_ts rows) (hd (map h_start_ts rows))),
      smLastTS = ofMilli (fold max (map h_start_ts rows) (hd (map h_start_ts rows))), smLastExit = h_exit_status x,
      smLastCwd = intern_value (intern_cwd d) (h_cwd_id x), smLastHost = intern_value (intern_hostname d) (h_hostname_id x),
      smLastDurationMs = h_duration_ms x\<rparr>"
proof -
  let ?es = "scanEntries d (sort_by newer rows)"
  have count: "count_rows P ?es = count_rows (P \<circ> scanEntry d) rows" for P
    using count_rows_sorted[of "P \<circ> scanEntry d" newer rows] by (simp add: count_rows_def scanEntries_def filter_map)
  have ne: "rows \<noteq> []" using assms(2) by auto
  have "inj_on eID (set ?es)" using assms(1) by (auto simp: scanEntries_def distinct_map inj_on_def)
  moreover have "scanEntry d x \<in> set ?es" "\<forall>y \<in> set ?es. \<not> entry_newer y (scanEntry d x)"
    using assms(2,3) by (auto simp: scanEntries_def)
  ultimately have "SummarizeRuns c ?es = \<lparr>smCommand = c, smRuns = int (length ?es), smSuccess = count_rows (\<lambda>e. eExitStatus e = Some 0) ?es,
     smFailed = count_rows entry_failed ?es, smFirstTS = Min (eStartTS ` set ?es), smLastTS = Max (eStartTS ` set ?es), smLastExit = eExitStatus (scanEntry d x),
     smLastCwd = eCwd (scanEntry d x), smLastHost = eHostname (scanEntry d x), smLastDurationMs = eDurationMs (scanEntry d x)\<rparr>"
    by (intro SummarizeRuns_eq)
  moreover have "eStartTS ` set ?es = ofMilli ` set (map h_start_ts rows)" by (auto simp: scanEntries_def image_iff)
  moreover have "int (length ?es) = count_rows (\<lambda>_. True) rows" by (simp add: scanEntries_def count_rows_def)
  moreover have "entry_failed \<circ> scanEntry d = failed_run" by (simp add: fun_eq_iff entry_failed_def failed_run_def scanEntry_def)
  moreover have "(\<lambda>e. eExitStatus e = Some 0) \<circ> scanEntry d = (\<lambda>y. h_exit_status y = Some 0)" by (simp add: fun_eq_iff scanEntry_def)
  moreover have "Min (ofMilli ` set (map h_start_ts rows)) = ofMilli (fold min (map h_start_ts rows) (hd (map h_start_ts rows)))"
      "Max (ofMilli ` set (map h_start_ts rows)) = ofMilli (fold max (map h_start_ts rows) (hd (map h_start_ts rows)))"
    using ne fold_min_Min[of "map h_start_ts rows"] fold_max_Max[of "map h_start_ts rows"]
      ofMilli_Min_Max[of "set (map h_start_ts rows)"] by auto
  ultimately show ?thesis by (simp only: count scanEntry_simps) (simp add: scanEntry_def)
qed

section \<open>Properties\<close>

lemma matching_group:
  assumes "history_ok H d" "inj_on H (h_command ` set (history d))" "x \<in> set (history d)"
  shows "advanced_group d (resolveAdvanced d g) (h_command_hash x) = matching_rows d (h_command x) g"
proof -
  have "h_command_hash y = h_command_hash x \<longleftrightarrow> h_command y = h_command x" if "y \<in> set (history d)" for y
    using assms that by (metis history_ok_def image_eqI inj_on_eq_iff)
  then show ?thesis by (auto simp: advanced_group_def in_group_def matching_rows_def intro: filter_cong)
qed

lemma advanced_rows_newest:
  "advanced_rows d r srt = filter (\<lambda>x. srt = SortFailed \<longrightarrow> count_rows failed_run (advanced_group d r (h_command_hash x)) > 0)
     (newest_rows (advanced_live r) (history d))"
  unfolding advanced_rows_def newest_rows_def filter_filter
  by (intro filter_cong refl) (auto simp: advanced_row_def superseded_def in_group_def advanced_group_def filter_empty_conv list_ex_iff)

lemma newest_rows_command:
  assumes ok: "history_ok H d" "inj_on H (h_command ` set (history d))"
  shows "x \<in> set (newest_rows (advanced_live (resolveAdvanced d g)) (history d)) \<longleftrightarrow>
     x \<in> set (matching_rows d (h_command x) g) \<and> (\<forall>y \<in> set (matching_rows d (h_command x) g). \<not> newer y x)"
proof -
  have "h_command_hash y = h_command_hash x \<longleftrightarrow> h_command y = h_command x" if "y \<in> set (history d)" "x \<in> set (history d)" for y
    using ok that by (metis history_ok_def image_eqI inj_on_eq_iff)
  then show ?thesis by (auto simp: newest_rows_def matching_rows_def)
qed

lemma history_ids_distinct: "history_ok H d \<Longrightarrow> distinct (map h_id (history d))"
  using view_ids_distinct[of H d] by (simp add: view_def scanEntries_def comp_def)

lemma advanced_summary_eq:
  assumes "history_ok H d" "inj_on H (h_command ` set (history d))"
    and "x \<in> set (newest_rows (advanced_live (resolveAdvanced d g)) (history d))"
  shows "advanced_summary d (resolveAdvanced d g) x = SummarizeRuns (h_command x) (scanEntries d (sort_by newer (matching_rows d (h_command x) g)))"
proof -
  have x: "x \<in> set (matching_rows d (h_command x) g)" "\<forall>y \<in> set (matching_rows d (h_command x) g). \<not> newer y x"
    using assms(3) newest_rows_command[OF assms(1,2)] by blast+
  have "distinct (map h_id (matching_rows d (h_command x) g))"
    using history_ids_distinct[OF assms(1)] by (simp add: matching_rows_def distinct_map_filter)
  from SummarizeRuns_rows[OF this x] show ?thesis
    using matching_group[OF assms(1,2), of x g] x(1) by (simp add: advanced_summary_def Let_def matching_rows_def)
qed

lemma smCommand_advanced_summary: "smCommand (advanced_summary d r x) = h_command x"
  by (simp add: advanced_summary_def Let_def)

lemma summaries_mset:
  assumes "Active f" "afLimit f \<le> 0" "\<not> raImpossible (resolveAdvanced d (with_needle f))"
  shows "mset (CommandSummariesAdvanced d f) = mset (map (advanced_summary d (resolveAdvanced d (with_needle f)))
     (filter (\<lambda>x. re_ok (afCommandRE f) (h_command x)) (advanced_rows d (resolveAdvanced d (with_needle f)) (afSort f))))"
proof -
  have "mset (filter P (sort_by lt (map (advanced_summary d r) rows))) = mset (map (advanced_summary d r) (filter (P \<circ> advanced_summary d r) rows))" for P lt r rows
    by (metis filter_map mset_filter mset_sort_by)
  then show ?thesis using assms
    by (simp add: CommandSummariesAdvanced_def Let_def Active_with_needle limit_rows_def re_ok_def comp_def smCommand_advanced_summary split: option.splits)
qed

text \<open>The commands with a matching run, and the newest of these runs.\<close>

lemma runs_newest:
  assumes "history_ok H d" "inj_on H (h_command ` set (history d))" "faithful d f" "Active f" "\<not> raImpossible (resolveAdvanced d (with_needle f))"
  defines "new \<equiv> newest_rows (advanced_live (resolveAdvanced d (with_needle f))) (history d)" and "runs \<equiv> \<lambda>c. FilterEntries (ListByCommand d c) f"
  shows "x \<in> set new \<Longrightarrow> runs (h_command x) \<noteq> [] \<longleftrightarrow> re_ok (afCommandRE f) (h_command x)"
    and "runs c \<noteq> [] \<Longrightarrow> \<exists>x \<in> set new. h_command x = c"
    and "x \<in> set new \<Longrightarrow> re_ok (afCommandRE f) (h_command x) \<Longrightarrow>
      advanced_summary d (resolveAdvanced d (with_needle f)) x = SummarizeRuns (h_command x) (runs (h_command x))"
    and "distinct (map h_command new)"
proof -
  let ?g = "with_needle f"
  have runs: "runs c = (if re_ok (afCommandRE f) c then scanEntries d (sort_by newer (matching_rows d c ?g)) else [])" for c
    unfolding runs_def using FilterEntries_rows[OF assms(1,3,4), of ?g c] assms(5) by simp
  note new = newest_rows_command[OF assms(1,2), of _ ?g, folded new_def]
  show "runs (h_command x) \<noteq> [] \<longleftrightarrow> re_ok (afCommandRE f) (h_command x)" if "x \<in> set new"
    using that new[of x] runs[of "h_command x"] by (auto simp: scanEntries_def) (metis empty_iff list.set(1) set_sort_by)
  show "\<exists>x \<in> set new. h_command x = c" if "runs c \<noteq> []"
  proof -
    have "set (matching_rows d c ?g) \<noteq> {}" using that runs[of c] by (auto simp: scanEntries_def split: if_splits)
    from newest_exists[OF finite_set this] obtain x where x: "x \<in> set (matching_rows d c ?g)" "\<forall>y \<in> set (matching_rows d c ?g). \<not> newer y x" by blast
    then have "h_command x = c" by (simp add: matching_rows_def)
    then show ?thesis using x new[of x] by blast
  qed
  show "advanced_summary d (resolveAdvanced d ?g) x = SummarizeRuns (h_command x) (runs (h_command x))"
    if "x \<in> set new" "re_ok (afCommandRE f) (h_command x)"
    using advanced_summary_eq[OF assms(1,2), of x ?g, folded new_def] that runs by simp
  have "h_command_hash x = H (h_command x)" if "x \<in> set new" for x
    using assms(1) that by (auto simp: history_ok_def newest_rows_def new_def)
  then show "distinct (map h_command new)"
    using newest_rows_distinct[OF history_ids_distinct[OF assms(1)], of "advanced_live (resolveAdvanced d ?g)", folded new_def]
    by (auto simp: distinct_map inj_on_def)
qed

text \<open>C35: The search by regular expressions finds what the expressions say. For a filter in which no expression matches every stored
  value of its column but not the empty string, no expression for the exit status matches the empty string, the start time is a whole
  number of milliseconds and the literal start of the expression for the command occurs in every stored command it matches: the runs
  of a command the database returns are those \<^verbatim>\<open>Match\<close> accepts, and without a limit the summaries are, one for each command with
  such a run, those \<^verbatim>\<open>SummarizeRuns\<close> makes of them (when sorted by failures, the ones with a failure), provided the hash does not
  collide on the stored commands.\<close>

theorem advanced_search_matches:
  assumes "history_ok H d" "inj_on H (h_command ` set (history d))" "faithful d f" "Active f" "afLimit f \<le> 0"
  defines "runs \<equiv> \<lambda>c. FilterEntries (ListByCommand d c) f"
  shows "(\<forall>c. c \<noteq> [] \<longrightarrow> ListByCommandMatching d c f = runs c)
     \<and> set (CommandSummariesAdvanced d f) =
         {SummarizeRuns c (runs c) | c. runs c \<noteq> [] \<and> (afSort f = SortFailed \<longrightarrow> smFailed (SummarizeRuns c (runs c)) > 0)}
     \<and> distinct (map smCommand (CommandSummariesAdvanced d f))"
proof -
  let ?r = "resolveAdvanced d (with_needle f)"
  have list: "\<forall>c. c \<noteq> [] \<longrightarrow> ListByCommandMatching d c f = runs c"
    using ListByCommandMatching_eq[OF assms(1,3)] by (simp add: runs_def)
  show ?thesis
  proof (cases "raImpossible ?r")
    case True
    then have "CommandSummariesAdvanced d f = []" "runs c = []" for c
      using assms(4) FilterEntries_rows[OF assms(1,3,4), of "with_needle f" c]
      by (simp_all add: CommandSummariesAdvanced_def Let_def Active_with_needle runs_def)
    then show ?thesis using list by simp
  next
    case False
    let ?rows = "filter (\<lambda>x. re_ok (afCommandRE f) (h_command x)) (advanced_rows d ?r (afSort f))"
    have r: "FilterEntries (ListByCommand d c) f = runs c" for c by (simp add: runs_def)
    note new = runs_newest[OF assms(1-4) False, unfolded r]
    have failed: "count_rows failed_run (advanced_group d ?r (h_command_hash x)) = smFailed (advanced_summary d ?r x)" for x
      by (simp add: advanced_summary_def Let_def)
    have rows: "x \<in> set ?rows \<longleftrightarrow> x \<in> set (newest_rows (advanced_live ?r) (history d)) \<and> re_ok (afCommandRE f) (h_command x)
        \<and> (afSort f = SortFailed \<longrightarrow> smFailed (advanced_summary d ?r x) > 0)" for x
      by (auto simp: advanced_rows_newest failed)
    note out = summaries_mset[OF assms(4,5) False]
    have "set (CommandSummariesAdvanced d f) = advanced_summary d ?r ` set ?rows" using out by (metis set_map set_mset_mset)
    also have "\<dots> = {SummarizeRuns c (runs c) | c. runs c \<noteq> [] \<and> (afSort f = SortFailed \<longrightarrow> smFailed (SummarizeRuns c (runs c)) > 0)}"
    proof (intro set_eqI iffI)
      fix s assume "s \<in> advanced_summary d ?r ` set ?rows"
      then obtain x where x: "x \<in> set ?rows" "s = advanced_summary d ?r x" by blast
      then have "s = SummarizeRuns (h_command x) (runs (h_command x))" "runs (h_command x) \<noteq> []" using rows[of x] new(1,3)[of x] by auto
      then show "s \<in> {SummarizeRuns c (runs c) | c. runs c \<noteq> [] \<and> (afSort f = SortFailed \<longrightarrow> smFailed (SummarizeRuns c (runs c)) > 0)}"
        using x rows[of x] by auto
    next
      fix s assume "s \<in> {SummarizeRuns c (runs c) | c. runs c \<noteq> [] \<and> (afSort f = SortFailed \<longrightarrow> smFailed (SummarizeRuns c (runs c)) > 0)}"
      then obtain c where c: "s = SummarizeRuns c (runs c)" "runs c \<noteq> []" "afSort f = SortFailed \<longrightarrow> smFailed s > 0" by auto
      then obtain x where "x \<in> set (newest_rows (advanced_live ?r) (history d))" "h_command x = c" using new(2) by blast
      then have "x \<in> set ?rows \<and> s = advanced_summary d ?r x" using rows[of x] new(1,3)[of x] c by auto
      then show "s \<in> advanced_summary d ?r ` set ?rows" by blast
    qed
    finally have "set (CommandSummariesAdvanced d f) = \<dots>" .
    moreover have "mset (map smCommand (CommandSummariesAdvanced d f)) = mset (map (smCommand \<circ> advanced_summary d ?r) ?rows)"
      using out by (metis map_map mset_map)
    moreover have "distinct (map (smCommand \<circ> advanced_summary d ?r) ?rows)"
      using new(4) by (simp add: comp_def smCommand_advanced_summary advanced_rows_newest distinct_map_filter)
    ultimately show ?thesis using list mset_eq_imp_distinct_iff by metis
  qed
qed

definition no_filter :: advanced_filter where
  "no_filter = \<lparr>afCommandRE = None, afCommandNeedle = [], afCwdRE = None, afHostRE = None, afShellRE = None, afSessionRE = None, afDeviceRE = None,
     afExitRE = None, afExitFailed = False, afExit = None, afSince = None, afUntil = None, afSort = SortRecent, afLimit = 0\<rparr>"

definition ls_filter :: advanced_filter where
  "ls_filter = no_filter\<lparr>afCommandRE := Some \<lparr>rxString = ''ls'', rxMatchString = (\<lambda>s. Contains s ''ls'')\<rparr>\<rparr>"

theorem advanced_search_matches_witness:
  "map eID (ListByCommandMatching query_db ''ls'' ls_filter) = [''3'', ''1'']
   \<and> ListByCommandMatching query_db ''ls'' ls_filter = FilterEntries (ListByCommand query_db ''ls'') ls_filter
   \<and> smRuns (SummarizeRuns ''ls'' (FilterEntries (ListByCommand query_db ''ls'') ls_filter)) = 2
   \<and> SummarizeRuns ''ls'' (FilterEntries (ListByCommand query_db ''ls'') ls_filter) \<in> set (CommandSummariesAdvanced query_db ls_filter)
   \<and> distinct (map smCommand (CommandSummariesAdvanced query_db ls_filter))"
proof -
  have "map h_command (history query_db) = [''ls'', ''make'', ''ls'']" by code_simp
  then have "set (map h_command (history query_db)) = set [''ls'', ''make'', ''ls'']" by (rule arg_cong)
  moreover have "inj_on query_hash (set [''ls'', ''make'', ''ls''])" by (simp add: inj_on_def query_hash_def)
  ultimately have "inj_on query_hash (h_command ` set (history query_db))" by (simp only: set_map)
  moreover have "faithful query_db ls_filter" by code_simp
  moreover have sorted: "Active ls_filter" "afLimit ls_filter \<le> 0" "afSort ls_filter = SortRecent" by code_simp+
  ultimately have m: "ListByCommandMatching query_db ''ls'' ls_filter = FilterEntries (ListByCommand query_db ''ls'') ls_filter"
      "set (CommandSummariesAdvanced query_db ls_filter) = {SummarizeRuns c (FilterEntries (ListByCommand query_db c) ls_filter) | c.
         FilterEntries (ListByCommand query_db c) ls_filter \<noteq> [] \<and> (afSort ls_filter = SortFailed \<longrightarrow> smFailed (SummarizeRuns c (FilterEntries (ListByCommand query_db c) ls_filter)) > 0)}"
      "distinct (map smCommand (CommandSummariesAdvanced query_db ls_filter))"
    using advanced_search_matches[OF query_db_ok, of ls_filter] by simp_all
  have ids: "map eID (ListByCommandMatching query_db ''ls'' ls_filter) = [''3'', ''1'']" by code_simp
  then have "FilterEntries (ListByCommand query_db ''ls'') ls_filter \<noteq> []" using m(1) by auto
  then have "SummarizeRuns ''ls'' (FilterEntries (ListByCommand query_db ''ls'') ls_filter) \<in> set (CommandSummariesAdvanced query_db ls_filter)"
    unfolding m(2) sorted(3) by auto
  moreover have "smRuns (SummarizeRuns ''ls'' (FilterEntries (ListByCommand query_db ''ls'') ls_filter)) = 2" by code_simp
  ultimately show ?thesis using ids m(1,3) by blast
qed

section \<open>Where they differ\<close>

text \<open>With one host, device, shell or directory in the history, an expression that names it finds nothing: it matches every value, so
  the ids are dropped in favour of \<^verbatim>\<open>notNil\<close>, and \<^verbatim>\<open>impossible\<close> looks at the ids alone.\<close>

theorem matching_every_host_finds_nothing:
  assumes "afHostRE f = Some re" "intern_hostname d \<noteq> []" "list_all (rxMatchString re) (map snd (intern_hostname d))" "\<not> rxMatchString re []"
  shows "CommandSummariesAdvanced d f = [] \<and> ListByCommandMatching d c f = []"
proof -
  have "column_impossible (column_of (intern_hostname d) (afHostRE f))"
    using assms by (simp add: column_of_def resolveIntern_def Let_def length_filter_all list_all_iff split_beta column_impossible_def)
  then have "raImpossible (resolveAdvanced d f)" "raImpossible (resolveAdvanced d (with_needle f))" by (simp_all add: resolveAdvanced_def Let_def)
  moreover have "Active f" using assms(1) by (simp add: Active_def)
  ultimately show ?thesis by (simp add: CommandSummariesAdvanced_def ListByCommandMatching_def Let_def Active_with_needle)
qed

theorem matching_every_host_finds_nothing_witness:
  "list_all (Match (no_filter\<lparr>afHostRE := Some \<lparr>rxString = ''h'', rxMatchString = (\<lambda>s. Contains s ''h'')\<rparr>\<rparr>)) (view query_db)
   \<and> CommandSummariesAdvanced query_db (no_filter\<lparr>afHostRE := Some \<lparr>rxString = ''h'', rxMatchString = (\<lambda>s. Contains s ''h'')\<rparr>\<rparr>) = []"
proof -
  have "intern_hostname query_db \<noteq> [] \<and> list_all (\<lambda>s. Contains s ''h'') (map snd (intern_hostname query_db)) \<and> \<not> Contains [] ''h''" by code_simp
  then have "CommandSummariesAdvanced query_db (no_filter\<lparr>afHostRE := Some \<lparr>rxString = ''h'', rxMatchString = (\<lambda>s. Contains s ''h'')\<rparr>\<rparr>) = []"
    using matching_every_host_finds_nothing[of "no_filter\<lparr>afHostRE := Some \<lparr>rxString = ''h'', rxMatchString = (\<lambda>s. Contains s ''h'')\<rparr>\<rparr>"] by simp
  moreover have "list_all (Match (no_filter\<lparr>afHostRE := Some \<lparr>rxString = ''h'', rxMatchString = (\<lambda>s. Contains s ''h'')\<rparr>\<rparr>)) (view query_db)" by code_simp
  ultimately show ?thesis by blast
qed

text \<open>The literal start of an expression is searched for although what follows may make its last character optional: \<^verbatim>\<open>lsx?\<close> matches
  \<^verbatim>\<open>ls\<close>, but only commands with \<^verbatim>\<open>lsx\<close> are looked at.\<close>

definition optional_filter :: advanced_filter where
  "optional_filter = no_filter\<lparr>afCommandRE := Some \<lparr>rxString = ''lsx?'', rxMatchString = (\<lambda>s. Contains s ''ls'')\<rparr>\<rparr>"

theorem optional_letter_required:
  "length (filter (Match optional_filter) (view query_db)) = 2 \<and> CommandSummariesAdvanced query_db optional_filter = []"
  by code_simp

end
