(* ===== verification/Helpparse.thy ===== *)
theory Helpparse
  imports Rank Keyboard
begin

text \<open>
  Reading the help page of a command line tool (\<^verbatim>\<open>internal/helpparse\<close>: \<^verbatim>\<open>parse.go\<close>, \<^verbatim>\<open>identify.go\<close>, \<^verbatim>\<open>summary.go\<close>, \<^verbatim>\<open>enrich.go\<close>): the
  subcommands and flags of a page, its one-line summary, the framework that wrote it, and the command words that may be passed to a
  tool to ask for its help. The letters of Unicode (\<^verbatim>\<open>unicode.IsLetter\<close>, \<^verbatim>\<open>IsUpper\<close>, \<^verbatim>\<open>IsDigit\<close>, \<^verbatim>\<open>strings.ToLower\<close>) are a parameter. The
  regular expressions of the package are written out. The main fact is that whatever a page says, the names read from it are
  distinct and safe to be passed on.
\<close>

record unicode =
  uIsLetter :: "int \<Rightarrow> bool"
  uIsUpper :: "int \<Rightarrow> bool"
  uIsDigit :: "int \<Rightarrow> bool"
  uToLower :: "string \<Rightarrow> string"

section \<open>Text\<close>

definition blank :: "char \<Rightarrow> bool" where
  "blank c \<longleftrightarrow> c = CHR '' '' \<or> c = CHR 0x09"

text \<open>\<^verbatim>\<open>TrimLeft\<close> and \<^verbatim>\<open>TrimRight\<close> with a set of bytes.\<close>

definition TrimLeft :: "string \<Rightarrow> (char \<Rightarrow> bool) \<Rightarrow> string" where
  "TrimLeft s P = dropWhile P s"

definition TrimRight :: "string \<Rightarrow> (char \<Rightarrow> bool) \<Rightarrow> string" where
  "TrimRight s P = rev (dropWhile P (rev s))"

definition ascii_letter :: "char \<Rightarrow> bool" where
  "ascii_letter c = (let n = of_char c :: nat in 65 \<le> n \<and> n \<le> 90 \<or> 97 \<le> n \<and> n \<le> 122)"

definition ascii_digit :: "char \<Rightarrow> bool" where
  "ascii_digit c = (let n = of_char c :: nat in 48 \<le> n \<and> n \<le> 57)"

definition word_char :: "char \<Rightarrow> bool" where
  "word_char c \<longleftrightarrow> ascii_letter c \<or> ascii_digit c \<or> c = CHR ''_''"

text \<open>The length of a match of \<^verbatim>\<open>\\x1b\\[[0-9;?]*[a-zA-Z]\<close> at the start.\<close>

definition ansi_at :: "string \<Rightarrow> nat option" where
  "ansi_at s =
     (if take 2 s = [ESC, CHR ''['']
      then (let ps = takeWhile (\<lambda>c. ascii_digit c \<or> c = CHR '';'' \<or> c = CHR ''?'') (drop 2 s); t = drop (2 + length ps) s
            in if t \<noteq> [] \<and> ascii_letter (hd t) then Some (3 + length ps) else None)
      else None)"

function strip_escapes :: "string \<Rightarrow> string" where
  "strip_escapes [] = []"
| "strip_escapes (c # s) = (case ansi_at (c # s) of None \<Rightarrow> c # strip_escapes s | Some n \<Rightarrow> strip_escapes (drop n (c # s)))"
  by pat_completeness auto
termination
  by (relation "measure length") (auto simp: ansi_at_def Let_def split: if_splits)

definition encode_runes :: "int list \<Rightarrow> string" where
  "encode_runes rs = concat (map (AppendRune []) rs)"

definition stripBackspace :: "string \<Rightarrow> string" where
  "stripBackspace s =
     (if CHR 0x08 \<notin> set s then s
      else encode_runes (fold (\<lambda>r out. if r = 8 then butlast out else out @ [r]) (runes s) []))"

definition normalizeHelp :: "string \<Rightarrow> string" where
  "normalizeHelp help =
     (let h = replace_all (stripBackspace (strip_escapes help)) [CHR 0x0D, CHR 0x0A] [CHR 0x0A]
      in replace_all h [CHR 0x0D] [CHR 0x0A])"

definition leadingSpaces :: "string \<Rightarrow> nat" where
  "leadingSpaces s = length (takeWhile blank s)"

definition collapseSpace :: "string \<Rightarrow> string" where
  "collapseSpace s = strings_Join (Fields s) '' ''"

text \<open>\<^verbatim>\<open>strings.Index\<close>.\<close>

fun strings_Index :: "string \<Rightarrow> string \<Rightarrow> nat option" where
  "strings_Index [] p = (if p = [] then Some 0 else None)"
| "strings_Index (c # s) p = (if HasPrefix (c # s) p then Some 0 else map_option Suc (strings_Index s p))"

section \<open>The framework\<close>

datatype framework = Unknown | Argparse | Click | Cobra | GnuArgp | Busybox | GoFlag | BsdTerse

definition signatures :: "(string \<times> framework \<times> bool) list" where
  "signatures =
     [(''show this help message and exit'', Argparse, True), (''Show this message and exit.'', Click, False), (''Available Commands:'', Cobra, False),
      (''Mandatory arguments to long options are mandatory for short options too.'', GnuArgp, False),
      (''Mandatory or optional arguments to long options are also mandatory or optional'', GnuArgp, False), (''BusyBox is copyrighted'', Busybox, False)]"

definition scanGoFlagUsage :: "string \<Rightarrow> bool" where
  "scanGoFlagUsage help =
     list_ex (\<lambda>line. HasPrefix line ''Usage of '' \<and> HasSuffix (TrimRight line (\<lambda>c. c = CHR 0x0D)) '':'') (Split help (CHR 0x0A))"

definition looksLikeBSDTerse :: "string \<Rightarrow> bool" where
  "looksLikeBSDTerse help =
     (let ls = filter (\<lambda>line. TrimSpace line \<noteq> []) (Split help (CHR 0x0A))
      in list_ex (\<lambda>line. HasPrefix (TrimLeft line blank) ''usage:'') ls \<and> \<not> Contains help ''--'' \<and> length ls > 0 \<and> length ls \<le> 20)"

definition Identify :: "unicode \<Rightarrow> string \<Rightarrow> framework" where
  "Identify U help =
     (let lower = uToLower U help
      in case find (\<lambda>(marker, _, ignoreCase). if ignoreCase then Contains lower (uToLower U marker) else Contains help marker) signatures of
           Some (_, fw, _) \<Rightarrow> fw
         | None \<Rightarrow> if scanGoFlagUsage help then GoFlag else if looksLikeBSDTerse help then BsdTerse else Unknown)"

section \<open>Rows\<close>

datatype kind = KindEmpty | KindCommand | KindFlag

record entity =
  enName :: string
  enDescr :: string
  enKind :: kind

datatype section_kind = sectionOther | sectionCommands | sectionFlags | sectionSkip

definition flagToken :: "string \<Rightarrow> bool" where
  "flagToken s \<longleftrightarrow> (length s = 2 \<and> s ! 0 = CHR ''-'' \<and> word_char (s ! 1))
     \<or> (length s > 2 \<and> take 2 s = ''--'' \<and> list_all (\<lambda>c. word_char c \<or> c = CHR ''-'') (drop 2 s))"

definition command_char :: "char \<Rightarrow> bool" where
  "command_char c \<longleftrightarrow> ascii_letter c \<or> ascii_digit c \<or> c \<in> set ''._+-''"

definition commandName :: "string \<Rightarrow> bool" where
  "commandName s \<longleftrightarrow> s \<noteq> [] \<and> ascii_letter (hd s) \<and> list_all command_char (tl s)"

definition stopwords :: "string list" where
  "stopwords = [''is'', ''one'', ''of'', ''the'', ''following'', ''and'', ''or'', ''for'', ''this'', ''that'', ''with'', ''from'', ''a'', ''an'',
     ''to'', ''in'', ''on'', ''as'', ''by'', ''at'', ''be'', ''option'', ''options'', ''argument'', ''arguments'', ''usage'', ''synopsis'',
     ''description'', ''example'', ''examples'', ''see'', ''also'']"

definition validCommandName :: "unicode \<Rightarrow> string \<Rightarrow> bool" where
  "validCommandName U name =
     (if name = [] \<or> list_ex (\<lambda>c. c \<in> set ''[]{}<>()|'') name then False
      else if uToLower U name \<in> set stopwords then False
      else if sql_lower name = ''command'' \<or> sql_lower name = ''group'' then False
      else commandName name)"

definition cleanDescr :: "string \<Rightarrow> string" where
  "cleanDescr d = TrimSpace (TrimPrefix (TrimPrefix (TrimPrefix (TrimSpace d) ''-'') ''-'') ''-'')"

definition isShouty :: "unicode \<Rightarrow> string \<Rightarrow> bool" where
  "isShouty U s = (let letters = filter (uIsLetter U) (runes s) in length letters > 0 \<and> length (filter (uIsUpper U) letters) = length letters)"

definition looksLikeTitleHeading :: "unicode \<Rightarrow> string \<Rightarrow> bool" where
  "looksLikeTitleHeading U s =
     (list_all (\<lambda>w. \<not> (uIsLetter U (hd (runes w)) \<and> \<not> uIsUpper U (hd (runes w)))) (Fields s) \<and> length (Fields s) \<le> 4)"

definition heading_key :: "unicode \<Rightarrow> string \<Rightarrow> string \<Rightarrow> section_kind option" where
  "heading_key U t key =
     (if list_ex (Contains key) [''alias'', ''see also'', ''example'', ''copyright'', ''author'', ''environment'']
         \<or> key \<in> set [''name'', ''synopsis'', ''description'', ''see also''] then Some sectionSkip
      else if list_ex (Contains key) [''available command'', ''available service'', ''subcommand'']
         \<or> key \<in> set [''commands'', ''command'', ''groups'', ''group'', ''services'', ''service''] then Some sectionCommands
      else if list_ex (Contains key) [''option'', ''flag''] then Some sectionFlags
      else if isShouty U t \<and> list_ex (Contains key) [''command'', ''group'', ''service''] then Some sectionCommands
      else None)"

definition classifyHeading :: "unicode \<Rightarrow> string \<Rightarrow> section_kind option" where
  "classifyHeading U line =
     (let t = TrimRight (TrimSpace line) (\<lambda>c. c = CHR '':''); fs = Fields t; colon = HasSuffix (TrimSpace line) '':''
      in if t = [] then None
         else if length fs > 5 then None
         else if length fs \<ge> 3 \<and> \<not> isShouty U t \<and> \<not> colon then None
         else if \<not> colon \<and> \<not> isShouty U t \<and> \<not> looksLikeTitleHeading U t then None
         else (case heading_key U t (uToLower U t) of
                 Some k \<Rightarrow> Some k
               | None \<Rightarrow> if colon \<and> looksLikeTitleHeading U t then Some sectionOther else None))"

definition isSynopsisLine :: "unicode \<Rightarrow> string \<Rightarrow> bool" where
  "isSynopsisLine U s =
     (let low = uToLower U (TrimSpace s)
      in HasPrefix low ''usage:'' \<or> HasPrefix low ''usage '' \<or> HasPrefix low ''synopsis'' \<or> HasPrefix s ''Usage of '')"

definition isMetavar :: "unicode \<Rightarrow> string \<Rightarrow> bool" where
  "isMetavar U s =
     (if s = [] then False
      else if HasPrefix s ''<'' \<or> HasPrefix s ''['' then True
      else list_all (\<lambda>r. \<not> (uIsLetter U r \<and> \<not> uIsUpper U r \<and> r \<noteq> 95)) (runes s))"

definition looksLikeDescrStart :: "unicode \<Rightarrow> string \<Rightarrow> bool" where
  "looksLikeDescrStart U s = (s \<noteq> [] \<and> (uIsLetter U (hd (runes s)) \<or> uIsDigit U (hd (runes s))))"

text \<open>The loop of \<^verbatim>\<open>parseFlagRow\<close>: the tokens, and what follows them.\<close>

function flag_tokens :: "string \<Rightarrow> (string list \<times> string) option" where
  "flag_tokens rest0 =
     (let rest = TrimLeft rest0 blank
      in if rest = [] then Some ([], [])
         else if hd rest \<noteq> CHR ''-'' then Some ([], rest)
         else (let tok = hd rest # takeWhile (\<lambda>c. \<not> blank c \<and> c \<noteq> CHR '','') (tl rest); after = TrimLeft (drop (length tok) rest) blank
               in if \<not> flagToken tok then None
                  else if HasPrefix after '',''
                    then map_option (\<lambda>(toks, left). (tok # toks, left)) (flag_tokens (TrimLeft (tl after) blank))
                  else Some ([tok], after)))"
  by pat_completeness auto
termination
proof (relation "measure length", goal_cases)
  case (2 rest0 rest tok after)
  have "length rest \<le> length rest0" using 2(1) length_dropWhile_le[of blank rest0] by (simp add: TrimLeft_def)
  moreover have "length after < length rest"
    using 2(2,4,5) length_dropWhile_le[of blank "drop (length tok) rest"] by (cases rest) (auto simp: TrimLeft_def)
  moreover have "length (TrimLeft (tl after) blank) \<le> length after"
    using length_dropWhile_le[of blank "tl after"] by (simp add: TrimLeft_def)
  ultimately show ?case by simp
qed simp

declare flag_tokens.simps [simp del]

definition parseFlagRow :: "unicode \<Rightarrow> string \<Rightarrow> (string list \<times> string) option" where
  "parseFlagRow U s0 =
     (let s = TrimSpace s0
      in if s = [] \<or> hd s \<noteq> CHR ''-'' then None
         else (case flag_tokens s of
                 None \<Rightarrow> None
               | Some (toks, left) \<Rightarrow>
                   if toks = [] then None
                   else (let r = TrimSpace left; fs = Fields r;
                             rest = (if fs \<noteq> [] \<and> \<not> HasPrefix (hd fs) ''-'' \<and> isMetavar U (hd fs) then TrimSpace (TrimPrefix r (hd fs)) else r);
                             descr = (case strings_Index rest ''  '' of
                                        None \<Rightarrow> rest
                                      | Some gap \<Rightarrow> (let head = TrimSpace (take gap rest); tail = TrimSpace (drop gap rest)
                                                    in if isMetavar U head \<or> head = [] \<or> looksLikeDescrStart U tail then tail else rest))
                         in Some (toks, cleanDescr descr))))"

fun column_gap :: "string \<Rightarrow> nat option" where
  "column_gap (c # d # s) = (if c = CHR 0x09 \<or> c = CHR '' '' \<and> d = CHR '' '' then Some 0 else map_option Suc (column_gap (d # s)))"
| "column_gap s = None"

definition parseTwoColumnCommand :: "unicode \<Rightarrow> string \<Rightarrow> (string \<times> string) option" where
  "parseTwoColumnCommand U s0 =
     (let s = TrimSpace s0
      in if s = [] \<or> hd s = CHR ''-'' \<or> hd s = CHR ''{'' then None
         else (case column_gap s of
                 None \<Rightarrow> None
               | Some gap \<Rightarrow> (let name = TrimSpace (take gap s); descr = TrimSpace (drop gap s)
                             in if \<not> validCommandName U name \<or> descr = [] then None else Some (name, cleanDescr descr))))"

definition parseTwoColumnOrName :: "unicode \<Rightarrow> string \<Rightarrow> (string \<times> string) option" where
  "parseTwoColumnOrName U s =
     (let fs = Fields s
      in if fs = [] \<or> \<not> validCommandName U (hd fs) then None
         else (case parseTwoColumnCommand U s of
                 Some r \<Rightarrow> Some r
               | None \<Rightarrow> if length fs = 1 then Some (hd fs, []) else None))"

definition parseBulletRow :: "unicode \<Rightarrow> string \<Rightarrow> (string \<times> string) option" where
  "parseBulletRow U s0 =
     (let s = TrimSpace s0
      in if s = [] \<or> hd s \<notin> set ''o+*'' then None
         else if length s < 3 \<or> \<not> blank (s ! 1) then None
         else parseTwoColumnOrName U (TrimSpace (tl s)))"

definition parseNameOnly :: "unicode \<Rightarrow> string \<Rightarrow> string option" where
  "parseNameOnly U s =
     (let fs = Fields s
      in if length fs \<noteq> 1 then None
         else (let name = TrimRight (hd fs) (\<lambda>c. c = CHR '':'') in if validCommandName U name then Some name else None))"

definition looksLikeFlagRow :: "unicode \<Rightarrow> string \<Rightarrow> bool" where
  "looksLikeFlagRow U s = (parseFlagRow U s \<noteq> None)"

definition looksLikeCommandRow :: "unicode \<Rightarrow> string \<Rightarrow> bool" where
  "looksLikeCommandRow U s = (parseTwoColumnCommand U s \<noteq> None)"

definition isBulletCommand :: "unicode \<Rightarrow> string \<Rightarrow> bool" where
  "isBulletCommand U s = (parseBulletRow U s \<noteq> None)"

section \<open>Pages\<close>

text \<open>
  The state of \<^verbatim>\<open>parseLines\<close>. The map \<^verbatim>\<open>seen\<close> holds, for each entity of the list, its name and its index; it is read off the list.
\<close>

record parse_state =
  psEnts :: "entity list"
  psSection :: section_kind
  psName :: string
  psIndent :: int
  psDescr :: string

fun fill_descr :: "string \<Rightarrow> string \<Rightarrow> entity list \<Rightarrow> entity list" where
  "fill_descr name descr [] = []"
| "fill_descr name descr (e # es) =
     (if enName e = name then (if enDescr e = [] \<and> descr \<noteq> [] then e\<lparr>enDescr := descr\<rparr> else e) # es else e # fill_descr name descr es)"

definition addEntity :: "string \<Rightarrow> string \<Rightarrow> entity list \<Rightarrow> entity list" where
  "addEntity name0 descr0 ents =
     (let name = TrimSpace name0; descr = cleanDescr descr0
      in if name = [] then ents
         else if list_ex (\<lambda>e. enName e = name) ents then fill_descr name descr ents
         else ents @ [\<lparr>enName = name, enDescr = descr, enKind = (if HasPrefix name ''-'' then KindFlag else KindCommand)\<rparr>])"

definition add_to :: "string \<Rightarrow> string \<Rightarrow> parse_state \<Rightarrow> parse_state" where
  "add_to name descr st = st\<lparr>psEnts := addEntity name descr (psEnts st)\<rparr>"

definition flushPending :: "parse_state \<Rightarrow> parse_state" where
  "flushPending st =
     (if psName st = [] then st
      else (add_to (psName st) (TrimSpace (psDescr st)) st)\<lparr>psName := [], psIndent := - 1, psDescr := []\<rparr>)"

text \<open>A row that is no heading, no synopsis and no continuation; the flag tells that the next line is used up.\<close>

definition parse_row :: "unicode \<Rightarrow> string \<Rightarrow> nat \<Rightarrow> string list \<Rightarrow> parse_state \<Rightarrow> parse_state \<times> bool" where
  "parse_row U trimmed indent rest st =
     (if psSection st = sectionSkip then (st, False)
      else (case parseFlagRow U trimmed of
        Some (names, descr) \<Rightarrow> (fold (\<lambda>n. add_to n descr) names st, False)
      | None \<Rightarrow> (case parseBulletRow U trimmed of
          Some (name, descr) \<Rightarrow>
            if descr \<noteq> [] \<or> psSection st = sectionCommands \<or> psSection st = sectionOther
            then (if descr = [] \<and> rest \<noteq> []
                  then (let nxt = TrimSpace (hd rest); nextIndent = leadingSpaces (TrimRight (hd rest) blank)
                        in if nxt \<noteq> [] \<and> nextIndent > indent \<and> \<not> looksLikeCommandRow U nxt \<and> \<not> isBulletCommand U nxt
                           then (add_to name nxt st, True) else (add_to name descr st, False))
                  else (add_to name descr st, False))
            else (st, False)
        | None \<Rightarrow> (case parseTwoColumnCommand U trimmed of
            Some (name, descr) \<Rightarrow> (add_to name descr st, False)
          | None \<Rightarrow> (case parseNameOnly U trimmed of
              Some name \<Rightarrow> if indent \<ge> 1 then (st\<lparr>psName := name, psIndent := int indent, psDescr := []\<rparr>, False) else (st, False)
            | None \<Rightarrow> (st, False))))))"

definition parse_line :: "unicode \<Rightarrow> string \<Rightarrow> string list \<Rightarrow> parse_state \<Rightarrow> parse_state \<times> bool" where
  "parse_line U line rest st =
     (let raw = TrimRight line blank; indent = leadingSpaces raw; trimmed = TrimSpace raw
      in if trimmed = [] then (if psName st \<noteq> [] \<and> psDescr st \<noteq> [] then flushPending st else st, False)
         else (case classifyHeading U trimmed of
           Some k \<Rightarrow> ((flushPending st)\<lparr>psSection := k\<rparr>, False)
         | None \<Rightarrow>
             if isSynopsisLine U trimmed then (flushPending st, False)
             else if psName st \<noteq> [] \<and> int indent > psIndent st \<and> \<not> looksLikeCommandRow U trimmed \<and> \<not> looksLikeFlagRow U trimmed
                     \<and> \<not> isBulletCommand U trimmed
               then (st\<lparr>psDescr := (if psDescr st = [] then trimmed else psDescr st @ '' '' @ trimmed)\<rparr>, False)
             else parse_row U trimmed indent rest (flushPending st)))"

function parse_loop :: "unicode \<Rightarrow> string list \<Rightarrow> parse_state \<Rightarrow> parse_state" where
  "parse_loop U [] st = st"
| "parse_loop U (line # rest) st = (case parse_line U line rest st of (st', used) \<Rightarrow> parse_loop U (if used then tl rest else rest) st')"
  by pat_completeness auto
termination
  by (relation "measure (\<lambda>(_, ls, _). length ls)") auto

definition parseLines :: "unicode \<Rightarrow> string list \<Rightarrow> framework \<Rightarrow> entity list" where
  "parseLines U ls fw =
     psEnts (flushPending (parse_loop U ls
       \<lparr>psEnts = [], psSection = (if fw = GoFlag then sectionFlags else sectionOther), psName = [], psIndent = - 1, psDescr = []\<rparr>))"

definition Parse :: "unicode \<Rightarrow> string \<Rightarrow> entity list" where
  "Parse U help0 = (let help = normalizeHelp help0 in parseLines U (Split help (CHR 0x0A)) (Identify U help))"

section \<open>Summaries\<close>

definition nodeSection :: "unicode \<Rightarrow> string \<Rightarrow> string option" where
  "nodeSection U trimmed =
     (let key = uToLower U (TrimRight (TrimSpace trimmed) (\<lambda>c. c = CHR '':''))
      in if key = ''name'' then Some ''name''
         else if key = ''description'' \<or> key = ''overview'' then Some ''description''
         else if classifyHeading U trimmed \<noteq> None then Some ''stop'' else None)"

fun summary_loop :: "unicode \<Rightarrow> string \<Rightarrow> string list \<Rightarrow> string list \<Rightarrow> string list \<Rightarrow> string list \<times> string list" where
  "summary_loop U sect names descs [] = (names, descs)"
| "summary_loop U sect names descs (raw # ls) =
     (let trimmed = TrimSpace raw
      in if trimmed = []
         then (if sect = ''description'' \<and> descs \<noteq> [] then (names, descs) else summary_loop U sect names descs ls)
         else (case nodeSection U trimmed of
                 Some k \<Rightarrow> if sect = ''description'' \<and> descs \<noteq> [] \<and> k \<noteq> ''description'' then (names, descs)
                           else summary_loop U k names descs ls
               | None \<Rightarrow> summary_loop U sect (if sect = ''name'' then names @ [trimmed] else names)
                           (if sect = ''description'' then descs @ [trimmed] else descs) ls))"

text \<open>The separator is looked for three times.\<close>

definition nameDashSummary :: "string \<Rightarrow> string" where
  "nameDashSummary s0 =
     (let s = collapseSpace s0
      in if s = [] then []
         else (case strings_Index s '' - '' of Some i \<Rightarrow> TrimSpace (drop (i + 3) s) | None \<Rightarrow> []))"

text \<open>
  \<^verbatim>\<open>isAbbrevDot\<close> cuts the lower-case text at offsets of the original one. \<open>None\<close> stands for the panic of a slice out of range,
  which a letter whose lower-case form is shorter can cause.
\<close>

definition isAbbrevDot :: "unicode \<Rightarrow> string \<Rightarrow> nat \<Rightarrow> bool option" where
  "isAbbrevDot U s dot =
     (if dot < 1 then Some False
      else (let low = uToLower U s; fits = filter (\<lambda>a. dot + 1 \<ge> length a) [''e.g.'', ''i.e.'', ''etc.'', ''vs.'']
            in if fits \<noteq> [] \<and> dot + 1 > length low then None
               else Some (list_ex (\<lambda>a. take (length a) (drop (dot + 1 - length a) low) = a) fits)))"

fun sentence_loop :: "unicode \<Rightarrow> string \<Rightarrow> nat list \<Rightarrow> string option" where
  "sentence_loop U s [] = Some s"
| "sentence_loop U s (i # is) =
     (if s ! i \<noteq> CHR ''.'' then sentence_loop U s is
      else if i + 1 = length s then Some s
      else if s ! (i + 1) \<noteq> CHR '' '' then sentence_loop U s is
      else (case isAbbrevDot U s i of
              None \<Rightarrow> None
            | Some True \<Rightarrow> sentence_loop U s is
            | Some False \<Rightarrow>
                (let rest = TrimSpace (drop (i + 1) s)
                 in if rest = [] \<or> uIsUpper U (fst (decode_rune (map of_char rest))) then Some (TrimSpace (take (i + 1) s))
                    else sentence_loop U s is)))"

definition firstSentence :: "unicode \<Rightarrow> string \<Rightarrow> string option" where
  "firstSentence U s0 = (let s = collapseSpace s0 in if s = [] then Some [] else sentence_loop U s [0..<length s])"

definition summaryMaxRunes :: nat where
  "summaryMaxRunes = 160"

definition clipOneLine :: "string \<Rightarrow> string" where
  "clipOneLine s0 =
     (let s = collapseSpace s0; rs = runes s
      in if s = [] then []
         else if length rs \<le> summaryMaxRunes then s
         else (let cut = length (dropWhile (\<lambda>r. r \<noteq> 32) (rev (take summaryMaxRunes rs)))
               in TrimSpace (encode_runes (take (if cut < summaryMaxRunes div 2 then summaryMaxRunes else cut) rs))))"

definition NodeSummary :: "unicode \<Rightarrow> string \<Rightarrow> string option" where
  "NodeSummary U help0 =
     (let help = normalizeHelp help0
      in if TrimSpace help = [] then Some []
         else (case summary_loop U [] [] [] (Split help (CHR 0x0A)) of (names, descs) \<Rightarrow>
           let s = nameDashSummary (strings_Join names '' '')
           in if s \<noteq> [] then Some (clipOneLine s)
              else if descs = [] then Some []
              else map_option clipOneLine (firstSentence U (strings_Join descs '' ''))))"

section \<open>Command words\<close>

definition safe_char :: "int \<Rightarrow> bool" where
  "safe_char r \<longleftrightarrow> 97 \<le> r \<and> r \<le> 122 \<or> 65 \<le> r \<and> r \<le> 90 \<or> 48 \<le> r \<and> r \<le> 57
     \<or> r \<in> set [45, 95, 46, 47, 43, 61, 58, 64, 126]"

definition safeArg :: "string \<Rightarrow> bool" where
  "safeArg w = (if w = [] \<or> w = ''-'' \<or> w = ''--'' then False else list_all safe_char (runes w))"

definition SafeArg :: "string \<Rightarrow> bool" where
  "SafeArg w = safeArg w"

definition HelpArgv :: "string \<Rightarrow> string list" where
  "HelpArgv pre =
     (let trimmed = TrimSpace pre
      in if trimmed = [] then []
         else (let ws = Fields trimmed; ws' = (if \<not> HasSuffix pre '' '' \<and> length ws > 1 then butlast ws else ws)
               in if list_all safeArg ws' then ws' else []))"

definition matchToken :: "string \<Rightarrow> string" where
  "matchToken item =
     (let fs = Fields item
      in if fs = [] then []
         else (let tok = last fs
               in if CHR ''='' \<in> set tok \<and> hd tok \<noteq> CHR ''='' \<and> HasPrefix tok ''-'' then takeWhile (\<lambda>c. c \<noteq> CHR ''='') tok else tok))"

definition ItemArgv :: "string \<Rightarrow> string \<Rightarrow> string list" where
  "ItemArgv pre item =
     (let tok = matchToken item; ws = takeWhile (\<lambda>w. \<not> HasPrefix w ''-'') (Fields item); parent = HelpArgv pre
      in if tok = [] \<or> HasPrefix tok ''-'' \<or> \<not> safeArg tok then []
         else if \<not> list_all safeArg ws then []
         else if length ws > 1 then ws
         else if parent = [] then (if length ws = 1 then ws else [])
         else if length ws = 1 \<and> ws = parent then []
         else if last parent = tok then []
         else parent @ [tok])"

definition NeedsEnrich :: "string list \<Rightarrow> string list \<Rightarrow> bool" where
  "NeedsEnrich items descrs = list_ex (\<lambda>i. i \<ge> length descrs \<or> TrimSpace (descrs ! i) = []) [0..<length items]"

text \<open>The two maps of \<^verbatim>\<open>Enrich\<close>: the last description of a name, the first one of a name in lower case.\<close>

definition Enrich :: "unicode \<Rightarrow> string list \<Rightarrow> string list \<Rightarrow> entity list \<Rightarrow> string list" where
  "Enrich U items descrs ents =
     (let es = filter (\<lambda>e. enDescr e \<noteq> []) ents;
          byName = map_of (rev (map (\<lambda>e. (enName e, enDescr e)) es));
          byLower = map_of (map (\<lambda>e. (uToLower U (enName e), enDescr e)) es)
      in map (\<lambda>i. let d = (if i < length descrs then descrs ! i else []); tok = matchToken (items ! i)
             in if TrimSpace d \<noteq> [] \<or> tok = [] then d
                else (case byName tok of Some v \<Rightarrow> v | None \<Rightarrow> (case byLower (uToLower U tok) of Some v \<Rightarrow> v | None \<Rightarrow> d))) [0..<length items])"

section \<open>Names are safe\<close>

definition plain_char :: "char \<Rightarrow> bool" where
  "plain_char c \<longleftrightarrow> command_char c \<or> c = CHR ''_''"

lemma plain_char_safe:
  assumes "plain_char c"
  shows "safe_char (of_char c)" "(of_char c :: int) < 128" "\<not> IsSpace (of_char c)"
proof -
  define n :: nat where "n = of_char c"
  have i: "(of_char c :: int) = int n" unfolding n_def by (rule of_nat_of_char[symmetric])
  have "65 \<le> n \<and> n \<le> 90 \<or> 97 \<le> n \<and> n \<le> 122 \<or> 48 \<le> n \<and> n \<le> 57 \<or> n = 46 \<or> n = 95 \<or> n = 43 \<or> n = 45"
    using assms by (auto simp: plain_char_def command_char_def ascii_letter_def ascii_digit_def Let_def n_def)
  then show "safe_char (of_char c)" "(of_char c :: int) < 128" "\<not> IsSpace (of_char c)"
    unfolding i by (auto simp: safe_char_def IsSpace_def)
qed

definition name_ok :: "string \<Rightarrow> bool" where
  "name_ok n \<longleftrightarrow> safeArg n \<and> TrimSpace n = n"

lemma name_ok_plain:
  assumes "list_all plain_char n" "n \<notin> {[], ''-'', ''--''}"
  shows "name_ok n"
proof -
  have "rune_chunks n = map (\<lambda>c. (of_char c, [c])) n" using assms(1) plain_char_safe(2) by (intro rune_chunks_ascii) (auto simp: list_all_iff)
  then have "runes n = map of_char n" by (simp add: runes_def comp_def)
  moreover have "TrimSpace n = n" using assms(1) plain_char_safe(2,3) by (intro TrimSpace_ascii) (auto simp: list_all_iff)
  ultimately show ?thesis using assms plain_char_safe(1) by (simp add: name_ok_def safeArg_def list_all_iff)
qed

lemma flagToken_ok: "flagToken t \<Longrightarrow> name_ok t"
proof (rule name_ok_plain)
  assume t: "flagToken t"
  have w: "word_char c \<Longrightarrow> plain_char c" for c by (auto simp: word_char_def plain_char_def command_char_def)
  have d: "plain_char (CHR ''-'')" by (simp add: plain_char_def command_char_def)
  have two: "length t = 2 \<Longrightarrow> t = [t ! 0, t ! 1]" by (cases t rule: column_gap.cases) auto
  have rest: "t = take 2 t @ drop 2 t" by simp
  show "list_all plain_char t"
  proof (cases "length t = 2")
    case True
    then have "plain_char (t ! 0)" "plain_char (t ! 1)" using t w d by (auto simp: flagToken_def)
    then have "list_all plain_char [t ! 0, t ! 1]" by simp
    then show ?thesis using two[OF True] by metis
  next
    case False
    then have parts: "take 2 t = ''--''" "list_all (\<lambda>c. word_char c \<or> c = CHR ''-'') (drop 2 t)" using t by (simp_all add: flagToken_def)
    have "list_all plain_char (drop 2 t)" using parts(2) by (rule list.pred_mono_strong) (use w d in blast)
    moreover have "list_all plain_char (take 2 t)" unfolding parts(1) using d by simp
    ultimately show ?thesis by (subst rest) (simp only: list_all_append simp_thms)
  qed
  show "t \<notin> {[], ''-'', ''--''}"
    using t by (auto simp: flagToken_def word_char_def ascii_letter_def ascii_digit_def)
qed

lemma validCommandName_ok: "validCommandName U n \<Longrightarrow> name_ok n"
proof (rule name_ok_plain)
  assume "validCommandName U n"
  then have n: "n \<noteq> []" "ascii_letter (hd n)" "list_all command_char (tl n)" by (auto simp: validCommandName_def commandName_def split: if_splits)
  then show "list_all plain_char n" by (cases n) (auto simp: plain_char_def command_char_def list_all_iff)
  show "n \<notin> {[], ''-'', ''--''}" using n by (auto simp: ascii_letter_def)
qed

lemma flag_tokens_ok: "flag_tokens s = Some (toks, left) \<Longrightarrow> list_all flagToken toks"
  by (induction s arbitrary: toks left rule: flag_tokens.induct)
     (subst (asm) (2) flag_tokens.simps, auto simp: Let_def split: if_splits)

lemma rows_ok:
  "parseFlagRow U s = Some (names, descr) \<Longrightarrow> list_all name_ok names"
  "parseTwoColumnCommand U s = Some (name, descr) \<Longrightarrow> name_ok name"
  "parseBulletRow U s = Some (name, descr) \<Longrightarrow> name_ok name"
  "parseNameOnly U s = Some name \<Longrightarrow> name_ok name"
proof -
  show "parseFlagRow U s = Some (names, descr) \<Longrightarrow> list_all name_ok names"
    using flag_tokens_ok flagToken_ok by (auto simp: parseFlagRow_def Let_def list_all_iff split: if_splits option.splits)
  show two: "parseTwoColumnCommand U s = Some (name, descr) \<Longrightarrow> name_ok name" for s name descr
    using validCommandName_ok by (auto simp: parseTwoColumnCommand_def Let_def split: if_splits option.splits)
  show "parseBulletRow U s = Some (name, descr) \<Longrightarrow> name_ok name"
    using two validCommandName_ok
    by (auto simp: parseBulletRow_def parseTwoColumnOrName_def Let_def split: if_splits option.splits)
  show "parseNameOnly U s = Some name \<Longrightarrow> name_ok name"
    using validCommandName_ok by (auto simp: parseNameOnly_def Let_def split: if_splits)
qed

definition entity_ok :: "entity \<Rightarrow> bool" where
  "entity_ok e \<longleftrightarrow> SafeArg (enName e) \<and> enKind e = (if HasPrefix (enName e) ''-'' then KindFlag else KindCommand)"

definition entities_ok :: "entity list \<Rightarrow> bool" where
  "entities_ok es \<longleftrightarrow> distinct (map enName es) \<and> list_all entity_ok es"

definition state_ok :: "parse_state \<Rightarrow> bool" where
  "state_ok st \<longleftrightarrow> entities_ok (psEnts st) \<and> (psName st = [] \<or> name_ok (psName st))"

lemma fill_descr_names: "map enName (fill_descr n d es) = map enName es"
  by (induction n d es rule: fill_descr.induct) auto

lemma fill_descr_ok: "list_all entity_ok es \<Longrightarrow> list_all entity_ok (fill_descr n d es)"
  by (induction n d es rule: fill_descr.induct) (auto simp: entity_ok_def)

lemma addEntity_ok: "entities_ok es \<Longrightarrow> name_ok n \<Longrightarrow> entities_ok (addEntity n d es)"
  by (auto simp: addEntity_def entities_ok_def name_ok_def entity_ok_def SafeArg_def fill_descr_names fill_descr_ok Let_def list_ex_iff)

lemma add_to_ok [intro]: "state_ok st \<Longrightarrow> name_ok n \<Longrightarrow> state_ok (add_to n d st)"
  by (simp add: state_ok_def add_to_def addEntity_ok)

lemma add_all_ok: "state_ok st \<Longrightarrow> list_all name_ok ns \<Longrightarrow> state_ok (fold (\<lambda>n. add_to n d) ns st)"
  by (induction ns arbitrary: st) auto

lemma flushPending_ok [intro]: "state_ok st \<Longrightarrow> state_ok (flushPending st)"
  by (auto simp: flushPending_def state_ok_def add_to_def addEntity_ok)

lemma parse_row_ok: "state_ok st \<Longrightarrow> state_ok (fst (parse_row U t i rest st))"
  using rows_ok[of U t] add_all_ok[of st]
  by (auto simp: parse_row_def Let_def state_ok_def[of "st\<lparr>psName := _, psIndent := _, psDescr := _\<rparr>"] split: option.splits) (simp add: state_ok_def)

lemma parse_line_ok: "state_ok st \<Longrightarrow> state_ok (fst (parse_line U line rest st))"
proof -
  assume st: "state_ok st"
  have "state_ok (st\<lparr>psDescr := d\<rparr>)" "state_ok ((flushPending st)\<lparr>psSection := k\<rparr>)" for d k
    using st flushPending_ok[OF st] by (simp_all add: state_ok_def)
  then show ?thesis
    using st flushPending_ok[OF st] parse_row_ok[OF flushPending_ok[OF st]] by (simp add: parse_line_def Let_def split: option.splits)
qed

lemma parse_loop_ok: "state_ok st \<Longrightarrow> state_ok (parse_loop U ls st)"
proof (induction U ls st rule: parse_loop.induct)
  case (2 U line rest st)
  obtain st' used where l: "parse_line U line rest st = (st', used)" by fastforce
  have "state_ok st'" using parse_line_ok[OF 2(2), of U line rest] l by simp
  with 2(1)[OF l[symmetric]] l show ?case by simp
qed simp

lemma Parse_entities_ok: "entities_ok (Parse U page)"
proof -
  have "state_ok \<lparr>psEnts = [], psSection = k, psName = [], psIndent = - 1, psDescr = []\<rparr>" for k by (simp add: state_ok_def entities_ok_def)
  then show ?thesis using flushPending_ok[OF parse_loop_ok] by (simp add: Parse_def parseLines_def Let_def state_ok_def)
qed

section \<open>Properties\<close>

text \<open>C36: Whatever text a tool prints as its help, the subcommands and flags read from it have distinct names, each of which may be passed
  to the tool: it is not empty, neither one nor two dashes, and consists of letters, digits and the marks \<^verbatim>\<open>- _ . / + = : @ ~\<close>; an
  entity is a flag exactly if its name starts with a dash.\<close>

theorem parsed_names_safe:
  "distinct (map enName (Parse U help))
   \<and> list_all (\<lambda>e. SafeArg (enName e) \<and> enKind e = (if HasPrefix (enName e) ''-'' then KindFlag else KindCommand)) (Parse U help)"
  using Parse_entities_ok[of U "help"] by (auto simp: entities_ok_def entity_ok_def list_all_iff)

text \<open>A summary panics when the lower-case form of a sentence is shorter than its first full stop is far: the Kelvin sign, three bytes,
  becomes the letter k. With a \<^verbatim>\<open>ToLower\<close> that keeps the length of what it is given, no page makes \<^verbatim>\<open>NodeSummary\<close> panic.\<close>

definition kelvin :: string where
  "kelvin = [CHR 0xE2, CHR 0x84, CHR 0xAA]"

definition kelvin_unicode :: unicode where
  "kelvin_unicode = \<lparr>uIsLetter = (\<lambda>r. 65 \<le> r \<and> r \<le> 90 \<or> 97 \<le> r \<and> r \<le> 122 \<or> r = 8490), uIsUpper = (\<lambda>r. 65 \<le> r \<and> r \<le> 90 \<or> r = 8490),
     uIsDigit = (\<lambda>r. 48 \<le> r \<and> r \<le> 57), uToLower = (\<lambda>s. sql_lower (replace_all s kelvin ''k''))\<rparr>"

definition kelvin_page :: string where
  "kelvin_page = ''DESCRIPTION'' @ [CHR 0x0A] @ kelvin @ kelvin @ ''. a''"

theorem summary_panics: "NodeSummary kelvin_unicode kelvin_page = None"
  by code_simp

lemma sentence_total:
  assumes "\<And>s. length (uToLower U s) = length s" "\<forall>i \<in> set is. i < length s"
  shows "sentence_loop U s is \<noteq> None"
  using assms(2)
proof (induction "is")
  case (Cons i "is")
  have "isAbbrevDot U s i \<noteq> None" using Cons.prems assms(1)[of s] by (auto simp: isAbbrevDot_def Let_def)
  then show ?case using Cons by (auto simp: Let_def split: option.splits bool.splits)
qed simp

theorem summary_total:
  assumes "\<And>s. length (uToLower U s) = length s"
  shows "NodeSummary U help \<noteq> None"
proof -
  have "firstSentence U s \<noteq> None" for s
    using sentence_total[OF assms, of "[0..<length (collapseSpace s)]" "collapseSpace s"] by (simp add: firstSentence_def Let_def)
  then show ?thesis by (auto simp: NodeSummary_def Let_def split: prod.splits)
qed

theorem summary_total_witness:
  "NodeSummary (kelvin_unicode\<lparr>uToLower := sql_lower\<rparr>) kelvin_page \<noteq> None"
  by (rule summary_total) (simp add: sql_lower_def)

end
