(* ===== verification/Suggest_Cache.thy ===== *)
theory Suggest_Cache
  imports Helpparse Query
begin

text \<open>
  The cache of help pages. The persistent store (\<^verbatim>\<open>internal/suggestcache/store.go\<close>) has three tables: tools, pages and the entities of a
  page, which fall with the page. In front of it is the cache of a session (\<^verbatim>\<open>internal/helpparse/cache.go\<close>), which the overlay asks for
  the subcommands and descriptions of a command line and which runs a tool for its help when neither has the page. Running the
  tool, the clock and the cancellation of a request are parameters; the disk does not fail. \<open>None\<close> is a panic of \<^verbatim>\<open>NodeSummary\<close>. Requests
  are modelled one at a time: \<^verbatim>\<open>flight.do\<close> lets one caller at a time work on a page, and the others take its result.
\<close>

section \<open>The store\<close>

record tool =
  tlName :: string
  tlBinPath :: string
  tlBinMtime :: int
  tlBinSize :: int
  tlVersion :: string
  tlWarmedAt :: int

record page_row =
  pgArgv :: string
  pgTool :: string
  pgSummary :: string
  pgProbedAt :: int

record entity_row =
  erParent :: string
  erName :: string
  erKind :: kind
  erDescr :: string

record cache_store =
  csTools :: "tool list"
  csPages :: "page_row list"
  csEntities :: "entity_row list"

record durable_page =
  dpEntities :: "entity list"
  dpSummary :: string

definition ArgvKey :: "string list \<Rightarrow> string" where
  "ArgvKey argv = strings_Join argv [CHR 0x00]"

definition ToolName :: "string list \<Rightarrow> string" where
  "ToolName argv = (if argv = [] then [] else path_base (hd argv))"

definition uniqueKeys :: "string list list \<Rightarrow> string list" where
  "uniqueKeys argvs = rev (remdups (rev (map ArgvKey (filter (\<lambda>a. a \<noteq> []) argvs))))"

definition row_entity :: "entity_row \<Rightarrow> entity" where
  "row_entity r = \<lparr>enName = erName r, enDescr = erDescr r, enKind = erKind r\<rparr>"

text \<open>The rows come in the order of their names; rows of a page with the same name keep the order of the table.\<close>

definition LoadMany :: "cache_store \<Rightarrow> string list list \<Rightarrow> (string \<times> durable_page) list" where
  "LoadMany s argvs =
     (let keys = uniqueKeys argvs; rows = sort_by (\<lambda>a b. erName a < erName b) (csEntities s)
      in map (\<lambda>p. (pgArgv p, \<lparr>dpEntities = map row_entity (filter (\<lambda>r. erParent r = pgArgv p) rows), dpSummary = pgSummary p\<rparr>))
           (filter (\<lambda>p. pgArgv p \<in> set keys) (csPages s)))"

definition store_Load :: "cache_store \<Rightarrow> string list \<Rightarrow> (entity list \<times> string) option" where
  "store_Load s argv =
     (if argv = [] then None
      else (case map_of (LoadMany s [argv]) (ArgvKey argv) of
              None \<Rightarrow> None
            | Some p \<Rightarrow> Some (dpEntities p, dpSummary p)))"

definition kind_of :: "entity \<Rightarrow> kind" where
  "kind_of e = (if enKind e = KindEmpty then (if HasPrefix (TrimSpace (enName e)) ''-'' then KindFlag else KindCommand) else enKind e)"

fun entity_rows :: "string \<Rightarrow> (string \<times> kind) list \<Rightarrow> entity list \<Rightarrow> entity_row list" where
  "entity_rows key seen [] = []"
| "entity_rows key seen (e # es) =
     (let name = TrimSpace (enName e); k = kind_of e
      in if name = [] \<or> (name, k) \<in> set seen then entity_rows key seen es
         else \<lparr>erParent = key, erName = name, erKind = k, erDescr = enDescr e\<rparr> # entity_rows key ((name, k) # seen) es)"

fun put_page :: "page_row \<Rightarrow> page_row list \<Rightarrow> page_row list" where
  "put_page p [] = [p]"
| "put_page p (q # qs) = (if pgArgv q = pgArgv p then p # qs else q # put_page p qs)"

definition store_Save :: "int \<Rightarrow> cache_store \<Rightarrow> string list \<Rightarrow> entity list \<Rightarrow> string \<Rightarrow> cache_store \<times> go_error option" where
  "store_Save now s argv ents summary =
     (if argv = [] then (s, Some (Errorf ''suggest cache: empty argv''))
      else (let key = ArgvKey argv; t = ToolName argv
            in (\<lparr>csTools = (if t \<in> tlName ` set (csTools s) then csTools s
                  else csTools s @ [\<lparr>tlName = t, tlBinPath = [], tlBinMtime = 0, tlBinSize = 0, tlVersion = [], tlWarmedAt = 0\<rparr>]),
                csPages = put_page \<lparr>pgArgv = key, pgTool = t, pgSummary = summary, pgProbedAt = now\<rparr> (csPages s),
                csEntities = filter (\<lambda>r. erParent r \<noteq> key) (csEntities s) @ entity_rows key [] ents\<rparr>, None)))"

text \<open>Deleting pages deletes their entities.\<close>

definition delete_pages :: "(page_row \<Rightarrow> bool) \<Rightarrow> cache_store \<Rightarrow> cache_store" where
  "delete_pages P s =
     s\<lparr>csPages := filter (\<lambda>p. \<not> P p) (csPages s), csEntities := filter (\<lambda>r. \<not> list_ex (\<lambda>p. P p \<and> pgArgv p = erParent r) (csPages s)) (csEntities s)\<rparr>"

definition purge_tool :: "string \<Rightarrow> cache_store \<Rightarrow> cache_store" where
  "purge_tool t0 s =
     (let t = TrimSpace t0
      in if t = [] then s
         else (let s1 = delete_pages (\<lambda>p. pgTool p = t) s in s1\<lparr>csTools := filter (\<lambda>r. tlName r \<noteq> t) (csTools s1)\<rparr>))"

definition Purge :: "cache_store \<Rightarrow> string list \<Rightarrow> cache_store \<times> go_error option" where
  "Purge s ts = (if ts = [] then (s, Some (Errorf ''suggest cache: no tools'')) else (fold purge_tool ts s, None))"

definition PurgeAll :: "cache_store \<Rightarrow> cache_store" where
  "PurgeAll s = \<lparr>csTools = [], csPages = [], csEntities = []\<rparr>"

fun put_tool :: "tool \<Rightarrow> tool list \<Rightarrow> tool list" where
  "put_tool t [] = [t]"
| "put_tool t (u # us) = (if tlName u = tlName t then t # us else u # put_tool t us)"

definition UpsertTool :: "cache_store \<Rightarrow> tool \<Rightarrow> cache_store \<times> go_error option" where
  "UpsertTool s t =
     (if tlName t = [] then (s, Some (Errorf ''suggest cache: empty tool name'')) else (s\<lparr>csTools := put_tool t (csTools s)\<rparr>, None))"

section \<open>The cache of a session\<close>

record help_cache =
  hcByKey :: "(string \<times> entity list) list"
  hcSummaries :: "(string \<times> string) list"
  hcDurable :: "cache_store option"

definition NewCache :: help_cache where
  "NewCache = \<lparr>hcByKey = [], hcSummaries = [], hcDurable = None\<rparr>"

definition SetDurable :: "help_cache \<Rightarrow> cache_store option \<Rightarrow> help_cache" where
  "SetDurable c d = c\<lparr>hcDurable := d\<rparr>"

definition cache_Get :: "help_cache \<Rightarrow> string list \<Rightarrow> entity list option" where
  "cache_Get c argv = map_of (hcByKey c) (ArgvKey argv)"

definition cache_Put :: "help_cache \<Rightarrow> string list \<Rightarrow> entity list \<Rightarrow> help_cache" where
  "cache_Put c argv ents = c\<lparr>hcByKey := map_put (ArgvKey argv) ents (hcByKey c)\<rparr>"

definition GetSummary :: "help_cache \<Rightarrow> string list \<Rightarrow> string option" where
  "GetSummary c argv = map_of (hcSummaries c) (ArgvKey argv)"

definition PutSummary :: "help_cache \<Rightarrow> string list \<Rightarrow> string \<Rightarrow> help_cache" where
  "PutSummary c argv summary = c\<lparr>hcSummaries := map_put (ArgvKey argv) summary (hcSummaries c)\<rparr>"

definition hydrate :: "help_cache \<Rightarrow> string list \<Rightarrow> entity list \<Rightarrow> string \<Rightarrow> help_cache" where
  "hydrate c argv ents summary = PutSummary (cache_Put c argv ents) argv summary"

definition lookupPage :: "help_cache \<Rightarrow> string list \<Rightarrow> help_cache \<times> (entity list \<times> string) option" where
  "lookupPage c argv =
     (case cache_Get c argv of
        Some ents \<Rightarrow> (c, Some (ents, case GetSummary c argv of None \<Rightarrow> [] | Some s \<Rightarrow> s))
      | None \<Rightarrow> (case GetSummary c argv of
          Some sm \<Rightarrow> (c, Some ([], sm))
        | None \<Rightarrow> (case hcDurable c of
            None \<Rightarrow> (c, None)
          | Some d \<Rightarrow> (case store_Load d argv of
              None \<Rightarrow> (c, None)
            | Some (ents, summary) \<Rightarrow> (hydrate c argv ents summary, Some (ents, summary))))))"

record probe_env =
  prUnicode :: unicode
  prProbe :: "string list \<Rightarrow> string result"
  prCancelled :: bool
  prNow :: int

definition persistPage :: "probe_env \<Rightarrow> help_cache \<Rightarrow> string list \<Rightarrow> entity list \<Rightarrow> string \<Rightarrow> help_cache" where
  "persistPage E c argv ents summary =
     (let c1 = hydrate c argv ents summary
      in case hcDurable c1 of None \<Rightarrow> c1 | Some d \<Rightarrow> c1\<lparr>hcDurable := Some (fst (store_Save (prNow E) d argv ents summary))\<rparr>)"

text \<open>The new cache, the page, and the command words the tool was run with.\<close>

definition probeAndPersist :: "probe_env \<Rightarrow> help_cache \<Rightarrow> string list \<Rightarrow> (help_cache \<times> (entity list \<times> string) \<times> string list list) option" where
  "probeAndPersist E c argv =
     (case lookupPage c argv of
        (c1, Some page) \<Rightarrow> Some (c1, page, [])
      | (c1, None) \<Rightarrow>
          (let failed = (if prCancelled E then c1 else persistPage E c1 argv [] [])
           in case prProbe E argv of
                Inl _ \<Rightarrow> Some (failed, ([], []), [argv])
              | Inr help \<Rightarrow>
                  if help = [] then Some (failed, ([], []), [argv])
                  else (case NodeSummary (prUnicode E) help of
                          None \<Rightarrow> None
                        | Some sm \<Rightarrow> (let ents = Parse (prUnicode E) help in Some (persistPage E c1 argv ents sm, (ents, sm), [argv])))))"

definition page_entities :: "probe_env \<Rightarrow> help_cache \<Rightarrow> string list \<Rightarrow> (help_cache \<times> entity list \<times> string list list) option" where
  "page_entities E c argv =
     (case lookupPage c argv of
        (c1, Some (ents, _)) \<Rightarrow> Some (c1, ents, [])
      | (c1, None) \<Rightarrow> map_option (\<lambda>(c2, (ents, _), ps). (c2, ents, ps)) (probeAndPersist E c1 argv))"

definition FillEmpty :: "probe_env \<Rightarrow> string \<Rightarrow> string list \<Rightarrow> string list \<Rightarrow> help_cache \<Rightarrow> (help_cache \<times> string list \<times> string list list) option" where
  "FillEmpty E pre items descrs c =
     (let argv = HelpArgv pre
      in if \<not> NeedsEnrich items descrs \<or> argv = [] then Some (c, descrs, [])
         else map_option (\<lambda>(c1, ents, ps). (c1, Enrich (prUnicode E) items descrs ents, ps)) (page_entities E c argv))"

definition entitiesToItems :: "string list \<Rightarrow> entity list \<Rightarrow> string list \<times> string list" where
  "entitiesToItems argv ents =
     (if argv = [] \<or> ents = [] then ([], [])
      else (let es = filter (\<lambda>e. enName e \<noteq> [] \<and> SafeArg (enName e)) ents
            in (map (\<lambda>e. strings_Join argv '' '' @ '' '' @ enName e) es, map enDescr es)))"

definition Items :: "probe_env \<Rightarrow> string \<Rightarrow> help_cache \<Rightarrow> (help_cache \<times> (string list \<times> string list) \<times> string list list) option" where
  "Items E pre c =
     (let argv = HelpArgv pre
      in if argv = [] then Some (c, ([], []), [])
         else map_option (\<lambda>(c1, ents, ps). (c1, entitiesToItems argv ents, ps)) (page_entities E c argv))"

definition CompleteOrHistory ::
    "probe_env \<Rightarrow> string \<Rightarrow> string list \<Rightarrow> string list \<Rightarrow> help_cache \<Rightarrow> string list option \<Rightarrow> (help_cache \<times> (string list \<times> string list) \<times> string list list) option" where
  "CompleteOrHistory E pre items descrs c hist =
     (if items \<noteq> [] then Some (c, (items, descrs), [])
      else map_option (\<lambda>(c1, (its, ds), ps).
             (c1, if its \<noteq> [] then (its, ds) else (case hist of Some h \<Rightarrow> (h, []) | None \<Rightarrow> ([], [])), ps)) (Items E pre c))"

subsection \<open>Descriptions of the rows\<close>

text \<open>The state of \<^verbatim>\<open>FillNodes\<close>: the cache, the descriptions, the copies handed to \<^verbatim>\<open>onUpdate\<close>, and the command words tools were run with.\<close>

record fill_state =
  fsCache :: help_cache
  fsOut :: "string list"
  fsNotes :: "string list list"
  fsProbes :: "string list list"

definition fill_row :: "nat \<Rightarrow> string \<Rightarrow> fill_state \<Rightarrow> fill_state" where
  "fill_row i summary st =
     (if summary = [] then st else (let out = (fsOut st)[i := summary] in st\<lparr>fsOut := out, fsNotes := fsNotes st @ [out]\<rparr>))"

fun scan_rows :: "string \<Rightarrow> (nat \<times> string) list \<Rightarrow> fill_state \<Rightarrow> fill_state \<times> (nat \<times> string list) list" where
  "scan_rows pre [] st = (st, [])"
| "scan_rows pre ((i, item) # rows) st =
     (let argv = ItemArgv pre item
      in if TrimSpace (fsOut st ! i) \<noteq> [] \<or> argv = [] \<or> argv = HelpArgv pre then scan_rows pre rows st
         else (case GetSummary (fsCache st) argv of
                 Some sm \<Rightarrow> scan_rows pre rows (fill_row i sm st)
               | None \<Rightarrow> (case scan_rows pre rows st of (st1, missing) \<Rightarrow> (st1, (i, argv) # missing))))"

fun load_rows :: "(string \<times> durable_page) list \<Rightarrow> (nat \<times> string list) list \<Rightarrow> fill_state \<Rightarrow> fill_state \<times> (nat \<times> string list) list" where
  "load_rows loaded [] st = (st, [])"
| "load_rows loaded ((i, argv) # rows) st =
     (case map_of loaded (ArgvKey argv) of
        None \<Rightarrow> (case load_rows loaded rows st of (st1, still) \<Rightarrow> (st1, (i, argv) # still))
      | Some p \<Rightarrow> load_rows loaded rows (fill_row i (dpSummary p) (st\<lparr>fsCache := hydrate (fsCache st) argv (dpEntities p) (dpSummary p)\<rparr>)))"

fun probe_rows :: "probe_env \<Rightarrow> (nat \<times> string list) list \<Rightarrow> fill_state \<Rightarrow> fill_state option" where
  "probe_rows E [] st = Some st"
| "probe_rows E ((i, argv) # rows) st =
     (if prCancelled E then Some st
      else (case probeAndPersist E (fsCache st) argv of
              None \<Rightarrow> None
            | Some (c, (_, summary), ps) \<Rightarrow> probe_rows E rows (fill_row i summary (st\<lparr>fsCache := c, fsProbes := fsProbes st @ ps\<rparr>))))"

text \<open>The rows still missing are probed by up to four workers; one after the other here.\<close>

definition FillNodes :: "probe_env \<Rightarrow> string \<Rightarrow> string list \<Rightarrow> string list \<Rightarrow> help_cache \<Rightarrow> int \<Rightarrow> fill_state option" where
  "FillNodes E pre items descrs c limit =
     (let out = descrs @ replicate (length items - length descrs) [];
          st0 = \<lparr>fsCache = c, fsOut = out, fsNotes = [], fsProbes = []\<rparr>
      in if \<not> NeedsEnrich items out then Some st0
         else (case scan_rows pre (enumerate 0 items) st0 of (st1, missing) \<Rightarrow>
           (case (case hcDurable (fsCache st1) of
                    Some d \<Rightarrow> if missing \<noteq> [] then load_rows (LoadMany d (map snd missing)) missing st1 else (st1, missing)
                  | None \<Rightarrow> (st1, missing)) of (st2, still) \<Rightarrow>
             probe_rows E (limit_rows limit still) st2)))"

section \<open>The store keeps what it is given\<close>

definition store_ok :: "cache_store \<Rightarrow> bool" where
  "store_ok s \<longleftrightarrow> distinct (map pgArgv (csPages s)) \<and> distinct (map tlName (csTools s))
     \<and> distinct (map (\<lambda>r. (erParent r, erName r, erKind r)) (csEntities s)) \<and> list_all (\<lambda>r. erParent r \<in> pgArgv ` set (csPages s)) (csEntities s)"

interpretation entity_name: strict_weak_less "\<lambda>a b. erName a < erName b" UNIV
  by unfold_locales auto

lemma store_Load_find:
  "store_Load s argv =
     (if argv = [] then None
      else map_option (\<lambda>p. (map row_entity (sort_by (\<lambda>a b. erName a < erName b) (filter (\<lambda>r. erParent r = ArgvKey argv) (csEntities s))), pgSummary p))
             (find (\<lambda>p. pgArgv p = ArgvKey argv) (csPages s)))"
proof (cases "argv = []")
  case False
  have keys: "set (uniqueKeys [argv]) = {ArgvKey argv}" using False by (simp add: uniqueKeys_def)
  have m0: "map_of (map (\<lambda>p. (pgArgv p, f p)) (filter (\<lambda>p. pgArgv p \<in> {k}) ps)) k = map_option f (find (\<lambda>p. pgArgv p = k) ps)"
    for f :: "page_row \<Rightarrow> durable_page" and k ps by (induction ps) auto
  have m: "map_of (LoadMany s [argv]) (ArgvKey argv) = map_option
      (\<lambda>p. \<lparr>dpEntities = map row_entity (filter (\<lambda>r. erParent r = pgArgv p) (sort_by (\<lambda>a b. erName a < erName b) (csEntities s))), dpSummary = pgSummary p\<rparr>)
      (find (\<lambda>p. pgArgv p = ArgvKey argv) (csPages s))"
    unfolding LoadMany_def Let_def keys by (rule m0)
  show ?thesis
  proof (cases "find (\<lambda>p. pgArgv p = ArgvKey argv) (csPages s)")
    case (Some p)
    then have "pgArgv p = ArgvKey argv" by (auto simp: find_Some_iff)
    then show ?thesis using False m Some by (simp add: store_Load_def entity_name.filter_sort_by)
  qed (use False m in \<open>simp add: store_Load_def\<close>)
qed (simp add: store_Load_def)

lemma put_page_keys: "pgArgv ` set (put_page p ps) = insert (pgArgv p) (pgArgv ` set ps)"
  by (induction p ps rule: put_page.induct) auto

lemma put_page_distinct: "distinct (map pgArgv ps) \<Longrightarrow> distinct (map pgArgv (put_page p ps))"
proof (induction p ps rule: put_page.induct)
  case (2 p q qs)
  have "pgArgv q \<notin> pgArgv ` set (put_page p qs)" if "pgArgv q \<noteq> pgArgv p" using 2(2) that by (simp add: put_page_keys)
  then show ?case using 2 by auto
qed simp

lemma find_put_page: "find (\<lambda>q. pgArgv q = k) (put_page p ps) = (if pgArgv p = k then Some p else find (\<lambda>q. pgArgv q = k) ps)"
  by (induction p ps rule: put_page.induct) auto

lemma entity_rows_parent: "r \<in> set (entity_rows key seen es) \<Longrightarrow> erParent r = key \<and> (erName r, erKind r) \<notin> set seen"
  by (induction key seen es rule: entity_rows.induct) (auto simp: Let_def split: if_splits)

lemma entity_rows_distinct: "distinct (map (\<lambda>r. (erParent r, erName r, erKind r)) (entity_rows key seen es))"
proof (induction key seen es rule: entity_rows.induct)
  case (2 key seen e es)
  then show ?case using entity_rows_parent[of _ key "(TrimSpace (enName e), kind_of e) # seen" es] by (fastforce simp: Let_def)
qed simp

lemma store_Save_ok:
  assumes "store_ok s" "argv \<noteq> []"
  shows "store_ok (fst (store_Save now s argv ents summary))"
proof -
  let ?es = "filter (\<lambda>r. erParent r \<noteq> ArgvKey argv) (csEntities s)" and ?new = "entity_rows (ArgvKey argv) [] ents"
  have "distinct (map (\<lambda>r. (erParent r, erName r, erKind r)) (?es @ ?new))"
    using assms(1) entity_rows_distinct[of "ArgvKey argv" "[]" ents] entity_rows_parent[of _ "ArgvKey argv" "[]" ents]
    by (fastforce simp: store_ok_def distinct_map_filter)
  moreover have "list_all (\<lambda>r. erParent r \<in> insert (ArgvKey argv) (pgArgv ` set (csPages s))) (?es @ ?new)"
    using assms(1) entity_rows_parent[of _ "ArgvKey argv" "[]" ents] by (auto simp: store_ok_def list_all_iff)
  ultimately show ?thesis
    using assms by (auto simp: store_Save_def store_ok_def Let_def put_page_keys put_page_distinct)
qed

lemma store_Load_Save:
  assumes "argv \<noteq> []"
  shows "store_Load (fst (store_Save now s argv ents summary)) argv =
       Some (map row_entity (sort_by (\<lambda>a b. erName a < erName b) (entity_rows (ArgvKey argv) [] ents)), summary)"
    and "ArgvKey a \<noteq> ArgvKey argv \<Longrightarrow> store_Load (fst (store_Save now s argv ents summary)) a = store_Load s a"
proof -
  have own: "filter (\<lambda>r. erParent r = ArgvKey argv) (entity_rows (ArgvKey argv) [] ents) = entity_rows (ArgvKey argv) [] ents"
    using entity_rows_parent by (fastforce simp: filter_id_conv)
  then show "store_Load (fst (store_Save now s argv ents summary)) argv =
      Some (map row_entity (sort_by (\<lambda>a b. erName a < erName b) (entity_rows (ArgvKey argv) [] ents)), summary)"
    using assms by (simp add: store_Load_find store_Save_def Let_def find_put_page)
  assume a: "ArgvKey a \<noteq> ArgvKey argv"
  have "filter (\<lambda>r. erParent r = ArgvKey a) (entity_rows (ArgvKey argv) [] ents) = []"
    using entity_rows_parent a by (fastforce simp: filter_empty_conv)
  moreover have "filter (\<lambda>r. erParent r \<noteq> ArgvKey argv \<and> erParent r = ArgvKey a) (csEntities s) = filter (\<lambda>r. erParent r = ArgvKey a) (csEntities s)"
    using a by (intro filter_cong) auto
  ultimately show "store_Load (fst (store_Save now s argv ents summary)) a = store_Load s a"
    using assms a by (simp add: store_Load_find store_Save_def Let_def find_put_page)
qed

lemma safeArg_trimmed: "safeArg n \<Longrightarrow> TrimSpace n = n"
proof -
  assume n: "safeArg n"
  have "\<not> IsSpace (fst x)" if "x \<in> set (rune_chunks n)" for x
  proof -
    have "safe_char (fst x)" using n that by (auto simp: safeArg_def runes_def list_all_iff split: if_splits)
    then show ?thesis by (auto simp: safe_char_def IsSpace_def)
  qed
  then have "dropWhile (\<lambda>(r, _). IsSpace r) xs = xs" if "set xs \<subseteq> set (rune_chunks n)" for xs
    using that by (cases xs) auto
  then show ?thesis using concat_rune_chunks[of n] by (simp add: TrimSpace_def Let_def)
qed

lemma entity_rows_plain:
  assumes "entities_ok es" "\<forall>(n, k) \<in> set seen. n \<notin> enName ` set es"
  shows "entity_rows key seen es = map (\<lambda>e. \<lparr>erParent = key, erName = enName e, erKind = enKind e, erDescr = enDescr e\<rparr>) es"
  using assms
proof (induction key seen es rule: entity_rows.induct)
  case (2 key seen e es)
  note prems = 2(3,4)
  have e: "safeArg (enName e)" "enKind e \<noteq> KindEmpty" using prems(1) by (auto simp: entities_ok_def entity_ok_def SafeArg_def)
  then have n: "TrimSpace (enName e) = enName e" "enName e \<noteq> []" "kind_of e = enKind e"
    using safeArg_trimmed by (auto simp: safeArg_def kind_of_def)
  have fresh: "(enName e, enKind e) \<notin> set seen" using prems(2) by auto
  have "\<forall>(m, k) \<in> set ((enName e, enKind e) # seen). m \<notin> enName ` set es" using prems by (auto simp: entities_ok_def)
  then show ?case using 2(2)[of "enName e" "enKind e"] prems(1) n fresh by (simp add: Let_def entities_ok_def)
qed simp

lemma Purge_forgets:
  assumes "store_ok s" "argv \<noteq> []" "TrimSpace t = ToolName argv" "ToolName argv \<noteq> []"
  shows "store_Load (fst (Purge (fst (store_Save now s argv ents summary)) [t])) argv = None"
proof -
  define p where "p = \<lparr>pgArgv = ArgvKey argv, pgTool = ToolName argv, pgSummary = summary, pgProbedAt = now\<rparr>"
  have "q \<in> set (put_page p ps) \<Longrightarrow> pgArgv q = pgArgv p \<Longrightarrow> distinct (map pgArgv ps) \<Longrightarrow> q = p" for q :: page_row and p ps
    by (induction p ps rule: put_page.induct) (auto simp: rev_image_eqI split: if_splits)
  then have "pgTool q = ToolName argv" if "q \<in> set (put_page p (csPages s))" "pgArgv q = ArgvKey argv" for q
    using that assms(1) by (metis p_def page_row.select_convs(1,2) store_ok_def)
  then have "find (\<lambda>q. pgArgv q = ArgvKey argv) (filter (\<lambda>q. pgTool q \<noteq> ToolName argv) (put_page p (csPages s))) = None"
    unfolding find_None_iff by auto
  then show ?thesis
    using assms by (simp add: store_Load_find Purge_def purge_tool_def delete_pages_def store_Save_def Let_def p_def[symmetric])
qed

section \<open>Properties\<close>

lemma Parse_rows: "map row_entity (sort_by (\<lambda>a b. erName a < erName b) (entity_rows key [] (Parse U page))) = sort_by (\<lambda>a b. enName a < enName b) (Parse U page)"
proof -
  let ?row = "\<lambda>e. \<lparr>erParent = key, erName = enName e, erKind = enKind e, erDescr = enDescr e\<rparr>"
  have "map row_entity (sort_by (\<lambda>a b. erName a < erName b) (map ?row es)) = sort_by (\<lambda>a b. enName a < enName b) (map row_entity (map ?row es))" for es :: "entity list"
    by (rule map_sort_by) (simp add: row_entity_def)
  moreover have "map row_entity (map ?row es) = es" for es :: "entity list"
    unfolding map_map by (rule map_idI) (simp add: row_entity_def)
  ultimately show ?thesis using entity_rows_plain[OF Parse_entities_ok[of U page], of "[]" key] by simp
qed

text \<open>C37: A help page that was saved is found again, with the entities read from it in the order of their names and with its summary, and
  no other page changes; the tables keep their keys. After purging the tool the page is gone.\<close>

theorem help_store_round_trip:
  fixes now U page summary
  assumes "store_ok s" "argv \<noteq> []"
  defines "s' \<equiv> fst (store_Save now s argv (Parse U page) summary)"
  shows "snd (store_Save now s argv (Parse U page) summary) = None \<and> store_ok s'
     \<and> store_Load s' argv = Some (sort_by (\<lambda>a b. enName a < enName b) (Parse U page), summary)
     \<and> (\<forall>a. ArgvKey a \<noteq> ArgvKey argv \<longrightarrow> store_Load s' a = store_Load s a)
     \<and> (\<forall>t. TrimSpace t = ToolName argv \<and> ToolName argv \<noteq> [] \<longrightarrow> store_Load (fst (Purge s' [t])) argv = None)"
proof -
  have "snd (store_Save now s argv (Parse U page) summary) = None" using assms(2) by (simp add: store_Save_def Let_def)
  then show ?thesis
    unfolding s'_def using assms(1,2) store_Save_ok store_Load_Save Purge_forgets by (simp add: Parse_rows)
qed

theorem help_store_round_trip_witness:
  "store_Load (fst (store_Save 7 \<lparr>csTools = [], csPages = [], csEntities = []\<rparr> [''ls''] (Parse kelvin_unicode ''  -l  long'') ''list'')) [''ls'']
     = Some (sort_by (\<lambda>a b. enName a < enName b) (Parse kelvin_unicode ''  -l  long''), ''list'')"
  using help_store_round_trip[of "\<lparr>csTools = [], csPages = [], csEntities = []\<rparr>" "[''ls'']" 7 kelvin_unicode "''  -l  long''" "''list''"]
  by (simp add: store_ok_def)

section \<open>Tools are run rarely and safely\<close>

definition argv_safe :: "string list \<Rightarrow> bool" where
  "argv_safe argv \<longleftrightarrow> argv \<noteq> [] \<and> list_all SafeArg argv"

definition cached :: "help_cache \<Rightarrow> string list \<Rightarrow> bool" where
  "cached c argv \<longleftrightarrow> snd (lookupPage c argv) \<noteq> None"

definition page_known :: "cache_store \<Rightarrow> string list \<Rightarrow> bool" where
  "page_known d argv \<longleftrightarrow> argv \<noteq> [] \<and> ArgvKey argv \<in> pgArgv ` set (csPages d)"

lemma store_Load_known: "store_Load d argv \<noteq> None \<longleftrightarrow> page_known d argv"
proof -
  have "find (\<lambda>p. pgArgv p = k) ps \<noteq> None \<longleftrightarrow> k \<in> pgArgv ` set ps" for k and ps :: "page_row list"
    by (induction ps) auto
  then show ?thesis by (simp add: store_Load_find page_known_def)
qed

lemma page_known_Save: "page_known d a \<Longrightarrow> page_known (fst (store_Save now d argv ents summary)) a"
  by (auto simp: page_known_def store_Save_def Let_def put_page_keys)

lemma cached_iff:
  "cached c argv \<longleftrightarrow> map_of (hcByKey c) (ArgvKey argv) \<noteq> None \<or> map_of (hcSummaries c) (ArgvKey argv) \<noteq> None
     \<or> (case hcDurable c of None \<Rightarrow> False | Some d \<Rightarrow> page_known d argv)"
  unfolding store_Load_known[symmetric]
  by (simp add: cached_def lookupPage_def cache_Get_def GetSummary_def split: option.splits prod.splits)

lemma hydrate_cached: "cached (hydrate c argv ents sm) a \<longleftrightarrow> cached c a \<or> ArgvKey a = ArgvKey argv"
  by (simp add: cached_iff hydrate_def PutSummary_def cache_Put_def map_of_put)

lemma lookupPage_cached: "cached c a \<Longrightarrow> cached (fst (lookupPage c argv)) a"
  by (auto simp: lookupPage_def hydrate_cached split: option.splits prod.splits)

lemma persistPage_cached:
  "cached (persistPage E c argv ents sm) argv" "cached c a \<Longrightarrow> cached (persistPage E c argv ents sm) a"
proof -
  have d: "hcByKey (persistPage E c argv ents sm) = hcByKey (hydrate c argv ents sm)" "hcSummaries (persistPage E c argv ents sm) = hcSummaries (hydrate c argv ents sm)"
    by (simp_all add: persistPage_def Let_def split: option.splits)
  show "cached (persistPage E c argv ents sm) argv"
    by (simp add: cached_iff d hydrate_def PutSummary_def cache_Put_def map_of_put)
  assume "cached c a"
  then have "cached (hydrate c argv ents sm) a" by (simp add: hydrate_cached)
  then show "cached (persistPage E c argv ents sm) a"
    by (auto simp: cached_iff persistPage_def Let_def page_known_Save split: option.splits)
qed

lemma probeAndPersist_effect:
  assumes "probeAndPersist E c argv = Some (c', page, ps)"
  shows "cached c a \<Longrightarrow> cached c' a" and "\<not> prCancelled E \<Longrightarrow> cached c' argv"
    and "ps = [] \<or> ps = [argv] \<and> \<not> cached c argv"
proof -
  obtain c1 r where l: "lookupPage c argv = (c1, r)" by fastforce
  have keep: "cached c a \<Longrightarrow> cached c1 a" for a using lookupPage_cached[of c a argv] l by simp
  have c: "cached c argv \<longleftrightarrow> r \<noteq> None" by (simp add: cached_def l)
  have r: "r = None \<Longrightarrow> (c' = c1 \<and> prCancelled E \<or> (\<exists>ents sm. c' = persistPage E c1 argv ents sm)) \<and> ps = [argv]"
    "r = Some page' \<Longrightarrow> c' = c1 \<and> ps = []" for page'
    using assms by (auto simp: probeAndPersist_def l Let_def split: sum.splits if_splits option.splits)
  show "cached c a \<Longrightarrow> cached c' a" using keep r persistPage_cached(2) by (cases r) auto
  show "\<not> prCancelled E \<Longrightarrow> cached c' argv" using keep c r persistPage_cached(1) by (cases r) auto
  show "ps = [] \<or> ps = [argv] \<and> \<not> cached c argv" using c r by (cases r) auto
qed

lemma page_entities_safe:
  assumes "page_entities E c argv = Some (c', ents, ps)" "argv_safe argv"
  shows "list_all argv_safe ps \<and> (\<forall>a \<in> set ps. \<not> cached c a)"
proof -
  obtain c1 r where l: "lookupPage c argv = (c1, r)" by fastforce
  show ?thesis
  proof (cases r)
    case None
    then obtain page where p: "probeAndPersist E c1 argv = Some (c', page, ps)" using assms(1) l by (auto simp: page_entities_def)
    have "\<not> cached c argv" by (simp add: cached_def l None)
    with probeAndPersist_effect(3)[OF p] show ?thesis using assms(2) by auto
  qed (use assms(1) l in \<open>auto simp: page_entities_def\<close>)
qed

lemma SafeArg_eq: "SafeArg = safeArg"
  by (simp add: fun_eq_iff SafeArg_def)

lemma HelpArgv_safe: "HelpArgv pre \<noteq> [] \<Longrightarrow> argv_safe (HelpArgv pre)"
  by (auto simp: HelpArgv_def argv_safe_def SafeArg_eq Let_def split: if_splits)

lemma ItemArgv_safe: "ItemArgv pre item \<noteq> [] \<Longrightarrow> argv_safe (ItemArgv pre item)"
  using HelpArgv_safe[of pre] by (auto simp: ItemArgv_def argv_safe_def SafeArg_eq Let_def split: if_splits)

subsection \<open>The descriptions of the rows\<close>

definition rows_safe :: "(nat \<times> string list) list \<Rightarrow> bool" where
  "rows_safe rows = list_all (\<lambda>(i, argv). argv_safe argv) rows"

lemma scan_rows_effect:
  "scan_rows pre rows st = (st', missing) \<Longrightarrow> fsCache st' = fsCache st \<and> fsProbes st' = fsProbes st \<and> rows_safe missing"
proof (induction rows arbitrary: st st' missing)
  case (Cons row rows)
  obtain i item where row: "row = (i, item)" by fastforce
  let ?argv = "ItemArgv pre item"
  show ?case
  proof (cases "TrimSpace (fsOut st ! i) \<noteq> [] \<or> ?argv = [] \<or> ?argv = HelpArgv pre")
    case True
    then show ?thesis using Cons by (auto simp: row Let_def)
  next
    case False
    note safe = ItemArgv_safe[of pre item]
    show ?thesis
    proof (cases "GetSummary (fsCache st) ?argv")
      case None
      obtain st1 ms where m: "scan_rows pre rows st = (st1, ms)" by fastforce
      have "(st', missing) = (st1, (i, ?argv) # ms)" using Cons.prems False None m by (simp add: row Let_def)
      then show ?thesis using Cons.IH[OF m] False safe by (auto simp: rows_safe_def)
    next
      case (Some sm)
      then have "scan_rows pre rows (fill_row i sm st) = (st', missing)" using Cons.prems False by (simp add: row Let_def)
      from Cons.IH[OF this] show ?thesis by (simp add: fill_row_def Let_def split: if_splits)
    qed
  qed
qed (simp add: rows_safe_def)

lemma load_rows_effect:
  "load_rows loaded rows st = (st', still) \<Longrightarrow> rows_safe rows \<Longrightarrow>
     (\<forall>a. cached (fsCache st) a \<longrightarrow> cached (fsCache st') a) \<and> fsProbes st' = fsProbes st \<and> rows_safe still"
proof (induction loaded rows st arbitrary: st' still rule: load_rows.induct)
  case (2 loaded i argv rows st)
  show ?case
  proof (cases "map_of loaded (ArgvKey argv)")
    case None
    with 2 show ?thesis by (auto simp: rows_safe_def split: prod.splits)
  next
    case (Some p)
    let ?st = "fill_row i (dpSummary p) (st\<lparr>fsCache := hydrate (fsCache st) argv (dpEntities p) (dpSummary p)\<rparr>)"
    have "fsProbes ?st = fsProbes st" "fsCache ?st = hydrate (fsCache st) argv (dpEntities p) (dpSummary p)" by (simp_all add: fill_row_def Let_def)
    with 2(2)[OF Some, of st' still] 2(3,4) Some show ?thesis by (auto simp: rows_safe_def hydrate_cached)
  qed
qed simp

lemma probe_rows_effect:
  assumes "probe_rows E rows st = Some st'" "rows_safe rows" "\<not> prCancelled E"
  shows "\<exists>ps. fsProbes st' = fsProbes st @ ps \<and> list_all argv_safe ps \<and> distinct (map ArgvKey ps) \<and> length ps \<le> length rows
     \<and> (\<forall>a \<in> set ps. \<not> cached (fsCache st) a \<and> cached (fsCache st') a) \<and> (\<forall>a. cached (fsCache st) a \<longrightarrow> cached (fsCache st') a)"
  using assms
proof (induction rows arbitrary: st)
  case (Cons row rows)
  obtain i argv where row: "row = (i, argv)" by fastforce
  obtain c e sm ps where p: "probeAndPersist E (fsCache st) argv = Some (c, (e, sm), ps)" using Cons.prems by (auto simp: row split: option.splits)
  let ?st = "fill_row i sm (st\<lparr>fsCache := c, fsProbes := fsProbes st @ ps\<rparr>)"
  have st: "fsProbes ?st = fsProbes st @ ps" "fsCache ?st = c" by (simp_all add: fill_row_def Let_def)
  note eff = probeAndPersist_effect[OF p]
  have "probe_rows E rows ?st = Some st'" using Cons.prems p by (simp add: row)
  from Cons.IH[OF this] Cons.prems(2,3) st obtain qs where q: "fsProbes st' = fsProbes st @ ps @ qs" "list_all argv_safe qs" "distinct (map ArgvKey qs)"
      "length qs \<le> length rows" "\<forall>a \<in> set qs. \<not> cached c a \<and> cached (fsCache st') a" "\<forall>a. cached c a \<longrightarrow> cached (fsCache st') a"
    by (auto simp: row rows_safe_def)
  have safe: "argv_safe argv" using Cons.prems(2) by (simp add: row rows_safe_def)
  have now: "cached c argv" using eff(2) Cons.prems(3) by blast
  have "cached c a" if "ArgvKey a = ArgvKey argv" "a \<noteq> []" for a
    using now that safe by (auto simp: cached_iff page_known_def argv_safe_def split: option.splits)
  then have new: "ArgvKey argv \<notin> ArgvKey ` set qs" using q(2,5) by (force simp: list_all_iff argv_safe_def)
  have old: "cached (fsCache st) a \<Longrightarrow> cached c a" for a using eff(1) .
  show ?case
  proof (intro exI[of _ "ps @ qs"] conjI)
    show "\<forall>a \<in> set (ps @ qs). \<not> cached (fsCache st) a \<and> cached (fsCache st') a" using q(5,6) old now eff(3) by auto
  qed (use q eff(3) safe new old in \<open>auto simp: row\<close>)
qed auto

lemma FillNodes_effect:
  assumes "FillNodes E pre items descrs c limit = Some st" "\<not> prCancelled E"
  shows "list_all argv_safe (fsProbes st) \<and> distinct (map ArgvKey (fsProbes st)) \<and> (limit > 0 \<longrightarrow> int (length (fsProbes st)) \<le> limit)
     \<and> (\<forall>a \<in> set (fsProbes st). \<not> cached c a \<and> cached (fsCache st) a)"
proof -
  define st0 where "st0 = \<lparr>fsCache = c, fsOut = descrs @ replicate (length items - length descrs) [], fsNotes = [], fsProbes = []\<rparr>"
  obtain st1 missing where s1: "scan_rows pre (enumerate 0 items) st0 = (st1, missing)" by fastforce
  obtain st2 still where s2: "(case hcDurable (fsCache st1) of
      Some d \<Rightarrow> if missing \<noteq> [] then load_rows (LoadMany d (map snd missing)) missing st1 else (st1, missing)
    | None \<Rightarrow> (st1, missing)) = (st2, still)" by fastforce
  have 1: "fsCache st1 = c" "fsProbes st1 = []" "rows_safe missing" using scan_rows_effect[OF s1] by (simp_all add: st0_def)
  have 2: "cached c a \<Longrightarrow> cached (fsCache st2) a" "fsProbes st2 = []" "rows_safe still" for a
    using s2 1 load_rows_effect[of _ missing st1 st2 still] by (auto split: option.splits if_splits)
  show ?thesis
  proof (cases "NeedsEnrich items (descrs @ replicate (length items - length descrs) [])")
    case True
    then have p: "probe_rows E (limit_rows limit still) st2 = Some st"
      using assms(1) s1 s2 by (simp add: FillNodes_def Let_def st0_def[symmetric])
    have "rows_safe (limit_rows limit still)" using 2(3) by (auto simp: rows_safe_def limit_rows_def list_all_iff dest: in_set_takeD)
    moreover have "limit > 0 \<longrightarrow> int (length (limit_rows limit still)) \<le> limit" by (auto simp: limit_rows_def min_def)
    ultimately show ?thesis using probe_rows_effect[OF p _ assms(2)] 2(1,2) by fastforce
  qed (use assms(1) in \<open>auto simp: FillNodes_def Let_def\<close>)
qed


definition demo_probe :: probe_env where
  "demo_probe = \<lparr>prUnicode = kelvin_unicode\<lparr>uToLower := sql_lower\<rparr>, prProbe = (\<lambda>argv. Inl NotExist), prCancelled = False, prNow = 7\<rparr>"


end
