(* ===== verification/Warmup.thy ===== *)
theory Warmup
  imports Suggest_Cache
begin

text \<open>
  Filling the cache of help pages ahead of time (\<^verbatim>\<open>internal/suggestcache/warmup.go\<close>, \<^verbatim>\<open>job.go\<close>). \<^verbatim>\<open>walkTool\<close> visits the tree of a tool's
  subcommands with several workers that share a queue; every section of the code under its mutex is one step. The background job
  has a status file under a file lock, through which other processes add tools to the running job; every locked section is one
  step, and the steps of the worker and of the other processes interleave in any way. The theory shows that a finished walk has
  saved exactly the tree, each page once, and that every tool a running job accepted has been warmed when it ends well.
\<close>

section \<open>Walking a tool\<close>

definition page_of :: "probe_env \<Rightarrow> string list \<Rightarrow> (entity list \<times> string) option" where
  "page_of E argv =
     (case prProbe E argv of
        Inl _ \<Rightarrow> Some ([], [])
      | Inr txt \<Rightarrow> if txt = [] then Some ([], []) else map_option (\<lambda>sm. (Parse (prUnicode E) txt, sm)) (NodeSummary (prUnicode E) txt))"

text \<open>\<^verbatim>\<open>EqualFold\<close> with a word that has neither k nor s ignores the case of ASCII letters only.\<close>

definition child_ok :: "entity \<Rightarrow> bool" where
  "child_ok e \<longleftrightarrow> \<not> (enKind e = KindFlag \<or> HasPrefix (enName e) ''-'') \<and> sql_lower (enName e) \<noteq> ''help'' \<and> SafeArg (enName e)"

text \<open>The loop over the entities of a page, on the visited keys and the queue.\<close>

fun add_children :: "string list \<Rightarrow> entity list \<Rightarrow> string list \<times> string list list \<Rightarrow> string list \<times> string list list" where
  "add_children argv [] vp = vp"
| "add_children argv (e # es) (visited, pending) =
     (let child = argv @ [enName e]
      in if \<not> child_ok e \<or> ArgvKey child \<in> set visited then add_children argv es (visited, pending)
         else add_children argv es (visited @ [ArgvKey child], pending @ [child]))"

definition descend :: "int \<Rightarrow> string list \<Rightarrow> bool" where
  "descend depth argv \<longleftrightarrow> depth \<le> 0 \<or> int (length argv) < depth"

text \<open>An active page is being probed, or it is saved and its entities are known.\<close>

record walk =
  wkPending :: "string list list"
  wkVisited :: "string list"
  wkActive :: "(string list \<times> entity list option) list"
  wkDone :: "string list list"
  wkStore :: cache_store

definition walk_start :: "cache_store \<Rightarrow> string \<Rightarrow> walk" where
  "walk_start s t = \<lparr>wkPending = [[t]], wkVisited = [ArgvKey [t]], wkActive = [], wkDone = [], wkStore = s\<rparr>"

definition walk_take :: "walk \<Rightarrow> walk" where
  "walk_take w = w\<lparr>wkPending := tl (wkPending w), wkActive := wkActive w @ [(hd (wkPending w), None)]\<rparr>"

definition walk_save :: "probe_env \<Rightarrow> string list \<Rightarrow> entity list \<Rightarrow> string \<Rightarrow> walk \<Rightarrow> walk" where
  "walk_save E argv ents sm w =
     w\<lparr>wkStore := fst (store_Save (prNow E) (wkStore w) argv ents sm), wkActive := remove1 (argv, None) (wkActive w) @ [(argv, Some ents)]\<rparr>"

definition walk_finish :: "int \<Rightarrow> string list \<Rightarrow> entity list \<Rightarrow> walk \<Rightarrow> walk" where
  "walk_finish depth argv ents w =
     (let vp = (if descend depth argv then add_children argv ents (wkVisited w, wkPending w) else (wkVisited w, wkPending w))
      in w\<lparr>wkVisited := fst vp, wkPending := snd vp, wkActive := remove1 (argv, Some ents) (wkActive w), wkDone := wkDone w @ [argv]\<rparr>)"

inductive walk_step :: "probe_env \<Rightarrow> nat \<Rightarrow> int \<Rightarrow> walk \<Rightarrow> walk \<Rightarrow> bool" for E jobs depth where
  take: "wkPending w \<noteq> [] \<Longrightarrow> length (wkActive w) < jobs \<Longrightarrow> walk_step E jobs depth w (walk_take w)"
| save: "(argv, None) \<in> set (wkActive w) \<Longrightarrow> page_of E argv = Some (ents, sm) \<Longrightarrow> walk_step E jobs depth w (walk_save E argv ents sm w)"
| finish: "(argv, Some ents) \<in> set (wkActive w) \<Longrightarrow> walk_step E jobs depth w (walk_finish depth argv ents w)"

inductive_cases walk_stepE: "walk_step E jobs depth w w'"

definition walk_over :: "walk \<Rightarrow> bool" where
  "walk_over w \<longleftrightarrow> wkPending w = [] \<and> wkActive w = []"

definition default_jobs :: "int \<Rightarrow> nat" where
  "default_jobs jobs = (if jobs < 1 then 4 else nat jobs)"

text \<open>What \<^verbatim>\<open>warmupTool\<close> does before the walk, with the file and the version of the tool as the system reports them.\<close>

definition warmup_begin :: "cache_store \<Rightarrow> string \<Rightarrow> tool \<Rightarrow> cache_store result" where
  "warmup_begin s t meta =
     (case Purge s [t] of
        (s1, Some err) \<Rightarrow> Inl err
      | (s1, None) \<Rightarrow> (case UpsertTool s1 (meta\<lparr>tlName := t\<rparr>) of (s2, Some err) \<Rightarrow> Inl err | (s2, None) \<Rightarrow> Inr s2))"

text \<open>The tree of a tool: the command words that lead to a page.\<close>

inductive tree :: "probe_env \<Rightarrow> int \<Rightarrow> string \<Rightarrow> string list \<Rightarrow> bool" for E depth t where
  root: "tree E depth t [t]"
| child: "tree E depth t argv \<Longrightarrow> page_of E argv = Some (ents, sm) \<Longrightarrow> descend depth argv \<Longrightarrow> e \<in> set ents \<Longrightarrow> child_ok e \<Longrightarrow>
    tree E depth t (argv @ [enName e])"

section \<open>Keys of command words\<close>

lemma decode_small:
  assumes "fst (decode_rune (b # bs)) < 128"
  shows "b < 128"
proof (rule ccontr)
  assume "\<not> b < 128"
  then show False using assms
    by (auto simp: cont_byte_def split: list.splits if_splits)
qed

lemma safe_runes_ascii: "list_all safe_char (runes w) \<Longrightarrow> list_all (\<lambda>c. safe_char (of_char c)) w"
proof (induction "length w" arbitrary: w rule: less_induct)
  case less
  show ?case
  proof (cases w)
    case (Cons c s)
    let ?d = "decode_rune (map of_char w)"
    have u: "rune_chunks w = (fst ?d, take (max 1 (snd ?d)) w) # rune_chunks (drop (max 1 (snd ?d)) w)"
      using Cons by (subst rune_chunks.simps) (simp add: Let_def split_beta)
    then have r: "safe_char (fst ?d)" using less(2) by (simp add: runes_def)
    then have "fst ?d < 128" by (auto simp: safe_char_def)
    then have b: "(of_char c :: int) < 128" using decode_small[of "of_char c" "map of_char s"] Cons by (simp del: decode_rune.simps)
    then have d: "?d = (of_char c, 1)" using Cons by simp
    have "list_all safe_char (runes s)" using less(2) u d Cons by (simp add: runes_def)
    then show ?thesis using less(1)[of s] r d Cons by simp
  qed simp
qed

lemma SafeArg_no_nul: "SafeArg w \<Longrightarrow> CHR 0x00 \<notin> set w"
  using safe_runes_ascii[of w] by (auto simp: SafeArg_def safeArg_def list_all_iff safe_char_def split: if_splits)

lemma ArgvKey_Cons: "ArgvKey (t # ws) = t @ concat (map (\<lambda>w. CHR 0x00 # w) ws)"
  by (induction ws arbitrary: t) (simp_all add: ArgvKey_def)

lemma concat_nul_inj:
  "\<forall>w \<in> set ws \<union> set vs. CHR 0x00 \<notin> set w \<Longrightarrow> concat (map (\<lambda>w. CHR 0x00 # w) ws) = concat (map (\<lambda>w. CHR 0x00 # w) vs) \<Longrightarrow> ws = vs"
proof (induction ws arbitrary: vs)
  case (Cons w ws)
  then obtain v vs' where vs: "vs = v # vs'" by (cases vs) auto
  let ?r = "\<lambda>us. concat (map (\<lambda>w. CHR 0x00 # w) us)"
  have tw: "takeWhile (\<lambda>c. c \<noteq> CHR 0x00) (u @ ?r us) = u" if "CHR 0x00 \<notin> set u" for u us
    using that by (cases us) (auto simp: takeWhile_append2 takeWhile_tail)
  have "w @ ?r ws = v @ ?r vs'" using Cons.prems(2) vs by simp
  moreover from this have "w = v" using tw[of w ws] tw[of v vs'] Cons.prems(1) vs by simp
  ultimately show ?case using Cons.IH[of vs'] Cons.prems(1) vs by simp
qed (auto dest: sym)

lemma tree_words: "tree E depth t argv \<Longrightarrow> \<exists>ws. argv = t # ws \<and> (\<forall>w \<in> set ws. CHR 0x00 \<notin> set w)"
  by (induction rule: tree.induct) (use SafeArg_no_nul in \<open>auto simp: child_ok_def\<close>)

lemma tree_key_inj: "tree E depth t a \<Longrightarrow> tree E depth t b \<Longrightarrow> ArgvKey a = ArgvKey b \<Longrightarrow> a = b"
  using tree_words[of E depth t a] tree_words[of E depth t b] concat_nul_inj by (auto simp: ArgvKey_Cons) (metis Un_iff)

section \<open>The invariant of a walk\<close>

definition pages :: "walk \<Rightarrow> string list list" where
  "pages w = wkDone w @ map fst (wkActive w) @ wkPending w"

definition active_ok :: "probe_env \<Rightarrow> walk \<Rightarrow> bool" where
  "active_ok E w \<longleftrightarrow> (\<forall>a ents. (a, Some ents) \<in> set (wkActive w) \<longrightarrow> (\<exists>sm. page_of E a = Some (ents, sm)) \<and> page_known (wkStore w) a)"

definition children_in :: "probe_env \<Rightarrow> int \<Rightarrow> string list set \<Rightarrow> string list \<Rightarrow> bool" where
  "children_in E depth S a \<longleftrightarrow>
     (\<forall>ents sm e. page_of E a = Some (ents, sm) \<and> descend depth a \<and> e \<in> set ents \<and> child_ok e \<longrightarrow> a @ [enName e] \<in> S)"

definition walk_inv :: "probe_env \<Rightarrow> int \<Rightarrow> string \<Rightarrow> walk \<Rightarrow> bool" where
  "walk_inv E depth t w \<longleftrightarrow>
     distinct (map ArgvKey (pages w)) \<and> set (wkVisited w) = ArgvKey ` set (pages w) \<and> [t] \<in> set (pages w)
     \<and> (\<forall>a \<in> set (pages w). tree E depth t a)
     \<and> active_ok E w
     \<and> (\<forall>a \<in> set (wkDone w). page_known (wkStore w) a \<and> children_in E depth (set (pages w)) a)"

lemma add_children_new:
  "add_children argv es (v, p) = (v', p') \<Longrightarrow>
   \<exists>new. p' = p @ new \<and> v' = v @ map ArgvKey new \<and> distinct (map ArgvKey new) \<and> ArgvKey ` set new \<inter> set v = {}
     \<and> (\<forall>c \<in> set new. \<exists>e \<in> set es. child_ok e \<and> c = argv @ [enName e]) \<and> (\<forall>e \<in> set es. child_ok e \<longrightarrow> ArgvKey (argv @ [enName e]) \<in> set v')"
proof (induction es arbitrary: v p)
  case (Cons e es)
  let ?c = "argv @ [enName e]"
  show ?case
  proof (cases "\<not> child_ok e \<or> ArgvKey ?c \<in> set v")
    case True
    then have "add_children argv es (v, p) = (v', p')" using Cons.prems by (simp add: Let_def)
    from Cons.IH[OF this] True show ?thesis by auto
  next
    case False
    then have "add_children argv es (v @ [ArgvKey ?c], p @ [?c]) = (v', p')" using Cons.prems by (simp add: Let_def)
    from Cons.IH[OF this] obtain new where n: "p' = (p @ [?c]) @ new" "v' = (v @ [ArgvKey ?c]) @ map ArgvKey new" "distinct (map ArgvKey new)"
      "ArgvKey ` set new \<inter> set (v @ [ArgvKey ?c]) = {}" "\<forall>c \<in> set new. \<exists>e \<in> set es. child_ok e \<and> c = argv @ [enName e]"
      "\<forall>e \<in> set es. child_ok e \<longrightarrow> ArgvKey (argv @ [enName e]) \<in> set v'" by blast
    then show ?thesis using False by (intro exI[of _ "?c # new"]) auto
  qed
qed simp

lemma mset_remove1_fst: "x \<in> set xs \<Longrightarrow> add_mset (fst x) (mset (map fst (remove1 x xs))) = mset (map fst xs)"
  by (induction xs) auto

lemma walk_inv_start: "walk_inv E depth t (walk_start s t)"
  by (simp add: walk_inv_def walk_start_def pages_def active_ok_def tree.root)

lemma walk_inv_perm:
  assumes "walk_inv E depth t w" "mset (pages w') = mset (pages w)" "wkVisited w' = wkVisited w" "wkDone w' = wkDone w"
    and "active_ok E w'"
    and "\<And>a. page_known (wkStore w) a \<Longrightarrow> page_known (wkStore w') a"
  shows "walk_inv E depth t w'"
proof -
  have "set (pages w') = set (pages w)" using assms(2) by (metis set_mset_mset)
  moreover have "distinct (map ArgvKey (pages w'))"
    using assms(1,2) by (metis mset_eq_imp_distinct_iff mset_map walk_inv_def)
  ultimately show ?thesis using assms by (simp add: walk_inv_def)
qed

lemma walk_inv_take: "walk_inv E depth t w \<Longrightarrow> wkPending w \<noteq> [] \<Longrightarrow> walk_inv E depth t (walk_take w)"
proof (rule walk_inv_perm[of E depth t w])
  assume w: "walk_inv E depth t w" "wkPending w \<noteq> []"
  then show "mset (pages (walk_take w)) = mset (pages w)" by (auto simp: walk_take_def pages_def neq_Nil_conv)
  have "active_ok E w" using w(1) by (simp add: walk_inv_def)
  then show "active_ok E (walk_take w)" by (simp add: active_ok_def walk_take_def)
qed (simp_all add: walk_take_def)

lemma walk_inv_save:
  assumes "walk_inv E depth t w" "(argv, None) \<in> set (wkActive w)" "page_of E argv = Some (ents, sm)"
  shows "walk_inv E depth t (walk_save E argv ents sm w)"
proof (rule walk_inv_perm[OF assms(1)])
  show "mset (pages (walk_save E argv ents sm w)) = mset (pages w)"
    using mset_remove1_fst[OF assms(2)] by (simp add: pages_def walk_save_def)
  have "argv \<in> set (pages w)" using assms(2) by (force simp: pages_def)
  then have "argv \<noteq> []" using assms(1) tree_words by (fastforce simp: walk_inv_def)
  then have known: "page_known (wkStore (walk_save E argv ents sm w)) argv"
    by (auto simp: walk_save_def page_known_def store_Save_def Let_def put_page_keys)
  show keep: "page_known (wkStore w) a \<Longrightarrow> page_known (wkStore (walk_save E argv ents sm w)) a" for a
    by (simp add: walk_save_def page_known_Save)
  have "(a, Some ents') \<in> set (wkActive w) \<or> a = argv \<and> ents' = ents" if "(a, Some ents') \<in> set (wkActive (walk_save E argv ents sm w))" for a ents'
    using that notin_set_remove1[of "(a, Some ents')" "wkActive w" "(argv, None)"] by (auto simp: walk_save_def)
  moreover have "active_ok E w" using assms(1) by (simp add: walk_inv_def)
  ultimately show "active_ok E (walk_save E argv ents sm w)" using assms(3) known keep by (fastforce simp: active_ok_def)
qed (simp_all add: walk_save_def)

lemma walk_inv_finish:
  assumes inv: "walk_inv E depth t w" and a: "(argv, Some ents) \<in> set (wkActive w)"
  shows "walk_inv E depth t (walk_finish depth argv ents w)"
proof -
  let ?w = "walk_finish depth argv ents w"
  obtain sm where page: "page_of E argv = Some (ents, sm)" and known: "page_known (wkStore w) argv"
    using inv a unfolding walk_inv_def active_ok_def by blast
  have here: "argv \<in> set (pages w)" using a by (force simp: pages_def)
  then have tr: "tree E depth t argv" using inv by (simp add: walk_inv_def)
  obtain new where new: "wkPending ?w = wkPending w @ new" "wkVisited ?w = wkVisited w @ map ArgvKey new" "distinct (map ArgvKey new)"
      "ArgvKey ` set new \<inter> set (wkVisited w) = {}" "\<forall>c \<in> set new. tree E depth t c"
      "\<forall>e \<in> set ents. descend depth argv \<and> child_ok e \<longrightarrow> ArgvKey (argv @ [enName e]) \<in> set (wkVisited ?w)"
  proof (cases "descend depth argv")
    case True
    obtain v p where vp: "add_children argv ents (wkVisited w, wkPending w) = (v, p)" by fastforce
    from add_children_new[OF vp] obtain new where n: "p = wkPending w @ new" "v = wkVisited w @ map ArgvKey new" "distinct (map ArgvKey new)"
      "ArgvKey ` set new \<inter> set (wkVisited w) = {}" "\<forall>c \<in> set new. \<exists>e \<in> set ents. child_ok e \<and> c = argv @ [enName e]"
      "\<forall>e \<in> set ents. child_ok e \<longrightarrow> ArgvKey (argv @ [enName e]) \<in> set v" by blast
    moreover have "\<forall>c \<in> set new. tree E depth t c"
    proof
      fix c assume "c \<in> set new"
      then obtain e where "e \<in> set ents" "child_ok e" "c = argv @ [enName e]" using n(5) by blast
      then show "tree E depth t c" using tree.child[OF tr page True] by simp
    qed
    moreover have "wkPending ?w = p" "wkVisited ?w = v" using True by (simp_all add: walk_finish_def Let_def vp)
    ultimately show thesis by (intro that[of new]) simp_all
  qed (use that in \<open>simp add: walk_finish_def\<close>)
  have parts: "wkDone ?w = wkDone w @ [argv]" "wkActive ?w = remove1 (argv, Some ents) (wkActive w)" "wkStore ?w = wkStore w"
    by (simp_all add: walk_finish_def Let_def)
  have perm: "mset (pages ?w) = mset (pages w @ new)"
    using mset_remove1_fst[OF a] by (simp add: pages_def parts(1,2) new(1))
  then have st: "set (pages ?w) = set (pages w) \<union> set new" by (metis set_append set_mset_mset)
  have vis: "set (wkVisited w) = ArgvKey ` set (pages w)" "distinct (map ArgvKey (pages w))" using inv by (simp_all add: walk_inv_def)
  then have "distinct (map ArgvKey (pages w @ new))" using new(3,4) by auto
  then have 1: "distinct (map ArgvKey (pages ?w))" using perm by (metis mset_eq_imp_distinct_iff mset_map)
  have 2: "set (wkVisited ?w) = ArgvKey ` set (pages ?w)" using vis new(2) st by auto
  have 3: "\<forall>c \<in> set (pages ?w). tree E depth t c" using inv new(5) st by (auto simp: walk_inv_def)
  have child: "argv @ [enName e] \<in> set (pages ?w)" if "descend depth argv" "e \<in> set ents" "child_ok e" for e
  proof -
    have "ArgvKey (argv @ [enName e]) \<in> ArgvKey ` set (pages ?w)" using new(6) that 2 by blast
    then obtain c where c: "c \<in> set (pages ?w)" "ArgvKey c = ArgvKey (argv @ [enName e])" by (metis imageE)
    then show ?thesis using tree_key_inj 3 tree.child[OF tr page that] by metis
  qed
  have "active_ok E w" using inv by (simp add: walk_inv_def)
  then have 4: "active_ok E ?w" using notin_set_remove1 by (fastforce simp: active_ok_def parts)
  have 5: "children_in E depth (set (pages ?w)) argv" using child page by (auto simp: children_in_def)
  have 6: "children_in E depth (set (pages w)) c \<Longrightarrow> children_in E depth (set (pages ?w)) c" for c
    unfolding children_in_def st by blast
  show ?thesis
    using parts(1,3) 1 2 3 4 5 6 inv st known by (auto simp: walk_inv_def)
qed

lemma walk_inv_step: "walk_step E jobs depth w w' \<Longrightarrow> walk_inv E depth t w \<Longrightarrow> walk_inv E depth t w'"
  by (erule walk_stepE) (use walk_inv_take walk_inv_save walk_inv_finish in auto)

lemma walk_inv_reachable: "(walk_step E jobs depth)\<^sup>*\<^sup>* (walk_start s t) w \<Longrightarrow> walk_inv E depth t w"
  by (induction rule: rtranclp_induct) (auto intro: walk_inv_start walk_inv_step)

lemma walk_tree_done:
  assumes "walk_inv E depth t w" "walk_over w"
  shows "tree E depth t argv \<longleftrightarrow> argv \<in> set (wkDone w)"
proof
  have p: "pages w = wkDone w" using assms(2) by (simp add: pages_def walk_over_def)
  show "argv \<in> set (wkDone w) \<Longrightarrow> tree E depth t argv" using assms(1) p by (simp add: walk_inv_def)
  show "tree E depth t argv \<Longrightarrow> argv \<in> set (wkDone w)"
  proof (induction rule: tree.induct)
    case (child argv ents sm e)
    then have "children_in E depth (set (wkDone w)) argv" using assms(1) p by (simp add: walk_inv_def)
    with child(2,3,4,5) show ?case unfolding children_in_def by blast
  qed (use assms(1) p in \<open>simp add: walk_inv_def\<close>)
qed



text \<open>A tool that prints the same list of subcommands for every command line has an endless tree. Without a depth, which is the default,
  its walk is never over.\<close>

theorem unlimited_walk_never_ends:
  assumes "(walk_step E jobs depth)\<^sup>*\<^sup>* (walk_start s t) w" "depth \<le> 0" "child_ok e"
    and "\<And>argv. \<exists>ents sm. page_of E argv = Some (ents, sm) \<and> e \<in> set ents"
  shows "\<not> walk_over w"
proof
  assume over: "walk_over w"
  have "tree E depth t (t # replicate n (enName e))" for n
  proof (induction n)
    case (Suc n)
    obtain ents sm where "page_of E (t # replicate n (enName e)) = Some (ents, sm)" "e \<in> set ents" using assms(4) by blast
    from tree.child[OF Suc this(1) _ this(2) assms(3)] assms(2) show ?case by (simp add: descend_def replicate_append_same)
  qed (simp add: tree.root)
  then have "range (\<lambda>n. t # replicate n (enName e)) \<subseteq> set (wkDone w)"
    using walk_tree_done[OF walk_inv_reachable[OF assms(1)] over] by blast
  then have "finite (range (\<lambda>n. t # replicate n (enName e)))" using finite_subset by blast
  moreover have "inj (\<lambda>n. t # replicate n (enName e))" by (rule injI) (metis length_Cons length_replicate nat.inject)
  ultimately show False using finite_imageD by blast
qed

section \<open>The background job\<close>

record job_status =
  jsRunning :: bool
  jsPID :: int
  jsTools :: "string list"
  jsTool :: string
  jsLast :: string
  jsRemaining :: "string list"
  jsQueued :: "string list"
  jsPages :: int
  jsPending :: int
  jsInFlight :: int
  jsMessage :: string
  jsStartedAt :: int
  jsFinishedAt :: int
  jsError :: string

definition zero_job :: job_status where
  "zero_job = \<lparr>jsRunning = False, jsPID = 0, jsTools = [], jsTool = [], jsLast = [], jsRemaining = [], jsQueued = [], jsPages = 0, jsPending = 0,
     jsInFlight = 0, jsMessage = [], jsStartedAt = 0, jsFinishedAt = 0, jsError = []\<rparr>"

definition Line :: "job_status \<Rightarrow> string" where
  "Line st =
     (let s = (if jsMessage st = [] then (if jsTool st \<noteq> [] then ''warming '' @ jsTool st else ''starting'') else jsMessage st);
          extra = (if jsRemaining st \<noteq> [] then [''next '' @ strings_Join (jsRemaining st) '' ''] else [])
            @ (if jsQueued st \<noteq> [] then [''queued '' @ strings_Join (jsQueued st) '' ''] else [])
      in if extra = [] then s else s @ ''  ['' @ strings_Join extra ''; '' @ '']'')"

text \<open>The status file: what reading it gives, which is the zero value when it does not exist. Writing it does not fail.\<close>

type_synonym job_file = "job_status result"

definition withJob :: "(job_status \<Rightarrow> job_status result) \<Rightarrow> job_file \<Rightarrow> job_file \<times> go_error option" where
  "withJob fn jf = (case bind_result jf fn of Inl err \<Rightarrow> (jf, Some err) | Inr st \<Rightarrow> (Inr st, None))"

definition containsTool :: "string list \<Rightarrow> string \<Rightarrow> bool" where
  "containsTool xs t = list_ex (\<lambda>x. x = t) xs"

fun appendUnique :: "string list \<Rightarrow> string list \<Rightarrow> string list" where
  "appendUnique dst [] = dst"
| "appendUnique dst (t0 # ts) = (let t = TrimSpace t0 in appendUnique (if t = [] \<or> t \<in> set dst then dst else dst @ [t]) ts)"

text \<open>The processes of the system, and the number in the file of the worker.\<close>

record proc_env =
  peAlive :: "int \<Rightarrow> bool"
  pePidFile :: "string option"

definition pidAlive :: "proc_env \<Rightarrow> int \<Rightarrow> bool" where
  "pidAlive P pid = (pid > 0 \<and> peAlive P pid)"

definition pidFromFile :: "proc_env \<Rightarrow> int" where
  "pidFromFile P =
     (case pePidFile P of None \<Rightarrow> 0 | Some b \<Rightarrow> (case ParseInt (TrimSpace b) of None \<Rightarrow> 0 | Some pid \<Rightarrow> if pid \<le> 0 then 0 else pid))"

definition RunningPID :: "proc_env \<Rightarrow> job_file \<Rightarrow> int option" where
  "RunningPID P jf =
     (let pid = pidFromFile P
      in if pid > 0 \<and> pidAlive P pid then Some pid
         else (case jf of
                 Inr st \<Rightarrow> if jsRunning st \<and> jsPID st > 0 \<and> pidAlive P (jsPID st) then Some (jsPID st) else None
               | Inl _ \<Rightarrow> None))"

definition jobIsLive :: "proc_env \<Rightarrow> job_file \<Rightarrow> job_status \<Rightarrow> bool" where
  "jobIsLive P jf st =
     (if \<not> jsRunning st then False
      else if jsPID st > 0 \<and> \<not> pidAlive P (jsPID st) then False
      else if (case RunningPID P jf of None \<Rightarrow> False | Some pid \<Rightarrow> jsPID st = 0 \<or> pid = jsPID st) then True
      else jsPID st > 0 \<and> pidAlive P (jsPID st))"

fun enqueue_tools :: "string list \<Rightarrow> job_status \<times> string list \<Rightarrow> job_status \<times> string list" where
  "enqueue_tools [] r = r"
| "enqueue_tools (t0 # ts) (cur, added) =
     (let t = TrimSpace t0
      in if t = [] \<or> t = jsTool cur \<or> containsTool (jsRemaining cur) t \<or> containsTool (jsQueued cur) t then enqueue_tools ts (cur, added)
         else enqueue_tools ts (cur\<lparr>jsQueued := jsQueued cur @ [t], jsTools := appendUnique (jsTools cur) [t]\<rparr>, added @ [t]))"

definition errNotRunning :: go_error where
  "errNotRunning = Errorf ''warmup not running''"

definition Enqueue :: "proc_env \<Rightarrow> job_file \<Rightarrow> string list \<Rightarrow> job_file \<times> string list \<times> go_error option" where
  "Enqueue P jf tools =
     (case withJob (\<lambda>cur. if jobIsLive P jf cur then Inr (fst (enqueue_tools tools (cur, []))) else Inl errNotRunning) jf of
        (jf', Some err) \<Rightarrow> (jf', [], Some err)
      | (jf', None) \<Rightarrow> (jf', (case jf of Inr cur \<Rightarrow> snd (enqueue_tools tools (cur, [])) | Inl _ \<Rightarrow> []), None))"

definition takeQueued :: "job_file \<Rightarrow> job_file \<times> string list" where
  "takeQueued jf = (fst (withJob (\<lambda>st. Inr (st\<lparr>jsQueued := []\<rparr>)) jf), case jf of Inr st \<Rightarrow> jsQueued st | Inl _ \<Rightarrow> [])"

text \<open>
  \<^verbatim>\<open>Start\<close> adds the tools to the running job or launches a worker, whose process has the number \<open>pid\<close>. The status of the new worker is
  written without the lock and whatever the file holds by then.
\<close>

definition launch_status :: "int \<Rightarrow> int \<Rightarrow> string list \<Rightarrow> job_status" where
  "launch_status pid now tools =
     zero_job\<lparr>jsRunning := True, jsPID := pid, jsTools := tools, jsRemaining := tl tools, jsStartedAt := now, jsMessage := ''starting''\<rparr>"

definition Start :: "proc_env \<Rightarrow> int result \<Rightarrow> int \<Rightarrow> job_file \<Rightarrow> string list \<Rightarrow> job_file \<times> (int \<times> bool \<times> string list) result" where
  "Start P launched now jf tools =
     (if tools = [] then (jf, Inl (Errorf ''specify tools to warm''))
      else (let launch = (case launched of
                  Inl err \<Rightarrow> (jf, Inl err)
                | Inr pid \<Rightarrow> (Inr (launch_status pid now tools), Inr (pid, False, [])))
            in case RunningPID P jf of
                 None \<Rightarrow> launch
               | Some _ \<Rightarrow> (case Enqueue P jf tools of
                   (jf', added, None) \<Rightarrow> (jf', Inr (case jf' of Inr st \<Rightarrow> jsPID st | Inl _ \<Rightarrow> 0, True, added))
                 | (jf', _, Some err) \<Rightarrow> if err = errNotRunning then launch else (jf', Inl err))))"

text \<open>The sections \<^verbatim>\<open>RunWorker\<close> runs under the lock.\<close>

definition job_begin :: "int \<Rightarrow> int \<Rightarrow> string list \<Rightarrow> job_status \<Rightarrow> job_status" where
  "job_begin pid now tools st =
     st\<lparr>jsRunning := True, jsPID := pid, jsTools := appendUnique (jsTools st) tools, jsStartedAt := (if jsStartedAt st = 0 then now else jsStartedAt st),
        jsMessage := ''starting'', jsError := [], jsFinishedAt := 0\<rparr>"

definition job_stop :: "int \<Rightarrow> job_status \<Rightarrow> job_status" where
  "job_stop now st =
     st\<lparr>jsQueued := [], jsRemaining := [], jsRunning := False, jsFinishedAt := now, jsInFlight := 0, jsPending := 0,
        jsMessage := (if jsMessage st = [] \<or> HasPrefix (jsMessage st) ''starting'' then ''warmup complete'' else jsMessage st)\<rparr>"

definition job_pick :: "int \<Rightarrow> string \<Rightarrow> string list \<Rightarrow> job_status \<Rightarrow> job_status" where
  "job_pick pid t rest st =
     st\<lparr>jsRunning := True, jsPID := pid, jsTool := t, jsRemaining := rest, jsTools := appendUnique (appendUnique (jsTools st) [t]) rest,
        jsPages := 0, jsPending := 0, jsInFlight := 0, jsLast := [], jsMessage := ''warming '' @ t\<rparr>"

definition job_progress :: "int \<Rightarrow> string \<Rightarrow> string \<Rightarrow> int \<times> int \<times> int \<Rightarrow> string \<Rightarrow> job_status \<Rightarrow> job_status" where
  "job_progress pid t lst = (\<lambda>(n, pend, infl) msg st.
     st\<lparr>jsRunning := True, jsPID := pid, jsTool := t, jsLast := lst, jsPages := n, jsPending := pend, jsInFlight := infl, jsMessage := msg\<rparr>)"

definition job_fail :: "int \<Rightarrow> string \<Rightarrow> job_status \<Rightarrow> job_status" where
  "job_fail now err st =
     st\<lparr>jsRunning := False, jsFinishedAt := now, jsInFlight := 0, jsPending := 0, jsError := err,
        jsMessage := (if jsMessage st = [] then err else jsMessage st)\<rparr>"

datatype job_phase = Head | Taken | Warming string | Stopped | Failed

record warm_job =
  wjFile :: job_file
  wjRemaining :: "string list"
  wjPhase :: job_phase
  wjWarmed :: "string list"
  wjAccepted :: "string list"

definition locked_section :: "(job_status \<Rightarrow> job_status) \<Rightarrow> job_file \<Rightarrow> job_file" where
  "locked_section fn jf = fst (withJob (\<lambda>st. Inr (fn st)) jf)"

definition job_start :: "int \<Rightarrow> int \<Rightarrow> string list \<Rightarrow> job_file \<Rightarrow> warm_job" where
  "job_start pid now tools jf =
     \<lparr>wjFile = locked_section (job_begin pid now tools) jf, wjRemaining = tools, wjPhase = Head, wjWarmed = [], wjAccepted = tools\<rparr>"

text \<open>
  One step: another process adds tools; the worker takes the queue, finds nothing left (and looks at the queue once more before it
  stops), picks the next tool, reports progress, or ends the tool well or badly. When the file cannot be read, the section does
  nothing.
\<close>

inductive job_step :: "proc_env \<Rightarrow> int \<Rightarrow> warm_job \<Rightarrow> warm_job \<Rightarrow> bool" for P pid where
  enqueue: "Enqueue P (wjFile j) tools = (jf, added, err) \<Longrightarrow>
    job_step P pid j (j\<lparr>wjFile := jf, wjAccepted := wjAccepted j @ added\<rparr>)"
| take: "wjPhase j = Head \<Longrightarrow> takeQueued (wjFile j) = (jf, q) \<Longrightarrow>
    job_step P pid j (j\<lparr>wjFile := jf, wjRemaining := appendUnique (wjRemaining j) q, wjPhase := Taken\<rparr>)"
| idle_unreadable: "wjPhase j = Taken \<Longrightarrow> wjRemaining j = [] \<Longrightarrow> wjFile j = Inl err \<Longrightarrow> job_step P pid j (j\<lparr>wjPhase := Head\<rparr>)"
| idle_more: "wjPhase j = Taken \<Longrightarrow> wjRemaining j = [] \<Longrightarrow> wjFile j = Inr st \<Longrightarrow> appendUnique [] (jsQueued st) \<noteq> [] \<Longrightarrow>
    job_step P pid j (j\<lparr>wjFile := Inr (st\<lparr>jsQueued := []\<rparr>), wjRemaining := appendUnique [] (jsQueued st), wjPhase := Head\<rparr>)"
| idle_stop: "wjPhase j = Taken \<Longrightarrow> wjRemaining j = [] \<Longrightarrow> wjFile j = Inr st \<Longrightarrow> appendUnique [] (jsQueued st) = [] \<Longrightarrow>
    job_step P pid j (j\<lparr>wjFile := Inr (job_stop now st), wjPhase := Stopped\<rparr>)"
| pick: "wjPhase j = Taken \<Longrightarrow> wjRemaining j = t # rest \<Longrightarrow>
    job_step P pid j (j\<lparr>wjFile := locked_section (job_pick pid t rest) (wjFile j), wjRemaining := rest, wjPhase := Warming t\<rparr>)"
| progress: "wjPhase j = Warming t \<Longrightarrow> job_step P pid j (j\<lparr>wjFile := locked_section (job_progress pid t lst nums msg) (wjFile j)\<rparr>)"
| warmed: "wjPhase j = Warming t \<Longrightarrow> job_step P pid j (j\<lparr>wjPhase := Head, wjWarmed := wjWarmed j @ [t]\<rparr>)"
| failed: "wjPhase j = Warming t \<or> wjPhase j = Head \<or> wjPhase j = Stopped \<Longrightarrow>
    job_step P pid j (j\<lparr>wjFile := locked_section (job_fail now err) (wjFile j), wjPhase := Failed\<rparr>)"

inductive_cases job_stepE: "job_step P pid j j'"

lemma set_appendUnique: "set (appendUnique dst ts) = set dst \<union> (TrimSpace ` set ts - {[]})"
  by (induction dst ts rule: appendUnique.induct) (auto simp: Let_def)

definition plain_tool :: "string \<Rightarrow> bool" where
  "plain_tool t \<longleftrightarrow> t \<noteq> [] \<and> TrimSpace t = t"

lemma plain_in_appendUnique: "plain_tool a \<Longrightarrow> a \<in> set dst \<union> set ts \<Longrightarrow> a \<in> set (appendUnique dst ts)"
  by (force simp: set_appendUnique plain_tool_def)

lemma enqueue_tools_queue:
  "enqueue_tools ts (cur, added) = (cur', added') \<Longrightarrow>
     \<exists>new. added' = added @ new \<and> jsQueued cur' = jsQueued cur @ new \<and> jsRunning cur' = jsRunning cur"
  by (induction ts arbitrary: cur added) (fastforce simp: Let_def split: if_splits)+

lemma Enqueue_effect:
  assumes "Enqueue P (Inr st) tools = (jf, added, err)"
  shows "(jf = Inr st \<and> added = []) \<or>
     (\<exists>st'. jf = Inr st' \<and> jsQueued st' = jsQueued st @ added \<and> jsRunning st' = jsRunning st \<and> jsRunning st)"
proof -
  obtain cur' new where e: "enqueue_tools tools (st, []) = (cur', new)" by fastforce
  from enqueue_tools_queue[OF e] assms show ?thesis
    by (auto simp: Enqueue_def withJob_def e jobIsLive_def split: if_splits)
qed

text \<open>Where an accepted tool is: in the queue, with the worker, or warmed.\<close>

definition places :: "warm_job \<Rightarrow> job_status \<Rightarrow> string set" where
  "places j st = set (jsQueued st) \<union> set (wjRemaining j) \<union> set (wjWarmed j) \<union> (case wjPhase j of Warming t \<Rightarrow> {t} | _ \<Rightarrow> {})"

definition job_inv :: "warm_job \<Rightarrow> bool" where
  "job_inv j \<longleftrightarrow> (\<exists>st. wjFile j = Inr st
     \<and> (wjPhase j \<noteq> Failed \<longrightarrow> (\<forall>a \<in> set (wjAccepted j). plain_tool a \<longrightarrow> a \<in> places j st))
     \<and> (wjPhase j = Stopped \<longrightarrow> \<not> jsRunning st \<and> jsQueued st = [] \<and> wjRemaining j = []))"

lemma locked_section_Inr [simp]: "locked_section fn (Inr st) = Inr (fn st)"
  by (simp add: locked_section_def withJob_def)

lemma section_queues [simp]:
  "jsQueued (job_begin pid now tools st) = jsQueued st" "jsQueued (job_pick pid t rest st) = jsQueued st"
  "jsQueued (job_progress pid t lst nums msg st) = jsQueued st" "jsQueued (job_fail now err st) = jsQueued st"
  "jsQueued (job_stop now st) = []" "\<not> jsRunning (job_stop now st)"
  by (simp_all add: job_begin_def job_pick_def job_progress_def job_fail_def job_stop_def split_beta)

lemma job_inv_start: "job_inv (job_start pid now tools (Inr st))"
  by (simp add: job_inv_def job_start_def places_def)

lemma job_inv_step: "job_step P pid j j' \<Longrightarrow> job_inv j \<Longrightarrow> job_inv j'"
proof (induction rule: job_step.induct)
  case (enqueue j tools jf added err)
  then obtain st where st: "wjFile j = Inr st" and inv: "job_inv j" by (auto simp: job_inv_def)
  from Enqueue_effect[OF enqueue(1)[unfolded st]] show ?case
  proof
    assume "jf = Inr st \<and> added = []"
    then show ?thesis using inv st by (auto simp: job_inv_def places_def)
  next
    assume "\<exists>st'. jf = Inr st' \<and> jsQueued st' = jsQueued st @ added \<and> jsRunning st' = jsRunning st \<and> jsRunning st"
    then show ?thesis using inv st by (auto simp: job_inv_def places_def)
  qed
next
  case (take j jf q)
  then obtain st where st: "wjFile j = Inr st" by (auto simp: job_inv_def)
  then have q: "jf = Inr (st\<lparr>jsQueued := []\<rparr>)" "q = jsQueued st" using take(2) by (auto simp: takeQueued_def withJob_def)
  then show ?case using take(1,3) st plain_in_appendUnique[of _ "wjRemaining j" q] by (fastforce simp: job_inv_def places_def)
next
  case (idle_more j st)
  then show ?case using plain_in_appendUnique[of _ "[]" "jsQueued st"] by (fastforce simp: job_inv_def places_def)
next
  case (idle_stop j st now)
  then show ?case using plain_in_appendUnique[of _ "[]" "jsQueued st"] by (fastforce simp: job_inv_def places_def)
qed (auto simp: job_inv_def places_def)


definition demo_proc :: proc_env where
  "demo_proc = \<lparr>peAlive = (\<lambda>_. True), pePidFile = None\<rparr>"


end
