(* ===== verification/Spec2Isabelle.thy ===== *)
theory Spec2Isabelle
  imports Rpc Terminal_Queues Overlay Config Importers Advanced Warmup Bootstrap
begin

text \<open>
  \<^bold>\<open>remnix\<close>, a shell history that a person's devices share over a storage that knows nothing of it.

  \<^medskip> \<^bold>\<open>The program.\<close> Every command a shell runs is recorded in a local SQLite database and kept in an in-memory cache that answers
  suggestions while the user types. Each change is also an event in a log. A daemon runs a cycle at intervals: it pulls the bundles of
  events the other devices have put on a remote, applies them, publishes its own pending events as an encrypted bundle, writes
  checkpoints and acknowledgements, and deletes what every device has acknowledged. A remote is a directory or a store reached through
  another program; several may be configured and are mirrored. The master key is wrapped in slots (recovery phrase, hardware token,
  keyring) and rotated by generations. Shells talk to the daemon over a socket with two protocols. Inside a terminal session a proxy
  filters what programs print, answers queries of the terminal and draws an overlay; the help pages of tools are parsed and cached for
  its suggestions.

  \<^medskip> \<^bold>\<open>Theories and sources.\<close> Definitions keep the names of the functions they model; a prefix or suffix is added only where
  two packages or HOL use the same name (\<open>dir_put\<close>, \<open>store_Save\<close>, \<open>config_Default\<close>). Paths are under \<^verbatim>\<open>src/internal/\<close>.

    \<^item> \<open>Prelude\<close>: errors as values (\<open>go_error\<close>, \<open>result\<close>), times in nanoseconds, \<^verbatim>\<open>strings\<close>, \<^verbatim>\<open>path\<close> and \<^verbatim>\<open>strconv\<close> of the standard
      library, stable sorting, and the locale \<open>strict_weak_less\<close> of comparison functions.
    \<^item> \<open>Frontier\<close>: \<^verbatim>\<open>sync/frontier\<close>; \<open>Interner\<close>, \<open>Db\<close>: interned strings (\<^verbatim>\<open>history/intern.go\<close>) and the tables of \<^verbatim>\<open>db/schema.sql\<close>;
      \<open>History_Store\<close>, \<open>Query\<close>, \<open>Advanced\<close>: \<^verbatim>\<open>history/store.go\<close>, its queries, and the search by regular expressions \<^verbatim>\<open>history/advanced.go\<close>;
      \<open>Event\<close>, \<open>Changes\<close>, \<open>Device\<close>: the event log, change sets and the registry of devices.
    \<^item> \<open>Merge\<close>: how an event is applied (\<^verbatim>\<open>sync/merge\<close>); \<open>Bundle\<close>, \<open>Checkpoint\<close>: \<^verbatim>\<open>crypto/envelope\<close>, \<^verbatim>\<open>sync/bundle\<close>, \<^verbatim>\<open>sync/checkpoint\<close>, \<^verbatim>\<open>sync/ack\<close>;
      \<open>Transport\<close>, \<open>Directory\<close>, \<open>Equalize\<close>: the interface of a remote, the directory transport and the mirroring of endpoints.
    \<^item> \<open>Pull\<close>, \<open>Roster\<close>, \<open>Engine\<close>, \<open>Bootstrap\<close>, \<open>Sync\<close>, \<open>Repository\<close>: \<^verbatim>\<open>sync/syncer\<close>, pulling, the signed roster, publishing, checkpoints,
      rotation, recovery, pruning, the probe and the initialisation of a remote; \<open>Gc\<close>, \<open>Gc_Safety\<close>: \<^verbatim>\<open>sync/gc\<close>.
    \<^item> \<open>Keys\<close>, \<open>Keystore\<close>: \<^verbatim>\<open>crypto/keys\<close>, \<^verbatim>\<open>crypto/recovery\<close>, \<^verbatim>\<open>crypto/fido2\<close> and the tables of keys.
    \<^item> \<open>Cache\<close>, \<open>Cache_Refine\<close>, \<open>Cache_Spec\<close>: the command cache \<^verbatim>\<open>history/cache.go\<close>, its abstraction and its specification; \<open>Rank\<close>:
      \<^verbatim>\<open>search\<close>; \<open>Service\<close>, \<open>Service_Fresh\<close>: \<^verbatim>\<open>history/service.go\<close>.
    \<^item> \<open>App\<close>, \<open>App_Safety\<close>, \<open>Config\<close>: \<^verbatim>\<open>app\<close> and \<^verbatim>\<open>config\<close>; \<open>Daemon\<close>, \<open>Rpc\<close>: the cycle, the scheduler and the two protocols of \<^verbatim>\<open>daemon\<close>.
    \<^item> \<open>Terminal\<close>, \<open>Terminal_Queues\<close>, \<open>Keyboard\<close>, \<open>Overlay\<close>: \<^verbatim>\<open>terminal\<close> (frames, queues, keyboard modes, queries, resizes), the placement of
      the overlay, screen snapshots and the kitty panel.
    \<^item> \<open>Importers\<close>: \<^verbatim>\<open>importers\<close>; \<open>Helpparse\<close>, \<open>Suggest_Cache\<close>, \<open>Warmup\<close>: \<^verbatim>\<open>helpparse\<close> and \<^verbatim>\<open>suggestcache\<close>.

  \<^medskip> \<^bold>\<open>State and effects.\<close> A table is a list of rows in the order of their row ids and a Go map an association list or a partial
  function; a struct is a record, an error a value of \<open>go_error\<close>, a function with an error a function to \<open>result\<close> or one that returns
  the state and an optional error. The state a function changes is passed and returned, also on its error paths, so what a failed
  operation leaves behind can be stated. A transaction that fails returns the old database. Operations under one mutex are atomic;
  where threads or processes interleave, the model is a step relation: ticks, requests and reloads of the daemon
  (\<open>Daemon\<close>), the producers and the consumer of the terminal queues (\<open>Terminal_Queues\<close>), the workers that walk a tool's help pages and
  the job other processes add tools to (\<open>Warmup\<close>).

  Machine integers are kept at their width where they can overflow: sequence numbers and counters are taken modulo \<open>2^64\<close> or \<open>2^63\<close>, the
  indices of the cache modulo \<open>2^32\<close>, durations wrap as \<^verbatim>\<open>int64\<close>.

  \<^medskip> \<^bold>\<open>Parameters.\<close> Code outside the repository is an argument of the definitions, in records named \<open>..._env\<close>, \<open>..._cbor\<close> or
  \<open>..._codec\<close>: the AEAD cipher, hashes, HKDF and HMAC, CBOR, JSON, YAML and gzip, the random source, UUIDs, the clock, \<^verbatim>\<open>strings.ToLower\<close> and
  the letters of Unicode, compiled regular expressions, the keyring and the tokens, running a tool for its help. A theorem that relies on one of
  them says how in its hypotheses (an opened envelope is the one that was sealed, a decoder inverts its encoder), and its witness
  instantiates the parameter with a concrete function. The clock is read once per operation. Where the code ranges over a Go map,
  whose order is unspecified, the model takes one order (that of the listing or of insertion); the theorems do not mention it.

  \<^medskip> \<^bold>\<open>Interfaces.\<close> Locales state what a client relies on, and are interpreted on the model's own definitions:
    \<^item> \<open>strict_weak_less\<close> (sorting), for frontiers, search results, checkpoints, generations, cached commands, runs and help entities;
    \<^item> \<open>interner\<close>, for the table of strings, the pool of the cache and the dictionary of a snapshot;
    \<^item> \<open>replica\<close>, from which the convergence of replicas follows, for the merge of events; \<open>history_hooks\<close>, for the events the service enqueues;
    \<^item> \<open>remote_store\<close> and \<open>mirrored\<close>, for the directory transport and lists of directory endpoints;
    \<^item> \<open>smk_wrapping\<close>, for the recovery phrase and the hardware token; \<open>writer\<close>, for the blocking and the polling writer;
    \<^item> \<open>token_scanner\<close>, for the three scanners of terminal input and output, which must not depend on how the bytes are cut.

  \<^medskip> \<^bold>\<open>What is shown.\<close>
    \<^item> \<^emph>\<open>Merging and pulling.\<close> The visible history after any list of valid events is the set of created entries that no tombstone
      names, so the order of application does not matter; a pull shows everything the remote holds, and two devices with the same events
      agree. A bootstrap from a checkpoint never undoes a local deletion.
    \<^item> \<^emph>\<open>Deleting.\<close> Garbage collection plans only bundles every required device has acknowledged and keeps a checkpoint for them; the
      application as a whole spares a bundle some registered device still needs, whatever fails at other endpoints.
    \<^item> \<^emph>\<open>Keys.\<close> At every point of a rotation one generation is active, and it is the one the remote has committed to; removing a slot
      leaves a way in; wrapping, sealing and packing are inverted; a published roster verifies and lists no retired device; a prune is all or
      nothing locally.
    \<^item> \<^emph>\<open>Remotes.\<close> The directory transport is a map from keys to contents with atomic replacement; mirroring makes the endpoints equal up to
      skipped keys; a remote is initialised once.
    \<^item> \<^emph>\<open>Suggestions.\<close> The cache with its pool, swap removal and rebuilds implements a map from commands to summaries; the service never
      serves stale suggestions once data_version has moved; the rank of a term uses the shortest window; the search by regular
      expressions agrees with its reference filter where the SQL it runs is exact.
    \<^item> \<^emph>\<open>Daemon.\<close> One cycle runs at a time, the lock is left as found, the delay is bounded, every request gets one well-formed
      reply, and both protocols have the same effect.
    \<^item> \<^emph>\<open>Terminal.\<close> Input is delivered complete and in order, waiting ends, a write is complete or reported, keyboard modes
      do not reach the outer terminal, and snapshots are read back.
    \<^item> \<^emph>\<open>Configuration, imports, help.\<close> A loaded configuration is well formed and edits keep it so; history files are read back; names taken
      from a help page are safe to be passed to the tool, tools are run with safe words only and once per page, the walk saves exactly the tree, and no
      accepted tool is lost.
  Theorems on single inputs after the properties (section titles \<^emph>\<open>Divergences\<close> and the like) show where the code does something else
  than a comment, a document or another part of the code says.

  \<^medskip> \<^bold>\<open>Bounds and termination.\<close> The cache is proved right for fewer than \<open>2^29\<close> operations, since its indices have 32 bits and its
  sweep counters add at most a few entries per operation; sequence numbers below \<open>2^63\<close>, as SQLite stores them signed; the delay of the
  scheduler for intervals up to nine years, beyond which the product wraps. Control sequences are bounded as in the code (64 bytes in
  the filter, 128 in the scanner of queries, 256 in the decoder). All functions are total with a measure where the recursion is not
  structural, but \<open>writeFull\<close>, which retries a blocked write without a limit and is a partial function; that it returns
  is proved for writers that do not block for ever. The walk of help pages is a relation: it ends for a finite tree, and a tool that prints
  the same subcommands on every page is shown to keep it going when the depth is not limited.

  \<^medskip> \<^bold>\<open>Not modelled.\<close>
    \<^item> the user interface (\<^verbatim>\<open>tui\<close>, \<^verbatim>\<open>cmd/remnix\<close>, the setup dialogues, reports of \<^verbatim>\<open>doctor\<close>), which renders the results of the parts above over a
      library that is not part of the repository;
    \<^item> \<^verbatim>\<open>shell\<close>, whose logic is in the generated scripts of four shells; \<^verbatim>\<open>transport/rclone\<close> and the rsync and scp transports, which call other
      programs and a library; the hardware tokens, the keyring and the services of the operating system;
    \<^item> sockets, pseudo terminals, signals, process control and the installation of the daemon; the screen emulator;
    \<^item> opening the database and its migrations, writing YAML back with its comments, and formatting of messages for people.
\<close>

end
